(* ===== verification/Reldex_Prelude.thy ===== *)
theory Reldex_Prelude
  imports Main
begin

text \<open>
  Shared vocabulary of the development: Unicode text as the list of its scalar values with
  the byte offsets of its UTF-8 encoding (Rust's \<^verbatim>\<open>&str\<close>), the string operations
  of the Rust standard library the sources call, the saturating \<^verbatim>\<open>usize\<close>
  arithmetic, and the lemma collections the component theories use.

  A Rust \<^verbatim>\<open>&str\<close> is a valid UTF-8 byte sequence.  Here it is the list of the scalar
  values it encodes; \<open>len_utf8\<close> gives the number of bytes of each, so that every offset
  of the sources (a byte offset) is an offset here.  A slice at an offset that is not a
  character boundary panics in Rust; \<open>is_char_boundary\<close> is the predicate the theorems
  establish for the offsets the code slices at.
\<close>

named_theorems byte_simps \<open>byte lengths and slices of text\<close>
named_theorems scan_simps \<open>how a scanner moves its cursor\<close>
named_theorems store_defs \<open>the definitions of the result store's operations\<close>

section \<open>Unicode text\<close>

type_synonym uchar = int \<comment> \<open>a Unicode scalar value (Rust's \<^verbatim>\<open>char\<close>)\<close>
type_synonym ustr = "uchar list"

definition us :: "string \<Rightarrow> ustr" where
  "us s = map of_char s"

definition is_scalar :: "uchar \<Rightarrow> bool" where
  "is_scalar c \<longleftrightarrow> 0 \<le> c \<and> c < 0xD800 \<or> 0xE000 \<le> c \<and> c \<le> 0x10FFFF"

definition len_utf8 :: "uchar \<Rightarrow> nat" where
  "len_utf8 c = (if c < 0x80 then 1 else if c < 0x800 then 2 else if c < 0x10000 then 3 else 4)"

fun byte_len :: "ustr \<Rightarrow> nat" where
  "byte_len [] = 0"
| "byte_len (c # cs) = len_utf8 c + byte_len cs"

fun drop_bytes :: "nat \<Rightarrow> ustr \<Rightarrow> ustr" where
  "drop_bytes n [] = []"
| "drop_bytes n (c # cs) = (if n = 0 then c # cs else drop_bytes (n - len_utf8 c) cs)"

fun take_bytes :: "nat \<Rightarrow> ustr \<Rightarrow> ustr" where
  "take_bytes n [] = []"
| "take_bytes n (c # cs) = (if n = 0 then [] else c # take_bytes (n - len_utf8 c) cs)"

text \<open>\<^verbatim>\<open>&s[a..b]\<close>, \<^verbatim>\<open>&s[..b]\<close> and \<^verbatim>\<open>&s[a..]\<close>.\<close>

definition slice :: "ustr \<Rightarrow> nat \<Rightarrow> nat \<Rightarrow> ustr" where
  "slice s a b = take_bytes (b - a) (drop_bytes a s)"

fun is_char_boundary :: "ustr \<Rightarrow> nat \<Rightarrow> bool" where
  "is_char_boundary [] n = (n = 0)"
| "is_char_boundary (c # cs) n =
     (n = 0 \<or> len_utf8 c \<le> n \<and> is_char_boundary cs (n - len_utf8 c))"

lemma len_utf8_pos [simp]: "0 < len_utf8 c"
  by (simp add: len_utf8_def)

lemma len_utf8_neq_0 [simp]: "len_utf8 c \<noteq> 0"
  by (simp add: len_utf8_def)

lemma len_utf8_ge_1: "1 \<le> len_utf8 c"
  by (simp add: len_utf8_def)

lemma byte_len_append [simp, byte_simps]: "byte_len (xs @ ys) = byte_len xs + byte_len ys"
  by (induction xs) auto

lemma byte_len_eq_0 [simp]: "byte_len xs = 0 \<longleftrightarrow> xs = []"
  by (cases xs) auto

lemma byte_len_pos [simp]: "0 < byte_len xs \<longleftrightarrow> xs \<noteq> []"
  using byte_len_eq_0 [of xs] by linarith

lemma length_le_byte_len: "length xs \<le> byte_len xs"
proof (induction xs)
  case (Cons c cs)
  then show ?case using len_utf8_ge_1 [of c] by simp
qed simp

lemma drop_bytes_0 [simp, byte_simps]: "drop_bytes 0 s = s"
  by (cases s) auto

lemma take_bytes_0 [simp, byte_simps]: "take_bytes 0 s = []"
  by (cases s) auto

lemma drop_bytes_append [simp, byte_simps]: "drop_bytes (byte_len xs) (xs @ ys) = ys"
  by (induction xs) auto

lemma take_bytes_append [simp, byte_simps]: "take_bytes (byte_len xs) (xs @ ys) = xs"
  by (induction xs) auto

lemma drop_bytes_all [simp, byte_simps]: "drop_bytes (byte_len xs) xs = []"
  using drop_bytes_append [of xs "[]"] by simp

lemma take_bytes_all [simp, byte_simps]: "take_bytes (byte_len xs) xs = xs"
  using take_bytes_append [of xs "[]"] by simp

lemma slice_append [byte_simps]:
  assumes "a = byte_len xs" and "b = a + byte_len ys"
  shows "slice (xs @ ys @ zs) a b = ys"
  using assms by (simp add: slice_def)

lemma slice_prefix [byte_simps]: "slice (xs @ ys) 0 (byte_len xs) = xs"
  by (simp add: slice_def)

lemma slice_suffix [byte_simps]: "slice (xs @ ys) (byte_len xs) (byte_len xs + byte_len ys) = ys"
  by (simp add: slice_def)

lemma is_char_boundary_0 [simp]: "is_char_boundary s 0"
  by (cases s) auto

lemma is_char_boundary_iff:
  "is_char_boundary s n \<longleftrightarrow> (\<exists>xs ys. s = xs @ ys \<and> n = byte_len xs)"
proof (induction s arbitrary: n)
  case Nil
  then show ?case by auto
next
  case (Cons c cs)
  show ?case
  proof
    assume b: "is_char_boundary (c # cs) n"
    show "\<exists>xs ys. c # cs = xs @ ys \<and> n = byte_len xs"
    proof (cases "n = 0")
      case True
      then have "c # cs = [] @ (c # cs) \<and> n = byte_len []" by simp
      then show ?thesis by blast
    next
      case False
      with b Cons.IH obtain xs ys where "cs = xs @ ys" "n - len_utf8 c = byte_len xs"
        "len_utf8 c \<le> n" by auto
      then have "c # cs = (c # xs) @ ys \<and> n = byte_len (c # xs)" by simp
      then show ?thesis by blast
    qed
  next
    assume "\<exists>xs ys. c # cs = xs @ ys \<and> n = byte_len xs"
    then obtain xs ys where xy: "c # cs = xs @ ys" "n = byte_len xs" by blast
    show "is_char_boundary (c # cs) n"
    proof (cases xs)
      case Nil
      with xy show ?thesis by simp
    next
      case (Cons d ds)
      with xy Cons.IH show ?thesis by auto
    qed
  qed
qed

lemma is_char_boundary_prefix [simp]: "is_char_boundary (xs @ ys) (byte_len xs)"
  by (auto simp: is_char_boundary_iff)

lemma is_char_boundary_end [simp]: "is_char_boundary s (byte_len s)"
  using is_char_boundary_prefix [of s "[]"] by simp

lemma is_char_boundary_le: "is_char_boundary s n \<Longrightarrow> n \<le> byte_len s"
  by (auto simp: is_char_boundary_iff)

subsection \<open>Character classes\<close>

text \<open>
  \<^verbatim>\<open>char::is_whitespace\<close> is the Unicode property \<^verbatim>\<open>White_Space\<close>, a closed list.
  \<^verbatim>\<open>char::is_alphabetic\<close> and \<^verbatim>\<open>char::is_numeric\<close> read the Unicode tables compiled
  into the standard library: they are the parameter \<open>unicode\<close> of the definitions that use
  them, and \<^verbatim>\<open>char::is_alphanumeric\<close> is their disjunction, as documented.
\<close>

definition is_whitespace :: "uchar \<Rightarrow> bool" where
  "is_whitespace c \<longleftrightarrow> 9 \<le> c \<and> c \<le> 13 \<or> c = 32 \<or> c = 0x85 \<or> c = 0xA0 \<or> c = 0x1680 \<or>
     0x2000 \<le> c \<and> c \<le> 0x200A \<or> c = 0x2028 \<or> c = 0x2029 \<or> c = 0x202F \<or> c = 0x205F \<or> c = 0x3000"

record unicode =
  is_alphabetic :: "uchar \<Rightarrow> bool"
  is_numeric :: "uchar \<Rightarrow> bool"

definition is_alphanumeric :: "unicode \<Rightarrow> uchar \<Rightarrow> bool" where
  "is_alphanumeric u c \<longleftrightarrow> is_alphabetic u c \<or> is_numeric u c"

definition is_ascii_digit :: "uchar \<Rightarrow> bool" where
  "is_ascii_digit c \<longleftrightarrow> 48 \<le> c \<and> c \<le> 57"

definition to_ascii_lowercase :: "uchar \<Rightarrow> uchar" where
  "to_ascii_lowercase c = (if 65 \<le> c \<and> c \<le> 90 then c + 32 else c)"

text \<open>The Unicode tables restricted to ASCII: the instance the witnesses evaluate.\<close>

definition ascii_unicode :: unicode where
  "ascii_unicode = \<lparr>is_alphabetic = (\<lambda>c. 65 \<le> c \<and> c \<le> 90 \<or> 97 \<le> c \<and> c \<le> 122),
     is_numeric = is_ascii_digit\<rparr>"

subsection \<open>String operations of the standard library\<close>

definition eq_ignore_ascii_case :: "ustr \<Rightarrow> ustr \<Rightarrow> bool" where
  "eq_ignore_ascii_case a b \<longleftrightarrow> map to_ascii_lowercase a = map to_ascii_lowercase b"

fun starts_with :: "ustr \<Rightarrow> ustr \<Rightarrow> bool" where
  "starts_with s [] = True"
| "starts_with [] (p # ps) = False"
| "starts_with (c # cs) (p # ps) = (c = p \<and> starts_with cs ps)"

definition trim_start :: "ustr \<Rightarrow> ustr" where
  "trim_start s = dropWhile is_whitespace s"

definition trim_end :: "ustr \<Rightarrow> ustr" where
  "trim_end s = rev (dropWhile is_whitespace (rev s))"

definition trim :: "ustr \<Rightarrow> ustr" where
  "trim s = trim_end (trim_start s)"

definition find_char :: "uchar \<Rightarrow> ustr \<Rightarrow> nat option" where
  "find_char c s = (if c \<in> set s then Some (byte_len (takeWhile (\<lambda>x. x \<noteq> c) s)) else None)"

definition rfind_char :: "uchar \<Rightarrow> ustr \<Rightarrow> nat option" where
  "rfind_char c s =
     (if c \<in> set s then Some (byte_len (rev (tl (dropWhile (\<lambda>x. x \<noteq> c) (rev s))))) else None)"

text \<open>\<^verbatim>\<open>str::split('\n')\<close>: the segments between the separators, at least one.\<close>

fun split_lines :: "ustr \<Rightarrow> ustr list" where
  "split_lines [] = [[]]"
| "split_lines (c # cs) =
     (if c = 10 then [] # split_lines cs
      else case split_lines cs of [] \<Rightarrow> [[c]] | l # ls \<Rightarrow> (c # l) # ls)"

lemma starts_with_iff: "starts_with s p \<longleftrightarrow> (\<exists>t. s = p @ t)"
  by (induction s p rule: starts_with.induct) auto

lemma starts_withE:
  assumes "starts_with s p"
  obtains t where "s = p @ t"
  using assms by (auto simp: starts_with_iff)

lemma split_lines_not_Nil [simp]: "split_lines s \<noteq> []"
  by (induction s) (auto split: list.splits)

lemma split_lines_no_newline: "l \<in> set (split_lines s) \<Longrightarrow> 10 \<notin> set l"
  by (induction s arbitrary: l) (auto split: list.splits if_splits)

text \<open>Joining the segments with the separator gives the text back.\<close>

fun join_lines :: "ustr list \<Rightarrow> ustr" where
  "join_lines [] = []"
| "join_lines [l] = l"
| "join_lines (l # ls) = l @ 10 # join_lines ls"

lemma join_lines_Cons: "ls \<noteq> [] \<Longrightarrow> join_lines (l # ls) = l @ 10 # join_lines ls"
  by (cases ls) auto

lemma join_split_lines [simp]: "join_lines (split_lines s) = s"
proof (induction s)
  case Nil
  then show ?case by simp
next
  case (Cons c cs)
  obtain l ls where s: "split_lines cs = l # ls"
    using split_lines_not_Nil by (cases "split_lines cs") auto
  show ?case
  proof (cases ls)
    case Nil
    with s Cons show ?thesis by (auto simp: join_lines_Cons)
  next
    case (Cons m ms)
    with s \<open>join_lines (split_lines cs) = cs\<close> show ?thesis by auto
  qed
qed

lemma trim_end_prefix: "\<exists>w. s = trim_end s @ w \<and> (\<forall>c \<in> set w. is_whitespace c)"
proof -
  let ?w = "rev (takeWhile is_whitespace (rev s))"
  have "rev s = takeWhile is_whitespace (rev s) @ dropWhile is_whitespace (rev s)" by simp
  then have "s = rev (dropWhile is_whitespace (rev s)) @ ?w"
    by (metis rev_append rev_rev_ident)
  moreover have "\<forall>c \<in> set ?w. is_whitespace c"
    by (auto dest: set_takeWhileD)
  ultimately show ?thesis by (auto simp: trim_end_def)
qed

lemma trim_eq_Nil_iff [simp]: "trim s = [] \<longleftrightarrow> (\<forall>c \<in> set s. is_whitespace c)"
proof
  assume "trim s = []"
  then have "dropWhile is_whitespace (rev (trim_start s)) = []"
    by (simp add: trim_def trim_end_def)
  then have "\<forall>c \<in> set (trim_start s). is_whitespace c"
    by (simp add: dropWhile_eq_Nil_conv)
  moreover have "set s = set (takeWhile is_whitespace s) \<union> set (trim_start s)"
    by (metis set_append takeWhile_dropWhile_id trim_start_def)
  ultimately show "\<forall>c \<in> set s. is_whitespace c"
    by (auto dest: set_takeWhileD)
next
  assume "\<forall>c \<in> set s. is_whitespace c"
  then show "trim s = []"
    by (simp add: trim_def trim_start_def trim_end_def dropWhile_eq_Nil_conv [THEN iffD2])
qed

section \<open>Options\<close>

text \<open>The \<^verbatim>\<open>?\<close> operator on an \<^verbatim>\<open>Option\<close>.\<close>

abbreviation opt_bind :: "'a option \<Rightarrow> ('a \<Rightarrow> 'b option) \<Rightarrow> 'b option" where
  "opt_bind x f \<equiv> (case x of None \<Rightarrow> None | Some y \<Rightarrow> f y)"

definition nth_opt :: "'a list \<Rightarrow> nat \<Rightarrow> 'a option" where
  "nth_opt xs i = (if i < length xs then Some (xs ! i) else None)"

lemma nth_opt_Some [simp]: "nth_opt xs i = Some x \<longleftrightarrow> i < length xs \<and> x = xs ! i"
  by (auto simp: nth_opt_def)

lemma nth_opt_None [simp]: "nth_opt xs i = None \<longleftrightarrow> length xs \<le> i"
  by (auto simp: nth_opt_def)

section \<open>Loops over indices\<close>

text \<open>Induction for a loop that moves an index forward while it is below a bound.\<close>

lemma index_induct [case_names past step]:
  fixes n :: nat
  assumes past: "\<And>i. n \<le> i \<Longrightarrow> P i"
    and step: "\<And>i. i < n \<Longrightarrow> (\<And>j. i < j \<Longrightarrow> P j) \<Longrightarrow> P i"
  shows "P i"
proof (induction "n - i" arbitrary: i rule: less_induct)
  case less
  show ?case
  proof (cases "i < n")
    case True
    then have "P j" if "i < j" for j
      using that by (intro less) (simp add: diff_less_mono2)
    with True show ?thesis by (rule step)
  next
    case False
    then show ?thesis by (intro past) simp
  qed
qed

section \<open>\<^verbatim>\<open>usize\<close> arithmetic\<close>

text \<open>
  A \<^verbatim>\<open>usize\<close> is a \<open>nat\<close> up to \<open>usize_max\<close> (64-bit targets).  The saturating
  operations are written out where the sources use them; a plain \<^verbatim>\<open>+\<close> of the sources is
  \<open>+\<close> on \<open>nat\<close>.
\<close>

definition usize_max :: nat where
  "usize_max = 2 ^ 64 - 1"

definition sat_add :: "nat \<Rightarrow> nat \<Rightarrow> nat" where
  "sat_add a b = min (a + b) usize_max"

definition sat_mul :: "nat \<Rightarrow> nat \<Rightarrow> nat" where
  "sat_mul a b = min (a * b) usize_max"

definition sat_sub :: "nat \<Rightarrow> nat \<Rightarrow> nat" where
  "sat_sub a b = a - b" \<comment> \<open>subtraction on \<open>nat\<close> stops at 0, as \<^verbatim>\<open>saturating_sub\<close> does\<close>

definition clamp :: "nat \<Rightarrow> nat \<Rightarrow> nat \<Rightarrow> nat" where
  "clamp x lo hi = (if x < lo then lo else if hi < x then hi else x)"

lemma clamp_bounds: "lo \<le> hi \<Longrightarrow> lo \<le> clamp x lo hi \<and> clamp x lo hi \<le> hi"
  by (simp add: clamp_def)

end
