(* ===== verification/Decimal_Number.thy ===== *)
theory Decimal_Number
  imports Complex_Main Reldex_Prelude
begin

text \<open>
  \<^verbatim>\<open>crates/db-driver-api/src/value/number.rs\<close>: the lossless decimal \<^verbatim>\<open>Number\<close>.
  A number is \<open>\<plusminus>0.d\<^sub>1\<dots>d\<^sub>n \<times> 10^exponent\<close> in a 40-digit buffer.  The theory
  models every constructor, the parser, the canonical rendering, the order and the integer
  conversions, and relates them to the rational value a number denotes.
\<close>

section \<open>The representation\<close>

definition MAX_SIGNIFICANT_DIGITS :: nat where
  "MAX_SIGNIFICANT_DIGITS = 40"

definition MIN_EXPONENT :: int where
  "MIN_EXPONENT = -129"

definition MAX_EXPONENT :: int where
  "MAX_EXPONENT = 126"

datatype number_error =
  Empty | InvalidSyntax | InvalidDigit | TooManyDigits | ExponentOutOfRange

record number =
  digit_buf :: "nat list" \<comment> \<open>\<^verbatim>\<open>digits: [u8; 40]\<close>\<close>
  len :: nat
  exponent :: int
  negative :: bool

definition ZERO :: number where
  "ZERO = \<lparr>digit_buf = replicate MAX_SIGNIFICANT_DIGITS 0, len = 0, exponent = 0, negative = False\<rparr>"

definition digits :: "number \<Rightarrow> nat list" where
  "digits n = take (len n) (digit_buf n)"

definition is_zero :: "number \<Rightarrow> bool" where
  "is_zero n \<longleftrightarrow> len n = 0"

definition digit_count :: "number \<Rightarrow> nat" where
  "digit_count n = len n"

text \<open>A buffer holding \<open>ds\<close> at its start: \<^verbatim>\<open>[0; 40]\<close> overwritten by \<open>ds\<close>.\<close>

definition buffer_of :: "nat list \<Rightarrow> nat list" where
  "buffer_of ds = ds @ replicate (MAX_SIGNIFICANT_DIGITS - length ds) 0"

section \<open>Construction from digits\<close>

definition i32_max :: int where
  "i32_max = 2 ^ 31 - 1"

text \<open>\<^verbatim>\<open>i32::try_from(n).unwrap_or(i32::MAX)\<close>\<close>

definition i32_of_count :: "nat \<Rightarrow> int" where
  "i32_of_count n = (if int n \<le> i32_max then int n else i32_max)"

definition check_exponent :: "int \<Rightarrow> number_error + int" where
  "check_exponent e =
     (if \<not> (MIN_EXPONENT \<le> e \<and> e \<le> MAX_EXPONENT) then Inl ExponentOutOfRange else Inr e)"

definition from_digits :: "bool \<Rightarrow> nat list \<Rightarrow> int \<Rightarrow> number_error + number" where
  "from_digits neg ds e =
     (if \<exists>d \<in> set ds. d > 9 then Inl InvalidDigit
      else let leading = length (takeWhile (\<lambda>d. d = 0) ds);
               significant = drop leading ds;
               trailing = length (takeWhile (\<lambda>d. d = 0) (rev significant));
               significant = take (length significant - trailing) significant
           in if significant = [] then Inr ZERO
              else if length significant > MAX_SIGNIFICANT_DIGITS then Inl TooManyDigits
              else case check_exponent (e - i32_of_count leading) of
                Inl err \<Rightarrow> Inl err
              | Inr e' \<Rightarrow> Inr \<lparr>digit_buf = buffer_of significant, len = length significant,
                            exponent = e', negative = neg\<rparr>)"

section \<open>Parsing\<close>

text \<open>An optional sign: of the literal, and again of its exponent.\<close>

definition parse_sign :: "ustr \<Rightarrow> bool \<times> ustr" where
  "parse_sign bytes = (case bytes of
       [] \<Rightarrow> (False, [])
     | c # cs \<Rightarrow> if c = 45 then (True, cs) else if c = 43 then (False, cs) else (False, c # cs))"

text \<open>The optional \<^verbatim>\<open>e\<close>/\<^verbatim>\<open>E\<close> part: its value and what is left of the text.\<close>

definition parse_exponent :: "ustr \<Rightarrow> number_error + (int \<times> ustr)" where
  "parse_exponent s =
     (case s of
        [] \<Rightarrow> Inr (0, [])
      | c # cs \<Rightarrow>
          if c = 101 \<or> c = 69 then
            let (neg, cs') = parse_sign cs;
                run = takeWhile is_ascii_digit cs';
                v = foldl (\<lambda>acc b. acc * 10 + (b - 48)) 0 run
            in if run = [] \<or> length run > 6 then Inl InvalidSyntax
               else Inr (if neg then - v else v, dropWhile is_ascii_digit cs')
          else Inr (0, s))"

text \<open>
  The loop over the integer and fraction digits: the buffer, its length, the leading zeros
  skipped, and whether a significant digit was seen.
\<close>

record digit_scan =
  buf :: "nat list"
  count :: nat
  leading_zeros :: int
  started :: bool

definition scan_digit :: "nat \<Rightarrow> digit_scan \<Rightarrow> number_error + digit_scan" where
  "scan_digit d st =
     (if \<not> started st \<and> d = 0 then Inr (st\<lparr>leading_zeros := leading_zeros st + 1\<rparr>)
      else let st' = st\<lparr>started := True\<rparr>
           in if count st' < MAX_SIGNIFICANT_DIGITS
              then Inr (st'\<lparr>buf := (buf st')[count st' := d], count := count st' + 1\<rparr>)
              else if d \<noteq> 0 then Inl TooManyDigits else Inr st')"

fun scan_digits :: "nat list \<Rightarrow> digit_scan \<Rightarrow> number_error + digit_scan" where
  "scan_digits [] st = Inr st"
| "scan_digits (d # ds) st =
     (case scan_digit d st of Inl e \<Rightarrow> Inl e | Inr st' \<Rightarrow> scan_digits ds st')"

definition scan_start :: digit_scan where
  "scan_start = \<lparr>buf = replicate MAX_SIGNIFICANT_DIGITS 0, count = 0, leading_zeros = 0,
     started = False\<rparr>"

text \<open>\<^verbatim>\<open>while len > 0 && buf[len - 1] == 0 { len -= 1; }\<close>\<close>

fun strip_len :: "nat list \<Rightarrow> nat \<Rightarrow> nat" where
  "strip_len b 0 = 0"
| "strip_len b (Suc n) = (if b ! n = 0 then strip_len b n else Suc n)"

definition parse_fraction :: "ustr \<Rightarrow> ustr \<times> ustr" where
  "parse_fraction r = (case r of
       [] \<Rightarrow> ([], [])
     | c # cs \<Rightarrow> if c = 46 then (takeWhile is_ascii_digit cs, dropWhile is_ascii_digit cs)
                else ([], c # cs))"

definition parse_digits :: "bool \<Rightarrow> nat list \<Rightarrow> nat \<Rightarrow> int \<Rightarrow> number_error + number" where
  "parse_digits neg ds int_count ex =
     (case scan_digits ds scan_start of
        Inl err \<Rightarrow> Inl err
      | Inr st \<Rightarrow>
          let l = strip_len (buf st) (count st) in
          if l = 0 then Inr ZERO
          else case check_exponent (i32_of_count int_count - leading_zeros st + ex) of
            Inl err \<Rightarrow> Inl err
          | Inr e \<Rightarrow> Inr \<lparr>digit_buf = buf st, len = l, exponent = e, negative = neg\<rparr>)"

definition parse :: "ustr \<Rightarrow> number_error + number" where
  "parse text =
     (let bytes = trim text in
      if bytes = [] then Inl Empty
      else
        let (neg, r0) = parse_sign bytes;
            int_part = takeWhile is_ascii_digit r0;
            (frac_part, r2) = parse_fraction (dropWhile is_ascii_digit r0)
        in if int_part = [] \<and> frac_part = [] then Inl InvalidSyntax
           else case parse_exponent r2 of
             Inl err \<Rightarrow> Inl err
           | Inr (exponent_part, r3) \<Rightarrow>
               if r3 \<noteq> [] then Inl InvalidSyntax
               else parse_digits neg (map (\<lambda>b. nat (b - 48)) (int_part @ frac_part))
                      (length int_part) exponent_part)"

section \<open>Rendering\<close>

definition digit_char :: "nat \<Rightarrow> uchar" where
  "digit_char d = 48 + int d"

definition display :: "number \<Rightarrow> ustr" where
  "display n =
     (if len n = 0 then [48]
      else let ds = digits n;
               digit_count = int (length ds);
               e = exponent n;
               sign = (if negative n then [45] else [])
           in if digit_count \<le> e
              then sign @ map digit_char ds @ replicate (nat (e - digit_count)) 48
              else if 0 < e
              then sign @ map digit_char (take (nat e) ds) @ [46] @ map digit_char (drop (nat e) ds)
              else sign @ [48, 46] @ replicate (nat (- e)) 48 @ map digit_char ds)"

section \<open>Order\<close>

datatype ordering = Less | Equal | Greater

fun ord_reverse :: "ordering \<Rightarrow> ordering" where
  "ord_reverse Less = Greater"
| "ord_reverse Equal = Equal"
| "ord_reverse Greater = Less"

definition ord_then :: "ordering \<Rightarrow> ordering \<Rightarrow> ordering" where
  "ord_then a b = (if a = Equal then b else a)"

definition int_cmp :: "int \<Rightarrow> int \<Rightarrow> ordering" where
  "int_cmp a b = (if a < b then Less else if a = b then Equal else Greater)"

text \<open>Slices of bytes compare lexicographically.\<close>

fun slice_cmp :: "nat list \<Rightarrow> nat list \<Rightarrow> ordering" where
  "slice_cmp [] [] = Equal"
| "slice_cmp [] (y # ys) = Less"
| "slice_cmp (x # xs) [] = Greater"
| "slice_cmp (x # xs) (y # ys) =
     (if x < y then Less else if y < x then Greater else slice_cmp xs ys)"

definition cmp :: "number \<Rightarrow> number \<Rightarrow> ordering" where
  "cmp a b =
     (if \<not> negative a \<and> negative b then Greater
      else if negative a \<and> \<not> negative b then Less
      else let magnitude =
                 (if len a = 0 \<and> len b = 0 then Equal
                  else if len a = 0 then Less
                  else if len b = 0 then Greater
                  else ord_then (int_cmp (exponent a) (exponent b)) (slice_cmp (digits a) (digits b)))
           in if negative a then ord_reverse magnitude else magnitude)"

section \<open>Integer conversions\<close>

definition i128_max :: int where
  "i128_max = 2 ^ 127 - 1"

definition i128_min :: int where
  "i128_min = - (2 ^ 127)"

definition checked_i128 :: "int \<Rightarrow> int option" where
  "checked_i128 v = (if i128_min \<le> v \<and> v \<le> i128_max then Some v else None)"

fun i128_digits :: "nat list \<Rightarrow> int \<Rightarrow> int option" where
  "i128_digits [] v = Some v"
| "i128_digits (d # ds) v =
     (case checked_i128 (v * 10) of None \<Rightarrow> None
      | Some w \<Rightarrow> (case checked_i128 (w + int d) of None \<Rightarrow> None | Some x \<Rightarrow> i128_digits ds x))"

fun i128_shift :: "nat \<Rightarrow> int \<Rightarrow> int option" where
  "i128_shift 0 v = Some v"
| "i128_shift (Suc k) v = (case checked_i128 (v * 10) of None \<Rightarrow> None | Some w \<Rightarrow> i128_shift k w)"

definition to_i128 :: "number \<Rightarrow> int option" where
  "to_i128 n =
     (if len n = 0 then Some 0
      else let digit_count = int (len n); e = exponent n
           in if e < digit_count then None
              else case i128_digits (digits n) 0 of None \<Rightarrow> None
                | Some v \<Rightarrow> (case i128_shift (nat (e - digit_count)) v of None \<Rightarrow> None
                    | Some w \<Rightarrow> Some (if negative n then - w else w)))"

definition to_i64 :: "number \<Rightarrow> int option" where
  "to_i64 n = (case to_i128 n of None \<Rightarrow> None
     | Some v \<Rightarrow> if - (2 ^ 63) \<le> v \<and> v \<le> 2 ^ 63 - 1 then Some v else None)"

text \<open>\<^verbatim>\<open>while rest > 0 { reversed[count] = rest % 10; rest /= 10; count += 1; }\<close>\<close>

fun reversed_digits :: "nat \<Rightarrow> nat list" where
  "reversed_digits m = (if m = 0 then [] else (m mod 10) # reversed_digits (m div 10))"

declare reversed_digits.simps [simp del]

definition from_magnitude :: "nat \<Rightarrow> bool \<Rightarrow> number_error + number" where
  "from_magnitude m neg =
     (if m = 0 then Inr ZERO
      else let reversed = reversed_digits m;
               cnt = length reversed;
               trailing_zeros = length (takeWhile (\<lambda>d. d = 0) reversed);
               significant = cnt - trailing_zeros
           in if significant > MAX_SIGNIFICANT_DIGITS then Inl TooManyDigits
              else Inr \<lparr>digit_buf = buffer_of (rev (drop trailing_zeros reversed)),
                        len = significant, exponent = int cnt, negative = neg\<rparr>)"

definition try_from_i128 :: "int \<Rightarrow> number_error + number" where
  "try_from_i128 v = from_magnitude (nat \<bar>v\<bar>) (v < 0)"

definition try_from_u128 :: "nat \<Rightarrow> number_error + number" where
  "try_from_u128 v = from_magnitude v False"

text \<open>The infallible conversions of \<^verbatim>\<open>from_signed!\<close> and \<^verbatim>\<open>from_unsigned!\<close>.\<close>

definition from_signed :: "int \<Rightarrow> number" where
  "from_signed v = (case from_magnitude (nat \<bar>v\<bar>) (v < 0) of Inl _ \<Rightarrow> ZERO | Inr n \<Rightarrow> n)"

definition from_unsigned :: "nat \<Rightarrow> number" where
  "from_unsigned v = (case from_magnitude v False of Inl _ \<Rightarrow> ZERO | Inr n \<Rightarrow> n)"

section \<open>What a number denotes\<close>

text \<open>\<open>fraction [d\<^sub>1,\<dots>,d\<^sub>n] = 0.d\<^sub>1\<dots>d\<^sub>n\<close>\<close>

fun fraction :: "nat list \<Rightarrow> rat" where
  "fraction [] = 0"
| "fraction (d # ds) = (of_nat d + fraction ds) / 10"

definition number_value :: "number \<Rightarrow> rat" where
  "number_value n = (if negative n then -1 else 1) * fraction (digits n) * 10 powi (exponent n)"

text \<open>The representation invariant the type's documentation states.\<close>

definition wf_number :: "number \<Rightarrow> bool" where
  "wf_number n \<longleftrightarrow>
     length (digit_buf n) = MAX_SIGNIFICANT_DIGITS \<and> len n \<le> MAX_SIGNIFICANT_DIGITS \<and>
     (\<forall>d \<in> set (digit_buf n). d \<le> 9) \<and> (\<forall>d \<in> set (drop (len n) (digit_buf n)). d = 0) \<and>
     (if len n = 0 then n = ZERO
      else hd (digits n) \<noteq> 0 \<and> last (digits n) \<noteq> 0 \<and>
           MIN_EXPONENT \<le> exponent n \<and> exponent n \<le> MAX_EXPONENT)"

section \<open>Digit runs\<close>

abbreviation lstrip :: "nat list \<Rightarrow> nat list" where
  "lstrip ds \<equiv> dropWhile (\<lambda>d. d = 0) ds"

definition rstrip :: "nat list \<Rightarrow> nat list" where
  "rstrip ds = rev (lstrip (rev ds))"

abbreviation all_digits :: "nat list \<Rightarrow> bool" where
  "all_digits ds \<equiv> \<forall>d \<in> set ds. d \<le> 9"

definition mk_number :: "bool \<Rightarrow> nat list \<Rightarrow> int \<Rightarrow> number" where
  "mk_number neg ds e = \<lparr>digit_buf = buffer_of ds, len = length ds, exponent = e, negative = neg\<rparr>"

lemma rstrip_Nil [simp]: "rstrip [] = []"
  by (simp add: rstrip_def)

lemma rstrip_snoc [simp]: "rstrip (ds @ [d]) = (if d = 0 then rstrip ds else ds @ [d])"
  by (simp add: rstrip_def)

lemma rstrip_append_zeros [simp]: "rstrip (ds @ replicate k 0) = rstrip ds"
proof (induction k)
  case (Suc k)
  have "ds @ replicate (Suc k) 0 = (ds @ replicate k 0) @ [0]"
    by (simp add: replicate_append_same)
  with Suc show ?case by (simp only: rstrip_snoc) simp
qed simp

lemma rstrip_decomp: "\<exists>k. ds = rstrip ds @ replicate k 0"
proof (induction ds rule: rev_induct)
  case (snoc d ds)
  then obtain k where k: "ds = rstrip ds @ replicate k 0" by blast
  show ?case
  proof (cases "d = 0")
    case True
    from k have "ds @ [0] = rstrip ds @ replicate k 0 @ [0]" by (metis append.assoc)
    then have "ds @ [0] = rstrip ds @ replicate (Suc k) 0" by (simp only: replicate_Suc replicate_append_same)
    moreover have "rstrip (ds @ [d]) = rstrip ds" using True by simp
    ultimately show ?thesis using True by metis
  next
    case False
    then have "ds @ [d] = rstrip (ds @ [d]) @ replicate 0 0" by simp
    then show ?thesis by blast
  qed
qed simp

lemma rstrip_last: "rstrip ds \<noteq> [] \<Longrightarrow> last (rstrip ds) \<noteq> 0"
  by (induction ds rule: rev_induct) auto

lemma rstrip_eq: "ds \<noteq> [] \<Longrightarrow> last ds \<noteq> 0 \<Longrightarrow> rstrip ds = ds"
  by (induction ds rule: rev_induct) auto

lemma rstrip_take: "take (length ds - length (takeWhile (\<lambda>d. d = 0) (rev ds))) ds = rstrip ds"
proof -
  let ?z = "takeWhile (\<lambda>d. d = 0) (rev ds)"
  have "rev (?z @ lstrip (rev ds)) = rstrip ds @ rev ?z" by (simp only: rev_append rstrip_def)
  then have d: "ds = rstrip ds @ rev ?z" by simp
  then have "length ds = length (rstrip ds) + length ?z" by (metis length_append length_rev)
  then have "take (length ds - length ?z) (rstrip ds @ rev ?z) = rstrip ds" by simp
  with d show ?thesis by simp
qed

lemma set_rstrip: "set (rstrip ds) \<subseteq> set ds"
proof -
  obtain k where "ds = rstrip ds @ replicate k 0" using rstrip_decomp by blast
  then have "set ds = set (rstrip ds) \<union> set (replicate k 0)" by (metis set_append)
  then show ?thesis by blast
qed

lemma rstrip_eq_Nil_iff: "rstrip ds = [] \<longleftrightarrow> (\<forall>d \<in> set ds. d = 0)"
  by (auto simp: rstrip_def dropWhile_eq_Nil_conv)

lemma hd_rstrip: "rstrip ds \<noteq> [] \<Longrightarrow> hd (rstrip ds) = hd ds"
proof -
  assume ne: "rstrip ds \<noteq> []"
  obtain k where "ds = rstrip ds @ replicate k 0" using rstrip_decomp by blast
  with ne show ?thesis by (metis hd_append2)
qed

lemma lstrip_hd: "lstrip ds \<noteq> [] \<Longrightarrow> hd (lstrip ds) \<noteq> 0"
  by (rule hd_dropWhile)

lemma takeWhile_zeros: "takeWhile (\<lambda>d. d = (0::nat)) ds = replicate (length (takeWhile (\<lambda>d. d = 0) ds)) 0"
  by (induction ds) auto

lemma lstrip_decomp: "ds = replicate (length (takeWhile (\<lambda>d. d = 0) ds)) 0 @ lstrip ds"
  by (subst takeWhile_zeros [symmetric]) simp

lemma drop_takeWhile_length: "drop (length (takeWhile P xs)) xs = dropWhile P xs"
  by (induction xs) auto

subsection \<open>Fractions\<close>

lemma fraction_nonneg [simp]: "0 \<le> fraction ds"
  by (induction ds) auto

lemma fraction_less_1: "all_digits ds \<Longrightarrow> fraction ds < 1"
proof (induction ds)
  case (Cons d ds)
  then have d: "d \<le> 9" and f: "fraction ds < 1" by auto
  from d have "(of_nat d :: rat) \<le> of_nat 9" by (rule of_nat_mono)
  with f show ?case by simp
qed simp

lemma fraction_append: "fraction (xs @ ys) = fraction xs + fraction ys / 10 ^ length xs"
  by (induction xs) (auto simp: field_simps)

lemma fraction_zeros [simp]: "fraction (replicate k 0) = 0"
  by (induction k) auto

lemma fraction_leading [simp]: "fraction (replicate k 0 @ ds) = fraction ds / 10 ^ k"
  by (simp add: fraction_append)

lemma fraction_rstrip [simp]: "fraction (rstrip ds) = fraction ds"
proof -
  obtain k where "ds = rstrip ds @ replicate k 0" using rstrip_decomp by blast
  then have "fraction ds = fraction (rstrip ds @ replicate k 0)" by simp
  then show ?thesis by (simp add: fraction_append)
qed

lemma fraction_hd: "ds \<noteq> [] \<Longrightarrow> hd ds \<noteq> 0 \<Longrightarrow> 1 / 10 \<le> fraction ds"
proof (cases ds)
  case (Cons d xs)
  assume "hd ds \<noteq> 0"
  with Cons have "1 \<le> d" by simp
  then have "(of_nat 1 :: rat) \<le> of_nat d" by (rule of_nat_mono)
  with Cons show ?thesis by (simp add: add_increasing2)
qed simp

lemma fraction_eq_0_iff: "fraction ds = 0 \<longleftrightarrow> (\<forall>d \<in> set ds. d = 0)"
  by (induction ds) (auto simp: add_nonneg_eq_0_iff)

section \<open>The representation invariant\<close>

lemma length_buffer_of [simp]:
  "length ds \<le> MAX_SIGNIFICANT_DIGITS \<Longrightarrow> length (buffer_of ds) = MAX_SIGNIFICANT_DIGITS"
  by (simp add: buffer_of_def)

lemma buffer_of_snoc:
  "length ds < MAX_SIGNIFICANT_DIGITS \<Longrightarrow> (buffer_of ds)[length ds := d] = buffer_of (ds @ [d])"
proof -
  assume "length ds < MAX_SIGNIFICANT_DIGITS"
  then obtain k where "MAX_SIGNIFICANT_DIGITS - length ds = Suc k"
    by (metis Suc_diff_Suc)
  then show ?thesis by (simp add: buffer_of_def)
qed

lemma buffer_of_rstrip:
  assumes "length ds \<le> MAX_SIGNIFICANT_DIGITS"
  shows "buffer_of (rstrip ds) = buffer_of ds"
proof -
  obtain k where k: "ds = rstrip ds @ replicate k 0" using rstrip_decomp by blast
  then have "length ds = length (rstrip ds) + k" by (metis length_append length_replicate)
  with assms have "MAX_SIGNIFICANT_DIGITS - length (rstrip ds) = k + (MAX_SIGNIFICANT_DIGITS - length ds)"
    by simp
  then have "buffer_of (rstrip ds) = (rstrip ds @ replicate k 0) @ replicate (MAX_SIGNIFICANT_DIGITS - length ds) 0"
    by (simp add: buffer_of_def replicate_add)
  with k show ?thesis by (simp add: buffer_of_def)
qed

lemma digits_mk_number [simp]: "digits (mk_number neg ds e) = ds"
  by (simp add: digits_def mk_number_def buffer_of_def)

lemma mk_number_sel [simp]:
  "len (mk_number neg ds e) = length ds" "exponent (mk_number neg ds e) = e"
  "negative (mk_number neg ds e) = neg"
  by (simp_all add: mk_number_def)

lemma wf_mk_number:
  assumes "ds \<noteq> []" "all_digits ds" "hd ds \<noteq> 0" "last ds \<noteq> 0"
    "length ds \<le> MAX_SIGNIFICANT_DIGITS" "MIN_EXPONENT \<le> e" "e \<le> MAX_EXPONENT"
  shows "wf_number (mk_number neg ds e)"
  using assms unfolding wf_number_def
  by (auto simp: mk_number_def buffer_of_def digits_def)

lemma wf_ZERO [simp]: "wf_number ZERO"
  by (auto simp: wf_number_def ZERO_def)

lemma ZERO_sel [simp]: "len ZERO = 0" "negative ZERO = False" "exponent ZERO = 0"
  by (simp_all add: ZERO_def)

lemma digits_ZERO [simp]: "digits ZERO = []"
  by (simp add: digits_def ZERO_def)

lemma number_value_ZERO [simp]: "number_value ZERO = 0"
  by (simp add: number_value_def)

lemma number_value_mk [simp]:
  "number_value (mk_number neg ds e) = (if neg then -1 else 1) * fraction ds * 10 powi e"
  by (simp add: number_value_def)

text \<open>A well-formed number other than zero is rebuilt from its digits.\<close>

lemma wf_number_cases:
  assumes "wf_number n"
  obtains (zero) "n = ZERO"
  | (nonzero) neg ds e where "n = mk_number neg ds e" "ds \<noteq> []" "all_digits ds" "hd ds \<noteq> 0"
      "last ds \<noteq> 0" "length ds \<le> MAX_SIGNIFICANT_DIGITS" "MIN_EXPONENT \<le> e" "e \<le> MAX_EXPONENT"
proof (cases "len n = 0")
  case True
  with assms show ?thesis using zero by (simp add: wf_number_def)
next
  case False
  let ?ds = "digits n"
  have buf: "length (digit_buf n) = MAX_SIGNIFICANT_DIGITS" "len n \<le> MAX_SIGNIFICANT_DIGITS"
    "\<forall>d \<in> set (drop (len n) (digit_buf n)). d = 0" "all_digits (digit_buf n)"
    using assms by (simp_all add: wf_number_def)
  then have l: "length ?ds = len n" by (simp add: digits_def)
  have "drop (len n) (digit_buf n) = replicate (MAX_SIGNIFICANT_DIGITS - len n) 0"
    using buf by (metis length_drop replicate_length_same)
  then have "digit_buf n = buffer_of ?ds"
    by (metis append_take_drop_id buffer_of_def digits_def l)
  then have "n = mk_number (negative n) ?ds (exponent n)"
    using l by (simp add: mk_number_def)
  moreover have "all_digits ?ds" using buf(4) by (auto simp: digits_def dest: in_set_takeD)
  moreover have "?ds \<noteq> []" using l False by auto
  ultimately show ?thesis
    using nonzero [of "negative n" ?ds "exponent n"] assms False l buf(2)
    by (simp add: wf_number_def)
qed

section \<open>Construction is exact\<close>

text \<open>\<^verbatim>\<open>from_digits\<close> in one equation over the stripped digit run.\<close>

lemma from_digits_strip:
  assumes "all_digits ds"
  shows "from_digits neg ds e =
    (let sg = rstrip (lstrip ds) in
     if sg = [] then Inr ZERO
     else if length sg > MAX_SIGNIFICANT_DIGITS then Inl TooManyDigits
     else case check_exponent (e - i32_of_count (length (takeWhile (\<lambda>d. d = 0) ds))) of
       Inl err \<Rightarrow> Inl err | Inr e' \<Rightarrow> Inr (mk_number neg sg e'))"
proof -
  have "\<not> (\<exists>d \<in> set ds. d > 9)" using assms by (auto simp: not_less)
  then show ?thesis
    unfolding from_digits_def Let_def drop_takeWhile_length rstrip_take mk_number_def
    by (rule if_not_P)
qed

lemma from_digits_invalid: "(\<exists>d \<in> set ds. d > 9) \<Longrightarrow> from_digits neg ds e = Inl InvalidDigit"
  by (simp add: from_digits_def)

lemma check_exponent_Inr [simp]:
  "check_exponent e = Inr e' \<longleftrightarrow> e' = e \<and> MIN_EXPONENT \<le> e \<and> e \<le> MAX_EXPONENT"
  by (auto simp: check_exponent_def)

lemma check_exponent_Inl:
  "check_exponent e = Inl err \<longleftrightarrow> err = ExponentOutOfRange \<and> \<not> (MIN_EXPONENT \<le> e \<and> e \<le> MAX_EXPONENT)"
  by (auto simp: check_exponent_def)

lemma from_digits_InrE:
  assumes "from_digits neg ds e = Inr n"
  obtains (zero) "all_digits ds" "n = ZERO" "\<forall>d \<in> set ds. d = 0"
  | (nonzero) e' where "all_digits ds" "n = mk_number neg (rstrip (lstrip ds)) e'"
      "rstrip (lstrip ds) \<noteq> []" "e' = e - i32_of_count (length (takeWhile (\<lambda>d. d = 0) ds))"
      "wf_number n"
proof -
  have dig: "all_digits ds"
    using assms from_digits_invalid by (metis Inl_Inr_False leI)
  let ?sg = "rstrip (lstrip ds)"
  note eq = assms [unfolded from_digits_strip [OF dig] Let_def]
  show ?thesis
  proof (cases "?sg = []")
    case True
    then have "\<forall>d \<in> set (lstrip ds). d = 0" by (rule rstrip_eq_Nil_iff [THEN iffD1])
    then have "lstrip ds \<noteq> [] \<Longrightarrow> hd (lstrip ds) = 0" by (metis hd_in_set)
    with lstrip_hd [of ds] have "lstrip ds = []" by argo
    then have "\<forall>d \<in> set ds. d = 0" by (simp add: dropWhile_eq_Nil_conv)
    moreover from True eq have "n = ZERO" by simp
    ultimately show ?thesis using zero [OF dig] by blast
  next
    case False
    have hd: "hd ?sg \<noteq> 0"
      using False by (metis hd_rstrip lstrip_hd rstrip_Nil)
    have sub: "set ?sg \<subseteq> set ds"
      using set_rstrip [of "lstrip ds"] by (auto dest: set_dropWhileD)
    from False eq obtain e' where "length ?sg \<le> MAX_SIGNIFICANT_DIGITS"
      "e' = e - i32_of_count (length (takeWhile (\<lambda>d. d = 0) ds))"
      "MIN_EXPONENT \<le> e'" "e' \<le> MAX_EXPONENT" "n = mk_number neg ?sg e'"
      by (auto split: if_splits sum.splits)
    then show ?thesis
      using nonzero [of e'] False hd sub dig rstrip_last [OF False]
      by (auto intro!: wf_mk_number)
  qed
qed

text \<open>The value of a digit run survives stripping, with the exponent adjusted.\<close>

lemma fraction_lstrip:
  "fraction ds * 10 powi e =
   fraction (rstrip (lstrip ds)) * 10 powi (e - int (length (takeWhile (\<lambda>d. d = 0) ds)))"
proof -
  let ?z = "length (takeWhile (\<lambda>d. d = 0) ds)"
  have "fraction ds = fraction (lstrip ds) / 10 ^ ?z"
    by (subst lstrip_decomp) (simp only: fraction_leading)
  then show ?thesis by (simp add: power_int_diff)
qed

lemma from_digits_value:
  assumes "from_digits neg ds e = Inr n" and "int (length ds) \<le> i32_max"
  shows "wf_number n \<and> number_value n = (if neg then -1 else 1) * fraction ds * 10 powi e"
  using assms(1)
proof (cases rule: from_digits_InrE)
  case zero
  then have "fraction ds = 0" by (simp add: fraction_eq_0_iff)
  with zero show ?thesis by simp
next
  case (nonzero e')
  have "length (takeWhile (\<lambda>d. d = 0) ds) \<le> length ds" by (rule length_takeWhile_le)
  with assms(2) nonzero(4) have "e' = e - int (length (takeWhile (\<lambda>d. d = 0) ds))"
    by (simp add: i32_of_count_def)
  with nonzero fraction_lstrip [of ds e] show ?thesis by simp
qed

section \<open>The parser\<close>

definition scanned :: "nat list \<Rightarrow> int \<Rightarrow> digit_scan" where
  "scanned xs z = \<lparr>buf = buffer_of xs, count = length xs, leading_zeros = z, started = True\<rparr>"

lemma scan_digits_started:
  "length xs \<le> MAX_SIGNIFICANT_DIGITS \<Longrightarrow>
   scan_digits ds (scanned xs z) =
     (if \<exists>d \<in> set (drop (MAX_SIGNIFICANT_DIGITS - length xs) ds). d \<noteq> 0 then Inl TooManyDigits
      else Inr (scanned (xs @ take (MAX_SIGNIFICANT_DIGITS - length xs) ds) z))"
proof (induction ds arbitrary: xs)
  case (Cons d ds)
  show ?case
  proof (cases "length xs < MAX_SIGNIFICANT_DIGITS")
    case True
    then have step: "scan_digit d (scanned xs z) = Inr (scanned (xs @ [d]) z)"
      by (simp add: scan_digit_def scanned_def Let_def buffer_of_snoc)
    from True obtain k where k: "MAX_SIGNIFICANT_DIGITS - length xs = Suc k"
      "MAX_SIGNIFICANT_DIGITS - length (xs @ [d]) = k"
      by (metis Suc_diff_Suc diff_Suc_eq_diff_pred diff_Suc_1 length_append_singleton)
    with True step Cons.IH [of "xs @ [d]"] show ?thesis by simp
  next
    case False
    with Cons.prems have full: "length xs = MAX_SIGNIFICANT_DIGITS" by simp
    then have "scan_digit d (scanned xs z) = (if d \<noteq> 0 then Inl TooManyDigits else Inr (scanned xs z))"
      by (simp add: scan_digit_def scanned_def Let_def)
    with full Cons.IH [of xs] show ?thesis by simp
  qed
qed simp

lemma scan_digits_zeros:
  "scan_digits (replicate k 0 @ ds) (scan_start\<lparr>leading_zeros := z\<rparr>) =
   scan_digits ds (scan_start\<lparr>leading_zeros := z + int k\<rparr>)"
  by (induction k arbitrary: z) (auto simp: scan_digit_def scan_start_def add.assoc)

lemma scan_digit_first:
  "d \<noteq> 0 \<Longrightarrow> scan_digit d (scan_start\<lparr>leading_zeros := z\<rparr>) = Inr (scanned [d] z)"
  using buffer_of_snoc [of "[]" d]
  by (simp add: scan_digit_def scan_start_def scanned_def MAX_SIGNIFICANT_DIGITS_def buffer_of_def)

text \<open>What the digit loop leaves behind: the significant run, and the zeros before it.\<close>

lemma scan_digits_spec:
  assumes "lstrip ds = d # sg"
  shows "scan_digits ds scan_start =
    (if \<exists>x \<in> set (drop MAX_SIGNIFICANT_DIGITS (d # sg)). x \<noteq> 0 then Inl TooManyDigits
     else Inr (scanned (take MAX_SIGNIFICANT_DIGITS (d # sg))
                 (int (length (takeWhile (\<lambda>d. d = 0) ds)))))"
proof -
  let ?z = "length (takeWhile (\<lambda>d. d = 0) ds)"
  have d: "d \<noteq> 0" using lstrip_hd [of ds] assms by simp
  have "scan_digits ds scan_start = scan_digits (replicate ?z 0 @ d # sg) (scan_start\<lparr>leading_zeros := 0\<rparr>)"
    using lstrip_decomp [of ds] assms by (simp add: scan_start_def)
  also have "\<dots> = scan_digits (d # sg) (scan_start\<lparr>leading_zeros := int ?z\<rparr>)"
    using scan_digits_zeros [of ?z "d # sg" 0] by simp
  also have "\<dots> = scan_digits sg (scanned [d] (int ?z))"
    using scan_digit_first [OF d] by simp
  also have "\<dots> = (if \<exists>x \<in> set (drop MAX_SIGNIFICANT_DIGITS (d # sg)). x \<noteq> 0 then Inl TooManyDigits
     else Inr (scanned (take MAX_SIGNIFICANT_DIGITS (d # sg)) (int ?z)))"
    by (subst scan_digits_started) (simp_all add: MAX_SIGNIFICANT_DIGITS_def)
  finally show ?thesis .
qed

lemma scan_digits_all_zero:
  assumes "lstrip ds = []"
  shows "scan_digits ds scan_start = Inr (scan_start\<lparr>leading_zeros := int (length ds)\<rparr>)"
proof -
  have "\<forall>d \<in> set ds. d = 0" using assms by (simp add: dropWhile_eq_Nil_conv)
  then have "ds = replicate (length ds) 0"
    by (intro replicate_length_same [symmetric]) blast
  moreover have "scan_digits (replicate (length ds) 0 @ []) (scan_start\<lparr>leading_zeros := 0\<rparr>) =
    Inr (scan_start\<lparr>leading_zeros := int (length ds)\<rparr>)"
    by (subst scan_digits_zeros) simp
  ultimately show ?thesis by (simp add: scan_start_def)
qed

lemma strip_len_buffer: "length xs \<le> MAX_SIGNIFICANT_DIGITS \<Longrightarrow> strip_len (buffer_of xs) (length xs) = length (rstrip xs)"
proof (induction xs rule: rev_induct)
  case (snoc x xs)
  have nth: "buffer_of (xs @ [x]) ! length xs = x"
    by (simp add: buffer_of_def nth_append)
  have same: "strip_len (buffer_of (xs @ [x])) k = strip_len (buffer_of xs) k" if "k \<le> length xs" for k
    using that
  proof (induction k)
    case (Suc k)
    then have "buffer_of (xs @ [x]) ! k = buffer_of xs ! k" by (simp add: buffer_of_def nth_append)
    with Suc show ?case by simp
  qed simp
  from snoc nth same [of "length xs"] show ?case by (cases "x = 0") simp_all
qed simp

subsection \<open>Decimal literals\<close>

text \<open>
  The grammar \<^verbatim>\<open>Number::parse\<close> documents: an optional sign, digits with an optional
  decimal point, and an optional exponent of at most six digits.
\<close>

fun sign_chars :: "bool option \<Rightarrow> ustr" where
  "sign_chars None = []"
| "sign_chars (Some True) = [45]"
| "sign_chars (Some False) = [43]"

record literal =
  lit_sign :: "bool option"
  lit_int :: "nat list"
  lit_frac :: "nat list option"
  lit_exp :: "(uchar \<times> bool option \<times> nat list) option"

definition lit_digits :: "literal \<Rightarrow> nat list" where
  "lit_digits l = lit_int l @ (case lit_frac l of None \<Rightarrow> [] | Some fs \<Rightarrow> fs)"

definition frac_text :: "literal \<Rightarrow> ustr" where
  "frac_text l = (case lit_frac l of None \<Rightarrow> [] | Some fs \<Rightarrow> 46 # map digit_char fs)"

definition exp_text :: "literal \<Rightarrow> ustr" where
  "exp_text l = (case lit_exp l of None \<Rightarrow> [] | Some (m, sg, xs) \<Rightarrow> m # sign_chars sg @ map digit_char xs)"

definition literal_text :: "literal \<Rightarrow> ustr" where
  "literal_text l = sign_chars (lit_sign l) @ map digit_char (lit_int l) @ frac_text l @ exp_text l"

definition valid_literal :: "literal \<Rightarrow> bool" where
  "valid_literal l \<longleftrightarrow> all_digits (lit_digits l) \<and> lit_digits l \<noteq> [] \<and>
     (case lit_exp l of None \<Rightarrow> True
      | Some (m, sg, xs) \<Rightarrow> (m = 101 \<or> m = 69) \<and> all_digits xs \<and> xs \<noteq> [] \<and> length xs \<le> 6)"

fun decimal :: "nat list \<Rightarrow> int" where
  "decimal [] = 0"
| "decimal (d # ds) = int d * 10 ^ length ds + decimal ds"

definition lit_exponent :: "literal \<Rightarrow> int" where
  "lit_exponent l = (case lit_exp l of None \<Rightarrow> 0
     | Some (m, sg, xs) \<Rightarrow> (if sg = Some True then - decimal xs else decimal xs))"

lemma is_ascii_digit_char [simp]: "d \<le> 9 \<Longrightarrow> is_ascii_digit (digit_char d)"
  by (simp add: is_ascii_digit_def digit_char_def)

lemma digit_char_back [simp]: "nat (digit_char d - 48) = d"
  by (simp add: digit_char_def)

lemma digit_char_int: "digit_char d - 48 = int d"
  by (simp add: digit_char_def)

lemma map_digit_char_back [simp]: "map (\<lambda>b. nat (b - 48)) (map digit_char ds) = ds"
  by (induction ds) auto

lemma char_of_ascii_digits:
  "\<forall>b \<in> set bs. is_ascii_digit b \<Longrightarrow> map digit_char (map (\<lambda>b. nat (b - 48)) bs) = bs"
  by (induction bs) (auto simp: is_ascii_digit_def digit_char_def)

lemma span_digits:
  assumes "all_digits ds" and "rest = [] \<or> \<not> is_ascii_digit (hd rest)"
  shows "takeWhile is_ascii_digit (map digit_char ds @ rest) = map digit_char ds"
    and "dropWhile is_ascii_digit (map digit_char ds @ rest) = rest"
  using assms by (induction ds) (cases rest, auto)+

lemma foldl_decimal: "foldl (\<lambda>acc b. acc * 10 + (b - 48)) a (map digit_char ds) = a * 10 ^ length ds + decimal ds"
  by (induction ds arbitrary: a) (auto simp: digit_char_def algebra_simps)

lemma digit_char_neq [simp]:
  "digit_char d \<noteq> 45" "digit_char d \<noteq> 43" "digit_char d \<noteq> 46"
  by (simp_all add: digit_char_def)

lemma digit_char_not_e: "d \<le> 9 \<Longrightarrow> digit_char d \<noteq> 101 \<and> digit_char d \<noteq> 69"
  by (simp add: digit_char_def)

lemma digit_char_not_whitespace: "d \<le> 9 \<Longrightarrow> \<not> is_whitespace (digit_char d)"
  by (simp add: is_whitespace_def digit_char_def)

lemma parse_sign_Cons [simp]: "parse_sign (45 # cs) = (True, cs)" "parse_sign (43 # cs) = (False, cs)"
  by (simp_all add: parse_sign_def)

lemma parse_exponent_literal:
  assumes "valid_literal l"
  shows "parse_exponent (exp_text l) = Inr (lit_exponent l, [])"
proof (cases "lit_exp l")
  case None
  then show ?thesis by (simp add: exp_text_def parse_exponent_def lit_exponent_def)
next
  case (Some t)
  then obtain m sg xs where t: "lit_exp l = Some (m, sg, xs)" by (cases t) auto
  with assms have v: "m = 101 \<or> m = 69" "all_digits xs" "xs \<noteq> []" "length xs \<le> 6"
    by (auto simp: valid_literal_def)
  obtain x xs' where x: "xs = x # xs'" using v(3) by (cases xs) auto
  have sp: "takeWhile is_ascii_digit (map digit_char xs) = map digit_char xs"
    "dropWhile is_ascii_digit (map digit_char xs) = []"
    using span_digits [OF v(2), of "[]"] by simp_all
  have fold: "foldl (\<lambda>acc b. acc * 10 + (b - 48)) 0 (map digit_char xs) = decimal xs"
    using foldl_decimal [of 0 xs] by simp
  have hc: "parse_sign (map digit_char xs) = (False, map digit_char xs)"
    using x by (simp add: parse_sign_def)
  have e: "exp_text l = m # sign_chars sg @ map digit_char xs" by (simp add: exp_text_def t)
  show ?thesis
    by (cases sg rule: sign_chars.cases)
       (use v fold in \<open>auto simp: e parse_exponent_def lit_exponent_def t hc sp Let_def\<close>)
qed

lemma rstrip_take_full:
  assumes "\<forall>x \<in> set (drop k sg). x = 0"
  shows "rstrip (take k sg) = rstrip sg"
proof -
  have "drop k sg = replicate (length (drop k sg)) 0"
    using assms by (metis replicate_length_same)
  then have "sg = take k sg @ replicate (length (drop k sg)) 0" by (metis append_take_drop_id)
  then show ?thesis by (metis rstrip_append_zeros)
qed

lemma rstrip_too_long:
  assumes "x \<in> set (drop k sg)" "x \<noteq> 0"
  shows "k < length (rstrip sg)"
proof (rule ccontr)
  assume "\<not> k < length (rstrip sg)"
  moreover obtain j where "sg = rstrip sg @ replicate j 0" using rstrip_decomp by blast
  ultimately have "drop k sg = drop (k - length (rstrip sg)) (replicate j 0)"
    by (metis append_Nil drop_all drop_append linorder_not_less)
  with assms show False by simp
qed

lemma parse_digits_eq:
  assumes "all_digits ds" "int (length ds) \<le> i32_max" "n \<le> length ds"
  shows "parse_digits neg ds n ex = from_digits neg ds (int n + ex)"
proof (cases "lstrip ds")
  case Nil
  have "strip_len b (count (scan_start\<lparr>leading_zeros := z\<rparr>)) = 0" for b z
    by (simp add: scan_start_def)
  with Nil show ?thesis
    using assms(1) scan_digits_all_zero [OF Nil]
    by (simp add: parse_digits_def from_digits_strip del: dropWhile_eq_Nil_conv)
next
  case (Cons d sg)
  let ?sg = "d # sg" and ?z = "length (takeWhile (\<lambda>d. d = 0) ds)"
  have ne: "rstrip ?sg \<noteq> []"
    using lstrip_hd [of ds] Cons rstrip_eq_Nil_iff [of ?sg] by (metis list.sel(1) list.set_intros(1) list.discI)
  have z: "i32_of_count ?z = int ?z" "i32_of_count n = int n"
    using assms length_takeWhile_le [of "\<lambda>d. d = 0" ds] by (simp_all add: i32_of_count_def)
  show ?thesis
  proof (cases "\<exists>x \<in> set (drop MAX_SIGNIFICANT_DIGITS ?sg). x \<noteq> 0")
    case True
    then have "MAX_SIGNIFICANT_DIGITS < length (rstrip ?sg)" using rstrip_too_long by blast
    with True ne Cons assms(1) show ?thesis
      by (simp add: parse_digits_def scan_digits_spec from_digits_strip)
  next
    case False
    then have zs: "\<forall>x \<in> set (drop MAX_SIGNIFICANT_DIGITS ?sg). x = 0" by blast
    let ?t = "take MAX_SIGNIFICANT_DIGITS ?sg"
    have t: "length ?t \<le> MAX_SIGNIFICANT_DIGITS" "rstrip ?t = rstrip ?sg"
      using rstrip_take_full [OF zs] by simp_all
    have len: "length (rstrip ?sg) \<le> MAX_SIGNIFICANT_DIGITS"
      using t rstrip_decomp [of ?t] by (metis add_leE length_append)
    let ?st = "scanned ?t (int ?z)"
    have st: "scan_digits ds scan_start = Inr ?st"
      using scan_digits_spec [OF Cons] False by (simp only: if_False)
    have sl: "strip_len (buf ?st) (count ?st) = length (rstrip ?sg)" "leading_zeros ?st = int ?z"
      using strip_len_buffer [OF t(1)] t(2) by (simp_all add: scanned_def)
    have bf: "buf ?st = buffer_of (rstrip ?sg)"
      using buffer_of_rstrip [OF t(1)] t(2) by (simp add: scanned_def)
    have "parse_digits neg ds n ex =
        (case check_exponent (int n - int ?z + ex) of Inl err \<Rightarrow> Inl err
         | Inr e \<Rightarrow> Inr (mk_number neg (rstrip ?sg) e))"
      unfolding parse_digits_def st sum.case Let_def sl z mk_number_def
      unfolding bf using ne by (simp only: length_0_conv if_False)
    moreover have "from_digits neg ds (int n + ex) =
        (case check_exponent (int n + ex - int ?z) of Inl err \<Rightarrow> Inl err
         | Inr e \<Rightarrow> Inr (mk_number neg (rstrip ?sg) e))"
      using ne len z Cons by (simp add: from_digits_strip [OF assms(1)])
    moreover have "int n - int ?z + ex = int n + ex - int ?z" by simp
    ultimately show ?thesis by simp
  qed
qed

lemma trim_literal:
  assumes "t \<noteq> []" "\<not> is_whitespace (hd t)" "\<not> is_whitespace (last t)"
    "\<forall>c \<in> set p1. is_whitespace c" "\<forall>c \<in> set p2. is_whitespace c"
  shows "trim (p1 @ t @ p2) = t"
proof -
  have "trim_start (p1 @ t @ p2) = t @ p2"
    using assms by (cases t) (auto simp: trim_start_def dropWhile_append2 [OF assms(4) [rule_format]])
  moreover have "rev (t @ p2) = rev p2 @ rev t" by simp
  moreover have "dropWhile is_whitespace (rev p2 @ rev t) = rev t"
    using assms by (cases t rule: rev_cases) (auto simp: dropWhile_append3 dropWhile_append2)
  ultimately show ?thesis by (simp add: trim_def trim_end_def)
qed

lemma literal_text_ends:
  assumes "valid_literal l"
  shows "literal_text l \<noteq> []" "\<not> is_whitespace (hd (literal_text l))"
    "\<not> is_whitespace (last (literal_text l))"
proof -
  have ws: "\<not> is_whitespace 45" "\<not> is_whitespace 43" "\<not> is_whitespace 46"
    by (simp_all add: is_whitespace_def)
  have chars: "\<forall>c \<in> set (literal_text l). \<not> is_whitespace c"
  proof -
    have "\<not> is_whitespace 101" "\<not> is_whitespace 69" by (simp_all add: is_whitespace_def)
    moreover have "set (sign_chars sg) \<subseteq> {45, 43}" for sg
      by (cases sg rule: sign_chars.cases) auto
    ultimately show ?thesis
      using assms ws digit_char_not_whitespace
      by (auto simp: literal_text_def frac_text_def exp_text_def valid_literal_def lit_digits_def
               split: option.splits)
  qed
  show "literal_text l \<noteq> []"
    using assms by (auto simp: literal_text_def frac_text_def valid_literal_def lit_digits_def
        split: option.splits)
  with chars show "\<not> is_whitespace (hd (literal_text l))" "\<not> is_whitespace (last (literal_text l))"
    by simp_all
qed

lemma parse_sign_literal:
  assumes "valid_literal l"
  shows "parse_sign (literal_text l) =
     (lit_sign l = Some True, map digit_char (lit_int l) @ frac_text l @ exp_text l)"
proof -
  let ?r = "map digit_char (lit_int l) @ frac_text l @ exp_text l"
  have r: "?r \<noteq> []" "hd ?r \<noteq> 45" "hd ?r \<noteq> 43"
    using assms
    by (cases "lit_int l"; auto simp: frac_text_def valid_literal_def lit_digits_def split: option.splits)+
  then obtain c cs where c: "?r = c # cs" "c \<noteq> 45" "c \<noteq> 43" by (cases ?r) auto
  have "literal_text l = sign_chars (lit_sign l) @ ?r" by (simp add: literal_text_def)
  with c show ?thesis
    by (cases "lit_sign l" rule: sign_chars.cases) (simp_all add: parse_sign_def)
qed

lemma exp_text_not_digit:
  assumes "valid_literal l"
  shows "exp_text l = [] \<or> \<not> is_ascii_digit (hd (exp_text l)) \<and> hd (exp_text l) \<noteq> 46"
  using assms
  by (auto simp: exp_text_def valid_literal_def is_ascii_digit_def split: option.splits)

lemma parse_fraction_literal:
  assumes "valid_literal l"
  shows "parse_fraction (frac_text l @ exp_text l) =
    (case lit_frac l of None \<Rightarrow> [] | Some fs \<Rightarrow> map digit_char fs, exp_text l)"
proof (cases "lit_frac l")
  case None
  then show ?thesis
    using exp_text_not_digit [OF assms]
    by (auto simp: parse_fraction_def frac_text_def split: list.splits)
next
  case (Some fs)
  with assms have "all_digits fs" by (auto simp: valid_literal_def lit_digits_def)
  with Some span_digits [of fs "exp_text l"] exp_text_not_digit [OF assms] show ?thesis
    by (auto simp: parse_fraction_def frac_text_def)
qed

text \<open>
  On a literal the parser and \<^verbatim>\<open>from_digits\<close> agree: the two constructors of a number
  accept the same digits, refuse the same ones, and build the same value.
\<close>

lemma parse_literal_from_digits:
  assumes l: "valid_literal l" and small: "int (length (lit_digits l)) \<le> i32_max"
    and ws: "\<forall>c \<in> set p1. is_whitespace c" "\<forall>c \<in> set p2. is_whitespace c"
  shows "parse (p1 @ literal_text l @ p2) =
    from_digits (lit_sign l = Some True) (lit_digits l) (int (length (lit_int l)) + lit_exponent l)"
proof -
  let ?ip = "map digit_char (lit_int l)"
  let ?fp = "case lit_frac l of None \<Rightarrow> [] | Some fs \<Rightarrow> map digit_char fs"
  have t: "trim (p1 @ literal_text l @ p2) = literal_text l"
    using trim_literal literal_text_ends [OF l] ws by blast
  have ip: "all_digits (lit_int l)" using l by (auto simp: valid_literal_def lit_digits_def)
  have stop: "frac_text l @ exp_text l = [] \<or> \<not> is_ascii_digit (hd (frac_text l @ exp_text l))"
    using exp_text_not_digit [OF l]
    by (auto simp: frac_text_def is_ascii_digit_def split: option.splits)
  note sp = span_digits [OF ip stop]
  have ds: "map (\<lambda>b. nat (b - 48)) (?ip @ ?fp) = lit_digits l"
    by (auto simp: lit_digits_def map_digit_char_back split: option.splits simp del: map_map)
  have ne: "\<not> (?ip = [] \<and> ?fp = [])"
    using l by (auto simp: valid_literal_def lit_digits_def split: option.splits)
  have "parse (p1 @ literal_text l @ p2) =
    parse_digits (lit_sign l = Some True) (lit_digits l) (length (lit_int l)) (lit_exponent l)"
    using literal_text_ends(1) [OF l] ne ds
    by (auto simp: parse_def t parse_sign_literal [OF l] sp parse_fraction_literal [OF l]
        parse_exponent_literal [OF l] Let_def del: map_map map_append)
  also have "\<dots> = from_digits (lit_sign l = Some True) (lit_digits l) (int (length (lit_int l)) + lit_exponent l)"
    using l small by (intro parse_digits_eq) (auto simp: valid_literal_def lit_digits_def)
  finally show ?thesis .
qed

subsection \<open>Every accepted text is a literal\<close>

lemma digit_run: "\<exists>ds. all_digits ds \<and> takeWhile is_ascii_digit r = map digit_char ds"
proof -
  let ?b = "takeWhile is_ascii_digit r"
  let ?ds = "map (\<lambda>b. nat (b - 48)) ?b"
  have dig: "\<forall>b \<in> set ?b. is_ascii_digit b" by (auto dest: set_takeWhileD)
  then have "map digit_char ?ds = ?b" by (rule char_of_ascii_digits)
  moreover have "all_digits ?ds" using dig by (auto simp: is_ascii_digit_def)
  ultimately show ?thesis by metis
qed

lemma parse_sign_inv: "\<exists>sg. bytes = sign_chars sg @ snd (parse_sign bytes) \<and> fst (parse_sign bytes) = (sg = Some True)"
  using sign_chars.simps by (cases bytes) (auto simp: parse_sign_def intro: exI [of _ None] exI [of _ "Some True"] exI [of _ "Some False"])

lemma parse_exponent_inv:
  assumes "parse_exponent r = Inr (ex, [])"
  shows "r = [] \<or> (\<exists>m sg xs. r = m # sign_chars sg @ map digit_char xs \<and> (m = 101 \<or> m = 69) \<and>
           all_digits xs \<and> xs \<noteq> [] \<and> length xs \<le> 6)"
proof (cases r)
  case (Cons c cs)
  obtain neg cs' where ps: "parse_sign cs = (neg, cs')" by (cases "parse_sign cs")
  obtain xs where xs: "all_digits xs" "takeWhile is_ascii_digit cs' = map digit_char xs"
    using digit_run by blast
  obtain sg where sg: "cs = sign_chars sg @ cs'" using parse_sign_inv [of cs] ps by auto
  from assms Cons ps have c: "c = 101 \<or> c = 69" "dropWhile is_ascii_digit cs' = []"
    "takeWhile is_ascii_digit cs' \<noteq> []" "length (takeWhile is_ascii_digit cs') \<le> 6"
    by (auto simp: parse_exponent_def Let_def split: if_splits)
  have "cs' = map digit_char xs"
    using takeWhile_dropWhile_id [of is_ascii_digit cs'] c(2) xs(2) by simp
  moreover from c(3,4) xs(2) have "xs \<noteq> []" "length xs \<le> 6" by auto
  ultimately show ?thesis using Cons c(1) sg xs(1) by blast
qed simp

lemma parse_exponent_optional:
  assumes "parse_exponent r = Inr (ex, [])"
  shows "\<exists>t. r = (case t of None \<Rightarrow> [] | Some (m, sg, xs) \<Rightarrow> m # sign_chars sg @ map digit_char xs) \<and>
    (case t of None \<Rightarrow> True
     | Some (m, sg, xs) \<Rightarrow> (m = 101 \<or> m = 69) \<and> all_digits xs \<and> xs \<noteq> [] \<and> length xs \<le> 6)"
  using parse_exponent_inv [OF assms]
proof
  assume "r = []"
  then show ?thesis by (intro exI [of _ None]) simp
next
  assume "\<exists>m sg xs. r = m # sign_chars sg @ map digit_char xs \<and> (m = 101 \<or> m = 69) \<and>
           all_digits xs \<and> xs \<noteq> [] \<and> length xs \<le> 6"
  then obtain m sg xs where "r = m # sign_chars sg @ map digit_char xs" "m = 101 \<or> m = 69"
    "all_digits xs" "xs \<noteq> []" "length xs \<le> 6" by blast
  then show ?thesis by (intro exI [of _ "Some (m, sg, xs)"]) simp
qed

lemma parse_fraction_inv:
  "\<exists>fr. r = (case fr of None \<Rightarrow> [] | Some fs \<Rightarrow> 46 # map digit_char fs) @ snd (parse_fraction r) \<and>
     fst (parse_fraction r) = (case fr of None \<Rightarrow> [] | Some fs \<Rightarrow> map digit_char fs) \<and>
     (\<forall>fs. fr = Some fs \<longrightarrow> all_digits fs)"
proof (cases "\<exists>cs. r = 46 # cs")
  case True
  then obtain cs where cs: "r = 46 # cs" by blast
  obtain fs where fs: "all_digits fs" "takeWhile is_ascii_digit cs = map digit_char fs"
    using digit_run by blast
  have "cs = map digit_char fs @ dropWhile is_ascii_digit cs"
    using fs takeWhile_dropWhile_id [of is_ascii_digit cs] by simp
  with cs fs show ?thesis by (intro exI [of _ "Some fs"]) (simp add: parse_fraction_def)
next
  case False
  then have "parse_fraction r = ([], r)" by (cases r) (auto simp: parse_fraction_def)
  then show ?thesis by (intro exI [of _ None]) simp
qed

lemma parse_Inr_literal:
  assumes "parse text = Inr n"
  shows "\<exists>p1 l p2. text = p1 @ literal_text l @ p2 \<and> valid_literal l \<and>
    (\<forall>c \<in> set p1. is_whitespace c) \<and> (\<forall>c \<in> set p2. is_whitespace c)"
proof -
  let ?t = "trim text"
  obtain neg r0 where ps: "parse_sign ?t = (neg, r0)" by (cases "parse_sign ?t")
  obtain fp r2 where pf: "parse_fraction (dropWhile is_ascii_digit r0) = (fp, r2)"
    by (cases "parse_fraction (dropWhile is_ascii_digit r0)")
  let ?ip = "takeWhile is_ascii_digit r0"
  from assms ps pf obtain ex where ne: "\<not> (?ip = [] \<and> fp = [])" and ex: "parse_exponent r2 = Inr (ex, [])"
    by (auto simp: parse_def Let_def split: if_splits sum.splits)
  obtain sg where sg: "?t = sign_chars sg @ r0" using parse_sign_inv [of ?t] ps by auto
  obtain ids where is_: "all_digits ids" "?ip = map digit_char ids" using digit_run by blast
  obtain fr where fr: "dropWhile is_ascii_digit r0 = (case fr of None \<Rightarrow> [] | Some fs \<Rightarrow> 46 # map digit_char fs) @ r2"
    "fp = (case fr of None \<Rightarrow> [] | Some fs \<Rightarrow> map digit_char fs)" "\<And>fs. fr = Some fs \<Longrightarrow> all_digits fs"
    using parse_fraction_inv [of "dropWhile is_ascii_digit r0"] pf by auto
  obtain exl where exl: "r2 = (case exl of None \<Rightarrow> [] | Some (m, sg, xs) \<Rightarrow> m # sign_chars sg @ map digit_char xs)"
    "case exl of None \<Rightarrow> True | Some (m, sg, xs) \<Rightarrow> (m = 101 \<or> m = 69) \<and> all_digits xs \<and> xs \<noteq> [] \<and> length xs \<le> 6"
    using parse_exponent_optional [OF ex] by blast
  let ?l = "\<lparr>lit_sign = sg, lit_int = ids, lit_frac = fr, lit_exp = exl\<rparr>"
  have "r0 = ?ip @ dropWhile is_ascii_digit r0" by simp
  then have "?t = literal_text ?l"
    using sg is_(2) fr(1) exl(1)
    by (simp add: literal_text_def frac_text_def exp_text_def)
  moreover have "valid_literal ?l"
    using ne is_ fr(2,3) exl(2) by (auto simp: valid_literal_def lit_digits_def split: option.splits)
  moreover obtain p1 p2 where "text = p1 @ ?t @ p2" "\<forall>c \<in> set p1. is_whitespace c" "\<forall>c \<in> set p2. is_whitespace c"
    using trim_end_prefix [of "trim_start text"] takeWhile_dropWhile_id [of is_whitespace "text"]
    by (metis set_takeWhileD trim_def trim_start_def)
  ultimately show ?thesis by metis
qed

section \<open>Rendering and parsing are inverse\<close>

lemma lstrip_padded: "ds \<noteq> [] \<Longrightarrow> hd ds \<noteq> 0 \<Longrightarrow> lstrip (replicate z 0 @ ds @ ys) = ds @ ys"
  by (induction z) (auto simp: neq_Nil_conv)

lemma takeWhile_padded:
  "ds \<noteq> [] \<Longrightarrow> hd ds \<noteq> 0 \<Longrightarrow> takeWhile (\<lambda>d. d = 0) (replicate z 0 @ ds @ ys) = replicate z 0"
  by (induction z) (auto simp: neq_Nil_conv)

lemma from_digits_padded:
  assumes "ds \<noteq> []" "all_digits ds" "hd ds \<noteq> 0" "last ds \<noteq> 0"
    "length ds \<le> MAX_SIGNIFICANT_DIGITS" "MIN_EXPONENT \<le> e" "e \<le> MAX_EXPONENT" "int z \<le> i32_max"
  shows "from_digits neg (replicate z 0 @ ds @ replicate k 0) (e + int z) = Inr (mk_number neg ds e)"
proof -
  let ?xs = "replicate z 0 @ ds @ replicate k 0"
  have "rstrip (lstrip ?xs) = ds"
    by (simp only: lstrip_padded [OF assms(1,3)] rstrip_append_zeros rstrip_eq [OF assms(1,4)])
  moreover have "length (takeWhile (\<lambda>d. d = 0) ?xs) = z"
    by (simp only: takeWhile_padded [OF assms(1,3)] length_replicate)
  moreover have "all_digits ?xs" using assms by auto
  ultimately show ?thesis
    using assms by (simp add: from_digits_strip i32_of_count_def check_exponent_def)
qed

definition display_literal :: "bool \<Rightarrow> nat list \<Rightarrow> int \<Rightarrow> literal" where
  "display_literal neg ds e =
     (if int (length ds) \<le> e
      then \<lparr>lit_sign = (if neg then Some True else None), lit_int = ds @ replicate (nat (e - int (length ds))) 0,
            lit_frac = None, lit_exp = None\<rparr>
      else if 0 < e
      then \<lparr>lit_sign = (if neg then Some True else None), lit_int = take (nat e) ds,
            lit_frac = Some (drop (nat e) ds), lit_exp = None\<rparr>
      else \<lparr>lit_sign = (if neg then Some True else None), lit_int = [0],
            lit_frac = Some (replicate (nat (- e)) 0 @ ds), lit_exp = None\<rparr>)"

lemma digit_char_0: "digit_char 0 = 48"
  by (simp add: digit_char_def)

lemma display_is_literal:
  "ds \<noteq> [] \<Longrightarrow> display (mk_number neg ds e) = literal_text (display_literal neg ds e)"
  by (simp add: display_def Let_def display_literal_def literal_text_def frac_text_def exp_text_def digit_char_0)

lemma valid_display_literal:
  "ds \<noteq> [] \<Longrightarrow> all_digits ds \<Longrightarrow> valid_literal (display_literal neg ds e)"
  by (auto simp: valid_literal_def display_literal_def lit_digits_def dest: in_set_takeD in_set_dropD)

lemma display_literal_value:
  fixes neg :: bool
  assumes "ds \<noteq> []" "all_digits ds" "hd ds \<noteq> 0" "last ds \<noteq> 0"
    "length ds \<le> MAX_SIGNIFICANT_DIGITS" "MIN_EXPONENT \<le> e" "e \<le> MAX_EXPONENT"
  defines "l \<equiv> display_literal neg ds e"
  shows "from_digits (lit_sign l = Some True) (lit_digits l) (int (length (lit_int l)) + lit_exponent l)
    = Inr (mk_number neg ds e)" "int (length (lit_digits l)) \<le> i32_max"
proof -
  have len: "int (length ds) \<le> 40" using assms(5) by (simp add: MAX_SIGNIFICANT_DIGITS_def)
  have e: "-129 \<le> e" "e \<le> 126" using assms(6,7) by (simp_all add: MIN_EXPONENT_def MAX_EXPONENT_def)
  have sg: "(lit_sign l = Some True) = neg" "lit_exponent l = 0"
    by (simp_all add: l_def display_literal_def lit_exponent_def)
  show "int (length (lit_digits l)) \<le> i32_max"
    using len e by (simp add: l_def display_literal_def lit_digits_def i32_max_def)
  consider (big) "int (length ds) \<le> e" | (mid) "0 < e" "e < int (length ds)" | (small) "e \<le> 0"
    by linarith
  then show "from_digits (lit_sign l = Some True) (lit_digits l) (int (length (lit_int l)) + lit_exponent l)
    = Inr (mk_number neg ds e)"
  proof cases
    case big
    then show ?thesis
      using from_digits_padded [OF assms(1-7), of 0 neg "nat (e - int (length ds))"] sg
      by (simp add: l_def display_literal_def lit_digits_def i32_max_def)
  next
    case mid
    then have "int (min (length ds) (nat e)) = e" by simp
    with mid show ?thesis
      using from_digits_padded [OF assms(1-7), of 0 neg 0] sg
      by (simp add: l_def display_literal_def lit_digits_def i32_max_def)
  next
    case small
    let ?z = "Suc (nat (- e))"
    have "int ?z \<le> i32_max" using e small by (simp add: i32_max_def)
    moreover have "0 # replicate (nat (- e)) 0 @ ds = replicate ?z 0 @ ds @ replicate 0 0" by simp
    moreover have "e + int ?z = 1" using small by simp
    ultimately have "from_digits neg (0 # replicate (nat (- e)) 0 @ ds) 1 = Inr (mk_number neg ds e)"
      using from_digits_padded [OF assms(1-7), of ?z neg 0] by metis
    moreover have "\<not> int (length ds) \<le> e" using small assms(1) by (cases ds) auto
    ultimately show ?thesis
      using small sg by (simp add: l_def display_literal_def lit_digits_def)
  qed
qed

lemma parse_ZERO_text: "parse [48] = Inr ZERO"
proof -
  have "valid_literal \<lparr>lit_sign = None, lit_int = [0], lit_frac = None, lit_exp = None\<rparr>"
    by (simp add: valid_literal_def lit_digits_def)
  from parse_literal_from_digits [OF this, of "[]" "[]"] show ?thesis
    by (simp add: lit_digits_def i32_max_def literal_text_def digit_char_def frac_text_def exp_text_def
        from_digits_def)
qed

lemma parse_display:
  assumes "wf_number n"
  shows "parse (display n) = Inr n"
  using assms
proof (cases rule: wf_number_cases)
  case zero
  then show ?thesis using parse_ZERO_text by (simp add: display_def ZERO_def)
next
  case (nonzero neg ds e)
  note facts = nonzero(2-8)
  show ?thesis
    using parse_literal_from_digits [OF valid_display_literal [OF facts(1,2)]
        display_literal_value(2) [OF facts], of "[]" "[]" neg]
      display_literal_value(1) [OF facts, of neg]
    by (simp add: nonzero(1) display_is_literal [OF facts(1)])
qed

section \<open>The order is the order of the values\<close>

text \<open>Lexicographic comparison of normalised digit runs is comparison of fractions.\<close>

lemma slice_cmp_fraction:
  assumes "all_digits xs" "all_digits ys" "xs = [] \<or> last xs \<noteq> 0" "ys = [] \<or> last ys \<noteq> 0"
  shows "slice_cmp xs ys =
    (if fraction xs < fraction ys then Less else if fraction xs = fraction ys then Equal else Greater)"
  using assms
proof (induction xs ys rule: slice_cmp.induct)
  case 1
  then show ?case by simp
next
  case (2 y ys)
  then have "fraction (y # ys) \<noteq> 0" by (metis fraction_eq_0_iff last_in_set list.distinct(1))
  then have "0 < fraction (y # ys)" using fraction_nonneg [of "y # ys"] by linarith
  then show ?case by simp
next
  case (3 x xs)
  then have "fraction (x # xs) \<noteq> 0" by (metis fraction_eq_0_iff last_in_set list.distinct(1))
  then have "0 < fraction (x # xs)" using fraction_nonneg [of "x # xs"] by linarith
  then show ?case by simp
next
  case (4 x xs y ys)
  have f: "fraction xs < 1" "fraction ys < 1" using 4 by (auto intro: fraction_less_1)
  have nn: "0 \<le> fraction xs" "0 \<le> fraction ys" by simp_all
  consider "x < y" | "y < x" | "x = y" by linarith
  then show ?case
  proof cases
    case 1
    then have "(of_nat x :: rat) + 1 \<le> of_nat y" by (metis Suc_leI of_nat_Suc of_nat_le_iff add.commute)
    with f nn have "of_nat x + fraction xs < of_nat y + fraction ys" by linarith
    then have "fraction (x # xs) < fraction (y # ys)" by (simp add: divide_strict_right_mono)
    with 1 show ?thesis by simp
  next
    case 2
    then have "(of_nat y :: rat) + 1 \<le> of_nat x" by (metis Suc_leI of_nat_Suc of_nat_le_iff add.commute)
    with f nn have "of_nat y + fraction ys < of_nat x + fraction xs" by linarith
    then have "fraction (y # ys) < fraction (x # xs)" by (simp add: divide_strict_right_mono)
    with 2 show ?thesis by simp
  next
    case 3
    with 4 show ?thesis by (auto split: if_splits)
  qed
qed

text \<open>A larger exponent is a larger magnitude: the leading digit is never zero.\<close>

lemma magnitude_exponent_less:
  assumes "all_digits xs" "ys \<noteq> []" "hd ys \<noteq> 0" "e < (f::int)"
  shows "fraction xs * 10 powi e < fraction ys * 10 powi f"
proof -
  have "fraction xs * 10 powi e < 1 * 10 powi e"
    using fraction_less_1 [OF assms(1)] by (intro mult_strict_right_mono) simp_all
  also have "\<dots> = (1 / 10) * 10 powi (e + 1)" by (simp add: power_int_add)
  also have "\<dots> \<le> (1 / 10) * 10 powi f"
    using assms(4) by (intro mult_left_mono power_int_increasing) simp_all
  also have "\<dots> \<le> fraction ys * 10 powi f"
    using fraction_hd [OF assms(2,3)] by (intro mult_right_mono) simp_all
  finally show ?thesis .
qed

definition ord_of :: "rat \<Rightarrow> rat \<Rightarrow> ordering" where
  "ord_of a b = (if a < b then Less else if a = b then Equal else Greater)"

lemma ord_of_neg: "ord_of (- a) (- b) = ord_reverse (ord_of a b)"
  by (auto simp: ord_of_def)

lemma magnitude_cmp:
  assumes "xs \<noteq> []" "all_digits xs" "hd xs \<noteq> 0" "last xs \<noteq> 0"
    "ys \<noteq> []" "all_digits ys" "hd ys \<noteq> 0" "last ys \<noteq> 0"
  shows "ord_then (int_cmp e f) (slice_cmp xs ys) = ord_of (fraction xs * 10 powi e) (fraction ys * 10 powi f)"
proof -
  consider "e < f" | "f < e" | "e = f" by linarith
  then show ?thesis
  proof cases
    case 1
    with magnitude_exponent_less [of xs ys e f] assms show ?thesis
      by (simp add: ord_then_def int_cmp_def ord_of_def)
  next
    case 2
    with magnitude_exponent_less [of ys xs f e] assms show ?thesis
      by (simp add: ord_then_def int_cmp_def ord_of_def)
  next
    case 3
    then show ?thesis
      using slice_cmp_fraction [of xs ys] assms
      by (simp add: ord_then_def int_cmp_def ord_of_def)
  qed
qed

lemma cmp_ord_of:
  assumes "wf_number a" "wf_number b"
  shows "cmp a b = ord_of (number_value a) (number_value b)"
proof -
  have pos: "0 < fraction ds * 10 powi e" if "ds \<noteq> []" "hd ds \<noteq> 0" for ds and e :: int
    using fraction_hd [OF that] by simp
  from assms(1) show ?thesis
  proof (cases rule: wf_number_cases)
    case a: zero
    from assms(2) show ?thesis
    proof (cases rule: wf_number_cases)
      case zero
      with a show ?thesis by (simp add: cmp_def ord_of_def)
    next
      case (nonzero neg ds e)
      with a pos [of ds e] show ?thesis by (auto simp: cmp_def ord_of_def)
    qed
  next
    case a: (nonzero neg ds e)
    from assms(2) show ?thesis
    proof (cases rule: wf_number_cases)
      case zero
      with a pos [of ds e] show ?thesis by (auto simp: cmp_def ord_of_def)
    next
      case (nonzero neg' ds' e')
      with a pos [of ds e] pos [of ds' e'] magnitude_cmp [of ds ds' e e']
      show ?thesis by (auto simp: cmp_def ord_of_neg) (auto simp: ord_of_def)
    qed
  qed
qed

section \<open>Integers\<close>

lemma decimal_snoc: "decimal (ds @ [d]) = decimal ds * 10 + int d"
  by (induction ds) (auto simp: algebra_simps)

lemma decimal_nonneg [simp]: "0 \<le> decimal ds"
  by (induction ds) auto

lemma fraction_decimal: "fraction ds = of_int (decimal ds) / 10 ^ length ds"
  by (induction ds) (auto simp: field_simps)

lemma decimal_last: "ds \<noteq> [] \<Longrightarrow> all_digits ds \<Longrightarrow> decimal ds mod 10 = int (last ds)"
  by (induction ds rule: rev_induct) (auto simp: decimal_snoc)

lemma checked_i128_nonneg: "0 \<le> v \<Longrightarrow> checked_i128 v = (if v \<le> i128_max then Some v else None)"
  by (simp add: checked_i128_def i128_min_def)

lemma i128_digits_eq:
  "0 \<le> v \<Longrightarrow> v \<le> i128_max \<Longrightarrow>
   i128_digits ds v = (if v * 10 ^ length ds + decimal ds \<le> i128_max
     then Some (v * 10 ^ length ds + decimal ds) else None)"
proof (induction ds arbitrary: v)
  case (Cons d ds)
  have total: "v * 10 ^ length (d # ds) + decimal (d # ds) = (v * 10 + int d) * 10 ^ length ds + decimal ds"
    by (simp add: algebra_simps)
  have ge: "v * 10 + int d \<le> (v * 10 + int d) * 10 ^ length ds + decimal ds"
  proof -
    let ?w = "v * 10 + int d"
    have "?w * 1 \<le> ?w * 10 ^ length ds"
      using Cons.prems by (intro mult_left_mono) simp_all
    then have "?w \<le> ?w * 10 ^ length ds" by (simp only: mult_1_right)
    then show ?thesis using decimal_nonneg [of ds] by (rule add_increasing2 [rotated])
  qed
  show ?case
  proof (cases "v * 10 + int d \<le> i128_max")
    case True
    with Cons.prems Cons.IH [of "v * 10 + int d"] total show ?thesis
      by (simp add: checked_i128_nonneg)
  next
    case False
    then have "i128_digits (d # ds) v = None"
      using Cons.prems by (simp add: checked_i128_nonneg split: option.splits)
    with False total ge show ?thesis by simp
  qed
qed simp

lemma i128_shift_eq:
  "0 \<le> v \<Longrightarrow> v \<le> i128_max \<Longrightarrow>
   i128_shift k v = (if v * 10 ^ k \<le> i128_max then Some (v * 10 ^ k) else None)"
proof (induction k arbitrary: v)
  case (Suc k)
  have ge: "v * 10 \<le> v * 10 ^ Suc k"
    using Suc.prems by (intro mult_left_mono) simp_all
  show ?case
  proof (cases "v * 10 \<le> i128_max")
    case True
    with Suc.prems Suc.IH [of "v * 10"] show ?thesis by (simp add: checked_i128_nonneg mult.assoc)
  next
    case False
    with ge have "\<not> v * 10 ^ Suc k \<le> i128_max" by linarith
    with False Suc.prems show ?thesis by (simp add: checked_i128_nonneg)
  qed
qed simp

lemma to_i128_mk:
  assumes "ds \<noteq> []" "int (length ds) \<le> e"
  defines "m \<equiv> decimal ds * 10 ^ nat (e - int (length ds))"
  shows "to_i128 (mk_number neg ds e) =
    (if m \<le> i128_max then Some (if neg then - m else m) else None)"
proof -
  have le: "decimal ds \<le> m"
    unfolding m_def using mult_left_mono [of 1 "10 ^ nat (e - int (length ds))" "decimal ds"] by simp
  have "i128_digits ds 0 = (if decimal ds \<le> i128_max then Some (decimal ds) else None)"
    using i128_digits_eq [of 0 ds] by (simp add: i128_max_def)
  with le i128_shift_eq [of "decimal ds" "nat (e - int (length ds))"] assms show ?thesis
    by (auto simp: to_i128_def Let_def m_def)
qed

lemma number_value_integer:
  assumes "int (length ds) \<le> e"
  shows "fraction ds * 10 powi e = of_int (decimal ds * 10 ^ nat (e - int (length ds)))"
proof -
  have "(10::rat) powi e = 10 ^ length ds * 10 ^ nat (e - int (length ds))"
    using assms by (simp add: power_int_def power_add [symmetric] nat_diff_distrib)
  then show ?thesis by (simp add: fraction_decimal)
qed

lemma number_value_not_integer:
  assumes "ds \<noteq> []" "all_digits ds" "last ds \<noteq> 0" "e < int (length ds)"
  shows "fraction ds * 10 powi e \<noteq> of_int z"
proof
  assume eq: "fraction ds * 10 powi e = of_int z"
  define k where "k = nat (int (length ds) - e)"
  have k: "0 < k" "e = int (length ds) - int k" using assms(4) by (simp_all add: k_def)
  have "(10::rat) powi e = 10 ^ length ds / 10 ^ k"
    by (simp add: k(2) power_int_diff)
  with eq have "of_int (decimal ds) / 10 ^ k = (of_int z :: rat)" by (simp add: fraction_decimal)
  then have "(of_int (decimal ds) :: rat) = of_int (z * 10 ^ k)" by (simp add: field_simps)
  then have "decimal ds = z * 10 ^ k" by (simp only: of_int_eq_iff)
  with k(1) have "decimal ds mod 10 = 0" by (cases k) auto
  with decimal_last [OF assms(1,2)] assms(3) show False by simp
qed

lemma to_i128_iff:
  assumes "wf_number n"
  shows "to_i128 n = Some z \<longleftrightarrow> number_value n = of_int z \<and> \<bar>z\<bar> \<le> i128_max"
  using assms
proof (cases rule: wf_number_cases)
  case zero
  then show ?thesis by (auto simp: to_i128_def i128_max_def)
next
  case (nonzero neg ds e)
  show ?thesis
  proof (cases "int (length ds) \<le> e")
    case True
    let ?m = "decimal ds * 10 ^ nat (e - int (length ds))"
    have v: "number_value n = of_int (if neg then - ?m else ?m)"
      using number_value_integer [OF True] nonzero(1) by simp
    have "0 \<le> ?m" by simp
    with to_i128_mk [OF nonzero(2) True, of neg] v nonzero(1) show ?thesis
      by (auto simp del: of_int_minus of_int_mult)
  next
    case False
    then have "to_i128 n = None" using nonzero by (simp add: to_i128_def)
    moreover have "number_value n \<noteq> of_int z"
      using number_value_not_integer [of ds e z] number_value_not_integer [of ds e "- z"] nonzero False
      by (auto simp: minus_equation_iff)
    ultimately show ?thesis by simp
  qed
qed

lemma decimal_rev_reversed [simp]: "decimal (rev (reversed_digits m)) = int m"
proof (induction m rule: reversed_digits.induct)
  case (1 m)
  then show ?case
    by (subst reversed_digits.simps) (auto simp: decimal_snoc zmod_int zdiv_int)
qed

lemma reversed_digits_0 [simp]: "reversed_digits 0 = []"
  by (subst reversed_digits.simps) simp

lemma reversed_digits_props:
  "m \<noteq> 0 \<Longrightarrow> reversed_digits m \<noteq> [] \<and> last (reversed_digits m) \<noteq> 0"
  "all_digits (reversed_digits m)"
proof (induction m rule: reversed_digits.induct)
  case (1 m)
  { case 1
    then show ?case
      using "1.IH"(1) by (subst (1 2) reversed_digits.simps) (cases "m div 10 = 0"; auto simp: div_eq_0_iff) }
  { case 2
    then show ?case using "1.IH"(2) by (subst reversed_digits.simps) auto }
qed

lemma reversed_digits_power: "m \<noteq> 0 \<Longrightarrow> 10 ^ (length (reversed_digits m) - 1) \<le> m"
proof (induction m rule: reversed_digits.induct)
  case (1 m)
  show ?case
  proof (cases "m div 10 = 0")
    case True
    then have "reversed_digits m = [m mod 10]"
      using 1 by (simp add: reversed_digits.simps [of m])
    with 1 show ?thesis by simp
  next
    case False
    with 1 have ih: "10 ^ (length (reversed_digits (m div 10)) - 1) \<le> m div 10" by simp
    obtain k where k: "length (reversed_digits (m div 10)) = Suc k"
      using reversed_digits_props(1) [OF False] by (cases "reversed_digits (m div 10)") auto
    have "length (reversed_digits m) = Suc (Suc k)"
      using 1 k by (simp add: reversed_digits.simps [of m])
    with ih k have "10 ^ (length (reversed_digits m) - 1) \<le> 10 * (m div 10)" by simp
    also have "\<dots> \<le> m" by simp
    finally show ?thesis .
  qed
qed

lemma reversed_digits_length:
  assumes "m \<noteq> 0" "m < 2 ^ 128"
  shows "length (reversed_digits m) \<le> 39"
proof -
  have "10 ^ (length (reversed_digits m) - 1) \<le> m" by (rule reversed_digits_power [OF assms(1)])
  also have "m < 10 ^ 39" using assms(2) by simp
  finally have "length (reversed_digits m) - 1 < 39"
    by (rule power_less_imp_less_exp [rotated]) simp
  then show ?thesis by simp
qed

lemma from_magnitude_mk:
  assumes "m \<noteq> 0" "m < 2 ^ 128"
  shows "from_magnitude m neg =
    Inr (mk_number neg (rstrip (rev (reversed_digits m))) (int (length (reversed_digits m))))"
proof -
  let ?r = "reversed_digits m" and ?z = "length (takeWhile (\<lambda>d. d = 0) (reversed_digits m))"
  have d: "drop ?z ?r = lstrip ?r" by (rule drop_takeWhile_length)
  have l: "length ?r - ?z = length (lstrip ?r)" using d by (metis length_drop)
  have "length (lstrip ?r) \<le> length ?r" by (rule length_dropWhile_le)
  also have "\<dots> \<le> 39" by (rule reversed_digits_length [OF assms])
  finally have "\<not> length (lstrip ?r) > MAX_SIGNIFICANT_DIGITS" by (simp add: MAX_SIGNIFICANT_DIGITS_def)
  then show ?thesis
    using assms(1) by (simp add: from_magnitude_def Let_def d l rstrip_def mk_number_def)
qed

lemma from_magnitude_value:
  assumes "m < 2 ^ 128"
  shows "\<exists>n. from_magnitude m neg = Inr n \<and> wf_number n \<and>
    number_value n = (if neg then - of_nat m else of_nat m)"
proof (cases "m = 0")
  case True
  then show ?thesis by (simp add: from_magnitude_def)
next
  case False
  let ?ds = "rev (reversed_digits m)" and ?e = "int (length (reversed_digits m))"
  let ?n = "mk_number neg (rstrip ?ds) ?e"
  have pr: "reversed_digits m \<noteq> []" "last (reversed_digits m) \<noteq> 0" "all_digits ?ds"
    using reversed_digits_props [of m] False by auto
  have hd: "hd ?ds \<noteq> 0" "?ds \<noteq> []" using pr by (simp_all add: hd_rev)
  then have ne: "rstrip ?ds \<noteq> []" using rstrip_eq_Nil_iff [of ?ds] by (metis hd_in_set)
  have len: "length ?ds \<le> 39" using reversed_digits_length [OF False assms] by simp
  have "length (rstrip ?ds) \<le> length ?ds"
    using rstrip_decomp [of ?ds] by (metis le_add1 length_append)
  then have "wf_number ?n"
    using ne hd pr len rstrip_last [OF ne] hd_rstrip [OF ne] set_rstrip [of ?ds]
    by (intro wf_mk_number) (auto simp: MAX_SIGNIFICANT_DIGITS_def MIN_EXPONENT_def MAX_EXPONENT_def)
  moreover have "fraction ?ds * 10 powi ?e = of_nat m"
    using number_value_integer [of ?ds ?e] by simp
  ultimately show ?thesis using from_magnitude_mk [OF False assms] by auto
qed

section \<open>Properties\<close>

text \<open>C33. Rendering then parsing is lossless: for every well-formed number the canonical
  \<^verbatim>\<open>Display\<close> text parses back to exactly the same representation (buffer, length,
  exponent and sign).\<close>

theorem number_display_roundtrip:
  assumes "wf_number n"
  shows "parse (display n) = Inr n"
  using assms by (rule parse_display)

theorem number_display_roundtrip_witness:
  "wf_number (mk_number True [1, 2, 3, 4, 5] 3) \<and>
   parse (display (mk_number True [1, 2, 3, 4, 5] 3)) = Inr (mk_number True [1, 2, 3, 4, 5] 3)"
proof -
  have "wf_number (mk_number True [1, 2, 3, 4, 5] 3)"
    by (rule wf_mk_number) (simp_all add: MAX_SIGNIFICANT_DIGITS_def MIN_EXPONENT_def MAX_EXPONENT_def)
  with number_display_roundtrip [OF this] show ?thesis by simp
qed

text \<open>Parsing never rounds: a text the parser accepts is a decimal literal between
  white space, the number built is well formed, and it denotes exactly the literal's value
  (the digits as a fraction, scaled by the integer digits and the exponent).\<close>

theorem number_parse_exact:
  assumes "parse text = Inr n" and "int (length text) \<le> i32_max"
  shows "\<exists>p1 l p2. text = p1 @ literal_text l @ p2 \<and> valid_literal l \<and>
    (\<forall>c \<in> set (p1 @ p2). is_whitespace c) \<and> wf_number n \<and>
    number_value n = (if lit_sign l = Some True then -1 else 1) *
      fraction (lit_digits l) * 10 powi (int (length (lit_int l)) + lit_exponent l)"
proof -
  from parse_Inr_literal [OF assms(1)] obtain p1 l p2 where l: "text = p1 @ literal_text l @ p2"
    "valid_literal l" "\<forall>c \<in> set p1. is_whitespace c" "\<forall>c \<in> set p2. is_whitespace c" by blast
  have "length (lit_digits l) \<le> length (literal_text l)"
    by (auto simp: lit_digits_def literal_text_def frac_text_def split: option.splits)
  with l(1) assms(2) have small: "int (length (lit_digits l)) \<le> i32_max" by simp
  from parse_literal_from_digits [OF l(2) small l(3,4)] assms(1) l(1)
  have "from_digits (lit_sign l = Some True) (lit_digits l) (int (length (lit_int l)) + lit_exponent l) = Inr n"
    by simp
  note value_n = from_digits_value [OF this small]
  moreover have "\<forall>c \<in> set (p1 @ p2). is_whitespace c" using l(3,4) by auto
  ultimately show ?thesis using l(1,2) by blast
qed

theorem number_parse_exact_witness:
  "parse (us '' 12.50e-1'') = Inr (mk_number False [1, 2, 5] 1) \<and>
   (\<exists>p1 l p2. us '' 12.50e-1'' = p1 @ literal_text l @ p2 \<and> valid_literal l \<and>
    (\<forall>c \<in> set (p1 @ p2). is_whitespace c) \<and> wf_number (mk_number False [1, 2, 5] 1) \<and>
    number_value (mk_number False [1, 2, 5] 1) = (if lit_sign l = Some True then -1 else 1) *
      fraction (lit_digits l) * 10 powi (int (length (lit_int l)) + lit_exponent l))"
proof -
  have p: "parse (us '' 12.50e-1'') = Inr (mk_number False [1, 2, 5] 1)" by code_simp
  have "int (length (us '' 12.50e-1'')) \<le> i32_max" by (simp add: us_def i32_max_def)
  from p number_parse_exact [OF p this] show ?thesis by blast
qed

text \<open>The two constructors agree: parsing a decimal literal gives exactly the result,
  success or error, of \<^verbatim>\<open>from_digits\<close> on the literal's digits.  In particular more than
  40 significant digits and an exponent out of range are refused by both, never rounded.\<close>

theorem number_parse_literal:
  assumes "valid_literal l" and "int (length (lit_digits l)) \<le> i32_max"
    and "\<forall>c \<in> set p1. is_whitespace c" and "\<forall>c \<in> set p2. is_whitespace c"
  shows "parse (p1 @ literal_text l @ p2) =
    from_digits (lit_sign l = Some True) (lit_digits l) (int (length (lit_int l)) + lit_exponent l)"
  using assms by (rule parse_literal_from_digits)

theorem number_parse_literal_witness:
  "parse ([] @ literal_text \<lparr>lit_sign = None, lit_int = replicate 41 7, lit_frac = None, lit_exp = None\<rparr> @ [32]) =
   Inl TooManyDigits"
proof -
  let ?l = "\<lparr>lit_sign = None, lit_int = replicate 41 7, lit_frac = None, lit_exp = None\<rparr>"
  have v: "valid_literal ?l" by (simp add: valid_literal_def lit_digits_def)
  have "from_digits False (replicate 41 7) 41 = Inl TooManyDigits" by code_simp
  with number_parse_literal [OF v, of "[]" "[32]"] show ?thesis
    by (simp add: lit_digits_def i32_max_def is_whitespace_def lit_exponent_def)
qed

text \<open>The total order on numbers is the order of the values they denote: comparison
  answers \<^verbatim>\<open>Less\<close>, \<^verbatim>\<open>Equal\<close> or \<^verbatim>\<open>Greater\<close> exactly as the rational values compare.\<close>

theorem number_cmp_correct:
  assumes "wf_number a" and "wf_number b"
  shows "(cmp a b = Less \<longleftrightarrow> number_value a < number_value b) \<and>
    (cmp a b = Equal \<longleftrightarrow> number_value a = number_value b) \<and>
    (cmp a b = Greater \<longleftrightarrow> number_value b < number_value a)"
  using cmp_ord_of [OF assms] by (auto simp: ord_of_def)

theorem number_cmp_correct_witness:
  "cmp (mk_number True [5] 1) (mk_number True [4, 9] 1) = Less \<and>
   number_value (mk_number True [5] 1) < number_value (mk_number True [4, 9] 1)"
proof -
  have wf: "wf_number (mk_number True [5] 1)" "wf_number (mk_number True [4, 9] 1)"
    by (rule wf_mk_number; simp add: MAX_SIGNIFICANT_DIGITS_def MIN_EXPONENT_def MAX_EXPONENT_def)+
  have c: "cmp (mk_number True [5] 1) (mk_number True [4, 9] 1) = Less" by code_simp
  from number_cmp_correct [OF wf] c show ?thesis by blast
qed

text \<open>\<^verbatim>\<open>to_i128\<close> is exact on what it returns and total below the limit: it returns
  \<open>z\<close> exactly when the number's value is the integer \<open>z\<close> and \<open>|z|\<close> is at most
  \<open>2^127 - 1\<close>.  (The value \<open>-2^127\<close>, which an \<^verbatim>\<open>i128\<close> can hold, is therefore refused.)\<close>

theorem number_to_i128_exact:
  assumes "wf_number n"
  shows "to_i128 n = Some z \<longleftrightarrow> number_value n = of_int z \<and> \<bar>z\<bar> \<le> i128_max"
  using assms by (rule to_i128_iff)

theorem number_to_i128_exact_witness:
  "to_i128 (mk_number True [1, 5] 4) = Some (-1500) \<and>
   number_value (mk_number True [1, 5] 4) = of_int (-1500) \<and> \<bar>-1500\<bar> \<le> i128_max"
proof -
  have wf: "wf_number (mk_number True [1, 5] 4)"
    by (rule wf_mk_number) (simp_all add: MAX_SIGNIFICANT_DIGITS_def MIN_EXPONENT_def MAX_EXPONENT_def)
  have "to_i128 (mk_number True [1, 5] 4) = Some (-1500)" by code_simp
  with number_to_i128_exact [OF wf, of "-1500"] show ?thesis by blast
qed

text \<open>Every \<^verbatim>\<open>i128\<close> becomes a well-formed number of exactly that value, and except for
  \<^verbatim>\<open>i128::MIN\<close> the conversion back returns the integer it started from; for
  \<^verbatim>\<open>i128::MIN\<close> it returns nothing although the value fits the type.\<close>

theorem number_i128_roundtrip:
  assumes "i128_min \<le> v" and "v \<le> i128_max"
  shows "\<exists>n. try_from_i128 v = Inr n \<and> wf_number n \<and> number_value n = of_int v \<and>
    to_i128 n = (if v = i128_min then None else Some v)"
proof -
  have "nat \<bar>v\<bar> < 2 ^ 128" using assms by (simp add: i128_min_def i128_max_def nat_less_iff)
  from from_magnitude_value [OF this, of "v < 0"] obtain n where n: "try_from_i128 v = Inr n"
    "wf_number n" "number_value n = (if v < 0 then - of_nat (nat \<bar>v\<bar>) else of_nat (nat \<bar>v\<bar>))"
    by (auto simp: try_from_i128_def)
  then have val: "number_value n = of_int v" by (auto simp: of_nat_nat)
  have "to_i128 n = (if v = i128_min then None else Some v)"
  proof (cases "v = i128_min")
    case True
    then have "\<not> \<bar>v\<bar> \<le> i128_max" by (simp add: i128_min_def i128_max_def)
    then have "to_i128 n \<noteq> Some z" for z using to_i128_iff [OF n(2), of z] val by auto
    with True show ?thesis by (cases "to_i128 n") auto
  next
    case False
    with assms have "\<bar>v\<bar> \<le> i128_max" by (simp add: i128_min_def i128_max_def)
    with to_i128_iff [OF n(2), of v] val False show ?thesis by simp
  qed
  with n val show ?thesis by blast
qed

theorem number_i128_roundtrip_witness:
  "\<exists>n. try_from_i128 i128_min = Inr n \<and> wf_number n \<and> number_value n = of_int i128_min \<and>
    to_i128 n = None"
  using number_i128_roundtrip [of i128_min] by (simp add: i128_min_def i128_max_def)

end
