(* ===== verification/Scaled_Number.thy ===== *)
theory Scaled_Number
  imports Decimal_Number
begin

text \<open>
  \<^verbatim>\<open>crates/db-core/src/store/scaled.rs\<close>: a \<^verbatim>\<open>NUMBER\<close> cell held as a scaled 64-bit
  integer.  The theory models the encoding, the decoding and the rendering, and shows that
  nothing a reader sees depends on which encoding a segment column chose.
\<close>

section \<open>The operations\<close>

record scaled_number =
  mantissa :: int \<comment> \<open>\<^verbatim>\<open>i64\<close>\<close>
  scale :: nat \<comment> \<open>\<^verbatim>\<open>u8\<close>\<close>

definition MAX_SCALE :: nat where
  "MAX_SCALE = 18"

definition i64_range :: "int \<Rightarrow> bool" where
  "i64_range v \<longleftrightarrow> - (2 ^ 63) \<le> v \<and> v \<le> 2 ^ 63 - 1"

definition scaled_new :: "int \<Rightarrow> nat \<Rightarrow> scaled_number option" where
  "scaled_new m s = (if s > MAX_SCALE then None else Some \<lparr>mantissa = m, scale = s\<rparr>)"

text \<open>\<^verbatim>\<open>from_number\<close>: the digits accumulated, then shifted to the scale.\<close>

definition scaled_from_number :: "number \<Rightarrow> nat \<Rightarrow> scaled_number option" where
  "scaled_from_number n s =
     (if s > MAX_SCALE then None
      else if is_zero n then Some \<lparr>mantissa = 0, scale = s\<rparr>
      else let ds = digits n;
               cnt = int (length ds);
               shift = exponent n - cnt + int s
           in if shift < 0 then None
              else if cnt + shift > 19 then None
              else let magnitude = foldl (\<lambda>m d. m * 10 + int d) 0 ds;
                       magnitude = magnitude * 10 ^ nat shift;
                       signed = (if negative n then - magnitude else magnitude)
                   in if i64_range signed then Some \<lparr>mantissa = signed, scale = s\<rparr> else None)"

definition required_scale :: "number \<Rightarrow> nat option" where
  "required_scale n =
     (if is_zero n then Some 0
      else let fraction_digits = max (int (digit_count n) - exponent n) 0
           in if fraction_digits \<le> int MAX_SCALE then Some (nat fraction_digits) else None)"

definition magnitude_digits :: "scaled_number \<Rightarrow> nat list" where
  "magnitude_digits x = rev (reversed_digits (nat \<bar>mantissa x\<bar>))"

definition scaled_to_number :: "scaled_number \<Rightarrow> number" where
  "scaled_to_number x =
     (let ds = magnitude_digits x
      in case from_digits (mantissa x < 0) ds (int (length ds) - int (scale x)) of
           Inl _ \<Rightarrow> ZERO | Inr n \<Rightarrow> n)"

text \<open>\<^verbatim>\<open>while scale > 0 && digits[len - 1] == 0 { len -= 1; scale -= 1; }\<close>\<close>

fun strip_scale :: "nat list \<Rightarrow> nat \<Rightarrow> nat \<Rightarrow> nat \<times> nat" where
  "strip_scale ds l 0 = (l, 0)"
| "strip_scale ds l (Suc s) = (if ds ! (l - 1) = 0 then strip_scale ds (l - 1) s else (l, Suc s))"

definition scaled_display :: "scaled_number \<Rightarrow> ustr" where
  "scaled_display x =
     (if mantissa x = 0 then [48]
      else let full = magnitude_digits x;
               (l, s) = strip_scale full (length full) (scale x);
               ds = take l full;
               sign = (if mantissa x < 0 then [45] else [])
           in if s = 0 then sign @ map digit_char ds
              else if l > s
              then sign @ map digit_char (take (l - s) ds) @ [46] @ map digit_char (drop (l - s) ds)
              else sign @ [48, 46] @ replicate (s - l) 48 @ map digit_char ds)"

text \<open>One \<^verbatim>\<open>NUMBER\<close> cell as the store holds it (\<^verbatim>\<open>enum NumberValue\<close>).\<close>

datatype number_cell = Scaled scaled_number | Decimal number

fun cell_to_number :: "number_cell \<Rightarrow> number" where
  "cell_to_number (Scaled x) = scaled_to_number x"
| "cell_to_number (Decimal n) = n"

fun cell_display :: "number_cell \<Rightarrow> ustr" where
  "cell_display (Scaled x) = scaled_display x"
| "cell_display (Decimal n) = display n"

section \<open>Values\<close>

definition valid_scaled :: "scaled_number \<Rightarrow> bool" where
  "valid_scaled x \<longleftrightarrow> i64_range (mantissa x) \<and> scale x \<le> MAX_SCALE"

definition scaled_value :: "scaled_number \<Rightarrow> rat" where
  "scaled_value x = of_int (mantissa x) / 10 ^ scale x"

text \<open>The representation of a number is canonical: equal values are equal numbers.\<close>

lemma slice_cmp_Equal: "slice_cmp xs ys = Equal \<longleftrightarrow> xs = ys"
  by (induction xs ys rule: slice_cmp.induct) auto

lemma wf_number_unique:
  assumes "wf_number a" "wf_number b" "number_value a = number_value b"
  shows "a = b"
proof -
  have "cmp a b = Equal" using cmp_ord_of [OF assms(1,2)] assms(3) by (simp add: ord_of_def)
  from assms(1) show ?thesis
  proof (cases rule: wf_number_cases)
    case a: zero
    from assms(2) show ?thesis
      by (cases rule: wf_number_cases) (use a \<open>cmp a b = Equal\<close> in \<open>auto simp: cmp_def split: if_splits\<close>)
  next
    case a: (nonzero neg ds e)
    from assms(2) show ?thesis
    proof (cases rule: wf_number_cases)
      case zero
      with a \<open>cmp a b = Equal\<close> show ?thesis by (auto simp: cmp_def split: if_splits)
    next
      case (nonzero neg' ds' e')
      have rev: "ord_reverse r = Equal \<longleftrightarrow> r = Equal" for r by (cases r) auto
      from nonzero a \<open>cmp a b = Equal\<close> have "neg = neg'" "ord_then (int_cmp e e') (slice_cmp ds ds') = Equal"
        by (auto simp: cmp_def rev split: if_splits)
      then have "e = e'" "ds = ds'"
        by (auto simp: ord_then_def int_cmp_def slice_cmp_Equal split: if_splits)
      with a nonzero \<open>neg = neg'\<close> show ?thesis by simp
    qed
  qed
qed

lemma foldl_decimal_nat: "foldl (\<lambda>m d. m * 10 + int d) v ds = v * 10 ^ length ds + decimal ds"
  by (induction ds arbitrary: v) (auto simp: algebra_simps)

lemma magnitude_digits_props:
  assumes "mantissa x \<noteq> 0" "i64_range (mantissa x)"
  shows "magnitude_digits x \<noteq> []" "hd (magnitude_digits x) \<noteq> 0" "all_digits (magnitude_digits x)"
    "length (magnitude_digits x) \<le> 39" "decimal (magnitude_digits x) = \<bar>mantissa x\<bar>"
proof -
  let ?m = "nat \<bar>mantissa x\<bar>"
  have m: "?m \<noteq> 0" "?m < 2 ^ 128" using assms by (auto simp: i64_range_def)
  from reversed_digits_props(1) [OF m(1)] show "magnitude_digits x \<noteq> []" "hd (magnitude_digits x) \<noteq> 0"
    by (simp_all add: magnitude_digits_def hd_rev)
  show "all_digits (magnitude_digits x)"
    using reversed_digits_props(2) [of ?m] by (simp add: magnitude_digits_def)
  show "length (magnitude_digits x) \<le> 39"
    using reversed_digits_length [OF m] by (simp add: magnitude_digits_def)
  show "decimal (magnitude_digits x) = \<bar>mantissa x\<bar>" by (simp add: magnitude_digits_def)
qed

lemma lstrip_id: "xs \<noteq> [] \<Longrightarrow> hd xs \<noteq> 0 \<Longrightarrow> lstrip xs = xs \<and> takeWhile (\<lambda>d. d = 0) xs = []"
  by (cases xs) auto

text \<open>Decoding in one equation: the digits without trailing zeros, the point moved by the scale.\<close>

lemma scaled_to_number_mk:
  assumes "mantissa x \<noteq> 0" "valid_scaled x"
  defines "D \<equiv> magnitude_digits x"
  shows "scaled_to_number x = mk_number (mantissa x < 0) (rstrip D) (int (length D) - int (scale x))"
proof -
  have v: "i64_range (mantissa x)" "scale x \<le> 18" using assms by (simp_all add: valid_scaled_def MAX_SCALE_def)
  note D = magnitude_digits_props [OF assms(1) v(1), folded D_def]
  have ls: "lstrip D = D" "takeWhile (\<lambda>d. d = 0) D = []" using lstrip_id [OF D(1,2)] by auto
  have ne: "rstrip D \<noteq> []" using D(1,2) rstrip_eq_Nil_iff [of D] by (metis hd_in_set)
  have "length (rstrip D) \<le> length D" using rstrip_decomp [of D] by (metis le_add1 length_append)
  with D(4) have "\<not> length (rstrip D) > MAX_SIGNIFICANT_DIGITS" by (simp add: MAX_SIGNIFICANT_DIGITS_def)
  then show ?thesis
    using ne ls v D(4)
    by (simp add: scaled_to_number_def from_digits_strip [OF D(3)] i32_of_count_def i32_max_def
        check_exponent_def MIN_EXPONENT_def MAX_EXPONENT_def flip: D_def)
qed

lemma scaled_to_number_zero: "mantissa x = 0 \<Longrightarrow> scaled_to_number x = ZERO"
  by (simp add: scaled_to_number_def magnitude_digits_def from_digits_def)

lemma scaled_to_number_value:
  assumes "valid_scaled x"
  shows "wf_number (scaled_to_number x) \<and> number_value (scaled_to_number x) = scaled_value x"
proof (cases "mantissa x = 0")
  case True
  then show ?thesis by (simp add: scaled_to_number_zero scaled_value_def)
next
  case False
  let ?D = "magnitude_digits x"
  have v: "i64_range (mantissa x)" "scale x \<le> 18" using assms by (simp_all add: valid_scaled_def MAX_SCALE_def)
  note D = magnitude_digits_props [OF False v(1)]
  have ne: "rstrip ?D \<noteq> []" using D(1,2) rstrip_eq_Nil_iff [of ?D] by (metis hd_in_set)
  have l: "length (rstrip ?D) \<le> length ?D" using rstrip_decomp [of ?D] by (metis le_add1 length_append)
  have "wf_number (scaled_to_number x)"
    unfolding scaled_to_number_mk [OF False assms]
    using ne D l v rstrip_last [OF ne] hd_rstrip [OF ne] set_rstrip [of ?D]
    by (intro wf_mk_number) (auto simp: MAX_SIGNIFICANT_DIGITS_def MIN_EXPONENT_def MAX_EXPONENT_def)
  moreover have "fraction ?D * 10 powi (int (length ?D) - int (scale x)) = of_int \<bar>mantissa x\<bar> / 10 ^ scale x"
    using D(5) by (simp add: fraction_decimal power_int_diff)
  ultimately show ?thesis
    by (auto simp: scaled_to_number_mk [OF False assms] scaled_value_def)
qed

section \<open>Encoding is exact and complete\<close>

lemma decimal_lower:
  "ds \<noteq> [] \<Longrightarrow> hd ds \<noteq> 0 \<Longrightarrow> 10 ^ (length ds - 1) \<le> decimal ds"
proof (cases ds)
  case (Cons d xs)
  assume "hd ds \<noteq> 0"
  with Cons have "(1::int) * 10 ^ length xs \<le> int d * 10 ^ length xs" by (intro mult_right_mono) simp_all
  then have "10 ^ length xs \<le> int d * 10 ^ length xs + decimal xs"
    using decimal_nonneg [of xs] by linarith
  with Cons show ?thesis by simp
qed simp

lemma scaled_value_shift:
  "scaled_value \<lparr>mantissa = m, scale = s\<rparr> = sg * f * 10 powi e \<longleftrightarrow> of_int m = sg * (f * 10 powi (e + int s))"
  for sg f :: rat
  by (simp add: scaled_value_def power_int_add field_simps)

lemma scaled_from_number_mk:
  assumes "ds \<noteq> []" "all_digits ds" "hd ds \<noteq> 0" "last ds \<noteq> 0" "s \<le> MAX_SCALE"
  shows "scaled_from_number (mk_number neg ds e) s = Some x \<longleftrightarrow>
    scale x = s \<and> i64_range (mantissa x) \<and> scaled_value x = number_value (mk_number neg ds e)"
proof -
  let ?k = "e + int s" and ?sg = "if neg then -1 else (1::int)"
  have nz: "\<not> is_zero (mk_number neg ds e)" using assms(1) by (simp add: is_zero_def)
  have x: "x = \<lparr>mantissa = mantissa x, scale = scale x\<rparr>" by simp
  have val: "scaled_value x = number_value (mk_number neg ds e) \<longleftrightarrow>
    of_int (mantissa x) = of_int ?sg * (fraction ds * 10 powi (e + int (scale x)))"
    by (subst x) (simp add: scaled_value_shift)
  show ?thesis
  proof (cases "int (length ds) \<le> ?k")
    case False
    have "of_int (mantissa x) \<noteq> of_int ?sg * (fraction ds * 10 powi ?k)"
      using number_value_not_integer [of ds ?k "mantissa x"] number_value_not_integer [of ds ?k "- mantissa x"]
        assms False by (auto simp: minus_equation_iff)
    with False nz assms(5) val show ?thesis
      by (auto simp: scaled_from_number_def Let_def)
  next
    case True
    let ?m = "decimal ds * 10 ^ nat (?k - int (length ds))"
    have f: "fraction ds * 10 powi ?k = of_int ?m" by (rule number_value_integer [OF True])
    have big: "\<not> i64_range (?sg * ?m)" if "19 < ?k"
    proof -
      have "nat (?k - int (length ds)) + (length ds - 1) \<ge> 19" using that True assms(1) by (cases ds) auto
      then have "(10::int) ^ 19 \<le> 10 ^ (nat (?k - int (length ds)) + (length ds - 1))"
        by (rule power_increasing) simp
      then have "(10::int) ^ 19 \<le> 10 ^ (length ds - 1) * 10 ^ nat (?k - int (length ds))"
        by (simp only: power_add mult.commute)
      also have "\<dots> \<le> ?m" using decimal_lower [OF assms(1,3)] by (intro mult_right_mono) simp_all
      finally show ?thesis by (auto simp: i64_range_def)
    qed
    have shift: "nat (e - int (length ds) + int s) = nat (?k - int (length ds))" by simp
    have "scaled_from_number (mk_number neg ds e) s =
      (if 19 < ?k then None else if i64_range (?sg * ?m) then Some \<lparr>mantissa = ?sg * ?m, scale = s\<rparr> else None)"
      using True nz assms(5) foldl_decimal_nat [of 0 ds]
      by (auto simp: scaled_from_number_def Let_def algebra_simps)
    then have "scaled_from_number (mk_number neg ds e) s = Some x \<longleftrightarrow>
        scale x = s \<and> i64_range (mantissa x) \<and> mantissa x = ?sg * ?m"
      using big by (auto simp: x [symmetric] split: if_splits)
    moreover have "of_int (mantissa x) = of_int ?sg * (of_int ?m :: rat) \<longleftrightarrow> mantissa x = ?sg * ?m"
      by (metis of_int_eq_iff of_int_mult)
    ultimately show ?thesis using val f by auto
  qed
qed

lemma scaled_from_number_iff:
  assumes "wf_number n"
  shows "scaled_from_number n s = Some x \<longleftrightarrow>
    s \<le> MAX_SCALE \<and> scale x = s \<and> i64_range (mantissa x) \<and> scaled_value x = number_value n"
proof (cases "s \<le> MAX_SCALE")
  case False
  then show ?thesis by (simp add: scaled_from_number_def)
next
  case True
  from assms show ?thesis
  proof (cases rule: wf_number_cases)
    case zero
    with True show ?thesis
      by (cases x) (auto simp: scaled_from_number_def is_zero_def scaled_value_def i64_range_def)
  next
    case (nonzero neg ds e)
    with True show ?thesis using scaled_from_number_mk [of ds s neg e x] by simp
  qed
qed

section \<open>Rendering\<close>

lemma strip_scale_zeros:
  assumes "R \<noteq> []" "last R \<noteq> 0"
  shows "j \<le> t \<Longrightarrow> strip_scale (R @ replicate t 0) (length R + j) s =
    (if s \<le> j then (length R + j - s, 0) else (length R, s - j))"
proof (induction s arbitrary: j)
  case (Suc s)
  show ?case
  proof (cases j)
    case 0
    have "(R @ replicate t 0) ! (length R - 1) = last R"
      using assms(1) by (simp add: nth_append last_conv_nth)
    with 0 assms(2) show ?thesis by simp
  next
    case (Suc i)
    have "(R @ replicate t 0) ! (length R + i) = 0" using Suc \<open>j \<le> t\<close> by (simp add: nth_append)
    with Suc Suc.IH [of i] \<open>j \<le> t\<close> show ?thesis by simp
  qed
qed simp

lemma scaled_display_eq:
  assumes "valid_scaled x"
  shows "scaled_display x = display (scaled_to_number x)"
proof (cases "mantissa x = 0")
  case True
  then show ?thesis by (simp add: scaled_display_def scaled_to_number_zero display_def)
next
  case False
  let ?D = "magnitude_digits x" and ?R = "rstrip (magnitude_digits x)" and ?s = "scale x"
  have v: "i64_range (mantissa x)" using assms by (simp add: valid_scaled_def)
  note D = magnitude_digits_props [OF False v]
  have ne: "?R \<noteq> []" using D(1,2) rstrip_eq_Nil_iff [of ?D] by (metis hd_in_set)
  obtain t where t: "?D = ?R @ replicate t 0" using rstrip_decomp by blast
  have len: "length ?D = length ?R + t" using t by (metis length_append length_replicate)
  have st: "strip_scale ?D (length ?D) ?s =
    (if ?s \<le> t then (length ?R + t - ?s, 0) else (length ?R, ?s - t))"
    using strip_scale_zeros [OF ne rstrip_last [OF ne] order_refl, of t ?s]
    by (simp only: t [symmetric] len [symmetric])
  have takeR: "take (length ?R) ?D = ?R" by (subst t) simp
  have takeD: "take (length ?R + t - ?s) ?D = ?R @ replicate (t - ?s) 0" if "?s \<le> t"
    using that by (subst t) simp
  show ?thesis
  proof (cases "?s \<le> t")
    case True
    have n: "nat (int (length ?R) + int t - int ?s - int (length ?R)) = t - ?s" using True by simp
    from True False ne st takeD [OF True] show ?thesis
      by (simp add: scaled_display_def scaled_to_number_mk [OF False assms] display_def len n digit_char_0)
  next
    case small: False
    then obtain k where k: "?s = t + k" "0 < k" by (metis less_imp_add_positive not_le)
    have e: "int (length ?R + t) - int (t + k) = int (length ?R) - int k" by simp
    have n: "nat (int (length ?R) - int k) = length ?R - k" "nat (int k - int (length ?R)) = k - length ?R"
      by simp_all
    from k False ne st takeR show ?thesis
      by (auto simp: scaled_display_def scaled_to_number_mk [OF False assms] display_def len e n Let_def
          simp del: of_nat_add)
  qed
qed

section \<open>Properties\<close>

text \<open>Scaling a number is lossless and complete: \<^verbatim>\<open>from_number\<close> succeeds at a scale
  exactly when some \<^verbatim>\<open>i64\<close> mantissa at that scale (at most 18) denotes the number's
  value, and then it is that mantissa.\<close>

theorem scaled_encoding_exact:
  assumes "wf_number n"
  shows "scaled_from_number n s = Some x \<longleftrightarrow>
    s \<le> MAX_SCALE \<and> scale x = s \<and> i64_range (mantissa x) \<and> scaled_value x = number_value n"
  using assms by (rule scaled_from_number_iff)

theorem scaled_encoding_exact_witness:
  "scaled_from_number (mk_number True [1, 5] 1) 2 = Some \<lparr>mantissa = -150, scale = 2\<rparr> \<and>
   scaled_value \<lparr>mantissa = -150, scale = 2\<rparr> = number_value (mk_number True [1, 5] 1)"
proof -
  have wf: "wf_number (mk_number True [1, 5] 1)"
    by (rule wf_mk_number) (simp_all add: MAX_SIGNIFICANT_DIGITS_def MIN_EXPONENT_def MAX_EXPONENT_def)
  have "scaled_from_number (mk_number True [1, 5] 1) 2 = Some \<lparr>mantissa = -150, scale = 2\<rparr>" by code_simp
  with scaled_encoding_exact [OF wf, of 2 "\<lparr>mantissa = -150, scale = 2\<rparr>"] show ?thesis by simp
qed

lemma scaled_decode:
  assumes "wf_number n" and "scaled_from_number n s = Some x"
  shows "scaled_to_number x = n"
proof -
  have x: "valid_scaled x" "scaled_value x = number_value n"
    using scaled_from_number_iff [OF assms(1)] assms(2) by (auto simp: valid_scaled_def)
  from scaled_to_number_value [OF x(1)] x(2) assms(1) show ?thesis
    by (intro wf_number_unique) simp_all
qed

text \<open>Decoding gives back exactly the number that was encoded, whatever the scale: the
  two encodings of one value convert to the same \<^verbatim>\<open>Number\<close>.\<close>

theorem scaled_decode_encode:
  assumes "wf_number n" and "scaled_from_number n s = Some x"
  shows "scaled_to_number x = n"
  using assms by (rule scaled_decode)

theorem scaled_decode_encode_witness:
  "scaled_to_number \<lparr>mantissa = -150, scale = 2\<rparr> = mk_number True [1, 5] 1"
proof -
  have wf: "wf_number (mk_number True [1, 5] 1)"
    by (rule wf_mk_number) (simp_all add: MAX_SIGNIFICANT_DIGITS_def MIN_EXPONENT_def MAX_EXPONENT_def)
  have "scaled_from_number (mk_number True [1, 5] 1) 2 = Some \<lparr>mantissa = -150, scale = 2\<rparr>" by code_simp
  from scaled_decode_encode [OF wf this] show ?thesis .
qed

text \<open>A cell renders the same text however its column is stored: the allocation-free
  rendering of a scaled cell is byte for byte the canonical rendering of the number it holds.\<close>

theorem scaled_display_canonical:
  assumes "valid_scaled x"
  shows "cell_display (Scaled x) = cell_display (Decimal (cell_to_number (Scaled x)))"
  using scaled_display_eq [OF assms] by simp

theorem scaled_display_canonical_witness:
  "cell_display (Scaled \<lparr>mantissa = -150, scale = 2\<rparr>) = us ''-1.5'' \<and>
   cell_display (Scaled \<lparr>mantissa = -150, scale = 2\<rparr>) =
   cell_display (Decimal (cell_to_number (Scaled \<lparr>mantissa = -150, scale = 2\<rparr>)))"
proof -
  have v: "valid_scaled \<lparr>mantissa = -150, scale = 2\<rparr>"
    by (simp add: valid_scaled_def i64_range_def MAX_SCALE_def)
  have "cell_display (Scaled \<lparr>mantissa = -150, scale = 2\<rparr>) = us ''-1.5''" by code_simp
  with scaled_display_canonical [OF v] show ?thesis by blast
qed

end
