(* ===== verification/Sql_Token.thy ===== *)
theory Sql_Token
  imports Reldex_Prelude
begin

text \<open>
  \<^verbatim>\<open>crates/sql-text/src/token.rs\<close>: tokens, and the lexer state a highlighter carries
  from one text block to the next as a single \<^verbatim>\<open>i32\<close>.
\<close>

unbundle bit_operations_syntax

section \<open>Tokens\<close>

datatype token_kind =
  Whitespace | Keyword | Identifier | QuotedIdentifier | StringLiteral | NumberLiteral | Comment
| Operator | BindVariable | SubstitutionVariable | Directive | Error

record token =
  kind :: token_kind
  start :: nat
  tok_end :: nat \<comment> \<open>\<^verbatim>\<open>end\<close>\<close>

definition token_len :: "token \<Rightarrow> nat" where
  "token_len t = tok_end t - start t"

section \<open>The carried state\<close>

datatype mode = Normal | BlockComment | SingleQuoted | DoubleQuoted | QString uchar

definition TAG_MASK :: int where "TAG_MASK = 7"
definition TAG_BLOCK_COMMENT :: int where "TAG_BLOCK_COMMENT = 1"
definition TAG_SINGLE_QUOTED :: int where "TAG_SINGLE_QUOTED = 2"
definition TAG_DOUBLE_QUOTED :: int where "TAG_DOUBLE_QUOTED = 3"
definition TAG_QSTRING :: int where "TAG_QSTRING = 4"
definition DELIMITER_SHIFT :: nat where "DELIMITER_SHIFT = 8"

lemmas tag_defs = TAG_MASK_def TAG_BLOCK_COMMENT_def TAG_SINGLE_QUOTED_def TAG_DOUBLE_QUOTED_def
  TAG_QSTRING_def DELIMITER_SHIFT_def

fun encode :: "mode \<Rightarrow> int" where
  "encode Normal = 0"
| "encode BlockComment = TAG_BLOCK_COMMENT"
| "encode SingleQuoted = TAG_SINGLE_QUOTED"
| "encode DoubleQuoted = TAG_DOUBLE_QUOTED"
| "encode (QString closing) = TAG_QSTRING OR push_bit DELIMITER_SHIFT closing"

text \<open>\<^verbatim>\<open>char::from_u32\<close>\<close>

definition char_from_u32 :: "int \<Rightarrow> uchar option" where
  "char_from_u32 v = (if is_scalar v then Some v else None)"

definition decode :: "int \<Rightarrow> mode" where
  "decode raw =
     (if raw < 0 then Normal
      else let tag = raw AND TAG_MASK in
        if tag = TAG_BLOCK_COMMENT then BlockComment
        else if tag = TAG_SINGLE_QUOTED then SingleQuoted
        else if tag = TAG_DOUBLE_QUOTED then DoubleQuoted
        else if tag = TAG_QSTRING then
          (case char_from_u32 (drop_bit DELIMITER_SHIFT raw) of None \<Rightarrow> Normal | Some c \<Rightarrow> QString c)
        else Normal)"

definition to_raw :: "mode \<Rightarrow> int" where
  "to_raw m = encode m"

definition from_raw :: "int \<Rightarrow> mode" where
  "from_raw raw = decode raw"

definition is_initial :: "mode \<Rightarrow> bool" where
  "is_initial m \<longleftrightarrow> m = Normal"

section \<open>Lemmas\<close>

fun valid_mode :: "mode \<Rightarrow> bool" where
  "valid_mode (QString c) = is_scalar c"
| "valid_mode _ = True"

lemma qstring_raw: "TAG_QSTRING OR push_bit DELIMITER_SHIFT c = 256 * c + 4"
proof -
  have b: "bit ((2::int) ^ k) n \<longleftrightarrow> n = k" for k n by (auto simp: bit_exp_iff)
  have "\<not> bit ((2::int) ^ 2) n \<or> \<not> bit (push_bit 8 c) n" for n
    by (simp only: b bit_push_bit_iff) simp
  then have "2 ^ 2 AND push_bit 8 c = 0" by (simp only: bit_eq_iff bit_and_iff bit_0_eq) auto
  then have "2 ^ 2 + push_bit 8 c = 2 ^ 2 OR push_bit 8 c" by (rule disjunctive_add_eq_or)
  then show ?thesis by (simp add: tag_defs push_bit_eq_mult)
qed

lemma and_tag_mask: "raw AND TAG_MASK = raw mod 8"
proof -
  have m: "mask 3 = (7::int)" by (simp add: mask_eq_exp_minus_1)
  have "raw AND mask 3 = take_bit 3 raw" by (simp only: take_bit_eq_mask)
  also have "\<dots> = raw mod 8" by (simp add: take_bit_eq_mod)
  finally show ?thesis by (simp only: m TAG_MASK_def)
qed

lemma drop_delimiter: "drop_bit DELIMITER_SHIFT raw = raw div 256" for raw :: int
  by (simp add: DELIMITER_SHIFT_def drop_bit_eq_div)

text \<open>Decoding by the three low bits.\<close>

lemma decode_mod:
  "decode raw = (if raw < 0 \<or> raw mod 8 = 0 \<or> raw mod 8 > 4 then Normal
     else if raw mod 8 = 1 then BlockComment else if raw mod 8 = 2 then SingleQuoted
     else if raw mod 8 = 3 then DoubleQuoted
     else if is_scalar (raw div 256) then QString (raw div 256) else Normal)"
proof -
  have "0 \<le> raw mod 8" "raw mod 8 < 8" by simp_all
  then consider "raw mod 8 = 0" | "raw mod 8 = 1" | "raw mod 8 = 2" | "raw mod 8 = 3" | "raw mod 8 = 4"
    | "raw mod 8 > 4" by linarith
  then show ?thesis
    unfolding decode_def and_tag_mask drop_delimiter char_from_u32_def Let_def
      TAG_BLOCK_COMMENT_def TAG_SINGLE_QUOTED_def TAG_DOUBLE_QUOTED_def TAG_QSTRING_def
    by cases simp_all
qed

lemma decode_encode_mode:
  assumes "valid_mode m"
  shows "from_raw (to_raw m) = m" and "0 \<le> to_raw m" and "to_raw m < 2 ^ 31"
proof -
  have "from_raw (to_raw m) = m \<and> 0 \<le> to_raw m \<and> to_raw m < 2 ^ 31"
  proof (cases m)
    case (QString c)
    with assms have c: "0 \<le> c" "c \<le> 0x10FFFF" "is_scalar c" by (auto simp: is_scalar_def)
    have raw: "to_raw m = 256 * c + 4" using qstring_raw [of c] QString by (simp add: to_raw_def)
    moreover have "(8 * (32 * c) + 4) mod 8 = (4::int)" by (simp only: mod_mult_self4) simp
    then have "(256 * c + 4) mod 8 = 4" by simp
    moreover have "(256 * c + 4) div 256 = c" by simp
    ultimately show ?thesis using QString c by (simp add: from_raw_def decode_mod)
  qed (simp_all add: from_raw_def to_raw_def decode_mod tag_defs)
  then show "from_raw (to_raw m) = m" and "0 \<le> to_raw m" and "to_raw m < 2 ^ 31" by simp_all
qed

section \<open>Properties\<close>

text \<open>The highlighter's block state survives its \<^verbatim>\<open>i32\<close> encoding: every state the
  lexer can be in encodes to a non-negative \<^verbatim>\<open>i32\<close>, never Qt's \<open>-1\<close> sentinel, and
  decodes back to itself.\<close>

theorem lex_state_roundtrip:
  assumes "valid_mode m"
  shows "from_raw (to_raw m) = m \<and> 0 \<le> to_raw m \<and> to_raw m < 2 ^ 31"
  using decode_encode_mode [OF assms] by simp

theorem lex_state_roundtrip_witness:
  "valid_mode (QString 93) \<and> from_raw (to_raw (QString 93)) = QString 93 \<and>
   0 \<le> to_raw (QString 93) \<and> to_raw (QString 93) < 2 ^ 31"
proof -
  have v: "valid_mode (QString 93)" by (simp add: is_scalar_def)
  with lex_state_roundtrip [OF v] show ?thesis by blast
qed

text \<open>Which foreign values restart cleanly: a negative value always decodes to the
  initial state, and a non-negative one decodes to it exactly when its three low bits are no
  tag, or are the literal tag with an impossible delimiter.  A value the encoder never
  produced, such as 9, may therefore decode to an open comment.\<close>

theorem lex_state_foreign_values:
  "is_initial (from_raw raw) \<longleftrightarrow>
     raw < 0 \<or> raw mod 8 = 0 \<or> raw mod 8 > 4 \<or> raw mod 8 = 4 \<and> \<not> is_scalar (raw div 256)"
proof -
  have "0 \<le> raw mod 8" by simp
  then consider "raw mod 8 = 0" | "raw mod 8 = 1" | "raw mod 8 = 2" | "raw mod 8 = 3" | "raw mod 8 = 4"
    | "raw mod 8 > 4" by linarith
  then show ?thesis by cases (simp_all add: is_initial_def from_raw_def decode_mod)
qed

end
