(* ===== verification/Sql_Dialect.thy ===== *)
theory Sql_Dialect
  imports Sql_Token
begin

text \<open>
  \<^verbatim>\<open>crates/sql-text/src/dialect.rs\<close>: the vendor facts a driver supplies as data, and
  \<^verbatim>\<open>crates/drivers/oracle-thin/src/sql_dialect.rs\<close>: Oracle's instance of them.
\<close>

section \<open>The descriptor\<close>

type_synonym phrase = "ustr list"

datatype keyword_slot = Required "phrase list" | Optional "phrase list"

datatype block_kind = Structured | OpaqueSource | ParenDelimited

record block_starter =
  slots :: "keyword_slot list"
  starter_kind :: block_kind
  opens_body :: bool

record quoting_rules =
  alternative_quote_prefixes :: "ustr list"
  national_string_prefixes :: "ustr list"

record comment_rules =
  line_comment :: "ustr option"
  block_comment :: "(ustr \<times> ustr) option"
  line_comment_words :: "ustr list"

record sql_dialect =
  statement_terminators :: "uchar list"
  slash_terminates_block :: bool
  slash_terminates_plain :: bool
  block_may_end_without_slash :: bool
  block_starters :: "block_starter list"
  label_delimiters :: "(ustr \<times> ustr) option"
  block_body_opener :: ustr
  block_nesting_openers :: "ustr list"
  block_end_keyword :: ustr
  subprogram_header_keywords :: "ustr list"
  body_intro_keywords :: "ustr list"
  body_intro_exceptions :: "phrase list"
  call_spec_phrases :: "phrase list"
  body_less_markers :: "ustr list"
  sectioned_body_marker :: "phrase option"
  section_header_starters :: "ustr list"
  directive_prefix :: "uchar option"
  quoting :: quoting_rules
  comments :: comment_rules
  bind_variables :: bool
  substitution_variables :: bool
  dialect_keywords :: "ustr list"

text \<open>\<^verbatim>\<open>list.iter().any(|k| k.eq_ignore_ascii_case(word))\<close>\<close>

definition any_ignore_case :: "ustr list \<Rightarrow> ustr \<Rightarrow> bool" where
  "any_ignore_case ks word \<longleftrightarrow> list_ex (\<lambda>k. eq_ignore_ascii_case k word) ks"

definition is_keyword :: "sql_dialect \<Rightarrow> ustr \<Rightarrow> bool" where
  "is_keyword d word \<longleftrightarrow> any_ignore_case (dialect_keywords d) word"

text \<open>
  What the lexer needs of a descriptor so that every token it produces covers some text: no
  comment delimiter is the empty string.
\<close>

definition wf_dialect :: "sql_dialect \<Rightarrow> bool" where
  "wf_dialect d \<longleftrightarrow> line_comment (comments d) \<noteq> Some [] \<and>
     (case block_comment (comments d) of None \<Rightarrow> True | Some (op, cl) \<Rightarrow> op \<noteq> [] \<and> cl \<noteq> [])"

section \<open>Oracle's descriptor\<close>

definition OR_REPLACE :: phrase where "OR_REPLACE = [us ''OR'', us ''REPLACE'']"
definition EDITIONABLE :: phrase where "EDITIONABLE = [us ''EDITIONABLE'']"
definition NONEDITIONABLE :: phrase where "NONEDITIONABLE = [us ''NONEDITIONABLE'']"
definition PACKAGE_BODY :: phrase where "PACKAGE_BODY = [us ''PACKAGE'', us ''BODY'']"
definition TYPE_BODY :: phrase where "TYPE_BODY = [us ''TYPE'', us ''BODY'']"
definition AND_RESOLVE :: phrase where "AND_RESOLVE = [us ''AND'', us ''RESOLVE'']"
definition AND_COMPILE :: phrase where "AND_COMPILE = [us ''AND'', us ''COMPILE'']"
definition NOFORCE :: phrase where "NOFORCE = [us ''NOFORCE'']"
definition JAVA_SOURCE :: phrase where "JAVA_SOURCE = [us ''JAVA'', us ''SOURCE'']"

definition CREATE_SUBPROGRAM_STARTER :: block_starter where
  "CREATE_SUBPROGRAM_STARTER = \<lparr>
     slots = [Required [[us ''CREATE'']], Optional [OR_REPLACE], Optional [EDITIONABLE, NONEDITIONABLE],
              Required [[us ''PROCEDURE''], [us ''FUNCTION''], [us ''TRIGGER'']]],
     starter_kind = Structured, opens_body = False\<rparr>"

definition CREATE_COMPOUND_STARTER :: block_starter where
  "CREATE_COMPOUND_STARTER = \<lparr>
     slots = [Required [[us ''CREATE'']], Optional [OR_REPLACE], Optional [EDITIONABLE, NONEDITIONABLE],
              Required [[us ''PACKAGE''], PACKAGE_BODY, TYPE_BODY]],
     starter_kind = Structured, opens_body = False\<rparr>"

definition CREATE_TYPE_SPEC_STARTER :: block_starter where
  "CREATE_TYPE_SPEC_STARTER = \<lparr>
     slots = [Required [[us ''CREATE'']], Optional [OR_REPLACE], Optional [EDITIONABLE, NONEDITIONABLE],
              Required [[us ''TYPE'']]],
     starter_kind = ParenDelimited, opens_body = False\<rparr>"

definition CREATE_JAVA_SOURCE_STARTER :: block_starter where
  "CREATE_JAVA_SOURCE_STARTER = \<lparr>
     slots = [Required [[us ''CREATE'']], Optional [OR_REPLACE], Optional [AND_RESOLVE, AND_COMPILE],
              Optional [NOFORCE], Required [JAVA_SOURCE]],
     starter_kind = OpaqueSource, opens_body = False\<rparr>"

definition DECLARE_STARTER :: block_starter where
  "DECLARE_STARTER = \<lparr>slots = [Required [[us ''DECLARE'']]], starter_kind = Structured, opens_body = False\<rparr>"

definition BEGIN_STARTER :: block_starter where
  "BEGIN_STARTER = \<lparr>slots = [Required [[us ''BEGIN'']]], starter_kind = Structured, opens_body = True\<rparr>"

definition BLOCK_STARTERS :: "block_starter list" where
  "BLOCK_STARTERS = [DECLARE_STARTER, BEGIN_STARTER, CREATE_JAVA_SOURCE_STARTER,
     CREATE_SUBPROGRAM_STARTER, CREATE_COMPOUND_STARTER, CREATE_TYPE_SPEC_STARTER]"

definition KEYWORDS :: "ustr list" where
  "KEYWORDS = map us [
     ''SELECT'', ''INSERT'', ''UPDATE'', ''DELETE'', ''MERGE'', ''FROM'', ''WHERE'', ''INTO'',
     ''VALUES'', ''SET'', ''GROUP'', ''BY'', ''HAVING'', ''ORDER'', ''UNION'', ''INTERSECT'',
     ''MINUS'', ''ALL'', ''DISTINCT'', ''AS'', ''JOIN'', ''INNER'', ''OUTER'', ''LEFT'',
     ''RIGHT'', ''FULL'', ''CROSS'', ''ON'', ''USING'', ''WITH'', ''CONNECT'', ''START'',
     ''PRIOR'', ''RETURNING'', ''FOR'', ''UPDATE'', ''LOCK'', ''AND'', ''OR'', ''NOT'', ''IS'',
     ''IN'', ''LIKE'', ''BETWEEN'', ''EXISTS'', ''NULL'', ''ANY'', ''SOME'', ''COMMIT'',
     ''ROLLBACK'', ''SAVEPOINT'', ''WORK'', ''TO'', ''CREATE'', ''ALTER'', ''DROP'',
     ''TRUNCATE'', ''COMMENT'', ''RENAME'', ''GRANT'', ''REVOKE'', ''ANALYZE'', ''AUDIT'',
     ''NOAUDIT'', ''FLASHBACK'', ''PURGE'', ''ASSOCIATE'', ''DISASSOCIATE'', ''TABLE'', ''VIEW'',
     ''INDEX'', ''SEQUENCE'', ''SYNONYM'', ''TRIGGER'', ''PROCEDURE'', ''FUNCTION'', ''PACKAGE'',
     ''BODY'', ''TYPE'', ''TABLESPACE'', ''MATERIALIZED'', ''CONSTRAINT'', ''PRIMARY'', ''KEY'',
     ''FOREIGN'', ''REFERENCES'', ''CHECK'', ''DEFAULT'', ''UNIQUE'', ''REPLACE'',
     ''EDITIONABLE'', ''NONEDITIONABLE'', ''OR'', ''REFERENCING'', ''NEW'', ''OLD'', ''EACH'',
     ''ROW'', ''COMPOUND'', ''INSTEAD'', ''OF'', ''BEFORE'', ''AFTER'', ''CALL'', ''RESOLVE'',
     ''COMPILE'', ''NOFORCE'', ''MEMBER'', ''STATIC'', ''CONSTRUCTOR'', ''UNDER'', ''DECLARE'',
     ''BEGIN'', ''END'', ''IF'', ''THEN'', ''ELSE'', ''ELSIF'', ''LOOP'', ''WHILE'', ''EXIT'',
     ''CONTINUE'', ''RETURN'', ''EXCEPTION'', ''WHEN'', ''CASE'', ''RAISE'', ''GOTO'',
     ''CURSOR'', ''FETCH'', ''OPEN'', ''CLOSE'', ''BULK'', ''COLLECT'', ''LIMIT'', ''PRAGMA'',
     ''AUTONOMOUS_TRANSACTION'', ''EXECUTE'', ''IMMEDIATE'', ''USING'', ''OUT'', ''IN'',
     ''NOCOPY'', ''IS'', ''AS'', ''CONSTANT'', ''OTHERS'', ''RAISE_APPLICATION_ERROR'',
     ''RESULT_CACHE'', ''DETERMINISTIC'', ''PIPELINED'', ''AUTHID'', ''DEFINER'',
     ''CURRENT_USER'', ''LANGUAGE'', ''JAVA'', ''LIBRARY'', ''EXTERNAL'', ''ROWTYPE'',
     ''SUBTYPE'', ''REF'', ''SELF'', ''RESULT'', ''NUMBER'', ''VARCHAR2'', ''CHAR'', ''NCHAR'',
     ''NVARCHAR2'', ''DATE'', ''TIMESTAMP'', ''INTERVAL'', ''CLOB'', ''NCLOB'', ''BLOB'',
     ''RAW'', ''LONG'', ''ROWID'', ''UROWID'', ''BOOLEAN'', ''PLS_INTEGER'', ''BINARY_INTEGER'',
     ''VARRAY'', ''OBJECT'', ''RECORD'', ''JSON'', ''XMLTYPE'', ''SESSION'', ''SYSTEM'',
     ''ROLE'', ''TRANSACTION'', ''CONSTRAINTS'', ''PARTITION'', ''SUBPARTITION'', ''STORAGE'']"

definition oracle_dialect :: sql_dialect where
  "oracle_dialect = \<lparr>
     statement_terminators = us '';'',
     slash_terminates_block = True,
     slash_terminates_plain = True,
     block_may_end_without_slash = True,
     block_starters = BLOCK_STARTERS,
     label_delimiters = Some (us ''<<'', us ''>>''),
     block_body_opener = us ''BEGIN'',
     block_nesting_openers = map us [''CASE'', ''IF'', ''LOOP''],
     block_end_keyword = us ''END'',
     subprogram_header_keywords = map us [''PROCEDURE'', ''FUNCTION''],
     body_intro_keywords = map us [''IS'', ''AS''],
     body_intro_exceptions = [map us [''SELF'', ''AS'']],
     call_spec_phrases = map (map us) [[''LANGUAGE'', ''JAVA''], [''LANGUAGE'', ''C''],
       [''LANGUAGE'', ''JAVASCRIPT''], [''EXTERNAL'', ''LIBRARY''], [''EXTERNAL'', ''NAME'']],
     body_less_markers = [us ''CALL''],
     sectioned_body_marker = Some (map us [''COMPOUND'', ''TRIGGER'']),
     section_header_starters = map us [''BEFORE'', ''AFTER'', ''INSTEAD''],
     directive_prefix = Some 36,
     quoting = \<lparr>alternative_quote_prefixes = map us [''Q'', ''NQ''], national_string_prefixes = [us ''N'']\<rparr>,
     comments = \<lparr>line_comment = Some (us ''--''), block_comment = Some (us ''/*'', us ''*/''),
       line_comment_words = []\<rparr>,
     bind_variables = True,
     substitution_variables = True,
     dialect_keywords = KEYWORDS\<rparr>"

lemma wf_oracle_dialect: "wf_dialect oracle_dialect"
  by (simp add: wf_dialect_def oracle_dialect_def us_def)

end
