(* ===== verification/Sql_Lexer.thy ===== *)
theory Sql_Lexer
  imports Sql_Dialect
begin

text \<open>
  \<^verbatim>\<open>crates/sql-text/src/lexer.rs\<close>: \<^verbatim>\<open>tokenize_block\<close> (one text block, carrying a
  lexer state) and \<^verbatim>\<open>tokenize\<close> (a whole document), over one scanner.

  The cursor of the source is a text and a byte position; here it is the position and the
  text that is left, \<open>&text[pos..]\<close>.  \<^verbatim>\<open>next_token_normal\<close> tries its rules in order;
  each rule is one option-valued definition, composed by \<open>first_rule\<close> in the order of the
  source.  The loop of \<^verbatim>\<open>tokenize_block\<close> ends only if every token consumes text, so it is a
  \<open>partial_function\<close>; that it returns is a theorem for every descriptor that satisfies
  \<open>wf_dialect\<close>.
\<close>

section \<open>The cursor\<close>

type_synonym cursor = "nat \<times> ustr"

fun peek :: "cursor \<Rightarrow> uchar option" where
  "peek (p, []) = None"
| "peek (p, c # cs) = Some c"

fun peek2 :: "cursor \<Rightarrow> uchar option" where
  "peek2 (p, c # d # cs) = Some d"
| "peek2 (p, _) = None"

fun bump :: "cursor \<Rightarrow> cursor" where
  "bump (p, []) = (p, [])"
| "bump (p, c # cs) = (p + len_utf8 c, cs)"

definition at_end :: "cursor \<Rightarrow> bool" where
  "at_end cur \<longleftrightarrow> snd cur = []"

text \<open>\<^verbatim>\<open>cursor.pos += n\<close>\<close>

definition skip_bytes :: "nat \<Rightarrow> cursor \<Rightarrow> cursor" where
  "skip_bytes n cur = (fst cur + n, drop_bytes n (snd cur))"

text \<open>\<^verbatim>\<open>while matches!(cursor.peek(), Some(c) if P(c)) { cursor.bump(); }\<close>\<close>

fun bump_while :: "(uchar \<Rightarrow> bool) \<Rightarrow> cursor \<Rightarrow> cursor" where
  "bump_while P (p, []) = (p, [])"
| "bump_while P (p, c # cs) = (if P c then bump_while P (p + len_utf8 c, cs) else (p, c # cs))"

section \<open>Scanners\<close>

definition is_lexer_whitespace :: "uchar \<Rightarrow> bool" where
  "is_lexer_whitespace c \<longleftrightarrow> is_whitespace c \<or> c = 0xFEFF"

definition is_identifier_char :: "unicode \<Rightarrow> uchar \<Rightarrow> bool" where
  "is_identifier_char u c \<longleftrightarrow> is_alphanumeric u c \<or> c = 95 \<or> c = 36 \<or> c = 35"

fun leading_identifier_len :: "unicode \<Rightarrow> ustr \<Rightarrow> nat" where
  "leading_identifier_len u [] = 0"
| "leading_identifier_len u (c # cs) =
     (if is_alphabetic u c then byte_len (takeWhile (is_identifier_char u) (c # cs)) else 0)"

fun scan_simple_quoted :: "uchar \<Rightarrow> cursor \<Rightarrow> cursor \<times> bool" where
  "scan_simple_quoted q (p, []) = ((p, []), False)"
| "scan_simple_quoted q (p, [c]) = ((p + len_utf8 c, []), c = q)"
| "scan_simple_quoted q (p, c # d # ds) =
     (if c = q then
        if d = q then scan_simple_quoted q (p + len_utf8 c + len_utf8 d, ds)
        else ((p + len_utf8 c, d # ds), True)
      else scan_simple_quoted q (p + len_utf8 c, d # ds))"

fun scan_block_comment :: "ustr \<Rightarrow> cursor \<Rightarrow> cursor \<times> bool" where
  "scan_block_comment cl (p, []) = ((p, []), cl = [])"
| "scan_block_comment cl (p, c # cs) =
     (if starts_with (c # cs) cl then (skip_bytes (byte_len cl) (p, c # cs), True)
      else scan_block_comment cl (p + len_utf8 c, cs))"

fun scan_q_string :: "uchar \<Rightarrow> cursor \<Rightarrow> cursor \<times> bool" where
  "scan_q_string cl (p, []) = ((p, []), False)"
| "scan_q_string cl (p, [c]) = ((p + len_utf8 c, []), False)"
| "scan_q_string cl (p, c # d # ds) =
     (if c = cl \<and> d = 39 then ((p + len_utf8 c + len_utf8 d, ds), True)
      else scan_q_string cl (p + len_utf8 c, d # ds))"

definition closing_delimiter :: "uchar \<Rightarrow> uchar" where
  "closing_delimiter c =
     (if c = 91 then 93 else if c = 123 then 125 else if c = 60 then 62 else if c = 40 then 41 else c)"

text \<open>
  \<^verbatim>\<open>bind_variable_len\<close> and \<^verbatim>\<open>substitution_variable_len\<close> get the text after the
  one-byte \<^verbatim>\<open>:\<close> or \<^verbatim>\<open>&\<close> that starts the token.
\<close>

fun bind_variable_len :: "unicode \<Rightarrow> ustr \<Rightarrow> nat option" where
  "bind_variable_len u [] = None"
| "bind_variable_len u (c # cs) =
     (if c = 34 then (case find_char 34 cs of None \<Rightarrow> None | Some e \<Rightarrow> Some (1 + 1 + e + 1))
      else if is_ascii_digit c then Some (1 + byte_len (takeWhile is_ascii_digit (c # cs)))
      else if is_alphabetic u c then
        (let len = leading_identifier_len u (c # cs) in if len > 0 then Some (1 + len) else None)
      else None)"

definition variable_name_len :: "unicode \<Rightarrow> ustr \<Rightarrow> nat" where
  "variable_name_len u s =
     (case s of [] \<Rightarrow> 0
      | c # cs \<Rightarrow> if is_ascii_digit c then byte_len (takeWhile is_ascii_digit s)
                 else if is_alphabetic u c then leading_identifier_len u s else 0)"

definition substitution_variable_len :: "unicode \<Rightarrow> ustr \<Rightarrow> nat option" where
  "substitution_variable_len u after =
     (let prefix_len = (if starts_with after [38] then 2 else 1);
          name = drop_bytes (prefix_len - 1) after;
          name_len = variable_name_len u name
      in if name_len = 0 then None
         else let len = prefix_len + name_len
              in Some (if starts_with (drop_bytes name_len name) [46] then len + 1 else len))"

definition TWO_CHAR_OPERATORS :: "ustr list" where
  "TWO_CHAR_OPERATORS = map us [
     '':='', ''<='', ''>='', ''<>'', ''!='', ''^='', ''||'', ''**'', ''=>'', ''<<'', ''>>'']"

fun advance_by_chars :: "nat \<Rightarrow> cursor \<Rightarrow> cursor" where
  "advance_by_chars 0 cur = cur"
| "advance_by_chars (Suc n) cur = advance_by_chars n (bump cur)"

definition peek_is :: "(uchar \<Rightarrow> bool) \<Rightarrow> cursor \<Rightarrow> bool" where
  "peek_is P cur = (case peek cur of None \<Rightarrow> False | Some c \<Rightarrow> P c)"

definition maybe_exponent :: "cursor \<Rightarrow> cursor" where
  "maybe_exponent cur =
     (if peek_is (\<lambda>c. c = 101 \<or> c = 69) cur then
        let l1 = bump cur;
            l2 = (if peek_is (\<lambda>c. c = 43 \<or> c = 45) l1 then bump l1 else l1)
        in if peek_is is_ascii_digit l2 then bump_while is_ascii_digit l2 else cur
      else cur)"

definition scan_number :: "cursor \<Rightarrow> cursor" where
  "scan_number cur =
     (if peek cur = Some 46 then maybe_exponent (bump_while is_ascii_digit (bump cur))
      else let c1 = bump_while is_ascii_digit cur
        in if peek c1 = Some 46 \<and> (case peek2 c1 of None \<Rightarrow> False | Some d \<Rightarrow> is_ascii_digit d)
           then maybe_exponent (bump_while is_ascii_digit (bump c1))
           else maybe_exponent c1)"

section \<open>The rules of \<^verbatim>\<open>next_token_normal\<close>\<close>

text \<open>
  A rule gets the descriptor, whether the cursor is at the start of a line, and a cursor that
  is not at the end.  It gives \<open>None\<close> where the source falls through to the next rule, and
  otherwise the new cursor, the token kind, the mode for the next call and the new
  \<^verbatim>\<open>at_line_start\<close>.
\<close>

type_synonym lexed = "cursor \<times> token_kind \<times> mode \<times> bool"

definition still_open :: "bool \<Rightarrow> mode \<Rightarrow> mode" where
  "still_open closed m = (if closed then Normal else m)"

definition whitespace_rule :: "bool \<Rightarrow> cursor \<Rightarrow> lexed option" where
  "whitespace_rule als cur =
     (if peek_is is_lexer_whitespace cur
      then Some (bump_while is_lexer_whitespace cur, Whitespace, Normal, als) else None)"

definition line_comment_rule :: "sql_dialect \<Rightarrow> bool \<Rightarrow> cursor \<Rightarrow> lexed option" where
  "line_comment_rule d als cur =
     (case line_comment (comments d) of None \<Rightarrow> None
      | Some prefix \<Rightarrow>
          if starts_with (snd cur) prefix
          then Some (bump_while (\<lambda>c. c \<noteq> 10) (skip_bytes (byte_len prefix) cur), Comment, Normal, False)
          else None)"

definition block_comment_rule :: "sql_dialect \<Rightarrow> bool \<Rightarrow> cursor \<Rightarrow> lexed option" where
  "block_comment_rule d als cur =
     (case block_comment (comments d) of None \<Rightarrow> None
      | Some (op, cl) \<Rightarrow>
          if starts_with (snd cur) op
          then let (cur', closed) = scan_block_comment cl (skip_bytes (byte_len op) cur)
               in Some (cur', Comment, still_open closed BlockComment, False)
          else None)"

definition comment_word_rule :: "unicode \<Rightarrow> sql_dialect \<Rightarrow> bool \<Rightarrow> cursor \<Rightarrow> lexed option" where
  "comment_word_rule u d als cur =
     (if line_comment_words (comments d) \<noteq> [] \<and> als \<and> peek_is (is_alphabetic u) cur then
        let len = leading_identifier_len u (snd cur); word = take_bytes len (snd cur)
        in if any_ignore_case (line_comment_words (comments d)) word
           then Some (bump_while (\<lambda>c. c \<noteq> 10) (skip_bytes len cur), Comment, Normal, False)
           else None
      else None)"

definition directive_rule :: "unicode \<Rightarrow> sql_dialect \<Rightarrow> bool \<Rightarrow> cursor \<Rightarrow> lexed option" where
  "directive_rule u d als cur =
     (case directive_prefix d of None \<Rightarrow> None
      | Some prefix \<Rightarrow>
          if peek cur = Some prefix then
            let l1 = len_utf8 prefix;
                len = (if starts_with (drop_bytes l1 (snd cur)) [prefix] then l1 + len_utf8 prefix else l1);
                ident_len = leading_identifier_len u (drop_bytes len (snd cur))
            in if ident_len > 0 then Some (skip_bytes (len + ident_len) cur, Directive, Normal, False)
               else None
          else None)"

definition quoted_rule :: "uchar \<Rightarrow> token_kind \<Rightarrow> mode \<Rightarrow> bool \<Rightarrow> cursor \<Rightarrow> lexed option" where
  "quoted_rule q k m als cur =
     (if peek cur = Some q then
        let (cur', closed) = scan_simple_quoted q (bump cur)
        in Some (cur', k, still_open closed m, False)
      else None)"

definition double_quote_rule :: "bool \<Rightarrow> cursor \<Rightarrow> lexed option" where
  "double_quote_rule = quoted_rule 34 QuotedIdentifier DoubleQuoted"

definition single_quote_rule :: "bool \<Rightarrow> cursor \<Rightarrow> lexed option" where
  "single_quote_rule = quoted_rule 39 StringLiteral SingleQuoted"

text \<open>An alternative-quoted literal; the cursor stands on its opening quote.\<close>

definition scan_alternative_quote :: "cursor \<Rightarrow> lexed" where
  "scan_alternative_quote cur =
     (let c1 = bump cur in
      case peek c1 of
        Some delimiter \<Rightarrow>
          let closing = closing_delimiter delimiter;
              (cur', closed) = scan_q_string closing (bump c1)
          in (cur', StringLiteral, still_open closed (QString closing), False)
      | None \<Rightarrow> (c1, Error, Normal, False))"

definition word_rule :: "unicode \<Rightarrow> sql_dialect \<Rightarrow> bool \<Rightarrow> cursor \<Rightarrow> lexed option" where
  "word_rule u d als cur =
     (if peek_is (is_alphabetic u) cur then
        let len = leading_identifier_len u (snd cur);
            word = take_bytes len (snd cur);
            after = skip_bytes len cur;
            plain = (after, if is_keyword d word then Keyword else Identifier, Normal, False)
        in Some (if starts_with (snd after) [39] then
             if any_ignore_case (alternative_quote_prefixes (quoting d)) word
             then scan_alternative_quote after
             else if any_ignore_case (national_string_prefixes (quoting d)) word
             then (let (cur', closed) = scan_simple_quoted 39 (bump after)
                   in (cur', StringLiteral, still_open closed SingleQuoted, False))
             else plain
           else plain)
      else None)"

definition range_rule :: "bool \<Rightarrow> cursor \<Rightarrow> lexed option" where
  "range_rule als cur =
     (if starts_with (snd cur) [46, 46] then Some (skip_bytes 2 cur, Operator, Normal, False) else None)"

definition number_rule :: "bool \<Rightarrow> cursor \<Rightarrow> lexed option" where
  "number_rule als cur =
     (if peek_is is_ascii_digit cur
         \<or> peek cur = Some 46 \<and> (case peek2 cur of None \<Rightarrow> False | Some c \<Rightarrow> is_ascii_digit c)
      then Some (scan_number cur, NumberLiteral, Normal, False) else None)"

definition bind_rule :: "unicode \<Rightarrow> sql_dialect \<Rightarrow> bool \<Rightarrow> cursor \<Rightarrow> lexed option" where
  "bind_rule u d als cur =
     (if peek cur = Some 58 \<and> bind_variables d then
        case bind_variable_len u (tl (snd cur)) of None \<Rightarrow> None
        | Some len \<Rightarrow> Some (skip_bytes len cur, BindVariable, Normal, False)
      else None)"

definition substitution_rule :: "unicode \<Rightarrow> sql_dialect \<Rightarrow> bool \<Rightarrow> cursor \<Rightarrow> lexed option" where
  "substitution_rule u d als cur =
     (if peek cur = Some 38 \<and> substitution_variables d then
        case substitution_variable_len u (tl (snd cur)) of None \<Rightarrow> None
        | Some len \<Rightarrow> Some (skip_bytes len cur, SubstitutionVariable, Normal, False)
      else None)"

definition two_char_rule :: "bool \<Rightarrow> cursor \<Rightarrow> lexed option" where
  "two_char_rule als cur =
     (case find (\<lambda>op. starts_with (snd cur) op) TWO_CHAR_OPERATORS of None \<Rightarrow> None
      | Some op \<Rightarrow> Some (advance_by_chars (length op) cur, Operator, Normal, False))"

definition single_char_rule :: "bool \<Rightarrow> cursor \<Rightarrow> lexed option" where
  "single_char_rule als cur = Some (bump cur, Operator, Normal, False)"

fun first_rule :: "(bool \<Rightarrow> cursor \<Rightarrow> lexed option) list \<Rightarrow> bool \<Rightarrow> cursor \<Rightarrow> lexed option" where
  "first_rule [] als cur = None"
| "first_rule (r # rs) als cur = (case r als cur of None \<Rightarrow> first_rule rs als cur | Some x \<Rightarrow> Some x)"

definition normal_rules :: "unicode \<Rightarrow> sql_dialect \<Rightarrow> (bool \<Rightarrow> cursor \<Rightarrow> lexed option) list" where
  "normal_rules u d =
     [whitespace_rule, line_comment_rule d, block_comment_rule d, comment_word_rule u d,
      directive_rule u d, double_quote_rule, single_quote_rule, word_rule u d, range_rule,
      number_rule, bind_rule u d, substitution_rule u d, two_char_rule]"

definition next_token_normal :: "unicode \<Rightarrow> sql_dialect \<Rightarrow> bool \<Rightarrow> cursor \<Rightarrow> lexed" where
  "next_token_normal u d als cur =
     (case first_rule (normal_rules u d) als cur of Some r \<Rightarrow> r
      | None \<Rightarrow> (bump cur, Operator, Normal, False))"

fun next_token :: "unicode \<Rightarrow> sql_dialect \<Rightarrow> mode \<Rightarrow> bool \<Rightarrow> cursor \<Rightarrow> lexed" where
  "next_token u d BlockComment als cur =
     (let cl = (case block_comment (comments d) of None \<Rightarrow> us ''*/'' | Some (op, cl) \<Rightarrow> cl);
          (cur', closed) = scan_block_comment cl cur
      in (cur', Comment, still_open closed BlockComment, False))"
| "next_token u d SingleQuoted als cur =
     (let (cur', closed) = scan_simple_quoted 39 cur
      in (cur', StringLiteral, still_open closed SingleQuoted, False))"
| "next_token u d DoubleQuoted als cur =
     (let (cur', closed) = scan_simple_quoted 34 cur
      in (cur', QuotedIdentifier, still_open closed DoubleQuoted, False))"
| "next_token u d (QString closing) als cur =
     (let (cur', closed) = scan_q_string closing cur
      in (cur', StringLiteral, still_open closed (QString closing), False))"
| "next_token u d Normal als cur = next_token_normal u d als cur"

section \<open>\<^verbatim>\<open>tokenize_block\<close> and \<^verbatim>\<open>tokenize\<close>\<close>

text \<open>The loop: \<open>None\<close> is a loop that does not end.\<close>

partial_function (option) tokenize_loop ::
    "unicode \<Rightarrow> sql_dialect \<Rightarrow> mode \<Rightarrow> bool \<Rightarrow> cursor \<Rightarrow> (token list \<times> mode) option" where
  "tokenize_loop u d m als cur =
     (if at_end cur then Some ([], m)
      else let (cur', k, m', als') = next_token u d m als cur
        in Option.bind (tokenize_loop u d m' als' cur')
             (\<lambda>(ts, m''). Some (\<lparr>kind = k, start = fst cur, tok_end = fst cur'\<rparr> # ts, m'')))"

declare tokenize_loop.simps [code]

definition tokenize_block ::
    "unicode \<Rightarrow> sql_dialect \<Rightarrow> mode \<Rightarrow> ustr \<Rightarrow> (token list \<times> mode) option" where
  "tokenize_block u d m s = tokenize_loop u d m (m = Normal) (0, s)"

definition shift_token :: "nat \<Rightarrow> token \<Rightarrow> token" where
  "shift_token p t = t\<lparr>start := start t + p, tok_end := tok_end t + p\<rparr>"

definition newline_token :: "nat \<Rightarrow> token" where
  "newline_token p = \<lparr>kind = Whitespace, start = p, tok_end = p + 1\<rparr>"

fun tokenize_lines ::
    "unicode \<Rightarrow> sql_dialect \<Rightarrow> mode \<Rightarrow> nat \<Rightarrow> ustr list \<Rightarrow> (token list \<times> mode) option" where
  "tokenize_lines u d m p [] = Some ([], m)"
| "tokenize_lines u d m p (l # ls) =
     (case tokenize_block u d m l of None \<Rightarrow> None
      | Some (ts, m') \<Rightarrow>
          let here = map (shift_token p) ts;
              p' = p + byte_len l
          in if ls = [] then Some (here, m')
             else case tokenize_lines u d m' (p' + 1) ls of None \<Rightarrow> None
               | Some (ts', m'') \<Rightarrow> Some (here @ newline_token p' # ts', m''))"

definition mark_last_error :: "token list \<Rightarrow> token list" where
  "mark_last_error ts = (if ts = [] then [] else butlast ts @ [(last ts)\<lparr>kind := Error\<rparr>])"

definition tokenize :: "unicode \<Rightarrow> sql_dialect \<Rightarrow> ustr \<Rightarrow> token list option" where
  "tokenize u d s =
     (case tokenize_lines u d Normal 0 (split_lines s) of None \<Rightarrow> None
      | Some (ts, m) \<Rightarrow> Some (if is_initial m then ts else mark_last_error ts))"

section \<open>A scanner only moves forward\<close>

text \<open>The cursor moved over whole characters (and, for \<open>advanced\<close>, over at least one).\<close>

definition moved :: "cursor \<Rightarrow> cursor \<Rightarrow> bool" where
  "moved cur cur' \<longleftrightarrow> (\<exists>w. snd cur = w @ snd cur' \<and> fst cur' = fst cur + byte_len w)"

definition advanced :: "cursor \<Rightarrow> cursor \<Rightarrow> bool" where
  "advanced cur cur' \<longleftrightarrow> (\<exists>w. w \<noteq> [] \<and> snd cur = w @ snd cur' \<and> fst cur' = fst cur + byte_len w)"

lemma moved_refl [simp, scan_simps]: "moved cur cur"
  by (simp add: moved_def)

lemma moved_trans [trans]: "moved a b \<Longrightarrow> moved b c \<Longrightarrow> moved a c"
  unfolding moved_def by (metis append.assoc add.assoc byte_len_append)

lemma advanced_moved [trans]: "advanced a b \<Longrightarrow> moved b c \<Longrightarrow> advanced a c"
  unfolding moved_def advanced_def by (metis append.assoc add.assoc byte_len_append append_is_Nil_conv)

lemma moved_advanced [trans]: "moved a b \<Longrightarrow> advanced b c \<Longrightarrow> advanced a c"
  unfolding moved_def advanced_def by (metis append.assoc add.assoc byte_len_append append_is_Nil_conv)

lemma advanced_imp_moved: "advanced a b \<Longrightarrow> moved a b"
  unfolding moved_def advanced_def by blast

lemma advanced_shorter: "advanced a b \<Longrightarrow> length (snd b) < length (snd a)"
  by (auto simp: advanced_def)

lemma advanced_Cons: "moved (p + len_utf8 c, cs) cur \<Longrightarrow> advanced (p, c # cs) cur"
proof -
  assume "moved (p + len_utf8 c, cs) cur"
  then obtain w where "cs = w @ snd cur" "fst cur = p + len_utf8 c + byte_len w" by (auto simp: moved_def)
  then have "c # w \<noteq> [] \<and> c # cs = (c # w) @ snd cur \<and> fst cur = p + byte_len (c # w)" by simp
  then show ?thesis unfolding advanced_def by (metis fst_conv snd_conv)
qed

lemma moved_Cons: "moved (p + len_utf8 c, cs) cur \<Longrightarrow> moved (p, c # cs) cur"
  by (rule advanced_imp_moved, rule advanced_Cons)

lemma moved_Cons2: "moved (p + len_utf8 c + len_utf8 d, cs) cur \<Longrightarrow> moved (p, c # d # cs) cur"
  by (rule moved_Cons, rule moved_Cons)

lemma advanced_Cons2: "moved (p + len_utf8 c + len_utf8 d, cs) cur \<Longrightarrow> advanced (p, c # d # cs) cur"
  by (rule advanced_Cons, rule moved_Cons)

lemma bump_advanced: "snd cur \<noteq> [] \<Longrightarrow> advanced cur (bump cur)"
  by (cases cur; cases "snd cur") (auto intro!: advanced_Cons)

lemma bump_moved [simp, scan_simps]: "moved cur (bump cur)"
  by (cases cur; cases "snd cur") (auto intro!: moved_Cons)

lemma bump_while_moved [simp, scan_simps]: "moved cur (bump_while P cur)"
  by (induction P cur rule: bump_while.induct) (auto intro: moved_Cons)

lemma peek_not_end: "peek cur = Some c \<Longrightarrow> snd cur \<noteq> []"
  by (cases cur rule: peek.cases) auto

lemma peek_SomeE:
  assumes "peek cur = Some c"
  obtains p cs where "cur = (p, c # cs)"
  using assms by (cases cur rule: peek.cases) auto

lemma peek_is_iff: "peek_is P cur \<longleftrightarrow> (\<exists>c. peek cur = Some c \<and> P c)"
  by (auto simp: peek_is_def split: option.splits)

lemma bump_while_advanced:
  assumes "peek_is P cur" and "bump_while P cur = cur'"
  shows "advanced cur cur'"
  using assms by (cases cur rule: peek.cases) (auto simp: peek_is_def intro: advanced_Cons)

lemma skip_bytes_prefix: "skip_bytes (byte_len w) (p, w @ r) = (p + byte_len w, r)"
  by (simp add: skip_bytes_def)

lemma skip_prefix_moved:
  assumes "starts_with (snd cur) w"
  shows "moved cur (skip_bytes (byte_len w) cur)"
  using assms by (auto elim!: starts_withE simp: skip_bytes_def moved_def)

lemma skip_prefix_advanced:
  assumes "snd cur = w @ r" and "w \<noteq> []" and "n = byte_len w"
  shows "advanced cur (skip_bytes n cur)"
  using assms by (auto simp: skip_bytes_def advanced_def)

lemma scan_simple_quoted_moved [simp, scan_simps]: "moved cur (fst (scan_simple_quoted q cur))"
  by (induction q cur rule: scan_simple_quoted.induct) (auto intro: moved_Cons moved_Cons2)

lemma scan_simple_quoted_advanced: "snd cur \<noteq> [] \<Longrightarrow> advanced cur (fst (scan_simple_quoted q cur))"
  by (cases "(q, cur)" rule: scan_simple_quoted.cases) (auto intro: advanced_Cons advanced_Cons2)

lemma scan_q_string_moved [simp, scan_simps]: "moved cur (fst (scan_q_string q cur))"
  by (induction q cur rule: scan_q_string.induct) (auto intro: moved_Cons moved_Cons2)

lemma scan_q_string_advanced: "snd cur \<noteq> [] \<Longrightarrow> advanced cur (fst (scan_q_string q cur))"
  by (cases "(q, cur)" rule: scan_q_string.cases) (auto intro: advanced_Cons advanced_Cons2)

lemma scan_block_comment_moved [simp, scan_simps]: "moved cur (fst (scan_block_comment cl cur))"
proof (induction cl cur rule: scan_block_comment.induct)
  case (2 cl p c cs)
  then show ?case using skip_prefix_moved [of "(p, c # cs)" cl] by (auto intro: moved_Cons)
qed simp

lemma scan_block_comment_advanced:
  assumes "snd cur \<noteq> []" and "cl \<noteq> []"
  shows "advanced cur (fst (scan_block_comment cl cur))"
proof -
  obtain p c cs where cur: "cur = (p, c # cs)" using assms by (cases cur; cases "snd cur") auto
  show ?thesis
  proof (cases "starts_with (c # cs) cl")
    case True
    then obtain r where "snd cur = cl @ r" using cur by (auto elim: starts_withE)
    from skip_prefix_advanced [OF this assms(2) refl] True show ?thesis by (simp only: cur scan_block_comment.simps if_True fst_conv)
  next
    case False
    then show ?thesis by (simp add: cur advanced_Cons)
  qed
qed

lemma scan_simple_quoted_split:
  "scan_simple_quoted q cur = (cur', b) \<Longrightarrow> moved cur cur'"
  by (metis scan_simple_quoted_moved fst_conv)

lemma maybe_exponent_moved [simp, scan_simps]: "moved cur (maybe_exponent cur)"
  by (auto simp: maybe_exponent_def Let_def intro: moved_trans [OF _ bump_while_moved]
      moved_trans [OF bump_moved bump_moved])

lemma leading_identifier_prefix:
  assumes "leading_identifier_len u s > 0"
  obtains w r where "s = w @ r" and "w \<noteq> []" and "leading_identifier_len u s = byte_len w"
    and "w = takeWhile (is_identifier_char u) s"
proof -
  let ?w = "takeWhile (is_identifier_char u) s"
  have eq: "leading_identifier_len u s = byte_len ?w" using assms by (cases s) (auto split: if_splits)
  have "?w \<noteq> []" using assms by (simp add: eq)
  moreover have "s = ?w @ dropWhile (is_identifier_char u) s" by simp
  ultimately show thesis using eq that by blast
qed

lemma leading_identifier_pos:
  "is_alphabetic u c \<Longrightarrow> leading_identifier_len u (c # cs) > 0"
  by (simp add: is_identifier_char_def is_alphanumeric_def)

section \<open>The contract of a rule\<close>

text \<open>
  What \<^verbatim>\<open>tokenize_block\<close> relies on for every rule: it consumes at least one character, and
  the mode it carries to the next block can be stored as an \<^verbatim>\<open>i32\<close>.
\<close>

locale lex_rule =
  fixes rule :: "unicode \<Rightarrow> sql_dialect \<Rightarrow> bool \<Rightarrow> cursor \<Rightarrow> lexed option"
  assumes progress: "wf_dialect d \<Longrightarrow> snd cur \<noteq> [] \<Longrightarrow> rule u d als cur = Some (cur', k, m, als') \<Longrightarrow>
      advanced cur cur'"
    and carries: "list_all is_scalar (snd cur) \<Longrightarrow> rule u d als cur = Some (cur', k, m, als') \<Longrightarrow>
      valid_mode m"
begin

lemma shorter:
  "wf_dialect d \<Longrightarrow> snd cur \<noteq> [] \<Longrightarrow> rule u d als cur = Some (cur', k, m, als') \<Longrightarrow>
     length (snd cur') < length (snd cur)"
  by (blast dest: progress advanced_shorter)

lemma else_rule:
  assumes "lex_rule other"
  shows "lex_rule (\<lambda>u d als cur. case rule u d als cur of None \<Rightarrow> other u d als cur | Some x \<Rightarrow> Some x)"
  using progress carries lex_rule.progress [OF assms] lex_rule.carries [OF assms]
  by unfold_locales (auto split: option.splits)

end

lemma lex_rule_first:
  "list_all lex_rule rs \<Longrightarrow> lex_rule (\<lambda>u d. first_rule (map (\<lambda>r. r u d) rs))"
proof (induction rs)
  case Nil
  show ?case by unfold_locales auto
next
  case (Cons r rs)
  then have "lex_rule r" and "lex_rule (\<lambda>u d. first_rule (map (\<lambda>r. r u d) rs))" by auto
  from lex_rule.else_rule [OF this] show ?case by (simp add: first_rule.simps cong: option.case_cong)
qed

lemma still_open_valid [simp]: "valid_mode m \<Longrightarrow> valid_mode (still_open closed m)"
  by (simp add: still_open_def)

interpretation whitespace: lex_rule "\<lambda>u d. whitespace_rule"
  by unfold_locales (auto simp: whitespace_rule_def split: if_splits dest: bump_while_advanced)

interpretation line_comment: lex_rule "\<lambda>u. line_comment_rule"
proof unfold_locales
  fix d cur als cur' k m als' and u :: unicode
  assume wf: "wf_dialect d" and r: "line_comment_rule d als cur = Some (cur', k, m, als')"
  then obtain prefix where prefix: "prefix \<noteq> []" "starts_with (snd cur) prefix"
    and cur': "cur' = bump_while (\<lambda>c. c \<noteq> 10) (skip_bytes (byte_len prefix) cur)"
    by (auto simp: line_comment_rule_def wf_dialect_def split: option.splits if_splits)
  from prefix have "advanced cur (skip_bytes (byte_len prefix) cur)"
    by (auto elim!: starts_withE intro: skip_prefix_advanced)
  then show "advanced cur cur'" unfolding cur' by (rule advanced_moved) simp
qed (auto simp: line_comment_rule_def split: option.splits if_splits)

interpretation block_comment: lex_rule "\<lambda>u. block_comment_rule"
proof unfold_locales
  fix d cur als cur' k m als' and u :: unicode
  assume wf: "wf_dialect d" and r: "block_comment_rule d als cur = Some (cur', k, m, als')"
  then obtain op cl where op: "op \<noteq> []" "starts_with (snd cur) op"
    and cur': "cur' = fst (scan_block_comment cl (skip_bytes (byte_len op) cur))"
    by (auto simp: block_comment_rule_def wf_dialect_def case_prod_unfold Let_def split: option.splits if_splits)
  from op have "advanced cur (skip_bytes (byte_len op) cur)"
    by (auto elim!: starts_withE intro: skip_prefix_advanced)
  then show "advanced cur cur'" unfolding cur' by (rule advanced_moved) simp
qed (auto simp: block_comment_rule_def split: option.splits if_splits prod.splits)

lemma skip_identifier_advanced:
  assumes "peek_is (is_alphabetic u) cur"
  shows "advanced cur (skip_bytes (leading_identifier_len u (snd cur)) cur)"
proof -
  from assms obtain c p cs where cur: "cur = (p, c # cs)" and c: "is_alphabetic u c"
    by (auto simp: peek_is_iff elim: peek_SomeE)
  from leading_identifier_pos [OF c] obtain w r where "c # cs = w @ r" "w \<noteq> []"
    "leading_identifier_len u (c # cs) = byte_len w" by (rule leading_identifier_prefix)
  then show ?thesis by (intro skip_prefix_advanced [of _ w r]) (simp_all add: cur del: leading_identifier_len.simps)
qed

interpretation comment_word: lex_rule comment_word_rule
  by unfold_locales
    (auto simp: comment_word_rule_def Let_def split: if_splits
      intro: advanced_moved [OF skip_identifier_advanced bump_while_moved])

interpretation directive: lex_rule directive_rule
proof unfold_locales
  fix d cur u als cur' k m als'
  assume "directive_rule u d als cur = Some (cur', k, m, als')"
  then obtain c len where peek: "peek cur = Some c"
    and len: "len = len_utf8 c \<or> starts_with (drop_bytes (len_utf8 c) (snd cur)) [c] \<and> len = len_utf8 c + len_utf8 c"
    and ident: "leading_identifier_len u (drop_bytes len (snd cur)) > 0"
    and cur': "cur' = skip_bytes (len + leading_identifier_len u (drop_bytes len (snd cur))) cur"
    by (auto simp: directive_rule_def Let_def split: option.splits if_splits)
  from peek obtain p cs where cur: "cur = (p, c # cs)" by (rule peek_SomeE)
  obtain v r where v: "v \<noteq> []" "c # cs = v @ r" "len = byte_len v"
  proof (cases "starts_with cs [c] \<and> len = len_utf8 c + len_utf8 c")
    case True
    then obtain r where "cs = [c] @ r" by (auto elim: starts_withE)
    with True that [of "[c, c]" r] show ?thesis by simp
  next
    case False
    with len cur that [of "[c]" cs] show ?thesis by simp
  qed
  from ident obtain w s where w: "drop_bytes len (snd cur) = w @ s"
    "leading_identifier_len u (drop_bytes len (snd cur)) = byte_len w" by (rule leading_identifier_prefix)
  have r: "r = w @ s" using w(1) v by (simp add: cur)
  show "advanced cur cur'" unfolding cur' w(2)
    using v r by (intro skip_prefix_advanced [of _ "v @ w" s]) (simp_all add: cur)
qed (auto simp: directive_rule_def Let_def split: option.splits if_splits)

lemma quoted_rule_advanced:
  "quoted_rule q kd md als cur = Some (cur', k, m, als') \<Longrightarrow> advanced cur cur'"
  by (auto simp: quoted_rule_def split: if_splits prod.splits elim!: peek_SomeE
      intro!: advanced_Cons dest: scan_simple_quoted_split)

lemma quoted_rule_mode:
  "quoted_rule q kd md als cur = Some (cur', k, m, als') \<Longrightarrow> m = Normal \<or> m = md"
  by (auto simp: quoted_rule_def still_open_def split: if_splits prod.splits)

interpretation double_quote: lex_rule "\<lambda>u d. double_quote_rule"
  by unfold_locales (auto simp: double_quote_rule_def dest: quoted_rule_advanced quoted_rule_mode)

interpretation single_quote: lex_rule "\<lambda>u d. single_quote_rule"
  by unfold_locales (auto simp: single_quote_rule_def dest: quoted_rule_advanced quoted_rule_mode)

lemma scan_alternative_quote_contract:
  assumes "starts_with (snd cur) [39]" and "scan_alternative_quote cur = (cur', k, m, als')"
  shows "moved cur cur'" and "list_all is_scalar (snd cur) \<Longrightarrow> valid_mode m"
proof -
  obtain p cs where cur: "cur = (p, 39 # cs)" using assms(1) by (cases cur) (auto elim: starts_withE)
  show "moved cur cur'"
    using assms(2)
    by (cases cs) (auto simp: scan_alternative_quote_def cur Let_def case_prod_unfold intro!: moved_Cons)
  show "valid_mode m" if "list_all is_scalar (snd cur)"
    using assms(2) that
    by (cases cs) (auto simp: scan_alternative_quote_def cur Let_def case_prod_unfold still_open_def
        closing_delimiter_def is_scalar_def)
qed

lemma list_all_skip_bytes: "list_all P (snd cur) \<Longrightarrow> list_all P (snd (skip_bytes n cur))"
proof -
  have "list_all P s \<Longrightarrow> list_all P (drop_bytes n s)" for s
    by (induction n s rule: drop_bytes.induct) auto
  then show "list_all P (snd cur) \<Longrightarrow> list_all P (snd (skip_bytes n cur))" by (simp add: skip_bytes_def)
qed

interpretation word: lex_rule word_rule
proof unfold_locales
  fix d cur u als cur' k m als'
  assume r: "word_rule u d als cur = Some (cur', k, m, als')"
  let ?after = "skip_bytes (leading_identifier_len u (snd cur)) cur"
  have adv: "advanced cur ?after"
    using r by (intro skip_identifier_advanced) (auto simp: word_rule_def split: if_splits)
  have "moved ?after cur'"
    using r by (auto simp: word_rule_def Let_def case_prod_unfold split: if_splits
        intro: moved_trans [OF bump_moved] dest: scan_alternative_quote_contract(1))
  with adv show "advanced cur cur'" by (rule advanced_moved)
next
  fix d cur u als cur' k m als'
  assume s: "list_all is_scalar (snd cur)" and r: "word_rule u d als cur = Some (cur', k, m, als')"
  show "valid_mode m"
    using r list_all_skip_bytes [OF s]
    by (auto simp: word_rule_def Let_def case_prod_unfold split: if_splits
        dest: scan_alternative_quote_contract(2))
qed

interpretation range: lex_rule "\<lambda>u d. range_rule"
proof unfold_locales
  fix d cur als cur' k m als' and u :: unicode
  assume "range_rule als cur = Some (cur', k, m, als')"
  then have s: "starts_with (snd cur) [46, 46]" and cur': "cur' = skip_bytes 2 cur"
    by (auto simp: range_rule_def split: if_splits)
  from s obtain r where "snd cur = [46, 46] @ r" by (rule starts_withE)
  then show "advanced cur cur'" unfolding cur'
    by (rule skip_prefix_advanced) (simp_all add: len_utf8_def)
qed (auto simp: range_rule_def split: if_splits)

lemma scan_number_advanced:
  assumes "peek_is is_ascii_digit cur \<or> peek cur = Some 46"
  shows "advanced cur (scan_number cur)"
proof (cases "peek cur = Some 46")
  case True
  then have "advanced cur (bump cur)" by (intro bump_advanced peek_not_end)
  also have "moved (bump cur) (scan_number cur)"
    using True by (auto simp: scan_number_def intro: moved_trans [OF bump_while_moved maybe_exponent_moved])
  finally (advanced_moved) show ?thesis .
next
  case False
  with assms have "advanced cur (bump_while is_ascii_digit cur)" by (auto intro: bump_while_advanced)
  also have "moved (bump_while is_ascii_digit cur) (scan_number cur)"
    using False by (auto simp: scan_number_def Let_def
        intro: moved_trans [OF bump_moved moved_trans [OF bump_while_moved maybe_exponent_moved]])
  finally (advanced_moved) show ?thesis .
qed

interpretation number: lex_rule "\<lambda>u d. number_rule"
  by unfold_locales (auto simp: number_rule_def split: if_splits dest!: sym [of "scan_number _"]
      intro!: scan_number_advanced)

lemma find_char_prefix:
  assumes "find_char c s = Some e"
  obtains w r where "s = w @ c # r" and "e = byte_len w" and "c \<notin> set w"
proof -
  from assms have c: "c \<in> set s" and e: "e = byte_len (takeWhile (\<lambda>x. x \<noteq> c) s)"
    by (auto simp: find_char_def split: if_splits)
  from c obtain r where "dropWhile (\<lambda>x. x \<noteq> c) s = c # r"
    by (metis (mono_tags, lifting) dropWhile_eq_Nil_conv hd_dropWhile list.collapse)
  then have "s = takeWhile (\<lambda>x. x \<noteq> c) s @ c # r" by (metis takeWhile_dropWhile_id)
  with e show thesis by (intro that) (auto dest: set_takeWhileD)
qed

lemma bind_variable_len_prefix:
  assumes "bind_variable_len u s = Some len"
  obtains w r where "58 # s = w @ r" and "w \<noteq> []" and "len = byte_len w"
proof -
  from assms obtain c cs where s: "s = c # cs" by (cases s) auto
  have one: "len_utf8 58 = 1" "len_utf8 34 = 1" by (simp_all add: len_utf8_def)
  consider e where "c = 34" "find_char 34 cs = Some e" "len = 3 + e"
    | "len = 1 + byte_len (takeWhile is_ascii_digit s)"
    | "leading_identifier_len u s > 0" "len = 1 + leading_identifier_len u s"
    using assms unfolding s
    by (auto simp: Let_def split: if_splits option.splits simp del: leading_identifier_len.simps)
  then show thesis
  proof cases
    case 1
    from 1(2) obtain w r where "cs = w @ 34 # r" "e = byte_len w" by (rule find_char_prefix)
    with 1 s one show thesis by (intro that [of "58 # 34 # w @ [34]" r]) auto
  next
    case 2
    with one show thesis by (intro that [of "58 # takeWhile is_ascii_digit s" "dropWhile is_ascii_digit s"]) auto
  next
    case 3
    from 3(1) obtain w r where "s = w @ r" "leading_identifier_len u s = byte_len w"
      by (rule leading_identifier_prefix)
    with 3 one show thesis by (intro that [of "58 # w" r]) auto
  qed
qed

interpretation bind: lex_rule bind_rule
proof unfold_locales
  fix d cur u als cur' k m als'
  assume "bind_rule u d als cur = Some (cur', k, m, als')"
  then obtain p s len where cur: "cur = (p, 58 # s)" and len: "bind_variable_len u s = Some len"
    and cur': "cur' = skip_bytes len cur"
    by (auto simp: bind_rule_def split: if_splits option.splits elim!: peek_SomeE)
  from len obtain w r where "58 # s = w @ r" "w \<noteq> []" "len = byte_len w"
    by (rule bind_variable_len_prefix)
  then show "advanced cur cur'" unfolding cur' by (intro skip_prefix_advanced) (simp_all add: cur)
qed (auto simp: bind_rule_def split: if_splits option.splits)

lemma variable_name_prefix:
  assumes "variable_name_len u s \<noteq> 0"
  obtains w r where "s = w @ r" and "w \<noteq> []" and "variable_name_len u s = byte_len w"
proof (cases s)
  case Nil
  with assms show thesis by (simp add: variable_name_len_def)
next
  case (Cons c cs)
  show thesis
  proof (cases "is_ascii_digit c")
    case True
    with Cons show thesis
      by (intro that [of "takeWhile is_ascii_digit s" "dropWhile is_ascii_digit s"])
        (auto simp: variable_name_len_def)
  next
    case False
    with assms Cons have "leading_identifier_len u s > 0" "variable_name_len u s = leading_identifier_len u s"
      by (auto simp: variable_name_len_def split: if_splits simp del: leading_identifier_len.simps)
    then show thesis by (metis leading_identifier_prefix that)
  qed
qed

lemma substitution_variable_len_prefix:
  assumes "substitution_variable_len u s = Some len"
  obtains w r where "38 # s = w @ r" and "w \<noteq> []" and "len = byte_len w"
proof -
  have one: "len_utf8 38 = 1" "len_utf8 46 = 1" by (simp_all add: len_utf8_def)
  obtain v name where v: "38 # s = 38 # v @ name" "byte_len v = (if starts_with s [38] then 1 else 0)"
    "name = drop_bytes ((if starts_with s [38] then 2 else 1) - 1) s"
    using one by (cases "starts_with s [38]") (auto elim!: starts_withE)
  then have nz: "variable_name_len u name \<noteq> 0"
    and len: "len = 1 + byte_len v + variable_name_len u name +
      (if starts_with (drop_bytes (variable_name_len u name) name) [46] then 1 else 0)"
    using assms by (auto simp: substitution_variable_len_def Let_def split: if_splits)
  from nz obtain w r where w: "name = w @ r" "variable_name_len u name = byte_len w"
    by (rule variable_name_prefix)
  have len: "len = 1 + byte_len v + byte_len w + (if starts_with r [46] then 1 else 0)"
    using len unfolding w(2) by (simp add: w(1))
  show thesis
  proof (cases "starts_with r [46]")
    case True
    then obtain t where t: "r = [46] @ t" by (rule starts_withE)
    have "38 # s = (38 # v @ w @ [46]) @ t" using v(1) w(1) t by simp
    then show thesis by (rule that) (use True len one in simp_all)
  next
    case False
    have "38 # s = (38 # v @ w) @ r" using v(1) w(1) by simp
    then show thesis by (rule that) (use False len one in simp_all)
  qed
qed

interpretation substitution: lex_rule substitution_rule
proof unfold_locales
  fix d cur u als cur' k m als'
  assume "substitution_rule u d als cur = Some (cur', k, m, als')"
  then obtain p s len where cur: "cur = (p, 38 # s)" and len: "substitution_variable_len u s = Some len"
    and cur': "cur' = skip_bytes len cur"
    by (auto simp: substitution_rule_def split: if_splits option.splits elim!: peek_SomeE)
  from len obtain w r where "38 # s = w @ r" "w \<noteq> []" "len = byte_len w"
    by (rule substitution_variable_len_prefix)
  then show "advanced cur cur'" unfolding cur' by (intro skip_prefix_advanced) (simp_all add: cur)
qed (auto simp: substitution_rule_def split: if_splits option.splits)

lemma advance_by_chars_moved: "moved cur (advance_by_chars n cur)"
  by (induction n cur rule: advance_by_chars.induct) (auto intro: moved_trans [OF bump_moved])

interpretation two_char: lex_rule "\<lambda>u d. two_char_rule"
proof unfold_locales
  fix d cur als cur' k m als' and u :: unicode
  assume ne: "snd cur \<noteq> []" and "two_char_rule als cur = Some (cur', k, m, als')"
  then obtain op where op: "find (\<lambda>op. starts_with (snd cur) op) TWO_CHAR_OPERATORS = Some op"
    and cur': "cur' = advance_by_chars (length op) cur"
    by (auto simp: two_char_rule_def split: option.splits)
  from op have "op \<in> set TWO_CHAR_OPERATORS" by (auto simp: find_Some_iff)
  then obtain n where n: "length op = Suc n" by (auto simp: TWO_CHAR_OPERATORS_def us_def)
  show "advanced cur cur'"
    unfolding cur' n advance_by_chars.simps
    by (rule advanced_moved [OF bump_advanced [OF ne] advance_by_chars_moved])
qed (auto simp: two_char_rule_def split: option.splits)

interpretation normal: lex_rule "\<lambda>u d. first_rule (normal_rules u d)"
proof -
  have "normal_rules u d = map (\<lambda>r. r u d)
     [\<lambda>u d. whitespace_rule, \<lambda>u. line_comment_rule, \<lambda>u. block_comment_rule, comment_word_rule,
      directive_rule, \<lambda>u d. double_quote_rule, \<lambda>u d. single_quote_rule, word_rule,
      \<lambda>u d. range_rule, \<lambda>u d. number_rule, bind_rule, substitution_rule, \<lambda>u d. two_char_rule]"
    for u d by (simp add: normal_rules_def)
  moreover have "list_all lex_rule
     [\<lambda>u d. whitespace_rule, \<lambda>u. line_comment_rule, \<lambda>u. block_comment_rule, comment_word_rule,
      directive_rule, \<lambda>u d. double_quote_rule, \<lambda>u d. single_quote_rule, word_rule,
      \<lambda>u d. range_rule, \<lambda>u d. number_rule, bind_rule, substitution_rule, \<lambda>u d. two_char_rule]"
    by (simp add: whitespace.lex_rule_axioms line_comment.lex_rule_axioms block_comment.lex_rule_axioms
        comment_word.lex_rule_axioms directive.lex_rule_axioms double_quote.lex_rule_axioms
        single_quote.lex_rule_axioms word.lex_rule_axioms range.lex_rule_axioms number.lex_rule_axioms
        bind.lex_rule_axioms substitution.lex_rule_axioms two_char.lex_rule_axioms)
  ultimately show "lex_rule (\<lambda>u d. first_rule (normal_rules u d))" by (simp only: lex_rule_first)
qed

end
