(* ===== verification/Sql_Lexer_Correct.thy ===== *)
theory Sql_Lexer_Correct
  imports Sql_Lexer "HOL-Library.Sublist"
begin

text \<open>
  Properties of the lexer: it returns for every text, its tokens tile the text, a document
  highlighted line by line through \<^verbatim>\<open>i32\<close> states gets the tokens of the whole document,
  and literals and comments span what they should, also across lines.
\<close>

section \<open>One token\<close>

lemma next_token_advanced:
  assumes "wf_dialect d" and "snd cur \<noteq> []" and "next_token u d m als cur = (cur', k, m', als')"
  shows "advanced cur cur'"
proof (cases m)
  case Normal
  show ?thesis
  proof (cases "first_rule (normal_rules u d) als cur")
    case None
    with assms Normal show ?thesis by (auto simp: next_token_normal_def bump_advanced)
  next
    case (Some r)
    with assms Normal show ?thesis
      by (auto simp: next_token_normal_def intro: normal.progress)
  qed
next
  case BlockComment
  have "(case block_comment (comments d) of None \<Rightarrow> us ''*/'' | Some (op, cl) \<Rightarrow> cl) \<noteq> []"
    using assms(1) by (auto simp: wf_dialect_def us_def split: option.splits)
  from scan_block_comment_advanced [OF assms(2) this] assms(3) BlockComment show ?thesis
    by (auto simp: case_prod_unfold Let_def)
qed (use assms in \<open>auto simp: case_prod_unfold Let_def scan_simple_quoted_advanced scan_q_string_advanced\<close>)

lemma next_token_mode:
  assumes "list_all is_scalar (snd cur)" and "valid_mode m" and "next_token u d m als cur = (cur', k, m', als')"
  shows "valid_mode m'"
proof (cases m)
  case Normal
  with assms show ?thesis
    by (auto simp: next_token_normal_def split: option.splits dest: normal.carries [rotated])
qed (use assms in \<open>auto simp: case_prod_unfold Let_def\<close>)

section \<open>Tokens tile the text\<close>

text \<open>
  The first token starts at \<open>p\<close>, every token covers at least one byte and ends at a character
  boundary of the text, the next one starts where it ends, and nothing is left.
\<close>

fun tiles :: "nat \<Rightarrow> ustr \<Rightarrow> token list \<Rightarrow> bool" where
  "tiles p s [] \<longleftrightarrow> s = []"
| "tiles p s (t # ts) \<longleftrightarrow> start t = p \<and> p < tok_end t \<and> is_char_boundary s (tok_end t - p) \<and>
     tiles (tok_end t) (drop_bytes (tok_end t - p) s) ts"

lemma tiles_Cons_iff:
  "tiles p s (t # ts) \<longleftrightarrow> (\<exists>w r. s = w @ r \<and> w \<noteq> [] \<and> start t = p \<and> tok_end t = p + byte_len w \<and>
     tiles (p + byte_len w) r ts)" (is "?l \<longleftrightarrow> ?r")
proof
  assume l: ?l
  then obtain w r where s: "s = w @ r" "tok_end t - p = byte_len w" by (auto simp: is_char_boundary_iff)
  with l have e: "tok_end t = p + byte_len w" and "w \<noteq> []" by auto
  with l s show ?r by auto
qed auto

lemma tiles_append: "tiles p s ts \<Longrightarrow> tiles (p + byte_len s) s' ts' \<Longrightarrow> tiles p (s @ s') (ts @ ts')"
proof (induction ts arbitrary: p s)
  case (Cons t ts)
  from Cons.prems(1) obtain w r where w: "s = w @ r" "w \<noteq> []" "start t = p" "tok_end t = p + byte_len w"
    "tiles (p + byte_len w) r ts" unfolding tiles_Cons_iff by blast
  have "tiles (p + byte_len w) (r @ s') (ts @ ts')"
    using Cons.prems(2) w(1) by (intro Cons.IH [OF w(5)]) (simp add: add.assoc)
  with w show ?case by (simp only: append_Cons tiles_Cons_iff append_assoc) blast
qed simp

lemma tiles_shift: "tiles p s ts \<Longrightarrow> tiles (p + q) s (map (shift_token q) ts)"
proof (induction ts arbitrary: p s)
  case (Cons t ts)
  then show ?case using Cons.IH [of "tok_end t"] by (simp add: shift_token_def)
qed simp

lemma tiles_concat:
  assumes "tiles (byte_len v) s ts"
  shows "concat (map (\<lambda>t. slice (v @ s) (start t) (tok_end t)) ts) = s"
  using assms
proof (induction ts arbitrary: v s)
  case (Cons t ts)
  then obtain w r where w: "s = w @ r" "start t = byte_len v" "tok_end t = byte_len v + byte_len w"
    "tiles (byte_len v + byte_len w) r ts" unfolding tiles_Cons_iff by blast
  have "slice (v @ s) (start t) (tok_end t) = w" by (simp add: w slice_append)
  moreover have "concat (map (\<lambda>t. slice ((v @ w) @ r) (start t) (tok_end t)) ts) = r"
    by (rule Cons.IH) (simp add: w)
  ultimately show ?case by (simp add: w)
qed simp

lemma tiles_mark_last_error: "tiles p s ts \<Longrightarrow> tiles p s (mark_last_error ts)"
proof -
  have "ts \<noteq> [] \<Longrightarrow> tiles p s ts \<Longrightarrow> tiles p s (butlast ts @ [(last ts)\<lparr>kind := Error\<rparr>])"
    by (induction ts arbitrary: p s rule: list_nonempty_induct) auto
  then show "tiles p s ts \<Longrightarrow> tiles p s (mark_last_error ts)" by (auto simp: mark_last_error_def)
qed

section \<open>The loop returns\<close>

lemma tokenize_loop_tiles:
  assumes "wf_dialect d"
  shows "\<exists>ts m'. tokenize_loop u d m als cur = Some (ts, m') \<and> tiles (fst cur) (snd cur) ts \<and>
    (list_all is_scalar (snd cur) \<and> valid_mode m \<longrightarrow> valid_mode m')"
proof (induction "length (snd cur)" arbitrary: cur m als rule: less_induct)
  case less
  show ?case
  proof (cases "snd cur = []")
    case True
    then show ?thesis by (subst tokenize_loop.simps) (simp add: at_end_def)
  next
    case False
    obtain cur' k m1 als' where n: "next_token u d m als cur = (cur', k, m1, als')"
      by (metis prod_cases4)
    have adv: "advanced cur cur'" by (rule next_token_advanced [OF assms False n])
    then obtain w where w: "w \<noteq> []" "snd cur = w @ snd cur'" "fst cur' = fst cur + byte_len w"
      unfolding advanced_def by blast
    from less [OF advanced_shorter [OF adv], of m1 als'] obtain ts m' where
      ts: "tokenize_loop u d m1 als' cur' = Some (ts, m')" "tiles (fst cur') (snd cur') ts"
        "list_all is_scalar (snd cur') \<and> valid_mode m1 \<longrightarrow> valid_mode m'" by blast
    have "tokenize_loop u d m als cur = Some (\<lparr>kind = k, start = fst cur, tok_end = fst cur'\<rparr> # ts, m')"
      using False by (subst tokenize_loop.simps) (simp add: at_end_def n ts(1))
    moreover have "tiles (fst cur) (snd cur) (\<lparr>kind = k, start = fst cur, tok_end = fst cur'\<rparr> # ts)"
      unfolding tiles_Cons_iff using w ts(2) by auto
    moreover have "list_all is_scalar (snd cur) \<and> valid_mode m \<longrightarrow> valid_mode m'"
      using ts(3) w(2) next_token_mode [OF _ _ n] by auto
    ultimately show ?thesis by blast
  qed
qed

lemma tokenize_block_tiles:
  assumes "wf_dialect d"
  obtains ts m' where "tokenize_block u d m s = Some (ts, m')" "tiles 0 s ts"
    "list_all is_scalar s \<Longrightarrow> valid_mode m \<Longrightarrow> valid_mode m'"
  using tokenize_loop_tiles [OF assms, of u m "m = Normal" "(0, s)"] by (auto simp: tokenize_block_def)

lemma tokenize_lines_tiles:
  assumes "wf_dialect d" and "ls \<noteq> []"
  shows "\<exists>ts m'. tokenize_lines u d m p ls = Some (ts, m') \<and> tiles p (join_lines ls) ts"
  using assms(2)
proof (induction ls arbitrary: m p rule: list_nonempty_induct)
  case (single l)
  obtain ts m' where "tokenize_block u d m l = Some (ts, m')" "tiles 0 l ts"
    by (rule tokenize_block_tiles [OF assms(1)])
  then show ?case using tiles_shift [of 0 l ts p] by simp
next
  case (cons l ls)
  obtain ts m' where b: "tokenize_block u d m l = Some (ts, m')" "tiles 0 l ts"
    by (rule tokenize_block_tiles [OF assms(1)])
  from cons(2) obtain ts' m'' where r: "tokenize_lines u d m' (p + byte_len l + 1) ls = Some (ts', m'')"
    "tiles (p + byte_len l + 1) (join_lines ls) ts'" by blast
  have "tiles (p + byte_len l) (10 # join_lines ls) (newline_token (p + byte_len l) # ts')"
    unfolding tiles_Cons_iff using r(2)
    by (intro exI [of _ "[10]"] exI [of _ "join_lines ls"]) (simp add: newline_token_def len_utf8_def)
  then have "tiles p (l @ 10 # join_lines ls) (map (shift_token p) ts @ newline_token (p + byte_len l) # ts')"
    using tiles_shift [OF b(2), of p] by (intro tiles_append) (simp_all del: tiles.simps)
  then show ?case using cons(1) b r by (simp add: join_lines_Cons)
qed

lemma tokenize_tiles:
  assumes "wf_dialect d"
  shows "\<exists>ts. tokenize u d s = Some ts \<and> tiles 0 s ts"
proof -
  obtain ts m where ts: "tokenize_lines u d Normal 0 (split_lines s) = Some (ts, m)" "tiles 0 s ts"
    using tokenize_lines_tiles [OF assms split_lines_not_Nil, of u Normal 0 s] by auto
  then show ?thesis using tiles_mark_last_error by (auto simp: tokenize_def)
qed

text \<open>
  C8. \<^verbatim>\<open>tokenize\<close> returns for every document and every descriptor without an empty comment
  delimiter, and its tokens cover every byte of the document exactly once, in order, each one
  nonempty and cut at character boundaries: the slices of the tokens concatenate to the text.
\<close>

theorem tokenize_covers:
  assumes "wf_dialect d"
  shows "\<exists>ts. tokenize u d s = Some ts \<and> tiles 0 s ts \<and>
    concat (map (\<lambda>t. slice s (start t) (tok_end t)) ts) = s"
  using tokenize_tiles [OF assms, of u s] tiles_concat [of "[]" s] by auto

theorem tokenize_covers_witness:
  "\<exists>ts. tokenize ascii_unicode oracle_dialect (us ''SELECT 1.5 --x'') = Some ts \<and>
    tiles 0 (us ''SELECT 1.5 --x'') ts \<and>
    concat (map (\<lambda>t. slice (us ''SELECT 1.5 --x'') (start t) (tok_end t)) ts) = us ''SELECT 1.5 --x''"
  using tokenize_covers [OF wf_oracle_dialect, of ascii_unicode "us ''SELECT 1.5 --x''"] by blast

section \<open>Line by line\<close>

text \<open>
  A highlighter keeps only the \<^verbatim>\<open>i32\<close> of the previous block; \<^verbatim>\<open>-1\<close> is Qt's value
  for the first one.
\<close>

fun highlight_lines ::
    "unicode \<Rightarrow> sql_dialect \<Rightarrow> int \<Rightarrow> ustr list \<Rightarrow> (token list list \<times> int) option" where
  "highlight_lines u d raw [] = Some ([], raw)"
| "highlight_lines u d raw (l # ls) =
     (case tokenize_block u d (from_raw raw) l of None \<Rightarrow> None
      | Some (ts, m) \<Rightarrow> (case highlight_lines u d (to_raw m) ls of None \<Rightarrow> None
          | Some (tss, raw') \<Rightarrow> Some (ts # tss, raw')))"

text \<open>The tokens of the lines at their places in the document, with one for each newline.\<close>

fun assemble :: "nat \<Rightarrow> ustr list \<Rightarrow> token list list \<Rightarrow> token list" where
  "assemble p (l # ls) (ts # tss) = map (shift_token p) ts @
     (if ls = [] then [] else newline_token (p + byte_len l) # assemble (p + byte_len l + 1) ls tss)"
| "assemble p _ _ = []"

lemma from_to_raw: "valid_mode m \<Longrightarrow> from_raw (to_raw m) = m"
  by (rule decode_encode_mode(1))

lemma highlight_lines_agree:
  assumes "wf_dialect d" and "ls \<noteq> []" and "list_all (list_all is_scalar) ls"
    and "valid_mode m" and "from_raw raw = m"
  shows "\<exists>tss m'. highlight_lines u d raw ls = Some (tss, to_raw m') \<and> valid_mode m' \<and>
    tokenize_lines u d m p ls = Some (assemble p ls tss, m')"
  using assms(2-)
proof (induction ls arbitrary: m p raw rule: list_nonempty_induct)
  case (single l)
  obtain ts m' where "tokenize_block u d m l = Some (ts, m')" "valid_mode m'"
    using single by (auto intro: tokenize_block_tiles [OF assms(1), of u m l])
  then show ?case using single by auto
next
  case (cons l ls)
  obtain ts m' where b: "tokenize_block u d m l = Some (ts, m')" "valid_mode m'"
    using cons.prems by (auto intro: tokenize_block_tiles [OF assms(1), of u m l])
  from cons.IH [of m' "to_raw m'" "p + byte_len l + 1"] b(2) cons.prems(1)
  obtain tss m'' where "highlight_lines u d (to_raw m') ls = Some (tss, to_raw m'')" "valid_mode m''"
    "tokenize_lines u d m' (p + byte_len l + 1) ls = Some (assemble (p + byte_len l + 1) ls tss, m'')"
    by (auto simp: from_to_raw)
  then show ?case using b cons by (auto simp: Let_def)
qed

lemma to_raw_initial: "to_raw m = 0 \<longleftrightarrow> is_initial m"
proof (cases m)
  case (QString c)
  have "256 * c + 4 \<noteq> 0" by presburger
  with QString show ?thesis using qstring_raw [of c] by (simp add: to_raw_def is_initial_def)
qed (simp_all add: to_raw_def is_initial_def tag_defs)

lemma split_lines_scalar: "list_all is_scalar s \<Longrightarrow> list_all (list_all is_scalar) (split_lines s)"
  by (induction s) (auto split: list.splits)

text \<open>
  Highlighting a document line by line, each line from the \<^verbatim>\<open>i32\<close> state the line
  before returned, gives exactly the tokens of the whole document: \<^verbatim>\<open>tokenize\<close>'s tokens are
  the lines' tokens at their offsets, except that the last one becomes \<^verbatim>\<open>Error\<close> when the
  state after the last line is not the initial one.
\<close>

theorem line_by_line_agrees:
  assumes "wf_dialect d" and "list_all is_scalar s"
  shows "\<exists>tss raw. highlight_lines u d (-1) (split_lines s) = Some (tss, raw) \<and>
    tokenize u d s = Some (if raw = 0 then assemble 0 (split_lines s) tss
                           else mark_last_error (assemble 0 (split_lines s) tss))"
proof -
  have "from_raw (-1) = Normal" by (simp add: from_raw_def decode_def)
  from highlight_lines_agree [OF assms(1) split_lines_not_Nil split_lines_scalar [OF assms(2)] _ this]
  obtain tss m' where "highlight_lines u d (-1) (split_lines s) = Some (tss, to_raw m')"
    "tokenize_lines u d Normal 0 (split_lines s) = Some (assemble 0 (split_lines s) tss, m')" by fastforce
  then show ?thesis by (auto simp: tokenize_def to_raw_initial)
qed

theorem line_by_line_agrees_witness:
  "\<exists>tss raw. highlight_lines ascii_unicode oracle_dialect (-1) (split_lines [47, 42, 10, 42]) = Some (tss, raw) \<and>
    tokenize ascii_unicode oracle_dialect [47, 42, 10, 42] =
      Some (if raw = 0 then assemble 0 (split_lines [47, 42, 10, 42]) tss
            else mark_last_error (assemble 0 (split_lines [47, 42, 10, 42]) tss))"
  by (rule line_by_line_agrees [OF wf_oracle_dialect]) (simp add: is_scalar_def)

section \<open>Constructs that span lines\<close>

text \<open>The closing delimiter of an open mode does not hold a newline.\<close>

fun newline_free :: "sql_dialect \<Rightarrow> mode \<Rightarrow> bool" where
  "newline_free d BlockComment =
     (case block_comment (comments d) of None \<Rightarrow> True | Some (op, cl) \<Rightarrow> cl \<noteq> [] \<and> 10 \<notin> set cl)"
| "newline_free d (QString c) = (c \<noteq> 10)"
| "newline_free d _ = True"

lemma scan_simple_quoted_skip: "q \<noteq> 10 \<Longrightarrow> scan_simple_quoted q (p, 10 # b) = scan_simple_quoted q (Suc p, b)"
  by (cases b) (simp_all add: len_utf8_def)

lemma scan_simple_quoted_newline:
  assumes "q \<noteq> 10"
  shows "scan_simple_quoted q (p, a @ 10 # b) =
    (case scan_simple_quoted q (p, a) of
       ((p', r), True) \<Rightarrow> ((p', r @ 10 # b), True)
     | ((p', r), False) \<Rightarrow> scan_simple_quoted q (p' + 1, b))"
  using assms
  by (induction q "(p, a)" arbitrary: p a rule: scan_simple_quoted.induct)
    (auto simp: scan_simple_quoted_skip split: prod.splits bool.splits)

lemma scan_q_string_skip: "cl \<noteq> 10 \<Longrightarrow> scan_q_string cl (p, 10 # b) = scan_q_string cl (Suc p, b)"
  by (cases b) (simp_all add: len_utf8_def)

lemma scan_q_string_newline:
  assumes "cl \<noteq> 10"
  shows "scan_q_string cl (p, a @ 10 # b) =
    (case scan_q_string cl (p, a) of
       ((p', r), True) \<Rightarrow> ((p', r @ 10 # b), True)
     | ((p', r), False) \<Rightarrow> scan_q_string cl (p' + 1, b))"
  using assms
  by (induction cl "(p, a)" arbitrary: p a rule: scan_q_string.induct)
    (auto simp: scan_q_string_skip split: prod.splits bool.splits)

lemma starts_with_newline:
  assumes "10 \<notin> set cl"
  shows "starts_with (a @ 10 # b) cl \<longleftrightarrow> starts_with a cl"
  using assms by (induction a cl rule: starts_with.induct) (auto simp: starts_with_iff)

lemma scan_block_comment_newline:
  assumes "cl \<noteq> []" and "10 \<notin> set cl"
  shows "scan_block_comment cl (p, a @ 10 # b) =
    (case scan_block_comment cl (p, a) of
       ((p', r), True) \<Rightarrow> ((p', r @ 10 # b), True)
     | ((p', r), False) \<Rightarrow> scan_block_comment cl (p' + 1, b))"
proof (induction a arbitrary: p)
  case Nil
  have "\<not> starts_with (10 # b) cl" using assms by (cases cl) auto
  then show ?case using assms by (simp add: len_utf8_def)
next
  case (Cons c cs)
  show ?case
  proof (cases "starts_with (c # cs) cl")
    case True
    then obtain r where r: "c # cs = cl @ r" by (rule starts_withE)
    have "starts_with (c # cs @ 10 # b) cl" using True starts_with_newline [OF assms(2), of "c # cs" b] by simp
    moreover have "drop_bytes (byte_len cl) (c # cs @ 10 # b) = r @ 10 # b"
      using r by (metis append_Cons append_assoc drop_bytes_append)
    moreover have "drop_bytes (byte_len cl) (c # cs) = r" unfolding r by simp
    ultimately show ?thesis using True by (simp add: skip_bytes_def del: drop_bytes.simps)
  next
    case False
    then have "\<not> starts_with (c # cs @ 10 # b) cl"
      using starts_with_newline [OF assms(2), of "c # cs" b] by simp
    with False Cons.IH show ?thesis by simp
  qed
qed

text \<open>
  Splitting the text at newlines never changes what a literal, quoted identifier or
  block comment spans.  In a text \<open>a\<close>, newline, \<open>b\<close> read in one piece from inside such a
  construct: if the construct is closed within \<open>a\<close>, it ends at the same place as when \<open>a\<close>
  is read alone; if it is still open at the end of \<open>a\<close>, then \<open>a\<close> was read to its end and
  resuming at \<open>b\<close> in the carried mode ends it at the same place, in the same mode.
\<close>

theorem open_construct_resumes:
  assumes "m \<noteq> Normal" and "newline_free d m"
  shows "case next_token u d m als (p, a) of ((p', r), k, m', _) \<Rightarrow>
    if m' = Normal then next_token u d m als (p, a @ 10 # b) = ((p', r @ 10 # b), k, Normal, False)
    else r = [] \<and> p' = p + byte_len a \<and> m' = m \<and>
         next_token u d m als (p, a @ 10 # b) = next_token u d m False (p' + 1, b)"
proof -
  have q: "r = [] \<and> p' = p + byte_len a" if "scan_simple_quoted q (p, a) = ((p', r), False)" for p p' r q
    using that by (induction q "(p, a)" arbitrary: p a rule: scan_simple_quoted.induct)
      (auto split: if_splits)
  have s: "r = [] \<and> p' = p + byte_len a" if "scan_q_string q (p, a) = ((p', r), False)" for p p' r q
    using that by (induction q "(p, a)" arbitrary: p a rule: scan_q_string.induct) (auto split: if_splits)
  have c: "r = [] \<and> p' = p + byte_len a" if "scan_block_comment q (p, a) = ((p', r), False)" for p p' r q
    using that
  proof (induction a arbitrary: p)
    case (Cons x xs)
    from Cons.prems have "scan_block_comment q (p + len_utf8 x, xs) = ((p', r), False)"
      by (simp split: if_splits)
    from Cons.IH [OF this] show ?case by simp
  qed simp
  show ?thesis
  proof (cases m)
    case BlockComment
    let ?cl = "case block_comment (comments d) of None \<Rightarrow> us ''*/'' | Some (op, cl) \<Rightarrow> cl"
    have cl: "?cl \<noteq> []" "10 \<notin> set ?cl" using assms BlockComment
      by (auto simp: us_def split: option.splits)
    show ?thesis using BlockComment c [of ?cl]
      by (auto simp: scan_block_comment_newline [OF cl] still_open_def Let_def split: prod.splits bool.splits)
  qed (use assms q s in \<open>auto simp: scan_simple_quoted_newline scan_q_string_newline still_open_def
      split: prod.splits bool.splits\<close>)
qed

theorem open_construct_resumes_witness:
  "case next_token ascii_unicode oracle_dialect BlockComment False (0, us ''a'') of ((p', r), k, m', _) \<Rightarrow>
    if m' = Normal then next_token ascii_unicode oracle_dialect BlockComment False (0, us ''a'' @ 10 # us ''*/;'') =
      ((p', r @ 10 # us ''*/;''), k, Normal, False)
    else r = [] \<and> p' = 0 + byte_len (us ''a'') \<and> m' = BlockComment \<and>
      next_token ascii_unicode oracle_dialect BlockComment False (0, us ''a'' @ 10 # us ''*/;'') =
      next_token ascii_unicode oracle_dialect BlockComment False (p' + 1, us ''*/;'')"
  by (rule open_construct_resumes) (simp_all add: oracle_dialect_def us_def)

section \<open>Literals\<close>

text \<open>A string as the literal or quoted identifier that denotes it: quotes are doubled.\<close>

definition quoted :: "uchar \<Rightarrow> ustr \<Rightarrow> ustr" where
  "quoted q s = q # concat (map (\<lambda>c. if c = q then [q, q] else [c]) s) @ [q]"

lemma scan_quoted_body:
  assumes "rest = [] \<or> hd rest \<noteq> q"
  shows "scan_simple_quoted q (p, concat (map (\<lambda>c. if c = q then [q, q] else [c]) s) @ q # rest) =
    ((p + byte_len (concat (map (\<lambda>c. if c = q then [q, q] else [c]) s)) + len_utf8 q, rest), True)"
proof (induction s arbitrary: p)
  case Nil
  then show ?case using assms by (cases rest) auto
next
  case (Cons c s)
  let ?body = "concat (map (\<lambda>c. if c = q then [q, q] else [c]) s)"
  obtain x xs where x: "?body @ q # rest = x # xs" by (cases "?body @ q # rest") auto
  show ?case
  proof (cases "c = q")
    case True
    then show ?thesis using Cons.IH [of "p + len_utf8 q + len_utf8 q"] by (simp add: add_ac)
  next
    case False
    then have "scan_simple_quoted q (p, c # ?body @ q # rest) = scan_simple_quoted q (p + len_utf8 c, ?body @ q # rest)"
      unfolding x by simp
    with False Cons.IH [of "p + len_utf8 c"] show ?thesis by (simp add: add_ac)
  qed
qed

text \<open>
  Every string is lexed as one token when it is written as a literal: for the quote
  \<^verbatim>\<open>'\<close> or \<^verbatim>\<open>"\<close>, the text with each quote doubled and a quote at both ends is one
  string literal or quoted identifier, whatever follows that is not a third quote, and the
  lexer is in its normal mode after it.
\<close>

theorem quoted_text_is_one_token:
  assumes "q = 39 \<or> q = 34" and "rest = [] \<or> hd rest \<noteq> q"
  shows "next_token u oracle_dialect Normal als (p, quoted q s @ rest) =
    ((p + byte_len (quoted q s), rest), if q = 39 then StringLiteral else QuotedIdentifier, Normal, False)"
proof -
  let ?body = "concat (map (\<lambda>c. if c = q then [q, q] else [c]) s)"
  have eq: "quoted q s @ rest = q # ?body @ q # rest" by (simp add: quoted_def)
  have skip: "whitespace_rule als (p, q # r) = None" "line_comment_rule oracle_dialect als (p, q # r) = None"
    "block_comment_rule oracle_dialect als (p, q # r) = None" "comment_word_rule u oracle_dialect als (p, q # r) = None"
    "directive_rule u oracle_dialect als (p, q # r) = None" for r
    using assms(1)
    by (auto simp: whitespace_rule_def line_comment_rule_def block_comment_rule_def comment_word_rule_def
        directive_rule_def peek_is_def is_lexer_whitespace_def is_whitespace_def oracle_dialect_def us_def)
  have "first_rule (normal_rules u oracle_dialect) als (p, q # ?body @ q # rest) =
    Some ((p + byte_len (quoted q s), rest), if q = 39 then StringLiteral else QuotedIdentifier, Normal, False)"
    unfolding normal_rules_def first_rule.simps skip option.case
    using assms(1) scan_quoted_body [OF assms(2), of "p + len_utf8 q" s]
    by (auto simp: double_quote_rule_def single_quote_rule_def quoted_rule_def still_open_def quoted_def add_ac)
  then show ?thesis by (simp only: eq next_token.simps next_token_normal_def option.case)
qed

theorem quoted_text_is_one_token_witness:
  "next_token ascii_unicode oracle_dialect Normal True (0, quoted 39 (us ''it'' @ [39] @ us ''s'') @ us ''; x'') =
    ((0 + byte_len (quoted 39 (us ''it'' @ [39] @ us ''s'')), us ''; x''),
     if (39::uchar) = 39 then StringLiteral else QuotedIdentifier, Normal, False)"
  by (rule quoted_text_is_one_token) (simp_all add: us_def)

lemma scan_q_body:
  assumes "\<not> sublist [cl, 39] body" and "cl \<noteq> 39"
  shows "scan_q_string cl (p, body @ cl # 39 # rest) = ((p + byte_len body + len_utf8 cl + 1, rest), True)"
  using assms(1)
proof (induction body arbitrary: p)
  case Nil
  show ?case by (simp add: len_utf8_def)
next
  case (Cons c body)
  have nsub: "\<not> sublist [cl, 39] body" using Cons.prems by (auto simp: sublist_Cons_right)
  obtain x xs where x: "body @ cl # 39 # rest = x # xs" by (cases "body @ cl # 39 # rest") auto
  have "\<not> (c = cl \<and> x = 39)"
  proof
    assume eq: "c = cl \<and> x = 39"
    with x assms(2) obtain ys where "body = 39 # ys" by (cases body) auto
    with eq Cons.prems show False by (auto simp: sublist_Cons_right)
  qed
  then have "scan_q_string cl (p, c # body @ cl # 39 # rest) = scan_q_string cl (p + len_utf8 c, body @ cl # 39 # rest)"
    unfolding x by auto
  with Cons.IH [OF nsub, of "p + len_utf8 c"] show ?case by (simp add: add_ac)
qed

lemma identifier_len_word:
  assumes "w \<noteq> []" and "list_all (is_alphabetic u) w" and "\<not> is_identifier_char u c"
  shows "leading_identifier_len u (w @ c # r) = byte_len w"
proof -
  have "takeWhile (is_identifier_char u) (w @ c # r) = w"
    using assms(2,3) by (simp add: takeWhile_append list_all_iff is_identifier_char_def is_alphanumeric_def)
  moreover have "leading_identifier_len u (w @ c # r) = byte_len (takeWhile (is_identifier_char u) (w @ c # r))"
    using assms(1,2) by (cases w) auto
  ultimately show ?thesis by simp
qed

text \<open>
  An alternative-quoted literal is one token: after \<^verbatim>\<open>q'\<close> or \<^verbatim>\<open>nq'\<close> in any
  case and a delimiter, a body that does not hold the closing delimiter followed by a quote,
  then that pair, is one string literal and leaves the lexer in its normal mode.  The
  hypotheses on the Unicode tables say that the prefix is alphabetic and the quote is not
  part of a word.
\<close>

theorem alternative_quote_is_one_token:
  assumes "pre \<in> {us ''q'', us ''Q'', us ''nq'', us ''NQ'', us ''Nq'', us ''nQ''}"
    and "list_all (is_alphabetic u) pre" and "\<not> is_alphanumeric u 39"
    and "closing_delimiter dl \<noteq> 39" and "\<not> sublist [closing_delimiter dl, 39] body"
  shows "next_token u oracle_dialect Normal als
      (p, pre @ 39 # dl # body @ closing_delimiter dl # 39 # rest) =
    ((p + byte_len pre + byte_len (39 # dl # body @ [closing_delimiter dl, 39]), rest),
     StringLiteral, Normal, False)"
proof -
  let ?text = "pre @ 39 # dl # body @ closing_delimiter dl # 39 # rest"
  have c: "\<exists>c cs. pre = c # cs \<and> c \<in> {110, 78, 113, 81}" using assms(1) by (auto simp: us_def)
  then have skip: "whitespace_rule als (p, ?text) = None" "line_comment_rule oracle_dialect als (p, ?text) = None"
    "block_comment_rule oracle_dialect als (p, ?text) = None" "comment_word_rule u oracle_dialect als (p, ?text) = None"
    "directive_rule u oracle_dialect als (p, ?text) = None" "double_quote_rule als (p, ?text) = None"
    "single_quote_rule als (p, ?text) = None"
    by (auto simp: whitespace_rule_def line_comment_rule_def block_comment_rule_def comment_word_rule_def
        directive_rule_def double_quote_rule_def single_quote_rule_def quoted_rule_def
        peek_is_def is_lexer_whitespace_def is_whitespace_def oracle_dialect_def us_def)
  have pre: "pre \<noteq> []" "peek_is (is_alphabetic u) (p, ?text)" using assms(1,2) by (auto simp: us_def peek_is_def)
  have ident: "leading_identifier_len u ?text = byte_len pre"
    by (rule identifier_len_word [OF pre(1) assms(2)]) (use assms(3) in \<open>simp add: is_identifier_char_def\<close>)
  have alt: "any_ignore_case (alternative_quote_prefixes (quoting oracle_dialect)) pre"
    using assms(1) by (auto simp: oracle_dialect_def any_ignore_case_def eq_ignore_ascii_case_def us_def
        to_ascii_lowercase_def)
  have "scan_alternative_quote (p + byte_len pre, 39 # dl # body @ closing_delimiter dl # 39 # rest) =
    ((p + byte_len pre + byte_len (39 # dl # body @ [closing_delimiter dl, 39]), rest), StringLiteral, Normal, False)"
    using scan_q_body [OF assms(5,4)] by (simp add: scan_alternative_quote_def Let_def still_open_def len_utf8_def)
  then have "word_rule u oracle_dialect als (p, ?text) =
    Some ((p + byte_len pre + byte_len (39 # dl # body @ [closing_delimiter dl, 39]), rest), StringLiteral, Normal, False)"
    using pre(2) alt by (simp add: word_rule_def Let_def ident skip_bytes_def)
  then show ?thesis
    by (simp only: next_token.simps next_token_normal_def normal_rules_def first_rule.simps skip option.case)
qed

theorem alternative_quote_is_one_token_witness:
  "next_token ascii_unicode oracle_dialect Normal True
      (0, us ''q'' @ 39 # 91 # us ''a]b'' @ closing_delimiter 91 # 39 # us '';'') =
    ((0 + byte_len (us ''q'') + byte_len (39 # 91 # us ''a]b'' @ [closing_delimiter 91, 39]), us '';''),
     StringLiteral, Normal, False)"
  by (rule alternative_quote_is_one_token)
    (simp_all add: us_def ascii_unicode_def is_alphanumeric_def is_ascii_digit_def closing_delimiter_def
      sublist_Cons_right)

end
