(* ===== verification/Sql_Splitter.thy ===== *)
theory Sql_Splitter
  imports Sql_Lexer_Correct
begin

text \<open>
  \<^verbatim>\<open>crates/sql-text/src/splitter.rs\<close>: splitting a script into statements, and the
  statement at a cursor.  The loops over token indices are functions with the number of
  tokens left as their measure.  The counters (\<^verbatim>\<open>i32\<close>, \<^verbatim>\<open>u32\<close>) count tokens or
  characters of the text and are unbounded here.  The result is \<open>None\<close> where the lexer does
  not return or where \<^verbatim>\<open>PositionCursor::advance_to\<close> would be asked to move backwards (its
  slice panics).
\<close>

section \<open>Results\<close>

datatype statement_kind = Plain | Block

datatype ended_by = Terminator | SlashLine | InferredBlockEnd | EndOfInput

record statement_span =
  content_start :: nat
  content_end :: nat
  full_end :: nat
  start_line :: nat
  start_column :: nat
  span_kind :: statement_kind
  span_ended_by :: ended_by
  terminated :: bool

definition content :: "statement_span \<Rightarrow> ustr \<Rightarrow> ustr" where
  "content sp s = slice s (content_start sp) (content_end sp)"

definition full :: "statement_span \<Rightarrow> ustr \<Rightarrow> ustr" where
  "full sp s = slice s (content_start sp) (full_end sp)"

record scan_outcome =
  oc_content_end :: nat
  oc_full_end :: nat
  oc_terminated :: bool
  oc_ended_by :: ended_by
  next_i :: nat
  oc_kind :: statement_kind

section \<open>Looking at tokens\<close>

definition is_word :: "token_kind \<Rightarrow> bool" where
  "is_word k \<longleftrightarrow> k = Keyword \<or> k = Identifier"

definition is_trivial :: "token_kind \<Rightarrow> bool" where
  "is_trivial k \<longleftrightarrow> k = Whitespace \<or> k = Comment"

definition is_trivial_or_directive :: "token_kind \<Rightarrow> bool" where
  "is_trivial_or_directive k \<longleftrightarrow> k = Whitespace \<or> k = Comment \<or> k = Directive"

definition token_text :: "ustr \<Rightarrow> token \<Rightarrow> ustr" where
  "token_text s t = slice s (start t) (tok_end t)"

function skip_trivial :: "token list \<Rightarrow> nat \<Rightarrow> nat" where
  "skip_trivial ts i =
     (if i < length ts \<and> is_trivial (kind (ts ! i)) then skip_trivial ts (i + 1) else i)"
  by pat_completeness auto
termination by (relation "measure (\<lambda>(ts, i). length ts - i)") auto

declare skip_trivial.simps [simp del]

definition is_terminator :: "ustr \<Rightarrow> sql_dialect \<Rightarrow> token \<Rightarrow> bool" where
  "is_terminator s d t \<longleftrightarrow> kind t = Operator \<and>
     (case token_text s t of [] \<Rightarrow> False
      | c # _ \<Rightarrow> token_len t = len_utf8 c \<and> c \<in> set (statement_terminators d))"

definition is_operator_text :: "ustr \<Rightarrow> ustr \<Rightarrow> token \<Rightarrow> bool" where
  "is_operator_text s w t \<longleftrightarrow> kind t = Operator \<and> token_text s t = w"

lemma skip_trivial_ge: "i \<le> skip_trivial ts i"
proof (induction ts i rule: skip_trivial.induct)
  case (1 ts i)
  then show ?case by (subst skip_trivial.simps) auto
qed

text \<open>One \<^verbatim>\<open><<label>>\<close>: the index after it, if there is one at \<open>i\<close>.\<close>

definition skip_label :: "token list \<Rightarrow> ustr \<Rightarrow> ustr \<Rightarrow> ustr \<Rightarrow> nat \<Rightarrow> nat option" where
  "skip_label ts s op cl i =
     (let probe = skip_trivial ts i in
      if probe < length ts \<and> is_operator_text s op (ts ! probe) then
        let j0 = skip_trivial ts (probe + 1);
            j = (if j0 < length ts \<and> is_word (kind (ts ! j0)) then skip_trivial ts (j0 + 1) else j0)
        in if j < length ts \<and> is_operator_text s cl (ts ! j) then Some (j + 1) else None
      else None)"

lemma skip_label_gt:
  assumes "skip_label ts s op cl i = Some j"
  shows "i < j" and "i < length ts"
proof -
  let ?p = "skip_trivial ts i"
  let ?j0 = "skip_trivial ts (?p + 1)"
  from assms have "?p < length ts" and "?j0 < j \<or> skip_trivial ts (?j0 + 1) < j"
    by (auto simp: skip_label_def Let_def split: if_splits)
  moreover have "i \<le> ?p" "?p + 1 \<le> ?j0" "?j0 + 1 \<le> skip_trivial ts (?j0 + 1)"
    by (simp_all only: skip_trivial_ge)
  ultimately show "i < j" and "i < length ts" by linarith+
qed

function skip_labels_loop :: "token list \<Rightarrow> ustr \<Rightarrow> ustr \<Rightarrow> ustr \<Rightarrow> nat \<Rightarrow> nat" where
  "skip_labels_loop ts s op cl i =
     (case skip_label ts s op cl i of None \<Rightarrow> i | Some j \<Rightarrow> skip_labels_loop ts s op cl j)"
  by pat_completeness auto
termination
  by (relation "measure (\<lambda>(ts, s, op, cl, i). length ts - i)") (auto dest: skip_label_gt intro: diff_less_mono2)

declare skip_labels_loop.simps [simp del]

definition skip_labels :: "token list \<Rightarrow> ustr \<Rightarrow> nat \<Rightarrow> sql_dialect \<Rightarrow> nat" where
  "skip_labels ts s i d =
     (case label_delimiters d of None \<Rightarrow> i | Some (op, cl) \<Rightarrow> skip_labels_loop ts s op cl i)"

definition MAX_LEADING_WORDS :: nat where "MAX_LEADING_WORDS = 12"

function collect_words :: "token list \<Rightarrow> ustr \<Rightarrow> nat \<Rightarrow> nat \<Rightarrow> (ustr \<times> nat) list" where
  "collect_words ts s n i =
     (if n < MAX_LEADING_WORDS \<and> i < length ts then
        if is_word (kind (ts ! i)) then (token_text s (ts ! i), i + 1) # collect_words ts s (n + 1) (i + 1)
        else if is_trivial_or_directive (kind (ts ! i)) then collect_words ts s n (i + 1)
        else []
      else [])"
  by pat_completeness auto
termination by (relation "measure (\<lambda>(ts, s, n, i). length ts - i)") auto

declare collect_words.simps [simp del]

definition collect_leading_words :: "token list \<Rightarrow> ustr \<Rightarrow> nat \<Rightarrow> (ustr \<times> nat) list" where
  "collect_leading_words ts s i = collect_words ts s 0 i"

fun match_phrase :: "phrase list \<Rightarrow> (ustr \<times> nat) list \<Rightarrow> nat option" where
  "match_phrase [] ws = None"
| "match_phrase (phrase # phrases) ws =
     (if length phrase \<le> length ws \<and> list_all (\<lambda>(p, w, _). eq_ignore_ascii_case p w) (zip phrase ws)
      then Some (length phrase) else match_phrase phrases ws)"

fun match_slots :: "keyword_slot list \<Rightarrow> (ustr \<times> nat) list \<Rightarrow> nat \<Rightarrow> nat option" where
  "match_slots [] ws idx = Some idx"
| "match_slots (Required options # sl) ws idx =
     (case match_phrase options (drop idx ws) of None \<Rightarrow> None | Some n \<Rightarrow> match_slots sl ws (idx + n))"
| "match_slots (Optional options # sl) ws idx =
     (case match_phrase options (drop idx ws) of None \<Rightarrow> match_slots sl ws idx
      | Some n \<Rightarrow> match_slots sl ws (idx + n))"

definition matches_block_starter :: "block_starter \<Rightarrow> (ustr \<times> nat) list \<Rightarrow> nat \<Rightarrow> nat option" where
  "matches_block_starter starter ws start_index =
     (case match_slots (slots starter) ws 0 of None \<Rightarrow> None
      | Some idx \<Rightarrow> Some (if idx = 0 then start_index else snd (ws ! (idx - 1))))"

definition word_at :: "token list \<Rightarrow> ustr \<Rightarrow> nat \<Rightarrow> ustr \<Rightarrow> bool" where
  "word_at ts s i expected \<longleftrightarrow> i < length ts \<and> is_word (kind (ts ! i)) \<and>
     eq_ignore_ascii_case expected (token_text s (ts ! i))"

text \<open>The words of the phrase after the first one follow trivia; the first one does not.\<close>

fun peek_phrase_rest :: "token list \<Rightarrow> ustr \<Rightarrow> nat \<Rightarrow> phrase \<Rightarrow> bool" where
  "peek_phrase_rest ts s i [] = True"
| "peek_phrase_rest ts s i (w # ws) =
     (let j = skip_trivial ts i in word_at ts s j w \<and> peek_phrase_rest ts s (j + 1) ws)"

fun peek_phrase_matches :: "token list \<Rightarrow> ustr \<Rightarrow> nat \<Rightarrow> phrase \<Rightarrow> bool" where
  "peek_phrase_matches ts s i [] = True"
| "peek_phrase_matches ts s i (w # ws) = (word_at ts s i w \<and> peek_phrase_rest ts s (i + 1) ws)"

text \<open>
  Going backwards over trivia from \<open>idx\<close>: the index of the first token that is not trivial.
  The \<^verbatim>\<open>cursor\<close> of the source is \<open>None\<close> once index 0 has been passed.
\<close>

fun back_over_trivia :: "token list \<Rightarrow> nat \<Rightarrow> nat option" where
  "back_over_trivia ts 0 = (if 0 < length ts \<and> is_trivial (kind (ts ! 0)) then None else Some 0)"
| "back_over_trivia ts (Suc i) =
     (if Suc i < length ts \<and> is_trivial (kind (ts ! Suc i)) then back_over_trivia ts i else Some (Suc i))"

fun ends_with_rev :: "token list \<Rightarrow> ustr \<Rightarrow> nat option \<Rightarrow> phrase \<Rightarrow> bool" where
  "ends_with_rev ts s cursor [] = True"
| "ends_with_rev ts s None (w # ws) = False"
| "ends_with_rev ts s (Some idx) (w # ws) =
     (case back_over_trivia ts idx of None \<Rightarrow> False
      | Some j \<Rightarrow> word_at ts s j w \<and> ends_with_rev ts s (if j = 0 then None else Some (j - 1)) ws)"

definition ends_with_phrase :: "token list \<Rightarrow> ustr \<Rightarrow> nat \<Rightarrow> phrase \<Rightarrow> bool" where
  "ends_with_phrase ts s i phrase \<longleftrightarrow> ends_with_rev ts s (Some i) (rev phrase)"

section \<open>Ends of statements\<close>

definition ran_to_eof :: "token list \<Rightarrow> ustr \<Rightarrow> statement_kind \<Rightarrow> scan_outcome" where
  "ran_to_eof ts s k =
     (let e = (if ts = [] then byte_len s else tok_end (last ts)) in
      \<lparr>oc_content_end = e, oc_full_end = e, oc_terminated = False, oc_ended_by = EndOfInput,
       next_i = length ts, oc_kind = k\<rparr>)"

definition is_lone_slash_line :: "ustr \<Rightarrow> token \<Rightarrow> bool" where
  "is_lone_slash_line s t \<longleftrightarrow> token_text s t = [47] \<and>
     (let line_start = (case rfind_char 10 (take_bytes (start t) s) of None \<Rightarrow> 0 | Some p \<Rightarrow> p + 1);
          line_end = (case find_char 10 (drop_bytes (tok_end t) s) of None \<Rightarrow> byte_len s
                      | Some p \<Rightarrow> tok_end t + p)
      in trim (slice s line_start (start t)) = [] \<and> trim (slice s (tok_end t) line_end) = [])"

definition slash_line_token :: "ustr \<Rightarrow> token \<Rightarrow> bool" where
  "slash_line_token s t \<longleftrightarrow> kind t = Operator \<and> is_lone_slash_line s t"

definition trailing_line_end :: "ustr \<Rightarrow> nat \<Rightarrow> nat" where
  "trailing_line_end s from =
     (case find_char 10 (drop_bytes from s) of Some p \<Rightarrow> from + p + 1 | None \<Rightarrow> byte_len s)"

definition end_at_slash_line :: "ustr \<Rightarrow> token \<Rightarrow> statement_kind \<Rightarrow> nat \<Rightarrow> nat \<Rightarrow> scan_outcome" where
  "end_at_slash_line s slash k ni cs =
     \<lparr>oc_content_end = max (byte_len (trim_end (take_bytes (start slash) s))) cs,
      oc_full_end = trailing_line_end s (tok_end slash), oc_terminated = True,
      oc_ended_by = SlashLine, next_i = ni, oc_kind = k\<rparr>"

function find_slash :: "token list \<Rightarrow> ustr \<Rightarrow> nat \<Rightarrow> nat option" where
  "find_slash ts s k =
     (if k < length ts then
        if is_trivial_or_directive (kind (ts ! k)) then find_slash ts s (k + 1)
        else if slash_line_token s (ts ! k) then Some k else None
      else None)"
  by pat_completeness auto
termination by (relation "measure (\<lambda>(ts, s, k). length ts - k)") auto

declare find_slash.simps [simp del]

definition finish_with_maybe_slash ::
    "token list \<Rightarrow> ustr \<Rightarrow> sql_dialect \<Rightarrow> nat \<Rightarrow> nat \<Rightarrow> nat \<Rightarrow> statement_kind \<Rightarrow> scan_outcome" where
  "finish_with_maybe_slash ts s d ce semi_end ni k =
     (case (if slash_terminates_block d then find_slash ts s ni else None) of
        Some j \<Rightarrow> \<lparr>oc_content_end = ce, oc_full_end = trailing_line_end s (tok_end (ts ! j)),
          oc_terminated = True, oc_ended_by = SlashLine, next_i = j + 1, oc_kind = k\<rparr>
      | None \<Rightarrow> \<lparr>oc_content_end = ce, oc_full_end = semi_end, oc_terminated = block_may_end_without_slash d,
          oc_ended_by = InferredBlockEnd, next_i = ni, oc_kind = k\<rparr>)"

section \<open>Scans\<close>

function scan_plain :: "token list \<Rightarrow> ustr \<Rightarrow> nat \<Rightarrow> sql_dialect \<Rightarrow> nat \<Rightarrow> scan_outcome" where
  "scan_plain ts s i d cs =
     (if i < length ts then
        let t = ts ! i in
        if slash_terminates_plain d \<and> slash_line_token s t then end_at_slash_line s t Plain (i + 1) cs
        else if is_terminator s d t then
          \<lparr>oc_content_end = start t, oc_full_end = tok_end t, oc_terminated = True,
           oc_ended_by = Terminator, next_i = i + 1, oc_kind = Plain\<rparr>
        else scan_plain ts s (i + 1) d cs
      else ran_to_eof ts s Plain)"
  by pat_completeness auto
termination by (relation "measure (\<lambda>(ts, s, i, d, cs). length ts - i)") auto

function scan_opaque_source :: "token list \<Rightarrow> ustr \<Rightarrow> nat \<Rightarrow> sql_dialect \<Rightarrow> nat \<Rightarrow> scan_outcome" where
  "scan_opaque_source ts s i d cs =
     (if i < length ts then
        let t = ts ! i in
        if slash_line_token s t then end_at_slash_line s t Block (i + 1) cs
        else scan_opaque_source ts s (i + 1) d cs
      else ran_to_eof ts s Block)"
  by pat_completeness auto
termination by (relation "measure (\<lambda>(ts, s, i, d, cs). length ts - i)") auto

text \<open>How a token changes the depth of parentheses: \<^verbatim>\<open>(\<close> is 40, \<^verbatim>\<open>)\<close> is 41.\<close>

definition paren_step :: "ustr \<Rightarrow> token \<Rightarrow> int" where
  "paren_step s t =
     (if is_operator_text s [40] t then 1 else if is_operator_text s [41] t then -1 else 0)"

function scan_paren_delimited ::
    "token list \<Rightarrow> ustr \<Rightarrow> nat \<Rightarrow> sql_dialect \<Rightarrow> nat \<Rightarrow> int \<Rightarrow> scan_outcome" where
  "scan_paren_delimited ts s i d cs depth =
     (if i < length ts then
        let t = ts ! i in
        if slash_terminates_block d \<and> slash_line_token s t then end_at_slash_line s t Block (i + 1) cs
        else if paren_step s t \<noteq> 0 then scan_paren_delimited ts s (i + 1) d cs (depth + paren_step s t)
        else if depth \<le> 0 \<and> is_terminator s d t then
          finish_with_maybe_slash ts s d (start t) (tok_end t) (i + 1) Block
        else scan_paren_delimited ts s (i + 1) d cs depth
      else ran_to_eof ts s Block)"
  by pat_completeness auto
termination by (relation "measure (\<lambda>(ts, s, i, d, cs, depth). length ts - i)") auto

function scan_to_terminator :: "token list \<Rightarrow> ustr \<Rightarrow> nat \<Rightarrow> sql_dialect \<Rightarrow> nat \<Rightarrow> scan_outcome" where
  "scan_to_terminator ts s i d cs =
     (if i < length ts then
        let t = ts ! i in
        if slash_terminates_block d \<and> slash_line_token s t then end_at_slash_line s t Block (i + 1) cs
        else if is_terminator s d t then
          finish_with_maybe_slash ts s d (start t) (tok_end t) (i + 1) Block
        else scan_to_terminator ts s (i + 1) d cs
      else ran_to_eof ts s Block)"
  by pat_completeness auto
termination by (relation "measure (\<lambda>(ts, s, i, d, cs). length ts - i)") auto

declare scan_plain.simps [simp del] scan_opaque_source.simps [simp del]
  scan_paren_delimited.simps [simp del] scan_to_terminator.simps [simp del]

subsection \<open>Headers of subprograms\<close>

definition is_body_intro :: "token list \<Rightarrow> ustr \<Rightarrow> nat \<Rightarrow> sql_dialect \<Rightarrow> bool" where
  "is_body_intro ts s i d \<longleftrightarrow> any_ignore_case (body_intro_keywords d) (token_text s (ts ! i)) \<and>
     \<not> list_ex (ends_with_phrase ts s i) (body_intro_exceptions d)"

definition is_call_spec :: "token list \<Rightarrow> ustr \<Rightarrow> nat \<Rightarrow> sql_dialect \<Rightarrow> bool" where
  "is_call_spec ts s after d \<longleftrightarrow> list_ex (peek_phrase_matches ts s after) (call_spec_phrases d)"

text \<open>The index after the next terminator, or the number of tokens.\<close>

function after_terminator :: "token list \<Rightarrow> ustr \<Rightarrow> nat \<Rightarrow> sql_dialect \<Rightarrow> nat" where
  "after_terminator ts s j d =
     (if j < length ts then if is_terminator s d (ts ! j) then j + 1 else after_terminator ts s (j + 1) d
      else length ts)"
  by pat_completeness auto
termination by (relation "measure (\<lambda>(ts, s, j, d). length ts - j)") auto

declare after_terminator.simps [simp del]

function scan_header :: "token list \<Rightarrow> ustr \<Rightarrow> nat \<Rightarrow> sql_dialect \<Rightarrow> int \<Rightarrow> nat \<times> bool" where
  "scan_header ts s i d depth =
     (if i < length ts then
        let t = ts ! i in
        if kind t = Operator then
          if paren_step s t \<noteq> 0 then scan_header ts s (i + 1) d (depth + paren_step s t)
          else if depth \<le> 0 \<and> is_terminator s d t then (i + 1, False)
          else scan_header ts s (i + 1) d depth
        else if depth \<le> 0 \<and> is_word (kind t) \<and> is_body_intro ts s i d then
          let after = skip_trivial ts (i + 1) in
          if is_call_spec ts s after d then (after_terminator ts s after d, False)
          else (i + 1, True)
        else scan_header ts s (i + 1) d depth
      else (length ts, False))"
  by pat_completeness auto
termination by (relation "measure (\<lambda>(ts, s, i, d, depth). length ts - i)") auto

declare scan_header.simps [simp del]

subsection \<open>The end of a structured block\<close>

function skip_end_qualifier :: "token list \<Rightarrow> ustr \<Rightarrow> nat \<Rightarrow> sql_dialect \<Rightarrow> nat" where
  "skip_end_qualifier ts s i d =
     (let j = skip_trivial ts i in
      if j < length ts then
        if is_terminator s d (ts ! j) then j + 1
        else if is_word (kind (ts ! j)) then skip_end_qualifier ts s (j + 1) d
        else j
      else j)"
  by pat_completeness auto
termination
proof (relation "measure (\<lambda>(ts, s, i, d). length ts - i)")
  fix ts s i d and j :: nat
  assume "j = skip_trivial ts i" "j < length ts"
  with skip_trivial_ge [of i ts] show "((ts, s, j + 1, d), ts, s, i, d) \<in> measure (\<lambda>(ts, s, i, d). length ts - i)"
    by auto
qed simp

declare skip_end_qualifier.simps [simp del]

function skip_words :: "token list \<Rightarrow> nat \<Rightarrow> nat" where
  "skip_words ts j =
     (if j < length ts \<and> is_word (kind (ts ! j)) then skip_words ts (skip_trivial ts (j + 1)) else j)"
  by pat_completeness auto
termination
proof (relation "measure (\<lambda>(ts, j). length ts - j)")
  fix ts :: "token list" and j
  assume "j < length ts \<and> is_word (kind (ts ! j))"
  with skip_trivial_ge [of "j + 1" ts]
  show "((ts, skip_trivial ts (j + 1)), ts, j) \<in> measure (\<lambda>(ts, j). length ts - j)" by auto
qed simp

declare skip_words.simps [simp del]

definition finish_structured :: "token list \<Rightarrow> ustr \<Rightarrow> nat \<Rightarrow> sql_dialect \<Rightarrow> scan_outcome" where
  "finish_structured ts s end_index d =
     (let j = skip_words ts (skip_trivial ts (end_index + 1)) in
      if j < length ts \<and> is_terminator s d (ts ! j)
      then finish_with_maybe_slash ts s d (start (ts ! j)) (tok_end (ts ! j)) (j + 1) Block
      else ran_to_eof ts s Block)"

subsection \<open>Structured blocks\<close>

text \<open>The local variables of \<^verbatim>\<open>scan_structured\<close>.\<close>

record block_state =
  depth :: int
  pending_bodies :: nat
  absorbed_body :: bool
  is_compound :: bool
  paren_depth :: int

text \<open>The frame still waits for its own body.\<close>

definition awaiting_body :: "block_state \<Rightarrow> bool" where
  "awaiting_body st \<longleftrightarrow> depth st = 0 \<and> pending_bodies st = 0 \<and> \<not> absorbed_body st"

definition is_header_word :: "sql_dialect \<Rightarrow> block_state \<Rightarrow> ustr \<Rightarrow> bool" where
  "is_header_word d st w \<longleftrightarrow> any_ignore_case (subprogram_header_keywords d) w \<or>
     is_compound st \<and> any_ignore_case (section_header_starters d) w"

definition mark_compound :: "token list \<Rightarrow> ustr \<Rightarrow> nat \<Rightarrow> sql_dialect \<Rightarrow> block_state \<Rightarrow> block_state" where
  "mark_compound ts s i d st =
     (case sectioned_body_marker d of None \<Rightarrow> st
      | Some marker \<Rightarrow>
          if \<not> is_compound st \<and> peek_phrase_matches ts s i marker then st\<lparr>is_compound := True\<rparr> else st)"

definition open_body :: "block_state \<Rightarrow> block_state" where
  "open_body st =
     (if pending_bodies st > 0 \<and> depth st = 0
      then st\<lparr>pending_bodies := pending_bodies st - 1, depth := depth st + 1\<rparr>
      else if depth st = 0 \<and> \<not> absorbed_body st then st\<lparr>absorbed_body := True\<rparr>
      else st\<lparr>depth := depth st + 1\<rparr>)"

definition open_nesting :: "sql_dialect \<Rightarrow> ustr \<Rightarrow> block_state \<Rightarrow> block_state" where
  "open_nesting d w st =
     (if eq_ignore_ascii_case w (block_body_opener d) then open_body st
      else if any_ignore_case (block_nesting_openers d) w then st\<lparr>depth := depth st + 1\<rparr>
      else st)"

lemma skip_trivial_le: "i \<le> length ts \<Longrightarrow> skip_trivial ts i \<le> length ts"
proof (induction ts i rule: skip_trivial.induct)
  case (1 ts i)
  then show ?case by (subst skip_trivial.simps) auto
qed

lemma after_terminator_ge: "j \<le> length ts \<Longrightarrow> j \<le> after_terminator ts s j d"
proof (induction j rule: index_induct [of "length ts"])
  case (past j)
  then show ?case by (subst after_terminator.simps) simp
next
  case (step j)
  then have "j + 1 \<le> after_terminator ts s (j + 1) d" by simp
  with step(1) show ?case by (subst after_terminator.simps) simp
qed

lemma scan_header_ge: "i \<le> length ts \<Longrightarrow> i \<le> fst (scan_header ts s i d dp)"
proof (induction i arbitrary: dp rule: index_induct [of "length ts"])
  case (past i)
  then show ?case by (subst scan_header.simps) simp
next
  case (step i)
  have IH: "i \<le> fst (scan_header ts s (i + 1) d dp)" for dp
    using step(1) step(2) [of "i + 1" dp] by simp
  have "i \<le> after_terminator ts s (skip_trivial ts (i + 1)) d"
    using after_terminator_ge [of "skip_trivial ts (i + 1)" ts s d] skip_trivial_ge [of "i + 1" ts]
      skip_trivial_le [of "i + 1" ts] step(1) by linarith
  with step(1) IH show ?case by (subst scan_header.simps) (simp add: Let_def)
qed

lemma skip_end_qualifier_ge: "i \<le> skip_end_qualifier ts s i d"
proof (induction ts s i d rule: skip_end_qualifier.induct)
  case (1 ts s i d)
  then show ?case using skip_trivial_ge [of i ts]
    by (subst skip_end_qualifier.simps) (fastforce simp: Let_def)
qed

function scan_structured_loop ::
    "token list \<Rightarrow> ustr \<Rightarrow> nat \<Rightarrow> sql_dialect \<Rightarrow> nat \<Rightarrow> block_state \<Rightarrow> scan_outcome" where
  "scan_structured_loop ts s i d cs st0 =
     (if i < length ts then
        let t = ts ! i; w = token_text s t in
        if slash_terminates_block d \<and> slash_line_token s t then end_at_slash_line s t Block (i + 1) cs
        else if kind t = Operator then
          scan_structured_loop ts s (i + 1) d cs (st0\<lparr>paren_depth := paren_depth st0 + paren_step s t\<rparr>)
        else if \<not> is_word (kind t) \<or> paren_depth st0 > 0 then scan_structured_loop ts s (i + 1) d cs st0
        else
          let st = mark_compound ts s i d st0; after = skip_trivial ts (i + 1) in
          if awaiting_body st \<and> any_ignore_case (body_less_markers d) w
          then scan_to_terminator ts s (i + 1) d cs
          else if awaiting_body st \<and> is_body_intro ts s i d \<and> is_call_spec ts s after d
          then scan_to_terminator ts s after d cs
          else if is_header_word d st w then
            let (resume, owes_body) = scan_header ts s (i + 1) d 0 in
            scan_structured_loop ts s resume d cs
              (if owes_body then st\<lparr>pending_bodies := pending_bodies st + 1\<rparr> else st)
          else if eq_ignore_ascii_case w (block_end_keyword d) then
            if depth st = 0 then finish_structured ts s i d
            else scan_structured_loop ts s (skip_end_qualifier ts s (i + 1) d) d cs (st\<lparr>depth := depth st - 1\<rparr>)
          else scan_structured_loop ts s (i + 1) d cs (open_nesting d w st)
      else ran_to_eof ts s Block)"
  by pat_completeness auto
termination
proof (relation "measure (\<lambda>(ts, s, i, d, cs, st). length ts - i)", goal_cases)
  case (4 ts s i d cs st0 t w st after x resume owes_body)
  then show ?case using scan_header_ge [of "i + 1" ts s d 0] by (auto simp: prod_eq_iff)
next
  case (5 ts s i d cs st0 t w st after)
  then show ?case using skip_end_qualifier_ge [of "i + 1" ts s d] by simp
qed auto

declare scan_structured_loop.simps [simp del]

definition scan_structured ::
    "token list \<Rightarrow> ustr \<Rightarrow> nat \<Rightarrow> sql_dialect \<Rightarrow> block_starter \<Rightarrow> nat \<Rightarrow> scan_outcome" where
  "scan_structured ts s i d starter cs =
     scan_structured_loop ts s i d cs
       \<lparr>depth = 0, pending_bodies = 0, absorbed_body = opens_body starter, is_compound = False, paren_depth = 0\<rparr>"

subsection \<open>One statement\<close>

fun find_starter :: "block_starter list \<Rightarrow> (ustr \<times> nat) list \<Rightarrow> nat \<Rightarrow> (block_starter \<times> nat) option" where
  "find_starter [] ws i = None"
| "find_starter (b # bs) ws i =
     (case matches_block_starter b ws i of None \<Rightarrow> find_starter bs ws i | Some resume \<Rightarrow> Some (b, resume))"

text \<open>The starter of the statement whose first token is \<open>i\<close>, and where its body is scanned from.\<close>

definition starter_at :: "token list \<Rightarrow> ustr \<Rightarrow> sql_dialect \<Rightarrow> nat \<Rightarrow> (block_starter \<times> nat) option" where
  "starter_at ts s d i =
     (let label_skipped = skip_labels ts s i d
      in find_starter (block_starters d) (collect_leading_words ts s label_skipped) label_skipped)"

definition scan_statement :: "token list \<Rightarrow> ustr \<Rightarrow> sql_dialect \<Rightarrow> nat \<Rightarrow> nat \<Rightarrow> scan_outcome" where
  "scan_statement ts s d i cs =
     (case starter_at ts s d i of
        Some (b, resume) \<Rightarrow>
          (case starter_kind b of
             Structured \<Rightarrow> scan_structured ts s resume d b cs
           | OpaqueSource \<Rightarrow> scan_opaque_source ts s resume d cs
           | ParenDelimited \<Rightarrow> scan_paren_delimited ts s resume d cs 0)
      | None \<Rightarrow> scan_plain ts s i d cs)"

record position_cursor =
  pos :: nat
  line :: nat
  column :: nat

definition position_new :: position_cursor where
  "position_new = \<lparr>pos = 0, line = 1, column = 1\<rparr>"

fun advance_chars :: "ustr \<Rightarrow> nat \<times> nat \<Rightarrow> nat \<times> nat" where
  "advance_chars [] lc = lc"
| "advance_chars (c # cs) (l, col) = advance_chars cs (if c = 10 then (l + 1, 1) else (l, col + 1))"

definition advance_to :: "ustr \<Rightarrow> position_cursor \<Rightarrow> nat \<Rightarrow> position_cursor option" where
  "advance_to s cur target =
     (if target < pos cur then None
      else let (l, col) = advance_chars (slice s (pos cur) target) (line cur, column cur)
           in Some \<lparr>pos = target, line = l, column = col\<rparr>)"

section \<open>Every scan moves forward\<close>

lemma collect_words_index: "(w, k) \<in> set (collect_words ts s n i) \<Longrightarrow> i < k"
proof (induction i arbitrary: n rule: index_induct [of "length ts"])
  case (past i)
  then show ?case by (simp add: collect_words.simps)
next
  case (step i)
  have IH: "i < k" if "(w, k) \<in> set (collect_words ts s m (i + 1))" for m
    using step(2) [of "i + 1" m] that by simp
  from step.prems step(1) show ?case unfolding collect_words.simps [of ts s n i] by (auto split: if_splits dest: IH [simplified])
qed

lemma match_phrase_le: "match_phrase ps ws = Some n \<Longrightarrow> n \<le> length ws"
  by (induction ps) (auto split: if_splits)

lemma match_slots_le: "match_slots sl ws idx = Some n \<Longrightarrow> idx \<le> length ws \<Longrightarrow> n \<le> length ws"
  by (induction sl ws idx rule: match_slots.induct) (auto dest!: match_phrase_le split: option.splits)

lemma skip_labels_ge: "i \<le> skip_labels ts s i d"
proof -
  have "i \<le> skip_labels_loop ts s op cl i" for op cl
  proof (induction i rule: index_induct [of "length ts"])
    case (past i)
    then have "skip_label ts s op cl i = None" by (metis skip_label_gt(2) not_less option.exhaust)
    then show ?case by (simp add: skip_labels_loop.simps)
  next
    case (step i)
    show ?case
    proof (cases "skip_label ts s op cl i")
      case None
      then show ?thesis by (simp add: skip_labels_loop.simps)
    next
      case (Some j)
      with step(2) [OF skip_label_gt(1) [OF Some]] skip_label_gt(1) [OF Some] show ?thesis
        by (simp add: skip_labels_loop.simps [of _ _ _ _ i])
    qed
  qed
  then show ?thesis by (auto simp: skip_labels_def split: option.splits)
qed

lemma matches_block_starter_ge:
  assumes "matches_block_starter b (collect_leading_words ts s k) k = Some resume"
  shows "k \<le> resume"
proof -
  let ?ws = "collect_leading_words ts s k"
  from assms obtain idx where idx: "match_slots (slots b) ?ws 0 = Some idx"
    and r: "resume = (if idx = 0 then k else snd (?ws ! (idx - 1)))"
    by (auto simp: matches_block_starter_def split: option.splits)
  from match_slots_le [OF idx] have "idx \<noteq> 0 \<Longrightarrow> ?ws ! (idx - 1) \<in> set ?ws" by simp
  then show ?thesis using r collect_words_index unfolding collect_leading_words_def
    by (metis less_imp_le order_refl surjective_pairing)
qed

lemma starter_at_ge: "starter_at ts s d i = Some (b, resume) \<Longrightarrow> i \<le> resume"
proof -
  assume a: "starter_at ts s d i = Some (b, resume)"
  let ?k = "skip_labels ts s i d"
  have "find_starter bs (collect_leading_words ts s ?k) ?k = Some (b, resume) \<Longrightarrow> ?k \<le> resume" for bs
    by (induction bs) (auto split: option.splits dest: matches_block_starter_ge)
  from this [of "block_starters d"] a have "?k \<le> resume" by (simp add: starter_at_def Let_def)
  with skip_labels_ge [of i ts s d] show ?thesis by (rule le_trans)
qed

lemma find_slash_ge: "find_slash ts s k = Some j \<Longrightarrow> k \<le> j \<and> j < length ts \<and> slash_line_token s (ts ! j)"
proof (induction k rule: index_induct [of "length ts"])
  case (past k)
  then show ?case by (simp add: find_slash.simps)
next
  case (step k)
  show ?case
  proof (cases "is_trivial_or_directive (kind (ts ! k))")
    case True
    with step.prems step(1) have "find_slash ts s (k + 1) = Some j" by (subst (asm) find_slash.simps) simp
    with step(2) [of "k + 1"] show ?thesis by simp
  next
    case False
    with step.prems step(1) show ?thesis by (subst (asm) find_slash.simps) (auto split: if_splits)
  qed
qed

lemma ran_to_eof_next [simp]: "next_i (ran_to_eof ts s k) = length ts"
  by (simp add: ran_to_eof_def Let_def)

lemma end_at_slash_line_next [simp]: "next_i (end_at_slash_line s t k n cs) = n"
  by (simp add: end_at_slash_line_def)

lemma finish_with_maybe_slash_next: "n \<le> next_i (finish_with_maybe_slash ts s d ce se n k)"
  by (auto simp: finish_with_maybe_slash_def split: option.splits dest: find_slash_ge)

text \<open>
  The four ways a scan that started at token \<open>j\<close> can end: at the end of the text, at a lone
  slash line, at the terminator of a plain statement, and at the terminator of a block (with
  the slash line that may follow it).
\<close>

inductive ends_from :: "token list \<Rightarrow> ustr \<Rightarrow> sql_dialect \<Rightarrow> nat \<Rightarrow> nat \<Rightarrow> scan_outcome \<Rightarrow> bool"
  for ts s d j cs where
  ends_eof: "ends_from ts s d j cs (ran_to_eof ts s k)"
| ends_slash: "j \<le> i \<Longrightarrow> i < length ts \<Longrightarrow> slash_line_token s (ts ! i) \<Longrightarrow>
    ends_from ts s d j cs (end_at_slash_line s (ts ! i) k (i + 1) cs)"
| ends_plain: "j \<le> i \<Longrightarrow> i < length ts \<Longrightarrow> is_terminator s d (ts ! i) \<Longrightarrow>
    ends_from ts s d j cs \<lparr>oc_content_end = start (ts ! i), oc_full_end = tok_end (ts ! i),
      oc_terminated = True, oc_ended_by = Terminator, next_i = i + 1, oc_kind = Plain\<rparr>"
| ends_block: "j \<le> i \<Longrightarrow> i < length ts \<Longrightarrow> is_terminator s d (ts ! i) \<Longrightarrow>
    ends_from ts s d j cs (finish_with_maybe_slash ts s d (start (ts ! i)) (tok_end (ts ! i)) (i + 1) Block)"

lemma ends_from_next:
  assumes "ends_from ts s d j cs oc" and "j < length ts"
  shows "j < next_i oc"
  using assms
proof cases
  case (ends_block i)
  with finish_with_maybe_slash_next [of "i + 1" ts s d "start (ts ! i)" "tok_end (ts ! i)" Block]
  show ?thesis by simp
qed simp_all

lemmas ends_here = ends_eof ends_slash [simplified] ends_plain [simplified] ends_block [simplified]

lemma scan_plain_ends: "j \<le> i \<Longrightarrow> ends_from ts s d j cs (scan_plain ts s i d cs)"
proof (induction i rule: index_induct [of "length ts"])
  case (past i)
  then show ?case by (subst scan_plain.simps) (simp add: ends_here)
next
  case (step i)
  then show ?case by (subst scan_plain.simps) (simp add: Let_def ends_here)
qed

lemma scan_opaque_source_ends: "j \<le> i \<Longrightarrow> ends_from ts s d j cs (scan_opaque_source ts s i d cs)"
proof (induction i rule: index_induct [of "length ts"])
  case (past i)
  then show ?case by (subst scan_opaque_source.simps) (simp add: ends_here)
next
  case (step i)
  then show ?case by (subst scan_opaque_source.simps) (simp add: Let_def ends_here)
qed

lemma scan_paren_delimited_ends: "j \<le> i \<Longrightarrow> ends_from ts s d j cs (scan_paren_delimited ts s i d cs dp)"
proof (induction i arbitrary: dp rule: index_induct [of "length ts"])
  case (past i)
  then show ?case by (subst scan_paren_delimited.simps) (simp add: ends_here)
next
  case (step i)
  then show ?case by (subst scan_paren_delimited.simps) (simp add: Let_def ends_here)
qed

lemma scan_to_terminator_ends: "j \<le> i \<Longrightarrow> ends_from ts s d j cs (scan_to_terminator ts s i d cs)"
proof (induction i rule: index_induct [of "length ts"])
  case (past i)
  then show ?case by (subst scan_to_terminator.simps) (simp add: ends_here)
next
  case (step i)
  then show ?case by (subst scan_to_terminator.simps) (simp add: Let_def ends_here)
qed

lemma skip_words_ge: "j \<le> skip_words ts j"
proof (induction j rule: index_induct [of "length ts"])
  case (past j)
  then show ?case by (subst skip_words.simps) simp
next
  case (step j)
  have "j < skip_trivial ts (j + 1)" using skip_trivial_ge [of "j + 1" ts] by simp
  with step(2) [OF this] show ?case by (subst skip_words.simps) simp
qed

lemma finish_structured_ends:
  assumes "j \<le> i"
  shows "ends_from ts s d j cs (finish_structured ts s i d)"
proof -
  let ?k = "skip_words ts (skip_trivial ts (i + 1))"
  have "j \<le> ?k" using skip_trivial_ge [of "i + 1" ts] skip_words_ge [of "skip_trivial ts (i + 1)" ts] assms
    by linarith
  then show ?thesis by (simp add: finish_structured_def Let_def ends_here)
qed

lemma scan_structured_loop_ends:
  "j \<le> i \<Longrightarrow> ends_from ts s d j cs (scan_structured_loop ts s i d cs st)"
proof (induction i arbitrary: st rule: index_induct [of "length ts"])
  case (past i)
  then show ?case by (subst scan_structured_loop.simps) (simp add: ends_here)
next
  case (step i)
  have IH: "ends_from ts s d j cs (scan_structured_loop ts s k d cs st')" if "i < k" for k st'
    using step that by simp
  obtain r b where h: "scan_header ts s (i + 1) d 0 = (r, b)" by fastforce
  have "i < r" using scan_header_ge [of "i + 1" ts s d 0] step(1) h by simp
  moreover have "i < skip_end_qualifier ts s (i + 1) d" using skip_end_qualifier_ge [of "i + 1" ts s d] by simp
  moreover have "j \<le> skip_trivial ts (i + 1)" using skip_trivial_ge [of "i + 1" ts] step(3) by simp
  ultimately show ?case
    using step(1,3) IH scan_to_terminator_ends finish_structured_ends [OF step(3)]
    by (subst scan_structured_loop.simps) (simp add: Let_def h [simplified] ends_here)
qed

lemma scan_statement_ends: "ends_from ts s d i cs (scan_statement ts s d i cs)"
proof (cases "starter_at ts s d i")
  case None
  then show ?thesis by (simp add: scan_statement_def scan_plain_ends)
next
  case (Some x)
  obtain b r where x: "x = (b, r)" by fastforce
  with Some have "i \<le> r" by (simp add: starter_at_ge)
  with Some x show ?thesis
    by (simp add: scan_statement_def scan_structured_def scan_structured_loop_ends scan_opaque_source_ends
        scan_paren_delimited_ends split: block_kind.splits)
qed

lemma scan_statement_next: "i < length ts \<Longrightarrow> i < next_i (scan_statement ts s d i cs)"
  by (rule ends_from_next [OF scan_statement_ends])

section \<open>Splitting\<close>

definition lone_slash_without_statement :: "sql_dialect \<Rightarrow> ustr \<Rightarrow> token \<Rightarrow> bool" where
  "lone_slash_without_statement d s t \<longleftrightarrow>
     (slash_terminates_block d \<or> slash_terminates_plain d) \<and> slash_line_token s t"

definition make_span :: "nat \<Rightarrow> position_cursor \<Rightarrow> scan_outcome \<Rightarrow> statement_span" where
  "make_span cs cur oc =
     \<lparr>content_start = cs, content_end = oc_content_end oc, full_end = oc_full_end oc,
      start_line = line cur, start_column = column cur, span_kind = oc_kind oc,
      span_ended_by = oc_ended_by oc, terminated = oc_terminated oc\<rparr>"

function split_loop ::
    "token list \<Rightarrow> ustr \<Rightarrow> sql_dialect \<Rightarrow> position_cursor \<Rightarrow> nat \<Rightarrow> statement_span list option" where
  "split_loop ts s d cur i0 =
     (let i = skip_trivial ts i0 in
      if i < length ts then
        if lone_slash_without_statement d s (ts ! i) then split_loop ts s d cur (i + 1)
        else
          let cs = start (ts ! i); oc = scan_statement ts s d i cs in
          case advance_to s cur cs of None \<Rightarrow> None
          | Some cur1 \<Rightarrow>
              (case advance_to s cur1 (oc_full_end oc) of None \<Rightarrow> None
               | Some cur2 \<Rightarrow>
                   (case split_loop ts s d cur2 (next_i oc) of None \<Rightarrow> None
                    | Some sps \<Rightarrow> Some (make_span cs cur1 oc # sps)))
      else Some [])"
  by pat_completeness auto
termination
proof (relation "measure (\<lambda>(ts, s, d, cur, i). length ts - i)", goal_cases)
  case (2 ts s d cur i0 i)
  then show ?case using skip_trivial_ge [of i0 ts] by auto
next
  case (3 ts s d cur i0 i cs oc cur1 cur2)
  then show ?case using skip_trivial_ge [of i0 ts] scan_statement_next [of i ts s d cs] by auto
qed simp

declare split_loop.simps [simp del]

definition split_statements :: "unicode \<Rightarrow> sql_dialect \<Rightarrow> ustr \<Rightarrow> statement_span list option" where
  "split_statements u d s =
     (case tokenize u d s of None \<Rightarrow> None | Some ts \<Rightarrow> split_loop ts s d position_new 0)"

fun floor_char_boundary :: "ustr \<Rightarrow> nat \<Rightarrow> nat" where
  "floor_char_boundary s 0 = 0"
| "floor_char_boundary s (Suc i) = (if is_char_boundary s (Suc i) then Suc i else floor_char_boundary s i)"

text \<open>\<^verbatim>\<open>max_by_key\<close> returns the last of the elements with the largest key.\<close>

fun max_by_full_end :: "statement_span list \<Rightarrow> statement_span option" where
  "max_by_full_end [] = None"
| "max_by_full_end (x # xs) =
     (case max_by_full_end xs of None \<Rightarrow> Some x
      | Some y \<Rightarrow> Some (if full_end y < full_end x then x else y))"

definition span_at :: "ustr \<Rightarrow> statement_span list \<Rightarrow> nat \<Rightarrow> statement_span option" where
  "span_at s sps off0 =
     (let off = floor_char_boundary s (min off0 (byte_len s)) in
      case find (\<lambda>sp. content_start sp \<le> off \<and> off \<le> full_end sp) sps of
        Some hit \<Rightarrow> Some hit
      | None \<Rightarrow>
          (case max_by_full_end (filter (\<lambda>sp. full_end sp \<le> off) sps) of None \<Rightarrow> None
           | Some preceding \<Rightarrow>
               if 10 \<in> set (slice s (full_end preceding) off) then None else Some preceding))"

definition statement_at :: "unicode \<Rightarrow> sql_dialect \<Rightarrow> ustr \<Rightarrow> nat \<Rightarrow> statement_span option option" where
  "statement_at u d s off =
     (case split_statements u d s of None \<Rightarrow> None | Some sps \<Rightarrow> Some (span_at s sps off))"

end
