(* ===== verification/Sql_Splitter_Correct.thy ===== *)
theory Sql_Splitter_Correct
  imports Sql_Splitter
begin

text \<open>
  Properties of the splitter: it returns for every script, its spans are ordered, disjoint
  and cut at character boundaries, nothing but trivia and bare slash lines is left between
  them, and well-nested blocks end at their own \<^verbatim>\<open>END\<close>.
\<close>

section \<open>Tokens and their places\<close>

lemma tiles_nth:
  assumes "tiles p s ts" and "i < length ts"
  obtains a w r where "s = a @ w @ r" and "w \<noteq> []" and "start (ts ! i) = p + byte_len a"
    and "tok_end (ts ! i) = p + byte_len a + byte_len w" and "tiles (tok_end (ts ! i)) r (drop (Suc i) ts)"
  using assms
proof (induction ts arbitrary: p s i thesis)
  case (Cons t ts)
  from Cons.prems(2) obtain w r where w: "s = w @ r" "w \<noteq> []" "start t = p" "tok_end t = p + byte_len w"
    "tiles (p + byte_len w) r ts" unfolding tiles_Cons_iff by blast
  show ?case
  proof (cases i)
    case 0
    with w Cons.prems(1) [of "[]" w r] show ?thesis by simp
  next
    case (Suc j)
    with Cons.prems(3) have j: "j < length ts" by simp
    from Cons.IH [OF _ w(5) j] obtain a v r' where v: "r = a @ v @ r'" "v \<noteq> []"
      "start (ts ! j) = p + byte_len w + byte_len a" "tok_end (ts ! j) = p + byte_len w + byte_len a + byte_len v"
      "tiles (tok_end (ts ! j)) r' (drop (Suc j) ts)" by blast
    with Suc w(1) Cons.prems(1) [of "w @ a" v r'] show ?thesis by simp
  qed
qed simp

lemma tiles_next_start:
  assumes "tiles p s ts" and "i < j" and "j < length ts"
  shows "tok_end (ts ! i) \<le> start (ts ! j)"
proof -
  obtain r where r: "tiles (tok_end (ts ! i)) r (drop (Suc i) ts)"
    using tiles_nth [OF assms(1)] assms(2,3) by (metis less_trans)
  have "j - Suc i < length (drop (Suc i) ts)" using assms by simp
  from tiles_nth [OF r this] obtain a where "start (drop (Suc i) ts ! (j - Suc i)) = tok_end (ts ! i) + byte_len a"
    by metis
  then show ?thesis using assms by simp
qed

lemma tiles_start_less: "tiles p s ts \<Longrightarrow> i < length ts \<Longrightarrow> start (ts ! i) < tok_end (ts ! i)"
  by (rule tiles_nth) auto

lemma tiles_start_mono:
  assumes "tiles p s ts" and "i \<le> j" and "j < length ts"
  shows "start (ts ! i) \<le> start (ts ! j)" and "tok_end (ts ! i) \<le> tok_end (ts ! j)"
proof -
  have "i < j \<Longrightarrow> tok_end (ts ! i) \<le> start (ts ! j)" by (rule tiles_next_start [OF assms(1) _ assms(3)])
  moreover have "start (ts ! i) < tok_end (ts ! i)" "start (ts ! j) < tok_end (ts ! j)"
    using tiles_start_less [OF assms(1)] assms(2,3) by simp_all
  ultimately show "start (ts ! i) \<le> start (ts ! j)" "tok_end (ts ! i) \<le> tok_end (ts ! j)"
    using assms(2) by (cases "i = j"; simp)+
qed

lemma tiles_last_end: "tiles p s ts \<Longrightarrow> ts \<noteq> [] \<Longrightarrow> tok_end (last ts) = p + byte_len s"
proof (induction ts arbitrary: p s)
  case (Cons t ts)
  then obtain w r where w: "s = w @ r" "tok_end t = p + byte_len w" "tiles (p + byte_len w) r ts"
    unfolding tiles_Cons_iff by blast
  show ?case
  proof (cases "ts = []")
    case True
    with w show ?thesis by simp
  next
    case False
    with Cons.IH [OF w(3)] w show ?thesis by simp
  qed
qed simp

section \<open>After an operator, white space is white space\<close>

lemma operator_leaves_normal:
  assumes "next_token u d m als cur = (cur', Operator, m', als')"
  shows "m' = Normal"
proof (cases m)
  case Normal
  have "first_rule rs als cur = Some (cur', Operator, m', als') \<Longrightarrow>
      (\<And>r cur'. r \<in> set rs \<Longrightarrow> r als cur = Some (cur', Operator, m', als') \<Longrightarrow> m' = Normal) \<Longrightarrow> m' = Normal" for rs
    by (induction rs) (auto split: option.splits)
  moreover have "m' = Normal" if "r \<in> set (normal_rules u d)" "r als cur = Some (cur', Operator, m', als')" for r cur'
    using that unfolding normal_rules_def
    by (auto simp: whitespace_rule_def line_comment_rule_def block_comment_rule_def comment_word_rule_def
        directive_rule_def double_quote_rule_def single_quote_rule_def quoted_rule_def word_rule_def
        scan_alternative_quote_def range_rule_def number_rule_def bind_rule_def substitution_rule_def
        two_char_rule_def Let_def case_prod_unfold split: option.splits if_splits)
  ultimately show ?thesis using assms Normal
    by (auto simp: next_token_normal_def split: option.splits)
qed (use assms in \<open>auto simp: case_prod_unfold Let_def\<close>)

lemma bump_while_all: "list_all P s \<Longrightarrow> bump_while P (p, s) = (p + byte_len s, [])"
  by (induction s arbitrary: p) (auto simp: add.assoc)

lemma tokenize_loop_whitespace:
  assumes "list_all is_whitespace s"
  shows "\<exists>ts. tokenize_loop u d Normal als (p, s) = Some (ts, Normal) \<and> (\<forall>t \<in> set ts. kind t = Whitespace)"
proof (cases s)
  case Nil
  then show ?thesis by (subst tokenize_loop.simps) (simp add: at_end_def)
next
  case (Cons c cs)
  have ws: "list_all is_lexer_whitespace s" using assms by (auto simp: list_all_iff is_lexer_whitespace_def)
  then have "next_token u d Normal als (p, s) = ((p + byte_len s, []), Whitespace, Normal, als)"
    using bump_while_all [OF ws, of p] Cons
    by (simp add: next_token_normal_def normal_rules_def whitespace_rule_def peek_is_def del: bump_while.simps)
  moreover have "tokenize_loop u d Normal als (p + byte_len s, []) = Some ([], Normal)"
    by (subst tokenize_loop.simps) (simp add: at_end_def)
  ultimately show ?thesis using Cons by (subst tokenize_loop.simps) (simp add: at_end_def)
qed

lemma operator_then_whitespace:
  assumes "wf_dialect d" and "tokenize_loop u d m als cur = Some (ts, m')" and "i < length ts"
    and "kind (ts ! i) = Operator" and "list_all is_whitespace (drop_bytes (tok_end (ts ! i) - fst cur) (snd cur))"
  shows "m' = Normal \<and> (\<forall>j. i < j \<and> j < length ts \<longrightarrow> kind (ts ! j) = Whitespace)"
  using assms(2-)
proof (induction "length (snd cur)" arbitrary: cur m als ts i rule: less_induct)
  case less
  have ne: "snd cur \<noteq> []"
    using less.prems(1,2) by (subst (asm) tokenize_loop.simps) (auto simp: at_end_def)
  obtain cur' k m1 als' where n: "next_token u d m als cur = (cur', k, m1, als')" by (metis prod_cases4)
  then obtain ts1 where ts1: "tokenize_loop u d m1 als' cur' = Some (ts1, m')"
    and ts: "ts = \<lparr>kind = k, start = fst cur, tok_end = fst cur'\<rparr> # ts1"
    using less.prems(1) ne by (subst (asm) tokenize_loop.simps) (auto simp: at_end_def split: Option.bind_splits)
  have adv: "advanced cur cur'" by (rule next_token_advanced [OF assms(1) ne n])
  then obtain w where w: "snd cur = w @ snd cur'" "fst cur' = fst cur + byte_len w" unfolding advanced_def by blast
  show ?case
  proof (cases i)
    case 0
    with less.prems ts n have m1: "m1 = Normal" by (auto intro: operator_leaves_normal)
    have "list_all is_whitespace (snd cur')" using less.prems(4) 0 ts w by simp
    from tokenize_loop_whitespace [OF this, of u d als' "fst cur'"] ts1 m1
    have "m' = Normal" "\<forall>t \<in> set ts1. kind t = Whitespace" by auto
    then show ?thesis using 0 ts by (auto simp: nth_Cons' all_set_conv_all_nth)
  next
    case (Suc i')
    have tl: "tiles (fst cur') (snd cur') ts1"
      using tokenize_loop_tiles [OF assms(1), of u m1 als' cur'] ts1 by auto
    have i': "i' < length ts1" using less.prems(2) Suc ts by simp
    then have le: "fst cur' \<le> tok_end (ts1 ! i')" by (rule tiles_nth [OF tl]) simp
    have "drop_bytes (tok_end (ts1 ! i') - fst cur) (snd cur) = drop_bytes (tok_end (ts1 ! i') - fst cur') (snd cur')"
    proof -
      have "drop_bytes (byte_len w + n) (w @ r) = drop_bytes n r" for n r
        by (induction w) auto
      from this [of "tok_end (ts1 ! i') - fst cur'" "snd cur'"] show ?thesis using w le by simp
    qed
    with less.prems Suc ts have "m' = Normal \<and> (\<forall>j. i' < j \<and> j < length ts1 \<longrightarrow> kind (ts1 ! j) = Whitespace)"
      by (intro less.hyps [OF advanced_shorter [OF adv] ts1 i']) simp_all
    then show ?thesis using Suc ts by (auto simp: nth_Cons' less_Suc_eq_0_disj)
  qed
qed

text \<open>
  The tokens after an operator that is followed only by white space on its line: up to the
  end of the line they are white space, and if the text ends there, no construct is open.
\<close>

lemma drop_bytes_add: "drop_bytes (byte_len w + n) (w @ r) = drop_bytes n r"
  by (induction w) auto

definition line_rest :: "ustr \<Rightarrow> ustr" where
  "line_rest s = takeWhile (\<lambda>c. c \<noteq> 10) s"

lemma line_rest_append: "10 \<notin> set l \<Longrightarrow> line_rest (l @ 10 # r) = l" "10 \<notin> set l \<Longrightarrow> line_rest l = l"
  by (auto simp: line_rest_def takeWhile_append)

lemma tokenize_lines_after_operator:
  assumes "wf_dialect d" and "ls \<noteq> []" and "\<forall>l \<in> set ls. 10 \<notin> set l"
    and "tokenize_lines u d m p ls = Some (ts, m')" and "i < length ts" and "kind (ts ! i) = Operator"
    and "rest = drop_bytes (tok_end (ts ! i) - p) (join_lines ls)" and "list_all is_whitespace (line_rest rest)"
    and "i < j" and "j < length ts" and "start (ts ! j) \<le> tok_end (ts ! i) + byte_len (line_rest rest)"
  shows "kind (ts ! j) = Whitespace \<and> (Suc j = length ts \<longrightarrow> m' = Normal)"
  using assms(2-)
proof (induction ls arbitrary: m p ts i j rest rule: list_nonempty_induct)
  case (single l)
  from single.prems(2) obtain ts0 where b: "tokenize_loop u d m (m = Normal) (0, l) = Some (ts0, m')"
    and ts: "ts = map (shift_token p) ts0" by (auto simp: tokenize_block_def split: option.splits)
  have "list_all is_whitespace (drop_bytes (tok_end (ts0 ! i)) l)"
  proof -
    have "tiles 0 l ts0" using tokenize_loop_tiles [OF assms(1), of u m "m = Normal" "(0, l)"] b by auto
    moreover have "i < length ts0" using single.prems(3) ts by simp
    ultimately obtain a w r where "l = a @ w @ r" "tok_end (ts0 ! i) = 0 + byte_len a + byte_len w"
      by (rule tiles_nth)
    then have dr: "drop_bytes (tok_end (ts0 ! i)) l = r" "10 \<notin> set r"
      using single.prems(1) by (simp_all add: drop_bytes_add)
    with single.prems(3,5,6) ts show ?thesis by (simp add: shift_token_def line_rest_append(2))
  qed
  with operator_then_whitespace [OF assms(1) b, of i] single.prems ts show ?case by (simp add: shift_token_def)
next
  case (cons l ls)
  from cons.prems(2) cons.hyps obtain ts0 m1 ts' where
    b: "tokenize_loop u d m (m = Normal) (0, l) = Some (ts0, m1)"
    and ls: "tokenize_lines u d m1 (p + byte_len l + 1) ls = Some (ts', m')"
    and ts: "ts = map (shift_token p) ts0 @ newline_token (p + byte_len l) # ts'"
    by (auto simp: tokenize_block_def Let_def split: option.splits if_splits)
  have t0: "tiles 0 l ts0" using tokenize_loop_tiles [OF assms(1), of u m "m = Normal" "(0, l)"] b by auto
  have t': "tiles (p + byte_len l + 1) (join_lines ls) ts'"
    using tokenize_lines_tiles [OF assms(1) cons.hyps(1), of u m1 "p + byte_len l + 1"] ls by auto
  have join: "join_lines (l # ls) = l @ 10 # join_lines ls" using cons.hyps(1) by (rule join_lines_Cons)
  consider "i < length ts0" | "i = length ts0" | i' where "i = length ts0 + 1 + i'" "i' < length ts'"
  proof -
    have "i < length ts0 \<or> i = length ts0 \<or> (\<exists>i'. i = length ts0 + 1 + i' \<and> i' < length ts')"
      using cons.prems(3) ts by (auto intro: exI [of _ "i - length ts0 - 1"])
    then show thesis using that by blast
  qed
  then show ?case
  proof cases
    case 1
    from t0 1 obtain a w r where r: "l = a @ w @ r" "tok_end (ts0 ! i) = 0 + byte_len a + byte_len w"
      by (rule tiles_nth)
    have ti: "tok_end (ts ! i) = tok_end (ts0 ! i) + p" "kind (ts0 ! i) = Operator"
      using 1 ts cons.prems(4) by (auto simp: nth_append shift_token_def)
    have rest: "rest = r @ 10 # join_lines ls"
      using cons.prems(5) [unfolded join] drop_bytes_add [of "a @ w" 0 "r @ 10 # join_lines ls"] r ti by simp
    have ws: "list_all is_whitespace r" and lr: "line_rest rest = r"
      using cons.prems(1,6) r rest by (auto simp: line_rest_append(1))
    have "drop_bytes (tok_end (ts0 ! i)) l = r" using r drop_bytes_add [of "a @ w" 0 r] by simp
    with operator_then_whitespace [OF assms(1) b 1] ws ti
    have m1: "m1 = Normal" and w0: "\<forall>j. i < j \<and> j < length ts0 \<longrightarrow> kind (ts0 ! j) = Whitespace" by auto
    have bound: "start (ts ! j) \<le> p + byte_len l" using cons.prems(9) lr r ti by simp
    show ?thesis
    proof (cases "j < length ts0")
      case True
      then show ?thesis using w0 ts cons.prems(7) by (auto simp: nth_append shift_token_def)
    next
      case False
      have j: "j = length ts0"
      proof (rule ccontr)
        assume "j \<noteq> length ts0"
        with False cons.prems(8) ts obtain j' where j': "j = length ts0 + 1 + j'" "j' < length ts'"
          by (intro that [of "j - length ts0 - 1"]) auto
        with ts have "ts ! j = ts' ! j'" by (simp add: nth_append)
        with tiles_nth [OF t' j'(2)] bound show False by (metis add.assoc le_add1 not_less_eq_eq Suc_eq_plus1 order.trans)
      qed
      have "m' = Normal" if "Suc j = length ts"
      proof -
        from that j ts have "ts' = []" by simp
        with t' have "join_lines ls = []" by simp
        then have "ls = [[]]" using cons.hyps(1) by (cases ls rule: join_lines.cases) auto
        with ls m1 show ?thesis
          by (auto simp: tokenize_block_def tokenize_loop.simps at_end_def split: option.splits)
      qed
      then show ?thesis using j ts by (simp add: nth_append newline_token_def)
    qed
  next
    case 2
    with ts cons.prems(4) show ?thesis by (simp add: nth_append newline_token_def)
  next
    case 3
    then have tsi: "ts ! i = ts' ! i'" using ts by (simp add: nth_append)
    have len10: "len_utf8 10 = 1" by (simp add: len_utf8_def)
    have ge: "p + byte_len l + 1 \<le> tok_end (ts' ! i')" by (rule tiles_nth [OF t' 3(2)]) simp
    then have e: "tok_end (ts' ! i') - p = byte_len (l @ [10]) + (tok_end (ts' ! i') - (p + byte_len l + 1))"
      by (simp add: len10)
    have rest: "rest = drop_bytes (tok_end (ts' ! i') - (p + byte_len l + 1)) (join_lines ls)"
      using cons.prems(5) [unfolded join tsi e] drop_bytes_add [of "l @ [10]" _ "join_lines ls"] by simp
    obtain j' where j': "j = length ts0 + 1 + j'" "j' < length ts'" "i' < j'"
      using cons.prems(7,8) 3(1) ts by (intro that [of "j - length ts0 - 1"]) auto
    then have tsj: "ts ! j = ts' ! j'" using ts by (simp add: nth_append)
    have "kind (ts' ! j') = Whitespace \<and> (Suc j' = length ts' \<longrightarrow> m' = Normal)"
      using cons.prems j' tsi tsj rest by (intro cons.IH [OF _ ls 3(2) _ rest]) auto
    with tsj j' ts show ?thesis by simp
  qed
qed

lemma find_newline: "find_char 10 r = (if 10 \<in> set r then Some (byte_len (line_rest r)) else None)"
  by (simp add: find_char_def line_rest_def)

lemma line_rest_id: "10 \<notin> set r \<Longrightarrow> line_rest r = r"
  by (rule line_rest_append(2))

lemma line_rest_prefix: "\<exists>t. r = line_rest r @ t"
  unfolding line_rest_def by (metis takeWhile_dropWhile_id)

lemma byte_len_drop: "is_char_boundary s e \<Longrightarrow> e + byte_len (drop_bytes e s) = byte_len s"
  by (auto simp: is_char_boundary_iff)

lemma trailing_line_end_eq:
  assumes "is_char_boundary s e"
  shows "trailing_line_end s e = e + byte_len (line_rest (drop_bytes e s)) +
    (if 10 \<in> set (drop_bytes e s) then 1 else 0)"
  using byte_len_drop [OF assms] by (auto simp: trailing_line_end_def find_newline line_rest_id)

lemma lone_slash_rest:
  assumes "is_lone_slash_line s t" and "is_char_boundary s (tok_end t)"
  shows "list_all is_whitespace (line_rest (drop_bytes (tok_end t) s))"
proof -
  let ?r = "drop_bytes (tok_end t) s"
  obtain v where v: "?r = line_rest ?r @ v" using line_rest_prefix by blast
  have "trim (slice s (tok_end t) (tok_end t + byte_len (line_rest ?r))) = []"
    using assms(1) byte_len_drop [OF assms(2)]
    by (cases "10 \<in> set ?r") (auto simp: is_lone_slash_line_def find_newline line_rest_id)
  moreover have "slice s (tok_end t) (tok_end t + byte_len (line_rest ?r)) = line_rest ?r"
    unfolding slice_def by (subst v) simp
  ultimately show ?thesis by (simp add: list_all_iff)
qed

lemma tiles_boundary:
  assumes "tiles 0 s ts" and "i < length ts"
  shows "is_char_boundary s (start (ts ! i))" and "is_char_boundary s (tok_end (ts ! i))"
proof -
  from assms obtain a w r where "s = a @ w @ r" "start (ts ! i) = 0 + byte_len a"
    "tok_end (ts ! i) = 0 + byte_len a + byte_len w" by (rule tiles_nth)
  then show "is_char_boundary s (start (ts ! i))" "is_char_boundary s (tok_end (ts ! i))"
    using is_char_boundary_prefix [of a "w @ r"] is_char_boundary_prefix [of "a @ w" r] by simp_all
qed

section \<open>What the splitter relies on\<close>

text \<open>
  The lexer's promises to the splitter: tokens tile the text, and after a lone slash only
  white space is left on its line.
\<close>

definition stream_ok :: "ustr \<Rightarrow> token list \<Rightarrow> bool" where
  "stream_ok s ts \<longleftrightarrow> tiles 0 s ts \<and>
     (\<forall>i j. i < j \<and> j < length ts \<and> slash_line_token s (ts ! i) \<and>
        start (ts ! j) < trailing_line_end s (tok_end (ts ! i)) \<longrightarrow> kind (ts ! j) = Whitespace)"

lemma mark_last_error_nth:
  "i < length ts \<Longrightarrow> mark_last_error ts ! i = (if Suc i = length ts then (ts ! i)\<lparr>kind := Error\<rparr> else ts ! i)"
proof (cases ts rule: rev_cases)
  case (snoc xs x)
  then show "i < length ts \<Longrightarrow> ?thesis" by (simp add: mark_last_error_def nth_append less_Suc_eq)
qed simp

lemma length_mark_last_error [simp]: "length (mark_last_error ts) = length ts"
  by (cases ts rule: rev_cases) (simp_all add: mark_last_error_def)

lemma tokenize_stream_ok:
  assumes "wf_dialect d" and "tokenize u d s = Some ts"
  shows "stream_ok s ts"
proof -
  obtain ts0 m where l: "tokenize_lines u d Normal 0 (split_lines s) = Some (ts0, m)"
    and ts: "ts = (if is_initial m then ts0 else mark_last_error ts0)"
    using assms(2) by (auto simp: tokenize_def split: option.splits)
  have t0: "tiles 0 s ts0" using tokenize_lines_tiles [OF assms(1) split_lines_not_Nil, of u Normal 0 s] l by auto
  then have t: "tiles 0 s ts" using ts tiles_mark_last_error by simp
  have "kind (ts ! j) = Whitespace" if ij: "i < j" "j < length ts" and sl: "slash_line_token s (ts ! i)"
    and st: "start (ts ! j) < trailing_line_end s (tok_end (ts ! i))" for i j
  proof -
    have i: "i < length ts0" "j < length ts0" using ij ts by (auto split: if_splits)
    have same: "kind (ts ! i) = kind (ts0 ! i)" "tok_end (ts ! i) = tok_end (ts0 ! i)" "start (ts ! j) = start (ts0 ! j)"
      using ij i ts by (auto simp: mark_last_error_nth split: if_splits)
    let ?r = "drop_bytes (tok_end (ts0 ! i)) s"
    have b: "is_char_boundary s (tok_end (ts0 ! i))" by (rule tiles_boundary(2) [OF t0 i(1)])
    have ws: "list_all is_whitespace (line_rest ?r)"
      using lone_slash_rest [of s "ts ! i"] sl b same by (simp add: slash_line_token_def)
    have "kind (ts0 ! j) = Whitespace \<and> (Suc j = length ts0 \<longrightarrow> m = Normal)"
    proof (rule tokenize_lines_after_operator [OF assms(1) split_lines_not_Nil _ l i(1) _ refl])
      show "\<forall>l \<in> set (split_lines s). 10 \<notin> set l" by (blast dest: split_lines_no_newline)
      show "start (ts0 ! j) \<le> tok_end (ts0 ! i) +
          byte_len (line_rest (drop_bytes (tok_end (ts0 ! i) - 0) (join_lines (split_lines s))))"
        using st same trailing_line_end_eq [OF b] by (simp split: if_splits)
    qed (use ws sl ij i same in \<open>simp_all add: slash_line_token_def\<close>)
    then show ?thesis using ts i(2) by (auto simp: mark_last_error_nth is_initial_def)
  qed
  with t show ?thesis by (auto simp: stream_ok_def)
qed

section \<open>Every scan ends in a proper place\<close>

text \<open>
  The outcome of scanning the statement whose first token is \<open>j\<close>: the ends are in order, in
  range and on character boundaries, the tokens it consumed lie before its full end, and the
  next token that is not trivial lies after it.
\<close>

definition outcome_ok :: "ustr \<Rightarrow> token list \<Rightarrow> nat \<Rightarrow> scan_outcome \<Rightarrow> bool" where
  "outcome_ok s ts j oc \<longleftrightarrow>
     start (ts ! j) \<le> oc_content_end oc \<and> oc_content_end oc \<le> oc_full_end oc \<and>
     start (ts ! j) < oc_full_end oc \<and> oc_full_end oc \<le> byte_len s \<and>
     is_char_boundary s (oc_content_end oc) \<and> is_char_boundary s (oc_full_end oc) \<and>
     next_i oc \<le> length ts \<and> (\<forall>k < next_i oc. tok_end (ts ! k) \<le> oc_full_end oc) \<and>
     (\<forall>k. next_i oc \<le> k \<and> k < length ts \<and> \<not> is_trivial (kind (ts ! k)) \<longrightarrow> oc_full_end oc \<le> start (ts ! k))"

lemma stream_tiles: "stream_ok s ts \<Longrightarrow> tiles 0 s ts"
  by (simp add: stream_ok_def)

lemma tiles_tok_end_le: "tiles 0 s ts \<Longrightarrow> k < length ts \<Longrightarrow> tok_end (ts ! k) \<le> byte_len s"
  using is_char_boundary_le tiles_boundary(2) by blast

lemma tiles_consumed:
  assumes "tiles 0 s ts" and "k < Suc i" and "i < length ts"
  shows "tok_end (ts ! k) \<le> tok_end (ts ! i)"
  using tiles_start_mono(2) [OF assms(1) _ assms(3), of k] assms(2) by simp

lemma ran_to_eof_ok:
  assumes "stream_ok s ts" and "j < length ts"
  shows "outcome_ok s ts j (ran_to_eof ts s k)"
proof -
  note t = stream_tiles [OF assms(1)]
  have "ts \<noteq> []" using assms(2) by auto
  then have "tok_end (last ts) = byte_len s" using tiles_last_end [OF t] by simp
  moreover have "start (ts ! j) < byte_len s"
    using tiles_start_less [OF t assms(2)] tiles_tok_end_le [OF t assms(2)] by simp
  ultimately show ?thesis using assms(2) tiles_tok_end_le [OF t]
    by (auto simp: outcome_ok_def ran_to_eof_def Let_def)
qed

lemma trailing_line_end_bounds:
  assumes "is_char_boundary s e"
  shows "e \<le> trailing_line_end s e" and "trailing_line_end s e \<le> byte_len s"
    and "is_char_boundary s (trailing_line_end s e)"
proof -
  from assms obtain a r where s: "s = a @ r" and e: "e = byte_len a" by (auto simp: is_char_boundary_iff)
  have len10: "len_utf8 10 = 1" by (simp add: len_utf8_def)
  obtain v where v: "r = line_rest r @ v" using line_rest_prefix by blast
  have "\<exists>b. trailing_line_end s e = byte_len (a @ b) \<and> (\<exists>t. r = b @ t)"
  proof (cases "10 \<in> set r")
    case True
    then obtain w v' where "r = w @ 10 # v'" "10 \<notin> set w" by (blast dest: split_list_first)
    then have "r = line_rest r @ 10 # v'" by (simp add: line_rest_append(1))
    then show ?thesis using True trailing_line_end_eq [OF assms] s e len10
      by (intro exI [of _ "line_rest r @ [10]"]) auto
  next
    case False
    then show ?thesis using trailing_line_end_eq [OF assms] s e
      by (intro exI [of _ r]) (simp add: line_rest_id)
  qed
  then show "e \<le> trailing_line_end s e" "trailing_line_end s e \<le> byte_len s"
    "is_char_boundary s (trailing_line_end s e)" unfolding s e
    using is_char_boundary_prefix [of "a @ _"] by (auto simp: add.assoc)
qed

lemma after_slash_start:
  assumes "stream_ok s ts" and "i < k" and "k < length ts" and "slash_line_token s (ts ! i)"
    and "\<not> is_trivial (kind (ts ! k))"
  shows "trailing_line_end s (tok_end (ts ! i)) \<le> start (ts ! k)"
  using assms unfolding stream_ok_def is_trivial_def by (meson not_less)

lemma slash_outcome_ok:
  assumes "stream_ok s ts" and "j \<le> i" and "i < length ts" and "slash_line_token s (ts ! i)"
    and "start (ts ! j) \<le> ce" and "ce \<le> tok_end (ts ! i)" and "is_char_boundary s ce"
    and "oc_content_end oc = ce" and "oc_full_end oc = trailing_line_end s (tok_end (ts ! i))" and "next_i oc = i + 1"
  shows "outcome_ok s ts j oc"
proof -
  note t = stream_tiles [OF assms(1)]
  note b = trailing_line_end_bounds [OF tiles_boundary(2) [OF t assms(3)]]
  have "start (ts ! j) < tok_end (ts ! i)"
    using tiles_start_mono(1) [OF t assms(2,3)] tiles_start_less [OF t assms(3)] by simp
  moreover have "\<forall>k < Suc i. tok_end (ts ! k) \<le> trailing_line_end s (tok_end (ts ! i))"
    using tiles_consumed [OF t _ assms(3)] b(1) by (meson le_trans)
  ultimately show ?thesis
    using assms b after_slash_start [OF assms(1) _ _ assms(4)] by (auto simp: outcome_ok_def)
qed

lemma take_bytes_boundary: "is_char_boundary s n \<Longrightarrow> \<exists>r. s = take_bytes n s @ r \<and> byte_len (take_bytes n s) = n"
  by (auto simp: is_char_boundary_iff)

lemma end_at_slash_line_ok:
  assumes "stream_ok s ts" and "j \<le> i" and "i < length ts" and "slash_line_token s (ts ! i)"
  shows "outcome_ok s ts j (end_at_slash_line s (ts ! i) k (i + 1) (start (ts ! j)))"
proof -
  note t = stream_tiles [OF assms(1)]
  let ?p = "take_bytes (start (ts ! i)) s"
  let ?ce = "max (byte_len (trim_end ?p)) (start (ts ! j))"
  obtain r where r: "s = ?p @ r" "byte_len ?p = start (ts ! i)"
    using take_bytes_boundary [OF tiles_boundary(1) [OF t assms(3)]] by blast
  obtain w where w: "?p = trim_end ?p @ w" using trim_end_prefix by blast
  have "byte_len (trim_end ?p) \<le> start (ts ! i)" using r(2) w by (metis byte_len_append le_add1)
  then have "?ce \<le> tok_end (ts ! i)"
    using tiles_start_mono(1) [OF t assms(2,3)] tiles_start_less [OF t assms(3)] by simp
  moreover have "is_char_boundary s (byte_len (trim_end ?p))"
    using r(1) w is_char_boundary_prefix [of "trim_end ?p" "w @ r"] by (metis append.assoc)
  then have "is_char_boundary s ?ce" using tiles_boundary(1) [OF t, of j] assms(2,3) by (simp add: max_def)
  ultimately show ?thesis using assms
    by (intro slash_outcome_ok [where ce = ?ce]) (simp_all add: end_at_slash_line_def)
qed

lemma terminator_outcome_ok:
  assumes "stream_ok s ts" and "j \<le> i" and "i < length ts"
    and "oc_content_end oc = start (ts ! i)" and "oc_full_end oc = tok_end (ts ! i)" and "next_i oc = i + 1"
  shows "outcome_ok s ts j oc"
proof -
  note t = stream_tiles [OF assms(1)]
  show ?thesis
    using assms tiles_start_mono(1) [OF t assms(2,3)] tiles_start_less [OF t assms(3)] tiles_boundary [OF t assms(3)]
      tiles_tok_end_le [OF t assms(3)] tiles_consumed [OF t _ assms(3)] tiles_next_start [OF t]
    by (auto simp: outcome_ok_def Suc_le_eq)
qed

lemma finish_with_maybe_slash_ok:
  assumes "stream_ok s ts" and "j \<le> i" and "i < length ts"
  shows "outcome_ok s ts j (finish_with_maybe_slash ts s d (start (ts ! i)) (tok_end (ts ! i)) (i + 1) k)"
proof (cases "if slash_terminates_block d then find_slash ts s (i + 1) else None")
  case None
  then show ?thesis unfolding finish_with_maybe_slash_def
    by (intro terminator_outcome_ok [OF assms]) simp_all
next
  case (Some q)
  note t = stream_tiles [OF assms(1)]
  from Some find_slash_ge have q: "i + 1 \<le> q" "q < length ts" "slash_line_token s (ts ! q)"
    by (auto split: if_splits)
  have "start (ts ! i) \<le> tok_end (ts ! q)"
    using tiles_start_less [OF t assms(3)] tiles_start_mono(2) [OF t _ q(2), of i] q(1) by simp
  then show ?thesis
    using Some q assms(2) tiles_start_mono(1) [OF t assms(2,3)] tiles_boundary(1) [OF t assms(3)]
    unfolding finish_with_maybe_slash_def
    by (intro slash_outcome_ok [OF assms(1) _ q(2,3), where ce = "start (ts ! i)"]) simp_all
qed

lemma ends_from_ok:
  assumes "ends_from ts s d j (start (ts ! j)) oc" and "stream_ok s ts" and "j < length ts"
  shows "outcome_ok s ts j oc"
  using assms(1)
proof cases
  case (ends_plain i)
  then show ?thesis by (intro terminator_outcome_ok [OF assms(2)]) simp_all
qed (use assms ran_to_eof_ok end_at_slash_line_ok finish_with_maybe_slash_ok in simp_all)

section \<open>Positions\<close>

text \<open>Line and column, from 1, of the place after the text \<open>a\<close>; columns count characters.\<close>

definition line_column :: "ustr \<Rightarrow> nat \<times> nat" where
  "line_column a = (1 + length (filter (\<lambda>c. c = 10) a), 1 + length (takeWhile (\<lambda>c. c \<noteq> 10) (rev a)))"

lemma advance_chars_line_column: "advance_chars w (line_column a) = line_column (a @ w)"
proof (induction w arbitrary: a)
  case (Cons c w)
  have "advance_chars (c # w) (line_column a) = advance_chars w (line_column (a @ [c]))"
    by (simp add: line_column_def)
  with Cons [of "a @ [c]"] show ?case by simp
qed simp

definition cursor_at :: "ustr \<Rightarrow> position_cursor \<Rightarrow> bool" where
  "cursor_at s cur \<longleftrightarrow> is_char_boundary s (pos cur) \<and> (line cur, column cur) = line_column (take_bytes (pos cur) s)"

lemma cursor_at_new: "cursor_at s position_new"
  by (simp add: cursor_at_def position_new_def line_column_def)

lemma boundary_split:
  assumes "is_char_boundary s a" and "is_char_boundary s b" and "a \<le> b"
  obtains x y z where "s = x @ y @ z" "a = byte_len x" "b = byte_len x + byte_len y"
proof -
  from assms(2) obtain w z where w: "s = w @ z" "b = byte_len w" by (auto simp: is_char_boundary_iff)
  from assms(1) obtain x r where x: "s = x @ r" "a = byte_len x" by (auto simp: is_char_boundary_iff)
  with w have "x @ r = w @ z" by simp
  then obtain v where "w = x @ v \<or> x = w @ v" by (auto simp: append_eq_append_conv2)
  then show thesis
  proof
    assume "w = x @ v"
    with w x show thesis by (intro that [of x v z]) simp_all
  next
    assume xw: "x = w @ v"
    then have "v = []" using x(2) w(2) assms(3) by simp
    with xw w x show thesis by (intro that [of x "[]" z]) simp_all
  qed
qed

lemma advance_to_ok:
  assumes "cursor_at s cur" and "pos cur \<le> target" and "is_char_boundary s target"
  obtains cur' where "advance_to s cur target = Some cur'" "pos cur' = target" "cursor_at s cur'"
proof -
  obtain a w r where a: "s = a @ w @ r" "pos cur = byte_len a" "target = byte_len a + byte_len w"
    using boundary_split [OF _ assms(3,2)] assms(1) unfolding cursor_at_def by blast
  have sl: "slice s (pos cur) target = w" using a by (simp add: slice_append)
  have tk: "take_bytes target s = a @ w" using a take_bytes_append [of "a @ w" r] by simp
  have "(line cur, column cur) = line_column a" using assms(1) a by (simp add: cursor_at_def)
  then have "advance_chars (slice s (pos cur) target) (line cur, column cur) = line_column (a @ w)"
    using sl by (simp add: advance_chars_line_column)
  then show thesis
    using assms(2,3) tk
    by (intro that [of "\<lparr>pos = target, line = fst (line_column (a @ w)), column = snd (line_column (a @ w))\<rparr>"])
      (simp_all add: advance_to_def cursor_at_def case_prod_unfold Let_def)
qed

section \<open>Spans\<close>

text \<open>
  Spans from offset \<open>p\<close> on: in order, without overlap, inside the text, cut at character
  boundaries, and each at the line and column of its first character.
\<close>

fun spans_ok :: "ustr \<Rightarrow> nat \<Rightarrow> statement_span list \<Rightarrow> bool" where
  "spans_ok s p [] \<longleftrightarrow> True"
| "spans_ok s p (sp # sps) \<longleftrightarrow> p \<le> content_start sp \<and> content_start sp \<le> content_end sp \<and>
     content_end sp \<le> full_end sp \<and> content_start sp < full_end sp \<and> full_end sp \<le> byte_len s \<and>
     is_char_boundary s (content_start sp) \<and> is_char_boundary s (content_end sp) \<and>
     is_char_boundary s (full_end sp) \<and>
     (start_line sp, start_column sp) = line_column (take_bytes (content_start sp) s) \<and>
     spans_ok s (full_end sp) sps"

text \<open>Every token from \<open>i\<close> on that is not trivial lies in a span or is a bare slash line.\<close>

definition tokens_covered :: "sql_dialect \<Rightarrow> ustr \<Rightarrow> token list \<Rightarrow> nat \<Rightarrow> statement_span list \<Rightarrow> bool" where
  "tokens_covered d s ts i sps \<longleftrightarrow>
     (\<forall>k. i \<le> k \<and> k < length ts \<and> \<not> is_trivial (kind (ts ! k)) \<longrightarrow> lone_slash_without_statement d s (ts ! k) \<or>
        (\<exists>sp \<in> set sps. content_start sp \<le> start (ts ! k) \<and> tok_end (ts ! k) \<le> full_end sp))"

lemma skip_trivial_between: "i \<le> k \<Longrightarrow> k < skip_trivial ts i \<Longrightarrow> is_trivial (kind (ts ! k))"
proof (induction i rule: index_induct [of "length ts"])
  case (past i)
  then show ?case by (subst (asm) skip_trivial.simps) simp
next
  case (step i)
  show ?case
  proof (cases "is_trivial (kind (ts ! i))")
    case True
    then have "skip_trivial ts i = skip_trivial ts (i + 1)" using step(1) by (subst skip_trivial.simps) simp
    then have "k < skip_trivial ts (i + 1)" using step(4) by simp
    with step(2) [of "i + 1"] step(3) True show ?thesis by (cases "i = k") simp_all
  next
    case False
    then have "skip_trivial ts i = i" by (subst skip_trivial.simps) simp
    with step show ?thesis by simp
  qed
qed

lemma skip_trivial_stop: "skip_trivial ts i < length ts \<Longrightarrow> \<not> is_trivial (kind (ts ! skip_trivial ts i))"
proof (induction i rule: index_induct [of "length ts"])
  case (past i)
  then show ?case by (subst (asm) skip_trivial.simps) simp
next
  case (step i)
  show ?case
  proof (cases "is_trivial (kind (ts ! i))")
    case True
    then have "skip_trivial ts i = skip_trivial ts (i + 1)" using step(1) by (subst skip_trivial.simps) simp
    with step show ?thesis by simp
  next
    case False
    then have "skip_trivial ts i = i" by (subst skip_trivial.simps) simp
    with False show ?thesis by simp
  qed
qed

lemma split_loop_ok:
  assumes "stream_ok s ts"
  shows "cursor_at s cur \<Longrightarrow>
    (\<And>k. i0 \<le> k \<Longrightarrow> k < length ts \<Longrightarrow> \<not> is_trivial (kind (ts ! k)) \<Longrightarrow> pos cur \<le> start (ts ! k)) \<Longrightarrow>
    \<exists>sps. split_loop ts s d cur i0 = Some sps \<and> spans_ok s (pos cur) sps \<and> tokens_covered d s ts i0 sps"
proof (induction i0 arbitrary: cur rule: index_induct [of "length ts"])
  case (past i0)
  then have "skip_trivial ts i0 = i0" by (subst skip_trivial.simps) simp
  with past show ?case by (subst split_loop.simps) (auto simp: tokens_covered_def)
next
  case (step i0)
  note t = stream_tiles [OF assms]
  let ?i = "skip_trivial ts i0"
  have ge: "i0 \<le> ?i" by (rule skip_trivial_ge)
  show ?case
  proof (cases "?i < length ts")
    case False
    then have "tokens_covered d s ts i0 []" using skip_trivial_between [of i0 _ ts] by (force simp: tokens_covered_def)
    with False show ?thesis by (subst split_loop.simps) simp
  next
    case i: True
    show ?thesis
    proof (cases "lone_slash_without_statement d s (ts ! ?i)")
      case True
      have "\<exists>sps. split_loop ts s d cur (?i + 1) = Some sps \<and> spans_ok s (pos cur) sps \<and>
          tokens_covered d s ts (?i + 1) sps"
        using step ge by (intro step.IH) auto
      then obtain sps where sps: "split_loop ts s d cur (?i + 1) = Some sps" "spans_ok s (pos cur) sps"
        "tokens_covered d s ts (?i + 1) sps" by blast
      have "tokens_covered d s ts i0 sps"
        unfolding tokens_covered_def
      proof (intro allI impI)
        fix k assume k: "i0 \<le> k \<and> k < length ts \<and> \<not> is_trivial (kind (ts ! k))"
        then have "\<not> k < ?i" using skip_trivial_between [of i0 k ts] by auto
        then consider "k = ?i" | "?i + 1 \<le> k" by linarith
        then show "lone_slash_without_statement d s (ts ! k) \<or>
            (\<exists>sp \<in> set sps. content_start sp \<le> start (ts ! k) \<and> tok_end (ts ! k) \<le> full_end sp)"
          using True sps(3) k by cases (auto simp: tokens_covered_def)
      qed
      with sps i True show ?thesis by (subst split_loop.simps) simp
    next
      case False
      let ?cs = "start (ts ! ?i)"
      let ?oc = "scan_statement ts s d ?i ?cs"
      have ok: "outcome_ok s ts ?i ?oc" by (rule ends_from_ok [OF scan_statement_ends assms i])
      have next_i: "?i < next_i ?oc" by (rule scan_statement_next [OF i])
      obtain cur1 where c1: "advance_to s cur ?cs = Some cur1" "pos cur1 = ?cs" "cursor_at s cur1"
        using advance_to_ok [OF step.prems(1) step.prems(2) [OF ge i skip_trivial_stop [OF i]] tiles_boundary(1) [OF t i]]
        by blast
      obtain cur2 where c2: "advance_to s cur1 (oc_full_end ?oc) = Some cur2" "pos cur2 = oc_full_end ?oc"
        "cursor_at s cur2"
        using advance_to_ok [OF c1(3), of "oc_full_end ?oc"] ok c1(2) by (auto simp: outcome_ok_def)
      obtain sps where sps: "split_loop ts s d cur2 (next_i ?oc) = Some sps" "spans_ok s (oc_full_end ?oc) sps"
        "tokens_covered d s ts (next_i ?oc) sps"
        using step.IH [of "next_i ?oc" cur2] next_i ge c2 ok unfolding outcome_ok_def by auto
      let ?sp = "make_span ?cs cur1 ?oc"
      have "spans_ok s (pos cur) (?sp # sps)"
        using ok sps(2) c1 step.prems(2) [OF ge i skip_trivial_stop [OF i]] tiles_boundary(1) [OF t i]
        by (simp add: make_span_def outcome_ok_def cursor_at_def)
      moreover have "tokens_covered d s ts i0 (?sp # sps)"
        unfolding tokens_covered_def
      proof (intro allI impI)
        fix k assume k: "i0 \<le> k \<and> k < length ts \<and> \<not> is_trivial (kind (ts ! k))"
        then consider "?i \<le> k" "k < next_i ?oc" | "next_i ?oc \<le> k"
          using skip_trivial_between [of i0 k ts] by (cases "k < ?i") force+
        then show "lone_slash_without_statement d s (ts ! k) \<or>
            (\<exists>sp \<in> set (?sp # sps). content_start sp \<le> start (ts ! k) \<and> tok_end (ts ! k) \<le> full_end sp)"
        proof cases
          case 1
          then show ?thesis using ok tiles_start_mono(1) [OF t 1(1)] k by (simp add: make_span_def outcome_ok_def)
        next
          case 2
          with sps(3) k show ?thesis by (auto simp: tokens_covered_def)
        qed
      qed
      ultimately show ?thesis using i False c1(1) c2(1) sps(1) by (subst split_loop.simps) (simp add: Let_def)
    qed
  qed
qed

section \<open>The interface to the lexer\<close>

locale token_source =
  fixes tokens :: "unicode \<Rightarrow> sql_dialect \<Rightarrow> ustr \<Rightarrow> token list option"
  assumes total: "wf_dialect d \<Longrightarrow> \<exists>ts. tokens u d s = Some ts"
    and stream: "wf_dialect d \<Longrightarrow> tokens u d s = Some ts \<Longrightarrow> stream_ok s ts"
begin

lemma split_loop_returns:
  assumes "wf_dialect d" and "tokens u d s = Some ts"
  shows "\<exists>sps. split_loop ts s d position_new 0 = Some sps \<and> spans_ok s 0 sps \<and> tokens_covered d s ts 0 sps"
  using split_loop_ok [OF stream [OF assms] cursor_at_new, of 0 d] by (simp add: position_new_def)

lemma splits:
  assumes "wf_dialect d"
  obtains ts sps where "tokens u d s = Some ts" "stream_ok s ts" "split_loop ts s d position_new 0 = Some sps"
    "spans_ok s 0 sps" "tokens_covered d s ts 0 sps"
  using total [OF assms] split_loop_returns [OF assms] stream [OF assms] by metis

end

interpretation sql_lexer: token_source tokenize
  using tokenize_tiles tokenize_stream_ok by unfold_locales blast+

text \<open>Where a span of the result comes from.\<close>

lemma split_loop_elem:
  assumes "split_loop ts s d cur i0 = Some sps" and "sp \<in> set sps"
  obtains i cur' where "i < length ts" and "\<not> lone_slash_without_statement d s (ts ! i)"
    and "sp = make_span (start (ts ! i)) cur' (scan_statement ts s d i (start (ts ! i)))"
  using assms
proof (induction i0 arbitrary: cur sps thesis rule: index_induct [of "length ts"])
  case (past i0)
  then have "skip_trivial ts i0 = i0" by (subst skip_trivial.simps) simp
  with past show ?case by (subst (asm) split_loop.simps) simp
next
  case (step i0)
  let ?i = "skip_trivial ts i0"
  have ge: "i0 \<le> ?i" by (rule skip_trivial_ge)
  show ?case
  proof (cases "?i < length ts \<and> \<not> lone_slash_without_statement d s (ts ! ?i)")
    case True
    let ?oc = "scan_statement ts s d ?i (start (ts ! ?i))"
    have n: "i0 < next_i ?oc" using scan_statement_next [of ?i ts s d] True ge by (meson le_less_trans)
    from True step.prems(2) obtain cur1 cur2 sps' where
      r: "split_loop ts s d cur2 (next_i ?oc) = Some sps'" and sps: "sps = make_span (start (ts ! ?i)) cur1 ?oc # sps'"
      by (subst (asm) split_loop.simps) (auto simp: Let_def split: option.splits)
    show ?thesis
    proof (cases "sp \<in> set sps'")
      case True
      then show ?thesis using step.IH [OF n _ r] step.prems(1) by blast
    next
      case False
      with sps step.prems(1,3) True \<open>?i < length ts \<and> _\<close> show ?thesis by auto
    qed
  next
    case False
    with step.prems(2,3) have "?i < length ts" "split_loop ts s d cur (?i + 1) = Some sps"
      by (subst (asm) split_loop.simps; auto simp: Let_def split: if_splits)+
    with step.IH [of "?i + 1"] ge step.prems(1,3) show ?thesis by (metis Suc_eq_plus1 le_imp_less_Suc)
  qed
qed

lemma split_statements_elem:
  assumes "split_statements u d s = Some sps" and "tokenize u d s = Some ts" and "sp \<in> set sps"
  obtains i cur' where "i < length ts" and "\<not> lone_slash_without_statement d s (ts ! i)"
    and "sp = make_span (start (ts ! i)) cur' (scan_statement ts s d i (start (ts ! i)))"
  using assms split_loop_elem [of ts s d position_new 0 sps sp] by (auto simp: split_statements_def)

section \<open>Properties\<close>

text \<open>
  C2. Splitting never fails: for every script and every descriptor without an empty comment
  delimiter \<^verbatim>\<open>split_statements\<close> returns (its position cursor never has to move backwards),
  and its spans are in order, disjoint, within the text, nonempty, with
  \<^verbatim>\<open>content_start <= content_end <= full_end\<close>, all three on character boundaries (so that
  taking a span's text does not panic), and carry the line and column of their first
  character.
\<close>

theorem split_statements_spans:
  assumes "wf_dialect d"
  shows "\<exists>sps. split_statements u d s = Some sps \<and> spans_ok s 0 sps"
  by (rule sql_lexer.splits [OF assms, of u s]) (simp add: split_statements_def)

theorem split_statements_spans_witness:
  "\<exists>sps. split_statements ascii_unicode oracle_dialect (us ''BEGIN x; END; y'') = Some sps \<and>
     spans_ok (us ''BEGIN x; END; y'') 0 sps"
  by (rule split_statements_spans [OF wf_oracle_dialect])


lemma example_tokens:
  "tokenize ascii_unicode oracle_dialect (us ''x;'') =
     Some [\<lparr>kind = Identifier, start = 0, tok_end = 1\<rparr>, \<lparr>kind = Operator, start = 1, tok_end = 2\<rparr>]"
  by code_simp

lemma example_split:
  "split_statements ascii_unicode oracle_dialect (us ''x;'') =
     Some [\<lparr>content_start = 0, content_end = 1, full_end = 2, start_line = 1, start_column = 1,
       span_kind = Plain, span_ended_by = Terminator, terminated = True\<rparr>]"
  by code_simp


subsection \<open>Why a statement ended\<close>

definition ending_ok :: "sql_dialect \<Rightarrow> statement_kind \<Rightarrow> ended_by \<Rightarrow> bool \<Rightarrow> bool" where
  "ending_ok d k e term \<longleftrightarrow>
     (case e of Terminator \<Rightarrow> k = Plain \<and> term
      | SlashLine \<Rightarrow> term
      | InferredBlockEnd \<Rightarrow> k = Block \<and> term = block_may_end_without_slash d
      | EndOfInput \<Rightarrow> \<not> term)"

lemma ends_from_ending: "ends_from ts s d j cs oc \<Longrightarrow> ending_ok d (oc_kind oc) (oc_ended_by oc) (oc_terminated oc)"
  by (induction rule: ends_from.induct)
    (auto simp: ending_ok_def ran_to_eof_def Let_def end_at_slash_line_def finish_with_maybe_slash_def
      split: option.splits)

lemma ends_from_last:
  assumes "ends_from ts s d j cs oc" and "oc_full_end oc < tok_end (last ts)" and "ts \<noteq> []"
  shows "oc_ended_by oc \<noteq> EndOfInput"
  using assms by cases (auto simp: ran_to_eof_def Let_def end_at_slash_line_def finish_with_maybe_slash_def
      split: option.splits if_splits)

text \<open>
  Why a statement ended decides its kind and whether it counts as terminated: only a
  plain statement ends at a bare terminator (inside a block a terminator is content), only a
  block ends by its own structure, and then it is terminated exactly when the descriptor
  allows a block without a slash line; a slash line terminates either kind; a statement cut
  by the end of the text is not terminated, and it is the last one of the script.
\<close>

theorem statement_endings:
  assumes "wf_dialect d" and "split_statements u d s = Some sps" and "sp \<in> set sps"
  shows "ending_ok d (span_kind sp) (span_ended_by sp) (terminated sp) \<and>
    (span_ended_by sp = EndOfInput \<longrightarrow> full_end sp = byte_len s)"
proof -
  obtain ts where ts: "tokenize u d s = Some ts" using assms(2) by (auto simp: split_statements_def split: option.splits)
  obtain i cur where i: "i < length ts" and sp: "sp = make_span (start (ts ! i)) cur (scan_statement ts s d i (start (ts ! i)))"
    by (rule split_statements_elem [OF assms(2) ts assms(3)])
  let ?oc = "scan_statement ts s d i (start (ts ! i))"
  have t: "tiles 0 s ts" using tokenize_stream_ok [OF assms(1) ts] by (rule stream_tiles)
  have e: "ends_from ts s d i (start (ts ! i)) ?oc" by (rule scan_statement_ends)
  have ne: "ts \<noteq> []" using i by auto
  have "tok_end (last ts) = byte_len s" by (simp add: tiles_last_end [OF t ne])
  moreover have "oc_full_end ?oc \<le> byte_len s"
    using ends_from_ok [OF e tokenize_stream_ok [OF assms(1) ts] i] by (simp add: outcome_ok_def)
  ultimately have "oc_ended_by ?oc = EndOfInput \<longrightarrow> oc_full_end ?oc = byte_len s"
    using ends_from_last [OF e _ ne] by (metis le_neq_implies_less)
  with ends_from_ending [OF e] sp show ?thesis by (simp add: make_span_def)
qed

theorem statement_endings_witness:
  "ending_ok oracle_dialect Plain Terminator True"
  using statement_endings [OF wf_oracle_dialect example_split, of
    "\<lparr>content_start = 0, content_end = 1, full_end = 2, start_line = 1, start_column = 1,
       span_kind = Plain, span_ended_by = Terminator, terminated = True\<rparr>"] by simp

subsection \<open>Plain statements\<close>

lemma block_scans_kind:
  "oc_kind (ran_to_eof ts s k) = k" "oc_kind (end_at_slash_line s t k n cs) = k"
  "oc_kind (finish_with_maybe_slash ts s d ce se n k) = k"
  by (auto simp: ran_to_eof_def Let_def end_at_slash_line_def finish_with_maybe_slash_def split: option.splits)

lemma scan_opaque_source_kind: "oc_kind (scan_opaque_source ts s i d cs) = Block"
  by (induction ts s i d cs rule: scan_opaque_source.induct)
    (subst scan_opaque_source.simps, simp add: Let_def block_scans_kind)

lemma scan_paren_delimited_kind: "oc_kind (scan_paren_delimited ts s i d cs dp) = Block"
  by (induction ts s i d cs dp rule: scan_paren_delimited.induct)
    (subst scan_paren_delimited.simps, simp add: Let_def block_scans_kind)

lemma scan_to_terminator_kind: "oc_kind (scan_to_terminator ts s i d cs) = Block"
  by (induction ts s i d cs rule: scan_to_terminator.induct)
    (subst scan_to_terminator.simps, simp add: Let_def block_scans_kind)

lemma scan_structured_loop_kind: "oc_kind (scan_structured_loop ts s i d cs st) = Block"
proof (induction i arbitrary: st rule: index_induct [of "length ts"])
  case (past i)
  then show ?case by (subst scan_structured_loop.simps) (simp add: block_scans_kind)
next
  case (step i)
  obtain r b where h: "scan_header ts s (i + 1) d 0 = (r, b)" by fastforce
  have "i < r" using scan_header_ge [of "i + 1" ts s d 0] step(1) h by simp
  moreover have "i < skip_end_qualifier ts s (i + 1) d" using skip_end_qualifier_ge [of "i + 1" ts s d] by simp
  ultimately show ?case using step
    by (subst scan_structured_loop.simps)
      (simp add: Let_def h [simplified] block_scans_kind scan_to_terminator_kind finish_structured_def)
qed

lemma scan_statement_plain:
  assumes "oc_kind (scan_statement ts s d i cs) = Plain"
  shows "scan_statement ts s d i cs = scan_plain ts s i d cs"
  using assms by (auto simp: scan_statement_def scan_structured_def scan_structured_loop_kind
      scan_opaque_source_kind scan_paren_delimited_kind split: option.splits block_kind.splits)

lemma scan_plain_first:
  assumes "tiles 0 s ts" and "cs \<le> start (ts ! i)"
  shows "i \<le> k \<Longrightarrow> k < length ts \<Longrightarrow> tok_end (ts ! k) \<le> oc_content_end (scan_plain ts s i d cs) \<Longrightarrow>
    \<not> is_terminator s d (ts ! k) \<and> \<not> (slash_terminates_plain d \<and> slash_line_token s (ts ! k))"
  using assms(2)
proof (induction i rule: index_induct [of "length ts"])
  case (step i)
  have inside: "start (ts ! i) < tok_end (ts ! k)"
    using tiles_start_less [OF assms(1) step(1)] tiles_start_mono(2) [OF assms(1) step(3,4)] by simp
  have trim: "byte_len (trim_end (take_bytes (start (ts ! i)) s)) \<le> start (ts ! i)"
    using take_bytes_boundary [OF tiles_boundary(1) [OF assms(1) step(1)]] trim_end_prefix
    by (metis byte_len_append le_add1)
  show ?case
  proof (cases "(slash_terminates_plain d \<and> slash_line_token s (ts ! i)) \<or> is_terminator s d (ts ! i)")
    case True
    then have "oc_content_end (scan_plain ts s i d cs) \<le> start (ts ! i)"
      using step(1,6) trim by (subst scan_plain.simps) (auto simp: Let_def end_at_slash_line_def)
    with step(5) inside show ?thesis by simp
  next
    case False
    then have rec: "scan_plain ts s i d cs = scan_plain ts s (i + 1) d cs"
      using step(1) by (subst scan_plain.simps) (auto simp: Let_def)
    show ?thesis
    proof (cases "i = k")
      case True
      with False show ?thesis by simp
    next
      case False
      then have k: "i + 1 \<le> k" using step(3) by simp
      then have "cs \<le> start (ts ! (i + 1))"
        using tiles_start_mono(1) [OF assms(1), of i "i + 1"] step(4,6) by simp
      with step(2) [of "i + 1"] step(4,5) k rec show ?thesis by simp
    qed
  qed
qed simp

text \<open>
  A plain statement ends at the first place it can: no token of its content is a
  statement terminator, nor, where the descriptor gives a lone slash line authority over
  plain statements, a lone slash line.
\<close>

theorem plain_statement_ends_first:
  assumes "wf_dialect d" and "split_statements u d s = Some sps" and "tokenize u d s = Some ts"
    and "sp \<in> set sps" and "span_kind sp = Plain"
    and "t \<in> set ts" and "content_start sp \<le> start t" and "tok_end t \<le> content_end sp"
  shows "\<not> is_terminator s d t \<and> \<not> (slash_terminates_plain d \<and> slash_line_token s t)"
proof -
  obtain i cur where i: "i < length ts" and sp: "sp = make_span (start (ts ! i)) cur (scan_statement ts s d i (start (ts ! i)))"
    by (rule split_statements_elem [OF assms(2,3,4)])
  obtain k where k: "k < length ts" "t = ts ! k" using assms(6) by (auto simp: in_set_conv_nth)
  have t: "tiles 0 s ts" using tokenize_stream_ok [OF assms(1,3)] by (rule stream_tiles)
  have "i \<le> k"
  proof (rule ccontr)
    assume "\<not> i \<le> k"
    then have "k < i" by simp
    with tiles_next_start [OF t this i] tiles_start_less [OF t k(1)] assms(7) k(2) sp show False
      by (simp add: make_span_def)
  qed
  moreover have "scan_statement ts s d i (start (ts ! i)) = scan_plain ts s i d (start (ts ! i))"
    using assms(5) sp by (intro scan_statement_plain) (simp add: make_span_def)
  ultimately show ?thesis using scan_plain_first [OF t, of "start (ts ! i)" i k d] k assms(8) sp
    by (simp add: make_span_def)
qed

theorem plain_statement_ends_first_witness:
  "\<not> is_terminator (us ''x;'') oracle_dialect \<lparr>kind = Identifier, start = 0, tok_end = 1\<rparr> \<and>
   \<not> (slash_terminates_plain oracle_dialect \<and>
       slash_line_token (us ''x;'') \<lparr>kind = Identifier, start = 0, tok_end = 1\<rparr>)"
  by (rule plain_statement_ends_first [OF wf_oracle_dialect example_split example_tokens, where sp =
      "\<lparr>content_start = 0, content_end = 1, full_end = 2, start_line = 1, start_column = 1,
       span_kind = Plain, span_ended_by = Terminator, terminated = True\<rparr>"]) simp_all

subsection \<open>The statement at a cursor\<close>

lemma max_by_full_end_None [simp]: "max_by_full_end xs = None \<longleftrightarrow> xs = []"
  by (cases xs) (auto split: option.splits)

lemma max_by_full_end_Some:
  "max_by_full_end xs = Some y \<Longrightarrow> y \<in> set xs \<and> (\<forall>x \<in> set xs. full_end x \<le> full_end y)"
  by (induction xs arbitrary: y) (auto split: option.splits if_splits)

lemma floor_char_boundary_props:
  "is_char_boundary s (floor_char_boundary s n) \<and> floor_char_boundary s n \<le> n"
  by (induction s n rule: floor_char_boundary.induct) auto

lemma set_slice_mono:
  assumes "is_char_boundary s a" "is_char_boundary s b" "is_char_boundary s c" "a \<le> b" "b \<le> c"
  shows "set (slice s b c) \<subseteq> set (slice s a c)"
proof -
  obtain x y z where x: "s = x @ y @ z" "a = byte_len x" "b = byte_len x + byte_len y"
    by (rule boundary_split [OF assms(1,2,4)])
  obtain x' y' z' where x': "s = x' @ y' @ z'" "b = byte_len x'" "c = byte_len x' + byte_len y'"
    by (rule boundary_split [OF assms(2,3,5)])
  have "x' = x @ y"
    using x x' take_bytes_append [of x' "y' @ z'"] take_bytes_append [of "x @ y" z] by simp
  with x x' have s: "s = x @ (y @ y') @ z'" by simp
  have "slice s b c = y'" unfolding x'(1) using x'(2,3) by (simp add: slice_append)
  moreover have "slice s a c = y @ y'" unfolding s using x x' by (intro slice_append) simp_all
  ultimately show ?thesis by simp
qed

lemma spans_ok_boundary: "spans_ok s p sps \<Longrightarrow> sp \<in> set sps \<Longrightarrow> is_char_boundary s (full_end sp)"
  by (induction s p sps rule: spans_ok.induct) auto

text \<open>The span holds the offset, from its first character through the end of its terminator.\<close>

definition span_holds :: "statement_span \<Rightarrow> nat \<Rightarrow> bool" where
  "span_holds sp off \<longleftrightarrow> content_start sp \<le> off \<and> off \<le> full_end sp"

text \<open>
  \<^verbatim>\<open>statement_at\<close> returns for every offset, also one out of range or inside a
  character, which is first moved back to a character boundary.  The statement it gives holds
  that offset, or no statement does and it is the nearest one before the offset, on the same
  line; it gives none only if no statement holds the offset and a line break separates the
  offset from every statement before it.
\<close>

theorem statement_at_correct:
  assumes "wf_dialect d" and "at = floor_char_boundary s (min off (byte_len s))"
  shows "is_char_boundary s at \<and> at \<le> off \<and>
    (\<exists>sps r. split_statements u d s = Some sps \<and> statement_at u d s off = Some r \<and>
      (case r of
        Some sp \<Rightarrow> sp \<in> set sps \<and> (span_holds sp at \<or>
          (\<forall>sp' \<in> set sps. \<not> span_holds sp' at \<and> (full_end sp' \<le> at \<longrightarrow> full_end sp' \<le> full_end sp)) \<and>
          full_end sp \<le> at \<and> 10 \<notin> set (slice s (full_end sp) at))
      | None \<Rightarrow> \<forall>sp \<in> set sps. \<not> span_holds sp at \<and>
          (full_end sp \<le> at \<longrightarrow> 10 \<in> set (slice s (full_end sp) at))))"
proof -
  have b: "is_char_boundary s at" "at \<le> off" using floor_char_boundary_props [of s "min off (byte_len s)"] assms(2) by auto
  obtain ts sps where ts: "tokenize u d s = Some ts" "split_loop ts s d position_new 0 = Some sps" "spans_ok s 0 sps"
    by (rule sql_lexer.splits [OF assms(1)])
  have sps: "split_statements u d s = Some sps" using ts by (simp add: split_statements_def)
  let ?before = "filter (\<lambda>sp. full_end sp \<le> at) sps"
  have "case span_at s sps off of
        Some sp \<Rightarrow> sp \<in> set sps \<and> (span_holds sp at \<or>
          (\<forall>sp' \<in> set sps. \<not> span_holds sp' at \<and> (full_end sp' \<le> at \<longrightarrow> full_end sp' \<le> full_end sp)) \<and>
          full_end sp \<le> at \<and> 10 \<notin> set (slice s (full_end sp) at))
      | None \<Rightarrow> \<forall>sp \<in> set sps. \<not> span_holds sp at \<and>
          (full_end sp \<le> at \<longrightarrow> 10 \<in> set (slice s (full_end sp) at))"
  proof (cases "find (\<lambda>sp. span_holds sp at) sps")
    case (Some hit)
    then have "hit \<in> set sps" "span_holds hit at" by (auto simp: find_Some_iff)
    with Some show ?thesis by (simp add: span_at_def span_holds_def flip: assms(2))
  next
    case none: None
    then have no: "\<forall>sp \<in> set sps. \<not> span_holds sp at" by (auto simp: find_None_iff)
    show ?thesis
    proof (cases "max_by_full_end ?before")
      case None
      with none no show ?thesis by (auto simp: span_at_def span_holds_def filter_empty_conv simp flip: assms(2))
    next
      case (Some pre)
      from max_by_full_end_Some [OF Some] have pre: "pre \<in> set sps" "full_end pre \<le> at"
        "\<forall>sp \<in> set sps. full_end sp \<le> at \<longrightarrow> full_end sp \<le> full_end pre" by auto
      have "10 \<in> set (slice s (full_end sp) at)"
        if "10 \<in> set (slice s (full_end pre) at)" "sp \<in> set sps" "full_end sp \<le> at" for sp
        using set_slice_mono [OF spans_ok_boundary [OF ts(3) that(2)] spans_ok_boundary [OF ts(3) pre(1)] b(1)] that pre
        by blast
      with Some none no pre show ?thesis by (auto simp: span_at_def span_holds_def simp flip: assms(2))
    qed
  qed
  with sps b show ?thesis by (simp add: statement_at_def)
qed

theorem statement_at_correct_witness:
  "is_char_boundary (us ''x;'') (floor_char_boundary (us ''x;'') (min 5 (byte_len (us ''x;'')))) \<and>
    floor_char_boundary (us ''x;'') (min 5 (byte_len (us ''x;''))) \<le> 5"
  using statement_at_correct [OF wf_oracle_dialect refl, of "us ''x;''" 5 ascii_unicode] by blast

end
