(* ===== verification/Sql_Block_Nesting.thy ===== *)
theory Sql_Block_Nesting
  imports Sql_Splitter_Correct
begin

text \<open>
  The block-termination rule of \<^verbatim>\<open>splitter.rs\<close> against a grammar of anonymous blocks: a
  block with well-nested content ends at the terminator of its own \<^verbatim>\<open>END\<close>, whatever
  blocks, loops and parentheses its content holds.
\<close>

section \<open>A grammar of block content\<close>








section \<open>The scan keeps its depth over block content\<close>

text \<open>
  The state of the scan in a frame where no member owes a body; \<open>a\<close> says whether the frame's
  own body has been opened.
\<close>

definition in_frame :: "bool \<Rightarrow> int \<Rightarrow> int \<Rightarrow> block_state" where
  "in_frame a n p = \<lparr>depth = n, pending_bodies = 0, absorbed_body = a, is_compound = False, paren_depth = p\<rparr>"


lemma in_frame_simps [simp]:
  "depth (in_frame a n p) = n" "pending_bodies (in_frame a n p) = 0" "paren_depth (in_frame a n p) = p"
  "absorbed_body (in_frame a n p) = a" "\<not> is_compound (in_frame a n p)"
  "(in_frame a n p)\<lparr>depth := m\<rparr> = in_frame a m p" "(in_frame a n p)\<lparr>paren_depth := m\<rparr> = in_frame a n m"
  "(in_frame a n p)\<lparr>absorbed_body := b\<rparr> = in_frame b n p"
  "awaiting_body (in_frame a n p) \<longleftrightarrow> n = 0 \<and> \<not> a"
  by (simp_all add: in_frame_def awaiting_body_def)




lemma nth_here: "ts = pre @ t # r \<Longrightarrow> i = length pre \<Longrightarrow> i < length ts \<and> ts ! i = t"
  by simp












section \<open>The declarations of a block\<close>





section \<open>The end of the block\<close>



section \<open>Oracle's anonymous blocks\<close>









section \<open>Properties\<close>


text \<open>A block that holds a nested construct, and its tokens.\<close>

definition nested_text :: ustr where
  "nested_text = us ''BEGIN IF a; END IF; END;''"

definition nested_body :: "token list" where
  "nested_body =
     [\<lparr>kind = Whitespace, start = 5, tok_end = 6\<rparr>, \<lparr>kind = Keyword, start = 6, tok_end = 8\<rparr>,
      \<lparr>kind = Whitespace, start = 8, tok_end = 9\<rparr>, \<lparr>kind = Identifier, start = 9, tok_end = 10\<rparr>,
      \<lparr>kind = Operator, start = 10, tok_end = 11\<rparr>, \<lparr>kind = Whitespace, start = 11, tok_end = 12\<rparr>,
      \<lparr>kind = Keyword, start = 12, tok_end = 15\<rparr>, \<lparr>kind = Whitespace, start = 15, tok_end = 16\<rparr>,
      \<lparr>kind = Keyword, start = 16, tok_end = 18\<rparr>, \<lparr>kind = Operator, start = 18, tok_end = 19\<rparr>,
      \<lparr>kind = Whitespace, start = 19, tok_end = 20\<rparr>]"

definition nested_tokens :: "token list" where
  "nested_tokens = [] @ [\<lparr>kind = Keyword, start = 0, tok_end = 5\<rparr>] @ nested_body @
     \<lparr>kind = Keyword, start = 20, tok_end = 23\<rparr> # [] @ \<lparr>kind = Operator, start = 23, tok_end = 24\<rparr> # []"

lemma nested_tokens_lexed: "tokenize ascii_unicode oracle_dialect nested_text = Some nested_tokens"
  by code_simp



section \<open>Where the rule fails\<close>

text \<open>
  A script on which a statement is cut out of the middle of a block.  A \<^verbatim>\<open>CASE\<close>
  expression stands right before the \<^verbatim>\<open>LOOP\<close> of a loop: the scan takes
  \<^verbatim>\<open>LOOP\<close> for the qualifier of the expression's \<^verbatim>\<open>END\<close>, so that the loop's own
  \<^verbatim>\<open>END\<close> closes the block, and \<^verbatim>\<open>DROP t\<close> from inside the block becomes a
  terminated statement of its own.
\<close>

theorem case_before_loop_splits_block:
  "map_option (map (\<lambda>sp. (content_start sp, full_end sp, span_kind sp, terminated sp)))
     (split_statements ascii_unicode oracle_dialect
       (us ''BEGIN WHILE CASE a END LOOP p; END LOOP; DROP t; END;'')) =
   Some [(0, 40, Block, True), (41, 48, Plain, True), (49, 53, Plain, True)]"
  by code_simp

text \<open>
  A script on which a lone slash line does not end the open block: after an
  \<^verbatim>\<open>END\<close> without terminator the block runs over the slash line and the next statement to
  the end of the script.
\<close>

theorem slash_after_bare_end_ignored:
  "map_option (map (\<lambda>sp. (content_start sp, full_end sp, span_kind sp, span_ended_by sp)))
     (split_statements ascii_unicode oracle_dialect (us ''BEGIN p; END'' @ [10, 47, 10] @ us ''DROP t;'')) =
   Some [(0, 22, Block, EndOfInput)]"
  by code_simp

end
