(* ===== verification/Driver_Error.thy ===== *)
theory Driver_Error
  imports Reldex_Prelude
begin

text \<open>
  \<^verbatim>\<open>crates/db-driver-api/src/error.rs\<close>: the error every fallible operation of the
  contract returns, and \<^verbatim>\<open>crates/db-core/src/ids.rs\<close>: the identifiers of sessions,
  results and large objects.  The \<^verbatim>\<open>source\<close> of an error (a boxed foreign error) is left
  out: nothing in the modelled code reads it.
\<close>

section \<open>Errors\<close>

datatype error_kind =
  Configuration | Connection | Authentication | NetworkLost | Timeout | Cancelled | Syntax
| Constraint | Permission | Transaction | Resource | DataConversion | UnsupportedKind
| DriverInternal | Other

fun kind_as_str :: "error_kind \<Rightarrow> string" where
  "kind_as_str Configuration = ''configuration''"
| "kind_as_str Connection = ''connection''"
| "kind_as_str Authentication = ''authentication''"
| "kind_as_str NetworkLost = ''network-lost''"
| "kind_as_str Timeout = ''timeout''"
| "kind_as_str Cancelled = ''cancelled''"
| "kind_as_str Syntax = ''syntax''"
| "kind_as_str Constraint = ''constraint''"
| "kind_as_str Permission = ''permission''"
| "kind_as_str Transaction = ''transaction''"
| "kind_as_str Resource = ''resource''"
| "kind_as_str DataConversion = ''data-conversion''"
| "kind_as_str UnsupportedKind = ''unsupported''"
| "kind_as_str DriverInternal = ''driver-internal''"
| "kind_as_str Other = ''other''"

datatype session_state = Usable | NeedsValidation | Lost

fun initial_for :: "error_kind \<Rightarrow> session_state" where
  "initial_for NetworkLost = Lost"
| "initial_for Connection = NeedsValidation"
| "initial_for Timeout = NeedsValidation"
| "initial_for Cancelled = NeedsValidation"
| "initial_for DriverInternal = NeedsValidation"
| "initial_for _ = Usable"

record native_error =
  native_code :: int
  native_message :: ustr

record sql_position =
  char_offset :: "nat option"
  pos_line :: "nat option"
  pos_column :: "nat option"

definition at_char_offset :: "nat \<Rightarrow> sql_position" where
  "at_char_offset n = \<lparr>char_offset = Some n, pos_line = None, pos_column = None\<rparr>"

definition at_line_column :: "nat \<Rightarrow> nat \<Rightarrow> sql_position" where
  "at_line_column l c = \<lparr>char_offset = None, pos_line = Some l, pos_column = Some c\<rparr>"

definition position_is_empty :: "sql_position \<Rightarrow> bool" where
  "position_is_empty p \<longleftrightarrow> char_offset p = None \<and> pos_line p = None \<and> pos_column p = None"

text \<open>The byte offset of the character with the given index; one past the last is allowed.\<close>

definition byte_offset_in :: "sql_position \<Rightarrow> ustr \<Rightarrow> nat option" where
  "byte_offset_in p sql =
     (case char_offset p of None \<Rightarrow> None
      | Some n \<Rightarrow>
          if n < length sql then Some (byte_len (take n sql))
          else if length sql = n then Some (byte_len sql) else None)"

record db_error =
  error_kind :: error_kind
  error_session_state :: session_state
  retryable :: bool
  error_message :: ustr
  native :: "native_error option"
  position :: "sql_position option"

definition error_new :: "error_kind \<Rightarrow> ustr \<Rightarrow> db_error" where
  "error_new k msg = \<lparr>error_kind = k, error_session_state = initial_for k, retryable = False,
     error_message = msg, native = None, position = None\<rparr>"

definition error_cancelled :: db_error where
  "error_cancelled = error_new Cancelled (us ''operation cancelled'')"

definition error_unsupported :: "ustr \<Rightarrow> db_error" where
  "error_unsupported capability = error_new UnsupportedKind (us ''driver does not support '' @ capability)"

definition error_internal :: "ustr \<Rightarrow> db_error" where
  "error_internal msg = error_new DriverInternal msg"

definition with_session_state :: "session_state \<Rightarrow> db_error \<Rightarrow> db_error" where
  "with_session_state st e = e\<lparr>error_session_state := st\<rparr>"

definition connection_closed :: "ustr \<Rightarrow> db_error" where
  "connection_closed handle = with_session_state Lost
     (error_new DriverInternal (handle @ us '' was used after its connection was closed''))"

definition with_native :: "native_error \<Rightarrow> db_error \<Rightarrow> db_error" where
  "with_native n e = e\<lparr>native := Some n\<rparr>"

definition with_position :: "sql_position \<Rightarrow> db_error \<Rightarrow> db_error" where
  "with_position p e = e\<lparr>position := Some p\<rparr>"

definition with_retryable :: "bool \<Rightarrow> db_error \<Rightarrow> db_error" where
  "with_retryable b e = e\<lparr>retryable := b\<rparr>"

definition is_cancelled :: "db_error \<Rightarrow> bool" where
  "is_cancelled e \<longleftrightarrow> error_kind e = Cancelled"

definition session_may_be_unusable :: "db_error \<Rightarrow> bool" where
  "session_may_be_unusable e \<longleftrightarrow> error_session_state e \<noteq> Usable"

subsection \<open>Display\<close>

fun nat_text :: "nat \<Rightarrow> ustr" where
  "nat_text n = (if n < 10 then [48 + int n] else nat_text (n div 10) @ [48 + int (n mod 10)])"

declare nat_text.simps [simp del]

definition int_text :: "int \<Rightarrow> ustr" where
  "int_text i = (if i < 0 then 45 # nat_text (nat (- i)) else nat_text (nat i))"

definition native_display :: "native_error \<Rightarrow> ustr" where
  "native_display n = int_text (native_code n) @ us '': '' @ native_message n"

definition position_display :: "sql_position \<Rightarrow> ustr" where
  "position_display p =
     (case (pos_line p, pos_column p, char_offset p) of
        (Some l, Some c, _) \<Rightarrow> us ''line '' @ nat_text l @ us '', column '' @ nat_text c
      | (Some l, None, _) \<Rightarrow> us ''line '' @ nat_text l
      | (None, _, Some n) \<Rightarrow> us ''character offset '' @ nat_text n
      | (None, _, None) \<Rightarrow> us ''unknown position'')"

definition error_display :: "db_error \<Rightarrow> ustr" where
  "error_display e = us (kind_as_str (error_kind e)) @ us '': '' @ error_message e @
     (case native e of None \<Rightarrow> [] | Some n \<Rightarrow> us '' ['' @ native_display n @ us '']'') @
     (case position e of None \<Rightarrow> []
      | Some p \<Rightarrow> if position_is_empty p then [] else us '' at '' @ position_display p)"

section \<open>Identifiers\<close>

type_synonym session_id = nat

definition UNOWNED :: session_id where "UNOWNED = 0"

record result_id =
  owner :: session_id
  result_set :: nat

record lob_handle =
  lob_owner :: session_id
  serial :: nat

definition result_id_display :: "result_id \<Rightarrow> ustr" where
  "result_id_display r = us ''ResultId#'' @ nat_text (owner r) @ us ''.'' @ nat_text (result_set r)"

section \<open>Properties\<close>

lemma kind_as_str_inj: "kind_as_str k = kind_as_str k' \<longleftrightarrow> k = k'"
  by (cases k; cases k') simp_all

text \<open>
  A character offset maps to the byte offset a driver's error points at: it is a character
  boundary of the statement with exactly that many characters before it, and there is none
  exactly when the statement is shorter.
\<close>

theorem error_offset_is_boundary:
  "byte_offset_in (at_char_offset n) sql =
     (if n \<le> length sql then Some (byte_len (take n sql)) else None) \<and>
   is_char_boundary sql (byte_len (take n sql))"
  using is_char_boundary_prefix [of "take n sql" "drop n sql"]
  by (auto simp: byte_offset_in_def at_char_offset_def)

end
