(* ===== verification/Temporal.thy ===== *)
theory Temporal
  imports Reldex_Prelude
begin

text \<open>
  \<^verbatim>\<open>crates/db-driver-api/src/value/temporal.rs\<close>: timestamps in the mixed Julian and
  Gregorian calendar of the source databases, without a year zero.
\<close>

datatype temporal_error =
  YearOutOfRange | MonthOutOfRange | DayOutOfRange | NonexistentCalendarDate | TimeOutOfRange
| NanosecondOutOfRange | OffsetOutOfRange

datatype time_zone = Unspecified | Offset int

record timestamp =
  year :: int
  month :: nat
  day :: nat
  hour :: nat
  minute :: nat
  second :: nat
  nanosecond :: nat
  zone :: time_zone

definition GREGORIAN_REFORM_YEAR :: int where "GREGORIAN_REFORM_YEAR = 1582"

definition zone_offset :: "int \<Rightarrow> temporal_error + time_zone" where
  "zone_offset m = (if \<not> (-1439 \<le> m \<and> m \<le> 1439) then Inl OffsetOutOfRange else Inr (Offset m))"

definition is_leap_year :: "int \<Rightarrow> bool" where
  "is_leap_year y =
     (let astronomical = (if y < 0 then y + 1 else y) in
      if \<not> 4 dvd astronomical then False
      else if y < GREGORIAN_REFORM_YEAR then True
      else \<not> 100 dvd astronomical \<or> 400 dvd astronomical)"

definition days_in_month :: "int \<Rightarrow> nat \<Rightarrow> nat" where
  "days_in_month y m =
     (if m \<in> {1, 3, 5, 7, 8, 10, 12} then 31 else if m \<in> {4, 6, 9, 11} then 30
      else if m = 2 then (if is_leap_year y then 29 else 28) else 0)"

definition is_in_reform_gap :: "int \<Rightarrow> nat \<Rightarrow> nat \<Rightarrow> bool" where
  "is_in_reform_gap y m d \<longleftrightarrow> y = GREGORIAN_REFORM_YEAR \<and> m = 10 \<and> 5 \<le> d \<and> d \<le> 14"

definition from_source :: "int \<Rightarrow> nat \<Rightarrow> nat \<Rightarrow> nat \<Rightarrow> nat \<Rightarrow> nat \<Rightarrow> temporal_error + timestamp" where
  "from_source y m d h mi s =
     (if \<not> (-4712 \<le> y \<and> y \<le> 9999) \<or> y = 0 then Inl YearOutOfRange
      else if \<not> (1 \<le> m \<and> m \<le> 12) then Inl MonthOutOfRange
      else if d = 0 \<or> d > days_in_month y m then Inl DayOutOfRange
      else if h > 23 \<or> mi > 59 \<or> s > 59 then Inl TimeOutOfRange
      else Inr \<lparr>year = y, month = m, day = d, hour = h, minute = mi, second = s, nanosecond = 0,
             zone = Unspecified\<rparr>)"

definition timestamp_new :: "int \<Rightarrow> nat \<Rightarrow> nat \<Rightarrow> nat \<Rightarrow> nat \<Rightarrow> nat \<Rightarrow> temporal_error + timestamp" where
  "timestamp_new y m d h mi s =
     (case from_source y m d h mi s of Inl e \<Rightarrow> Inl e
      | Inr t \<Rightarrow> if is_in_reform_gap y m d then Inl NonexistentCalendarDate else Inr t)"

definition timestamp_date :: "int \<Rightarrow> nat \<Rightarrow> nat \<Rightarrow> temporal_error + timestamp" where
  "timestamp_date y m d = timestamp_new y m d 0 0 0"

definition with_nanosecond :: "nat \<Rightarrow> timestamp \<Rightarrow> temporal_error + timestamp" where
  "with_nanosecond n t = (if n \<ge> 1000000000 then Inl NanosecondOutOfRange else Inr (t\<lparr>nanosecond := n\<rparr>))"

definition with_zone :: "time_zone \<Rightarrow> timestamp \<Rightarrow> timestamp" where
  "with_zone z t = t\<lparr>zone := z\<rparr>"

section \<open>Display\<close>

text \<open>\<^verbatim>\<open>{:0w}\<close> of a number below \<open>10^w\<close>; every field of the text is below its bound.\<close>

fun pad :: "nat \<Rightarrow> nat \<Rightarrow> ustr" where
  "pad 0 n = []"
| "pad (Suc w) n = pad w (n div 10) @ [48 + int (n mod 10)]"

fun zone_display :: "time_zone \<Rightarrow> ustr" where
  "zone_display Unspecified = []"
| "zone_display (Offset m) =
     (if m < 0 then 45 else 43) # pad 2 (nat \<bar>m\<bar> div 60) @ [58] @ pad 2 (nat \<bar>m\<bar> mod 60)"

definition timestamp_display :: "timestamp \<Rightarrow> ustr" where
  "timestamp_display t =
     (if year t < 0 then [45] else []) @ pad 4 (nat \<bar>year t\<bar>) @
     [45] @ pad 2 (month t) @ [45] @ pad 2 (day t) @ [84] @ pad 2 (hour t) @ [58] @
     pad 2 (minute t) @ [58] @ pad 2 (second t) @
     (if nanosecond t \<noteq> 0 then [46] @ pad 9 (nanosecond t) else []) @ zone_display (zone t)"

section \<open>Well-formed timestamps\<close>

definition wf_zone :: "time_zone \<Rightarrow> bool" where
  "wf_zone z \<longleftrightarrow> (case z of Unspecified \<Rightarrow> True | Offset m \<Rightarrow> -1439 \<le> m \<and> m \<le> 1439)"

definition wf_timestamp :: "timestamp \<Rightarrow> bool" where
  "wf_timestamp t \<longleftrightarrow> -4712 \<le> year t \<and> year t \<le> 9999 \<and> year t \<noteq> 0 \<and> 1 \<le> month t \<and> month t \<le> 12 \<and>
     1 \<le> day t \<and> day t \<le> days_in_month (year t) (month t) \<and> hour t \<le> 23 \<and> minute t \<le> 59 \<and> second t \<le> 59 \<and>
     nanosecond t < 1000000000 \<and> wf_zone (zone t)"

lemma days_in_month_le: "days_in_month y m \<le> 31"
  by (simp add: days_in_month_def)

lemma length_pad [simp]: "length (pad w n) = w"
  by (induction w n rule: pad.induct) auto

lemma pad_inj: "pad w n = pad w m \<Longrightarrow> n < 10 ^ w \<Longrightarrow> m < 10 ^ w \<Longrightarrow> n = m"
proof (induction w arbitrary: n m)
  case (Suc w)
  then have "pad w (n div 10) = pad w (m div 10)" and r: "n mod 10 = m mod 10" by auto
  moreover have "n div 10 < 10 ^ w" "m div 10 < 10 ^ w"
    using Suc.prems(2,3) by (simp_all add: less_mult_imp_div_less mult.commute)
  ultimately have "n div 10 = m div 10" using Suc.IH by blast
  with r show ?case by (metis div_mult_mod_eq)
qed simp

lemma pad_eq_iff [simp]: "n < 10 ^ w \<Longrightarrow> m < 10 ^ w \<Longrightarrow> pad w n = pad w m \<longleftrightarrow> n = m"
  using pad_inj by blast

lemma pad_append_eq:
  "n < 10 ^ w \<Longrightarrow> m < 10 ^ w \<Longrightarrow> pad w n @ r = pad w m @ r' \<longleftrightarrow> n = m \<and> r = r'"
  by (simp add: append_eq_append_conv)

lemma zone_display_inj: "wf_zone z \<Longrightarrow> wf_zone z' \<Longrightarrow> zone_display z = zone_display z' \<Longrightarrow> z = z'"
proof (cases z; cases z')
  fix m m' assume z: "wf_zone z" "wf_zone z'" "zone_display z = zone_display z'" "z = Offset m" "z' = Offset m'"
  have b: "nat \<bar>m\<bar> div 60 < 10 ^ 2" "nat \<bar>m'\<bar> div 60 < 10 ^ 2" "nat \<bar>m\<bar> mod 60 < 10 ^ 2" "nat \<bar>m'\<bar> mod 60 < 10 ^ 2"
  proof -
    have "nat \<bar>m\<bar> \<le> 1439" "nat \<bar>m'\<bar> \<le> 1439" using z(1,2,4,5) by (auto simp: wf_zone_def)
    then have "nat \<bar>m\<bar> div 60 \<le> 1439 div 60" "nat \<bar>m'\<bar> div 60 \<le> 1439 div 60" by (auto intro: div_le_mono)
    then show "nat \<bar>m\<bar> div 60 < 10 ^ 2" "nat \<bar>m'\<bar> div 60 < 10 ^ 2" by simp_all
    have "n mod 60 < 10 ^ 2" for n :: nat by (rule less_trans [of _ 60]) simp_all
    then show "nat \<bar>m\<bar> mod 60 < 10 ^ 2" "nat \<bar>m'\<bar> mod 60 < 10 ^ 2" by blast+
  qed
  from z have sign: "m < 0 \<longleftrightarrow> m' < 0"
    and "pad 2 (nat \<bar>m\<bar> div 60) @ [58] @ pad 2 (nat \<bar>m\<bar> mod 60) = pad 2 (nat \<bar>m'\<bar> div 60) @ [58] @ pad 2 (nat \<bar>m'\<bar> mod 60)"
    by (auto split: if_splits)
  then have "nat \<bar>m\<bar> div 60 = nat \<bar>m'\<bar> div 60" "nat \<bar>m\<bar> mod 60 = nat \<bar>m'\<bar> mod 60"
    using b by (simp_all add: pad_append_eq)
  then have "nat \<bar>m\<bar> = nat \<bar>m'\<bar>" by (metis div_mult_mod_eq)
  with sign have "m = m'" by linarith
  then show "z = z'" using z(4,5) by simp
qed auto

lemma pad_digit: "c \<in> set (pad w n) \<Longrightarrow> 48 \<le> c \<and> c \<le> 57"
  by (induction w n rule: pad.induct) auto

lemma pad_not_minus: "0 < w \<Longrightarrow> pad w n @ r \<noteq> 45 # r'"
  using pad_digit [of 45 w n] by (cases "pad w n") (auto simp flip: length_0_conv)

text \<open>The text after the seconds: an optional fraction, then the zone.\<close>

lemma fraction_zone_inj:
  assumes "(if n \<noteq> 0 then [46] @ pad 9 n else []) @ zone_display z =
      (if n' \<noteq> 0 then [46] @ pad 9 n' else []) @ zone_display z'"
    and "n < 1000000000" and "n' < 1000000000" and "wf_zone z" and "wf_zone z'"
  shows "n = n' \<and> z = z'"
proof -
  have no_dot: "zone_display z \<noteq> 46 # r" for z r by (cases z) auto
  have "n = 0 \<longleftrightarrow> n' = 0"
    using assms(1) no_dot [of z] no_dot [of z'] by (auto split: if_splits) metis+
  then have "n = n' \<and> zone_display z = zone_display z'"
    using assms(1-3) by (auto simp: pad_append_eq split: if_splits)
  then show ?thesis using zone_display_inj assms(4,5) by blast
qed

section \<open>Properties\<close>

text \<open>
  The text of a timestamp determines it: two well-formed timestamps with the same
  \<^verbatim>\<open>Display\<close> text are equal, before and after the common era, with and without a fraction
  and a zone.
\<close>

theorem timestamp_display_injective:
  assumes "wf_timestamp a" and "wf_timestamp b" and "timestamp_display a = timestamp_display b"
  shows "a = b"
proof -
  have era: "year a < 0 \<longleftrightarrow> year b < 0"
    using assms(3) pad_not_minus [of 4 "nat \<bar>year a\<bar>"] pad_not_minus [of 4 "nat \<bar>year b\<bar>"]
    by (auto simp: timestamp_display_def simp del: pad.simps split: if_splits) metis+
  have bound: "nat \<bar>year t\<bar> < 10 ^ 4" "month t < 10 ^ 2" "day t < 10 ^ 2" "hour t < 10 ^ 2" "minute t < 10 ^ 2"
    "second t < 10 ^ 2" "nanosecond t < 1000000000" "wf_zone (zone t)" if "wf_timestamp t" for t
    using that days_in_month_le [of "year t" "month t"] by (auto simp: wf_timestamp_def)
  note ba = bound [OF assms(1)] and bb = bound [OF assms(2)]
  have eq: "nat \<bar>year a\<bar> = nat \<bar>year b\<bar>" "month a = month b" "day a = day b" "hour a = hour b"
    "minute a = minute b" "second a = second b"
    and rest: "(if nanosecond a \<noteq> 0 then [46] @ pad 9 (nanosecond a) else []) @ zone_display (zone a) =
      (if nanosecond b \<noteq> 0 then [46] @ pad 9 (nanosecond b) else []) @ zone_display (zone b)"
    using assms(3) era ba(1-6) bb(1-6) unfolding timestamp_display_def
    by (simp_all add: pad_append_eq del: pad.simps)
  have "nanosecond a = nanosecond b \<and> zone a = zone b"
    by (rule fraction_zone_inj [OF rest ba(7) bb(7) ba(8) bb(8)])
  moreover have "year a = year b" using eq(1) era by linarith
  ultimately show ?thesis using eq by simp
qed

theorem timestamp_display_injective_witness:
  "\<lparr>year = -44, month = 3, day = 15, hour = 1, minute = 2, second = 3, nanosecond = 5, zone = Offset (-90)\<rparr> =
   \<lparr>year = -44, month = 3, day = 15, hour = 1, minute = 2, second = 3, nanosecond = 5, zone = Offset (-90)\<rparr>"
  by (rule timestamp_display_injective) (simp_all add: wf_timestamp_def wf_zone_def days_in_month_def)

lemma date_ok_iff:
  "(\<exists>t. timestamp_date y m d = Inr t) \<longleftrightarrow> -4712 \<le> y \<and> y \<le> 9999 \<and> y \<noteq> 0 \<and> m \<in> {1..12} \<and>
     d \<in> {1..days_in_month y m} \<and> \<not> is_in_reform_gap y m d"
  by (auto simp: timestamp_date_def timestamp_new_def from_source_def split: sum.splits if_splits)

text \<open>
  The dates accepted for a year are exactly those of the historical calendar: a common
  year has 365, a leap year 366, and 1582, which lost ten days to the reform, 355; there is
  no year zero.  Leap years are every fourth year up to the reform (1 BC, 5 BC, and so on
  before the common era) and follow the Gregorian century rule after it.
\<close>

theorem calendar_year_length:
  assumes "-4712 \<le> y" and "y \<le> 9999" and "y \<noteq> 0"
  shows "card {(m, d). \<exists>t. timestamp_date y m d = Inr t} =
     (if y = 1582 then 355 else if is_leap_year y then 366 else 365) \<and>
   (is_leap_year y \<longleftrightarrow> (if y < 0 then y mod 4 = 3 else y mod 4 = 0 \<and> (y < 1582 \<or> y mod 100 \<noteq> 0 \<or> y mod 400 = 0)))"
proof
  let ?all = "SIGMA m : {1..12}. {1..days_in_month y m}"
  have set: "{(m, d). \<exists>t. timestamp_date y m d = Inr t} = ?all - {(m, d). is_in_reform_gap y m d}"
    using assms by (auto simp: date_ok_iff)
  have months: "{1..12} = {1, 2, 3, 4, 5, 6, 7, 8, 9, 10, 11, 12 :: nat}" by (auto; arith)
  have "card ?all = sum (days_in_month y) {1..12}" by simp
  also have "\<dots> = sum (days_in_month y) {1, 2, 3, 4, 5, 6, 7, 8, 9, 10, 11, 12}" using months by (rule arg_cong)
  also have "\<dots> = (if is_leap_year y then 366 else 365)" by (simp add: days_in_month_def)
  finally have all: "card ?all = (if is_leap_year y then 366 else 365)" .
  show "card {(m, d). \<exists>t. timestamp_date y m d = Inr t} =
      (if y = 1582 then 355 else if is_leap_year y then 366 else 365)"
  proof (cases "y = 1582")
    case True
    have gap: "{(m, d). is_in_reform_gap y m d} = {10} \<times> {5..14}"
      using True by (auto simp: is_in_reform_gap_def GREGORIAN_REFORM_YEAR_def)
    have "{10} \<times> {5..14} \<subseteq> ?all" by (auto simp: days_in_month_def)
    then have "card (?all - {10} \<times> {5..14}) = card ?all - card ({10 :: nat} \<times> {5..14 :: nat})"
      by (intro card_Diff_subset) auto
    also have "card ({10 :: nat} \<times> {5..14 :: nat}) = 10" by simp
    finally have "card (?all - {10} \<times> {5..14}) = card ?all - 10" .
    moreover have "\<not> is_leap_year y" using True by (simp add: is_leap_year_def)
    ultimately show ?thesis using set gap all True by simp
  next
    case False
    then have "{(m, d). is_in_reform_gap y m d} = {}" by (simp add: is_in_reform_gap_def GREGORIAN_REFORM_YEAR_def)
    with set all False show ?thesis by simp
  qed
next
  show "is_leap_year y \<longleftrightarrow> (if y < 0 then y mod 4 = 3 else y mod 4 = 0 \<and> (y < 1582 \<or> y mod 100 \<noteq> 0 \<or> y mod 400 = 0))"
  proof (cases "y < 0")
    case True
    then show ?thesis by (simp add: is_leap_year_def GREGORIAN_REFORM_YEAR_def Let_def) presburger
  next
    case False
    then show ?thesis by (auto simp: is_leap_year_def GREGORIAN_REFORM_YEAR_def Let_def dvd_eq_mod_eq_0)
  qed
qed

theorem calendar_year_length_witness:
  "card {(m, d). \<exists>t. timestamp_date 1582 m d = Inr t} = 355"
  using calendar_year_length [of 1582] by simp

end
