(* ===== verification/Row_Batch.thy ===== *)
theory Row_Batch
  imports Decimal_Number Driver_Error Temporal "HOL-Library.Word"
begin

unbundle bit_operations_syntax

text \<open>
  \<^verbatim>\<open>crates/db-driver-api/src/result.rs\<close>: column-oriented row batches.  The NULL mask is
  the list of its 64-bit words, text and byte columns are one buffer with the offsets of
  their values, and every growable buffer carries its capacity, because the result store
  counts capacities.  A large-object locator is a boxed object of the driver: the type
  variable \<open>'l\<close>.

  The interface \<open>value_column\<close> says what a column promises (it holds the list of the values
  appended to it); text, byte and plain vector columns are its instances.
\<close>

section \<open>NULL masks\<close>

definition div_ceil :: "nat \<Rightarrow> nat \<Rightarrow> nat" where
  "div_ceil n d = (n + d - 1) div d"

record null_mask =
  bits :: "64 word list"
  mask_len :: nat

definition null_mask_new :: "nat \<Rightarrow> null_mask" where
  "null_mask_new n = \<lparr>bits = replicate (div_ceil n 64) 0, mask_len = n\<rparr>"

definition set_null :: "nat \<Rightarrow> null_mask \<Rightarrow> db_error + null_mask" where
  "set_null row m =
     (if row \<ge> mask_len m
      then Inl (error_internal (us ''row '' @ nat_text row @ us '' marked NULL in a mask of '' @
             nat_text (mask_len m) @ us '' rows''))
      else Inr (m\<lparr>bits := (bits m)[row div 64 := bits m ! (row div 64) OR push_bit (row mod 64) 1]\<rparr>))"

definition is_null :: "null_mask \<Rightarrow> nat \<Rightarrow> bool" where
  "is_null m row \<longleftrightarrow> row < mask_len m \<and> drop_bit (row mod 64) (bits m ! (row div 64)) AND 1 = 1"

section \<open>Growable buffers\<close>

text \<open>
  \<^verbatim>\<open>Vec::reserve\<close>: nothing when the spare room is enough, otherwise the larger of twice
  the capacity, the size needed and the smallest allocation (8 elements of one byte, 4 of
  up to 1024 bytes, else 1).
\<close>

definition min_non_zero_cap :: "nat \<Rightarrow> nat" where
  "min_non_zero_cap elem = (if elem = 1 then 8 else if elem \<le> 1024 then 4 else 1)"

definition reserve :: "nat \<Rightarrow> nat \<Rightarrow> nat \<Rightarrow> nat \<Rightarrow> nat" where
  "reserve elem cap used extra =
     (if extra > cap - used then max (min_non_zero_cap elem) (max (cap * 2) (used + extra)) else cap)"

record 'a rvec =
  items :: "'a list"
  capacity :: nat

definition vec_new :: "'a rvec" where
  "vec_new = \<lparr>items = [], capacity = 0\<rparr>"

definition vec_push :: "nat \<Rightarrow> 'a \<Rightarrow> 'a rvec \<Rightarrow> 'a rvec" where
  "vec_push elem x v =
     \<lparr>items = items v @ [x], capacity = reserve elem (capacity v) (length (items v)) 1\<rparr>"

definition vec_get :: "'a rvec \<Rightarrow> nat \<Rightarrow> 'a option" where
  "vec_get v i = nth_opt (items v) i"

definition vec_len :: "'a rvec \<Rightarrow> nat" where
  "vec_len v = length (items v)"

definition SIZE_USIZE :: nat where "SIZE_USIZE = 8"

section \<open>Text and byte columns\<close>

record text_column =
  text_buffer :: ustr
  text_cap :: nat
  text_offsets :: "nat rvec"

definition text_new :: text_column where
  "text_new = \<lparr>text_buffer = [], text_cap = 0, text_offsets = vec_new\<rparr>"

definition text_with_capacity :: "nat \<Rightarrow> nat \<Rightarrow> text_column" where
  "text_with_capacity rows bytes =
     \<lparr>text_buffer = [], text_cap = bytes,
      text_offsets = vec_push SIZE_USIZE 0 \<lparr>items = [], capacity = rows + 1\<rparr>\<rparr>"

definition text_push :: "ustr \<Rightarrow> text_column \<Rightarrow> text_column" where
  "text_push t c =
     (let offs = (if items (text_offsets c) = [] then vec_push SIZE_USIZE 0 (text_offsets c)
                  else text_offsets c);
          buf = text_buffer c @ t
      in \<lparr>text_buffer = buf,
          text_cap = reserve 1 (text_cap c) (byte_len (text_buffer c)) (byte_len t),
          text_offsets = vec_push SIZE_USIZE (byte_len buf) offs\<rparr>)"

definition text_push_null_placeholder :: "text_column \<Rightarrow> text_column" where
  "text_push_null_placeholder c = text_push [] c"

text \<open>\<^verbatim>\<open>str::get(start..end)\<close>: nothing unless both ends are boundaries in order.\<close>

definition str_get :: "ustr \<Rightarrow> nat \<Rightarrow> nat \<Rightarrow> ustr option" where
  "str_get s a b = (if a \<le> b \<and> is_char_boundary s a \<and> is_char_boundary s b then Some (Reldex_Prelude.slice s a b) else None)"

definition text_get :: "text_column \<Rightarrow> nat \<Rightarrow> ustr option" where
  "text_get c row =
     (case vec_get (text_offsets c) row of None \<Rightarrow> None
      | Some start \<Rightarrow> (case vec_get (text_offsets c) (row + 1) of None \<Rightarrow> None
          | Some stop \<Rightarrow> str_get (text_buffer c) start stop))"

definition text_len :: "text_column \<Rightarrow> nat" where
  "text_len c = vec_len (text_offsets c) - 1"

definition text_heap_bytes :: "text_column \<Rightarrow> nat" where
  "text_heap_bytes c = text_cap c + capacity (text_offsets c) * SIZE_USIZE"

type_synonym byte = "8 word"

record bytes_column =
  bytes_buffer :: "byte rvec"
  bytes_offsets :: "nat rvec"

definition bytes_new :: bytes_column where
  "bytes_new = \<lparr>bytes_buffer = vec_new, bytes_offsets = vec_new\<rparr>"

definition bytes_with_capacity :: "nat \<Rightarrow> nat \<Rightarrow> bytes_column" where
  "bytes_with_capacity rows bytes =
     \<lparr>bytes_buffer = \<lparr>items = [], capacity = bytes\<rparr>,
      bytes_offsets = vec_push SIZE_USIZE 0 \<lparr>items = [], capacity = rows + 1\<rparr>\<rparr>"

definition extend_from_slice :: "byte list \<Rightarrow> byte rvec \<Rightarrow> byte rvec" where
  "extend_from_slice bs v =
     \<lparr>items = items v @ bs, capacity = reserve 1 (capacity v) (length (items v)) (length bs)\<rparr>"

definition bytes_push :: "byte list \<Rightarrow> bytes_column \<Rightarrow> bytes_column" where
  "bytes_push bs c =
     (let offs = (if items (bytes_offsets c) = [] then vec_push SIZE_USIZE 0 (bytes_offsets c)
                  else bytes_offsets c);
          buf = extend_from_slice bs (bytes_buffer c)
      in \<lparr>bytes_buffer = buf, bytes_offsets = vec_push SIZE_USIZE (vec_len buf) offs\<rparr>)"

definition bytes_push_null_placeholder :: "bytes_column \<Rightarrow> bytes_column" where
  "bytes_push_null_placeholder c = bytes_push [] c"

definition slice_get :: "'a list \<Rightarrow> nat \<Rightarrow> nat \<Rightarrow> 'a list option" where
  "slice_get xs a b = (if a \<le> b \<and> b \<le> length xs then Some (take (b - a) (drop a xs)) else None)"

definition bytes_get :: "bytes_column \<Rightarrow> nat \<Rightarrow> byte list option" where
  "bytes_get c row =
     (case vec_get (bytes_offsets c) row of None \<Rightarrow> None
      | Some start \<Rightarrow> (case vec_get (bytes_offsets c) (row + 1) of None \<Rightarrow> None
          | Some stop \<Rightarrow> slice_get (items (bytes_buffer c)) start stop))"

definition bytes_len :: "bytes_column \<Rightarrow> nat" where
  "bytes_len c = vec_len (bytes_offsets c) - 1"

definition bytes_heap_bytes :: "bytes_column \<Rightarrow> nat" where
  "bytes_heap_bytes c = capacity (bytes_buffer c) + capacity (bytes_offsets c) * SIZE_USIZE"

section \<open>Columns and batches\<close>

datatype column_kind =
  KBoolean | KNumber | KFloat | KDouble | KText | KBytes | KTimestamp | KJson | KLob | KUnsupported

type_synonym f32 = "32 word" \<comment> \<open>the bits of a float: values are moved, never computed with\<close>
type_synonym f64 = "64 word"

datatype 'l column_data =
  BooleanData "bool rvec" | NumberData "number rvec" | FloatData "f32 rvec" | DoubleData "f64 rvec"
| TextData text_column | BytesData bytes_column | TimestampData "timestamp rvec"
| JsonData text_column | LobData "'l option rvec" | UnsupportedData text_column

fun data_len :: "'l column_data \<Rightarrow> nat" where
  "data_len (BooleanData v) = vec_len v"
| "data_len (NumberData v) = vec_len v"
| "data_len (FloatData v) = vec_len v"
| "data_len (DoubleData v) = vec_len v"
| "data_len (TextData c) = text_len c"
| "data_len (JsonData c) = text_len c"
| "data_len (UnsupportedData c) = text_len c"
| "data_len (BytesData c) = bytes_len c"
| "data_len (TimestampData v) = vec_len v"
| "data_len (LobData v) = vec_len v"

fun data_kind :: "'l column_data \<Rightarrow> column_kind" where
  "data_kind (BooleanData v) = KBoolean"
| "data_kind (NumberData v) = KNumber"
| "data_kind (FloatData v) = KFloat"
| "data_kind (DoubleData v) = KDouble"
| "data_kind (TextData c) = KText"
| "data_kind (BytesData c) = KBytes"
| "data_kind (TimestampData v) = KTimestamp"
| "data_kind (JsonData c) = KJson"
| "data_kind (LobData v) = KLob"
| "data_kind (UnsupportedData c) = KUnsupported"

datatype 'l value_ref =
  VNull | VBoolean bool | VNumber number | VFloat f32 | VDouble f64 | VText ustr | VBytes "byte list"
| VTimestamp timestamp | VJson ustr | VUnsupported ustr | VLob 'l | VTaken

record 'l column =
  data :: "'l column_data"
  nulls :: null_mask

definition column_new :: "'l column_data \<Rightarrow> null_mask \<Rightarrow> db_error + 'l column" where
  "column_new d m =
     (if data_len d \<noteq> mask_len m
      then Inl (error_internal (us ''column has '' @ nat_text (data_len d) @
             us '' values but a NULL mask of '' @ nat_text (mask_len m) @ us '' rows''))
      else Inr \<lparr>data = d, nulls = m\<rparr>)"

definition not_null :: "'l column_data \<Rightarrow> 'l column" where
  "not_null d = \<lparr>data = d, nulls = null_mask_new (data_len d)\<rparr>"

definition column_len :: "'l column \<Rightarrow> nat" where
  "column_len c = data_len (data c)"

fun column_is_taken :: "'l column \<Rightarrow> nat \<Rightarrow> bool" where
  "column_is_taken c row =
     (case data c of
        LobData v \<Rightarrow> row < column_len c \<and> \<not> is_null (nulls c) row \<and> items v ! row = None
      | _ \<Rightarrow> False)"

text \<open>One cell of a column's data: the \<^verbatim>\<open>match\<close> of \<^verbatim>\<open>Column::value\<close>.\<close>

fun data_value :: "'l column_data \<Rightarrow> nat \<Rightarrow> 'l value_ref option" where
  "data_value (BooleanData v) row = map_option VBoolean (vec_get v row)"
| "data_value (NumberData v) row = map_option VNumber (vec_get v row)"
| "data_value (FloatData v) row = map_option VFloat (vec_get v row)"
| "data_value (DoubleData v) row = map_option VDouble (vec_get v row)"
| "data_value (TextData c) row = map_option VText (text_get c row)"
| "data_value (JsonData c) row = map_option VJson (text_get c row)"
| "data_value (BytesData c) row = map_option VBytes (bytes_get c row)"
| "data_value (TimestampData v) row = map_option VTimestamp (vec_get v row)"
| "data_value (UnsupportedData c) row = map_option VUnsupported (text_get c row)"
| "data_value (LobData v) row =
     map_option (\<lambda>l. case l of Some x \<Rightarrow> VLob x | None \<Rightarrow> VTaken) (vec_get v row)"

definition column_value :: "'l column \<Rightarrow> nat \<Rightarrow> 'l value_ref option" where
  "column_value c row =
     (if row \<ge> column_len c then None
      else if is_null (nulls c) row then Some VNull
      else data_value (data c) row)"

definition take_lob :: "nat \<Rightarrow> 'l column \<Rightarrow> 'l option \<times> 'l column" where
  "take_lob row c =
     (if is_null (nulls c) row then (None, c)
      else case data c of
        LobData v \<Rightarrow>
          if row < vec_len v
          then (items v ! row, c\<lparr>data := LobData (v\<lparr>items := (items v)[row := None]\<rparr>)\<rparr>)
          else (None, c)
      | _ \<Rightarrow> (None, c))"

definition into_parts :: "'l column \<Rightarrow> 'l column_data \<times> null_mask" where
  "into_parts c = (data c, nulls c)"

record 'l row_batch =
  batch_columns :: "'l column list"
  batch_rows :: nat

definition batch_empty :: "'l row_batch" where
  "batch_empty = \<lparr>batch_columns = [], batch_rows = 0\<rparr>"

fun first_index :: "('a \<Rightarrow> bool) \<Rightarrow> 'a list \<Rightarrow> nat option" where
  "first_index P [] = None"
| "first_index P (x # xs) = (if P x then Some 0 else map_option Suc (first_index P xs))"

definition batch_new :: "'l column list \<Rightarrow> db_error + 'l row_batch" where
  "batch_new cs =
     (let rows = (case cs of [] \<Rightarrow> 0 | c # _ \<Rightarrow> column_len c)
      in case first_index (\<lambda>c. column_len c \<noteq> rows) cs of
           Some bad \<Rightarrow> Inl (error_internal (us ''column '' @ nat_text bad @ us '' has '' @
             nat_text (column_len (cs ! bad)) @ us '' rows but the batch has '' @ nat_text rows))
         | None \<Rightarrow> Inr \<lparr>batch_columns = cs, batch_rows = rows\<rparr>)"

definition batch_value :: "'l row_batch \<Rightarrow> nat \<Rightarrow> nat \<Rightarrow> 'l value_ref option" where
  "batch_value b row col =
     (case nth_opt (batch_columns b) col of None \<Rightarrow> None | Some c \<Rightarrow> column_value c row)"

section \<open>What a column promises\<close>

locale value_column =
  fixes rep :: "'c \<Rightarrow> 'v list \<Rightarrow> bool"
    and fresh :: 'c
    and push :: "'v \<Rightarrow> 'c \<Rightarrow> 'c"
    and get :: "'c \<Rightarrow> nat \<Rightarrow> 'v option"
    and count :: "'c \<Rightarrow> nat"
  assumes rep_fresh: "rep fresh []"
    and rep_push: "rep c vs \<Longrightarrow> rep (push v c) (vs @ [v])"
    and rep_get: "rep c vs \<Longrightarrow> get c i = nth_opt vs i"
    and rep_count: "rep c vs \<Longrightarrow> count c = length vs"
begin

lemma rep_unique: "rep c vs \<Longrightarrow> rep c ws \<Longrightarrow> vs = ws"
  by (rule nth_equalityI) (metis rep_count, metis rep_get rep_count nth_opt_def option.inject)

lemma rep_pushes: "rep c ws \<Longrightarrow> rep (fold push vs c) (ws @ vs)"
proof (induction vs arbitrary: c ws)
  case (Cons v vs)
  from Cons.IH [OF rep_push [OF Cons.prems, of v]] show ?case by simp
qed simp

lemma get_pushed: "get (fold push vs fresh) i = nth_opt vs i"
  using rep_get rep_pushes [OF rep_fresh, of vs] by simp

lemma count_pushed: "count (fold push vs fresh) = length vs"
  using rep_count rep_pushes [OF rep_fresh, of vs] by simp

lemma get_push: "rep c vs \<Longrightarrow> get (push v c) i = (if i = count c then Some v else get c i)"
  using rep_get [OF rep_push [of c vs v]] rep_get [of c vs] rep_count [of c vs]
  by (auto simp: nth_opt_def nth_append)

end

subsection \<open>Vectors\<close>

definition vec_rep :: "'a rvec \<Rightarrow> 'a list \<Rightarrow> bool" where
  "vec_rep v xs \<longleftrightarrow> items v = xs \<and> length xs \<le> capacity v"

lemma reserve_enough: "used \<le> cap \<Longrightarrow> used + extra \<le> reserve elem cap used extra"
  by (auto simp: reserve_def)

lemma vec_rep_push: "vec_rep v xs \<Longrightarrow> vec_rep (vec_push elem x v) (xs @ [x])"
  using reserve_enough [of "length xs" "capacity v" 1 elem] by (simp add: vec_rep_def vec_push_def)

interpretation vec_column: value_column vec_rep vec_new "vec_push elem" vec_get vec_len
  by unfold_locales (simp add: vec_rep_def vec_new_def, rule vec_rep_push,
    simp_all add: vec_rep_def vec_get_def vec_len_def)

subsection \<open>Text\<close>

definition text_ends :: "ustr list \<Rightarrow> nat list" where
  "text_ends vs = map (\<lambda>i. byte_len (concat (take i vs))) [0..<Suc (length vs)]"

definition text_rep :: "text_column \<Rightarrow> ustr list \<Rightarrow> bool" where
  "text_rep c vs \<longleftrightarrow> text_buffer c = concat vs \<and> byte_len (concat vs) \<le> text_cap c \<and>
     (vec_rep (text_offsets c) (text_ends vs) \<or> vs = [] \<and> vec_rep (text_offsets c) [])"

lemma text_ends_snoc: "text_ends (vs @ [v]) = text_ends vs @ [byte_len (concat (vs @ [v]))]"
  by (simp add: text_ends_def)

lemma text_ends_Nil [simp]: "text_ends [] = [0]"
  by (simp add: text_ends_def)

lemma text_ends_not_Nil [simp]: "text_ends vs \<noteq> []"
  by (simp add: text_ends_def)

lemma text_ends_nth: "i \<le> length vs \<Longrightarrow> text_ends vs ! i = byte_len (concat (take i vs))"
  by (simp add: text_ends_def del: upt_Suc)

lemma length_text_ends [simp]: "length (text_ends vs) = Suc (length vs)"
  by (simp add: text_ends_def)

lemma str_get_concat:
  assumes "i < length vs"
  shows "str_get (concat vs) (byte_len (concat (take i vs))) (byte_len (concat (take (Suc i) vs))) = Some (vs ! i)"
proof -
  have split: "concat vs = concat (take i vs) @ vs ! i @ concat (drop (Suc i) vs)"
    using id_take_nth_drop [OF assms] by (metis concat.simps(2) concat_append)
  have next_end: "byte_len (concat (take (Suc i) vs)) = byte_len (concat (take i vs)) + byte_len (vs ! i)"
    using assms by (simp add: take_Suc_conv_app_nth)
  have "is_char_boundary (concat vs) (byte_len (concat (take i vs)))"
    "is_char_boundary (concat vs) (byte_len (concat (take (Suc i) vs)))"
    unfolding split next_end using is_char_boundary_prefix [of "concat (take i vs) @ vs ! i"] by simp_all
  moreover have "Reldex_Prelude.slice (concat vs) (byte_len (concat (take i vs))) (byte_len (concat (take (Suc i) vs))) = vs ! i"
    unfolding next_end by (subst split) (rule slice_append, simp_all)
  ultimately show ?thesis by (simp add: str_get_def next_end)
qed

lemma text_rep_get: "text_rep c vs \<Longrightarrow> text_get c i = nth_opt vs i"
  using str_get_concat [of i vs]
  by (auto simp: text_rep_def text_get_def vec_get_def vec_rep_def nth_opt_def text_ends_nth
      simp del: take_Suc split: option.splits)

lemma text_rep_push: "text_rep c vs \<Longrightarrow> text_rep (text_push v c) (vs @ [v])"
proof -
  assume c: "text_rep c vs"
  let ?offs = "if items (text_offsets c) = [] then vec_push SIZE_USIZE 0 (text_offsets c) else text_offsets c"
  have "vec_rep ?offs (text_ends vs)"
    using c vec_rep_push [of "text_offsets c" "[]" SIZE_USIZE 0]
    by (auto simp: text_rep_def vec_rep_def text_ends_not_Nil [THEN not_sym])
  from vec_rep_push [OF this, of SIZE_USIZE "byte_len (concat (vs @ [v]))"] show ?thesis
    using c reserve_enough [of "byte_len (concat vs)" "text_cap c" "byte_len v" 1]
    by (simp add: text_rep_def text_push_def text_ends_snoc Let_def)
qed

interpretation text_col: value_column text_rep text_new text_push text_get text_len
proof
  show "text_rep text_new []" by (simp add: text_rep_def text_new_def vec_rep_def vec_new_def)
  fix c vs assume c: "text_rep c vs"
  show "text_rep (text_push v c) (vs @ [v])" for v using c by (rule text_rep_push)
  show "text_get c i = nth_opt vs i" for i using c by (rule text_rep_get)
  show "text_len c = length vs" using c by (auto simp: text_len_def vec_len_def text_rep_def vec_rep_def)
qed

lemma text_rep_with_capacity: "text_rep (text_with_capacity rows bytes) []"
  by (simp add: text_rep_def text_with_capacity_def vec_rep_def vec_push_def reserve_def)

subsection \<open>Bytes\<close>

definition byte_ends :: "byte list list \<Rightarrow> nat list" where
  "byte_ends vs = map (\<lambda>i. length (concat (take i vs))) [0..<Suc (length vs)]"

definition bytes_rep :: "bytes_column \<Rightarrow> byte list list \<Rightarrow> bool" where
  "bytes_rep c vs \<longleftrightarrow> vec_rep (bytes_buffer c) (concat vs) \<and>
     (vec_rep (bytes_offsets c) (byte_ends vs) \<or> vs = [] \<and> vec_rep (bytes_offsets c) [])"

lemma byte_ends_snoc: "byte_ends (vs @ [v]) = byte_ends vs @ [length (concat (vs @ [v]))]"
  by (simp add: byte_ends_def)

lemma byte_ends_Nil [simp]: "byte_ends [] = [0]"
  by (simp add: byte_ends_def)

lemma byte_ends_not_Nil [simp]: "byte_ends vs \<noteq> []"
  by (simp add: byte_ends_def)

lemma byte_ends_nth: "i \<le> length vs \<Longrightarrow> byte_ends vs ! i = length (concat (take i vs))"
  by (simp add: byte_ends_def del: upt_Suc)

lemma length_byte_ends [simp]: "length (byte_ends vs) = Suc (length vs)"
  by (simp add: byte_ends_def)

lemma slice_get_concat:
  assumes "i < length vs"
  shows "slice_get (concat vs) (length (concat (take i vs))) (length (concat (take (Suc i) vs))) = Some (vs ! i)"
proof -
  have split: "concat vs = concat (take i vs) @ vs ! i @ concat (drop (Suc i) vs)"
    using id_take_nth_drop [OF assms] by (metis concat.simps(2) concat_append)
  have "length (concat (take (Suc i) vs)) = length (concat (take i vs)) + length (vs ! i)"
    using assms by (simp add: take_Suc_conv_app_nth)
  moreover from this split have "length (concat (take (Suc i) vs)) \<le> length (concat vs)"
    by (metis append_assoc le_add1 length_append)
  moreover have "drop (length (concat (take i vs))) (concat vs) = vs ! i @ concat (drop (Suc i) vs)"
    using split by (metis append_eq_conv_conj)
  ultimately show ?thesis by (simp add: slice_get_def)
qed

lemma bytes_rep_get: "bytes_rep c vs \<Longrightarrow> bytes_get c i = nth_opt vs i"
  using slice_get_concat [of i vs]
  by (auto simp: bytes_rep_def bytes_get_def vec_get_def vec_rep_def nth_opt_def byte_ends_nth
      simp del: take_Suc split: option.splits)

lemma bytes_rep_push: "bytes_rep c vs \<Longrightarrow> bytes_rep (bytes_push v c) (vs @ [v])"
proof -
  assume c: "bytes_rep c vs"
  let ?offs = "if items (bytes_offsets c) = [] then vec_push SIZE_USIZE 0 (bytes_offsets c) else bytes_offsets c"
  have "vec_rep ?offs (byte_ends vs)"
    using c vec_rep_push [of "bytes_offsets c" "[]" SIZE_USIZE 0]
    by (auto simp: bytes_rep_def vec_rep_def byte_ends_not_Nil [THEN not_sym])
  moreover have buf: "vec_rep (extend_from_slice v (bytes_buffer c)) (concat (vs @ [v]))"
    using c reserve_enough [of "length (concat vs)" "capacity (bytes_buffer c)" "length v" 1]
    by (simp add: bytes_rep_def vec_rep_def extend_from_slice_def)
  ultimately show ?thesis
    using vec_rep_push [of ?offs "byte_ends vs" SIZE_USIZE "length (concat (vs @ [v]))"]
    by (simp add: bytes_rep_def bytes_push_def byte_ends_snoc Let_def vec_len_def vec_rep_def)
qed

interpretation bytes_col: value_column bytes_rep bytes_new bytes_push bytes_get bytes_len
proof
  show "bytes_rep bytes_new []" by (simp add: bytes_rep_def bytes_new_def vec_rep_def vec_new_def)
  fix c vs assume c: "bytes_rep c vs"
  show "bytes_rep (bytes_push v c) (vs @ [v])" for v using c by (rule bytes_rep_push)
  show "bytes_get c i = nth_opt vs i" for i using c by (rule bytes_rep_get)
  show "bytes_len c = length vs" using c by (auto simp: bytes_len_def vec_len_def bytes_rep_def vec_rep_def)
qed

section \<open>NULL masks are sets of rows\<close>

text \<open>A mask is well formed when it has a bit for every row and its padding is zero.\<close>

definition wf_mask :: "null_mask \<Rightarrow> bool" where
  "wf_mask m \<longleftrightarrow> length (bits m) = div_ceil (mask_len m) 64 \<and>
     (\<forall>i < 64 * length (bits m). bit (bits m ! (i div 64)) (i mod 64) \<longrightarrow> i < mask_len m)"

definition null_rows :: "null_mask \<Rightarrow> nat set" where
  "null_rows m = {row. is_null m row}"

lemma is_null_bit: "is_null m row \<longleftrightarrow> row < mask_len m \<and> bit (bits m ! (row div 64)) (row mod 64)"
  by (auto simp: is_null_def bit_iff_odd_drop_bit and_one_eq odd_iff_mod_2_eq_one)

lemma word_index: "row < n \<Longrightarrow> row div 64 < div_ceil n 64"
  by (simp add: div_ceil_def)

lemma wf_mask_new: "wf_mask (null_mask_new n)"
  by (auto simp: wf_mask_def null_mask_new_def less_mult_imp_div_less mult.commute)

lemma mask_len_new [simp]: "mask_len (null_mask_new n) = n"
  by (simp add: null_mask_new_def)

lemma null_rows_new [simp]: "null_rows (null_mask_new n) = {}"
  by (auto simp: null_rows_def is_null_bit null_mask_new_def word_index)

lemma set_null_bits:
  assumes "wf_mask m" and "row < mask_len m"
  shows "\<exists>m'. set_null row m = Inr m' \<and> mask_len m' = mask_len m \<and> length (bits m') = length (bits m) \<and>
    (\<forall>i < 64 * length (bits m). bit (bits m' ! (i div 64)) (i mod 64) \<longleftrightarrow>
       i = row \<or> bit (bits m ! (i div 64)) (i mod 64))"
proof -
  have index: "row div 64 < length (bits m)" using assms word_index by (simp add: wf_mask_def)
  have same: "i = row \<longleftrightarrow> i div 64 = row div 64 \<and> i mod 64 = row mod 64" for i :: nat
    by (metis div_mult_mod_eq)
  have "bit ((bits m)[row div 64 := bits m ! (row div 64) OR push_bit (row mod 64) 1] ! (i div 64)) (i mod 64) \<longleftrightarrow>
      i = row \<or> bit (bits m ! (i div 64)) (i mod 64)" if "i < 64 * length (bits m)" for i
    using index same [of i]
    by (cases "i div 64 = row div 64") (auto simp: nth_list_update bit_or_iff bit_exp_iff possible_bit_word)
  then show ?thesis using assms(2) by (simp add: set_null_def)
qed

lemma wf_set_null:
  assumes "wf_mask m" and "set_null row m = Inr m'"
  shows "wf_mask m' \<and> mask_len m' = mask_len m \<and> null_rows m' = insert row (null_rows m)"
proof -
  have row: "row < mask_len m" using assms(2) by (simp add: set_null_def split: if_splits)
  obtain m'' where m'': "set_null row m = Inr m''" "mask_len m'' = mask_len m" "length (bits m'') = length (bits m)"
    "\<forall>i < 64 * length (bits m). bit (bits m'' ! (i div 64)) (i mod 64) \<longleftrightarrow> i = row \<or> bit (bits m ! (i div 64)) (i mod 64)"
    using set_null_bits [OF assms(1) row] by blast
  have in_range: "i < 64 * length (bits m)" if "i < mask_len m" for i
    using assms(1) that by (simp add: wf_mask_def div_ceil_def)
  show ?thesis using m'' assms in_range row
    by (auto simp: wf_mask_def null_rows_def is_null_bit)
qed

text \<open>The mask of a list of flags, as a driver builds it: one mark per NULL row.\<close>

fun mark_nulls :: "nat list \<Rightarrow> null_mask \<Rightarrow> db_error + null_mask" where
  "mark_nulls [] m = Inr m"
| "mark_nulls (r # rs) m = (case set_null r m of Inl e \<Rightarrow> Inl e | Inr m' \<Rightarrow> mark_nulls rs m')"

lemma mark_nulls_rows:
  "wf_mask m \<Longrightarrow> \<forall>r \<in> set rs. r < mask_len m \<Longrightarrow>
   \<exists>m'. mark_nulls rs m = Inr m' \<and> wf_mask m' \<and> mask_len m' = mask_len m \<and> null_rows m' = null_rows m \<union> set rs"
proof (induction rs arbitrary: m)
  case (Cons r rs)
  obtain m1 where m1: "set_null r m = Inr m1" using set_null_bits [OF Cons.prems(1), of r] Cons.prems(2) by auto
  have wf1: "wf_mask m1" "mask_len m1 = mask_len m" "null_rows m1 = insert r (null_rows m)"
    using wf_set_null [OF Cons.prems(1) m1] by simp_all
  with Cons.IH [of m1] Cons.prems(2) show ?case by (auto simp: m1)
qed simp

section \<open>Cells\<close>

text \<open>A column as \<^verbatim>\<open>Column::new\<close> and \<^verbatim>\<open>Column::not_null\<close> build it from a driver's buffers.\<close>

fun wf_data :: "'l column_data \<Rightarrow> bool" where
  "wf_data (BooleanData v) = vec_rep v (items v)"
| "wf_data (NumberData v) = (vec_rep v (items v) \<and> (\<forall>n \<in> set (items v). wf_number n))"
| "wf_data (FloatData v) = vec_rep v (items v)"
| "wf_data (DoubleData v) = vec_rep v (items v)"
| "wf_data (TextData c) = (\<exists>vs. text_rep c vs)"
| "wf_data (JsonData c) = (\<exists>vs. text_rep c vs)"
| "wf_data (UnsupportedData c) = (\<exists>vs. text_rep c vs)"
| "wf_data (BytesData c) = (\<exists>vs. bytes_rep c vs)"
| "wf_data (TimestampData v) = vec_rep v (items v)"
| "wf_data (LobData v) = vec_rep v (items v)"

definition wf_column :: "'l column \<Rightarrow> bool" where
  "wf_column c \<longleftrightarrow> wf_data (data c) \<and> wf_mask (nulls c) \<and> data_len (data c) = mask_len (nulls c)"

definition wf_batch :: "'l row_batch \<Rightarrow> bool" where
  "wf_batch b \<longleftrightarrow> (\<forall>c \<in> set (batch_columns b). wf_column c \<and> column_len c = batch_rows b)"

lemma vec_get_total: "row < vec_len v \<Longrightarrow> vec_get v row = Some (items v ! row)"
  by (simp add: vec_get_def vec_len_def nth_opt_def)

lemma text_get_total: "text_rep c vs \<Longrightarrow> row < text_len c \<Longrightarrow> \<exists>t. text_get c row = Some t"
  by (simp add: text_rep_get text_col.rep_count nth_opt_def)

lemma bytes_get_total: "bytes_rep c vs \<Longrightarrow> row < bytes_len c \<Longrightarrow> \<exists>t. bytes_get c row = Some t"
  by (simp add: bytes_rep_get bytes_col.rep_count nth_opt_def)

lemma data_value_total: "wf_data d \<Longrightarrow> row < data_len d \<Longrightarrow> \<exists>v. data_value d row = Some v \<and> v \<noteq> VNull"
  using text_get_total bytes_get_total
  by (cases d) (auto simp: vec_get_total split: option.splits, fastforce+)

lemma column_value_null_iff:
  assumes "wf_column c"
  shows "column_value c row = Some VNull \<longleftrightarrow> row \<in> null_rows (nulls c)"
    and "(\<exists>v. column_value c row = Some v) \<longleftrightarrow> row < column_len c"
  using data_value_total [of "data c" row] assms
  by (auto simp: wf_column_def column_value_def column_len_def null_rows_def is_null_def)

lemma first_index_Some: "first_index P xs = Some i \<Longrightarrow> \<exists>x \<in> set xs. P x"
  by (induction xs arbitrary: i) (auto split: if_splits)

lemma first_index_None: "first_index P xs = None \<longleftrightarrow> (\<forall>x \<in> set xs. \<not> P x)"
  by (induction xs) auto

section \<open>Properties\<close>

text \<open>
  The NULL mask is exactly the set of rows marked NULL: marking any rows of a fresh mask
  succeeds, the mask then reports those rows and no others, and marking a row outside it is
  refused with an internal driver error instead of being ignored.
\<close>

theorem null_mask_is_marked_rows:
  "(if list_all (\<lambda>r. r < n) rs
    then \<exists>m. mark_nulls rs (null_mask_new n) = Inr m \<and> mask_len m = n \<and> null_rows m = set rs
    else \<exists>e. mark_nulls rs (null_mask_new n) = Inl e \<and> error_kind e = DriverInternal)"
proof (cases "list_all (\<lambda>r. r < n) rs")
  case True
  then show ?thesis
    using mark_nulls_rows [OF wf_mask_new, of rs n] by (auto simp: list_all_iff)
next
  case False
  have "\<exists>e. mark_nulls rs m = Inl e \<and> error_kind e = DriverInternal"
    if "\<not> (\<forall>r \<in> set rs. r < mask_len m)" for m
    using that
  proof (induction rs arbitrary: m)
    case (Cons r rs)
    show ?case
    proof (cases "r < mask_len m")
      case True
      then obtain m' where m': "set_null r m = Inr m'" "mask_len m' = mask_len m" by (simp add: set_null_def)
      with Cons.IH [of m'] Cons.prems True show ?thesis by simp
    next
      case False
      then show ?thesis by (simp add: set_null_def error_internal_def error_new_def)
    qed
  qed simp
  from this [of "null_mask_new n"] False show ?thesis by (auto simp: list_all_iff)
qed

text \<open>
  A packed column gives back what was appended: after any texts (or byte strings) are
  pushed, row \<open>i\<close> reads the \<open>i\<close>-th of them, rows past the end read nothing, and a capacity
  reserved beforehand changes nothing.
\<close>

theorem packed_columns_roundtrip:
  "text_get (fold text_push ts (text_with_capacity rows bytes)) i = nth_opt ts i \<and>
   text_get (fold text_push ts text_new) i = nth_opt ts i \<and>
   bytes_get (fold bytes_push bs bytes_new) i = nth_opt bs i \<and>
   text_len (fold text_push ts text_new) = length ts"
  using text_col.rep_pushes [OF text_rep_with_capacity, of ts rows bytes]
  by (simp add: text_col.get_pushed bytes_col.get_pushed text_col.count_pushed text_rep_get)

text \<open>
  Taking a large object out of a column never makes its cell NULL: a cell is NULL exactly
  at the rows of the mask before and after, the taken cell reads as taken, the locator is
  handed out at most once, and every other cell is unchanged.
\<close>

theorem take_lob_is_not_null:
  assumes "wf_column c" and "take_lob row c = (Some l, c')"
  shows "wf_column c' \<and> column_value c row = Some (VLob l) \<and> column_value c' row = Some VTaken \<and>
    column_is_taken c' row \<and> fst (take_lob row c') = None \<and>
    (\<forall>r. r \<noteq> row \<longrightarrow> column_value c' r = column_value c r)"
proof -
  obtain v where v: "data c = LobData v" "\<not> is_null (nulls c) row" "row < vec_len v" "items v ! row = Some l"
    and c': "c' = c\<lparr>data := LobData (v\<lparr>items := (items v)[row := None]\<rparr>)\<rparr>"
    using assms(2) by (auto simp: take_lob_def split: if_splits column_data.splits)
  then show ?thesis using assms(1)
    by (auto simp: wf_column_def column_value_def column_len_def take_lob_def vec_get_def vec_len_def
        vec_rep_def nth_opt_def)
qed

theorem take_lob_is_not_null_witness:
  "column_value \<lparr>data = LobData \<lparr>items = [None], capacity = 2\<rparr>, nulls = null_mask_new 1\<rparr> 0 =
     Some (VTaken :: nat value_ref)"
proof -
  let ?c = "\<lparr>data = LobData \<lparr>items = [Some (7::nat)], capacity = 2\<rparr>, nulls = null_mask_new 1\<rparr>"
  have "wf_column ?c" using wf_mask_new [of 1]
    by (simp add: wf_column_def vec_rep_def vec_len_def)
  moreover have "take_lob 0 ?c = (Some 7, \<lparr>data = LobData \<lparr>items = [None], capacity = 2\<rparr>, nulls = null_mask_new 1\<rparr>)"
    by code_simp
  ultimately show ?thesis using take_lob_is_not_null [of ?c 0 7] by simp
qed

text \<open>A batch is rectangular, and exactly the cells inside the rectangle read a value.\<close>

lemma batch_new_ok_iff:
  "(\<exists>b. batch_new cs = Inr b) \<longleftrightarrow> (\<forall>c \<in> set cs. column_len c = column_len (hd cs))"
  by (cases cs) (auto simp: batch_new_def Let_def first_index_None split: option.splits dest!: first_index_Some)

lemma batch_is_rectangular:
  assumes "\<forall>c \<in> set cs. wf_column c" and "batch_new cs = Inr b"
  shows "wf_batch b \<and> ((\<exists>v. batch_value b row col = Some v) \<longleftrightarrow> row < batch_rows b \<and> col < length cs)"
proof -
  have wf: "wf_batch b" and cols: "batch_columns b = cs" using assms
    by (auto simp: batch_new_def Let_def wf_batch_def first_index_None split: option.splits)
  have "(\<exists>v. column_value c row = Some v) \<longleftrightarrow> row < batch_rows b" if "c \<in> set cs" for c
    using column_value_null_iff(2) [of c row] that wf cols by (simp add: wf_batch_def)
  then show ?thesis using wf cols by (auto simp: batch_value_def nth_opt_def)
qed

end
