(* ===== verification/Result_Policy.thy ===== *)
theory Result_Policy
  imports Row_Batch
begin

text \<open>
  \<^verbatim>\<open>crates/db-core/src/store/policy.rs\<close>: the caps and fetch settings a result store runs
  under, and the declared row width its first request is sized by; with the column types of
  \<^verbatim>\<open>crates/db-driver-api/src/types.rs\<close>.  A \<^verbatim>\<open>NonZeroUsize\<close> is a positive \<open>nat\<close>
  (\<open>wf_policy\<close>); \<^verbatim>\<open>size_of\<close> values are those of a 64-bit target.
\<close>

section \<open>Column types\<close>

datatype sql_type =
  SqlBoolean | SqlNumber | BinaryFloat | BinaryDouble
| SqlText bool bool \<comment> \<open>national, fixed length\<close>
| SqlDate | SqlTimestamp | TimestampWithTimeZone | Raw
| CharacterLob bool \<comment> \<open>national\<close>
| BinaryLob | SqlJson | SqlCursor | SqlUnsupported

definition VARCHAR :: sql_type where "VARCHAR = SqlText False False"

fun is_lob :: "sql_type \<Rightarrow> bool" where
  "is_lob (CharacterLob _) = True"
| "is_lob BinaryLob = True"
| "is_lob _ = False"

fun is_text :: "sql_type \<Rightarrow> bool" where
  "is_text (SqlText _ _) = True"
| "is_text SqlJson = True"
| "is_text _ = False"

fun sql_type_display :: "sql_type \<Rightarrow> string" where
  "sql_type_display SqlBoolean = ''boolean''"
| "sql_type_display SqlNumber = ''number''"
| "sql_type_display BinaryFloat = ''binary-float''"
| "sql_type_display BinaryDouble = ''binary-double''"
| "sql_type_display (SqlText national fixed) =
     (if national then (if fixed then ''ntext-fixed'' else ''ntext'')
      else (if fixed then ''text-fixed'' else ''text''))"
| "sql_type_display SqlDate = ''date''"
| "sql_type_display SqlTimestamp = ''timestamp''"
| "sql_type_display TimestampWithTimeZone = ''timestamp-tz''"
| "sql_type_display Raw = ''raw''"
| "sql_type_display (CharacterLob national) = (if national then ''nclob'' else ''clob'')"
| "sql_type_display BinaryLob = ''blob''"
| "sql_type_display SqlJson = ''json''"
| "sql_type_display SqlCursor = ''cursor''"
| "sql_type_display SqlUnsupported = ''unsupported''"

record column_metadata =
  column_name :: ustr
  sql_type :: sql_type
  nullable :: "bool option"
  precision :: "nat option"
  column_scale :: "int option"
  max_size_bytes :: "nat option"
  native_type_name :: "ustr option"

definition column_metadata_new :: "ustr \<Rightarrow> sql_type \<Rightarrow> column_metadata" where
  "column_metadata_new n t = \<lparr>column_name = n, sql_type = t, nullable = None, precision = None,
     column_scale = None, max_size_bytes = None, native_type_name = None\<rparr>"

definition with_nullable :: "bool \<Rightarrow> column_metadata \<Rightarrow> column_metadata" where
  "with_nullable b c = c\<lparr>nullable := Some b\<rparr>"

definition with_precision_scale :: "nat \<Rightarrow> int \<Rightarrow> column_metadata \<Rightarrow> column_metadata" where
  "with_precision_scale p s c = c\<lparr>precision := Some p, column_scale := Some s\<rparr>"

definition with_max_size_bytes :: "nat \<Rightarrow> column_metadata \<Rightarrow> column_metadata" where
  "with_max_size_bytes n c = c\<lparr>max_size_bytes := Some n\<rparr>"

definition with_native_type_name :: "ustr \<Rightarrow> column_metadata \<Rightarrow> column_metadata" where
  "with_native_type_name n c = c\<lparr>native_type_name := Some n\<rparr>"

section \<open>Caps\<close>

datatype cap = At nat | Unlimited

fun cap_limit :: "cap \<Rightarrow> nat option" where
  "cap_limit (At n) = Some n"
| "cap_limit Unlimited = None"

fun cap_raised_by :: "cap \<Rightarrow> cap \<Rightarrow> cap" where
  "cap_raised_by (At n) (At step) = At (sat_add n step)"
| "cap_raised_by _ _ = Unlimited"

datatype cap_source = BuiltIn | Application | Profile | Worksheet | FromFetchMore

record 'a sourced =
  sourced_value :: 'a
  source :: cap_source

definition sourced_new :: "'a \<Rightarrow> cap_source \<Rightarrow> 'a sourced" where
  "sourced_new v s = \<lparr>sourced_value = v, source = s\<rparr>"

record result_caps =
  max_rows :: "cap sourced"
  max_bytes :: "cap sourced"
  close_cursor_at_limit :: "bool sourced"

definition caps_new :: "cap sourced \<Rightarrow> cap sourced \<Rightarrow> result_caps" where
  "caps_new r b = \<lparr>max_rows = r, max_bytes = b, close_cursor_at_limit = sourced_new False BuiltIn\<rparr>"

definition with_close_cursor_at_limit :: "bool sourced \<Rightarrow> result_caps \<Rightarrow> result_caps" where
  "with_close_cursor_at_limit b c = c\<lparr>close_cursor_at_limit := b\<rparr>"

definition caps_raised_by :: "result_caps \<Rightarrow> result_caps \<Rightarrow> result_caps" where
  "caps_raised_by c steps = c
     \<lparr>max_rows := sourced_new (cap_raised_by (sourced_value (max_rows c)) (sourced_value (max_rows steps))) FromFetchMore,
      max_bytes := sourced_new (cap_raised_by (sourced_value (max_bytes c)) (sourced_value (max_bytes steps))) FromFetchMore\<rparr>"

definition caps_lifted :: "result_caps \<Rightarrow> result_caps" where
  "caps_lifted c = c\<lparr>max_rows := sourced_new Unlimited FromFetchMore, max_bytes := sourced_new Unlimited FromFetchMore\<rparr>"

section \<open>The policy\<close>

definition GRID_ROW_CEILING :: nat where "GRID_ROW_CEILING = 2147483647"
definition DEFAULT_FETCH_ROWS :: nat where "DEFAULT_FETCH_ROWS = 1000"
definition DEFAULT_ROUND_TRIP_BYTES :: nat where "DEFAULT_ROUND_TRIP_BYTES = 192 * 1024"
definition DEFAULT_FETCHES_IN_FLIGHT :: nat where "DEFAULT_FETCHES_IN_FLIGHT = 2"
definition UNKNOWN_VARIABLE_WIDTH :: nat where "UNKNOWN_VARIABLE_WIDTH = 4000"
definition UNSUPPORTED_MIN_WIDTH :: nat where "UNSUPPORTED_MIN_WIDTH = 64"
definition LOB_CELL_BYTES :: nat where "LOB_CELL_BYTES = 320"

record result_policy =
  policy_caps :: result_caps
  fetch_rows :: nat
  fetches_in_flight :: nat
  round_trip_bytes :: nat

definition policy_new :: "result_caps \<Rightarrow> result_policy" where
  "policy_new c = \<lparr>policy_caps = c, fetch_rows = DEFAULT_FETCH_ROWS,
     fetches_in_flight = DEFAULT_FETCHES_IN_FLIGHT, round_trip_bytes = DEFAULT_ROUND_TRIP_BYTES\<rparr>"

definition with_fetch_rows :: "nat \<Rightarrow> result_policy \<Rightarrow> result_policy" where
  "with_fetch_rows n p = p\<lparr>fetch_rows := n\<rparr>"

definition with_fetches_in_flight :: "nat \<Rightarrow> result_policy \<Rightarrow> result_policy" where
  "with_fetches_in_flight n p = p\<lparr>fetches_in_flight := n\<rparr>"

definition with_round_trip_bytes :: "nat \<Rightarrow> result_policy \<Rightarrow> result_policy" where
  "with_round_trip_bytes n p = p\<lparr>round_trip_bytes := n\<rparr>"

section \<open>The declared row width\<close>

definition SIZE_BOOL :: nat where "SIZE_BOOL = 1"
definition SIZE_NUMBER :: nat where "SIZE_NUMBER = 44"
definition SIZE_F32 :: nat where "SIZE_F32 = 4"
definition SIZE_F64 :: nat where "SIZE_F64 = 8"
definition SIZE_I64 :: nat where "SIZE_I64 = 8"
definition SIZE_TIMESTAMP :: nat where "SIZE_TIMESTAMP = 16"

definition variable_width :: "column_metadata \<Rightarrow> nat" where
  "variable_width c = sat_add (case max_size_bytes c of None \<Rightarrow> UNKNOWN_VARIABLE_WIDTH | Some b \<Rightarrow> b) SIZE_USIZE"

definition cell_width :: "column_metadata \<Rightarrow> nat" where
  "cell_width c =
     (case sql_type c of
        SqlBoolean \<Rightarrow> SIZE_BOOL
      | SqlNumber \<Rightarrow> SIZE_NUMBER
      | BinaryFloat \<Rightarrow> SIZE_F32
      | BinaryDouble \<Rightarrow> SIZE_F64
      | SqlDate \<Rightarrow> SIZE_TIMESTAMP
      | SqlTimestamp \<Rightarrow> SIZE_TIMESTAMP
      | TimestampWithTimeZone \<Rightarrow> SIZE_TIMESTAMP
      | CharacterLob _ \<Rightarrow> LOB_CELL_BYTES
      | BinaryLob \<Rightarrow> LOB_CELL_BYTES
      | SqlUnsupported \<Rightarrow> max (variable_width c) (UNSUPPORTED_MIN_WIDTH + SIZE_USIZE)
      | _ \<Rightarrow> variable_width c)"

definition declared_row_width :: "column_metadata list \<Rightarrow> nat" where
  "declared_row_width cs =
     (let cells = foldl (\<lambda>w c. sat_add w (cell_width c)) 0 cs
      in max (sat_add cells (div_ceil (length cs) 8)) 1)"

section \<open>Lemmas\<close>

lemma declared_row_width_pos [simp]: "0 < declared_row_width cs"
  by (simp add: declared_row_width_def Let_def)

lemma declared_row_width_ge_1: "1 \<le> declared_row_width cs"
  by (simp add: declared_row_width_def Let_def)

definition wf_cap :: "cap \<Rightarrow> bool" where
  "wf_cap c \<longleftrightarrow> (case c of At n \<Rightarrow> 0 < n \<and> n \<le> usize_max | Unlimited \<Rightarrow> True)"

definition wf_caps :: "result_caps \<Rightarrow> bool" where
  "wf_caps c \<longleftrightarrow> wf_cap (sourced_value (max_rows c)) \<and> wf_cap (sourced_value (max_bytes c))"

definition wf_policy :: "result_policy \<Rightarrow> bool" where
  "wf_policy p \<longleftrightarrow> wf_caps (policy_caps p) \<and> 0 < fetch_rows p \<and> fetch_rows p \<le> usize_max \<and>
     0 < fetches_in_flight p \<and> 0 < round_trip_bytes p \<and> round_trip_bytes p \<le> usize_max"

lemma wf_cap_raised_by: "wf_cap c \<Longrightarrow> wf_cap d \<Longrightarrow> wf_cap (cap_raised_by c d)"
  by (cases c; cases d) (auto simp: wf_cap_def sat_add_def usize_max_def)

lemma wf_caps_raised_by [simp]: "wf_caps c \<Longrightarrow> wf_caps d \<Longrightarrow> wf_caps (caps_raised_by c d)"
  by (simp add: wf_caps_def caps_raised_by_def sourced_new_def wf_cap_raised_by)

lemma wf_caps_lifted [simp]: "wf_caps (caps_lifted c)"
  by (simp add: wf_caps_def caps_lifted_def sourced_new_def wf_cap_def)

text \<open>Raising a cap never lowers it: the order of caps has \<open>Unlimited\<close> on top.\<close>

fun cap_le :: "cap \<Rightarrow> cap \<Rightarrow> bool" where
  "cap_le _ Unlimited = True"
| "cap_le Unlimited (At _) = False"
| "cap_le (At m) (At n) = (m \<le> n)"

lemma cap_le_raised: "wf_cap c \<Longrightarrow> cap_le c (cap_raised_by c d)"
  by (cases c; cases d) (auto simp: wf_cap_def sat_add_def)

end
