(* ===== verification/Result_Segment.thy ===== *)
theory Result_Segment
  imports Result_Policy Scaled_Number
begin

text \<open>
  \<^verbatim>\<open>crates/db-core/src/store/segment.rs\<close>: one fetched batch, compacted for retention.
  The list of spent driver buffers is left out, since nothing reads it: it only delays
  freeing them.  Parking a large object on the worker is the argument \<open>park\<close>, a function
  that passes the worker's state along.  The sizes of the two structures whose layout the
  compiler chooses are the argument \<open>layout\<close>.
\<close>

section \<open>The operations\<close>

datatype number_storage = ScaledValues "int rvec" nat | DecimalValues "number rvec"

datatype storage =
  BooleanStore "bool rvec" | NumberStore number_storage | FloatStore "f32 rvec"
| DoubleStore "f64 rvec" | TextStore text_column | BytesStore bytes_column
| TimestampStore "timestamp rvec" | JsonStore text_column | UnsupportedStore text_column
| LobStore "nat rvec"

record segment_column =
  column_nulls :: null_mask
  storage :: storage

datatype lob_unavailable = LobTransactionEnded | LobSessionEnded | LobResultClosed

datatype cell_value =
  CNull | CBoolean bool | CNumber number_cell | CFloat f32 | CDouble f64 | CText ustr
| CBytes "byte list" | CTimestamp timestamp | CJson ustr | CUnsupported ustr | CLob lob_handle
| CLobUnavailable lob_unavailable

fun segment_kind :: "storage \<Rightarrow> column_kind" where
  "segment_kind (BooleanStore _) = KBoolean"
| "segment_kind (NumberStore _) = KNumber"
| "segment_kind (FloatStore _) = KFloat"
| "segment_kind (DoubleStore _) = KDouble"
| "segment_kind (TextStore _) = KText"
| "segment_kind (BytesStore _) = KBytes"
| "segment_kind (TimestampStore _) = KTimestamp"
| "segment_kind (JsonStore _) = KJson"
| "segment_kind (UnsupportedStore _) = KUnsupported"
| "segment_kind (LobStore _) = KLob"

definition from_serial :: "session_id \<Rightarrow> nat \<Rightarrow> lob_handle" where
  "from_serial session n = \<lparr>lob_owner = session, serial = n\<rparr>"

fun storage_value :: "session_id \<Rightarrow> storage \<Rightarrow> nat \<Rightarrow> cell_value option" where
  "storage_value session (BooleanStore v) row = map_option CBoolean (vec_get v row)"
| "storage_value session (NumberStore (ScaledValues v s)) row =
     (case vec_get v row of None \<Rightarrow> None
      | Some mant \<Rightarrow> map_option (\<lambda>x. CNumber (Scaled x)) (scaled_new mant s))"
| "storage_value session (NumberStore (DecimalValues v)) row =
     map_option (\<lambda>n. CNumber (Decimal n)) (vec_get v row)"
| "storage_value session (FloatStore v) row = map_option CFloat (vec_get v row)"
| "storage_value session (DoubleStore v) row = map_option CDouble (vec_get v row)"
| "storage_value session (TextStore c) row = map_option CText (text_get c row)"
| "storage_value session (BytesStore c) row = map_option CBytes (bytes_get c row)"
| "storage_value session (TimestampStore v) row = map_option CTimestamp (vec_get v row)"
| "storage_value session (JsonStore c) row = map_option CJson (text_get c row)"
| "storage_value session (UnsupportedStore c) row = map_option CUnsupported (text_get c row)"
| "storage_value session (LobStore v) row =
     map_option (\<lambda>n. CLob (from_serial session n)) (vec_get v row)"

definition segment_column_value :: "session_id \<Rightarrow> segment_column \<Rightarrow> nat \<Rightarrow> cell_value option" where
  "segment_column_value session c row =
     (if row \<ge> mask_len (column_nulls c) then None
      else if is_null (column_nulls c) row then Some CNull
      else storage_value session (storage c) row)"

fun storage_heap_bytes :: "storage \<Rightarrow> nat" where
  "storage_heap_bytes (BooleanStore v) = capacity v * SIZE_BOOL"
| "storage_heap_bytes (NumberStore (ScaledValues v s)) = capacity v * SIZE_I64"
| "storage_heap_bytes (NumberStore (DecimalValues v)) = capacity v * SIZE_NUMBER"
| "storage_heap_bytes (FloatStore v) = capacity v * SIZE_F32"
| "storage_heap_bytes (DoubleStore v) = capacity v * SIZE_F64"
| "storage_heap_bytes (TextStore c) = text_heap_bytes c"
| "storage_heap_bytes (JsonStore c) = text_heap_bytes c"
| "storage_heap_bytes (UnsupportedStore c) = text_heap_bytes c"
| "storage_heap_bytes (BytesStore c) = bytes_heap_bytes c"
| "storage_heap_bytes (TimestampStore v) = capacity v * SIZE_TIMESTAMP"
| "storage_heap_bytes (LobStore v) =
     capacity v * SIZE_I64 + length (filter (\<lambda>n. n \<noteq> 0) (items v)) * (LOB_CELL_BYTES - SIZE_I64)"

definition segment_heap_bytes :: "segment_column \<Rightarrow> nat" where
  "segment_heap_bytes c = length (bits (column_nulls c)) * 8 + storage_heap_bytes (storage c)"

record result_segment =
  segment_session :: session_id
  segment_rows :: nat
  segment_columns :: "segment_column list"
  accounted_bytes :: nat

definition segment_value :: "result_segment \<Rightarrow> nat \<Rightarrow> nat \<Rightarrow> cell_value option" where
  "segment_value seg row col =
     (case nth_opt (segment_columns seg) col of None \<Rightarrow> None
      | Some c \<Rightarrow> segment_column_value (segment_session seg) c row)"

section \<open>Compaction\<close>

text \<open>A vector with spare capacity is copied; the copy allocates exactly its length.\<close>

definition exact :: "'a rvec \<Rightarrow> 'a rvec" where
  "exact v = (if capacity v = length (items v) then v
              else \<lparr>items = items v, capacity = length (items v)\<rparr>)"

definition text_clone :: "text_column \<Rightarrow> text_column" where
  "text_clone c = \<lparr>text_buffer = text_buffer c, text_cap = byte_len (text_buffer c),
     text_offsets = \<lparr>items = items (text_offsets c), capacity = length (items (text_offsets c))\<rparr>\<rparr>"

definition exact_text :: "text_column \<Rightarrow> text_column" where
  "exact_text c =
     (if text_heap_bytes c = byte_len (text_buffer c) + length (items (text_offsets c)) * SIZE_USIZE
      then c else text_clone c)"

definition bytes_clone :: "bytes_column \<Rightarrow> bytes_column" where
  "bytes_clone c =
     \<lparr>bytes_buffer = \<lparr>items = items (bytes_buffer c), capacity = length (items (bytes_buffer c))\<rparr>,
      bytes_offsets = \<lparr>items = items (bytes_offsets c), capacity = length (items (bytes_offsets c))\<rparr>\<rparr>"

definition exact_bytes :: "bytes_column \<Rightarrow> bytes_column" where
  "exact_bytes c =
     (if bytes_heap_bytes c = length (items (bytes_buffer c)) + length (items (bytes_offsets c)) * SIZE_USIZE
      then c else bytes_clone c)"

fun column_scale_needed :: "null_mask \<Rightarrow> nat \<Rightarrow> number list \<Rightarrow> nat \<Rightarrow> nat option" where
  "column_scale_needed m row [] s = Some s"
| "column_scale_needed m row (n # ns) s =
     (if is_null m row then column_scale_needed m (Suc row) ns s
      else case required_scale n of
        Some needed \<Rightarrow> column_scale_needed m (Suc row) ns (max s needed)
      | None \<Rightarrow> None)"

fun scale_column :: "null_mask \<Rightarrow> nat \<Rightarrow> number list \<Rightarrow> nat \<Rightarrow> int list option" where
  "scale_column m row [] s = Some []"
| "scale_column m row (n # ns) s =
     (if is_null m row then map_option (Cons 0) (scale_column m (Suc row) ns s)
      else case scaled_from_number n s of
        Some x \<Rightarrow> map_option (Cons (mantissa x)) (scale_column m (Suc row) ns s)
      | None \<Rightarrow> None)"

definition compact_numbers :: "number rvec \<Rightarrow> null_mask \<Rightarrow> number_storage" where
  "compact_numbers v m =
     (case column_scale_needed m 0 (items v) 0 of
        None \<Rightarrow> DecimalValues (exact v)
      | Some s \<Rightarrow> (case scale_column m 0 (items v) s of
          None \<Rightarrow> DecimalValues (exact v)
        | Some ms \<Rightarrow> ScaledValues \<lparr>items = ms, capacity = length (items v)\<rparr> s))"

type_synonym ('l, 's) park = "nat \<Rightarrow> 'l \<Rightarrow> 's \<Rightarrow> (db_error + nat) \<times> 's"

text \<open>A cell without a locator keeps the id 0; the others are parked in row order.\<close>

fun park_column :: "('l, 's) park \<Rightarrow> nat \<Rightarrow> 'l option list \<Rightarrow> 's \<Rightarrow> (db_error + nat list) \<times> 's" where
  "park_column park row [] s = (Inr [], s)"
| "park_column park row (None # ls) s =
     (case park_column park (Suc row) ls s of (Inl e, s') \<Rightarrow> (Inl e, s') | (Inr ids, s') \<Rightarrow> (Inr (0 # ids), s'))"
| "park_column park row (Some l # ls) s =
     (case park row l s of
        (Inl e, s') \<Rightarrow> (Inl e, s')
      | (Inr n, s') \<Rightarrow> (case park_column park (Suc row) ls s' of
            (Inl e, s'') \<Rightarrow> (Inl e, s'') | (Inr ids, s'') \<Rightarrow> (Inr (n # ids), s'')))"

fun compact_data :: "('l, 's) park \<Rightarrow> 'l column_data \<Rightarrow> null_mask \<Rightarrow> 's \<Rightarrow> (db_error + storage) \<times> 's" where
  "compact_data park (BooleanData v) m s = (Inr (BooleanStore (exact v)), s)"
| "compact_data park (NumberData v) m s = (Inr (NumberStore (compact_numbers v m)), s)"
| "compact_data park (FloatData v) m s = (Inr (FloatStore (exact v)), s)"
| "compact_data park (DoubleData v) m s = (Inr (DoubleStore (exact v)), s)"
| "compact_data park (TextData c) m s = (Inr (TextStore (exact_text c)), s)"
| "compact_data park (BytesData c) m s = (Inr (BytesStore (exact_bytes c)), s)"
| "compact_data park (TimestampData v) m s = (Inr (TimestampStore (exact v)), s)"
| "compact_data park (JsonData c) m s = (Inr (JsonStore (exact_text c)), s)"
| "compact_data park (UnsupportedData c) m s = (Inr (UnsupportedStore (exact_text c)), s)"
| "compact_data park (LobData v) m s =
     (case park_column park 0 (items v) s of
        (Inl e, s') \<Rightarrow> (Inl e, s')
      | (Inr ids, s') \<Rightarrow> (Inr (LobStore \<lparr>items = ids, capacity = length (items v)\<rparr>), s'))"

fun compact_columns :: "('l, 's) park \<Rightarrow> 'l column list \<Rightarrow> 's \<Rightarrow> (db_error + segment_column list) \<times> 's" where
  "compact_columns park [] s = (Inr [], s)"
| "compact_columns park (c # cs) s =
     (let (d, m) = into_parts c in
      case compact_data park d m s of
        (Inl e, s') \<Rightarrow> (Inl e, s')
      | (Inr st, s') \<Rightarrow> (case compact_columns park cs s' of
            (Inl e, s'') \<Rightarrow> (Inl e, s'')
          | (Inr rest, s'') \<Rightarrow> (Inr (\<lparr>column_nulls = m, storage = st\<rparr> # rest), s'')))"

record layout =
  size_segment :: nat
  size_column :: nat

definition accounted :: "layout \<Rightarrow> segment_column list \<Rightarrow> nat" where
  "accounted lay cs = size_segment lay + 2 * SIZE_USIZE + length cs * size_column lay +
     sum_list (map segment_heap_bytes cs)"

definition compact_batch ::
  "layout \<Rightarrow> session_id \<Rightarrow> 'l row_batch \<Rightarrow> ('l, 's) park \<Rightarrow> 's \<Rightarrow> (db_error + result_segment) \<times> 's" where
  "compact_batch lay session b park s =
     (case compact_columns park (batch_columns b) s of
        (Inl e, s') \<Rightarrow> (Inl e, s')
      | (Inr cs, s') \<Rightarrow>
          (Inr \<lparr>segment_session = session, segment_rows = batch_rows b, segment_columns = cs,
                accounted_bytes = accounted lay cs\<rparr>, s'))"

text \<open>
  \<^verbatim>\<open>ResultSegment::compact\<close>: only for batches without large objects; the batch comes back
  otherwise.  (A later variant of the non-exhaustive \<^verbatim>\<open>ColumnKind\<close> would be refused too.)
\<close>

fun retainable_kind :: "column_kind \<Rightarrow> bool" where
  "retainable_kind KLob = False"
| "retainable_kind _ = True"

definition compact :: "layout \<Rightarrow> 'l row_batch \<Rightarrow> 'l row_batch + result_segment" where
  "compact lay b =
     (if \<not> list_all (\<lambda>c. retainable_kind (data_kind (data c))) (batch_columns b) then Inl b
      else case compact_batch lay UNOWNED b
             (\<lambda>_ _ s. (Inl (error_internal (us ''reldex-db-core: a batch without LOB columns asked to park a locator'')), s)) () of
        (Inl e, _) \<Rightarrow> Inl batch_empty
      | (Inr seg, _) \<Rightarrow> Inr seg)"

section \<open>What a segment keeps of its batch\<close>

lemma vec_get_exact [simp]: "vec_get (exact v) = vec_get v"
  by (simp add: fun_eq_iff vec_get_def exact_def)

lemma capacity_exact [simp]: "capacity (exact v) = length (items v)"
  by (simp add: exact_def)

lemma text_get_exact [simp]: "text_get (exact_text c) = text_get c"
  by (simp add: fun_eq_iff text_get_def exact_text_def text_clone_def vec_get_def cong: option.case_cong)

lemma bytes_get_exact [simp]: "bytes_get (exact_bytes c) = bytes_get c"
  by (simp add: fun_eq_iff bytes_get_def exact_bytes_def bytes_clone_def vec_get_def cong: option.case_cong)

lemma text_heap_bytes_exact [simp]:
  "text_heap_bytes (exact_text c) = byte_len (text_buffer c) + length (items (text_offsets c)) * SIZE_USIZE"
  by (simp add: exact_text_def text_clone_def text_heap_bytes_def)

lemma bytes_heap_bytes_exact [simp]:
  "bytes_heap_bytes (exact_bytes c) = length (items (bytes_buffer c)) + length (items (bytes_offsets c)) * SIZE_USIZE"
  by (simp add: exact_bytes_def bytes_clone_def bytes_heap_bytes_def)

lemma scale_column_nth:
  "scale_column m row ns s = Some ms \<Longrightarrow> length ms = length ns \<and>
   (\<forall>i < length ns. \<not> is_null m (row + i) \<longrightarrow>
      (\<exists>x. scaled_from_number (ns ! i) s = Some x \<and> mantissa x = ms ! i))"
proof (induction m row ns s arbitrary: ms rule: scale_column.induct)
  case (2 m row n ns s)
  then show ?case
    by (auto split: if_splits option.splits simp: less_Suc_eq_0_disj)
qed simp

lemma scaled_from_number_scale: "scaled_from_number n s = Some x \<Longrightarrow> scale x = s \<and> s \<le> MAX_SCALE"
  by (auto simp: scaled_from_number_def Let_def split: if_splits)

lemma compact_numbers_value:
  assumes "\<forall>n \<in> set (items v). wf_number n" and "i < vec_len v" and "\<not> is_null m i"
  shows "\<exists>c. storage_value session (NumberStore (compact_numbers v m)) i = Some (CNumber c) \<and>
    cell_to_number c = items v ! i"
proof (cases "compact_numbers v m")
  case (DecimalValues w)
  then have "w = exact v" by (auto simp: compact_numbers_def split: option.splits)
  with DecimalValues assms(2) show ?thesis by (simp add: vec_get_total)
next
  case (ScaledValues w s)
  then have w: "scale_column m 0 (items v) s = Some (items w)"
    by (auto simp: compact_numbers_def split: option.splits)
  from scale_column_nth [OF w] assms(2,3) obtain x
    where x: "scaled_from_number (items v ! i) s = Some x" "mantissa x = items w ! i" "i < vec_len w"
    by (auto simp: vec_len_def)
  have "wf_number (items v ! i)" using assms(1,2) by (simp add: vec_len_def)
  with x(1) have "scaled_to_number x = items v ! i" by (intro scaled_decode)
  moreover have "scaled_new (items w ! i) s = Some x"
    using scaled_from_number_scale [OF x(1)] x(2) by (simp add: scaled_new_def flip: x(2))
  ultimately show ?thesis using ScaledValues x(3) by (auto simp: vec_get_total)
qed

lemma park_column_nth:
  "park_column park row ls s = (Inr ids, s') \<Longrightarrow> length ids = length ls \<and>
   (\<forall>i < length ls. case ls ! i of None \<Rightarrow> ids ! i = 0
      | Some l \<Rightarrow> \<exists>t t'. park (row + i) l t = (Inr (ids ! i), t'))"
proof (induction park row ls s arbitrary: ids s' rule: park_column.induct)
  case (2 park row ls s)
  then show ?case by (auto split: prod.splits sum.splits simp: less_Suc_eq_0_disj cong: option.case_cong)
next
  case (3 park row l ls s)
  then show ?case by (auto split: prod.splits sum.splits simp: less_Suc_eq_0_disj cong: option.case_cong) blast
qed simp

text \<open>
  How a driver's cell appears in the store: unchanged, a number in either encoding, and a
  large object as the handle the worker parked it under (0 when its locator was gone).
\<close>

fun shows_as :: "('l, 's) park \<Rightarrow> session_id \<Rightarrow> nat \<Rightarrow> 'l value_ref \<Rightarrow> cell_value \<Rightarrow> bool" where
  "shows_as park session row VNull c = (c = CNull)"
| "shows_as park session row (VBoolean b) c = (c = CBoolean b)"
| "shows_as park session row (VNumber n) c = (\<exists>x. c = CNumber x \<and> cell_to_number x = n)"
| "shows_as park session row (VFloat f) c = (c = CFloat f)"
| "shows_as park session row (VDouble f) c = (c = CDouble f)"
| "shows_as park session row (VText t) c = (c = CText t)"
| "shows_as park session row (VBytes b) c = (c = CBytes b)"
| "shows_as park session row (VTimestamp t) c = (c = CTimestamp t)"
| "shows_as park session row (VJson t) c = (c = CJson t)"
| "shows_as park session row (VUnsupported t) c = (c = CUnsupported t)"
| "shows_as park session row (VLob l) c =
     (\<exists>n t t'. c = CLob (from_serial session n) \<and> park row l t = (Inr n, t'))"
| "shows_as park session row VTaken c = (c = CLob (from_serial session 0))"

lemma compact_data_value:
  assumes "compact_data park d m s = (Inr st, s')" and "wf_data d" and "row < data_len d" and "\<not> is_null m row"
  shows "\<exists>v c. data_value d row = Some v \<and> storage_value session st row = Some c \<and> shows_as park session row v c"
proof (cases d)
  case (NumberData v)
  then show ?thesis using assms compact_numbers_value [of v row m session] by (auto simp: vec_get_total)
next
  case (LobData v)
  then obtain ids where ids: "park_column park 0 (items v) s = (Inr ids, s')"
    "st = LobStore \<lparr>items = ids, capacity = length (items v)\<rparr>"
    using assms(1) by (auto split: prod.splits sum.splits)
  have row: "row < length (items v)" using assms(3) LobData by (simp add: vec_len_def)
  with park_column_nth [OF ids(1)] show ?thesis using ids(2) LobData
    by (auto simp: vec_get_def nth_opt_def split: option.splits)
next
  case (TextData c)
  then show ?thesis using assms text_get_total by fastforce
next
  case (JsonData c)
  then show ?thesis using assms text_get_total by fastforce
next
  case (UnsupportedData c)
  then show ?thesis using assms text_get_total by fastforce
next
  case (BytesData c)
  then show ?thesis using assms bytes_get_total by fastforce
qed (use assms in \<open>auto simp: vec_get_total\<close>)

lemma compact_columns_nth:
  "compact_columns park cs s = (Inr scs, s') \<Longrightarrow> length scs = length cs \<and>
   (\<forall>i < length cs. column_nulls (scs ! i) = nulls (cs ! i) \<and>
      (\<exists>t t'. compact_data park (data (cs ! i)) (nulls (cs ! i)) t = (Inr (storage (scs ! i)), t')))"
proof (induction park cs s arbitrary: scs s' rule: compact_columns.induct)
  case (2 park c cs s)
  then show ?case
    by (auto split: prod.splits sum.splits simp: less_Suc_eq_0_disj into_parts_def) metis+
qed simp

lemma segment_column_shows:
  assumes "wf_column c" and "column_nulls sc = nulls c" and "compact_data park (data c) (nulls c) s = (Inr (storage sc), s')"
  shows "rel_option (shows_as park session row) (column_value c row) (segment_column_value session sc row)"
proof (cases "row < column_len c \<and> \<not> is_null (nulls c) row")
  case True
  then show ?thesis using compact_data_value [OF assms(3), of row session] assms(1,2)
    by (auto simp: column_value_def segment_column_value_def wf_column_def column_len_def)
next
  case False
  then show ?thesis using assms(1,2)
    by (auto simp: column_value_def segment_column_value_def wf_column_def column_len_def)
qed

section \<open>Accounting\<close>

text \<open>
  The bytes of a column at its exact size, from its values alone: nothing of what the driver
  reserved.
\<close>

fun exact_data_bytes :: "storage \<Rightarrow> nat" where
  "exact_data_bytes (BooleanStore v) = vec_len v * SIZE_BOOL"
| "exact_data_bytes (NumberStore (ScaledValues v s)) = vec_len v * SIZE_I64"
| "exact_data_bytes (NumberStore (DecimalValues v)) = vec_len v * SIZE_NUMBER"
| "exact_data_bytes (FloatStore v) = vec_len v * SIZE_F32"
| "exact_data_bytes (DoubleStore v) = vec_len v * SIZE_F64"
| "exact_data_bytes (TextStore c) = byte_len (text_buffer c) + vec_len (text_offsets c) * SIZE_USIZE"
| "exact_data_bytes (JsonStore c) = byte_len (text_buffer c) + vec_len (text_offsets c) * SIZE_USIZE"
| "exact_data_bytes (UnsupportedStore c) = byte_len (text_buffer c) + vec_len (text_offsets c) * SIZE_USIZE"
| "exact_data_bytes (BytesStore c) = vec_len (bytes_buffer c) + vec_len (bytes_offsets c) * SIZE_USIZE"
| "exact_data_bytes (TimestampStore v) = vec_len v * SIZE_TIMESTAMP"
| "exact_data_bytes (LobStore v) =
     vec_len v * SIZE_I64 + length (filter (\<lambda>n. n \<noteq> 0) (items v)) * (LOB_CELL_BYTES - SIZE_I64)"

lemma items_exact [simp]: "items (exact v) = items v"
  by (simp add: exact_def)

lemma exact_text_parts [simp]:
  "text_buffer (exact_text c) = text_buffer c" "items (text_offsets (exact_text c)) = items (text_offsets c)"
  by (simp_all add: exact_text_def text_clone_def)

lemma exact_bytes_parts [simp]:
  "items (bytes_buffer (exact_bytes c)) = items (bytes_buffer c)"
  "items (bytes_offsets (exact_bytes c)) = items (bytes_offsets c)"
  by (simp_all add: exact_bytes_def bytes_clone_def)

lemma compact_data_exact:
  assumes "compact_data park d m s = (Inr st, s')"
  shows "storage_heap_bytes st = exact_data_bytes st"
proof (cases d)
  case (NumberData v)
  then have "st = NumberStore (compact_numbers v m)" using assms by simp
  then show ?thesis
    by (auto simp: compact_numbers_def vec_len_def dest: scale_column_nth split: option.splits)
next
  case (LobData v)
  then show ?thesis using assms
    by (auto simp: vec_len_def dest: park_column_nth split: prod.splits sum.splits)
qed (use assms in \<open>auto simp: vec_len_def\<close>)

lemma compact_batch_columns:
  assumes "compact_batch lay session b park s = (Inr seg, s')"
  shows "segment_session seg = session" "segment_rows seg = batch_rows b"
    "compact_columns park (batch_columns b) s = (Inr (segment_columns seg), s')"
    "accounted_bytes seg = accounted lay (segment_columns seg)"
  using assms by (auto simp: compact_batch_def split: prod.splits sum.splits)

lemma compact_data_total:
  "retainable_kind (data_kind d) \<Longrightarrow> \<exists>st. compact_data park d m s = (Inr st, s)"
  by (cases d) auto

lemma compact_columns_total:
  "\<forall>c \<in> set cs. retainable_kind (data_kind (data c)) \<Longrightarrow> \<exists>scs. compact_columns park cs s = (Inr scs, s)"
proof (induction cs)
  case (Cons c cs)
  then obtain st scs where "compact_data park (data c) (nulls c) s = (Inr st, s)"
    "compact_columns park cs s = (Inr scs, s)"
    using compact_data_total [of "data c" park "nulls c" s] by auto
  then show ?case by (simp add: into_parts_def)
qed simp

section \<open>Properties\<close>

text \<open>
  Compaction loses nothing: every cell of the segment reads what the same cell of the
  batch read, NULL for NULL, numbers with the same value in either encoding, a large object
  as the handle its locator was parked under, and nothing outside the batch's rectangle.
\<close>

theorem compaction_preserves_cells:
  assumes "wf_batch b" and "compact_batch lay session b park s = (Inr seg, s')"
  shows "segment_rows seg = batch_rows b \<and> length (segment_columns seg) = length (batch_columns b) \<and>
    rel_option (shows_as park session row) (batch_value b row col) (segment_value seg row col)"
proof -
  note seg = compact_batch_columns [OF assms(2)]
  note cols = compact_columns_nth [OF seg(3)]
  show ?thesis
  proof (cases "col < length (batch_columns b)")
    case True
    with cols obtain t t' where "compact_data park (data (batch_columns b ! col)) (nulls (batch_columns b ! col)) t =
        (Inr (storage (segment_columns seg ! col)), t')" by blast
    with segment_column_shows [of "batch_columns b ! col" "segment_columns seg ! col"] cols True assms(1) seg
    show ?thesis by (simp add: batch_value_def segment_value_def nth_opt_def wf_batch_def)
  next
    case False
    with cols seg show ?thesis by (simp add: batch_value_def segment_value_def nth_opt_def)
  qed
qed

definition sample_batch :: "nat row_batch" where
  "sample_batch = \<lparr>batch_columns =
     [\<lparr>data = NumberData \<lparr>items = [mk_number True [1, 5] 1, ZERO], capacity = 4\<rparr>, nulls = \<lparr>bits = [2], mask_len = 2\<rparr>\<rparr>],
     batch_rows = 2\<rparr>"

theorem compaction_preserves_cells_witness:
  "segment_value (projr (fst (compact_batch \<lparr>size_segment = 40, size_column = 80\<rparr> 1 sample_batch (\<lambda>_ _ s. (Inr s, Suc s)) 7))) 1 0 =
     Some CNull"
proof -
  let ?r = "compact_batch \<lparr>size_segment = 40, size_column = 80\<rparr> 1 sample_batch (\<lambda>_ _ s. (Inr s, Suc s)) (7::nat)"
  have num: "wf_number (mk_number True [1, 5] 1)" "wf_number ZERO"
    using wf_mk_number [of "[1, 5]" 1 True] by (simp_all add: MAX_SIGNIFICANT_DIGITS_def MIN_EXPONENT_def MAX_EXPONENT_def)
  have mask: "wf_mask \<lparr>bits = [2], mask_len = 2\<rparr>"
    using wf_set_null [OF wf_mask_new, of 1 2 "\<lparr>bits = [2], mask_len = 2\<rparr>"]
    by (simp add: set_null_def null_mask_new_def div_ceil_def)
  have wf: "wf_batch sample_batch" using num mask
    by (simp add: wf_batch_def sample_batch_def wf_column_def column_len_def vec_rep_def vec_len_def)
  have ok: "?r = (Inr (projr (fst ?r)), 7)" by code_simp
  have "batch_value sample_batch 1 0 = Some VNull" by code_simp
  with compaction_preserves_cells [OF wf ok, of 1 0] show ?thesis
    by (auto elim: option.rel_cases)
qed

text \<open>
  A segment is accounted at its exact size: its bytes are a function of its values and
  its columns' NULL masks, with none of the capacity the driver reserved, and a batch with
  no large objects always compacts.
\<close>

theorem segment_accounts_exact_size:
  "case compact lay b of
      Inl b' \<Rightarrow> b' = b \<and> (\<exists>c. c \<in> set (batch_columns b) \<and> data_kind (data c) = KLob)
    | Inr seg \<Rightarrow> accounted_bytes seg = size_segment lay + 16 + length (batch_columns b) * size_column lay +
        (\<Sum>c \<leftarrow> segment_columns seg. 8 * length (bits (column_nulls c)) + exact_data_bytes (storage c))"
proof (cases "list_all (\<lambda>c. retainable_kind (data_kind (data c))) (batch_columns b)")
  case False
  then obtain c where "c \<in> set (batch_columns b)" "\<not> retainable_kind (data_kind (data c))"
    by (auto simp: list_all_iff)
  with False show ?thesis by (cases "data_kind (data c)") (auto simp: compact_def)
next
  case True
  let ?park = "\<lambda>_ _ s. (Inl (error_internal (us ''reldex-db-core: a batch without LOB columns asked to park a locator'')), s)"
  obtain scs where scs: "compact_columns ?park (batch_columns b) () = (Inr scs, ())"
    using compact_columns_total [of "batch_columns b" ?park "()"] True by (auto simp: list_all_iff)
  have "storage_heap_bytes (storage c) = exact_data_bytes (storage c)" if "c \<in> set scs" for c
    using compact_columns_nth [OF scs] compact_data_exact that by (metis in_set_conv_nth)
  then have "accounted lay scs = size_segment lay + 16 + length scs * size_column lay +
      (\<Sum>c \<leftarrow> scs. 8 * length (bits (column_nulls c)) + exact_data_bytes (storage c))"
    by (simp add: accounted_def segment_heap_bytes_def SIZE_USIZE_def mult.commute cong: map_cong)
  with True scs compact_columns_nth [OF scs] show ?thesis
    by (auto simp: compact_def compact_batch_def)
qed

end
