(* ===== verification/Execution_Outcome.thy ===== *)
theory Execution_Outcome
  imports Row_Batch Result_Policy
begin

text \<open>
  What executing a statement gives: the driver's side of it (\<^verbatim>\<open>result.rs\<close>, \<^verbatim>\<open>session.rs\<close>
  and \<^verbatim>\<open>server_output.rs\<close> of \<^verbatim>\<open>crates/db-driver-api\<close>) and the core's
  (\<^verbatim>\<open>crates/db-core/src/session.rs\<close>).  A cursor and a large-object locator are handles into
  the driver, the types \<open>'k\<close> and \<open>'l\<close>; on the core's side they have become a result id and a
  large-object handle, so that its types no longer mention them.
\<close>

datatype statement_kind = Query | Dml | Ddl | PlSqlBlock | TransactionControl | SessionControl | OtherStatement

definition commits_implicitly :: "statement_kind \<Rightarrow> bool" where
  "commits_implicitly k \<longleftrightarrow> k = Ddl"

datatype transaction_state = TxInactive | TxActive | TxUnknown

fun may_be_open :: "transaction_state \<Rightarrow> bool" where
  "may_be_open TxInactive = False"
| "may_be_open TxActive = True"
| "may_be_open TxUnknown = True"

datatype warning_kind = CompiledWithErrors | Informational

record warning =
  warning_kind :: warning_kind
  warning_message :: ustr
  warning_native :: "native_error option"
  warning_position :: "sql_position option"

datatype plain_value =
  PNull | PBoolean bool | PNumber number | PFloat f32 | PDouble f64 | PText ustr | PBytes "byte list"
| PTimestamp timestamp | PJson ustr | PTaken

datatype ('k, 'l) driver_value = PlainValue plain_value | LobValue 'l | CursorValue 'k

datatype 'v out_values = NoOutValues | Positional "'v option list" | Named "(ustr \<times> 'v) list"

fun values_positional :: "'v out_values \<Rightarrow> nat \<Rightarrow> 'v option" where
  "values_positional (Positional vs) i = (if i < length vs then vs ! i else None)"
| "values_positional _ i = None"

fun values_named :: "'v out_values \<Rightarrow> ustr \<Rightarrow> 'v option" where
  "values_named (Named vs) name = map_option snd (find (\<lambda>(k, _). k = name) vs)"
| "values_named _ name = None"

fun values_empty :: "'v out_values \<Rightarrow> bool" where
  "values_empty NoOutValues = True"
| "values_empty (Positional vs) = list_all (\<lambda>v. v = None) vs"
| "values_empty (Named vs) = (vs = [])"

fun same_shape_all_taken :: "('k, 'l) driver_value out_values \<Rightarrow> ('k, 'l) driver_value out_values" where
  "same_shape_all_taken NoOutValues = NoOutValues"
| "same_shape_all_taken (Positional vs) = Positional (map (map_option (\<lambda>_. PlainValue PTaken)) vs)"
| "same_shape_all_taken (Named vs) = Named (map (\<lambda>(name, _). (name, PlainValue PTaken)) vs)"

record ('k, 'l) execution_outcome =
  exec_cursor :: "'k option"
  exec_rows_affected :: "nat option"
  exec_kind :: statement_kind
  exec_out_values :: "('k, 'l) driver_value out_values"
  exec_warnings :: "warning list"

definition take_out_values ::
  "('k, 'l) execution_outcome \<Rightarrow> ('k, 'l) driver_value out_values \<times> ('k, 'l) execution_outcome" where
  "take_out_values out =
     (exec_out_values out, out\<lparr>exec_out_values := same_shape_all_taken (exec_out_values out)\<rparr>)"

definition take_cursor :: "('k, 'l) execution_outcome \<Rightarrow> 'k option \<times> ('k, 'l) execution_outcome" where
  "take_cursor out = (exec_cursor out, out\<lparr>exec_cursor := None\<rparr>)"

definition compiled_with_errors :: "('k, 'l) execution_outcome \<Rightarrow> bool" where
  "compiled_with_errors out \<longleftrightarrow> list_ex (\<lambda>w. warning_kind w = CompiledWithErrors) (exec_warnings out)"

section \<open>Server output\<close>

datatype server_output_buffer = UnlimitedBuffer | BufferBytes nat

datatype server_output_setting = Disabled | Enabled server_output_buffer

fun output_enabled :: "server_output_setting \<Rightarrow> bool" where
  "output_enabled Disabled = False"
| "output_enabled (Enabled _) = True"

record server_output_chunk =
  chunk_lines :: "ustr list"
  drained :: bool
  chunk_invalid_utf8 :: nat

section \<open>The core's outcome\<close>

datatype out_value = OutPlain plain_value | OutResult result_id | OutLob lob_handle

record execute_outcome =
  outcome_result :: "result_id option"
  outcome_columns :: "column_metadata list"
  statement_kind :: statement_kind
  committed_implicitly :: bool
  rows_affected :: "nat option"
  outcome_warnings :: "warning list"
  outcome_values :: "out_value out_values"

end
