(* ===== verification/Result_Store.thy ===== *)
theory Result_Store
  imports Result_Segment Execution_Outcome
begin

text \<open>
  \<^verbatim>\<open>crates/db-core/src/store/result_store.rs\<close>: one open result's retained prefix, its
  fetch policy and its state.  Every method is an operation on the record \<open>result_store\<close>.

  The capacities of the store's two vectors are kept (\<open>rvec\<close>), because the byte cap counts
  them.  \<^verbatim>\<open>on_fetched\<close> panics on a reply out of sequence in a debug build: its model
  takes the build as an argument and returns no value for the panic.
\<close>

section \<open>Data\<close>

record fetch_ticket =
  ticket_result :: result_id
  sequence :: nat

record fetch_request =
  ticket :: fetch_ticket
  request_rows :: nat

datatype store_action = Fetch fetch_request | CloseResult result_id

record segment_reply =
  segment :: result_segment
  reply_exhausted :: bool

datatype limit_kind = LimitRows | LimitBytes | LimitRowCeiling
datatype more_rows = MoreYes | MoreUnknown
datatype end_cause = EndSessionEnded | EndTransactionEnded | EndDiscarded
datatype lob_cell = Readable lob_handle | Unavailable lob_unavailable

datatype fetched = Appended nat | FetchFailed | Stale | NotThisResult | OutOfSequence
datatype fetch_more_kind = Step | NoLimit

record in_flight_fetch =
  flight_sequence :: nat
  flight_rows :: nat
  flight_bytes :: nat

datatype phase = Active | AtLimit limit_kind more_rows | Complete | Failed nat db_error | Ended end_cause

datatype result_phase =
  Fetching | Open | PhaseComplete
| PhaseAtLimit limit_kind more_rows bool \<comment> \<open>whether the cursor is still open\<close>
| PhaseFailed nat db_error | PhaseEnded end_cause

record result_store =
  store_result :: result_id
  store_columns :: "column_metadata list"
  policy :: result_policy
  caps :: result_caps
  declared_width :: nat
  segments :: "result_segment rvec"
  starts :: "nat rvec"
  uniform :: bool
  retained_rows :: nat
  segment_bytes :: nat
  next_sequence :: nat
  in_flight :: "in_flight_fetch list"
  in_flight_rows :: nat
  in_flight_bytes :: nat
  first_submitted :: bool
  demand :: nat
  fetching_all :: bool
  stopped :: bool
  transaction_ends_pending :: nat
  exhausted :: bool
  phase :: phase
  close_due :: bool
  cursor_closed :: bool
  lobs :: "lob_unavailable option"

record result_state =
  state_phase :: result_phase
  state_rows :: nat
  state_retained_rows :: nat
  state_retained_bytes :: nat
  state_caps :: result_caps
  state_fetches_in_flight :: nat
  state_stopped :: bool
  state_lobs :: "lob_unavailable option"

section \<open>Construction and state\<close>

definition store_new :: "result_id \<Rightarrow> column_metadata list \<Rightarrow> result_policy \<Rightarrow> result_store" where
  "store_new r cols p =
     \<lparr>store_result = r, store_columns = cols, policy = p, caps = policy_caps p,
      declared_width = declared_row_width cols, segments = vec_new, starts = vec_new, uniform = True,
      retained_rows = 0, segment_bytes = 0, next_sequence = 0, in_flight = [], in_flight_rows = 0,
      in_flight_bytes = 0, first_submitted = False, demand = 0, fetching_all = False, stopped = False,
      transaction_ends_pending = 0, exhausted = False, phase = Active, close_due = False,
      cursor_closed = False, lobs = None\<rparr>"

definition row_limit :: "result_store \<Rightarrow> nat" where
  "row_limit s =
     (case cap_limit (sourced_value (max_rows (caps s))) of
        None \<Rightarrow> GRID_ROW_CEILING | Some rows \<Rightarrow> min rows GRID_ROW_CEILING)"

definition row_count :: "result_store \<Rightarrow> nat" where
  "row_count s = min (retained_rows s) (row_limit s)"

definition retained_bytes :: "result_store \<Rightarrow> nat" where
  "retained_bytes s = segment_bytes s + capacity (segments s) * SIZE_USIZE + capacity (starts s) * SIZE_USIZE"

definition store_state :: "result_store \<Rightarrow> result_state" where
  "store_state s =
     \<lparr>state_phase =
        (case phase s of
           Active \<Rightarrow> if in_flight s = [] then Open else Fetching
         | AtLimit l m \<Rightarrow> PhaseAtLimit l m (\<not> cursor_closed s \<and> \<not> close_due s)
         | Complete \<Rightarrow> PhaseComplete
         | Failed after e \<Rightarrow> PhaseFailed after e
         | Ended c \<Rightarrow> PhaseEnded c),
      state_rows = row_count s, state_retained_rows = retained_rows s,
      state_retained_bytes = retained_bytes s, state_caps = caps s,
      state_fetches_in_flight = length (in_flight s), state_stopped = stopped s, state_lobs = lobs s\<rparr>"

section \<open>Reads\<close>

text \<open>\<^verbatim>\<open>partition_point\<close> of a list the predicate partitions.\<close>

definition partition_point :: "('a \<Rightarrow> bool) \<Rightarrow> 'a list \<Rightarrow> nat" where
  "partition_point P xs = length (takeWhile P xs)"

definition checked_pred :: "nat \<Rightarrow> nat option" where
  "checked_pred n = (if n = 0 then None else Some (n - 1))"

definition segment_index :: "result_store \<Rightarrow> nat \<Rightarrow> nat option" where
  "segment_index s row =
     (if row \<ge> retained_rows s then None
      else case checked_pred (vec_len (segments s)) of
        None \<Rightarrow> None
      | Some last_index \<Rightarrow>
          if uniform s
          then (case vec_get (segments s) 0 of
                  None \<Rightarrow> None
                | Some g \<Rightarrow> let first = segment_rows g in
                    if row < first then Some 0
                    else (case vec_get (segments s) 1 of
                            None \<Rightarrow> None
                          | Some g1 \<Rightarrow> Some (min (1 + (row - first) div segment_rows g1) last_index)))
          else checked_pred (partition_point (\<lambda>start. start \<le> row) (items (starts s))))"

definition segment_for_row :: "result_store \<Rightarrow> nat \<Rightarrow> (result_segment \<times> nat) option" where
  "segment_for_row s row =
     (if row \<ge> row_count s then None
      else case segment_index s row of None \<Rightarrow> None
      | Some i \<Rightarrow> (case (vec_get (segments s) i, vec_get (starts s) i) of
            (Some g, Some first) \<Rightarrow> Some (g, first) | _ \<Rightarrow> None))"

definition serve_cell :: "lob_unavailable option \<Rightarrow> cell_value \<Rightarrow> cell_value" where
  "serve_cell unavailable c =
     (case (c, unavailable) of (CLob _, Some reason) \<Rightarrow> CLobUnavailable reason | _ \<Rightarrow> c)"

definition store_value :: "result_store \<Rightarrow> nat \<Rightarrow> nat \<Rightarrow> cell_value option" where
  "store_value s row col =
     (case segment_for_row s row of None \<Rightarrow> None
      | Some (g, first) \<Rightarrow> map_option (serve_cell (lobs s)) (segment_value g (row - first) col))"

definition is_lob_storage :: "storage \<Rightarrow> bool" where
  "is_lob_storage st \<longleftrightarrow> segment_kind st = KLob"

definition store_lob :: "result_store \<Rightarrow> nat \<Rightarrow> nat \<Rightarrow> lob_cell option" where
  "store_lob s row col =
     (case segment_for_row s row of None \<Rightarrow> None
      | Some (g, first) \<Rightarrow>
          (case nth_opt (segment_columns g) col of None \<Rightarrow> None
           | Some c \<Rightarrow>
               if \<not> is_lob_storage (storage c) \<or> is_null (column_nulls c) (row - first) then None
               else (case (segment_value g (row - first) col, lobs s) of
                       (Some (CLob _), Some reason) \<Rightarrow> Some (Unavailable reason)
                     | (Some (CLob h), None) \<Rightarrow> Some (Readable h)
                     | _ \<Rightarrow> None)))"

section \<open>Sizing requests\<close>

definition row_width :: "result_store \<Rightarrow> nat" where
  "row_width s =
     (if retained_rows s = 0 then declared_width s
      else clamp (segment_bytes s div retained_rows s) 1 (declared_width s))"

definition rows_per_round_trip :: "result_store \<Rightarrow> nat" where
  "rows_per_round_trip s = clamp (round_trip_bytes (policy s) div row_width s) 1 (fetch_rows (policy s))"

definition next_request_rows :: "result_store \<Rightarrow> nat option" where
  "next_request_rows s =
     (let per_trip = rows_per_round_trip s;
          pending = retained_rows s + in_flight_rows s;
          first = \<not> first_submitted s;
          target = (if fetching_all s then usize_max else sat_add (demand s) per_trip)
      in if \<not> first \<and> pending \<ge> target then None
         else let row_room = sat_sub (sat_add (row_limit s) 1) pending;
                  byte_room = (case cap_limit (sourced_value (max_bytes (caps s))) of
                                 None \<Rightarrow> usize_max
                               | Some cap \<Rightarrow> sat_sub cap (sat_add (retained_bytes s) (in_flight_bytes s)) div row_width s);
                  rows = min (min per_trip row_room) byte_room
              in if rows \<noteq> 0 then Some rows else if first then Some 1 else None)"

section \<open>Settling\<close>

definition settled_phase :: "result_store \<Rightarrow> phase option" where
  "settled_phase s =
     (if retained_rows s > row_limit s
      then Some (AtLimit
             (case cap_limit (sourced_value (max_rows (caps s))) of
                None \<Rightarrow> LimitRowCeiling
              | Some rows \<Rightarrow> if rows > GRID_ROW_CEILING then LimitRowCeiling else LimitRows) MoreYes)
      else if exhausted s then Some Complete
      else case cap_limit (sourced_value (max_bytes (caps s))) of
             None \<Rightarrow> None
           | Some cap \<Rightarrow> if sat_add (retained_bytes s) (row_width s) > cap
                        then Some (AtLimit LimitBytes MoreUnknown) else None)"

fun is_at_limit :: "phase \<Rightarrow> bool" where
  "is_at_limit (AtLimit _ _) = True"
| "is_at_limit _ = False"

definition settle :: "result_store \<Rightarrow> result_store" where
  "settle s =
     (if phase s \<noteq> Active \<or> in_flight s \<noteq> [] then s
      else case settled_phase s of
             None \<Rightarrow> s
           | Some p \<Rightarrow>
               let s' = s\<lparr>phase := p\<rparr> in
               if is_at_limit p \<and> sourced_value (close_cursor_at_limit (caps s')) \<and> \<not> cursor_closed s'
               then s'\<lparr>close_due := True\<rparr> else s')"

section \<open>Inputs\<close>

definition set_demand :: "nat \<Rightarrow> result_store \<Rightarrow> result_store" where
  "set_demand n s = s\<lparr>demand := n\<rparr>"

definition fetch_all :: "result_store \<Rightarrow> result_store" where
  "fetch_all s = s\<lparr>fetching_all := True, stopped := False\<rparr>"

definition stop :: "result_store \<Rightarrow> result_store" where
  "stop s = s\<lparr>stopped := True, fetching_all := False\<rparr>"

definition resume :: "result_store \<Rightarrow> result_store" where
  "resume s = s\<lparr>stopped := False\<rparr>"

fun can_raise :: "phase \<Rightarrow> bool" where
  "can_raise (AtLimit LimitRows _) = True"
| "can_raise (AtLimit LimitBytes _) = True"
| "can_raise _ = False"

definition fetch_more :: "fetch_more_kind \<Rightarrow> result_store \<Rightarrow> bool \<times> result_store" where
  "fetch_more how s =
     (if \<not> can_raise (phase s) \<or> cursor_closed s \<or> close_due s then (False, s)
      else (True, settle (s\<lparr>caps := (case how of Step \<Rightarrow> caps_raised_by (caps s) (policy_caps (policy s))
                                       | NoLimit \<Rightarrow> caps_lifted (caps s)),
                          phase := Active, stopped := False\<rparr>)))"

text \<open>\<^verbatim>\<open>Some(self.lobs.unwrap_or(reason))\<close>: the first reason stays.\<close>

definition lose_lobs :: "lob_unavailable \<Rightarrow> lob_unavailable option \<Rightarrow> lob_unavailable option" where
  "lose_lobs reason l = Some (case l of None \<Rightarrow> reason | Some r \<Rightarrow> r)"

definition discard :: "result_store \<Rightarrow> result_store" where
  "discard s = s\<lparr>phase := Ended EndDiscarded, close_due := False, cursor_closed := True,
     lobs := lose_lobs LobResultClosed (lobs s)\<rparr>"

definition end_transaction :: "result_store \<Rightarrow> result_store" where
  "end_transaction s =
     (let cursor_was_open = (\<not> cursor_closed s \<and> \<not> close_due s);
          s' = s\<lparr>lobs := lose_lobs LobTransactionEnded (lobs s), cursor_closed := True, close_due := False\<rparr>
      in case phase s of
           Active \<Rightarrow> s'\<lparr>phase := Ended EndTransactionEnded\<rparr>
         | AtLimit _ _ \<Rightarrow> if cursor_was_open then s'\<lparr>phase := Ended EndTransactionEnded\<rparr> else s'
         | _ \<Rightarrow> s')"

definition transaction_end_submitted :: "result_store \<Rightarrow> result_store" where
  "transaction_end_submitted s = s\<lparr>transaction_ends_pending := transaction_ends_pending s + 1\<rparr>"

definition transaction_end_answered :: "bool \<Rightarrow> result_store \<Rightarrow> result_store" where
  "transaction_end_answered succeeded s =
     (let s' = s\<lparr>transaction_ends_pending := sat_sub (transaction_ends_pending s) 1\<rparr>
      in if succeeded then end_transaction s' else s')"

definition statement_executed :: "execute_outcome \<Rightarrow> result_store \<Rightarrow> result_store" where
  "statement_executed out s =
     (if committed_implicitly out \<or> statement_kind out = TransactionControl then end_transaction s else s)"

definition session_ended :: "result_store \<Rightarrow> result_store" where
  "session_ended s =
     (let s' = s\<lparr>lobs := lose_lobs LobSessionEnded (lobs s), cursor_closed := True, close_due := False\<rparr>
      in if phase s' = Active \<or> is_at_limit (phase s') then s'\<lparr>phase := Ended EndSessionEnded\<rparr> else s')"

section \<open>Fetching\<close>

definition due :: "result_store \<Rightarrow> store_action option" where
  "due s =
     (if close_due s then Some (CloseResult (store_result s))
      else if phase s \<noteq> Active \<or> stopped s \<or> exhausted s \<or> transaction_ends_pending s > 0 \<or>
              length (in_flight s) \<ge> fetches_in_flight (policy s) \<or>
              (retained_rows s = 0 \<and> in_flight s \<noteq> [])
      then None
      else case next_request_rows s of
             None \<Rightarrow> None
           | Some rows \<Rightarrow>
               Some (Fetch \<lparr>ticket = \<lparr>ticket_result = store_result s, sequence = next_sequence s\<rparr>,
                            request_rows = rows\<rparr>))"

fun record_action :: "store_action \<Rightarrow> result_store \<Rightarrow> result_store" where
  "record_action (Fetch f) s =
     (let rows = request_rows f; bytes = sat_mul rows (row_width s)
      in s\<lparr>in_flight := in_flight s @ [\<lparr>flight_sequence = sequence (ticket f), flight_rows = rows, flight_bytes = bytes\<rparr>],
           in_flight_rows := in_flight_rows s + rows,
           in_flight_bytes := sat_add (in_flight_bytes s) bytes,
           next_sequence := next_sequence s + 1,
           first_submitted := True\<rparr>)"
| "record_action (CloseResult _) s =
     s\<lparr>close_due := False, cursor_closed := True, lobs := lose_lobs LobResultClosed (lobs s)\<rparr>"

text \<open>
  \<^verbatim>\<open>pump\<close>: the caller's \<^verbatim>\<open>submit\<close> passes its own state along.  The loop ends because
  every action closes the cursor or takes one of the places in flight.
\<close>

lemma due_record_progress:
  assumes "due s = Some a"
  shows "(if close_due (record_action a s) then 1 else 0) +
      (fetches_in_flight (policy (record_action a s)) - length (in_flight (record_action a s))) <
    (if close_due s then 1 else 0) + (fetches_in_flight (policy s) - length (in_flight s))"
  using assms by (auto simp: due_def Let_def split: if_splits option.splits)

function pump_from ::
  "(store_action \<Rightarrow> 'e \<Rightarrow> (db_error + unit) \<times> 'e) \<Rightarrow> nat \<Rightarrow> result_store \<Rightarrow> 'e \<Rightarrow>
   (db_error + nat) \<times> result_store \<times> 'e" where
  "pump_from submit submitted s e =
     (case due s of
        None \<Rightarrow> (Inr submitted, s, e)
      | Some a \<Rightarrow>
          (case submit a e of
             (Inl err, e') \<Rightarrow> (Inl err, s, e')
           | (Inr _, e') \<Rightarrow> pump_from submit (submitted + 1) (record_action a s) e'))"
  by pat_completeness auto
termination
  by (relation "measure (\<lambda>(submit, n, s, e). (if close_due s then 1 else 0) +
        (fetches_in_flight (policy s) - length (in_flight s)))")
     (use due_record_progress in \<open>auto\<close>)

declare pump_from.simps [simp del]

definition pump ::
  "(store_action \<Rightarrow> 'e \<Rightarrow> (db_error + unit) \<times> 'e) \<Rightarrow> result_store \<Rightarrow> 'e \<Rightarrow>
   (db_error + nat) \<times> result_store \<times> 'e" where
  "pump submit s e = pump_from submit 0 s e"

section \<open>Replies\<close>

definition forget :: "in_flight_fetch \<Rightarrow> result_store \<Rightarrow> result_store" where
  "forget entry s = s\<lparr>in_flight_rows := in_flight_rows s - flight_rows entry,
     in_flight_bytes := sat_sub (in_flight_bytes s) (flight_bytes entry)\<rparr>"

definition append_segment :: "result_segment \<Rightarrow> result_store \<Rightarrow> result_store" where
  "append_segment g s =
     (let gs = items (segments s);
          uni = (if length gs \<ge> 3 \<and> segment_rows (gs ! 1) \<noteq> segment_rows (last gs) then False else uniform s)
      in s\<lparr>uniform := uni,
           starts := vec_push SIZE_USIZE (retained_rows s) (starts s),
           retained_rows := retained_rows s + segment_rows g,
           segment_bytes := segment_bytes s + accounted_bytes g,
           segments := vec_push SIZE_USIZE g (segments s)\<rparr>)"

text \<open>Removing the entry of a reply that is not the next one.\<close>

definition forget_sequence :: "nat \<Rightarrow> result_store \<Rightarrow> result_store" where
  "forget_sequence n s =
     (case first_index (\<lambda>e. flight_sequence e = n) (in_flight s) of
        None \<Rightarrow> s
      | Some i \<Rightarrow> forget (in_flight s ! i) (s\<lparr>in_flight := take i (in_flight s) @ drop (Suc i) (in_flight s)\<rparr>))"

definition out_of_sequence_error :: "result_id \<Rightarrow> nat \<Rightarrow> db_error" where
  "out_of_sequence_error r n = error_internal (us ''reldex-db-core: '' @ result_id_display r @
     us '' received fetch #'' @ nat_text n @
     us '' out of sequence; the rows were not appended, and the result is incomplete'')"

definition column_count_error :: "result_id \<Rightarrow> nat \<Rightarrow> nat \<Rightarrow> db_error" where
  "column_count_error r got expected = error_internal (us ''reldex-db-core: a segment of '' @
     result_id_display r @ us '' has '' @ nat_text got @ us '' columns where the result has '' @ nat_text expected)"

text \<open>The reply the store was waiting for, once its entry is forgotten.\<close>

definition take_reply :: "(db_error + segment_reply) \<Rightarrow> result_store \<Rightarrow> fetched \<times> result_store" where
  "take_reply reply s =
     (if phase s \<noteq> Active then (Stale, s)
      else case reply of
        Inl e \<Rightarrow>
          let reason = (if error_session_state e = Lost then LobSessionEnded else LobResultClosed)
          in (FetchFailed, s\<lparr>lobs := lose_lobs reason (lobs s), cursor_closed := True,
                             phase := Failed (row_count s) e\<rparr>)
      | Inr r \<Rightarrow>
          let g = segment r; rows = segment_rows g
          in if rows > 0 \<and> length (segment_columns g) \<noteq> length (store_columns s)
             then (FetchFailed, s\<lparr>phase := Failed (row_count s)
                    (column_count_error (store_result s) (length (segment_columns g)) (length (store_columns s)))\<rparr>)
             else let s1 = (if reply_exhausted r then s\<lparr>exhausted := True\<rparr> else s);
                      s2 = (if rows > 0 then append_segment g s1 else s1)
                  in (Appended rows, settle s2))"

definition on_fetched ::
  "bool \<Rightarrow> fetch_ticket \<Rightarrow> (db_error + segment_reply) \<Rightarrow> result_store \<Rightarrow> (fetched \<times> result_store) option" where
  "on_fetched debug_assertions fetch reply s =
     (if ticket_result fetch \<noteq> store_result s then Some (NotThisResult, s)
      else case in_flight s of
        entry # rest \<Rightarrow>
          if flight_sequence entry = sequence fetch
          then Some (take_reply reply (forget entry (s\<lparr>in_flight := rest\<rparr>)))
          else if debug_assertions then None
          else let s1 = forget_sequence (sequence fetch) s
               in Some (OutOfSequence, if phase s1 = Active \<or> is_at_limit (phase s1)
                    then s1\<lparr>phase := Failed (row_count s1) (out_of_sequence_error (store_result s1) (sequence fetch))\<rparr>
                    else s1)
      | [] \<Rightarrow>
          if debug_assertions then None
          else Some (OutOfSequence, if phase s = Active \<or> is_at_limit (phase s)
                 then s\<lparr>phase := Failed (row_count s) (out_of_sequence_error (store_result s) (sequence fetch))\<rparr>
                 else s))"

end
