(* ===== verification/Session_Event.thy ===== *)
theory Session_Event
  imports Result_Store
begin

text \<open>
  The events of \<^verbatim>\<open>crates/db-core/src/events.rs\<close>.  The fields no modelled operation reads
  (connection ids, warnings, batches, settings, deadlines, life cycles) are one opaque value of
  type \<open>'p\<close> per event; the fields that are read are kept.
\<close>

type_synonym request_id = nat

datatype completed_operation =
  Commit | Rollback | Savepoint | RollbackToSavepoint | Ping | ClosedResult result_id | ClosedLob lob_handle

datatype 'p session_event =
  Opened session_id request_id 'p
| OpenFailed session_id request_id db_error
| Executed session_id request_id "db_error + execute_outcome"
| Fetched session_id request_id result_id 'p
| FetchedSegment session_id request_id fetch_ticket "db_error + segment_reply"
| LobChunk session_id request_id lob_handle "db_error + byte list"
| Completed session_id request_id completed_operation "db_error + unit"
| SessionClosed session_id request_id 'p
| ServerOutputConfigured session_id request_id 'p
| Executing session_id request_id 'p
| ServerOutput session_id "ustr list" nat "db_error option" nat
    \<comment> \<open>lines, dropped (\<^verbatim>\<open>u32\<close>), failure, invalid UTF-8 lines (\<^verbatim>\<open>u32\<close>)\<close>
| TransactionStateChanged session_id bool
| Terminal session_id 'p

fun event_session :: "'p session_event \<Rightarrow> session_id" where
  "event_session (Opened s _ _) = s"
| "event_session (OpenFailed s _ _) = s"
| "event_session (Executed s _ _) = s"
| "event_session (Fetched s _ _ _) = s"
| "event_session (FetchedSegment s _ _ _) = s"
| "event_session (LobChunk s _ _ _) = s"
| "event_session (Completed s _ _ _) = s"
| "event_session (SessionClosed s _ _) = s"
| "event_session (ServerOutputConfigured s _ _) = s"
| "event_session (Executing s _ _) = s"
| "event_session (ServerOutput s _ _ _ _) = s"
| "event_session (TransactionStateChanged s _) = s"
| "event_session (Terminal s _) = s"

fun event_request :: "'p session_event \<Rightarrow> request_id option" where
  "event_request (Opened _ r _) = Some r"
| "event_request (OpenFailed _ r _) = Some r"
| "event_request (Executed _ r _) = Some r"
| "event_request (Fetched _ r _ _) = Some r"
| "event_request (FetchedSegment _ r _ _) = Some r"
| "event_request (LobChunk _ r _ _) = Some r"
| "event_request (Completed _ r _ _) = Some r"
| "event_request (SessionClosed _ r _) = Some r"
| "event_request (ServerOutputConfigured _ r _) = Some r"
| "event_request (Executing _ r _) = Some r"
| "event_request (ServerOutput _ _ _ _ _) = None"
| "event_request (TransactionStateChanged _ _) = None"
| "event_request (Terminal _ _) = None"

fun is_reply :: "'p session_event \<Rightarrow> bool" where
  "is_reply (Executing _ _ _) = False"
| "is_reply (ServerOutput _ _ _ _ _) = False"
| "is_reply (TransactionStateChanged _ _) = False"
| "is_reply (Terminal _ _) = False"
| "is_reply _ = True"

fun is_terminal :: "'p session_event \<Rightarrow> bool" where
  "is_terminal (Terminal _ _) = True"
| "is_terminal _ = False"

fun is_unsolicited :: "'p session_event \<Rightarrow> bool" where
  "is_unsolicited (ServerOutput _ _ _ _ _) = True"
| "is_unsolicited (TransactionStateChanged _ _) = True"
| "is_unsolicited _ = False"

lemma reply_has_request: "is_reply e \<Longrightarrow> \<exists>r. event_request e = Some r"
  by (cases e) auto

lemma reply_not_unsolicited: "is_reply e \<Longrightarrow> \<not> is_unsolicited e"
  by (cases e) auto

end
