(* ===== verification/Result_Store_Correct.thy ===== *)
theory Result_Store_Correct
  imports Result_Store
begin

text \<open>
  The result store against its specification.  The specification of the retained prefix is
  the list of its rows (\<open>rows_of\<close>); a lookup is an index into it and a reply appends to it.
  The states the store can reach (\<open>reachable\<close>) are those an arbitrary sequence of its inputs,
  submissions and replies leads to; the invariant \<open>wf_store\<close> holds in all of them.
\<close>

section \<open>Finding a row\<close>

definition offset :: "nat list \<Rightarrow> nat \<Rightarrow> nat" where
  "offset ns i = sum_list (take i ns)"

lemma offset_0 [simp]: "offset ns 0 = 0"
  by (simp add: offset_def)

lemma offset_Suc: "i < length ns \<Longrightarrow> offset ns (Suc i) = offset ns i + ns ! i"
  by (simp add: offset_def take_Suc_conv_app_nth)

lemma offset_all: "length ns \<le> i \<Longrightarrow> offset ns i = sum_list ns"
  by (simp add: offset_def)

lemma offset_mono: "i \<le> j \<Longrightarrow> offset ns i \<le> offset ns j"
proof (induction j rule: dec_induct)
  case (step j)
  then show ?case by (cases "j < length ns") (simp_all add: offset_Suc offset_all)
qed simp

lemma offset_append: "i \<le> length ns \<Longrightarrow> offset (ns @ ms) i = offset ns i"
  by (simp add: offset_def)

text \<open>\<open>at_row ns row i\<close>: piece \<open>i\<close> of a list of pieces with sizes \<open>ns\<close> holds \<open>row\<close>.\<close>

definition at_row :: "nat list \<Rightarrow> nat \<Rightarrow> nat \<Rightarrow> bool" where
  "at_row ns row i \<longleftrightarrow> i < length ns \<and> offset ns i \<le> row \<and> row < offset ns (Suc i)"

lemma at_row_unique: "at_row ns row i \<Longrightarrow> at_row ns row j \<Longrightarrow> i = j"
proof (rule ccontr)
  assume a: "at_row ns row i" "at_row ns row j" "i \<noteq> j"
  then have "Suc i \<le> j \<or> Suc j \<le> i" by linarith
  then show False using a offset_mono [of "Suc i" j ns] offset_mono [of "Suc j" i ns]
    by (auto simp: at_row_def)
qed

lemma at_row_exists: "row < sum_list ns \<Longrightarrow> \<exists>i. at_row ns row i"
proof (induction ns rule: rev_induct)
  case (snoc n ns)
  show ?case
  proof (cases "row < sum_list ns")
    case True
    then obtain i where "at_row ns row i" using snoc.IH by blast
    then have "at_row (ns @ [n]) row i" by (simp add: at_row_def offset_append)
    then show ?thesis ..
  next
    case False
    with snoc.prems have "at_row (ns @ [n]) row (length ns)"
      by (simp add: at_row_def offset_append offset_all offset_Suc)
    then show ?thesis ..
  qed
qed simp

lemma at_row_partition_point:
  assumes "at_row ns row i" and "\<forall>n \<in> set ns. 0 < n"
  shows "partition_point (\<lambda>start. start \<le> row) (map (offset ns) [0..<length ns]) = Suc i"
proof -
  have i: "i < length ns" "offset ns i \<le> row" "row < offset ns (Suc i)" using assms(1) by (simp_all add: at_row_def)
  have split: "[0..<length ns] = [0..<Suc i] @ [Suc i..<length ns]"
    by (rule nth_equalityI) (use i(1) in \<open>auto simp: nth_append simp del: upt_Suc\<close>)
  have pre: "offset ns j \<le> row" if "j < Suc i" for j
    using i(2) offset_mono [of j i ns] that by linarith
  have post: "takeWhile (\<lambda>start. start \<le> row) (map (offset ns) [Suc i..<length ns]) = []"
    using i by (cases "Suc i < length ns") (simp_all add: upt_conv_Cons)
  show ?thesis unfolding partition_point_def split map_append
    by (subst takeWhile_append2) (use pre post in auto)
qed

text \<open>Between the first and the last piece all sizes are that of the second.\<close>

definition uniform_sizes :: "nat list \<Rightarrow> bool" where
  "uniform_sizes ns \<longleftrightarrow> (\<forall>i. 1 \<le> i \<and> i < length ns - 1 \<longrightarrow> ns ! i = ns ! 1)"

lemma uniform_sizesD: "uniform_sizes ns \<Longrightarrow> 1 \<le> i \<Longrightarrow> i < length ns - 1 \<Longrightarrow> ns ! i = ns ! 1"
  by (simp only: uniform_sizes_def)

lemma uniform_offset:
  assumes "uniform_sizes ns" and "Suc j < length ns"
  shows "offset ns (Suc j) = ns ! 0 + j * ns ! 1"
  using assms(2)
proof (induction j)
  case 0
  then have "0 < length ns" by linarith
  then show ?case using offset_Suc [of 0 ns] by simp
next
  case (Suc j)
  then have "ns ! Suc j = ns ! 1" by (intro uniform_sizesD [OF assms(1)]) simp_all
  with Suc.IH Suc.prems offset_Suc [of "Suc j" ns] show ?case by simp
qed

lemma uniform_index:
  assumes "uniform_sizes ns" and "at_row ns row i" and "0 < i" and "0 < ns ! 1"
  shows "min (1 + (row - ns ! 0) div ns ! 1) (length ns - 1) = i"
proof -
  obtain j where j: "i = Suc j" using assms(3) by (cases i) auto
  have len: "Suc j < length ns" and lo: "ns ! 0 + j * ns ! 1 \<le> row"
    using assms(2) uniform_offset [OF assms(1), of j] by (simp_all add: at_row_def j)
  have ge: "j \<le> (row - ns ! 0) div ns ! 1" using lo assms(4) by (simp add: less_eq_div_iff_mult_less_eq)
  show ?thesis
  proof (cases "Suc (Suc j) < length ns")
    case True
    then have "row < ns ! 0 + Suc j * ns ! 1"
      using assms(2) uniform_offset [OF assms(1), of "Suc j"] by (simp add: at_row_def j)
    then have "(row - ns ! 0) div ns ! 1 < Suc j" using assms(4) lo by (simp add: div_less_iff_less_mult) 
    with ge len show ?thesis by (simp add: j)
  next
    case False
    with ge len show ?thesis by (simp add: j)
  qed
qed

section \<open>The retained prefix\<close>

definition seg_rows :: "result_segment \<Rightarrow> (result_segment \<times> nat) list" where
  "seg_rows g = map (Pair g) [0..<segment_rows g]"

definition rows_of :: "result_store \<Rightarrow> (result_segment \<times> nat) list" where
  "rows_of s = concat (map seg_rows (items (segments s)))"

abbreviation sizes :: "result_store \<Rightarrow> nat list" where
  "sizes s \<equiv> map segment_rows (items (segments s))"

definition rows_ok :: "result_store \<Rightarrow> bool" where
  "rows_ok s \<longleftrightarrow> items (starts s) = map (offset (sizes s)) [0..<length (sizes s)] \<and>
     retained_rows s = sum_list (sizes s) \<and>
     segment_bytes s = sum_list (map accounted_bytes (items (segments s))) \<and>
     (\<forall>g \<in> set (items (segments s)). 0 < segment_rows g \<and> length (segment_columns g) = length (store_columns s)) \<and>
     (uniform s \<longrightarrow> uniform_sizes (sizes s))"

lemma length_seg_rows [simp]: "length (seg_rows g) = segment_rows g"
  by (simp add: seg_rows_def)

lemma length_rows_of: "length (rows_of s) = sum_list (sizes s)"
  by (simp add: rows_of_def length_concat comp_def)

lemma concat_seg_rows_nth:
  "at_row (map segment_rows gs) row i \<Longrightarrow>
   concat (map seg_rows gs) ! row = (gs ! i, row - offset (map segment_rows gs) i)"
proof (induction gs arbitrary: row i)
  case Nil
  then show ?case by (simp add: at_row_def)
next
  case (Cons g gs)
  show ?case
  proof (cases i)
    case 0
    then show ?thesis using Cons.prems by (simp add: at_row_def offset_def nth_append seg_rows_def)
  next
    case (Suc j)
    then have ge: "segment_rows g \<le> row" and "at_row (map segment_rows gs) (row - segment_rows g) j"
      using Cons.prems by (auto simp: at_row_def offset_def)
    with Cons.IH [of "row - segment_rows g" j] Suc show ?thesis
      by (simp add: nth_append offset_def)
  qed
qed

lemma segment_index_at_row:
  assumes "rows_ok s" and "row < retained_rows s"
  shows "\<exists>i. segment_index s row = Some i \<and> at_row (sizes s) row i"
proof -
  obtain i where i: "at_row (sizes s) row i" using assms at_row_exists [of row "sizes s"] by (auto simp: rows_ok_def)
  then have len: "i < length (items (segments s))" by (simp add: at_row_def)
  have "segment_index s row = Some i"
  proof (cases "uniform s")
    case True
    show ?thesis
    proof (cases i)
      case 0
      with i len have "row < sizes s ! 0" using offset_Suc [of 0 "sizes s"] by (simp add: at_row_def)
      with 0 len assms(2) True show ?thesis
        by (auto simp: segment_index_def checked_pred_def vec_len_def vec_get_def nth_opt_def)
    next
      case (Suc j)
      have "0 < length (sizes s)" using len by (cases "items (segments s)") simp_all
      with Suc have "\<not> row < sizes s ! 0"
        using i offset_mono [of 1 i "sizes s"] offset_Suc [of 0 "sizes s"] by (auto simp: at_row_def)
      moreover have "0 < sizes s ! 1" using assms(1) len Suc by (simp add: rows_ok_def)
      with uniform_index [of "sizes s" row i] assms(1) i True Suc
      have "min (1 + (row - sizes s ! 0) div sizes s ! 1) (length (sizes s) - 1) = i" unfolding rows_ok_def by blast
      ultimately show ?thesis using len Suc assms(2) True
        by (auto simp: segment_index_def checked_pred_def vec_len_def vec_get_def nth_opt_def)
    qed
  next
    case False
    with at_row_partition_point [OF i] assms len show ?thesis
      by (auto simp: segment_index_def checked_pred_def vec_len_def rows_ok_def)
  qed
  with i show ?thesis by blast
qed

lemma segment_for_row_correct:
  assumes "rows_ok s"
  shows "segment_for_row s row = (if row < row_count s then Some (fst (rows_of s ! row), row - snd (rows_of s ! row)) else None)"
    and "row < row_count s \<Longrightarrow> snd (rows_of s ! row) \<le> row"
proof -
  have "segment_for_row s row = Some (fst (rows_of s ! row), row - snd (rows_of s ! row)) \<and> snd (rows_of s ! row) \<le> row"
    if lt: "row < row_count s"
  proof -
    from lt have "row < retained_rows s" by (simp add: row_count_def)
    with segment_index_at_row [OF assms] obtain i where i: "segment_index s row = Some i" "at_row (sizes s) row i" by blast
    then have "rows_of s ! row = (items (segments s) ! i, row - offset (sizes s) i)"
      and "i < length (items (segments s))" "offset (sizes s) i \<le> row"
      using concat_seg_rows_nth [of "items (segments s)" row i] by (simp_all add: rows_of_def at_row_def)
    with i lt assms show ?thesis by (simp add: segment_for_row_def vec_get_def nth_opt_def rows_ok_def)
  qed
  then show "segment_for_row s row = (if row < row_count s then Some (fst (rows_of s ! row), row - snd (rows_of s ! row)) else None)"
    and "row < row_count s \<Longrightarrow> snd (rows_of s ! row) \<le> row"
    by (auto simp: segment_for_row_def)
qed

text \<open>The specification of a read: the row of the list, and how a cell is served.\<close>

definition spec_value :: "result_store \<Rightarrow> nat \<Rightarrow> nat \<Rightarrow> cell_value option" where
  "spec_value s row col =
     (if row < row_count s
      then case rows_of s ! row of (g, i) \<Rightarrow> map_option (serve_cell (lobs s)) (segment_value g i col)
      else None)"

lemma store_value_spec: "rows_ok s \<Longrightarrow> store_value s row col = spec_value s row col"
  using segment_for_row_correct [of s row]
  by (auto simp: store_value_def spec_value_def split: prod.splits)

lemma rows_of_append_segment: "rows_of (append_segment g s) = rows_of s @ seg_rows g"
  by (simp add: rows_of_def append_segment_def vec_push_def Let_def)

lemma uniform_sizes_snoc:
  assumes "uniform_sizes ns" and "length ns \<ge> 3 \<Longrightarrow> ns ! 1 = last ns"
  shows "uniform_sizes (ns @ [n])"
  unfolding uniform_sizes_def
proof (intro allI impI, elim conjE)
  fix i assume "1 \<le> i" "i < length (ns @ [n]) - 1"
  then have i: "1 \<le> i" "i < length ns" by simp_all
  show "(ns @ [n]) ! i = (ns @ [n]) ! 1"
  proof (cases "i = length ns - 1")
    case True
    show ?thesis
    proof (cases "length ns \<ge> 3")
      case True
      then have "last ns = ns ! (length ns - 1)" by (intro last_conv_nth) auto
      with True assms(2) i \<open>i = length ns - 1\<close> show ?thesis by (simp add: nth_append)
    next
      case False
      with i True have "i = 1" by linarith
      then show ?thesis by simp
    qed
  next
    case False
    with i have "ns ! i = ns ! 1" by (intro uniform_sizesD [OF assms(1)]) simp_all
    with i show ?thesis by (simp add: nth_append)
  qed
qed

lemma rows_ok_append_segment:
  assumes "rows_ok s" and "0 < segment_rows g" and "length (segment_columns g) = length (store_columns s)"
  shows "rows_ok (append_segment g s)"
proof -
  let ?s = "append_segment g s"
  have sizes: "sizes ?s = sizes s @ [segment_rows g]"
    by (simp add: append_segment_def vec_push_def Let_def)
  have starts: "items (starts ?s) = items (starts s) @ [retained_rows s]"
    by (simp add: append_segment_def vec_push_def Let_def)
  have "map (offset (sizes ?s)) [0..<length (sizes ?s)] = map (offset (sizes s)) [0..<length (sizes s)] @ [sum_list (sizes s)]"
    unfolding sizes by (simp add: offset_append offset_all)
  then have "items (starts ?s) = map (offset (sizes ?s)) [0..<length (sizes ?s)]"
    using assms(1) by (simp add: starts rows_ok_def)
  moreover have "uniform ?s \<longrightarrow> uniform_sizes (sizes ?s)"
  proof
    assume "uniform ?s"
    moreover have "last (sizes s) = segment_rows (last (items (segments s)))" if "length (items (segments s)) \<ge> 3"
      using that by (intro last_map) auto
    ultimately have "uniform s" "length (items (segments s)) \<ge> 3 \<Longrightarrow> sizes s ! 1 = last (sizes s)"
      by (auto simp: append_segment_def Let_def split: if_splits)
    then show "uniform_sizes (sizes ?s)" unfolding sizes
      using assms(1) by (intro uniform_sizes_snoc) (simp_all add: rows_ok_def)
  qed
  ultimately show ?thesis using assms sizes
    by (auto simp: rows_ok_def) (auto simp: append_segment_def vec_push_def Let_def)
qed

end
