(* ===== verification/Result_Store_Invariant.thy ===== *)
theory Result_Store_Invariant
  imports Result_Store_Correct
begin

text \<open>
  The invariant of the result store, one preservation lemma per operation, and the step
  relation of the store with its reachable states.
\<close>

section \<open>The invariant\<close>

definition config_ok :: "result_store \<Rightarrow> bool" where
  "config_ok s \<longleftrightarrow> wf_policy (policy s) \<and> wf_caps (caps s) \<and> declared_width s = declared_row_width (store_columns s)"

definition flight_ok :: "result_store \<Rightarrow> bool" where
  "flight_ok s \<longleftrightarrow>
     sorted_wrt (<) (map flight_sequence (in_flight s)) \<and>
     (\<forall>e \<in> set (in_flight s). flight_sequence e < next_sequence s \<and> 0 < flight_rows e) \<and>
     in_flight_rows s = sum_list (map flight_rows (in_flight s)) \<and>
     in_flight_bytes s \<le> sum_list (map flight_bytes (in_flight s)) \<and>
     length (in_flight s) \<le> fetches_in_flight (policy s) \<and>
     (in_flight s \<noteq> [] \<or> 0 < retained_rows s \<or> exhausted s \<longrightarrow> first_submitted s)"

definition within_cap :: "result_store \<Rightarrow> bool" where
  "within_cap s \<longleftrightarrow> retained_rows s + in_flight_rows s \<le> row_limit s + 1"

fun is_failed :: "phase \<Rightarrow> bool" where
  "is_failed (Failed _ _) = True"
| "is_failed _ = False"

text \<open>What the phase says of the rest of the state.\<close>

fun phase_agrees :: "phase \<Rightarrow> result_store \<Rightarrow> bool" where
  "phase_agrees Active s \<longleftrightarrow> \<not> cursor_closed s \<and> \<not> close_due s \<and>
     (in_flight s = [] \<and> first_submitted s \<longrightarrow> settled_phase s = None)"
| "phase_agrees (AtLimit l m) s \<longleftrightarrow> in_flight s = [] \<and>
     (if l = LimitBytes then retained_rows s \<le> row_limit s \<and> m = MoreUnknown
      else retained_rows s = row_limit s + 1 \<and> m = MoreYes)"
| "phase_agrees Complete s \<longleftrightarrow> in_flight s = [] \<and> exhausted s \<and> retained_rows s \<le> row_limit s \<and> \<not> close_due s"
| "phase_agrees (Failed n e) s \<longleftrightarrow> n = row_count s"
| "phase_agrees (Ended c) s \<longleftrightarrow> cursor_closed s"

definition cursor_ok :: "result_store \<Rightarrow> bool" where
  "cursor_ok s \<longleftrightarrow> (cursor_closed s \<longleftrightarrow> lobs s \<noteq> None) \<and> (close_due s \<longrightarrow> \<not> cursor_closed s)"

definition data_ok :: "result_store \<Rightarrow> bool" where
  "data_ok s \<longleftrightarrow> rows_ok s \<and> config_ok s \<and> flight_ok s \<and> within_cap s"

definition wf_store :: "result_store \<Rightarrow> bool" where
  "wf_store s \<longleftrightarrow> data_ok s \<and> cursor_ok s \<and> phase_agrees (phase s) s"

lemmas wf_store_defs = wf_store_def data_ok_def rows_ok_def config_ok_def flight_ok_def within_cap_def cursor_ok_def
lemmas store_views = row_limit_def row_count_def retained_bytes_def row_width_def settled_phase_def

lemma row_limit_bounds: "wf_caps (caps s) \<Longrightarrow> 1 \<le> row_limit s \<and> row_limit s \<le> GRID_ROW_CEILING"
  by (cases "sourced_value (max_rows (caps s))")
    (auto simp: row_limit_def wf_caps_def wf_cap_def GRID_ROW_CEILING_def)

lemma sat_row_limit: "wf_caps (caps s) \<Longrightarrow> sat_add (row_limit s) 1 = row_limit s + 1"
  using row_limit_bounds [of s] by (simp add: sat_add_def usize_max_def GRID_ROW_CEILING_def)

section \<open>Inputs keep it\<close>

text \<open>Operations that change neither the rows nor the fetches in flight, nor the caps.\<close>

definition same_data :: "result_store \<Rightarrow> result_store \<Rightarrow> bool" where
  "same_data s s' \<longleftrightarrow> store_result s' = store_result s \<and> store_columns s' = store_columns s \<and>
     policy s' = policy s \<and> caps s' = caps s \<and> declared_width s' = declared_width s \<and>
     segments s' = segments s \<and> starts s' = starts s \<and> uniform s' = uniform s \<and>
     retained_rows s' = retained_rows s \<and> segment_bytes s' = segment_bytes s \<and>
     next_sequence s' = next_sequence s \<and> in_flight s' = in_flight s \<and>
     in_flight_rows s' = in_flight_rows s \<and> in_flight_bytes s' = in_flight_bytes s \<and>
     first_submitted s' = first_submitted s \<and> exhausted s' = exhausted s"

lemma same_data_views:
  assumes "same_data s s'"
  shows "row_limit s' = row_limit s" "row_count s' = row_count s" "rows_of s' = rows_of s"
    "settled_phase s' = settled_phase s"
  using assms unfolding same_data_def store_views rows_of_def by (simp_all cong: option.case_cong)

lemma data_ok_same_data: "same_data s s' \<Longrightarrow> data_ok s' = data_ok s"
  using same_data_views(1) [of s s']
  unfolding same_data_def data_ok_def rows_ok_def config_ok_def flight_ok_def within_cap_def by simp

lemma wf_same_data:
  assumes "wf_store s" and "same_data s s'" and "cursor_ok s'" and "phase_agrees (phase s') s'"
  shows "wf_store s'"
  using assms data_ok_same_data by (simp add: wf_store_def)

lemma phase_agrees_same_data:
  assumes "same_data s s'" and "cursor_closed s' = cursor_closed s" and "close_due s' = close_due s"
  shows "phase_agrees p s' = phase_agrees p s"
  using assms same_data_views [OF assms(1)] by (cases p) (auto simp: same_data_def)

lemma wf_new: "wf_policy p \<Longrightarrow> wf_store (store_new r cols p)"
  by (simp add: wf_store_defs store_new_def vec_new_def uniform_sizes_def wf_policy_def)

lemma same_data_inputs [simp]:
  "same_data s (set_demand n s)" "same_data s (fetch_all s)" "same_data s (stop s)" "same_data s (resume s)"
  "same_data s (discard s)" "same_data s (end_transaction s)" "same_data s (transaction_end_submitted s)"
  "same_data s (transaction_end_answered b s)" "same_data s (statement_executed out s)" "same_data s (session_ended s)"
  by (auto simp: same_data_def set_demand_def fetch_all_def stop_def resume_def discard_def end_transaction_def
      transaction_end_submitted_def transaction_end_answered_def statement_executed_def session_ended_def Let_def
      split: phase.splits)

lemma wf_same_cursor:
  assumes "wf_store s" and "same_data s s'"
    and "cursor_closed s' = cursor_closed s \<and> close_due s' = close_due s \<and> lobs s' = lobs s \<and> phase s' = phase s"
  shows "wf_store s'"
proof (rule wf_same_data [OF assms(1,2)])
  show "cursor_ok s'" using assms(1,3) by (auto simp: wf_store_def cursor_ok_def)
  show "phase_agrees (phase s') s'"
    using assms(1,3) phase_agrees_same_data [OF assms(2), of "phase s"] by (simp add: wf_store_def)
qed

lemma wf_set_demand: "wf_store s \<Longrightarrow> wf_store (set_demand n s)"
  by (erule wf_same_cursor, simp) (simp add: set_demand_def)

lemma wf_fetch_all: "wf_store s \<Longrightarrow> wf_store (fetch_all s)"
  by (erule wf_same_cursor, simp) (simp add: fetch_all_def)

lemma wf_stop: "wf_store s \<Longrightarrow> wf_store (stop s)"
  by (erule wf_same_cursor, simp) (simp add: stop_def)

lemma wf_resume: "wf_store s \<Longrightarrow> wf_store (resume s)"
  by (erule wf_same_cursor, simp) (simp add: resume_def)

lemma wf_transaction_end_submitted: "wf_store s \<Longrightarrow> wf_store (transaction_end_submitted s)"
  by (erule wf_same_cursor, simp) (simp add: transaction_end_submitted_def)

lemma lose_lobs_Some [simp]: "lose_lobs r l \<noteq> None" "\<exists>x. lose_lobs r l = Some x"
  by (simp_all add: lose_lobs_def)

text \<open>Every operation that closes the cursor: a closed store in a phase that allows it.\<close>

lemma wf_closed:
  assumes "wf_store s" and "same_data s s'" and "cursor_closed s'" and "\<not> close_due s'" and "lobs s' \<noteq> None"
    and "phase s' = phase s \<and> phase s \<noteq> Active \<or> (\<exists>c. phase s' = Ended c)"
  shows "wf_store s'"
proof (rule wf_same_data [OF assms(1,2)])
  show "cursor_ok s'" using assms(3-5) by (simp add: cursor_ok_def)
  have "phase_agrees (phase s) s" using assms(1) by (simp add: wf_store_def)
  with assms(3,4,6) same_data_views [OF assms(2)] assms(2) show "phase_agrees (phase s') s'"
    by (cases "phase s") (auto simp: same_data_def)
qed

lemma wf_discard: "wf_store s \<Longrightarrow> wf_store (discard s)"
  by (erule wf_closed, simp) (simp_all add: discard_def)

lemma wf_end_transaction: "wf_store s \<Longrightarrow> wf_store (end_transaction s)"
  by (erule wf_closed, simp) (auto simp: end_transaction_def Let_def split: phase.splits)

lemma wf_session_ended: "wf_store s \<Longrightarrow> wf_store (session_ended s)"
  by (erule wf_closed, simp) (auto simp: session_ended_def Let_def)

lemma wf_statement_executed: "wf_store s \<Longrightarrow> wf_store (statement_executed out s)"
  by (simp add: statement_executed_def wf_end_transaction)

lemma wf_pending: "wf_store s \<Longrightarrow> wf_store (s\<lparr>transaction_ends_pending := n\<rparr>)"
  by (erule wf_same_cursor) (simp_all add: same_data_def)

lemma wf_transaction_end_answered: "wf_store s \<Longrightarrow> wf_store (transaction_end_answered b s)"
  by (simp add: transaction_end_answered_def Let_def wf_end_transaction wf_pending)

section \<open>Settling and raising the caps\<close>

lemma same_data_settle: "same_data s (settle s)"
  by (auto simp: settle_def same_data_def Let_def split: option.splits)

lemma settled_phase_agrees:
  assumes "settled_phase s = Some p" and "within_cap s" and "in_flight s = []"
  shows "(\<exists>l m. p = AtLimit l m \<and> (if l = LimitBytes then retained_rows s \<le> row_limit s \<and> m = MoreUnknown
      else retained_rows s = row_limit s + 1 \<and> m = MoreYes)) \<or>
    p = Complete \<and> exhausted s \<and> retained_rows s \<le> row_limit s"
proof (cases "retained_rows s > row_limit s")
  case True
  with assms(2) have "retained_rows s = row_limit s + 1" by (simp add: within_cap_def)
  moreover obtain l where "p = AtLimit l MoreYes" "l \<noteq> LimitBytes"
    using True assms(1) by (auto simp: settled_phase_def split: option.splits if_splits)
  ultimately show ?thesis by simp
next
  case False
  with assms(1) show ?thesis by (auto simp: settled_phase_def split: option.splits if_splits)
qed

lemma wf_settle:
  assumes "data_ok s" and "cursor_ok s" and "phase s = Active" and "\<not> cursor_closed s" and "\<not> close_due s"
  shows "wf_store (settle s)"
proof -
  have data: "data_ok (settle s)" using assms(1) data_ok_same_data [OF same_data_settle] by simp
  note views = same_data_views [OF same_data_settle, of s]
  show ?thesis
  proof (cases "in_flight s = []")
    case False
    then show ?thesis using assms by (simp add: settle_def wf_store_def)
  next
    case idle: True
    show ?thesis
    proof (cases "settled_phase s")
      case None
      then show ?thesis using assms idle by (simp add: settle_def wf_store_def)
    next
      case (Some p)
      from settled_phase_agrees [OF Some _ idle] assms(1)
      have "phase_agrees p (settle s)" using idle Some assms views
        by (auto simp: settle_def data_ok_def Let_def)
      then show ?thesis using data assms idle Some
        by (auto simp: wf_store_def settle_def cursor_ok_def Let_def)
    qed
  qed
qed

lemma row_limit_raised:
  "wf_caps (caps s) \<Longrightarrow> row_limit s \<le> row_limit (s\<lparr>caps := caps_raised_by (caps s) d\<rparr>)"
  using cap_le_raised [of "sourced_value (max_rows (caps s))" "sourced_value (max_rows d)"]
  by (cases "sourced_value (max_rows (caps s))"; cases "sourced_value (max_rows d)")
    (auto simp: row_limit_def caps_raised_by_def sourced_new_def wf_caps_def)

lemma row_limit_lifted: "row_limit s \<le> row_limit (s\<lparr>caps := caps_lifted (caps s)\<rparr>)"
  by (auto simp: row_limit_def caps_lifted_def sourced_new_def split: option.splits)

definition raised_caps :: "fetch_more_kind \<Rightarrow> result_store \<Rightarrow> result_caps" where
  "raised_caps how s = (case how of Step \<Rightarrow> caps_raised_by (caps s) (policy_caps (policy s)) | NoLimit \<Rightarrow> caps_lifted (caps s))"

lemma raised_caps_ok:
  assumes "config_ok s"
  shows "wf_caps (raised_caps how s) \<and> row_limit s \<le> row_limit (s\<lparr>caps := raised_caps how s\<rparr>)"
  using assms row_limit_raised [of s] row_limit_lifted [of s]
  by (cases how) (auto simp: raised_caps_def config_ok_def wf_policy_def)

lemma wf_fetch_more:
  assumes "wf_store s"
  shows "wf_store (snd (fetch_more how s))"
proof (cases "\<not> can_raise (phase s) \<or> cursor_closed s \<or> close_due s")
  case True
  then show ?thesis using assms by (simp add: fetch_more_def)
next
  case False
  let ?s = "s\<lparr>caps := raised_caps how s, phase := Active, stopped := False\<rparr>"
  have same: "row_limit ?s = row_limit (s\<lparr>caps := raised_caps how s\<rparr>)" by (simp add: row_limit_def)
  have "data_ok s" using assms by (simp add: wf_store_def)
  then have "data_ok ?s" using raised_caps_ok [of s how] same
    by (simp add: data_ok_def rows_ok_def config_ok_def flight_ok_def within_cap_def)
  moreover have "cursor_ok ?s" using assms by (auto simp: wf_store_def cursor_ok_def)
  ultimately have "wf_store (settle ?s)" using False by (intro wf_settle) simp_all
  then show ?thesis using False by (simp add: fetch_more_def raised_caps_def)
qed

section \<open>Submissions\<close>

lemma row_width_pos: "config_ok s \<Longrightarrow> 1 \<le> row_width s"
  using declared_row_width_ge_1 [of "store_columns s"] by (simp add: row_width_def config_ok_def clamp_def)

lemma per_trip_bounds: "config_ok s \<Longrightarrow> 1 \<le> rows_per_round_trip s \<and> rows_per_round_trip s \<le> fetch_rows (policy s)"
  using clamp_bounds [of 1 "fetch_rows (policy s)"] by (simp add: rows_per_round_trip_def config_ok_def wf_policy_def)

lemma next_request_bounds:
  assumes "data_ok s" and "next_request_rows s = Some rows"
  shows "1 \<le> rows \<and> rows \<le> fetch_rows (policy s) \<and> retained_rows s + in_flight_rows s + rows \<le> row_limit s + 1"
proof -
  have c: "config_ok s" "wf_caps (caps s)" using assms(1) by (auto simp: data_ok_def config_ok_def)
  have "retained_rows s + in_flight_rows s \<le> row_limit s + 1" using assms(1) by (simp add: data_ok_def within_cap_def)
  moreover have "retained_rows s + in_flight_rows s = 0" if "\<not> first_submitted s"
    using assms(1) that by (auto simp: data_ok_def flight_ok_def)
  ultimately show ?thesis
    using assms(2) per_trip_bounds [OF c(1)] sat_row_limit [OF c(2)] row_limit_bounds [OF c(2)]
    by (auto simp: next_request_rows_def Let_def sat_sub_def split: if_splits)
qed

lemma due_Fetch:
  assumes "due s = Some (Fetch f)"
  shows "phase s = Active" "\<not> close_due s" "\<not> stopped s" "\<not> exhausted s" "transaction_ends_pending s = 0"
    "length (in_flight s) < fetches_in_flight (policy s)" "retained_rows s = 0 \<Longrightarrow> in_flight s = []"
    "next_request_rows s = Some (request_rows f)"
    "ticket f = \<lparr>ticket_result = store_result s, sequence = next_sequence s\<rparr>"
  using assms by (auto simp: due_def split: if_splits option.splits)

lemma due_Close: "due s = Some (CloseResult r) \<Longrightarrow> close_due s \<and> r = store_result s"
  by (auto simp: due_def split: if_splits option.splits)

lemma wf_record_action:
  assumes "wf_store s" and "due s = Some a"
  shows "wf_store (record_action a s)"
proof (cases a)
  case (Fetch f)
  note d = due_Fetch [OF assms(2) [unfolded Fetch]]
  have wf: "data_ok s" "cursor_ok s" "phase_agrees (phase s) s" using assms(1) by (simp_all add: wf_store_def)
  note rows = next_request_bounds [OF wf(1) d(8)]
  let ?s = "record_action (Fetch f) s"
  have "row_limit ?s = row_limit s" by (simp add: row_limit_def Let_def)
  then have "within_cap ?s" using rows by (simp add: within_cap_def Let_def)
  moreover have "flight_ok ?s" using wf(1) d(6,9) rows
    by (auto simp: data_ok_def flight_ok_def Let_def sorted_wrt_append sat_add_def less_Suc_eq)
  moreover have "rows_ok ?s" "config_ok ?s" using wf(1) by (simp_all add: data_ok_def rows_ok_def config_ok_def Let_def)
  moreover have "cursor_ok ?s" "phase_agrees (phase ?s) ?s"
    using wf(2,3) d(1) by (simp_all add: cursor_ok_def Let_def)
  ultimately show ?thesis by (simp add: wf_store_def data_ok_def Fetch)
next
  case (CloseResult r)
  then have "close_due s" using assms(2) due_Close by blast
  then have "phase s \<noteq> Active" using assms(1) by (cases "phase s") (auto simp: wf_store_def)
  with assms(1) show ?thesis unfolding CloseResult
    by (intro wf_closed [OF assms(1)]) (auto simp: same_data_def)
qed

section \<open>Replies\<close>

text \<open>
  What the worker promises of a reply: no more rows than the fetch it answers asked for
  (\<^verbatim>\<open>FetchRequest::max_rows\<close>, \<^verbatim>\<open>Cursor::fetch_batch\<close>).
\<close>

definition honest_reply :: "result_store \<Rightarrow> (db_error + segment_reply) \<Rightarrow> bool" where
  "honest_reply s reply \<longleftrightarrow>
     (case (reply, in_flight s) of
        (Inr r, e # _) \<Rightarrow> segment_rows (segment r) \<le> flight_rows e
      | _ \<Rightarrow> True)"

text \<open>Taking entries off the queue of fetches in flight.\<close>

definition drop_entry :: "nat \<Rightarrow> 'a list \<Rightarrow> 'a list" where
  "drop_entry i xs = take i xs @ drop (Suc i) xs"

lemma sum_list_drop_entry:
  "i < length xs \<Longrightarrow> sum_list (map f xs) = f (xs ! i) + sum_list (map f (drop_entry i xs))" for f :: "'a \<Rightarrow> nat"
  by (subst id_take_nth_drop [of i xs]) (simp_all add: drop_entry_def)

lemma set_drop_entry: "set (drop_entry i xs) \<subseteq> set xs"
  by (auto simp: drop_entry_def dest: in_set_takeD in_set_dropD)

lemma sorted_wrt_drop_entry: "sorted_wrt P xs \<Longrightarrow> sorted_wrt P (drop_entry i xs)"
  unfolding drop_entry_def
  by (cases "i < length xs", subst (asm) id_take_nth_drop [of i xs]) (auto simp: sorted_wrt_append)

lemma forget_entry_ok:
  assumes "data_ok s" and "i < length (in_flight s)"
  defines "s' \<equiv> forget (in_flight s ! i) (s\<lparr>in_flight := drop_entry i (in_flight s)\<rparr>)"
  shows "data_ok s' \<and> retained_rows s' + in_flight_rows s' + flight_rows (in_flight s ! i) \<le> row_limit s' + 1"
proof -
  have f: "flight_ok s" "within_cap s" "rows_ok s" "config_ok s" using assms(1) by (simp_all add: data_ok_def)
  have limit: "row_limit s' = row_limit s" by (simp add: s'_def forget_def row_limit_def)
  have rows: "in_flight_rows s' + flight_rows (in_flight s ! i) = in_flight_rows s"
    "in_flight_rows s' = sum_list (map flight_rows (in_flight s'))"
    using f(1) sum_list_drop_entry [OF assms(2), of flight_rows] by (simp_all add: s'_def forget_def flight_ok_def)
  have "in_flight_bytes s' \<le> sum_list (map flight_bytes (in_flight s'))"
    using f(1) sum_list_drop_entry [OF assms(2), of flight_bytes]
    by (auto simp: s'_def forget_def flight_ok_def sat_sub_def)
  moreover have "in_flight s' = drop_entry i (in_flight s)" by (simp add: s'_def forget_def)
  moreover have "map flight_sequence (drop_entry i (in_flight s)) = drop_entry i (map flight_sequence (in_flight s))"
    by (simp add: drop_entry_def take_map drop_map)
  ultimately have "flight_ok s'"
    using f(1) rows(2) set_drop_entry [of i "in_flight s"] assms(2)
      sorted_wrt_drop_entry [of "(<)" "map flight_sequence (in_flight s)" i]
    by (auto simp: flight_ok_def s'_def forget_def drop_entry_def)
  moreover have "rows_ok s'" "config_ok s'" using f(3,4) by (simp_all add: s'_def forget_def rows_ok_def config_ok_def)
  moreover have "retained_rows s' = retained_rows s" by (simp add: s'_def forget_def)
  ultimately show ?thesis using f(2) rows(1) limit by (simp add: data_ok_def within_cap_def)
qed

lemma forget_fields [simp]:
  "phase (forget e s) = phase s" "cursor_closed (forget e s) = cursor_closed s" "close_due (forget e s) = close_due s"
  "lobs (forget e s) = lobs s" "retained_rows (forget e s) = retained_rows s" "segments (forget e s) = segments s"
  "in_flight (forget e s) = in_flight s" "exhausted (forget e s) = exhausted s" "store_result (forget e s) = store_result s"
  "store_columns (forget e s) = store_columns s" "row_limit (forget e s) = row_limit s" "row_count (forget e s) = row_count s"
  by (simp_all add: forget_def row_limit_def row_count_def)

lemma row_views_in_flight [simp]:
  "row_limit (s\<lparr>in_flight := q\<rparr>) = row_limit s" "row_count (s\<lparr>in_flight := q\<rparr>) = row_count s"
  by (simp_all add: row_limit_def row_count_def)

lemma data_ok_exhausted: "data_ok s \<Longrightarrow> first_submitted s \<Longrightarrow> data_ok (s\<lparr>exhausted := True\<rparr>)"
  by (simp add: data_ok_def rows_ok_def config_ok_def flight_ok_def within_cap_def row_limit_def)

lemma data_ok_append_segment:
  assumes "data_ok s" and "0 < segment_rows g" and "length (segment_columns g) = length (store_columns s)"
    and "retained_rows s + in_flight_rows s + segment_rows g \<le> row_limit s + 1" and "first_submitted s"
  shows "data_ok (append_segment g s)"
proof -
  have "rows_ok (append_segment g s)" using assms(1-3) rows_ok_append_segment by (simp add: data_ok_def)
  moreover have "flight_ok (append_segment g s)" "config_ok (append_segment g s)" "within_cap (append_segment g s)"
    using assms(1,4,5)
    by (simp_all add: data_ok_def append_segment_def Let_def flight_ok_def config_ok_def within_cap_def row_limit_def)
  ultimately show ?thesis by (simp add: data_ok_def)
qed

lemma append_segment_fields [simp]:
  "phase (append_segment g s) = phase s" "cursor_closed (append_segment g s) = cursor_closed s"
  "close_due (append_segment g s) = close_due s" "lobs (append_segment g s) = lobs s"
  by (simp_all add: append_segment_def Let_def)

lemma wf_take_reply:
  assumes "data_ok s" and "cursor_ok s" and "first_submitted s"
    and "phase s = Active \<Longrightarrow> \<not> cursor_closed s \<and> \<not> close_due s"
    and "phase s \<noteq> Active \<Longrightarrow> phase_agrees (phase s) s"
    and "\<And>r. reply = Inr r \<Longrightarrow> retained_rows s + in_flight_rows s + segment_rows (segment r) \<le> row_limit s + 1"
  shows "wf_store (snd (take_reply reply s))"
proof (cases "phase s = Active")
  case False
  then show ?thesis using assms by (simp add: take_reply_def wf_store_def)
next
  case active: True
  show ?thesis
  proof (cases reply)
    case (Inl e)
    let ?s = "snd (take_reply reply s)"
    have "same_data s ?s" using active Inl by (simp add: take_reply_def same_data_def Let_def)
    then have "data_ok ?s" "row_count ?s = row_count s" using assms(1) data_ok_same_data same_data_views by simp_all
    moreover have "cursor_ok ?s" "\<exists>e. phase ?s = Failed (row_count s) e"
      using active Inl assms(4) by (simp_all add: take_reply_def cursor_ok_def Let_def)
    ultimately show ?thesis by (auto simp: wf_store_def)
  next
    case (Inr r)
    let ?g = "segment r"
    show ?thesis
    proof (cases "segment_rows ?g > 0 \<and> length (segment_columns ?g) \<noteq> length (store_columns s)")
      case True
      let ?s = "snd (take_reply reply s)"
      have "same_data s ?s" using active Inr True by (simp add: take_reply_def same_data_def Let_def)
      then have "data_ok ?s" "row_count ?s = row_count s" using assms(1) data_ok_same_data same_data_views by simp_all
      moreover have "cursor_ok ?s" "\<exists>e. phase ?s = Failed (row_count s) e"
        using active Inr True assms(2) by (auto simp: take_reply_def cursor_ok_def Let_def)
      ultimately show ?thesis by (auto simp: wf_store_def)
    next
      case False
      let ?s1 = "if reply_exhausted r then s\<lparr>exhausted := True\<rparr> else s"
      let ?s2 = "if segment_rows ?g > 0 then append_segment ?g ?s1 else ?s1"
      have s1: "data_ok ?s1" using assms(1,3) data_ok_exhausted by simp
      have "row_limit ?s1 = row_limit s" by (simp add: row_limit_def)
      then have "data_ok ?s2" using s1 False assms(3) assms(6) [OF Inr] data_ok_append_segment [of ?s1 ?g] by auto
      moreover have "cursor_ok ?s2" "phase ?s2 = Active" "\<not> cursor_closed ?s2" "\<not> close_due ?s2"
        using active assms(2) assms(4) [OF active] by (simp_all add: cursor_ok_def)
      ultimately have "wf_store (settle ?s2)" by (rule wf_settle)
      then show ?thesis using active Inr False by (auto simp: take_reply_def Let_def)
    qed
  qed
qed

lemma first_index_bound: "first_index P xs = Some i \<Longrightarrow> i < length xs"
  by (induction xs arbitrary: i) (auto split: if_splits)

lemma forget_sequence_ok:
  assumes "data_ok s"
  shows "data_ok (forget_sequence n s)" "phase (forget_sequence n s) = phase s"
    "cursor_closed (forget_sequence n s) = cursor_closed s" "close_due (forget_sequence n s) = close_due s"
    "lobs (forget_sequence n s) = lobs s" "row_count (forget_sequence n s) = row_count s"
    "rows_of (forget_sequence n s) = rows_of s" "in_flight s = [] \<Longrightarrow> forget_sequence n s = s"
    "store_result (forget_sequence n s) = store_result s"
proof -
  show "data_ok (forget_sequence n s)"
  proof (cases "first_index (\<lambda>e. flight_sequence e = n) (in_flight s)")
    case (Some i)
    then show ?thesis using forget_entry_ok [OF assms first_index_bound [OF Some]]
      by (simp add: forget_sequence_def drop_entry_def)
  qed (simp add: forget_sequence_def assms)
qed (auto simp: forget_sequence_def rows_of_def split: option.splits)

text \<open>A reply that is not the next one fails the store without touching its rows.\<close>

definition fail_sequence :: "nat \<Rightarrow> result_store \<Rightarrow> result_store" where
  "fail_sequence n s =
     (if phase s = Active \<or> is_at_limit (phase s)
      then s\<lparr>phase := Failed (row_count s) (out_of_sequence_error (store_result s) n)\<rparr> else s)"

lemma on_fetched_cases:
  assumes "on_fetched debug t reply s = Some (f, s')"
  obtains (other) "ticket_result t \<noteq> store_result s" "f = NotThisResult" "s' = s"
  | (expected) e rest where "ticket_result t = store_result s" "in_flight s = e # rest" "flight_sequence e = sequence t"
      "(f, s') = take_reply reply (forget e (s\<lparr>in_flight := rest\<rparr>))"
  | (unexpected) "ticket_result t = store_result s" "\<not> debug" "f = OutOfSequence"
      "in_flight s = [] \<or> flight_sequence (hd (in_flight s)) \<noteq> sequence t"
      "s' = fail_sequence (sequence t) (forget_sequence (sequence t) s)"
proof (cases "ticket_result t = store_result s")
  case True
  show thesis
  proof (cases "in_flight s")
    case Nil
    then have "s' = fail_sequence (sequence t) (forget_sequence (sequence t) s)" "\<not> debug" "f = OutOfSequence"
      using assms True by (auto simp: on_fetched_def fail_sequence_def forget_sequence_def split: if_splits)
    with True Nil show thesis by (intro unexpected) simp_all
  next
    case (Cons e rest)
    then show thesis using assms True expected [of e rest] unexpected
      by (auto simp: on_fetched_def fail_sequence_def Let_def split: if_splits)
  qed
next
  case False
  with assms show thesis by (intro other) (simp_all add: on_fetched_def)
qed

lemma fail_sequence_wf:
  assumes "data_ok s" and "cursor_ok s" and "\<not> (phase s = Active \<or> is_at_limit (phase s)) \<Longrightarrow> phase_agrees (phase s) s"
  shows "wf_store (fail_sequence n s)"
proof (cases "phase s = Active \<or> is_at_limit (phase s)")
  case True
  have "same_data s (fail_sequence n s)" by (simp add: fail_sequence_def same_data_def)
  then show ?thesis using assms(1,2) True data_ok_same_data same_data_views
    by (auto simp: wf_store_def fail_sequence_def cursor_ok_def)
next
  case False
  then show ?thesis using assms by (simp add: wf_store_def fail_sequence_def)
qed

lemma wf_on_fetched:
  assumes "wf_store s" and "honest_reply s reply" and "on_fetched debug t reply s = Some (f, s')"
  shows "wf_store s'"
  using assms(3)
proof (cases rule: on_fetched_cases)
  case other
  then show ?thesis using assms(1) by simp
next
  case (expected e rest)
  let ?s = "forget e (s\<lparr>in_flight := rest\<rparr>)"
  have wf: "data_ok s" "cursor_ok s" "phase_agrees (phase s) s" using assms(1) by (simp_all add: wf_store_def)
  have ok: "data_ok ?s" "retained_rows ?s + in_flight_rows ?s + flight_rows e \<le> row_limit ?s + 1"
    using forget_entry_ok [OF wf(1), of 0] expected(2) by (simp_all add: drop_entry_def)
  have first: "first_submitted ?s" using wf(1) expected(2) by (simp add: forget_def data_ok_def flight_ok_def)
  have "wf_store (snd (take_reply reply ?s))"
  proof (rule wf_take_reply [OF ok(1) _ first])
    show "cursor_ok ?s" using wf(2) by (auto simp: cursor_ok_def)
    show "\<not> cursor_closed ?s \<and> \<not> close_due ?s" if "phase ?s = Active" using wf(3) that by simp
    show "phase_agrees (phase ?s) ?s" if "phase ?s \<noteq> Active"
      using wf(3) that expected(2) by (cases "phase s") auto
    show "retained_rows ?s + in_flight_rows ?s + segment_rows (segment r) \<le> row_limit ?s + 1" if "reply = Inr r" for r
      using ok(2) assms(2) that expected(2) by (simp add: honest_reply_def)
  qed
  with expected(4) show ?thesis by (metis snd_conv)
next
  case unexpected
  let ?s = "forget_sequence (sequence t) s"
  have wf: "data_ok s" "cursor_ok s" "phase_agrees (phase s) s" using assms(1) by (simp_all add: wf_store_def)
  note fs = forget_sequence_ok [OF wf(1), of "sequence t"]
  have "cursor_ok ?s" using wf(2) by (auto simp: cursor_ok_def fs(3-5))
  moreover have "phase_agrees (phase ?s) ?s" if "\<not> (phase ?s = Active \<or> is_at_limit (phase ?s))"
    using wf(3) that fs by (cases "phase s") auto
  ultimately show ?thesis unfolding unexpected(5) using fs(1) by (intro fail_sequence_wf)
qed

section \<open>Reachable states\<close>

text \<open>
  Everything that happens to a store: the caller's inputs, one submission of the pump, and
  replies, honest but otherwise arbitrary (any ticket, in any order, rows or an error).
\<close>

inductive step :: "result_store \<Rightarrow> result_store \<Rightarrow> bool" where
  step_demand: "step s (set_demand n s)"
| step_fetch_all: "step s (fetch_all s)"
| step_stop: "step s (stop s)"
| step_resume: "step s (resume s)"
| step_fetch_more: "step s (snd (fetch_more how s))"
| step_discard: "step s (discard s)"
| step_end_submitted: "step s (transaction_end_submitted s)"
| step_end_answered: "step s (transaction_end_answered b s)"
| step_executed: "step s (statement_executed out s)"
| step_session_ended: "step s (session_ended s)"
| step_submit: "due s = Some a \<Longrightarrow> step s (record_action a s)"
| step_reply: "honest_reply s reply \<Longrightarrow> on_fetched debug t reply s = Some (f, s') \<Longrightarrow> step s s'"

inductive reachable :: "result_store \<Rightarrow> bool" where
  reachable_new: "wf_policy p \<Longrightarrow> reachable (store_new r cols p)"
| reachable_step: "reachable s \<Longrightarrow> step s s' \<Longrightarrow> reachable s'"

inductive_cases step_cases: "step s s'"

lemma wf_step: "step s s' \<Longrightarrow> wf_store s \<Longrightarrow> wf_store s'"
  by (induction rule: step.induct)
    (auto intro: wf_set_demand wf_fetch_all wf_stop wf_resume wf_fetch_more wf_discard wf_transaction_end_submitted
      wf_transaction_end_answered wf_statement_executed wf_session_ended wf_record_action wf_on_fetched)

lemma reachable_wf: "reachable s \<Longrightarrow> wf_store s"
  by (induction rule: reachable.induct) (auto intro: wf_new wf_step)

end
