(* ===== verification/Result_Store_Properties.thy ===== *)
theory Result_Store_Properties
  imports Result_Store_Invariant
begin

text \<open>
  What a result store guarantees in every state it can reach: its reads, its caps, the order
  and fate of replies, the pump, what ends it and what happens to its large objects.
\<close>

section \<open>A reachable state to evaluate\<close>

definition sample_columns :: "column_metadata list" where
  "sample_columns = [column_metadata_new (us ''N'') SqlNumber]"

definition sample_policy :: result_policy where
  "sample_policy = policy_new (caps_new (sourced_new (At 2) Profile) (sourced_new Unlimited BuiltIn))"

definition sample_id :: result_id where
  "sample_id = \<lparr>owner = 1, result_set = 1\<rparr>"

definition sample_segment :: "nat \<Rightarrow> result_segment" where
  "sample_segment n = \<lparr>segment_session = 1, segment_rows = n,
     segment_columns = [\<lparr>column_nulls = null_mask_new n,
        storage = NumberStore (ScaledValues \<lparr>items = replicate n 7, capacity = n\<rparr> 0)\<rparr>],
     accounted_bytes = 200\<rparr>"

definition sample_start :: result_store where
  "sample_start = store_new sample_id sample_columns sample_policy"

definition sample_fetch :: store_action where
  "sample_fetch = Fetch \<lparr>ticket = \<lparr>ticket_result = sample_id, sequence = 0\<rparr>, request_rows = 3\<rparr>"

definition sample_waiting :: result_store where
  "sample_waiting = record_action sample_fetch sample_start"

definition sample_reply :: "db_error + segment_reply" where
  "sample_reply = Inr \<lparr>segment = sample_segment 3, reply_exhausted = False\<rparr>"

definition sample_full :: result_store where
  "sample_full = snd (the (on_fetched True \<lparr>ticket_result = sample_id, sequence = 0\<rparr> sample_reply sample_waiting))"

lemmas sample_defs = sample_columns_def sample_policy_def sample_id_def sample_segment_def sample_start_def
  sample_fetch_def sample_waiting_def sample_reply_def column_metadata_new_def policy_new_def caps_new_def sourced_new_def
  store_new_def vec_new_def DEFAULT_FETCH_ROWS_def DEFAULT_FETCHES_IN_FLIGHT_def DEFAULT_ROUND_TRIP_BYTES_def

lemmas sizing_defs = next_request_rows_def rows_per_round_trip_def row_width_def row_limit_def retained_bytes_def
  declared_row_width_def cell_width_def SIZE_NUMBER_def SIZE_USIZE_def div_ceil_def clamp_def sat_add_def sat_sub_def
  sat_mul_def usize_max_def GRID_ROW_CEILING_def

lemmas reply_defs = on_fetched_def take_reply_def forget_def append_segment_def settle_def settled_phase_def
  vec_push_def reserve_def min_non_zero_cap_def Let_def

lemma sample_start_reachable: "reachable sample_start"
  unfolding sample_start_def
  by (rule reachable_new) (simp add: sample_defs wf_policy_def wf_caps_def wf_cap_def usize_max_def)

lemma sample_due: "due sample_start = Some sample_fetch"
  by (simp add: due_def sample_defs sizing_defs Let_def)

lemma sample_waiting_reachable: "reachable sample_waiting"
  unfolding sample_waiting_def by (rule reachable_step [OF sample_start_reachable step_submit [OF sample_due]])

lemma sample_answer:
  "on_fetched True \<lparr>ticket_result = sample_id, sequence = 0\<rparr> sample_reply sample_waiting = Some (Appended 3, sample_full)"
  unfolding sample_full_def by (simp add: sample_defs sizing_defs reply_defs)

lemma sample_full_reachable: "reachable sample_full"
proof (rule reachable_step [OF sample_waiting_reachable step_reply])
  show "honest_reply sample_waiting sample_reply" by (simp add: honest_reply_def sample_defs Let_def)
qed (rule sample_answer)

lemma sample_full_fields:
  "segments sample_full = \<lparr>items = [sample_segment 3], capacity = 4\<rparr>" "retained_rows sample_full = 3"
  "phase sample_full = AtLimit LimitRows MoreYes" "lobs sample_full = None" "row_limit sample_full = 2"
  "in_flight sample_full = []" "close_due sample_full = False" "cursor_closed sample_full = False"
  by (simp_all add: sample_full_def sample_defs sizing_defs reply_defs)

section \<open>Rows\<close>

lemma settle_rows [simp]: "rows_of (settle s) = rows_of s"
  by (rule same_data_views(3) [OF same_data_settle])

lemma rows_of_exhausted [simp]: "rows_of (s\<lparr>exhausted := b\<rparr>) = rows_of s"
  by (simp add: rows_of_def)

lemma take_reply_rows:
  "rows_of (snd (take_reply reply s)) =
   (case (fst (take_reply reply s), reply) of
      (Appended n, Inr r) \<Rightarrow> rows_of s @ seg_rows (segment r) | _ \<Rightarrow> rows_of s)"
  by (auto simp: take_reply_def Let_def rows_of_append_segment split: sum.splits)
     (auto simp: rows_of_def seg_rows_def)

lemma take_reply_Appended:
  "fst (take_reply reply s) = Appended n \<Longrightarrow> phase s = Active \<and> (\<exists>r. reply = Inr r \<and> segment_rows (segment r) = n)"
  by (auto simp: take_reply_def Let_def split: sum.splits if_splits)

lemma on_fetched_rows:
  assumes "on_fetched debug t reply s = Some (f, s')"
  shows "rows_of s' = (case (f, reply) of (Appended n, Inr r) \<Rightarrow> rows_of s @ seg_rows (segment r) | _ \<Rightarrow> rows_of s)"
  using assms
proof (cases rule: on_fetched_cases)
  case (expected e rest)
  have "rows_of (forget e (s\<lparr>in_flight := rest\<rparr>)) = rows_of s" by (simp add: rows_of_def)
  with take_reply_rows [of reply "forget e (s\<lparr>in_flight := rest\<rparr>)"] expected(4) show ?thesis
    by (metis fst_conv snd_conv)
next
  case unexpected
  have "rows_of (fail_sequence n x) = rows_of x" "rows_of (forget_sequence n x) = rows_of x" for n x
    by (simp_all add: fail_sequence_def forget_sequence_def rows_of_def split: option.splits)
  with unexpected show ?thesis by simp
qed auto

text \<open>
  C14. Reading a cell of a reachable store is reading a list: the shown rows are the first
  \<^verbatim>\<open>row_count\<close> rows of the concatenation of the retained segments, whether the segment is
  found by division or by binary search; a large object that can no longer be read is served
  as unavailable, every other cell as the segment holds it.
\<close>

theorem store_reads_prefix:
  assumes "reachable s"
  shows "store_value s row col =
     (if row < row_count s
      then case rows_of s ! row of (g, i) \<Rightarrow> map_option (serve_cell (lobs s)) (segment_value g i col)
      else None) \<and>
    length (rows_of s) = retained_rows s \<and> row_count s = min (retained_rows s) (row_limit s)"
  using reachable_wf [OF assms] store_value_spec [of s row col] length_rows_of [of s]
  by (simp add: wf_store_def data_ok_def spec_value_def rows_ok_def row_count_def)

theorem store_reads_prefix_witness:
  "store_value sample_full 1 0 = Some (CNumber (Scaled \<lparr>mantissa = 7, scale = 0\<rparr>)) \<and> store_value sample_full 2 0 = None"
proof -
  have "row_count sample_full = 2" "rows_of sample_full ! 1 = (sample_segment 3, 1)" "lobs sample_full = None"
    by (simp_all add: row_count_def rows_of_def seg_rows_def sample_full_fields sample_segment_def)
  moreover have "segment_value (sample_segment 3) 1 0 = Some (CNumber (Scaled \<lparr>mantissa = 7, scale = 0\<rparr>))" by code_simp
  ultimately show ?thesis
    using store_reads_prefix [OF sample_full_reachable, of 1 0] store_reads_prefix [OF sample_full_reachable, of 2 0]
    by (simp add: serve_cell_def)
qed

lemma rows_only_change:
  assumes "step s s'"
  shows "rows_of s' = rows_of s \<or>
    (\<exists>t r n debug. phase s = Active \<and> in_flight s \<noteq> [] \<and> flight_sequence (hd (in_flight s)) = sequence t \<and>
       ticket_result t = store_result s \<and> on_fetched debug t (Inr r) s = Some (Appended n, s') \<and>
       n = segment_rows (segment r) \<and> rows_of s' = rows_of s @ seg_rows (segment r))"
  using assms
proof (cases rule: step.cases)
  case (step_submit a)
  then show ?thesis by (cases a) (simp_all add: rows_of_def Let_def)
next
  case (step_fetch_more how)
  then show ?thesis by (simp add: fetch_more_def) (simp add: rows_of_def)
next
  case (step_reply reply debug t f)
  from step_reply(2) show ?thesis
  proof (cases rule: on_fetched_cases)
    case (expected e rest)
    show ?thesis
    proof (cases "\<exists>n. f = Appended n")
      case True
      then obtain n where f: "f = Appended n" ..
      then have "fst (take_reply reply (forget e (s\<lparr>in_flight := rest\<rparr>))) = Appended n" using expected(4) by (metis fst_conv)
      from take_reply_Appended [OF this] obtain r where r: "phase s = Active" "reply = Inr r" "segment_rows (segment r) = n"
        by auto
      with on_fetched_rows [OF step_reply(2)] f have "rows_of s' = rows_of s @ seg_rows (segment r)" by simp
      with r f expected(1-3) step_reply(2) have "phase s = Active \<and> in_flight s \<noteq> [] \<and>
          flight_sequence (hd (in_flight s)) = sequence t \<and> ticket_result t = store_result s \<and>
          on_fetched debug t (Inr r) s = Some (Appended n, s') \<and> n = segment_rows (segment r) \<and>
          rows_of s' = rows_of s @ seg_rows (segment r)" by simp
      then show ?thesis by blast
    next
      case False
      with on_fetched_rows [OF step_reply(2)] show ?thesis by (cases f) simp_all
    qed
  next
    case other
    then show ?thesis by simp
  next
    case unexpected
    with on_fetched_rows [OF step_reply(2)] show ?thesis by simp
  qed
qed (auto simp: same_data_views(3) [OF same_data_inputs(1)] same_data_views(3) [OF same_data_inputs(2)]
      same_data_views(3) [OF same_data_inputs(3)] same_data_views(3) [OF same_data_inputs(4)]
      same_data_views(3) [OF same_data_inputs(5)] same_data_views(3) [OF same_data_inputs(7)]
      same_data_views(3) [OF same_data_inputs(8)] same_data_views(3) [OF same_data_inputs(9)]
      same_data_views(3) [OF same_data_inputs(10)])

text \<open>
  C21. The rows of a store change in one way only: a reply accepted while the store is active
  and waiting for exactly that fetch appends its rows at the end.  Every other input, and
  every reply that is stale, out of sequence, failed or for another result, leaves them
  unchanged.
\<close>

theorem rows_only_grow_by_expected_replies:
  assumes "step s s'"
  shows "rows_of s' = rows_of s \<or>
    (\<exists>t r n debug. phase s = Active \<and> in_flight s \<noteq> [] \<and> flight_sequence (hd (in_flight s)) = sequence t \<and>
       ticket_result t = store_result s \<and> on_fetched debug t (Inr r) s = Some (Appended n, s') \<and>
       n = segment_rows (segment r) \<and> rows_of s' = rows_of s @ seg_rows (segment r))"
  using assms by (rule rows_only_change)

theorem rows_only_grow_by_expected_replies_witness:
  "rows_of sample_full = rows_of sample_waiting @ seg_rows (sample_segment 3)"
proof -
  have "step sample_waiting sample_full"
    by (rule step_reply [OF _ sample_answer]) (simp add: honest_reply_def sample_defs Let_def)
  from rows_only_grow_by_expected_replies [OF this] show ?thesis
  proof
    assume "rows_of sample_full = rows_of sample_waiting"
    moreover have "rows_of sample_full \<noteq> rows_of sample_waiting"
      by (simp add: rows_of_def sample_full_fields seg_rows_def sample_defs Let_def)
    ultimately show ?thesis by blast
  next
    assume "\<exists>t r n debug. phase sample_waiting = Active \<and> in_flight sample_waiting \<noteq> [] \<and>
       flight_sequence (hd (in_flight sample_waiting)) = sequence t \<and>
       ticket_result t = store_result sample_waiting \<and> on_fetched debug t (Inr r) sample_waiting = Some (Appended n, sample_full) \<and>
       n = segment_rows (segment r) \<and> rows_of sample_full = rows_of sample_waiting @ seg_rows (segment r)"
    moreover have "rows_of sample_waiting = []" "rows_of sample_full = seg_rows (sample_segment 3)"
      by (simp_all add: rows_of_def sample_full_fields sample_defs Let_def)
    ultimately show ?thesis by simp
  qed
qed

section \<open>Caps\<close>

text \<open>
  C28. The row cap is exact.  A reachable store never holds more than one row past the cap in
  force, counting what is requested and not yet answered, and never has more fetches
  outstanding than the policy allows.  Stopped at a row limit it shows exactly the cap and
  holds the one row that proves there are more; complete it shows every row it holds; and
  stopped at the byte cap it claims nothing about further rows.
\<close>

theorem row_cap_is_exact:
  assumes "reachable s"
  shows "retained_rows s + in_flight_rows s \<le> row_limit s + 1 \<and>
    length (in_flight s) \<le> fetches_in_flight (policy s) \<and>
    (case phase s of
       AtLimit l m \<Rightarrow> if l = LimitBytes then m = MoreUnknown \<and> row_count s = retained_rows s
                     else m = MoreYes \<and> row_count s = row_limit s \<and> retained_rows s = row_limit s + 1
     | Complete \<Rightarrow> exhausted s \<and> in_flight s = [] \<and> row_count s = retained_rows s
     | Failed n e \<Rightarrow> n = row_count s
     | _ \<Rightarrow> True)"
proof -
  have wf: "within_cap s" "flight_ok s" "phase_agrees (phase s) s"
    using reachable_wf [OF assms] by (simp_all add: wf_store_def data_ok_def)
  then show ?thesis
    by (cases "phase s") (auto simp: within_cap_def flight_ok_def row_count_def split: if_splits)
qed

theorem row_cap_is_exact_witness:
  "row_count sample_full = 2 \<and> retained_rows sample_full = 3 \<and> phase sample_full = AtLimit LimitRows MoreYes"
  using row_cap_is_exact [OF sample_full_reachable] by (simp add: sample_full_fields)

section \<open>The pump\<close>

text \<open>\<open>pumps s as s'\<close>: the actions due one after the other, each recorded.\<close>

inductive pumps :: "result_store \<Rightarrow> store_action list \<Rightarrow> result_store \<Rightarrow> bool" where
  pumps_Nil: "pumps s [] s"
| pumps_Cons: "due s = Some a \<Longrightarrow> pumps (record_action a s) as s' \<Longrightarrow> pumps s (a # as) s'"

lemma pump_from_pumps:
  "pump_from submit n s e = (r, s', e') \<Longrightarrow> \<exists>as. pumps s as s' \<and>
     (case r of Inr m \<Rightarrow> m = n + length as \<and> due s' = None
      | Inl err \<Rightarrow> \<exists>a e1 e2. due s' = Some a \<and> submit a e1 = (Inl err, e2))"
proof (induction submit n s e arbitrary: r rule: pump_from.induct)
  case (1 submit n s e)
  show ?case
  proof (cases "due s")
    case None
    then show ?thesis using "1.prems" by (auto simp: pump_from.simps [of submit n] intro: pumps_Nil)
  next
    case (Some a)
    obtain out e1 where out: "submit a e = (out, e1)" by fastforce
    show ?thesis
    proof (cases out)
      case (Inl err)
      then have "r = Inl err" "s' = s" using "1.prems" Some out by (simp_all add: pump_from.simps [of submit n])
      then show ?thesis using Some out Inl pumps_Nil by fastforce
    next
      case (Inr u)
      then have run: "pump_from submit (n + 1) (record_action a s) e1 = (r, s', e')"
        using "1.prems" Some out by (simp add: pump_from.simps [of submit n])
      from "1.IH" [OF Some out [symmetric] Inr run] obtain as where as: "pumps (record_action a s) as s'"
        "case r of Inr m \<Rightarrow> m = n + 1 + length as \<and> due s' = None
         | Inl err \<Rightarrow> \<exists>a e1 e2. due s' = Some a \<and> submit a e1 = (Inl err, e2)" by blast
      then have "pumps s (a # as) s'" using pumps_Cons Some by blast
      with as(2) show ?thesis by (intro exI [of _ "a # as"]) (auto split: sum.splits)
    qed
  qed
qed

lemma pumps_reachable: "pumps s as s' \<Longrightarrow> reachable s \<Longrightarrow> reachable s'"
  by (induction rule: pumps.induct) (auto intro: reachable_step step_submit)

definition fetch_sequences :: "store_action list \<Rightarrow> nat list" where
  "fetch_sequences as = concat (map (\<lambda>a. case a of Fetch f \<Rightarrow> [sequence (ticket f)] | CloseResult _ \<Rightarrow> []) as)"

lemma pumps_sequences:
  "pumps s as s' \<Longrightarrow> next_sequence s \<le> next_sequence s' \<and>
     fetch_sequences as = [next_sequence s..<next_sequence s'] \<and>
     length (in_flight s') = length (in_flight s) + length (fetch_sequences as)"
proof (induction rule: pumps.induct)
  case (pumps_Cons s a as s')
  show ?case
  proof (cases a)
    case (Fetch f)
    then have "sequence (ticket f) = next_sequence s" using due_Fetch(9) pumps_Cons.hyps(1) by simp
    then show ?thesis using pumps_Cons.IH Fetch
      by (simp add: fetch_sequences_def Let_def upt_conv_Cons)
  next
    case (CloseResult r)
    then show ?thesis using pumps_Cons.IH by (simp add: fetch_sequences_def)
  qed
qed (simp add: fetch_sequences_def)

text \<open>
  Pumping a store always returns.  It submits the actions due one after the other and
  records exactly those its caller accepted: on success nothing is due any more, on failure
  the refused action is still due.  The fetches it submits carry the next sequence numbers
  without a gap and never exceed the number of places in flight, and the store stays in a
  reachable state.
\<close>

theorem pump_submits_what_is_due:
  assumes "reachable s"
  shows "\<exists>r s' e' as. pump submit s e = (r, s', e') \<and> pumps s as s' \<and> reachable s' \<and>
    fetch_sequences as = [next_sequence s..<next_sequence s'] \<and>
    length (in_flight s) + length (fetch_sequences as) \<le> fetches_in_flight (policy s') \<and>
    (case r of Inr n \<Rightarrow> n = length as \<and> due s' = None
     | Inl err \<Rightarrow> \<exists>a e1 e2. due s' = Some a \<and> submit a e1 = (Inl err, e2))"
proof -
  obtain r s' e' where run: "pump submit s e = (r, s', e')" by (metis prod_cases3)
  then obtain as where as: "pumps s as s'" "case r of Inr n \<Rightarrow> n = length as \<and> due s' = None
      | Inl err \<Rightarrow> \<exists>a e1 e2. due s' = Some a \<and> submit a e1 = (Inl err, e2)"
    using pump_from_pumps [of submit 0 s e] by (auto simp: pump_def cong: sum.case_cong)
  have "reachable s'" using as(1) assms by (rule pumps_reachable)
  moreover have "flight_ok s'" using reachable_wf [OF calculation] by (simp add: wf_store_def data_ok_def)
  ultimately show ?thesis using run as pumps_sequences [OF as(1)] by (auto simp: flight_ok_def)
qed

theorem pump_submits_what_is_due_witness:
  "\<exists>s' as. pump (\<lambda>a (e :: unit). (Inr (), e)) sample_start () = (Inr (length as), s', ()) \<and> pumps sample_start as s' \<and> due s' = None"
proof -
  obtain r s' as where a: "pump (\<lambda>a (e :: unit). (Inr (), e)) sample_start () = (r, s', ())" "pumps sample_start as s'"
    "case r of Inr n \<Rightarrow> n = length as \<and> due s' = None
     | Inl err \<Rightarrow> \<exists>a e1 e2. due s' = Some a \<and> (\<lambda>a (e :: unit). (Inr () :: db_error + unit, e)) a e1 = (Inl err, e2)"
    using pump_submits_what_is_due [OF sample_start_reachable, of "\<lambda>a (e :: unit). (Inr (), e)" "()"] by auto
  then show ?thesis by (cases r) auto
qed

section \<open>Endings\<close>

text \<open>
  An ended result stays ended: once its transaction or session ended or it was
  discarded, no input and no late reply changes its rows or gives it anything to submit, and
  the rows fetched before stay readable.
\<close>

theorem ended_store_is_final:
  assumes "reachable s" and "phase s = Ended c" and "step s s'"
  shows "(\<exists>c'. phase s' = Ended c') \<and> rows_of s' = rows_of s \<and> due s' = None \<and> cursor_closed s'"
proof -
  have "reachable s'" using assms(1,3) by (rule reachable_step)
  then have wf': "wf_store s'" by (rule reachable_wf)
  have wf: "wf_store s" using assms(1) by (rule reachable_wf)
  have nd: "due s = None" using wf assms(2) by (auto simp: wf_store_def cursor_ok_def due_def)
  have ended: "\<exists>c'. phase s' = Ended c'" using assms(3)
  proof (cases rule: step.cases)
    case (step_reply reply debug t f)
    from step_reply(2) show ?thesis
    proof (cases rule: on_fetched_cases)
      case (expected e rest)
      then have "s' = forget e (s\<lparr>in_flight := rest\<rparr>)" using assms(2) by (simp add: take_reply_def)
      then show ?thesis using assms(2) by simp
    next
      case unexpected
      then show ?thesis using assms(2) forget_sequence_ok(2) wf by (simp add: fail_sequence_def wf_store_def)
    qed (use assms(2) in simp)
  qed (use assms(2) nd in \<open>auto simp: set_demand_def fetch_all_def stop_def resume_def fetch_more_def discard_def
      transaction_end_submitted_def transaction_end_answered_def statement_executed_def session_ended_def
      end_transaction_def Let_def\<close>)
  moreover have "rows_of s' = rows_of s"
    using rows_only_change [OF assms(3)] assms(2) by auto
  moreover have "due s' = None" "cursor_closed s'" using ended wf' by (auto simp: wf_store_def cursor_ok_def due_def)
  ultimately show ?thesis by blast
qed

theorem ended_store_is_final_witness:
  "rows_of (set_demand 9 (end_transaction sample_full)) = rows_of (end_transaction sample_full) \<and>
   due (set_demand 9 (end_transaction sample_full)) = None"
proof -
  have "step sample_full (end_transaction sample_full)"
    using step_end_answered [of "sample_full" True] step_executed [of sample_full
      "\<lparr>outcome_result = None, outcome_columns = [], statement_kind = TransactionControl, committed_implicitly = False,
         rows_affected = None, outcome_warnings = [], outcome_values = NoOutValues\<rparr>"]
    by (simp add: statement_executed_def)
  then have "reachable (end_transaction sample_full)" using sample_full_reachable by (rule reachable_step [rotated])
  moreover have "phase (end_transaction sample_full) = Ended EndTransactionEnded"
    by (simp add: end_transaction_def sample_full_fields Let_def)
  ultimately show ?thesis using ended_store_is_final [OF _ _ step_demand] by blast
qed

section \<open>Large objects\<close>

lemma lose_lobs_keeps [simp]: "lose_lobs r (Some q) = Some q"
  by (simp add: lose_lobs_def)

lemma settle_lobs [simp]: "lobs (settle s) = lobs s"
  by (auto simp: settle_def Let_def split: option.splits)

lemma take_reply_lobs: "lobs s = Some q \<Longrightarrow> lobs (snd (take_reply reply s)) = Some q"
  by (auto simp: take_reply_def Let_def split: sum.splits)

lemma step_keeps_lobs:
  assumes "step s s'" and "lobs s = Some q"
  shows "lobs s' = Some q"
  using assms(1)
proof (cases rule: step.cases)
  case (step_submit a)
  then show ?thesis using assms(2) by (cases a) (simp_all add: Let_def)
next
  case (step_reply reply debug t f)
  from step_reply(2) show ?thesis
  proof (cases rule: on_fetched_cases)
    case (expected e rest)
    have "lobs (forget e (s\<lparr>in_flight := rest\<rparr>)) = Some q" using assms(2) by simp
    from take_reply_lobs [OF this, of reply] expected(4) show ?thesis by (metis snd_conv)
  next
    case unexpected
    then show ?thesis using assms(2) by (simp add: fail_sequence_def forget_sequence_def split: option.splits)
  qed (use assms(2) in simp)
qed (use assms(2) in \<open>auto simp: set_demand_def fetch_all_def stop_def resume_def fetch_more_def discard_def
      transaction_end_submitted_def transaction_end_answered_def statement_executed_def session_ended_def
      end_transaction_def Let_def split: phase.splits\<close>)

text \<open>
  A large object that can no longer be read says so, and never reads as NULL or as a
  handle: once the store has lost its large objects, every later state keeps the first
  reason, and every shown cell that holds a large object reads as unavailable for that
  reason, while every NULL cell still reads as NULL.
\<close>

theorem lost_lobs_stay_lost:
  assumes "reachable s" and "lobs s = Some reason" and "rtranclp step s s'" and "row < row_count s'"
  shows "lobs s' = Some reason \<and>
    (case rows_of s' ! row of (g, i) \<Rightarrow>
       (segment_value g i col = Some (CLob h) \<longrightarrow> store_value s' row col = Some (CLobUnavailable reason)) \<and>
       (store_value s' row col = Some CNull \<longleftrightarrow> segment_value g i col = Some CNull)) \<and>
    store_value s' row col \<noteq> Some (CLob h)"
proof -
  have "lobs s' = Some reason \<and> reachable s'" using assms(3,1,2)
    by (induction rule: rtranclp_induct) (auto intro: reachable_step step_keeps_lobs)
  then have l: "lobs s' = Some reason" and ok: "rows_ok s'" using reachable_wf by (auto simp: wf_store_def data_ok_def)
  obtain g i where gi: "rows_of s' ! row = (g, i)" by fastforce
  have "store_value s' row col = map_option (serve_cell (Some reason)) (segment_value g i col)"
    using store_value_spec [OF ok] l assms(4) gi by (simp add: spec_value_def)
  moreover have "serve_cell (Some reason) c = CNull \<longleftrightarrow> c = CNull" "serve_cell (Some reason) c \<noteq> CLob h"
    "serve_cell (Some reason) (CLob h) = CLobUnavailable reason" for c
    by (cases c; simp add: serve_cell_def)+
  ultimately show ?thesis using l gi by auto
qed

theorem lost_lobs_stay_lost_witness:
  "lobs (stop (discard sample_full)) = Some LobResultClosed"
proof -
  have r: "reachable (discard sample_full)" by (rule reachable_step [OF sample_full_reachable step_discard])
  have l: "lobs (discard sample_full) = Some LobResultClosed"
    by (simp add: discard_def sample_full_fields lose_lobs_def)
  have "row_count (stop (discard sample_full)) = 2"
    using same_data_views(2) [OF same_data_inputs(3), of "discard sample_full"]
      same_data_views(2) [OF same_data_inputs(5), of sample_full]
    by (simp add: row_count_def [of sample_full] sample_full_fields)
  with lost_lobs_stay_lost [OF r l r_into_rtranclp, OF step_stop, of 0] show ?thesis by simp
qed

section \<open>Progress\<close>



end
