(* ===== verification/Session_Results.thy ===== *)
theory Session_Results
  imports Session_Event Result_Store_Properties
begin

text \<open>
  \<^verbatim>\<open>crates/db-core/src/store/session_results.rs\<close>: every open result store of one session,
  and which of the session's events end them.  The stores' side of the contract is the locale
  \<open>store_transition\<close>: a transition keeps the store's invariant and its identity.
\<close>

section \<open>The operations\<close>

record session_results =
  results_session :: session_id
  stores :: "result_store list"
  ends_pending :: nat

datatype 'p observed = ObservedSegment result_id "fetched option" | ObservedEvent "'p session_event"

definition results_new :: "session_id \<Rightarrow> session_results" where
  "results_new session = \<lparr>results_session = session, stores = [], ends_pending = 0\<rparr>"

definition results_open :: "execute_outcome \<Rightarrow> result_policy \<Rightarrow> session_results \<Rightarrow> result_store option \<times> session_results" where
  "results_open out p sr =
     (case outcome_result out of
        None \<Rightarrow> (None, sr)
      | Some r \<Rightarrow>
          if owner r \<noteq> results_session sr then (None, sr)
          else let store = (transaction_end_submitted ^^ ends_pending sr) (store_new r (outcome_columns out) p)
               in (Some store, sr\<lparr>stores := filter (\<lambda>s. store_result s \<noteq> r) (stores sr) @ [store]\<rparr>))"

definition results_get :: "session_results \<Rightarrow> result_id \<Rightarrow> result_store option" where
  "results_get sr r = find (\<lambda>s. store_result s = r) (stores sr)"

definition results_remove :: "result_id \<Rightarrow> session_results \<Rightarrow> result_store option \<times> session_results" where
  "results_remove r sr =
     (case first_index (\<lambda>s. store_result s = r) (stores sr) of
        None \<Rightarrow> (None, sr)
      | Some i \<Rightarrow> (Some (stores sr ! i), sr\<lparr>stores := take i (stores sr) @ drop (Suc i) (stores sr)\<rparr>))"

definition results_end_submitted :: "session_results \<Rightarrow> session_results" where
  "results_end_submitted sr =
     sr\<lparr>ends_pending := ends_pending sr + 1, stores := map transaction_end_submitted (stores sr)\<rparr>"

fun ends_transaction :: "completed_operation \<Rightarrow> bool" where
  "ends_transaction Commit = True"
| "ends_transaction Rollback = True"
| "ends_transaction RollbackToSavepoint = True"
| "ends_transaction _ = False"

definition is_ok :: "db_error + 'a \<Rightarrow> bool" where
  "is_ok r = (case r of Inl _ \<Rightarrow> False | Inr _ \<Rightarrow> True)"

definition observe :: "bool \<Rightarrow> 'p session_event \<Rightarrow> session_results \<Rightarrow> ('p observed \<times> session_results) option" where
  "observe debug ev sr =
     (if event_session ev \<noteq> results_session sr then Some (ObservedEvent ev, sr)
      else case ev of
        FetchedSegment _ _ fetch seg \<Rightarrow>
          (case first_index (\<lambda>s. store_result s = ticket_result fetch) (stores sr) of
             None \<Rightarrow> Some (ObservedSegment (ticket_result fetch) None, sr)
           | Some i \<Rightarrow>
               (case on_fetched debug fetch seg (stores sr ! i) of
                  None \<Rightarrow> None
                | Some (f, s') \<Rightarrow>
                    Some (ObservedSegment (ticket_result fetch) (Some f), sr\<lparr>stores := (stores sr)[i := s']\<rparr>)))
      | Executed _ _ (Inr out) \<Rightarrow>
          Some (ObservedEvent ev, sr\<lparr>stores := map (statement_executed out) (stores sr)\<rparr>)
      | Completed _ _ op r \<Rightarrow>
          if ends_transaction op
          then Some (ObservedEvent ev, sr\<lparr>ends_pending := sat_sub (ends_pending sr) 1,
                 stores := map (transaction_end_answered (is_ok r)) (stores sr)\<rparr>)
          else Some (ObservedEvent ev, sr)
      | Terminal _ _ \<Rightarrow> Some (ObservedEvent ev, sr\<lparr>stores := map session_ended (stores sr)\<rparr>)
      | _ \<Rightarrow> Some (ObservedEvent ev, sr))"

text \<open>\<^verbatim>\<open>pump\<close>: the stores in order; the first refusal stops.\<close>

fun pump_stores ::
  "(store_action \<Rightarrow> 'e \<Rightarrow> (db_error + unit) \<times> 'e) \<Rightarrow> result_store list \<Rightarrow> nat \<Rightarrow> 'e \<Rightarrow>
   (db_error + nat) \<times> result_store list \<times> 'e" where
  "pump_stores submit [] n e = (Inr n, [], e)"
| "pump_stores submit (s # ss) n e =
     (case pump submit s e of
        (Inl err, s', e') \<Rightarrow> (Inl err, s' # ss, e')
      | (Inr k, s', e') \<Rightarrow> (case pump_stores submit ss (n + k) e' of (r, ss', e'') \<Rightarrow> (r, s' # ss', e'')))"

definition results_pump ::
  "(store_action \<Rightarrow> 'e \<Rightarrow> (db_error + unit) \<times> 'e) \<Rightarrow> session_results \<Rightarrow> 'e \<Rightarrow>
   (db_error + nat) \<times> session_results \<times> 'e" where
  "results_pump submit sr e =
     (case pump_stores submit (stores sr) 0 e of (r, ss, e') \<Rightarrow> (r, sr\<lparr>stores := ss\<rparr>, e'))"

section \<open>What the stores promise\<close>

locale store_transition =
  fixes inv :: "'s \<Rightarrow> bool"
    and ident :: "'s \<Rightarrow> 'i"
    and f :: "'s \<Rightarrow> 's"
  assumes keeps: "inv s \<Longrightarrow> inv (f s)"
    and same: "ident (f s) = ident s"
begin

lemma all_kept: "list_all inv ss \<Longrightarrow> list_all inv (map f ss)"
  by (auto simp: list_all_iff keeps)

lemma idents_kept: "map ident (map f ss) = map ident ss"
  by (simp add: same)

lemma found_kept: "find (\<lambda>s. ident s = i) (map f ss) = map_option f (find (\<lambda>s. ident s = i) ss)"
  by (induction ss) (auto simp: same)

end

lemma same_data_result: "same_data s s' \<Longrightarrow> store_result s' = store_result s"
  by (simp add: same_data_def)

interpretation executed: store_transition reachable store_result "statement_executed out"
  by unfold_locales (auto intro: reachable_step step_executed simp: same_data_result [OF same_data_inputs(9)])

interpretation submitted: store_transition reachable store_result transaction_end_submitted
  by unfold_locales (auto intro: reachable_step step_end_submitted simp: same_data_result [OF same_data_inputs(7)])

interpretation answered: store_transition reachable store_result "transaction_end_answered b"
  by unfold_locales (auto intro: reachable_step step_end_answered simp: same_data_result [OF same_data_inputs(8)])

interpretation ended: store_transition reachable store_result session_ended
  by unfold_locales (auto intro: reachable_step step_session_ended simp: same_data_result [OF same_data_inputs(10)])

section \<open>The invariant of a session's results\<close>

definition wf_results :: "session_results \<Rightarrow> bool" where
  "wf_results sr \<longleftrightarrow> distinct (map store_result (stores sr)) \<and> list_all reachable (stores sr) \<and>
     list_all (\<lambda>s. owner (store_result s) = results_session sr \<and> transaction_ends_pending s = ends_pending sr) (stores sr)"

lemma pending_views [simp]:
  "transaction_ends_pending (transaction_end_submitted s) = transaction_ends_pending s + 1"
  "transaction_ends_pending (transaction_end_answered b s) = transaction_ends_pending s - 1"
  "transaction_ends_pending (statement_executed out s) = transaction_ends_pending s"
  "transaction_ends_pending (session_ended s) = transaction_ends_pending s"
  by (auto simp: transaction_end_submitted_def transaction_end_answered_def statement_executed_def session_ended_def
      end_transaction_def sat_sub_def Let_def split: phase.splits)

lemma submitted_power:
  "reachable s \<Longrightarrow> reachable ((transaction_end_submitted ^^ n) s) \<and>
     store_result ((transaction_end_submitted ^^ n) s) = store_result s \<and>
     transaction_ends_pending ((transaction_end_submitted ^^ n) s) = transaction_ends_pending s + n"
  by (induction n) (auto intro: submitted.keeps simp: submitted.same)

lemma wf_results_new: "wf_results (results_new session)"
  by (simp add: wf_results_def results_new_def)

lemma wf_results_map:
  assumes "store_transition reachable store_result f" and "wf_results sr"
    and "\<And>s. transaction_ends_pending (f s) = g (transaction_ends_pending s)"
  shows "wf_results (sr\<lparr>ends_pending := g (ends_pending sr), stores := map f (stores sr)\<rparr>)"
  using assms(2) store_transition.all_kept [OF assms(1), of "stores sr"]
    store_transition.idents_kept [OF assms(1), of "stores sr"]
  by (simp add: wf_results_def list.pred_map comp_def store_transition.same [OF assms(1)] assms(3))
     (auto simp: list_all_iff)

lemma wf_results_open:
  assumes "wf_results sr" and "wf_policy p"
  shows "wf_results (snd (results_open out p sr))"
proof (cases "outcome_result out")
  case (Some r)
  let ?new = "store_new r (outcome_columns out) p"
  have "reachable ?new" using assms(2) by (rule reachable_new)
  moreover have "store_result ?new = r" "transaction_ends_pending ?new = 0" by (simp_all add: store_new_def)
  ultimately have "reachable ((transaction_end_submitted ^^ ends_pending sr) ?new)"
    "store_result ((transaction_end_submitted ^^ ends_pending sr) ?new) = r"
    "transaction_ends_pending ((transaction_end_submitted ^^ ends_pending sr) ?new) = ends_pending sr"
    using submitted_power [of ?new "ends_pending sr"] by simp_all
  then show ?thesis using assms(1) Some
    by (auto simp: results_open_def wf_results_def list_all_iff distinct_map_filter Let_def)
qed (use assms in \<open>simp add: results_open_def\<close>)

lemma distinct_drop_entry: "distinct xs \<Longrightarrow> distinct (drop_entry i xs)"
  using set_take_disj_set_drop_if_distinct [of xs i "Suc i"] by (simp add: drop_entry_def)

lemma wf_results_remove:
  assumes "wf_results sr"
  shows "wf_results (snd (results_remove r sr))"
proof (cases "first_index (\<lambda>s. store_result s = r) (stores sr)")
  case (Some i)
  then have eq: "snd (results_remove r sr) = sr\<lparr>stores := drop_entry i (stores sr)\<rparr>"
    by (simp add: results_remove_def drop_entry_def)
  have "map store_result (drop_entry i (stores sr)) = drop_entry i (map store_result (stores sr))"
    by (simp add: drop_entry_def take_map drop_map)
  with assms set_drop_entry [of i "stores sr"] distinct_drop_entry [of "map store_result (stores sr)" i]
  show ?thesis unfolding eq by (auto simp: wf_results_def list_all_iff)
qed (use assms in \<open>simp add: results_remove_def\<close>)

lemma wf_results_end_submitted: "wf_results sr \<Longrightarrow> wf_results (results_end_submitted sr)"
  using wf_results_map [OF submitted.store_transition_axioms, of sr "\<lambda>n. n + 1"]
  by (simp add: results_end_submitted_def)

text \<open>What the session's worker promises of a fetch reply, for the store it is for.\<close>

definition honest_event :: "session_results \<Rightarrow> 'p session_event \<Rightarrow> bool" where
  "honest_event sr ev =
     (case ev of
        FetchedSegment _ _ fetch seg \<Rightarrow>
          list_all (\<lambda>s. store_result s = ticket_result fetch \<longrightarrow> honest_reply s seg) (stores sr)
      | _ \<Rightarrow> True)"

lemma first_index_nth: "first_index P xs = Some i \<Longrightarrow> i < length xs \<and> P (xs ! i)"
  by (induction xs arbitrary: i) (auto split: if_splits)

lemma settle_fields [simp]:
  "store_result (settle s) = store_result s" "transaction_ends_pending (settle s) = transaction_ends_pending s"
  by (auto simp: settle_def Let_def split: option.splits)

lemma append_fields [simp]:
  "store_result (append_segment g s) = store_result s"
  "transaction_ends_pending (append_segment g s) = transaction_ends_pending s"
  by (simp_all add: append_segment_def Let_def)

lemma take_reply_fields:
  "store_result (snd (take_reply reply s)) = store_result s \<and>
   transaction_ends_pending (snd (take_reply reply s)) = transaction_ends_pending s"
  by (cases reply) (simp_all add: take_reply_def Let_def)

lemma on_fetched_fields:
  assumes "on_fetched debug t reply s = Some (f, s')"
  shows "store_result s' = store_result s \<and> transaction_ends_pending s' = transaction_ends_pending s"
  using assms
proof (cases rule: on_fetched_cases)
  case (expected e rest)
  have "s' = snd (take_reply reply (forget e (s\<lparr>in_flight := rest\<rparr>)))" using expected(4) by (metis snd_conv)
  then show ?thesis using take_reply_fields [of reply "forget e (s\<lparr>in_flight := rest\<rparr>)"] by (simp add: forget_def)
qed (auto simp: fail_sequence_def forget_sequence_def forget_def split: option.splits)

lemma observe_cases:
  assumes "observe debug ev sr = Some (ob, sr')"
  obtains (same) "sr' = sr"
  | (reply) session req fetch seg i f s' where "ev = FetchedSegment session req fetch seg"
      "first_index (\<lambda>s. store_result s = ticket_result fetch) (stores sr) = Some i"
      "on_fetched debug fetch seg (stores sr ! i) = Some (f, s')" "sr' = sr\<lparr>stores := (stores sr)[i := s']\<rparr>"
  | (executed) session req out where "ev = Executed session req (Inr out)"
      "sr' = sr\<lparr>stores := map (statement_executed out) (stores sr)\<rparr>"
  | (answered) session req opn r where "ev = Completed session req opn r" "ends_transaction opn"
      "sr' = sr\<lparr>ends_pending := ends_pending sr - 1, stores := map (transaction_end_answered (is_ok r)) (stores sr)\<rparr>"
  | (ended) session p where "ev = Terminal session p" "sr' = sr\<lparr>stores := map session_ended (stores sr)\<rparr>"
proof (cases "event_session ev = results_session sr")
  case True
  show thesis
  proof (cases ev)
    case (FetchedSegment session req fetch seg)
    then show thesis using assms True same reply [OF FetchedSegment]
      by (auto simp: observe_def split: option.splits)
  next
    case (Executed session req out)
    then show thesis using assms True same executed [of session req] by (cases out) (auto simp: observe_def)
  next
    case (Completed session req opn r)
    then show thesis using assms True same answered [OF Completed]
      by (auto simp: observe_def sat_sub_def split: if_splits)
  next
    case (Terminal session p)
    then show thesis using assms True ended [OF Terminal] by (simp add: observe_def)
  qed (rule same, use assms True in \<open>simp add: observe_def\<close>)+
next
  case False
  with assms have "sr' = sr" by (simp add: observe_def)
  then show thesis by (rule same)
qed

lemma wf_observe:
  assumes "wf_results sr" and "honest_event sr ev" and "observe debug ev sr = Some (ob, sr')"
  shows "wf_results sr'"
  using assms(3)
proof (cases rule: observe_cases)
  case same
  then show ?thesis using assms(1) by simp
next
  case (reply session req fetch seg i f s')
  note i = first_index_nth [OF reply(2)]
  have mem: "stores sr ! i \<in> set (stores sr)" using i by simp
  have "honest_reply (stores sr ! i) seg"
    using assms(2) reply(1) mem i by (simp add: honest_event_def list_all_iff)
  moreover have "reachable (stores sr ! i)" using assms(1) mem by (simp add: wf_results_def list_all_iff)
  ultimately have "reachable s'" using reply(3) step_reply reachable_step by blast
  moreover note on_fetched_fields [OF reply(3)]
  moreover have "map store_result ((stores sr)[i := s']) = map store_result (stores sr)"
    using calculation(2) i by (metis list_update_id map_update nth_map)
  ultimately show ?thesis using assms(1) mem unfolding reply(4)
    by (auto simp: wf_results_def list_all_iff dest!: set_update_subset_insert [THEN subsetD])
next
  case (executed session req out)
  then show ?thesis
    using wf_results_map [OF executed.store_transition_axioms [of out] assms(1), of "\<lambda>n. n"] by simp
next
  case (answered session req opn r)
  then show ?thesis
    using wf_results_map [OF answered.store_transition_axioms [of "is_ok r"] assms(1), of "\<lambda>n. n - 1"] by simp
next
  case (ended session p)
  then show ?thesis
    using wf_results_map [OF ended.store_transition_axioms assms(1), of "\<lambda>n. n"] by simp
qed

section \<open>Pumping\<close>

lemma record_action_fields [simp]:
  "store_result (record_action a s) = store_result s"
  "transaction_ends_pending (record_action a s) = transaction_ends_pending s"
  by (cases a; simp add: Let_def)+

lemma pumps_fields: "pumps s as s' \<Longrightarrow> store_result s' = store_result s \<and> transaction_ends_pending s' = transaction_ends_pending s"
  by (induction rule: pumps.induct) simp_all

lemma pump_stores_pumps:
  "pump_stores submit ss n e = (r, ss', e') \<Longrightarrow> list_all2 (\<lambda>s s'. \<exists>as. pumps s as s') ss ss'"
proof (induction ss arbitrary: n e r ss' e')
  case (Cons s ss)
  obtain r1 s1 e1 where run: "pump submit s e = (r1, s1, e1)" by (metis prod_cases3)
  then have "\<exists>as. pumps s as s1" using pump_from_pumps [of submit 0 s e r1 s1 e1] by (auto simp: pump_def)
  moreover have "list_all2 (\<lambda>s s'. \<exists>as. pumps s as s') ss ss"
    by (rule list.rel_refl) (auto intro: pumps_Nil)
  ultimately show ?case using Cons.prems Cons.IH run by (auto split: sum.splits prod.splits)
qed simp

lemma wf_results_pumps:
  assumes "wf_results sr" and rel: "list_all2 (\<lambda>s s'. \<exists>as. pumps s as s') (stores sr) ss"
  shows "wf_results (sr\<lparr>stores := ss\<rparr>)"
proof -
  have "map store_result ss = map store_result (stores sr)"
    using rel by (induction rule: list_all2_induct) (auto dest: pumps_fields)
  moreover have "reachable s' \<and> owner (store_result s') = results_session sr \<and>
      transaction_ends_pending s' = ends_pending sr" if mem: "s' \<in> set ss" for s'
  proof -
    obtain i where i: "i < length ss" "s' = ss ! i" using mem by (auto simp: in_set_conv_nth)
    then have "\<exists>as. pumps (stores sr ! i) as s'" "stores sr ! i \<in> set (stores sr)"
      using rel by (simp_all add: list_all2_conv_all_nth)
    then obtain s as where s: "s \<in> set (stores sr)" "pumps s as s'" by blast
    with assms(1) show ?thesis using pumps_fields [OF s(2)] pumps_reachable [OF s(2)]
      by (simp add: wf_results_def list_all_iff)
  qed
  ultimately show ?thesis using assms(1) by (simp add: wf_results_def list_all_iff)
qed

lemma results_pump_pumps:
  "results_pump submit sr e = (r, sr', e') \<Longrightarrow>
   \<exists>ss. sr' = sr\<lparr>stores := ss\<rparr> \<and> list_all2 (\<lambda>s s'. \<exists>as. pumps s as s') (stores sr) ss"
  using pump_stores_pumps [of submit "stores sr" 0 e] by (auto simp: results_pump_def split: prod.splits)

section \<open>Reachable results\<close>

text \<open>
  A pump of any caller does to each store what some sequence of its due actions does
  (\<open>results_pump_pumps\<close>), so that is the rule.
\<close>

inductive results_step :: "session_results \<Rightarrow> session_results \<Rightarrow> bool" where
  rs_open: "wf_policy p \<Longrightarrow> results_step sr (snd (results_open out p sr))"
| rs_remove: "results_step sr (snd (results_remove r sr))"
| rs_end_submitted: "results_step sr (results_end_submitted sr)"
| rs_observe: "honest_event sr ev \<Longrightarrow> observe debug (ev :: unit session_event) sr = Some (ob, sr') \<Longrightarrow> results_step sr sr'"
| rs_pump: "list_all2 (\<lambda>s s'. \<exists>as. pumps s as s') (stores sr) ss \<Longrightarrow> results_step sr (sr\<lparr>stores := ss\<rparr>)"

inductive results_reachable :: "session_results \<Rightarrow> bool" where
  rr_new: "results_reachable (results_new session)"
| rr_step: "results_reachable sr \<Longrightarrow> results_step sr sr' \<Longrightarrow> results_reachable sr'"

lemma results_reachable_wf: "results_reachable sr \<Longrightarrow> wf_results sr"
proof (induction rule: results_reachable.induct)
  case (rr_step sr sr')
  from rr_step(2,3) show ?case
    by (cases rule: results_step.cases)
      (auto intro: wf_results_open wf_results_remove wf_results_end_submitted wf_observe wf_results_pumps)
qed (rule wf_results_new)

section \<open>Properties\<close>

text \<open>
  Every session keeps at most one store per result, all of them of its own results and in
  reachable states, and every store knows exactly how many announced transaction ends are
  still unanswered, whenever it was opened; while one is, no store has a fetch to submit.
\<close>

theorem session_results_invariant:
  assumes "results_reachable sr" and "s \<in> set (stores sr)"
  shows "reachable s \<and> owner (store_result s) = results_session sr \<and>
    results_get sr (store_result s) = Some s \<and> transaction_ends_pending s = ends_pending sr \<and>
    (ends_pending sr > 0 \<longrightarrow> (\<forall>f. due s \<noteq> Some (Fetch f)))"
proof -
  have wf: "wf_results sr" using assms(1) by (rule results_reachable_wf)
  have "find (\<lambda>x. store_result x = store_result s) ss = Some s" if "distinct (map store_result ss)" "s \<in> set ss" for ss
    using that by (induction ss) auto
  then have "results_get sr (store_result s) = Some s" using wf assms(2) by (simp add: wf_results_def results_get_def)
  then show ?thesis using wf assms(2) due_Fetch(5) [of s] by (auto simp: wf_results_def list_all_iff)
qed

definition sample_outcome :: execute_outcome where
  "sample_outcome = \<lparr>outcome_result = Some sample_id, outcome_columns = sample_columns, statement_kind = Query,
     committed_implicitly = False, rows_affected = None, outcome_warnings = [], outcome_values = NoOutValues\<rparr>"

definition sample_results :: session_results where
  "sample_results = results_end_submitted (snd (results_open sample_outcome sample_policy (results_new 1)))"

lemma sample_results_reachable: "results_reachable sample_results"
proof -
  have "wf_policy sample_policy"
    by (simp add: sample_defs wf_policy_def wf_caps_def wf_cap_def usize_max_def)
  then show ?thesis unfolding sample_results_def by (intro rr_step [OF _ rs_end_submitted] rr_step [OF rr_new rs_open])
qed

lemma sample_results_stores: "stores sample_results = [transaction_end_submitted sample_start]" "ends_pending sample_results = 1"
  by (simp_all add: sample_results_def results_end_submitted_def results_open_def results_new_def sample_outcome_def Let_def
      sample_id_def sample_start_def)

theorem session_results_invariant_witness:
  "due (transaction_end_submitted sample_start) = None \<and>
   results_get sample_results sample_id = Some (transaction_end_submitted sample_start)"
proof -
  let ?s = "transaction_end_submitted sample_start"
  have id: "store_result ?s = sample_id" by (simp add: transaction_end_submitted_def sample_start_def store_new_def)
  note i = session_results_invariant [OF sample_results_reachable, of ?s, unfolded sample_results_stores id, simplified]
  have "\<not> close_due ?s" by (simp add: transaction_end_submitted_def sample_start_def store_new_def)
  then have "due ?s = None" using i by (cases "due ?s") (auto simp: due_def split: if_splits option.splits)
  with i show ?thesis by simp
qed

text \<open>
  A transaction that really ended ends every result of the session: after a successful
  commit, rollback or rollback to a savepoint, a typed transaction-control statement or an
  implicitly committing statement, no store of the session has anything to submit, none is
  still fetching, its cursor counts as closed, and every row it had is still there.
\<close>

theorem transaction_end_ends_every_result:
  assumes "results_reachable sr" and "event_session ev = results_session sr"
    and "(\<exists>req opn. ev = Completed (results_session sr) req opn (Inr ()) \<and> ends_transaction opn) \<or>
      (\<exists>req out. ev = Executed (results_session sr) req (Inr out) \<and>
        (committed_implicitly out \<or> statement_kind out = TransactionControl))"
  shows "\<exists>sr'. observe debug ev sr = Some (ObservedEvent ev, sr') \<and>
    map rows_of (stores sr') = map rows_of (stores sr) \<and>
    list_all (\<lambda>s. due s = None \<and> phase s \<noteq> Active \<and> cursor_closed s \<and> lobs s \<noteq> None) (stores sr')"
proof -
  obtain f where f: "\<And>s. \<exists>n. f s = end_transaction (s\<lparr>transaction_ends_pending := n\<rparr>)"
    and ob: "\<exists>sr'. observe debug ev sr = Some (ObservedEvent ev, sr') \<and> stores sr' = map f (stores sr)"
    using assms(3)
  proof
    assume "\<exists>req opn. ev = Completed (results_session sr) req opn (Inr ()) \<and> ends_transaction opn"
    then show thesis
      by (intro that [of "transaction_end_answered True"])
        (auto simp: observe_def transaction_end_answered_def is_ok_def Let_def)
  next
    assume "\<exists>req out. ev = Executed (results_session sr) req (Inr out) \<and>
        (committed_implicitly out \<or> statement_kind out = TransactionControl)"
    then obtain req out where "ev = Executed (results_session sr) req (Inr out)"
      and ending: "\<And>s. statement_executed out s = end_transaction s" by (auto simp: statement_executed_def)
    moreover have "\<exists>n. statement_executed out s = end_transaction (s\<lparr>transaction_ends_pending := n\<rparr>)" for s
      using ending by (intro exI [of _ "transaction_ends_pending s"]) simp
    ultimately show thesis by (intro that [of "statement_executed out"]) (auto simp: observe_def)
  qed
  have kept: "rows_of (f s) = rows_of s" for s
    using f [of s] same_data_views(3) [OF same_data_inputs(6)] by (auto simp: rows_of_def)
  have "due (f s) = None \<and> phase (f s) \<noteq> Active \<and> cursor_closed (f s) \<and> lobs (f s) \<noteq> None" for s
  proof -
    obtain n where n: "f s = end_transaction (s\<lparr>transaction_ends_pending := n\<rparr>)" using f by blast
    have "phase (f s) \<noteq> Active" "\<not> close_due (f s)" "cursor_closed (f s)" "lobs (f s) \<noteq> None"
      unfolding n by (auto simp: end_transaction_def Let_def split: phase.splits)
    then show ?thesis by (simp add: due_def)
  qed
  with ob kept show ?thesis by (auto simp: list.pred_map comp_def list_all_iff)
qed

theorem transaction_end_ends_every_result_witness:
  "\<exists>sr'. observe True (Completed 1 5 Commit (Inr ()) :: unit session_event) sample_results =
     Some (ObservedEvent (Completed 1 5 Commit (Inr ())), sr') \<and> list_all (\<lambda>s. due s = None) (stores sr')"
proof -
  have "results_session sample_results = 1"
    by (simp add: sample_results_def results_end_submitted_def results_open_def results_new_def sample_outcome_def sample_id_def Let_def)
  then show ?thesis
    using transaction_end_ends_every_result [OF sample_results_reachable, of "Completed 1 5 Commit (Inr ()) :: unit session_event" True]
    by (auto simp: list_all_iff)
qed

end
