(* ===== verification/Event_Queue.thy ===== *)
theory Event_Queue
  imports Session_Event
begin

text \<open>
  \<^verbatim>\<open>crates/db-core/src/events.rs\<close>: the shared queue of session events, the per-session cap
  on unsolicited events and the reply slots.  Every operation runs under the queue's mutex, so
  an execution of the producers and the consumer is a sequence of the operations below.  A
  session's slot counter, shared through an \<^verbatim>\<open>Arc\<close>, is named by a number; the counters are
  the map \<open>outstanding\<close> of the state.  The waker and the condition variable only notify and
  are not part of the state; \<^verbatim>\<open>push\<close> reports when the waker must run.
\<close>

section \<open>Data\<close>

definition u32_max :: nat where "u32_max = 2 ^ 32 - 1"

definition sat_add_u32 :: "nat \<Rightarrow> nat \<Rightarrow> nat" where
  "sat_add_u32 a b = min (a + b) u32_max"

definition DEFAULT_MAX_UNSOLICITED_PER_SESSION :: nat where
  "DEFAULT_MAX_UNSOLICITED_PER_SESSION = 256"

record pushed =
  wake :: bool
  kept :: bool

definition DISCARDED :: pushed where
  "DISCARDED = \<lparr>wake = False, kept = False\<rparr>"

record session_queue_state =
  unsolicited :: nat
  dropped_lines :: nat
  transaction_seq :: "nat option"

definition state_default :: session_queue_state where
  "state_default = \<lparr>unsolicited = 0, dropped_lines = 0, transaction_seq = None\<rparr>"

definition is_idle :: "session_queue_state \<Rightarrow> bool" where
  "is_idle st \<longleftrightarrow> unsolicited st = 0 \<and> dropped_lines st = 0 \<and> transaction_seq st = None"

type_synonym slots_id = nat

record 'p queued =
  event :: "'p session_event"
  slot :: "slots_id option"

record 'p event_queue =
  queue :: "'p queued list"
  front_seq :: nat
  next_seq :: nat
  sessions :: "session_id \<rightharpoonup> session_queue_state"
  queue_closed :: bool
  max_unsolicited :: nat
  dropped_unsolicited :: nat
  outstanding :: "slots_id \<Rightarrow> nat"

definition event_channel :: "nat \<Rightarrow> 'p event_queue" where
  "event_channel cap = \<lparr>queue = [], front_seq = 0, next_seq = 0, sessions = Map.empty, queue_closed = False,
     max_unsolicited = cap, dropped_unsolicited = 0, outstanding = (\<lambda>_. 0)\<rparr>"

section \<open>Reply slots\<close>

definition reserve_slot :: "nat \<Rightarrow> slots_id \<Rightarrow> 'p event_queue \<Rightarrow> db_error + 'p event_queue" where
  "reserve_slot limit i q =
     (if outstanding q i \<ge> limit
      then Inl (error_new Resource (us ''reldex-db-core: this session already has '' @ nat_text limit @
             us '' requests outstanding (its configured limit); drain the event queue before submitting more''))
      else Inr (q\<lparr>outstanding := (outstanding q)(i := outstanding q i + 1)\<rparr>))"

text \<open>Releasing a slot never taken is an assertion of a debug build and saturates in a release build.\<close>

definition release_slot :: "slots_id \<Rightarrow> (slots_id \<Rightarrow> nat) \<Rightarrow> slots_id \<Rightarrow> nat" where
  "release_slot i out = out(i := out i - 1)"

section \<open>Admission\<close>

datatype admission = Enqueue | EnqueueWithoutLines | Coalesced | Dropped

definition queued_transaction_slot :: "'p event_queue \<Rightarrow> session_id \<Rightarrow> nat option" where
  "queued_transaction_slot q session =
     (case sessions q session of None \<Rightarrow> None
      | Some st \<Rightarrow> (case transaction_seq st of None \<Rightarrow> None
          | Some seq \<Rightarrow> if seq < front_seq q then None else Some (seq - front_seq q)))"

definition admit_unsolicited :: "'p session_event \<Rightarrow> 'p event_queue \<Rightarrow> admission \<times> 'p event_queue" where
  "admit_unsolicited ev q =
     (case ev of
        TransactionStateChanged session b \<Rightarrow>
          (case queued_transaction_slot q session of
             None \<Rightarrow> (Enqueue, q)
           | Some i \<Rightarrow>
               (case nth_opt (queue q) i of
                  Some qd \<Rightarrow>
                    (case event qd of
                       TransactionStateChanged k _ \<Rightarrow>
                         (Coalesced, q\<lparr>queue := (queue q)[i := qd\<lparr>event := TransactionStateChanged k b\<rparr>]\<rparr>)
                     | _ \<Rightarrow> (Enqueue, q))
                | None \<Rightarrow> (Enqueue, q)))
      | _ \<Rightarrow>
          (case sessions q (event_session ev) of
             None \<Rightarrow> (Enqueue, q)
           | Some st \<Rightarrow>
               if unsolicited st < max_unsolicited q then (Enqueue, q)
               else (case ev of
                       ServerOutput session lines dropped failure invalid \<Rightarrow>
                         let lost = (if length lines \<le> u32_max then length lines else u32_max);
                             q' = q\<lparr>sessions := (sessions q)(session \<mapsto>
                                     st\<lparr>dropped_lines := sat_add_u32 (dropped_lines st) lost\<rparr>)\<rparr>
                         in if failure \<noteq> None then (EnqueueWithoutLines, q') else (Dropped, q')
                     | _ \<Rightarrow> (Dropped, q))))"

fun without_lines :: "'p session_event \<Rightarrow> 'p session_event" where
  "without_lines (ServerOutput s lines d f i) = ServerOutput s [] d f i"
| "without_lines e = e"

definition stamp_unsolicited :: "'p session_event \<Rightarrow> 'p event_queue \<Rightarrow> 'p session_event \<times> 'p event_queue" where
  "stamp_unsolicited ev q =
     (if \<not> is_unsolicited ev then (ev, q)
      else let session = event_session ev;
               st = (case sessions q session of None \<Rightarrow> state_default | Some st \<Rightarrow> st);
               st = st\<lparr>unsolicited := unsolicited st + 1\<rparr>
           in case ev of
                TransactionStateChanged _ _ \<Rightarrow>
                  (ev, q\<lparr>sessions := (sessions q)(session \<mapsto> st\<lparr>transaction_seq := Some (next_seq q)\<rparr>)\<rparr>)
              | ServerOutput s lines dropped failure invalid \<Rightarrow>
                  (ServerOutput s lines (sat_add_u32 dropped (dropped_lines st)) failure invalid,
                   q\<lparr>sessions := (sessions q)(session \<mapsto> st\<lparr>dropped_lines := 0\<rparr>)\<rparr>)
              | _ \<Rightarrow> (ev, q\<lparr>sessions := (sessions q)(session \<mapsto> st)\<rparr>))"

section \<open>Pushing and popping\<close>

definition enqueue :: "'p session_event \<Rightarrow> slots_id option \<Rightarrow> bool \<Rightarrow> 'p event_queue \<Rightarrow> pushed \<times> 'p event_queue" where
  "enqueue ev sl was_empty q =
     (case stamp_unsolicited ev q of
        (ev', q') \<Rightarrow>
          (\<lparr>wake = was_empty, kept = True\<rparr>,
           q'\<lparr>queue := queue q' @ [\<lparr>event = ev', slot = sl\<rparr>], next_seq := next_seq q' + 1\<rparr>))"

definition push :: "'p session_event \<Rightarrow> slots_id option \<Rightarrow> 'p event_queue \<Rightarrow> pushed \<times> 'p event_queue" where
  "push ev sl q =
     (if queue_closed q then (DISCARDED, q)
      else let was_empty = (queue q = []) in
        if is_unsolicited ev
        then (case admit_unsolicited ev q of
                (Enqueue, q') \<Rightarrow> enqueue ev sl was_empty q'
              | (EnqueueWithoutLines, q') \<Rightarrow> enqueue (without_lines ev) sl was_empty q'
              | (Coalesced, q') \<Rightarrow> (DISCARDED, q')
              | (Dropped, q') \<Rightarrow> (DISCARDED, q'\<lparr>dropped_unsolicited := dropped_unsolicited q' + 1\<rparr>))
        else enqueue ev sl was_empty q)"

definition release_unsolicited :: "session_id \<Rightarrow> nat \<Rightarrow> 'p event_queue \<Rightarrow> 'p event_queue" where
  "release_unsolicited session seq q =
     (case sessions q session of
        None \<Rightarrow> q
      | Some st \<Rightarrow>
          let st = st\<lparr>unsolicited := unsolicited st - 1\<rparr>;
              st = (if transaction_seq st = Some seq then st\<lparr>transaction_seq := None\<rparr> else st)
          in q\<lparr>sessions := (sessions q)(session := if is_idle st then None else Some st)\<rparr>)"

definition pop :: "'p event_queue \<Rightarrow> 'p session_event option \<times> 'p event_queue" where
  "pop q =
     (case queue q of
        [] \<Rightarrow> (None, q)
      | qd # rest \<Rightarrow>
          let seq = front_seq q;
              q' = q\<lparr>queue := rest, front_seq := seq + 1,
                     outstanding := (case slot qd of None \<Rightarrow> outstanding q | Some i \<Rightarrow> release_slot i (outstanding q))\<rparr>
          in (Some (event qd),
              if is_unsolicited (event qd) then release_unsolicited (event_session (event qd)) seq q' else q'))"

fun drain_into :: "nat \<Rightarrow> 'p event_queue \<Rightarrow> 'p session_event list \<times> 'p event_queue" where
  "drain_into 0 q = ([], q)"
| "drain_into (Suc n) q =
     (case pop q of
        (None, q') \<Rightarrow> ([], q')
      | (Some ev, q') \<Rightarrow> (case drain_into n q' of (evs, q'') \<Rightarrow> (ev # evs, q'')))"

text \<open>\<^verbatim>\<open>Drop for EventQueue\<close>: close, take everything out, forget the sessions.\<close>

definition drop_queue :: "'p event_queue \<Rightarrow> 'p event_queue" where
  "drop_queue q =
     (case drain_into (length (queue q)) (q\<lparr>queue_closed := True\<rparr>) of (_, q') \<Rightarrow> q'\<lparr>sessions := Map.empty\<rparr>)"

definition pending_dropped_lines :: "'p event_queue \<Rightarrow> session_id \<Rightarrow> nat" where
  "pending_dropped_lines q session = (case sessions q session of None \<Rightarrow> 0 | Some st \<Rightarrow> dropped_lines st)"

text \<open>
  What a session does with an event and with a reply (\<^verbatim>\<open>shared.rs\<close>): a reply's slot goes to
  the queue, and is released at once when there is no sink or the queue did not keep the event.
\<close>

definition emit :: "bool \<Rightarrow> 'p session_event \<Rightarrow> 'p event_queue \<Rightarrow> bool \<times> 'p event_queue" where
  "emit has_sink ev q = (if has_sink then (case push ev None q of (p, q') \<Rightarrow> (wake p, q')) else (False, q))"

definition emit_reply :: "bool \<Rightarrow> 'p session_event \<Rightarrow> slots_id \<Rightarrow> 'p event_queue \<Rightarrow> bool \<times> 'p event_queue" where
  "emit_reply has_sink ev i q =
     (if has_sink
      then (case push ev (Some i) q of
              (p, q') \<Rightarrow> (wake p, if kept p then q' else q'\<lparr>outstanding := release_slot i (outstanding q')\<rparr>))
      else (False, q\<lparr>outstanding := release_slot i (outstanding q)\<rparr>))"

section \<open>The invariant\<close>

text \<open>
  The bookkeeping of one session against the events waiting: how many unsolicited ones, where
  its one undelivered transaction state is, and that its plain output is within the cap.
\<close>

definition unsolicited_of :: "session_id \<Rightarrow> 'p session_event \<Rightarrow> bool" where
  "unsolicited_of k e \<longleftrightarrow> is_unsolicited e \<and> event_session e = k"

fun plain_output :: "session_id \<Rightarrow> 'p session_event \<Rightarrow> bool" where
  "plain_output k (ServerOutput s lines d f i) = (s = k \<and> f = None)"
| "plain_output k _ = False"

fun transaction_of :: "session_id \<Rightarrow> 'p session_event \<Rightarrow> bool" where
  "transaction_of k (TransactionStateChanged s b) = (s = k)"
| "transaction_of k _ = False"

definition cnt :: "('a \<Rightarrow> bool) \<Rightarrow> 'a list \<Rightarrow> nat" where
  "cnt P xs = length (filter P xs)"

definition state_seq :: "session_queue_state option \<Rightarrow> nat option" where
  "state_seq so = (case so of None \<Rightarrow> None | Some st \<Rightarrow> transaction_seq st)"

definition state_cnt :: "session_queue_state option \<Rightarrow> nat" where
  "state_cnt so = (case so of None \<Rightarrow> 0 | Some st \<Rightarrow> unsolicited st)"

definition entry_ok :: "nat \<Rightarrow> nat \<Rightarrow> session_id \<Rightarrow> 'p session_event list \<Rightarrow> session_queue_state option \<Rightarrow> bool" where
  "entry_ok front cap k evs so \<longleftrightarrow>
     state_cnt so = cnt (unsolicited_of k) evs \<and> (\<forall>st. so = Some st \<longrightarrow> \<not> is_idle st) \<and>
     (\<forall>i. i < length evs \<and> transaction_of k (evs ! i) \<longleftrightarrow> state_seq so = Some (front + i)) \<and>
     (\<forall>sq. state_seq so = Some sq \<longrightarrow> front \<le> sq) \<and> cnt (plain_output k) evs \<le> cap"

abbreviation events_of :: "'p event_queue \<Rightarrow> 'p session_event list" where
  "events_of q \<equiv> map event (queue q)"

definition queue_ok :: "'p event_queue \<Rightarrow> bool" where
  "queue_ok q \<longleftrightarrow> front_seq q + length (queue q) = next_seq q \<and> 0 < max_unsolicited q \<and>
     (queue_closed q \<longrightarrow> queue q = []) \<and>
     (\<forall>k. entry_ok (front_seq q) (max_unsolicited q) k (events_of q) (sessions q k))"

lemma cnt_simps [simp]:
  "cnt P [] = 0" "cnt P (x # xs) = (if P x then 1 else 0) + cnt P xs" "cnt P (xs @ ys) = cnt P xs + cnt P ys"
  by (simp_all add: cnt_def)

lemma cnt_mono: "(\<And>x. P x \<Longrightarrow> Q x) \<Longrightarrow> cnt P xs \<le> cnt Q xs"
  by (induction xs) (auto intro: le_SucI)

lemma cnt_update: "i < length xs \<Longrightarrow> P x = P (xs ! i) \<Longrightarrow> cnt P (xs[i := x]) = cnt P xs"
  by (induction xs arbitrary: i) (auto split: nat.splits)

lemma event_classes:
  "transaction_of k e \<Longrightarrow> unsolicited_of k e" "plain_output k e \<Longrightarrow> unsolicited_of k e"
  by (cases e; simp add: unsolicited_of_def)+

lemma entry_unsolicited_pos:
  assumes "entry_ok front cap k evs so" and "i < length evs" and "unsolicited_of k (evs ! i)"
  shows "\<exists>st. so = Some st \<and> 0 < unsolicited st"
proof -
  have "0 < cnt (unsolicited_of k) evs" using assms(2,3) by (auto simp: cnt_def filter_empty_conv)
  with assms(1) show ?thesis by (auto simp: entry_ok_def state_cnt_def split: option.splits)
qed

subsection \<open>One more event\<close>

lemma entry_other:
  assumes "entry_ok front cap k evs so" and "\<not> unsolicited_of k e"
  shows "entry_ok front cap k (evs @ [e]) so"
proof -
  have "\<not> transaction_of k e" "\<not> plain_output k e" using assms(2) event_classes by blast+
  with assms show ?thesis by (auto simp: entry_ok_def nth_append less_Suc_eq)
qed

lemma entry_transaction:
  assumes "entry_ok front cap k evs so" and "state_seq so = None" and "transaction_of k e"
    and "unsolicited st' = state_cnt so + 1" and "transaction_seq st' = Some (front + length evs)"
  shows "entry_ok front cap k (evs @ [e]) (Some st')"
proof -
  have "unsolicited_of k e" "\<not> plain_output k e" using assms(3) event_classes by (blast, cases e) auto
  moreover have "\<not> (i < length evs \<and> transaction_of k (evs ! i))" for i using assms(1,2) by (simp add: entry_ok_def)
  ultimately show ?thesis using assms
    by (auto simp: entry_ok_def nth_append less_Suc_eq state_cnt_def state_seq_def is_idle_def)
qed

lemma entry_output:
  assumes "entry_ok front cap k evs so" and "unsolicited_of k e" and "\<not> transaction_of k e"
    and "plain_output k e \<Longrightarrow> state_cnt so < cap"
    and "unsolicited st' = state_cnt so + 1" and "transaction_seq st' = state_seq so"
  shows "entry_ok front cap k (evs @ [e]) (Some st')"
proof -
  have "cnt (plain_output k) evs \<le> cnt (unsolicited_of k) evs" by (rule cnt_mono) (rule event_classes)
  then have "cnt (plain_output k) (evs @ [e]) \<le> cap" using assms(1,4) by (auto simp: entry_ok_def)
  with assms show ?thesis
    by (auto simp: entry_ok_def nth_append less_Suc_eq state_cnt_def state_seq_def [of "Some st'"] is_idle_def)
qed

lemma entry_dropped_lines:
  assumes "entry_ok front cap k evs (Some st)" and "0 < unsolicited st"
  shows "entry_ok front cap k evs (Some (st\<lparr>dropped_lines := n\<rparr>))"
  using assms by (simp add: entry_ok_def state_cnt_def state_seq_def is_idle_def)

lemma entry_coalesce:
  assumes "entry_ok front cap j evs so" and "i < length evs" and "evs ! i = TransactionStateChanged k b'"
  shows "entry_ok front cap j (evs[i := TransactionStateChanged k b]) so"
proof -
  have "cnt (unsolicited_of j) (evs[i := TransactionStateChanged k b]) = cnt (unsolicited_of j) evs"
    "cnt (plain_output j) (evs[i := TransactionStateChanged k b]) = cnt (plain_output j) evs"
    using assms(2,3) by (intro cnt_update; simp add: unsolicited_of_def)+
  moreover have "transaction_of j (evs[i := TransactionStateChanged k b] ! n) = transaction_of j (evs ! n)" for n
    using assms(2,3) by (cases "n = i") simp_all
  ultimately show ?thesis using assms(1) by (simp add: entry_ok_def)
qed

subsection \<open>One event less\<close>

lemma entry_pop_other:
  assumes "entry_ok front cap k (e # evs) so" and "\<not> unsolicited_of k e"
  shows "entry_ok (Suc front) cap k evs so"
proof -
  have no: "\<not> transaction_of k e" "\<not> plain_output k e" using assms(2) event_classes by blast+
  have seq: "i < length (e # evs) \<and> transaction_of k ((e # evs) ! i) \<longleftrightarrow> state_seq so = Some (front + i)" for i
    using assms(1) unfolding entry_ok_def by blast
  have "state_seq so \<noteq> Some front" using seq [of 0] no by simp
  moreover have "front \<le> sq" if "state_seq so = Some sq" for sq using assms(1) that unfolding entry_ok_def by blast
  ultimately have "front < sq" if "state_seq so = Some sq" for sq using that by (metis le_neq_implies_less)
  then have "\<forall>sq. state_seq so = Some sq \<longrightarrow> Suc front \<le> sq" by (simp add: Suc_le_eq)
  moreover have "i < length evs \<and> transaction_of k (evs ! i) \<longleftrightarrow> state_seq so = Some (Suc front + i)" for i
    using seq [of "Suc i"] by simp
  moreover have "state_cnt so = cnt (unsolicited_of k) evs" "\<forall>st. so = Some st \<longrightarrow> \<not> is_idle st"
    "cnt (plain_output k) evs \<le> cap" using assms no by (simp_all add: entry_ok_def)
  ultimately show ?thesis unfolding entry_ok_def by blast
qed

lemma entry_pop_own:
  assumes "entry_ok front cap k (e # evs) (Some st)" and "unsolicited_of k e"
  defines "st' \<equiv> st\<lparr>unsolicited := unsolicited st - 1,
    transaction_seq := (if transaction_seq st = Some front then None else transaction_seq st)\<rparr>"
  shows "entry_ok (Suc front) cap k evs (if is_idle st' then None else Some st')"
proof -
  have seq: "i < length (e # evs) \<and> transaction_of k ((e # evs) ! i) \<longleftrightarrow> transaction_seq st = Some (front + i)" for i
    using assms(1) by (simp add: entry_ok_def state_seq_def)
  have low: "front \<le> sq" if "transaction_seq st = Some sq" for sq using assms(1) that by (simp add: entry_ok_def state_seq_def)
  have "i < length evs \<and> transaction_of k (evs ! i) \<longleftrightarrow> transaction_seq st' = Some (Suc front + i)" for i
    using seq [of "Suc i"] by (auto simp: st'_def)
  moreover have "Suc front \<le> sq" if "transaction_seq st' = Some sq" for sq
    using that low by (auto simp: st'_def Suc_le_eq less_le split: if_splits)
  moreover have "unsolicited st' = cnt (unsolicited_of k) evs" using assms(1,2) by (simp add: st'_def entry_ok_def state_cnt_def)
  moreover have "cnt (plain_output k) evs \<le> cap" using assms(1) by (simp add: entry_ok_def split: if_splits)
  ultimately show ?thesis by (auto simp: entry_ok_def state_cnt_def state_seq_def is_idle_def)
qed

subsection \<open>The queue\<close>

lemma queue_okD:
  assumes "queue_ok q"
  shows "next_seq q = front_seq q + length (queue q)" "0 < max_unsolicited q"
    "entry_ok (front_seq q) (max_unsolicited q) k (events_of q) (sessions q k)"
  using assms by (simp_all add: queue_ok_def)

lemma queue_ok_new: "0 < cap \<Longrightarrow> queue_ok (event_channel cap)"
  by (simp add: queue_ok_def event_channel_def entry_ok_def state_cnt_def state_seq_def)

lemma queued_transaction_slot_iff:
  assumes "entry_ok (front_seq q) cap k (events_of q) (sessions q k)"
  shows "queued_transaction_slot q k = Some i \<longleftrightarrow> i < length (queue q) \<and> transaction_of k (event (queue q ! i))"
proof -
  have "i < length (events_of q) \<and> transaction_of k (events_of q ! i) \<longleftrightarrow> state_seq (sessions q k) = Some (front_seq q + i)"
    using assms unfolding entry_ok_def by blast
  then have "i < length (queue q) \<and> transaction_of k (event (queue q ! i)) \<longleftrightarrow> state_seq (sessions q k) = Some (front_seq q + i)"
    by auto
  moreover have "\<forall>sq. state_seq (sessions q k) = Some sq \<longrightarrow> front_seq q \<le> sq" using assms by (simp add: entry_ok_def)
  ultimately show ?thesis
    by (auto simp: queued_transaction_slot_def state_seq_def split: option.splits)
qed

text \<open>Putting an event the admission let through at the end.\<close>

lemma enqueue_solicited:
  "\<not> is_unsolicited ev \<Longrightarrow> enqueue ev sl w q =
     (\<lparr>wake = w, kept = True\<rparr>, q\<lparr>queue := queue q @ [\<lparr>event = ev, slot = sl\<rparr>], next_seq := next_seq q + 1\<rparr>)"
  by (simp add: enqueue_def stamp_unsolicited_def)

definition stamped :: "'p event_queue \<Rightarrow> session_id \<Rightarrow> session_queue_state" where
  "stamped q k = (let st = (case sessions q k of None \<Rightarrow> state_default | Some st \<Rightarrow> st)
     in st\<lparr>unsolicited := unsolicited st + 1\<rparr>)"

lemma enqueue_transaction:
  "enqueue (TransactionStateChanged k b) sl w q =
     (\<lparr>wake = w, kept = True\<rparr>,
      q\<lparr>sessions := (sessions q)(k \<mapsto> (stamped q k)\<lparr>transaction_seq := Some (next_seq q)\<rparr>),
        queue := queue q @ [\<lparr>event = TransactionStateChanged k b, slot = sl\<rparr>], next_seq := next_seq q + 1\<rparr>)"
  by (simp add: enqueue_def stamp_unsolicited_def stamped_def Let_def)

lemma enqueue_output:
  "enqueue (ServerOutput k lines d f n) sl w q =
     (\<lparr>wake = w, kept = True\<rparr>,
      q\<lparr>sessions := (sessions q)(k \<mapsto> (stamped q k)\<lparr>dropped_lines := 0\<rparr>),
        queue := queue q @ [\<lparr>event = ServerOutput k lines (sat_add_u32 d (dropped_lines (stamped q k))) f n, slot = sl\<rparr>],
        next_seq := next_seq q + 1\<rparr>)"
  by (simp add: enqueue_def stamp_unsolicited_def stamped_def Let_def)

lemma stamped_fields:
  "unsolicited (stamped q k) = state_cnt (sessions q k) + 1" "transaction_seq (stamped q k) = state_seq (sessions q k)"
  "dropped_lines (stamped q k) = pending_dropped_lines q k"
  by (simp_all add: stamped_def state_cnt_def state_seq_def pending_dropped_lines_def state_default_def Let_def split: option.splits)

lemma queue_ok_push_solicited:
  assumes "queue_ok q" and "\<not> queue_closed q" and "\<not> is_unsolicited ev"
  shows "queue_ok (snd (enqueue ev sl w q))"
  using assms by (simp add: enqueue_solicited queue_ok_def entry_other unsolicited_of_def)

lemma queue_ok_push_transaction:
  assumes "queue_ok q" and "\<not> queue_closed q" and "state_seq (sessions q k) = None"
  shows "queue_ok (snd (enqueue (TransactionStateChanged k b) sl w q))"
proof -
  let ?q = "snd (enqueue (TransactionStateChanged k b) sl w q)"
  have "entry_ok (front_seq q) (max_unsolicited q) j (events_of q @ [TransactionStateChanged k b]) (sessions ?q j)" for j
  proof (cases "j = k")
    case True
    with entry_transaction [OF queue_okD(3) [OF assms(1)] assms(3)] show ?thesis
      by (simp add: enqueue_transaction stamped_fields queue_okD(1) [OF assms(1)])
  next
    case False
    with entry_other [OF queue_okD(3) [OF assms(1), of j]] show ?thesis
      by (simp add: enqueue_transaction unsolicited_of_def)
  qed
  then show ?thesis using assms by (simp add: queue_ok_def enqueue_transaction)
qed

lemma queue_ok_push_output:
  assumes "queue_ok q" and "\<not> queue_closed q" and "f = None \<Longrightarrow> state_cnt (sessions q k) < max_unsolicited q"
  shows "queue_ok (snd (enqueue (ServerOutput k lines d f n) sl w q))"
proof -
  let ?q = "snd (enqueue (ServerOutput k lines d f n) sl w q)"
  let ?e = "ServerOutput k lines (sat_add_u32 d (dropped_lines (stamped q k))) f n"
  have "entry_ok (front_seq q) (max_unsolicited q) j (events_of q @ [?e]) (sessions ?q j)" for j
  proof (cases "j = k")
    case True
    with entry_output [OF queue_okD(3) [OF assms(1)], of k ?e "(stamped q k)\<lparr>dropped_lines := 0\<rparr>"] assms(3) show ?thesis
      by (simp add: enqueue_output stamped_fields unsolicited_of_def)
  next
    case False
    with entry_other [OF queue_okD(3) [OF assms(1), of j], of ?e] show ?thesis
      by (simp add: enqueue_output unsolicited_of_def)
  qed
  then show ?thesis using assms by (simp add: queue_ok_def enqueue_output)
qed

text \<open>Events a session already has many of: its lines are counted, never forgotten.\<close>

definition count_lost :: "session_id \<Rightarrow> ustr list \<Rightarrow> session_queue_state \<Rightarrow> 'p event_queue \<Rightarrow> 'p event_queue" where
  "count_lost k lines st q = q\<lparr>sessions := (sessions q)(k \<mapsto>
     st\<lparr>dropped_lines := sat_add_u32 (dropped_lines st) (if length lines \<le> u32_max then length lines else u32_max)\<rparr>)\<rparr>"

lemma queue_ok_count_lost:
  assumes "queue_ok q" and "sessions q k = Some st" and "0 < unsolicited st"
  shows "queue_ok (count_lost k lines st q)"
proof -
  have "entry_ok (front_seq q) (max_unsolicited q) j (events_of q) (sessions (count_lost k lines st q) j)" for j
    using queue_okD(3) [OF assms(1), of j] assms(2,3) by (auto simp: count_lost_def entry_dropped_lines)
  then show ?thesis using assms(1) by (simp add: queue_ok_def count_lost_def)
qed

text \<open>The four ways a push can go.\<close>

lemma push_cases:
  assumes "queue_ok q"
  obtains (closed) "queue_closed q" "push ev sl q = (DISCARDED, q)"
  | (solicited) "\<not> queue_closed q" "\<not> is_unsolicited ev" "push ev sl q = enqueue ev sl (queue q = []) q"
  | (transaction) k b where "\<not> queue_closed q" "ev = TransactionStateChanged k b" "state_seq (sessions q k) = None"
      "push ev sl q = enqueue ev sl (queue q = []) q"
  | (coalesced) k b b' i where "\<not> queue_closed q" "ev = TransactionStateChanged k b" "i < length (queue q)"
      "event (queue q ! i) = TransactionStateChanged k b'"
      "push ev sl q = (DISCARDED, q\<lparr>queue := (queue q)[i := (queue q ! i)\<lparr>event := TransactionStateChanged k b\<rparr>]\<rparr>)"
  | (printed) k lines d f n where "\<not> queue_closed q" "ev = ServerOutput k lines d f n"
      "state_cnt (sessions q k) < max_unsolicited q" "push ev sl q = enqueue ev sl (queue q = []) q"
  | (refused) k lines d n st where "\<not> queue_closed q" "ev = ServerOutput k lines d None n" "sessions q k = Some st"
      "max_unsolicited q \<le> unsolicited st"
      "push ev sl q = (DISCARDED, (count_lost k lines st q)\<lparr>dropped_unsolicited := dropped_unsolicited q + 1\<rparr>)"
  | (failure) k lines d e n st where "\<not> queue_closed q" "ev = ServerOutput k lines d (Some e) n" "sessions q k = Some st"
      "max_unsolicited q \<le> unsolicited st"
      "push ev sl q = enqueue (ServerOutput k [] d (Some e) n) sl (queue q = []) (count_lost k lines st q)"
proof (cases "queue_closed q")
  case True
  then show thesis by (intro closed) (simp_all add: push_def)
next
  case live: False
  show thesis
  proof (cases ev)
    case (TransactionStateChanged k b)
    note entry = queue_okD(3) [OF assms, of k]
    show thesis
    proof (cases "queued_transaction_slot q k")
      case None
      then have "state_seq (sessions q k) = None"
        using entry by (auto simp: queued_transaction_slot_def state_seq_def entry_ok_def split: option.splits if_splits)
      then show thesis using live TransactionStateChanged None
        by (intro transaction) (simp_all add: push_def admit_unsolicited_def)
    next
      case (Some i)
      then have i: "i < length (queue q)" "transaction_of k (event (queue q ! i))"
        using queued_transaction_slot_iff [OF entry] by simp_all
      then obtain b' where "event (queue q ! i) = TransactionStateChanged k b'" by (cases "event (queue q ! i)") auto
      then show thesis using live TransactionStateChanged Some i(1)
        by (intro coalesced) (simp_all add: push_def admit_unsolicited_def nth_opt_def)
    qed
  next
    case (ServerOutput k lines d f n)
    show thesis
    proof (cases "state_cnt (sessions q k) < max_unsolicited q")
      case True
      then have "push ev sl q = enqueue ev sl (queue q = []) q" using live ServerOutput
        by (auto simp: push_def admit_unsolicited_def state_cnt_def split: option.splits)
      then show thesis using printed live ServerOutput True by blast
    next
      case False
      then obtain st where st: "sessions q k = Some st" "max_unsolicited q \<le> unsolicited st"
        using queue_okD(2) [OF assms] by (auto simp: state_cnt_def split: option.splits)
      show thesis
      proof (cases f)
        case None
        then show thesis using live ServerOutput st
          by (intro refused) (simp_all add: push_def admit_unsolicited_def count_lost_def Let_def)
      next
        case (Some e)
        then show thesis using live ServerOutput st
          by (intro failure) (simp_all add: push_def admit_unsolicited_def count_lost_def Let_def)
      qed
    qed
  qed (use live in \<open>auto intro!: solicited simp: push_def\<close>)
qed

end
