(* ===== verification/Event_Queue_Correct.thy ===== *)
theory Event_Queue_Correct
  imports Event_Queue
begin

text \<open>
  The event queue under arbitrary interleavings of its producers and its consumer: what was
  produced, what was delivered and what is waiting always add up.
\<close>

section \<open>Pushes and pops keep the invariant\<close>

lemma queue_ok_push:
  assumes "queue_ok q"
  shows "queue_ok (snd (push ev sl q))"
  using assms
proof (cases rule: push_cases [of q ev sl])
  case (solicited)
  then show ?thesis using assms queue_ok_push_solicited by simp
next
  case (transaction k b)
  then show ?thesis using assms queue_ok_push_transaction by simp
next
  case (coalesced k b b' i)
  have "entry_ok (front_seq q) (max_unsolicited q) j ((events_of q)[i := TransactionStateChanged k b]) (sessions q j)" for j
    using entry_coalesce [OF queue_okD(3) [OF assms], of i k b' j b] coalesced(3,4) by simp
  then show ?thesis using assms coalesced(1,5) by (simp add: queue_ok_def map_update)
next
  case (printed k lines d f n)
  then show ?thesis using assms queue_ok_push_output by simp
next
  case (refused k lines d n st)
  have "queue_ok (count_lost k lines st q)"
    using assms refused(3,4) queue_okD(2) [OF assms] by (intro queue_ok_count_lost) simp_all
  then show ?thesis using refused(5) by (simp add: queue_ok_def)
next
  case (failure k lines d e n st)
  have "queue_ok (count_lost k lines st q)"
    using assms failure(3,4) queue_okD(2) [OF assms] by (intro queue_ok_count_lost) simp_all
  moreover have "\<not> queue_closed (count_lost k lines st q)" using failure(1) by (simp add: count_lost_def)
  ultimately have "queue_ok (snd (enqueue (ServerOutput k [] d (Some e) n) sl (queue q = []) (count_lost k lines st q)))"
    by (rule queue_ok_push_output) simp
  then show ?thesis using failure(5) by simp
qed (use assms in simp)

lemma pop_queue:
  assumes "queue q = qd # rest"
  shows "\<exists>q'. pop q = (Some (event qd), q') \<and> queue q' = rest \<and> front_seq q' = Suc (front_seq q) \<and> next_seq q' = next_seq q \<and>
    queue_closed q' = queue_closed q \<and> max_unsolicited q' = max_unsolicited q \<and>
    outstanding q' = (case slot qd of None \<Rightarrow> outstanding q | Some i \<Rightarrow> release_slot i (outstanding q)) \<and>
    sessions q' = (if is_unsolicited (event qd) then (case sessions q (event_session (event qd)) of None \<Rightarrow> sessions q
      | Some st \<Rightarrow> let st' = st\<lparr>unsolicited := unsolicited st - 1,
            transaction_seq := (if transaction_seq st = Some (front_seq q) then None else transaction_seq st)\<rparr>
          in (sessions q)(event_session (event qd) := (if is_idle st' then None else Some st'))) else sessions q)"
proof -
  have upd: "(if transaction_seq st = Some m then st\<lparr>unsolicited := n, transaction_seq := None\<rparr> else st\<lparr>unsolicited := n\<rparr>) =
      st\<lparr>unsolicited := n, transaction_seq := (if transaction_seq st = Some m then None else transaction_seq st)\<rparr>" for st m n
    by (cases st) simp
  show ?thesis using assms
    by (auto simp: pop_def release_unsolicited_def Let_def upd split: option.splits)
qed

lemma queue_ok_pop:
  assumes "queue_ok q"
  shows "queue_ok (snd (pop q))"
proof (cases "queue q")
  case Nil
  then show ?thesis using assms by (simp add: pop_def)
next
  case (Cons qd rest)
  obtain q' where q': "snd (pop q) = q'" "queue q' = rest" "front_seq q' = Suc (front_seq q)" "next_seq q' = next_seq q"
    "queue_closed q' = queue_closed q" "max_unsolicited q' = max_unsolicited q"
    and ss: "sessions q' = (if is_unsolicited (event qd) then (case sessions q (event_session (event qd)) of None \<Rightarrow> sessions q
      | Some st \<Rightarrow> let st' = st\<lparr>unsolicited := unsolicited st - 1,
            transaction_seq := (if transaction_seq st = Some (front_seq q) then None else transaction_seq st)\<rparr>
          in (sessions q)(event_session (event qd) := (if is_idle st' then None else Some st'))) else sessions q)"
    using pop_queue [OF Cons] by fastforce
  have entry: "entry_ok (front_seq q) (max_unsolicited q) k (event qd # map event rest) (sessions q k)" for k
    using queue_okD(3) [OF assms, of k] Cons by simp
  have "entry_ok (Suc (front_seq q)) (max_unsolicited q) k (map event rest) (sessions q' k)" for k
  proof (cases "unsolicited_of k (event qd)")
    case False
    then have "sessions q' k = sessions q k"
      using ss by (auto simp: unsolicited_of_def Let_def split: option.splits if_splits)
    with entry_pop_other [OF entry False] show ?thesis by simp
  next
    case True
    then obtain st where st: "sessions q k = Some st" using entry_unsolicited_pos [OF entry, of 0 k] by auto
    let ?st = "st\<lparr>unsolicited := unsolicited st - 1,
        transaction_seq := (if transaction_seq st = Some (front_seq q) then None else transaction_seq st)\<rparr>"
    have "sessions q' k = (if is_idle ?st then None else Some ?st)"
      using True ss st by (auto simp: unsolicited_of_def Let_def)
    with entry_pop_own [OF _ True, of "front_seq q" "max_unsolicited q" "map event rest" st] entry [of k] st
    show ?thesis by (simp only:)
  qed
  then show ?thesis using assms Cons q' by (auto simp: queue_ok_def)
qed

section \<open>Runs\<close>

text \<open>
  A run of the queue, with what was produced and delivered so far and, per slot counter, how
  many accepted requests are still unanswered.  Requests are accepted against a limit of at
  most \<open>quota\<close>, a reply answers an accepted request, and the worker emits output that has lost
  nothing yet.
\<close>

record 'p log =
  produced :: "'p session_event list"
  delivered :: "'p session_event list"
  unanswered :: "slots_id \<Rightarrow> nat"

fun fresh_event :: "'p session_event \<Rightarrow> bool" where
  "fresh_event (ServerOutput k lines d f n) = (d = 0)"
| "fresh_event _ = True"

inductive runs :: "(slots_id \<Rightarrow> nat) \<Rightarrow> 'p log \<Rightarrow> 'p event_queue \<Rightarrow> bool" for quota where
  runs_new: "0 < cap \<Longrightarrow> runs quota \<lparr>produced = [], delivered = [], unanswered = (\<lambda>_. 0)\<rparr> (event_channel cap)"
| runs_submit: "runs quota l q \<Longrightarrow> limit \<le> quota i \<Longrightarrow> reserve_slot limit i q = Inr q' \<Longrightarrow>
    runs quota (l\<lparr>unanswered := (unanswered l)(i := unanswered l i + 1)\<rparr>) q'"
| runs_reply: "runs quota l q \<Longrightarrow> is_reply ev \<Longrightarrow> 0 < unanswered l i \<Longrightarrow>
    runs quota (l\<lparr>produced := produced l @ [ev], unanswered := (unanswered l)(i := unanswered l i - 1)\<rparr>)
      (snd (emit_reply True ev i q))"
| runs_emit: "runs quota l q \<Longrightarrow> \<not> is_reply ev \<Longrightarrow> fresh_event ev \<Longrightarrow>
    runs quota (l\<lparr>produced := produced l @ [ev]\<rparr>) (snd (emit True ev q))"
| runs_next: "runs quota l q \<Longrightarrow> pop q = (Some ev, q') \<Longrightarrow> runs quota (l\<lparr>delivered := delivered l @ [ev]\<rparr>) q'"

lemma push_closed:
  assumes "queue_ok q"
  shows "queue_closed (snd (push ev sl q)) = queue_closed q"
  using assms
proof (cases rule: push_cases [of q ev sl])
  case (solicited)
  then show ?thesis by (simp add: enqueue_solicited)
next
  case (failure k lines d e n st)
  then show ?thesis by (simp add: enqueue_output count_lost_def)
qed (simp_all add: enqueue_transaction enqueue_output count_lost_def)

lemma pop_SomeD:
  assumes "pop q = (Some ev, q')"
  obtains qd rest where "queue q = qd # rest" "ev = event qd"
proof (cases "queue q")
  case (Cons qd rest)
  with pop_queue [OF Cons] assms show thesis by (intro that [of qd rest]) auto
qed (use assms in \<open>simp add: pop_def\<close>)

lemma push_reply:
  assumes "\<not> queue_closed q" and "is_reply ev"
  shows "push ev sl q = (\<lparr>wake = (queue q = []), kept = True\<rparr>,
    q\<lparr>queue := queue q @ [\<lparr>event = ev, slot = sl\<rparr>], next_seq := next_seq q + 1\<rparr>)"
  using assms reply_not_unsolicited [OF assms(2)] by (simp add: push_def enqueue_solicited)

lemma runs_open: "runs quota l q \<Longrightarrow> queue_ok q \<and> \<not> queue_closed q"
proof (induction rule: runs.induct)
  case (runs_new cap)
  then show ?case using queue_ok_new by (simp add: event_channel_def)
next
  case (runs_submit l q limit i q')
  then show ?case by (auto simp: reserve_slot_def queue_ok_def split: if_splits)
next
  case (runs_reply l q ev i)
  then have "queue_ok (snd (push ev (Some i) q))" using queue_ok_push by blast
  with runs_reply show ?case by (simp add: emit_reply_def push_reply)
next
  case (runs_emit l q ev)
  then show ?case using queue_ok_push [of q ev None] push_closed [of q ev None]
    by (auto simp: emit_def split: prod.splits)
next
  case (runs_next l q ev q')
  then obtain qd rest where c: "queue q = qd # rest" by (blast elim: pop_SomeD)
  have "queue_ok q'" using queue_ok_pop [of q] runs_next by simp
  moreover have "queue_closed q' = queue_closed q" using pop_queue [OF c] runs_next(2) by auto
  ultimately show ?case using runs_next by simp
qed

section \<open>Replies\<close>

abbreviation solicited_events :: "'p session_event list \<Rightarrow> 'p session_event list" where
  "solicited_events evs \<equiv> filter (\<lambda>e. \<not> is_unsolicited e) evs"

lemma filter_update_same:
  "i < length xs \<Longrightarrow> \<not> P (xs ! i) \<Longrightarrow> \<not> P x \<Longrightarrow> filter P (xs[i := x]) = filter P xs"
proof (induction xs arbitrary: i)
  case (Cons y ys)
  then show ?case by (cases i) auto
qed simp

lemma push_events:
  assumes "queue_ok q" and "\<not> queue_closed q"
  shows "solicited_events (events_of (snd (push ev sl q))) =
    solicited_events (events_of q) @ (if is_unsolicited ev then [] else [ev])"
  using assms(1)
proof (cases rule: push_cases [of q ev sl])
  case (coalesced k b b' i)
  then show ?thesis by (simp add: map_update filter_update_same)
next
  case (failure k lines d e n st)
  then show ?thesis by (simp add: enqueue_output count_lost_def)
qed (use assms in \<open>simp_all add: enqueue_solicited enqueue_transaction enqueue_output count_lost_def\<close>)

lemma pop_events: "pop q = (Some ev, q') \<Longrightarrow> events_of q = ev # events_of q'"
proof -
  assume p: "pop q = (Some ev, q')"
  then obtain qd rest where c: "queue q = qd # rest" "ev = event qd" by (rule pop_SomeD)
  with pop_queue [OF c(1)] p show ?thesis by auto
qed

lemma runs_solicited:
  "runs quota l q \<Longrightarrow> solicited_events (delivered l @ events_of q) = solicited_events (produced l)"
proof (induction rule: runs.induct)
  case (runs_submit l q limit i q')
  then show ?case by (auto simp: reserve_slot_def split: if_splits)
next
  case (runs_reply l q ev i)
  then show ?case using push_events [of q ev "Some i"] runs_open [OF runs_reply(1)]
    by (simp add: emit_reply_def push_reply reply_not_unsolicited)
next
  case (runs_emit l q ev)
  have "events_of (snd (emit True ev q)) = events_of (snd (push ev None q))" by (simp add: emit_def split: prod.splits)
  with runs_emit push_events [of q ev None] runs_open [OF runs_emit(1)] show ?case by simp
next
  case (runs_next l q ev q')
  then show ?case using pop_events [OF runs_next(2)] by simp
qed (simp add: event_channel_def)

section \<open>Slots\<close>

definition held :: "'p event_queue \<Rightarrow> slots_id \<Rightarrow> nat" where
  "held q i = cnt (\<lambda>qd. slot qd = Some i) (queue q)"

lemma cnt_slot_update:
  "j < length xs \<Longrightarrow> cnt (\<lambda>qd. slot qd = Some i) (xs[j := (xs ! j)\<lparr>event := e\<rparr>]) = cnt (\<lambda>qd. slot qd = Some i) xs"
  by (rule cnt_update) simp_all

lemma push_slots:
  assumes "queue_ok q"
  shows "outstanding (snd (push ev None q)) = outstanding q \<and> held (snd (push ev None q)) i = held q i"
  using assms
proof (cases rule: push_cases [of q ev None])
  case (coalesced k b b' j)
  then show ?thesis by (simp add: held_def cnt_slot_update)
next
  case (failure k lines d e n st)
  then show ?thesis by (simp add: enqueue_output count_lost_def held_def)
qed (simp_all add: enqueue_solicited enqueue_transaction enqueue_output count_lost_def held_def)

lemma pop_slots:
  assumes "pop q = (Some ev, q')" and "\<And>j. held q j \<le> outstanding q j"
  shows "outstanding q' i - held q' i = outstanding q i - held q i \<and> held q' i \<le> outstanding q' i \<and>
    outstanding q' i \<le> outstanding q i"
proof -
  obtain qd rest where c: "queue q = qd # rest" using assms(1) by (rule pop_SomeD)
  have o: "outstanding q' = (case slot qd of None \<Rightarrow> outstanding q | Some i \<Rightarrow> release_slot i (outstanding q))"
    and r: "queue q' = rest" using pop_queue [OF c] assms(1) by auto
  have "held q i = (if slot qd = Some i then 1 else 0) + held q' i" by (simp add: held_def c r)
  with assms(2) [of i] show ?thesis by (cases "slot qd") (auto simp: o release_slot_def)
qed

lemma runs_slots: "runs quota l q \<Longrightarrow> outstanding q i = held q i + unanswered l i \<and> outstanding q i \<le> quota i"
proof (induction arbitrary: i rule: runs.induct)
  case (runs_new cap)
  then show ?case by (simp add: event_channel_def held_def)
next
  case (runs_submit l q limit j q')
  then have q': "q' = q\<lparr>outstanding := (outstanding q)(j := outstanding q j + 1)\<rparr>" "outstanding q j < quota j"
    by (auto simp: reserve_slot_def split: if_splits)
  with runs_submit(4) [of i] show ?case by (auto simp: held_def)
next
  case (runs_reply l q ev j)
  then show ?case using runs_reply(4) [of i] runs_open [OF runs_reply(1)]
    by (auto simp: emit_reply_def push_reply held_def)
next
  case (runs_emit l q ev)
  have "snd (emit True ev q) = snd (push ev None q)" by (simp add: emit_def split: prod.splits)
  with runs_emit(4) [of i] push_slots [of q ev i] runs_open [OF runs_emit(1)] show ?case by simp
next
  case (runs_next l q ev q')
  have "\<And>j. held q j \<le> outstanding q j" using runs_next(3) by simp
  from pop_slots [OF runs_next(2) this, of i] runs_next(3) [of i] show ?case by auto
qed

section \<open>Lines\<close>

fun lines_of :: "session_id \<Rightarrow> 'p session_event \<Rightarrow> nat" where
  "lines_of k (ServerOutput s lines d f n) = (if s = k then length lines else 0)"
| "lines_of k _ = 0"

text \<open>What a delivered event accounts for: the lines it carries and those it reports as dropped.\<close>

fun line_weight :: "session_id \<Rightarrow> 'p session_event \<Rightarrow> nat" where
  "line_weight k (ServerOutput s lines d f n) = (if s = k then length lines + d else 0)"
| "line_weight k _ = 0"

definition owed :: "session_id \<Rightarrow> 'p event_queue \<Rightarrow> nat" where
  "owed k q = pending_dropped_lines q k + sum_list (map (line_weight k) (events_of q))"

lemma solicited_weight: "\<not> is_unsolicited e \<Longrightarrow> line_weight k e = 0 \<and> lines_of k e = 0"
  by (cases e) auto

lemma pending_update:
  "pending_dropped_lines (q\<lparr>sessions := (sessions q)(k \<mapsto> st)\<rparr>) j = (if j = k then dropped_lines st else pending_dropped_lines q j)"
  "pending_dropped_lines (q\<lparr>queue := a\<rparr>) j = pending_dropped_lines q j"
  "pending_dropped_lines (q\<lparr>next_seq := b\<rparr>) j = pending_dropped_lines q j"
  "pending_dropped_lines (q\<lparr>dropped_unsolicited := b\<rparr>) j = pending_dropped_lines q j"
  by (simp_all add: pending_dropped_lines_def)

lemma sum_weight_update:
  "i < length evs \<Longrightarrow> evs ! i = TransactionStateChanged k b' \<Longrightarrow>
   sum_list (map (line_weight j) (evs[i := TransactionStateChanged k b])) = sum_list (map (line_weight j) evs)"
  by (simp add: map_update list_update_same_conv [THEN iffD2])

lemma owed_enqueue_output:
  assumes "owed j q + (if k = j then length lines else 0) \<le> u32_max"
  shows "owed j (snd (enqueue (ServerOutput k lines 0 f n) sl w q)) = owed j q + (if k = j then length lines else 0)"
  using assms
  by (auto simp: owed_def enqueue_output pending_dropped_lines_def stamped_fields sat_add_u32_def split: option.splits)

lemma owed_count_lost:
  assumes "sessions q k = Some st" and "owed j q + (if k = j then length lines else 0) \<le> u32_max"
  shows "owed j (count_lost k lines st q) = owed j q + (if k = j then length lines else 0)"
  using assms by (auto simp: owed_def count_lost_def pending_dropped_lines_def sat_add_u32_def)

lemma owed_push:
  assumes "queue_ok q" and "\<not> queue_closed q" and "fresh_event ev" and "owed j q + lines_of j ev \<le> u32_max"
  shows "owed j (snd (push ev sl q)) = owed j q + lines_of j ev"
  using assms(1)
proof (cases rule: push_cases [of q ev sl])
  case (solicited)
  then show ?thesis using solicited_weight [of ev j] by (simp add: enqueue_solicited owed_def pending_dropped_lines_def)
next
  case (transaction k b)
  then show ?thesis
    by (auto simp: enqueue_transaction owed_def pending_dropped_lines_def [of "q\<lparr>sessions := s, queue := a, next_seq := m\<rparr>" for s a m]
        stamped_fields) (simp_all add: pending_dropped_lines_def)
next
  case (coalesced k b b' i)
  have "events_of (snd (push ev sl q)) = (events_of q)[i := TransactionStateChanged k b]"
    using coalesced(5) by (simp add: map_update)
  then show ?thesis using coalesced sum_weight_update [of i "events_of q" k b' j b]
    by (simp add: owed_def pending_update)
next
  case (printed k lines d f n)
  then have "owed j q + (if k = j then length lines else 0) \<le> u32_max" "d = 0" using assms(3,4) by auto
  then show ?thesis using printed owed_enqueue_output [of j q k lines] by simp
next
  case (refused k lines d n st)
  have "owed j (snd (push ev sl q)) = owed j (count_lost k lines st q)" using refused(5) by (simp add: owed_def pending_update)
  with owed_count_lost [OF refused(3), of j lines] refused(2) assms(4) show ?thesis by simp
next
  case (failure k lines d e n st)
  have "owed j (count_lost k lines st q) = owed j q + lines_of j ev"
    using owed_count_lost [OF failure(3), of j lines] failure(2) assms(4) by simp
  moreover have "owed j (snd (enqueue (ServerOutput k [] 0 (Some e) n) sl (queue q = []) (count_lost k lines st q))) =
      owed j (count_lost k lines st q)"
    using owed_enqueue_output [of j "count_lost k lines st q" k "[]"] calculation assms(4) by simp
  ultimately show ?thesis using failure(2,5) assms(3) by simp
qed (use assms in simp)

lemma owed_pop:
  assumes "pop q = (Some ev, q')"
  shows "owed k q = line_weight k ev + owed k q'"
proof -
  obtain qd rest where c: "queue q = qd # rest" "ev = event qd" using assms by (rule pop_SomeD)
  have "pending_dropped_lines q' k = pending_dropped_lines q k"
    using pop_queue [OF c(1)] assms
    by (auto simp: pending_dropped_lines_def is_idle_def Let_def split: option.splits if_splits)
  with pop_events [OF assms] show ?thesis by (simp add: owed_def)
qed

lemma runs_lines:
  "runs quota l q \<Longrightarrow> sum_list (map (lines_of k) (produced l)) \<le> u32_max \<Longrightarrow>
   sum_list (map (line_weight k) (delivered l)) + owed k q = sum_list (map (lines_of k) (produced l))"
proof (induction rule: runs.induct)
  case (runs_submit l q limit i q')
  then show ?case by (auto simp: reserve_slot_def owed_def pending_dropped_lines_def split: if_splits)
next
  case (runs_reply l q ev i)
  have s: "\<not> is_unsolicited ev" using runs_reply(2) by (rule reply_not_unsolicited)
  then have "owed k (snd (emit_reply True ev i q)) = owed k q"
    using runs_open [OF runs_reply(1)] runs_reply(2) solicited_weight [OF s, of k]
    by (simp add: emit_reply_def push_reply owed_def pending_dropped_lines_def)
  with runs_reply solicited_weight [OF s, of k] show ?case by simp
next
  case (runs_emit l q ev)
  have "snd (emit True ev q) = snd (push ev None q)" by (simp add: emit_def split: prod.splits)
  with runs_emit owed_push [of q ev k None] runs_open [OF runs_emit(1)] show ?case by simp
next
  case (runs_next l q ev q')
  then show ?case using owed_pop [OF runs_next(2), of k] by simp
qed (simp add: event_channel_def owed_def pending_dropped_lines_def)


section \<open>Transaction states\<close>

fun transaction_values :: "session_id \<Rightarrow> 'p session_event list \<Rightarrow> bool list" where
  "transaction_values k [] = []"
| "transaction_values k (TransactionStateChanged s b # es) = (if s = k then b # transaction_values k es else transaction_values k es)"
| "transaction_values k (_ # es) = transaction_values k es"

text \<open>The newest state a list of events gives for a session, \<open>None\<close> when it gives none.\<close>

definition newest_state :: "session_id \<Rightarrow> 'p session_event list \<Rightarrow> bool option" where
  "newest_state k es = (case rev (transaction_values k es) of [] \<Rightarrow> None | b # _ \<Rightarrow> Some b)"

lemma transaction_values_append [simp]:
  "transaction_values k (xs @ ys) = transaction_values k xs @ transaction_values k ys"
  by (induction k xs rule: transaction_values.induct) simp_all

lemma transaction_values_none: "\<forall>e \<in> set es. \<not> transaction_of k e \<Longrightarrow> transaction_values k es = []"
  by (induction k es rule: transaction_values.induct) simp_all

lemma newest_state_snoc:
  "newest_state k (es @ [TransactionStateChanged s b]) = (if s = k then Some b else newest_state k es)"
  "\<not> transaction_of k e \<Longrightarrow> newest_state k (es @ [e]) = newest_state k es"
proof -
  show "newest_state k (es @ [TransactionStateChanged s b]) = (if s = k then Some b else newest_state k es)"
    by (simp add: newest_state_def)
  assume "\<not> transaction_of k e"
  then have "transaction_values k [e] = []" by (intro transaction_values_none) simp
  then show "newest_state k (es @ [e]) = newest_state k es" by (simp add: newest_state_def)
qed

lemma newest_state_update:
  assumes "i < length evs" and "evs ! i = TransactionStateChanged s b'"
    and "\<And>j. j < length evs \<Longrightarrow> transaction_of s (evs ! j) \<Longrightarrow> j = i"
  shows "newest_state k (xs @ evs[i := TransactionStateChanged s b]) = (if s = k then Some b else newest_state k (xs @ evs))"
proof -
  have "\<forall>e \<in> set (drop (Suc i) evs). \<not> transaction_of s e"
  proof
    fix e assume "e \<in> set (drop (Suc i) evs)"
    then obtain j where "j < length evs - Suc i" "e = evs ! (Suc i + j)" by (auto simp: in_set_conv_nth)
    then show "\<not> transaction_of s e" using assms(3) [of "Suc i + j"] by fastforce
  qed
  then have d: "transaction_values s (drop (Suc i) evs) = []" by (rule transaction_values_none)
  have u: "evs[i := TransactionStateChanged s b] = take i evs @ TransactionStateChanged s b # drop (Suc i) evs"
    using assms(1) by (rule upd_conv_take_nth_drop)
  have v: "evs = take i evs @ TransactionStateChanged s b' # drop (Suc i) evs"
    using id_take_nth_drop [OF assms(1)] assms(2) by simp
  have o: "s \<noteq> k \<Longrightarrow> transaction_values k (evs[i := TransactionStateChanged s b]) = transaction_values k evs"
    by (subst v) (simp add: u)
  show ?thesis
  proof (cases "s = k")
    case True
    with u d show ?thesis by (simp add: newest_state_def)
  next
    case False
    then show ?thesis by (simp add: newest_state_def o)
  qed
qed

lemma transaction_unique:
  assumes "queue_ok q" and "i < length (queue q)" and "transaction_of k (event (queue q ! i))"
    and "j < length (queue q)" and "transaction_of k (event (queue q ! j))"
  shows "j = i"
proof -
  have e: "entry_ok (front_seq q) (max_unsolicited q) k (events_of q) (sessions q k)" using queue_okD(3) [OF assms(1)] .
  have "state_seq (sessions q k) = Some (front_seq q + m)" if "m < length (queue q)" "transaction_of k (event (queue q ! m))" for m
    using e that by (auto simp: entry_ok_def)
  from this [OF assms(2,3)] this [OF assms(4,5)] show ?thesis by simp
qed

lemma newest_push:
  assumes "queue_ok q" and "\<not> queue_closed q"
  shows "newest_state k (xs @ events_of (snd (push ev sl q))) = newest_state k ((xs @ events_of q) @ [ev])"
  using assms(1)
proof (cases rule: push_cases [of q ev sl])
  case (solicited)
  then have "events_of (snd (push ev sl q)) = events_of q @ [ev]" by (simp add: enqueue_solicited)
  then show ?thesis by simp
next
  case (transaction s b)
  then have "events_of (snd (push ev sl q)) = events_of q @ [ev]" by (simp add: enqueue_transaction)
  then show ?thesis by simp
next
  case (coalesced s b b' i)
  have at: "i < length (queue q)" "transaction_of s (event (queue q ! i))" using coalesced(3,4) by simp_all
  have only: "j = i" if "j < length (events_of q)" "transaction_of s (events_of q ! j)" for j
    using transaction_unique [OF assms(1) at, of j] that by simp
  have "i < length (events_of q)" "events_of q ! i = TransactionStateChanged s b'" using coalesced(3,4) by simp_all
  from newest_state_update [OF this only] have "newest_state k (xs @ (events_of q)[i := TransactionStateChanged s b]) =
      (if s = k then Some b else newest_state k (xs @ events_of q))"
    by blast
  moreover have "events_of (snd (push ev sl q)) = (events_of q)[i := TransactionStateChanged s b]"
    using coalesced(5) by (simp add: map_update)
  ultimately show ?thesis using coalesced(2) newest_state_snoc(1) [of k "xs @ events_of q" s b] by simp
next
  case (printed s lines d f n)
  then show ?thesis by (simp add: enqueue_output newest_state_def)
next
  case (refused s lines d n st)
  then show ?thesis by (simp add: count_lost_def newest_state_def)
next
  case (failure s lines d e n st)
  then show ?thesis by (simp add: enqueue_output count_lost_def newest_state_def)
qed (use assms in simp)

end
