(* ===== verification/Event_Queue_Properties.thy ===== *)
theory Event_Queue_Properties
  imports Event_Queue_Correct
begin

text \<open>
  What the event queue promises to the two sides of it, over every interleaving of its
  producers and its consumer (\<open>runs\<close>), and what its destruction leaves behind.
\<close>

section \<open>The newest state along a run\<close>

lemma newest_state_cong:
  assumes "newest_state k xs = newest_state k ys"
  shows "newest_state k (xs @ [e]) = newest_state k (ys @ [e])"
proof (cases "transaction_of k e")
  case True
  then obtain b where "e = TransactionStateChanged k b" by (cases e) auto
  then show ?thesis by (simp add: newest_state_snoc(1))
qed (simp add: newest_state_snoc(2) assms)

lemma runs_newest:
  "runs quota l q \<Longrightarrow> newest_state k (delivered l @ events_of q) = newest_state k (produced l)"
proof (induction rule: runs.induct)
  case (runs_submit l q limit i q')
  then show ?case by (auto simp: reserve_slot_def split: if_splits)
next
  case (runs_reply l q ev i)
  then show ?case using newest_state_cong [OF runs_reply(4), of ev] runs_open [OF runs_reply(1)]
    by (simp add: emit_reply_def push_reply)
next
  case (runs_emit l q ev)
  have "events_of (snd (emit True ev q)) = events_of (snd (push ev None q))" by (simp add: emit_def split: prod.splits)
  moreover have "newest_state k (delivered l @ events_of (snd (push ev None q))) = newest_state k ((delivered l @ events_of q) @ [ev])"
    using newest_push runs_open [OF runs_emit(1)] by blast
  ultimately show ?case using newest_state_cong [OF runs_emit(4), of ev] by simp
next
  case (runs_next l q ev q')
  then show ?case using pop_events [OF runs_next(2)] by simp
qed (simp add: event_channel_def)

section \<open>Draining and dropping\<close>

lemma drain_into_all:
  assumes "n = length (queue q)" and "\<And>j. held q j \<le> outstanding q j"
  shows "queue (snd (drain_into n q)) = [] \<and> fst (drain_into n q) = events_of q \<and>
    outstanding (snd (drain_into n q)) i = outstanding q i - held q i \<and>
    queue_closed (snd (drain_into n q)) = queue_closed q"
  using assms
proof (induction n arbitrary: q)
  case 0
  then show ?case by (simp add: held_def)
next
  case (Suc n)
  then obtain qd rest where c: "queue q = qd # rest" by (cases "queue q") auto
  then obtain q' where p: "pop q = (Some (event qd), q')" "queue q' = rest" "queue_closed q' = queue_closed q"
    using pop_queue [OF c] by blast
  have s: "outstanding q' j - held q' j = outstanding q j - held q j" "held q' j \<le> outstanding q' j" for j
    using pop_slots [OF p(1) Suc(3), of j] by simp_all
  have "queue (snd (drain_into n q')) = [] \<and> fst (drain_into n q') = events_of q' \<and>
      outstanding (snd (drain_into n q')) i = outstanding q' i - held q' i \<and>
      queue_closed (snd (drain_into n q')) = queue_closed q'"
    using Suc(1) [of q'] Suc(2) c p(2) s(2) by simp
  then show ?case using c p s(1) [of i] by (simp add: case_prod_beta)
qed

lemma drop_queue_fields:
  assumes "\<And>j. held q j \<le> outstanding q j"
  shows "queue (drop_queue q) = []" "queue_closed (drop_queue q)" "sessions (drop_queue q) = Map.empty"
    "outstanding (drop_queue q) i = outstanding q i - held q i"
proof -
  let ?q = "q\<lparr>queue_closed := True\<rparr>"
  have h: "held ?q j = held q j" for j by (simp add: held_def)
  have "queue (snd (drain_into (length (queue q)) ?q)) = [] \<and> fst (drain_into (length (queue q)) ?q) = events_of ?q \<and>
      outstanding (snd (drain_into (length (queue q)) ?q)) i = outstanding ?q i - held ?q i \<and>
      queue_closed (snd (drain_into (length (queue q)) ?q)) = queue_closed ?q"
    by (rule drain_into_all) (simp_all add: h assms)
  then show "queue (drop_queue q) = []" "queue_closed (drop_queue q)" "sessions (drop_queue q) = Map.empty"
    "outstanding (drop_queue q) i = outstanding q i - held q i"
    by (simp_all add: drop_queue_def h case_prod_beta)
qed

lemma cnt_at_most_one:
  assumes "\<And>a b. a < length xs \<Longrightarrow> b < length xs \<Longrightarrow> P (xs ! a) \<Longrightarrow> P (xs ! b) \<Longrightarrow> a = b"
  shows "cnt P xs \<le> 1"
proof -
  have "card {i. i < length xs \<and> P (xs ! i)} \<le> 1"
    using assms by (auto simp: card_le_Suc0_iff_eq)
  then show ?thesis by (simp add: cnt_def length_filter_conv_card)
qed

section \<open>A run\<close>

text \<open>
  One session under a cap of one: a request is accepted, a transaction opens, its output finds
  the cap reached, the transaction ends before its opening was delivered, the reply comes and
  the consumer takes one event.
\<close>

definition sample_ping :: "unit session_event" where
  "sample_ping = Completed 0 7 Ping (Inr ())"

definition sample_print :: "unit session_event" where
  "sample_print = ServerOutput 0 [[65]] 0 None 0"

definition sample_backlog :: "unit event_queue" where
  "sample_backlog =
     snd (emit_reply True sample_ping 0 (snd (emit True (TransactionStateChanged 0 False)
       (snd (emit True sample_print (snd (emit True (TransactionStateChanged 0 True)
         ((event_channel 1)\<lparr>outstanding := (\<lambda>_. 0)(0 := 1)\<rparr>))))))))"

definition sample_taken :: "unit event_queue" where
  "sample_taken = snd (pop sample_backlog)"

definition sample_log :: "unit log" where
  "sample_log =
     \<lparr>produced = [TransactionStateChanged 0 True, sample_print, TransactionStateChanged 0 False, sample_ping],
      delivered = [TransactionStateChanged 0 False], unanswered = (\<lambda>_. 0)\<rparr>"

lemmas sample_queue_defs = sample_backlog_def sample_taken_def sample_ping_def sample_print_def event_channel_def
  emit_def emit_reply_def push_def admit_unsolicited_def queued_transaction_slot_def nth_opt_def enqueue_def
  stamp_unsolicited_def state_default_def u32_max_def sat_add_u32_def DISCARDED_def

lemma sample_backlog_eq:
  "sample_backlog = \<lparr>queue = [\<lparr>event = TransactionStateChanged 0 False, slot = None\<rparr>, \<lparr>event = sample_ping, slot = Some 0\<rparr>],
     front_seq = 0, next_seq = 2,
     sessions = [0 \<mapsto> \<lparr>unsolicited = 1, dropped_lines = 1, transaction_seq = Some 0\<rparr>],
     queue_closed = False, max_unsolicited = 1, dropped_unsolicited = 1, outstanding = (\<lambda>_. 0)(0 := 1)\<rparr>"
  by (simp add: sample_queue_defs Let_def)

lemma sample_taken_eq:
  "sample_taken = \<lparr>queue = [\<lparr>event = sample_ping, slot = Some 0\<rparr>], front_seq = 1, next_seq = 2,
     sessions = [0 \<mapsto> \<lparr>unsolicited = 0, dropped_lines = 1, transaction_seq = None\<rparr>],
     queue_closed = False, max_unsolicited = 1, dropped_unsolicited = 1, outstanding = (\<lambda>_. 0)(0 := 1)\<rparr>"
  by (simp add: sample_taken_def sample_backlog_eq pop_def release_unsolicited_def is_idle_def)

lemma sample_run: "runs (\<lambda>_. 1) sample_log sample_taken"
proof -
  have "runs (\<lambda>_. 1) \<lparr>produced = [], delivered = [], unanswered = (\<lambda>_. 0)\<rparr> (event_channel 1 :: unit event_queue)"
    by (rule runs_new) simp
  from runs_submit [OF this, of 1 0]
  have a: "runs (\<lambda>_. 1) \<lparr>produced = [], delivered = [], unanswered = (\<lambda>_. 0)(0 := 1)\<rparr>
      ((event_channel 1 :: unit event_queue)\<lparr>outstanding := (\<lambda>_. 0)(0 := 1)\<rparr>)"
    by (simp add: reserve_slot_def event_channel_def)
  have f: "fresh_event sample_print" "\<not> is_reply sample_print" by (simp_all add: sample_print_def)
  from runs_reply [OF runs_emit [OF runs_emit [OF runs_emit [OF a, of "TransactionStateChanged 0 True"] f(2,1)],
      of "TransactionStateChanged 0 False"], of sample_ping 0]
  have "runs (\<lambda>_. 1) (\<lparr>produced = produced sample_log, delivered = [], unanswered = (\<lambda>_. 0)\<rparr>) sample_backlog"
    by (simp add: sample_ping_def sample_log_def sample_backlog_def fun_upd_idem)
  from runs_next [OF this, of "TransactionStateChanged 0 False" sample_taken] show ?thesis
    by (simp add: sample_taken_def sample_log_def pop_def sample_backlog_eq)
qed

section \<open>Properties\<close>

text \<open>
  C32. Backpressure.  However producers and consumer interleave, what waits in the queue is
  bounded: per session at most the cap of output events without a failure and at most one
  transaction state, and per slot counter exactly one outstanding slot for each reply that waits
  and each accepted request that is not answered yet, never more than the session's limit.
\<close>

theorem queue_is_bounded:
  assumes "runs quota l q"
  shows "cnt (plain_output k) (events_of q) \<le> max_unsolicited q \<and>
    cnt (transaction_of k) (events_of q) \<le> 1 \<and>
    outstanding q i = held q i + unanswered l i \<and> outstanding q i \<le> quota i"
proof (intro conjI)
  have ok: "queue_ok q" using runs_open [OF assms] by simp
  then show "cnt (plain_output k) (events_of q) \<le> max_unsolicited q"
    using queue_okD(3) [OF ok, of k] by (simp add: entry_ok_def)
  show "cnt (transaction_of k) (events_of q) \<le> 1"
  proof (rule cnt_at_most_one)
    fix a b
    assume "a < length (events_of q)" "b < length (events_of q)"
      "transaction_of k (events_of q ! a)" "transaction_of k (events_of q ! b)"
    then show "a = b" using transaction_unique [OF ok, of b k a] by simp
  qed
  show "outstanding q i = held q i + unanswered l i" "outstanding q i \<le> quota i"
    using runs_slots [OF assms, of i] by simp_all
qed

theorem queue_is_bounded_witness:
  "cnt (plain_output 0) (events_of sample_taken) \<le> max_unsolicited sample_taken \<and>
   cnt (transaction_of 0) (events_of sample_taken) \<le> 1 \<and>
   outstanding sample_taken 0 = held sample_taken 0 + unanswered sample_log 0 \<and> outstanding sample_taken 0 \<le> (\<lambda>_. 1) (0 :: nat)"
  using queue_is_bounded [OF sample_run] by blast

text \<open>
  C31. Replies are never dropped, duplicated or reordered: the replies, terminal events and
  progress notices delivered so far, followed by those still waiting, are exactly those
  produced, in the order produced.
\<close>

theorem replies_in_order:
  assumes "runs quota l q"
  shows "solicited_events (delivered l @ events_of q) = solicited_events (produced l)"
  using assms by (rule runs_solicited)

theorem replies_in_order_witness:
  "solicited_events (delivered sample_log @ events_of sample_taken) = solicited_events (produced sample_log) \<and>
   solicited_events (produced sample_log) = [sample_ping]"
  using replies_in_order [OF sample_run] by (simp add: sample_log_def sample_ping_def sample_print_def)

text \<open>
  C40. No line of server output disappears silently.  As long as a session's lines fit the
  32-bit counter, the lines delivered, the losses delivered events report, the lines and losses
  of events that wait and the losses not reported yet add up to the lines produced.
\<close>

theorem no_line_lost_silently:
  assumes "runs quota l q" and "sum_list (map (lines_of k) (produced l)) \<le> u32_max"
  shows "sum_list (map (line_weight k) (delivered l)) + sum_list (map (line_weight k) (events_of q)) +
    pending_dropped_lines q k = sum_list (map (lines_of k) (produced l))"
  using runs_lines [OF assms] by (simp add: owed_def)

theorem no_line_lost_silently_witness:
  "sum_list (map (line_weight 0) (delivered sample_log)) + sum_list (map (line_weight 0) (events_of sample_taken)) +
     pending_dropped_lines sample_taken 0 = sum_list (map (lines_of 0) (produced sample_log)) \<and>
   pending_dropped_lines sample_taken 0 = 1"
proof -
  have "sum_list (map (lines_of 0) (produced sample_log)) \<le> u32_max"
    by (simp add: sample_log_def sample_print_def sample_ping_def u32_max_def)
  from no_line_lost_silently [OF sample_run this] show ?thesis
    by (simp add: sample_taken_eq pending_dropped_lines_def)
qed

text \<open>
  Coalescing keeps the truth.  Once a session's transaction state is in the queue, newer
  states replace its value in place; still, the newest state in what was delivered followed by
  what waits is always the newest state produced, so that a consumer that has caught up shows
  the current state.
\<close>

theorem newest_transaction_state_survives:
  assumes "runs quota l q"
  shows "newest_state k (delivered l @ events_of q) = newest_state k (produced l)"
  using assms by (rule runs_newest)

theorem newest_transaction_state_survives_witness:
  "newest_state 0 (delivered sample_log @ events_of sample_taken) = newest_state 0 (produced sample_log) \<and>
   newest_state 0 (produced sample_log) = Some False"
proof
  show "newest_state 0 (delivered sample_log @ events_of sample_taken) = newest_state 0 (produced sample_log)"
    by (rule newest_transaction_state_survives [OF sample_run])
  show "newest_state 0 (produced sample_log) = Some False"
    by (simp add: sample_log_def sample_ping_def sample_print_def newest_state_def)
qed

text \<open>
  Dropping the consumer frees the producers.  It closes and empties the queue and releases
  the slot of every reply that waited, so that only requests not answered yet keep one; a reply
  that comes afterwards is discarded and releases its own slot.
\<close>

theorem dropped_queue_releases_slots:
  assumes "runs quota l q"
  shows "queue (drop_queue q) = [] \<and> queue_closed (drop_queue q) \<and>
    outstanding (drop_queue q) i = unanswered l i \<and>
    push ev sl (drop_queue q) = (DISCARDED, drop_queue q) \<and>
    outstanding (snd (emit_reply True ev i (drop_queue q))) i = unanswered l i - 1"
proof -
  have "held q j \<le> outstanding q j" for j using runs_slots [OF assms, of j] by simp
  note d = drop_queue_fields [OF this]
  have o: "outstanding (drop_queue q) i = unanswered l i" using d(4) [of i] runs_slots [OF assms, of i] by simp
  have p: "push e s (drop_queue q) = (DISCARDED, drop_queue q)" for e s using d(2) by (simp add: push_def)
  show ?thesis using d(1,2) o by (simp add: p emit_reply_def DISCARDED_def release_slot_def)
qed

theorem dropped_queue_releases_slots_witness:
  "queue (drop_queue sample_taken) = [] \<and> queue_closed (drop_queue sample_taken) \<and>
   outstanding (drop_queue sample_taken) 0 = unanswered sample_log 0 \<and>
   push sample_ping None (drop_queue sample_taken) = (DISCARDED, drop_queue sample_taken) \<and>
   outstanding (snd (emit_reply True sample_ping 0 (drop_queue sample_taken))) 0 = unanswered sample_log 0 - 1"
  using dropped_queue_releases_slots [OF sample_run] by blast

end
