(* ===== verification/Session_Shared.thy ===== *)
theory Session_Shared
  imports Event_Queue
begin

text \<open>
  \<^verbatim>\<open>crates/db-core/src/shared.rs\<close>: the state a session's handle and its worker share, the
  core's conservative transaction tracking, the record of how a session ended and the log of
  server output for callers without a queue.  Mutexes and atomics guard single fields, so each
  method is one operation on the record \<open>session_shared\<close>.  What a session hands to its sink
  is the log \<open>emissions\<close>; what becomes of it there is the subject of \<open>Event_Queue\<close>.
\<close>

section \<open>Data\<close>

datatype session_lifecycle = SUsable | SNeedsValidation | SLost | SClosed

fun lifecycle_usable :: "session_lifecycle \<Rightarrow> bool" where
  "lifecycle_usable SUsable = True"
| "lifecycle_usable SNeedsValidation = True"
| "lifecycle_usable _ = False"

fun lifecycle_terminal :: "session_lifecycle \<Rightarrow> bool" where
  "lifecycle_terminal SLost = True"
| "lifecycle_terminal SClosed = True"
| "lifecycle_terminal _ = False"

record lost_reason =
  lost_kind :: error_kind
  lost_message :: ustr
  lost_native :: "native_error option"
  lost_position :: "sql_position option"

datatype ended_as = Cleanly | Unresolved

datatype close_error = DecisionRequired | CommitFailed db_error | RollbackFailed db_error | CloseFailed db_error

fun session_is_still_open :: "close_error \<Rightarrow> bool" where
  "session_is_still_open (CloseFailed _) = False"
| "session_is_still_open _ = True"

record 'l fetched_batch =
  fetched_rows :: "'l row_batch"
  fetched_lobs :: "(nat \<times> nat \<times> lob_handle) list"

datatype cancel_kind = CancelUnsupported | PreArmedDeadline | NativeCancel

text \<open>The fields of events that \<open>Session_Event\<close> leaves open.\<close>

datatype 'l payload =
  POpened nat cancel_kind "warning list"
| PFetched "db_error + 'l fetched_batch"
| PClosed "close_error + unit"
| PConfigured "db_error + server_output_setting"
| PDeadline "nat option"
| PTerminal session_lifecycle "db_error option" bool \<comment> \<open>lifecycle, cause, transaction possibly lost\<close>

type_synonym 'l core_event = "'l payload session_event"

text \<open>How an event left the session: through \<^verbatim>\<open>emit\<close>, as a reply with its slot, or, for a
  caller that waits on a \<^verbatim>\<open>Completion\<close>, down that request's own channel.\<close>

datatype 'e emission = Emitted 'e | Replied 'e | Sent 'e

record server_output_log =
  log_lines :: "ustr list"
  log_dropped :: nat
  log_failure :: "db_error option"
  log_failures :: nat
  log_invalid_utf8 :: nat

record collected_output =
  output_log :: server_output_log
  log_bytes :: nat
  refusing :: bool

definition MAX_RETAINED_LINES :: nat where "MAX_RETAINED_LINES = 10000"

definition MAX_RETAINED_BYTES :: nat where "MAX_RETAINED_BYTES = 1024 * 1024"

definition collected_default :: collected_output where
  "collected_default = \<lparr>output_log = \<lparr>log_lines = [], log_dropped = 0, log_failure = None, log_failures = 0,
     log_invalid_utf8 = 0\<rparr>, log_bytes = 0, refusing = False\<rparr>"

record 'l session_shared =
  shared_session :: session_id
  lifecycle :: session_lifecycle
  core_possibly_active :: bool
  driver_transaction_state :: transaction_state
  lost_reason :: "lost_reason option"
  driver_calls :: nat
  events_bound :: bool
  terminal_emitted :: bool
  ended_as :: "ended_as option"
  open_cancelled :: bool
  transaction_resolved_at_end :: bool
  abandon_requested :: bool
  collected :: collected_output
  emissions :: "'l core_event emission list"

definition shared_new :: "session_id \<Rightarrow> 'l session_shared" where
  "shared_new session =
     \<lparr>shared_session = session, lifecycle = SUsable, core_possibly_active = False, driver_transaction_state = TxUnknown,
      lost_reason = None, driver_calls = 0, events_bound = False, terminal_emitted = False, ended_as = None,
      open_cancelled = False, transaction_resolved_at_end = False, abandon_requested = False,
      collected = collected_default, emissions = []\<rparr>"

section \<open>Errors of a session that is over\<close>

definition capture :: "db_error \<Rightarrow> lost_reason" where
  "capture e = \<lparr>lost_kind = error_kind e, lost_message = error_message e, lost_native = native e,
     lost_position = position e\<rparr>"

definition to_error :: "lost_reason \<Rightarrow> ustr \<Rightarrow> db_error" where
  "to_error r context =
     (let e = with_session_state Lost
                (error_new (lost_kind r) (us ''reldex-db-core: '' @ context @ us '': '' @ lost_message r));
          e = (case lost_native r of None \<Rightarrow> e | Some n \<Rightarrow> with_native n e)
      in case lost_position r of None \<Rightarrow> e | Some p \<Rightarrow> with_position p e)"

definition terminal_error :: "'l session_shared \<Rightarrow> db_error" where
  "terminal_error s =
     (case lost_reason s of
        Some r \<Rightarrow> to_error r (us ''session is lost; open a new session to reconnect'')
      | None \<Rightarrow>
          if open_cancelled s
          then with_session_state Lost (error_new Cancelled
                 (us ''reldex-db-core: the session was abandoned before its connection was open, so nothing was connected and nothing is adopted late''))
          else with_session_state Lost (error_new Connection (us ''reldex-db-core: session is closed'')))"

definition lost_transaction_error :: "'l session_shared \<Rightarrow> db_error" where
  "lost_transaction_error s =
     (case lost_reason s of
        Some r \<Rightarrow> to_error r (us ''the session was already lost, so nothing was committed and any transaction it held is gone'')
      | None \<Rightarrow> with_session_state Lost (error_new Connection
          (us ''reldex-db-core: the connection was already gone, so nothing was committed and any transaction it held is gone'')))"

section \<open>Events\<close>

definition bind_events :: "'l session_shared \<Rightarrow> (db_error + unit) \<times> 'l session_shared" where
  "bind_events s =
     (if events_bound s
      then (Inl (error_internal
              (us ''reldex-db-core: this session already routes its events to a queue; bind once, at open'')), s)
      else if terminal_emitted s
      then (Inl (error_new Resource
              (us ''reldex-db-core: this session has already ended; its Terminal event was emitted before this queue was bound, so binding now would produce a stream that never terminates'')), s)
      else (Inr (), s\<lparr>events_bound := True\<rparr>))"

definition emit_event :: "'l core_event \<Rightarrow> 'l session_shared \<Rightarrow> 'l session_shared" where
  "emit_event ev s = s\<lparr>emissions := emissions s @ [Emitted ev]\<rparr>"

definition reply_event :: "'l core_event \<Rightarrow> 'l session_shared \<Rightarrow> 'l session_shared" where
  "reply_event ev s = s\<lparr>emissions := emissions s @ [Replied ev]\<rparr>"

definition emit_terminal :: "bool \<Rightarrow> 'l session_shared \<Rightarrow> 'l session_shared" where
  "emit_terminal lost s =
     (if terminal_emitted s then s
      else emit_event (Terminal (shared_session s)
             (PTerminal (lifecycle s) (map_option (\<lambda>r. to_error r (us ''the session was lost'')) (lost_reason s)) lost))
             (s\<lparr>terminal_emitted := True\<rparr>))"

section \<open>How a session ends\<close>

definition mark_ended :: "ended_as \<Rightarrow> 'l session_shared \<Rightarrow> 'l session_shared" where
  "mark_ended how s = (case ended_as s of None \<Rightarrow> s\<lparr>ended_as := Some how\<rparr> | Some _ \<Rightarrow> s)"

definition settled_close :: "'l session_shared \<Rightarrow> (db_error + unit) option" where
  "settled_close s =
     (case ended_as s of
        None \<Rightarrow> None
      | Some Cleanly \<Rightarrow> Some (Inr ())
      | Some Unresolved \<Rightarrow> Some (Inl (lost_transaction_error s)))"

definition mark_validated :: "'l session_shared \<Rightarrow> 'l session_shared" where
  "mark_validated s = (if lifecycle s = SNeedsValidation then s\<lparr>lifecycle := SUsable\<rparr> else s)"

definition mark_closed :: "'l session_shared \<Rightarrow> 'l session_shared" where
  "mark_closed s = (if lifecycle s \<noteq> SLost then s\<lparr>lifecycle := SClosed\<rparr> else s)"

definition mark_lost_from :: "db_error \<Rightarrow> 'l session_shared \<Rightarrow> 'l session_shared" where
  "mark_lost_from e s = s\<lparr>lifecycle := SLost, lost_reason := Some (capture e)\<rparr>"

definition note_error :: "db_error \<Rightarrow> 'l session_shared \<Rightarrow> 'l session_shared" where
  "note_error e s =
     (if lifecycle s = SLost then s
      else case error_session_state e of
        Usable \<Rightarrow> s
      | NeedsValidation \<Rightarrow> if lifecycle s = SUsable then s\<lparr>lifecycle := SNeedsValidation\<rparr> else s
      | Lost \<Rightarrow> s\<lparr>lifecycle := SLost, lost_reason := Some (capture e)\<rparr>)"

section \<open>Transaction tracking\<close>

definition possibly_active :: "'l session_shared \<Rightarrow> bool" where
  "possibly_active s \<longleftrightarrow> core_possibly_active s \<or> may_be_open (driver_transaction_state s)"

definition with_transaction_watch ::
  "('l session_shared \<Rightarrow> 'l session_shared) \<Rightarrow> 'l session_shared \<Rightarrow> 'l session_shared" where
  "with_transaction_watch f s =
     (let s' = f s in
      if possibly_active s \<noteq> possibly_active s'
      then emit_event (TransactionStateChanged (shared_session s') (possibly_active s')) s' else s')"

definition note_statement :: "statement_kind \<Rightarrow> transaction_state \<Rightarrow> bool \<Rightarrow> 'l session_shared \<Rightarrow> 'l session_shared" where
  "note_statement k driver_state exactly s =
     with_transaction_watch (\<lambda>s.
       let s = s\<lparr>driver_transaction_state := driver_state\<rparr>;
           definitely_inactive = (exactly \<and> driver_state = TxInactive);
           opens = (k = Dml \<or> k = PlSqlBlock \<or> \<not> definitely_inactive)
       in if opens then s\<lparr>core_possibly_active := True\<rparr> else s) s"

definition note_commit_or_rollback :: "'l session_shared \<Rightarrow> 'l session_shared" where
  "note_commit_or_rollback = with_transaction_watch (\<lambda>s. s\<lparr>core_possibly_active := False\<rparr>)"

definition note_driver_transaction_state :: "transaction_state \<Rightarrow> 'l session_shared \<Rightarrow> 'l session_shared" where
  "note_driver_transaction_state st = with_transaction_watch (\<lambda>s. s\<lparr>driver_transaction_state := st\<rparr>)"

definition seed_driver_transaction_state :: "transaction_state \<Rightarrow> 'l session_shared \<Rightarrow> 'l session_shared" where
  "seed_driver_transaction_state st s = s\<lparr>driver_transaction_state := st\<rparr>"

definition transaction_lost_at_end :: "'l session_shared \<Rightarrow> bool" where
  "transaction_lost_at_end s \<longleftrightarrow> \<not> transaction_resolved_at_end s \<and> possibly_active s"

section \<open>Server output without a queue\<close>

definition collect_line :: "ustr \<Rightarrow> collected_output \<Rightarrow> collected_output" where
  "collect_line l c =
     (if \<not> refusing c \<and> length (log_lines (output_log c)) < MAX_RETAINED_LINES \<and>
         sat_add (log_bytes c) (byte_len l) \<le> MAX_RETAINED_BYTES
      then c\<lparr>log_bytes := log_bytes c + byte_len l,
             output_log := (output_log c)\<lparr>log_lines := log_lines (output_log c) @ [l]\<rparr>\<rparr>
      else c\<lparr>refusing := True,
             output_log := (output_log c)\<lparr>log_dropped := sat_add_u32 (log_dropped (output_log c)) 1\<rparr>\<rparr>)"

definition collect_server_output ::
  "ustr list \<Rightarrow> nat \<Rightarrow> db_error option \<Rightarrow> 'l session_shared \<Rightarrow> 'l session_shared" where
  "collect_server_output lines invalid failure s =
     (let c = fold collect_line lines (collected s);
          log = output_log c;
          log = log\<lparr>log_invalid_utf8 := sat_add_u32 (log_invalid_utf8 log) invalid\<rparr>;
          log = (case failure of None \<Rightarrow> log
                 | Some e \<Rightarrow> log\<lparr>log_failures := sat_add_u32 (log_failures log) 1,
                     log_failure := (if log_failure log = None then Some e else log_failure log)\<rparr>)
      in s\<lparr>collected := c\<lparr>output_log := log\<rparr>\<rparr>)"

definition take_collected_server_output :: "'l session_shared \<Rightarrow> server_output_log \<times> 'l session_shared" where
  "take_collected_server_output s = (output_log (collected s), s\<lparr>collected := collected_default\<rparr>)"

end
