(* ===== verification/Session_Worker.thy ===== *)
theory Session_Worker
  imports Session_Shared "HOL-Library.AList" "HOL-Library.While_Combinator"
begin

text \<open>
  \<^verbatim>\<open>crates/db-core/src/worker.rs\<close> and \<^verbatim>\<open>reply.rs\<close>: the worker of a session, one definition
  per method.  The driver is the record \<open>driver\<close> of the operations the worker calls: each
  acts on the driver's own state \<open>'d\<close> and returns a result or panics.  Cursors, large-object
  locators and statements are opaque (\<open>'k\<close>, \<open>'l\<close>, \<open>'q\<close>).  The hash maps are association lists,
  so cursors are released in the order they were opened, one of the orders the code may take.
  The counter that mints large-object handles, global to the process, is part of the state.

  Reading server output goes on until the driver has no more, which the core does not bound:
  the loop is \<open>while_option\<close>, and an execution that never ends has no result.
\<close>

section \<open>Data\<close>

datatype 'a called = Returned "db_error + 'a" | Panicked "ustr option" \<comment> \<open>a panic, with its text if it has one\<close>

record ('d, 'k, 'l, 'q) driver =
  op_execute :: "'q \<Rightarrow> 'd \<Rightarrow> ('k, 'l) execution_outcome called \<times> 'd"
  op_commit :: "'d \<Rightarrow> unit called \<times> 'd"
  op_rollback :: "'d \<Rightarrow> unit called \<times> 'd"
  op_savepoint :: "ustr \<Rightarrow> 'd \<Rightarrow> unit called \<times> 'd"
  op_rollback_to :: "ustr \<Rightarrow> 'd \<Rightarrow> unit called \<times> 'd"
  op_ping :: "'d \<Rightarrow> unit called \<times> 'd"
  op_close :: "'d \<Rightarrow> unit called \<times> 'd"
  op_transaction_state :: "'d \<Rightarrow> transaction_state"
  op_set_output :: "server_output_setting \<Rightarrow> 'd \<Rightarrow> server_output_setting called \<times> 'd"
  op_take_output :: "nat \<Rightarrow> nat \<Rightarrow> 'd \<Rightarrow> server_output_chunk called \<times> 'd"
  cur_id :: "'k \<Rightarrow> nat"
  cur_connection :: "'k \<Rightarrow> nat"
  cur_columns :: "'k \<Rightarrow> 'd \<Rightarrow> column_metadata list called \<times> 'd"
  cur_fetch :: "nat \<Rightarrow> 'k \<Rightarrow> 'd \<Rightarrow> 'l row_batch called \<times> 'd"
  cur_exhausted :: "'k \<Rightarrow> 'd \<Rightarrow> bool"
  cur_close :: "'k \<Rightarrow> 'd \<Rightarrow> unit called \<times> 'd"
  lob_connection :: "'l \<Rightarrow> nat"
  lob_read :: "nat \<Rightarrow> 'l \<Rightarrow> 'd \<Rightarrow> (byte list \<times> nat) called \<times> 'd" \<comment> \<open>the bytes written and the length reported\<close>
  deadline_of :: "'q \<Rightarrow> nat option"

record session_limits =
  max_open_results :: nat
  max_lob_chunk_bytes :: nat
  max_outstanding_requests :: nat
  server_output_chunk_lines :: nat
  server_output_chunk_bytes :: nat

definition limits_new :: session_limits where
  "limits_new = \<lparr>max_open_results = 256, max_lob_chunk_bytes = 16 * 1024 * 1024, max_outstanding_requests = 1024,
     server_output_chunk_lines = 4096, server_output_chunk_bytes = 32 * 1024\<rparr>"

text \<open>
  Where an answer goes.  Whether the caller of a one-shot request still listens when the answer
  is sent is part of the request.
\<close>

datatype reply_to = OneShot request_id bool | EventReply request_id

fun reply_request :: "reply_to \<Rightarrow> request_id option" where
  "reply_request (OneShot _ _) = None"
| "reply_request (EventReply r) = Some r"

datatype disposition = CommitIt | RollItBack

datatype close_intent = Explicit "disposition option" | Abandon

datatype 'q command =
  DoExecute 'q reply_to
| DoFetchBatch result_id nat reply_to
| DoFetchSegment fetch_ticket nat reply_to
| DoCloseResult result_id reply_to
| DoCommit reply_to
| DoRollback reply_to
| DoSavepoint ustr reply_to
| DoRollbackTo ustr reply_to
| DoPing reply_to
| DoReadLob lob_handle nat reply_to
| DoCloseLob lob_handle reply_to
| DoSetServerOutput server_output_setting reply_to
| DoClose close_intent reply_to

datatype flow = Continue | Exit

record ('d, 'k, 'l) worker =
  w_session :: session_id
  w_shared :: "'l session_shared"
  limits :: session_limits
  w_connection_id :: nat
  exact_transaction_state :: bool
  server_output_supported :: bool
  server_output :: server_output_setting
  world :: 'd
  connected :: bool
  cursors :: "(nat \<times> 'k) list"
  parked :: "(lob_handle \<times> nat option \<times> 'l) list"
  torn :: bool
  next_serial :: nat

section \<open>Calls and answers\<close>

definition on_shared :: "('l session_shared \<Rightarrow> 'l session_shared) \<Rightarrow> ('d, 'k, 'l) worker \<Rightarrow> ('d, 'k, 'l) worker" where
  "on_shared f w = w\<lparr>w_shared := f (w_shared w)\<rparr>"

definition panic_to_error :: "ustr option \<Rightarrow> db_error" where
  "panic_to_error m = with_session_state Lost (error_internal (us ''reldex-db-core: driver call panicked: '' @
     (case m of Some t \<Rightarrow> t | None \<Rightarrow> us ''driver call panicked with a non-string payload'')))"

definition call_driver ::
  "('d \<Rightarrow> 'a called \<times> 'd) \<Rightarrow> ('d, 'k, 'l) worker \<Rightarrow> (db_error + 'a) \<times> ('d, 'k, 'l) worker" where
  "call_driver f w =
     (case f (world w) of
        (Returned r, d) \<Rightarrow> (r, w\<lparr>world := d\<rparr>)
      | (Panicked m, d) \<Rightarrow> (Inl (panic_to_error m), w\<lparr>world := d, torn := True\<rparr>))"

definition with_connection ::
  "('d \<Rightarrow> 'a called \<times> 'd) \<Rightarrow> ('d, 'k, 'l) worker \<Rightarrow> (db_error + 'a) option \<times> ('d, 'k, 'l) worker" where
  "with_connection f w =
     (if connected w then (case call_driver f w of (r, w') \<Rightarrow> (Some r, w')) else (None, w))"

definition transaction_state :: "('d, 'k, 'l, 'q) driver \<Rightarrow> ('d, 'k, 'l) worker \<Rightarrow> transaction_state" where
  "transaction_state dr w = (if connected w then op_transaction_state dr (world w) else TxUnknown)"

definition note_transaction_state_after ::
  "('d, 'k, 'l, 'q) driver \<Rightarrow> db_error option \<Rightarrow> ('d, 'k, 'l) worker \<Rightarrow> ('d, 'k, 'l) worker" where
  "note_transaction_state_after dr eo w =
     on_shared (note_driver_transaction_state
       (case eo of
          Some e \<Rightarrow> if error_session_state e = Lost then TxUnknown else transaction_state dr w
        | None \<Rightarrow> transaction_state dr w)) w"

fun answer :: "reply_to \<Rightarrow> (request_id \<Rightarrow> 'l core_event) \<Rightarrow> ('d, 'k, 'l) worker \<Rightarrow> bool \<times> ('d, 'k, 'l) worker" where
  "answer (OneShot r heard) mk w =
     (heard, if heard then on_shared (\<lambda>s. s\<lparr>emissions := emissions s @ [Sent (mk r)]\<rparr>) w else w)"
| "answer (EventReply r) mk w = (True, on_shared (reply_event (mk r)) w)"

definition error_of :: "db_error + 'a \<Rightarrow> db_error option" where
  "error_of r = (case r of Inl e \<Rightarrow> Some e | Inr _ \<Rightarrow> None)"

definition note_failure :: "db_error + 'a \<Rightarrow> ('d, 'k, 'l) worker \<Rightarrow> ('d, 'k, 'l) worker" where
  "note_failure r w = (case r of Inl e \<Rightarrow> on_shared (note_error e) w | Inr _ \<Rightarrow> w)"

section \<open>Handles\<close>

definition owned_result :: "('d, 'k, 'l) worker \<Rightarrow> result_id \<Rightarrow> db_error + nat" where
  "owned_result w r =
     (if owner r = w_session w then Inr (result_set r)
      else Inl (error_internal (us ''reldex-db-core: '' @ result_id_display r @
        us '' belongs to another session; a result handle is only valid on the session that produced it'')))"

definition lob_handle_display :: "lob_handle \<Rightarrow> ustr" where
  "lob_handle_display h = us ''LobHandle#'' @ nat_text (lob_owner h) @ us ''.'' @ nat_text (serial h)"

definition owned_lob :: "('d, 'k, 'l) worker \<Rightarrow> lob_handle \<Rightarrow> db_error + lob_handle" where
  "owned_lob w h =
     (if lob_owner h = w_session w then Inr h
      else Inl (error_internal (us ''reldex-db-core: '' @ lob_handle_display h @
        us '' belongs to another session; a large-object handle is only valid on the session that produced it'')))"

definition unknown_result_error :: "('d, 'k, 'l) worker \<Rightarrow> db_error" where
  "unknown_result_error w =
     (if lifecycle (w_shared w) = SLost then terminal_error (w_shared w)
      else error_internal (us ''reldex-db-core: unknown, closed or invalidated result handle''))"

definition closed_lob_error :: "lob_handle \<Rightarrow> db_error" where
  "closed_lob_error h = error_internal (us ''reldex-db-core: '' @ lob_handle_display h @
     us '' is closed; its result or session released it'')"

definition close_result ::
  "('d, 'k, 'l, 'q) driver \<Rightarrow> nat \<Rightarrow> ('d, 'k, 'l) worker \<Rightarrow> (db_error + unit) \<times> ('d, 'k, 'l) worker" where
  "close_result dr i w =
     (let w = w\<lparr>parked := filter (\<lambda>(h, r, l). r \<noteq> Some i) (parked w)\<rparr>
      in case map_of (cursors w) i of
           None \<Rightarrow> (Inr (), w)
         | Some k \<Rightarrow>
             let w = w\<lparr>cursors := AList.delete i (cursors w)\<rparr>
             in if torn w then (Inr (), w) else call_driver (cur_close dr k) w)"

fun release_registered :: "('d, 'k, 'l, 'q) driver \<Rightarrow> nat list \<Rightarrow> ('d, 'k, 'l) worker \<Rightarrow> ('d, 'k, 'l) worker" where
  "release_registered dr [] w = w"
| "release_registered dr (i # is) w = release_registered dr is (snd (close_result dr i w))"

fun close_cursors :: "('d, 'k, 'l, 'q) driver \<Rightarrow> 'k list \<Rightarrow> ('d, 'k, 'l) worker \<Rightarrow> ('d, 'k, 'l) worker" where
  "close_cursors dr [] w = w"
| "close_cursors dr (k # ks) w =
     close_cursors dr ks (if torn w then w else snd (call_driver (cur_close dr k) w))"

definition release_results :: "('d, 'k, 'l, 'q) driver \<Rightarrow> ('d, 'k, 'l) worker \<Rightarrow> ('d, 'k, 'l) worker" where
  "release_results dr w = close_cursors dr (map snd (cursors w)) (w\<lparr>parked := [], cursors := []\<rparr>)"

definition close_connection ::
  "('d, 'k, 'l, 'q) driver \<Rightarrow> ('d, 'k, 'l) worker \<Rightarrow> (db_error + unit) \<times> ('d, 'k, 'l) worker" where
  "close_connection dr w =
     (if \<not> connected w then (Inr (), w)
      else let w = w\<lparr>connected := False\<rparr>
           in if torn w then (Inr (), w) else call_driver (op_close dr) w)"

definition register_cursor ::
  "('d, 'k, 'l, 'q) driver \<Rightarrow> 'k \<Rightarrow> ('d, 'k, 'l) worker \<Rightarrow> (db_error + result_id) \<times> ('d, 'k, 'l) worker" where
  "register_cursor dr k w =
     (if cur_connection dr k \<noteq> w_connection_id w
      then (Inl (error_internal (us ''reldex-db-core: a driver returned a cursor belonging to ConnectionId#'' @
              nat_text (cur_connection dr k) @ us '' on the session that owns ConnectionId#'' @ nat_text (w_connection_id w))),
            snd (call_driver (cur_close dr k) w))
      else if length (cursors w) \<ge> max_open_results (limits w)
      then (Inl (error_new Resource (us ''reldex-db-core: this session already has '' @
              nat_text (max_open_results (limits w)) @
              us '' open results (its configured limit); close one before opening another'')),
            snd (call_driver (cur_close dr k) w))
      else (Inr \<lparr>owner = w_session w, result_set = cur_id dr k\<rparr>,
            w\<lparr>cursors := AList.update (cur_id dr k) k (cursors w)\<rparr>))"

definition park_lob ::
  "('d, 'k, 'l, 'q) driver \<Rightarrow> nat option \<Rightarrow> 'l \<Rightarrow> ('d, 'k, 'l) worker \<Rightarrow> (db_error + lob_handle) \<times> ('d, 'k, 'l) worker" where
  "park_lob dr r l w =
     (if lob_connection dr l \<noteq> w_connection_id w
      then (Inl (error_internal (us ''reldex-db-core: a driver returned a large object belonging to ConnectionId#'' @
              nat_text (lob_connection dr l) @ us '' on the session that owns ConnectionId#'' @ nat_text (w_connection_id w))), w)
      else let h = \<lparr>lob_owner = w_session w, serial = next_serial w\<rparr>
           in (Inr h, w\<lparr>next_serial := next_serial w + 1, parked := parked w @ [(h, r, l)]\<rparr>))"

section \<open>Executing\<close>

definition adopt_out_value ::
  "('d, 'k, 'l, 'q) driver \<Rightarrow> ('k, 'l) driver_value \<Rightarrow> nat list \<Rightarrow> ('d, 'k, 'l) worker \<Rightarrow>
   (db_error + out_value) \<times> nat list \<times> ('d, 'k, 'l) worker" where
  "adopt_out_value dr v reg w =
     (case v of
        CursorValue k \<Rightarrow>
          (case register_cursor dr k w of
             (Inl e, w') \<Rightarrow> (Inl e, reg, w')
           | (Inr r, w') \<Rightarrow> (Inr (OutResult r), reg @ [result_set r], w'))
      | LobValue l \<Rightarrow>
          (case park_lob dr None l w of
             (Inl e, w') \<Rightarrow> (Inl e, reg, w')
           | (Inr h, w') \<Rightarrow> (Inr (OutLob h), reg, w'))
      | PlainValue p \<Rightarrow> (Inr (OutPlain p), reg, w))"

fun adopt_positional ::
  "('d, 'k, 'l, 'q) driver \<Rightarrow> ('k, 'l) driver_value option list \<Rightarrow> nat list \<Rightarrow> ('d, 'k, 'l) worker \<Rightarrow>
   (db_error + out_value option list) \<times> nat list \<times> ('d, 'k, 'l) worker" where
  "adopt_positional dr [] reg w = (Inr [], reg, w)"
| "adopt_positional dr (None # vs) reg w =
     (case adopt_positional dr vs reg w of
        (Inl e, reg', w') \<Rightarrow> (Inl e, reg', w') | (Inr out, reg', w') \<Rightarrow> (Inr (None # out), reg', w'))"
| "adopt_positional dr (Some v # vs) reg w =
     (case adopt_out_value dr v reg w of
        (Inl e, reg', w') \<Rightarrow> (Inl e, reg', w')
      | (Inr x, reg', w') \<Rightarrow>
          (case adopt_positional dr vs reg' w' of
             (Inl e, reg'', w'') \<Rightarrow> (Inl e, reg'', w'') | (Inr out, reg'', w'') \<Rightarrow> (Inr (Some x # out), reg'', w'')))"

fun adopt_named ::
  "('d, 'k, 'l, 'q) driver \<Rightarrow> (ustr \<times> ('k, 'l) driver_value) list \<Rightarrow> nat list \<Rightarrow> ('d, 'k, 'l) worker \<Rightarrow>
   (db_error + (ustr \<times> out_value) list) \<times> nat list \<times> ('d, 'k, 'l) worker" where
  "adopt_named dr [] reg w = (Inr [], reg, w)"
| "adopt_named dr ((n, v) # vs) reg w =
     (case adopt_out_value dr v reg w of
        (Inl e, reg', w') \<Rightarrow> (Inl e, reg', w')
      | (Inr x, reg', w') \<Rightarrow>
          (case adopt_named dr vs reg' w' of
             (Inl e, reg'', w'') \<Rightarrow> (Inl e, reg'', w'') | (Inr out, reg'', w'') \<Rightarrow> (Inr ((n, x) # out), reg'', w'')))"

fun worker_out_values ::
  "('d, 'k, 'l, 'q) driver \<Rightarrow> ('k, 'l) driver_value out_values \<Rightarrow> nat list \<Rightarrow> ('d, 'k, 'l) worker \<Rightarrow>
   (db_error + out_value out_values) \<times> nat list \<times> ('d, 'k, 'l) worker" where
  "worker_out_values dr NoOutValues reg w = (Inr NoOutValues, reg, w)"
| "worker_out_values dr (Positional vs) reg w =
     (case adopt_positional dr vs reg w of
        (Inl e, reg', w') \<Rightarrow> (Inl e, reg', w') | (Inr out, reg', w') \<Rightarrow> (Inr (Positional out), reg', w'))"
| "worker_out_values dr (Named vs) reg w =
     (case adopt_named dr vs reg w of
        (Inl e, reg', w') \<Rightarrow> (Inl e, reg', w') | (Inr out, reg', w') \<Rightarrow> (Inr (Named out), reg', w'))"

text \<open>What a statement's end does to the results that are open.\<close>

definition end_of_transaction ::
  "('d, 'k, 'l, 'q) driver \<Rightarrow> statement_kind \<Rightarrow> ('d, 'k, 'l) worker \<Rightarrow> ('d, 'k, 'l) worker" where
  "end_of_transaction dr k w =
     (if commits_implicitly k then release_results dr (on_shared note_commit_or_rollback w)
      else if k = TransactionControl then release_results dr w else w)"

text \<open>The cursor of an outcome and its columns; a cursor that panics here has none.\<close>

definition adopt_cursor ::
  "('d, 'k, 'l, 'q) driver \<Rightarrow> 'k option \<Rightarrow> ('d, 'k, 'l) worker \<Rightarrow>
   (db_error + (result_id option \<times> column_metadata list \<times> nat list)) \<times> ('d, 'k, 'l) worker" where
  "adopt_cursor dr ko w =
     (case ko of
        None \<Rightarrow> (Inr (None, [], []), w)
      | Some k \<Rightarrow>
          (case register_cursor dr k w of
             (Inl e, w') \<Rightarrow> (Inl e, w')
           | (Inr r, w') \<Rightarrow>
               (case map_of (cursors w') (result_set r) of
                  None \<Rightarrow> (Inr (Some r, [], [result_set r]), w')
                | Some k' \<Rightarrow>
                    (case call_driver (cur_columns dr k') w' of
                       (Inl _, w'') \<Rightarrow> (Inr (Some r, [], [result_set r]), w'')
                     | (Inr cols, w'') \<Rightarrow> (Inr (Some r, cols, [result_set r]), w'')))))"

definition note_executed ::
  "('d, 'k, 'l, 'q) driver \<Rightarrow> statement_kind \<Rightarrow> ('d, 'k, 'l) worker \<Rightarrow> ('d, 'k, 'l) worker" where
  "note_executed dr k w =
     (let st = transaction_state dr w
      in if commits_implicitly k then on_shared (note_driver_transaction_state st) w
         else on_shared (note_statement k st (exact_transaction_state w)) w)"

definition finish_execute ::
  "('d, 'k, 'l, 'q) driver \<Rightarrow> db_error + ('k, 'l) execution_outcome \<Rightarrow> ('d, 'k, 'l) worker \<Rightarrow>
   (db_error + (execute_outcome \<times> nat list)) \<times> ('d, 'k, 'l) worker" where
  "finish_execute dr outcome w =
     (case outcome of
        Inl e \<Rightarrow> (Inl e, note_transaction_state_after dr (Some e) (on_shared (note_error e) w))
      | Inr out \<Rightarrow>
          let k = exec_kind out; w = end_of_transaction dr k w; (ko, out) = take_cursor out
          in case adopt_cursor dr ko w of
               (Inl e, w) \<Rightarrow> (Inl e, on_shared (note_error e) w)
             | (Inr (r, cols, reg), w) \<Rightarrow>
                 (case worker_out_values dr (fst (take_out_values out)) reg w of
                    (Inl e, reg, w) \<Rightarrow> (Inl e, on_shared (note_error e) (release_registered dr reg w))
                  | (Inr vals, reg, w) \<Rightarrow>
                      (Inr (\<lparr>outcome_result = r, outcome_columns = cols, statement_kind = k,
                             committed_implicitly = commits_implicitly k, rows_affected = exec_rows_affected out,
                             outcome_warnings = exec_warnings out, outcome_values = vals\<rparr>, reg),
                       note_executed dr k w)))"

definition deliver_server_output ::
  "request_id option \<Rightarrow> ustr list \<Rightarrow> nat \<Rightarrow> db_error option \<Rightarrow> ('d, 'k, 'l) worker \<Rightarrow> ('d, 'k, 'l) worker" where
  "deliver_server_output request lines invalid failure w =
     (case request of
        Some _ \<Rightarrow> on_shared (emit_event (ServerOutput (w_session w) lines 0 failure invalid)) w
      | None \<Rightarrow> on_shared (collect_server_output lines invalid failure) w)"

text \<open>One turn of the loop; the flag says whether it goes on.\<close>

definition drain_step ::
  "('d, 'k, 'l, 'q) driver \<Rightarrow> request_id option \<Rightarrow> ('d, 'k, 'l) worker \<Rightarrow> bool \<times> ('d, 'k, 'l) worker" where
  "drain_step dr request w =
     (if lifecycle (w_shared w) \<noteq> SUsable \<or> abandon_requested (w_shared w) then (False, w)
      else case with_connection
             (op_take_output dr (server_output_chunk_lines (limits w)) (server_output_chunk_bytes (limits w))) w of
        (None, w) \<Rightarrow> (False, w)
      | (Some (Inr chunk), w) \<Rightarrow>
          let empty = (chunk_lines chunk = [])
          in (\<not> (drained chunk \<or> empty),
              if empty then w else deliver_server_output request (chunk_lines chunk) (chunk_invalid_utf8 chunk) None w)
      | (Some (Inl e), w) \<Rightarrow>
          (False, deliver_server_output request [] 0 (Some e)
             (note_transaction_state_after dr (Some e) (on_shared (note_error e) w))))"

definition drain_server_output ::
  "('d, 'k, 'l, 'q) driver \<Rightarrow> request_id option \<Rightarrow> ('d, 'k, 'l) worker \<Rightarrow> ('d, 'k, 'l) worker option" where
  "drain_server_output dr request w =
     (if \<not> output_enabled (server_output w) then Some w
      else map_option snd (while_option fst (\<lambda>(_, w). drain_step dr request w) (True, w)))"

definition announce_executing ::
  "('d, 'k, 'l, 'q) driver \<Rightarrow> 'q \<Rightarrow> reply_to \<Rightarrow> ('d, 'k, 'l) worker \<Rightarrow> ('d, 'k, 'l) worker" where
  "announce_executing dr st rt w =
     (case reply_request rt of
        Some r \<Rightarrow> on_shared (emit_event (Executing (w_session w) r (PDeadline (deadline_of dr st)))) w
      | None \<Rightarrow> w)"

definition execute ::
  "('d, 'k, 'l, 'q) driver \<Rightarrow> 'q \<Rightarrow> reply_to \<Rightarrow> ('d, 'k, 'l) worker \<Rightarrow> (flow \<times> ('d, 'k, 'l) worker) option" where
  "execute dr st rt w =
     (case with_connection (op_execute dr st) (announce_executing dr st rt w) of
        (None, w) \<Rightarrow>
          Some (Continue, snd (answer rt (\<lambda>r. Executed (w_session w) r (Inl (terminal_error (w_shared w)))) w))
      | (Some outcome, w) \<Rightarrow>
          (case finish_execute dr outcome w of
             (ans, w) \<Rightarrow>
               (case drain_server_output dr (reply_request rt) w of
                  None \<Rightarrow> None
                | Some w \<Rightarrow>
                    (case ans of
                       Inl e \<Rightarrow> Some (Continue, snd (answer rt (\<lambda>r. Executed (w_session w) r (Inl e)) w))
                     | Inr (v, reg) \<Rightarrow>
                         (case answer rt (\<lambda>r. Executed (w_session w) r (Inr v)) w of
                            (heard, w) \<Rightarrow> Some (Continue, if heard then w else release_registered dr reg w))))))"

definition set_server_output ::
  "('d, 'k, 'l, 'q) driver \<Rightarrow> server_output_setting \<Rightarrow> reply_to \<Rightarrow> ('d, 'k, 'l) worker \<Rightarrow> flow \<times> ('d, 'k, 'l) worker" where
  "set_server_output dr setting rt w =
     (let mk = (\<lambda>w r res. ServerOutputConfigured (w_session w) r (PConfigured res)) in
      if \<not> server_output_supported w
      then (Continue, snd (answer rt (\<lambda>r. mk w r (Inl (error_unsupported (us ''server output'')))) w))
      else case with_connection (op_set_output dr setting) w of
        (None, w) \<Rightarrow> (Continue, snd (answer rt (\<lambda>r. mk w r (Inl (terminal_error (w_shared w)))) w))
      | (Some outcome, w) \<Rightarrow>
          let w = (case outcome of
                     Inr effective \<Rightarrow> w\<lparr>server_output := effective\<rparr>
                   | Inl e \<Rightarrow> note_transaction_state_after dr (Some e) (on_shared (note_error e) w))
          in (Continue, snd (answer rt (\<lambda>r. mk w r outcome) w)))"

section \<open>Fetching\<close>

text \<open>The locators of one column, taken row by row, and then of the batch, column by column.\<close>

fun park_rows ::
  "('d, 'k, 'l, 'q) driver \<Rightarrow> nat \<Rightarrow> nat \<Rightarrow> nat list \<Rightarrow> 'l column \<Rightarrow> (nat \<times> nat \<times> lob_handle) list \<Rightarrow>
   ('d, 'k, 'l) worker \<Rightarrow> (db_error + ('l column \<times> (nat \<times> nat \<times> lob_handle) list)) \<times> ('d, 'k, 'l) worker" where
  "park_rows dr i index [] c acc w = (Inr (c, acc), w)"
| "park_rows dr i index (row # rows) c acc w =
     (case take_lob row c of
        (None, c') \<Rightarrow> park_rows dr i index rows c' acc w
      | (Some l, c') \<Rightarrow>
          (case park_lob dr (Some i) l w of
             (Inl e, w') \<Rightarrow> (Inl e, w')
           | (Inr h, w') \<Rightarrow> park_rows dr i index rows c' (acc @ [(row, index, h)]) w'))"

fun park_columns ::
  "('d, 'k, 'l, 'q) driver \<Rightarrow> nat \<Rightarrow> nat \<Rightarrow> 'l column list \<Rightarrow> (nat \<times> nat \<times> lob_handle) list \<Rightarrow>
   ('d, 'k, 'l) worker \<Rightarrow> (db_error + ('l column list \<times> (nat \<times> nat \<times> lob_handle) list)) \<times> ('d, 'k, 'l) worker" where
  "park_columns dr i index [] acc w = (Inr ([], acc), w)"
| "park_columns dr i index (c # cs) acc w =
     (case (if data_kind (data c) = KLob then park_rows dr i index [0..<column_len c] c acc w else (Inr (c, acc), w)) of
        (Inl e, w') \<Rightarrow> (Inl e, w')
      | (Inr (c', acc'), w') \<Rightarrow>
          (case park_columns dr i (index + 1) cs acc' w' of
             (Inl e, w'') \<Rightarrow> (Inl e, w'') | (Inr (cs', acc''), w'') \<Rightarrow> (Inr (c' # cs', acc''), w'')))"

definition park_batch_lobs ::
  "('d, 'k, 'l, 'q) driver \<Rightarrow> nat \<Rightarrow> 'l row_batch \<Rightarrow> ('d, 'k, 'l) worker \<Rightarrow>
   (db_error + 'l fetched_batch) \<times> ('d, 'k, 'l) worker" where
  "park_batch_lobs dr i b w =
     (case park_columns dr i 0 (batch_columns b) [] w of
        (Inl e, w') \<Rightarrow> (Inl e, w')
      | (Inr (cs, hs), w') \<Rightarrow> (Inr \<lparr>fetched_rows = b\<lparr>batch_columns := cs\<rparr>, fetched_lobs = hs\<rparr>, w'))"

definition unpark :: "lob_handle list \<Rightarrow> ('d, 'k, 'l) worker \<Rightarrow> ('d, 'k, 'l) worker" where
  "unpark hs w = w\<lparr>parked := filter (\<lambda>(h, _). h \<notin> set hs) (parked w)\<rparr>"

definition fetch_batch ::
  "('d, 'k, 'l, 'q) driver \<Rightarrow> result_id \<Rightarrow> nat \<Rightarrow> reply_to \<Rightarrow> ('d, 'k, 'l) worker \<Rightarrow> flow \<times> ('d, 'k, 'l) worker" where
  "fetch_batch dr result rows_wanted rt w =
     (let mk = (\<lambda>w res r. Fetched (w_session w) r result (PFetched res)) in
      case owned_result w result of
        Inl e \<Rightarrow> (Continue, snd (answer rt (mk w (Inl e)) w))
      | Inr i \<Rightarrow>
          (case map_of (cursors w) i of
             None \<Rightarrow> (Continue, snd (answer rt (mk w (Inl (unknown_result_error w))) w))
           | Some k \<Rightarrow>
               (case call_driver (cur_fetch dr rows_wanted k) w of
                  (Inl e, w) \<Rightarrow>
                    let w = snd (close_result dr i (on_shared (note_error e) w))
                    in (Continue, snd (answer rt (mk w (Inl e)) w))
                | (Inr b, w) \<Rightarrow>
                    (case park_batch_lobs dr i b w of
                       (Inl e, w) \<Rightarrow>
                         let w = on_shared (note_error e) w in (Continue, snd (answer rt (mk w (Inl e)) w))
                     | (Inr f, w) \<Rightarrow>
                         (case answer rt (mk w (Inr f)) w of
                            (heard, w) \<Rightarrow>
                              (Continue, if heard then w else unpark (map (\<lambda>(_, _, h). h) (fetched_lobs f)) w))))))"

definition fetch_known ::
  "('d, 'k, 'l, 'q) driver \<Rightarrow> nat \<Rightarrow> 'k \<Rightarrow> 'd \<Rightarrow> ('l row_batch \<times> bool) called \<times> 'd" where
  "fetch_known dr rows_wanted k d =
     (case cur_fetch dr rows_wanted k d of
        (Returned (Inr b), d') \<Rightarrow> (Returned (Inr (b, cur_exhausted dr k d')), d')
      | (Returned (Inl e), d') \<Rightarrow> (Returned (Inl e), d')
      | (Panicked m, d') \<Rightarrow> (Panicked m, d'))"

definition park_serial ::
  "('d, 'k, 'l, 'q) driver \<Rightarrow> nat \<Rightarrow> ('l, ('d, 'k, 'l) worker \<times> lob_handle list) park" where
  "park_serial dr i _ l st =
     (case st of (w, hs) \<Rightarrow>
        (case park_lob dr (Some i) l w of
           (Inl e, w') \<Rightarrow> (Inl e, (w', hs))
         | (Inr h, w') \<Rightarrow> (Inr (serial h), (w', hs @ [h]))))"

definition fetch_segment ::
  "('d, 'k, 'l, 'q) driver \<Rightarrow> layout \<Rightarrow> fetch_ticket \<Rightarrow> nat \<Rightarrow> reply_to \<Rightarrow> ('d, 'k, 'l) worker \<Rightarrow>
   flow \<times> ('d, 'k, 'l) worker" where
  "fetch_segment dr lay fetch rows_wanted rt w =
     (let mk = (\<lambda>w res r. FetchedSegment (w_session w) r fetch res) in
      case owned_result w (ticket_result fetch) of
        Inl e \<Rightarrow> (Continue, snd (answer rt (mk w (Inl e)) w))
      | Inr i \<Rightarrow>
          (case map_of (cursors w) i of
             None \<Rightarrow> (Continue, snd (answer rt (mk w (Inl (unknown_result_error w))) w))
           | Some k \<Rightarrow>
               (case call_driver (fetch_known dr rows_wanted k) w of
                  (Inl e, w) \<Rightarrow>
                    let w = snd (close_result dr i (on_shared (note_error e) w))
                    in (Continue, snd (answer rt (mk w (Inl e)) w))
                | (Inr (b, known), w) \<Rightarrow>
                    (case compact_batch lay (w_session w) b (park_serial dr i) (w, []) of
                       (Inl e, (w, _)) \<Rightarrow>
                         let w = snd (close_result dr i (on_shared (note_error e) w))
                         in (Continue, snd (answer rt (mk w (Inl e)) w))
                     | (Inr seg, (w, hs)) \<Rightarrow>
                         (case answer rt (mk w (Inr \<lparr>segment = seg, reply_exhausted = (known \<or> batch_rows b = 0)\<rparr>)) w of
                            (heard, w) \<Rightarrow> (Continue, if heard then w else unpark hs w))))))"

definition read_lob_chunk ::
  "('d, 'k, 'l, 'q) driver \<Rightarrow> lob_handle \<Rightarrow> nat \<Rightarrow> reply_to \<Rightarrow> ('d, 'k, 'l) worker \<Rightarrow> flow \<times> ('d, 'k, 'l) worker" where
  "read_lob_chunk dr lob bytes_wanted rt w =
     (let mk = (\<lambda>w res r. LobChunk (w_session w) r lob res) in
      case owned_lob w lob of
        Inl e \<Rightarrow> (Continue, snd (answer rt (mk w (Inl e)) w))
      | Inr h \<Rightarrow>
          let capacity = min bytes_wanted (max_lob_chunk_bytes (limits w))
          in case map_of (parked w) h of
               None \<Rightarrow> (Continue, snd (answer rt (mk w (Inl (closed_lob_error h))) w))
             | Some (_, l) \<Rightarrow>
                 (case call_driver (lob_read dr capacity l) w of
                    (Inl e, w) \<Rightarrow>
                      let w = unpark [h] (on_shared (note_error e) w)
                      in (Continue, snd (answer rt (mk w (Inl e)) w))
                  | (Inr (written, n), w) \<Rightarrow>
                      let buf = take capacity (written @ replicate (capacity - length written) 0)
                      in (Continue, snd (answer rt (mk w (Inr (take n buf))) w))))"

section \<open>The end of a transaction and of the session\<close>

definition op_disposition :: "('d, 'k, 'l, 'q) driver \<Rightarrow> disposition \<Rightarrow> 'd \<Rightarrow> unit called \<times> 'd" where
  "op_disposition dr d = (case d of CommitIt \<Rightarrow> op_commit dr | RollItBack \<Rightarrow> op_rollback dr)"

fun disposition_operation :: "disposition \<Rightarrow> completed_operation" where
  "disposition_operation CommitIt = Commit"
| "disposition_operation RollItBack = Rollback"

definition resolve_transaction ::
  "('d, 'k, 'l, 'q) driver \<Rightarrow> disposition \<Rightarrow> reply_to \<Rightarrow> ('d, 'k, 'l) worker \<Rightarrow> flow \<times> ('d, 'k, 'l) worker" where
  "resolve_transaction dr d rt w =
     (let mk = (\<lambda>w res r. Completed (w_session w) r (disposition_operation d) res) in
      case with_connection (op_disposition dr d) w of
        (None, w) \<Rightarrow> (Continue, snd (answer rt (mk w (Inl (terminal_error (w_shared w)))) w))
      | (Some outcome, w) \<Rightarrow>
          let w = (case outcome of
                     Inr _ \<Rightarrow> release_results dr (on_shared note_commit_or_rollback w)
                   | Inl e \<Rightarrow> on_shared (note_error e) w);
              w = note_transaction_state_after dr (error_of outcome) w
          in (Continue, snd (answer rt (mk w outcome) w)))"

fun close_failure :: "disposition \<Rightarrow> db_error \<Rightarrow> close_error" where
  "close_failure CommitIt e = CommitFailed e"
| "close_failure RollItBack e = RollbackFailed e"

definition close_result_of :: "db_error + unit \<Rightarrow> close_error + unit" where
  "close_result_of r = (case r of Inl e \<Rightarrow> Inl (CloseFailed e) | Inr u \<Rightarrow> Inr u)"

definition answer_close ::
  "reply_to \<Rightarrow> close_error + unit \<Rightarrow> ('d, 'k, 'l) worker \<Rightarrow> ('d, 'k, 'l) worker" where
  "answer_close rt res w = snd (answer rt (\<lambda>r. SessionClosed (w_session w) r (PClosed res)) w)"

text \<open>The close once nothing can refuse it any more.\<close>

definition close_for_good ::
  "('d, 'k, 'l, 'q) driver \<Rightarrow> bool \<Rightarrow> reply_to \<Rightarrow> ('d, 'k, 'l) worker \<Rightarrow> ('d, 'k, 'l) worker" where
  "close_for_good dr explicit rt w =
     (case close_connection dr (release_results dr w) of
        (outcome, w) \<Rightarrow>
          answer_close rt (close_result_of outcome)
            (on_shared (\<lambda>s. mark_ended (if explicit then Cleanly else Unresolved) (mark_closed s)) w))"

definition close_session ::
  "('d, 'k, 'l, 'q) driver \<Rightarrow> close_intent \<Rightarrow> reply_to \<Rightarrow> ('d, 'k, 'l) worker \<Rightarrow> flow \<times> ('d, 'k, 'l) worker" where
  "close_session dr intent rt w =
     (if \<not> connected w
      then let e = lost_transaction_error (w_shared w);
               w = on_shared (\<lambda>s. mark_ended Unresolved (mark_closed s)) (release_results dr w)
           in (Exit, answer_close rt (Inl (CloseFailed e)) w)
      else case intent of
        Abandon \<Rightarrow> (Exit, close_for_good dr False rt w)
      | Explicit None \<Rightarrow>
          if possibly_active (w_shared w) then (Continue, answer_close rt (Inl DecisionRequired) w)
          else (Exit, close_for_good dr True rt w)
      | Explicit (Some d) \<Rightarrow>
          (case with_connection (op_disposition dr d) w of
             (Some (Inl e), w) \<Rightarrow> (Continue, answer_close rt (Inl (close_failure d e)) (on_shared (note_error e) w))
           | (_, w) \<Rightarrow>
               (Exit, close_for_good dr True rt
                  (on_shared (\<lambda>s. (note_commit_or_rollback s)\<lparr>transaction_resolved_at_end := True\<rparr>) w))))"

section \<open>Dispatch\<close>

definition simple_operation ::
  "('d \<Rightarrow> unit called \<times> 'd) \<Rightarrow> completed_operation \<Rightarrow>
   (db_error + unit \<Rightarrow> ('d, 'k, 'l) worker \<Rightarrow> ('d, 'k, 'l) worker) \<Rightarrow> reply_to \<Rightarrow> ('d, 'k, 'l) worker \<Rightarrow>
   flow \<times> ('d, 'k, 'l) worker" where
  "simple_operation f opn after rt w =
     (let mk = (\<lambda>w res r. Completed (w_session w) r opn res) in
      case with_connection f w of
        (None, w) \<Rightarrow> (Continue, snd (answer rt (mk w (Inl (terminal_error (w_shared w)))) w))
      | (Some outcome, w) \<Rightarrow> let w = after outcome w in (Continue, snd (answer rt (mk w outcome) w)))"

fun run_command ::
  "('d, 'k, 'l, 'q) driver \<Rightarrow> layout \<Rightarrow> 'q command \<Rightarrow> ('d, 'k, 'l) worker \<Rightarrow> (flow \<times> ('d, 'k, 'l) worker) option" where
  "run_command dr lay (DoExecute st rt) w = execute dr st rt w"
| "run_command dr lay (DoFetchBatch r n rt) w = Some (fetch_batch dr r n rt w)"
| "run_command dr lay (DoFetchSegment t n rt) w = Some (fetch_segment dr lay t n rt w)"
| "run_command dr lay (DoCloseResult r rt) w =
     (case (case owned_result w r of Inl e \<Rightarrow> (Inl e, w) | Inr i \<Rightarrow> close_result dr i w) of
        (outcome, w) \<Rightarrow>
          let w = note_failure outcome w
          in Some (Continue, snd (answer rt (\<lambda>q. Completed (w_session w) q (ClosedResult r) outcome) w)))"
| "run_command dr lay (DoCommit rt) w = Some (resolve_transaction dr CommitIt rt w)"
| "run_command dr lay (DoRollback rt) w = Some (resolve_transaction dr RollItBack rt w)"
| "run_command dr lay (DoSavepoint n rt) w = Some (simple_operation (op_savepoint dr n) Savepoint note_failure rt w)"
| "run_command dr lay (DoRollbackTo n rt) w =
     Some (simple_operation (op_rollback_to dr n) RollbackToSavepoint
       (\<lambda>outcome w. note_transaction_state_after dr (error_of outcome)
          (case outcome of Inr _ \<Rightarrow> release_results dr w | Inl e \<Rightarrow> on_shared (note_error e) w)) rt w)"
| "run_command dr lay (DoPing rt) w =
     Some (simple_operation (op_ping dr) Ping
       (\<lambda>outcome w. on_shared (case outcome of Inr _ \<Rightarrow> mark_validated | Inl e \<Rightarrow> note_error e) w) rt w)"
| "run_command dr lay (DoReadLob h n rt) w = Some (read_lob_chunk dr h n rt w)"
| "run_command dr lay (DoCloseLob h rt) w =
     (case owned_lob w h of
        Inl e \<Rightarrow> Some (Continue, snd (answer rt (\<lambda>q. Completed (w_session w) q (ClosedLob h) (Inl e)) w))
      | Inr h' \<Rightarrow>
          let w = unpark [h'] w
          in Some (Continue, snd (answer rt (\<lambda>q. Completed (w_session w) q (ClosedLob h) (Inr ())) w)))"
| "run_command dr lay (DoSetServerOutput s rt) w = Some (set_server_output dr s rt w)"
| "run_command dr lay (DoClose intent rt) w = Some (close_session dr intent rt w)"

fun command_reply :: "'q command \<Rightarrow> reply_to" where
  "command_reply (DoExecute _ rt) = rt"
| "command_reply (DoFetchBatch _ _ rt) = rt"
| "command_reply (DoFetchSegment _ _ rt) = rt"
| "command_reply (DoCloseResult _ rt) = rt"
| "command_reply (DoCommit rt) = rt"
| "command_reply (DoRollback rt) = rt"
| "command_reply (DoSavepoint _ rt) = rt"
| "command_reply (DoRollbackTo _ rt) = rt"
| "command_reply (DoPing rt) = rt"
| "command_reply (DoReadLob _ _ rt) = rt"
| "command_reply (DoCloseLob _ rt) = rt"
| "command_reply (DoSetServerOutput _ rt) = rt"
| "command_reply (DoClose _ rt) = rt"

text \<open>The event a failed request becomes: \<^verbatim>\<open>ReplyPayload::into_event\<close> of an error.\<close>

fun failure_event :: "session_id \<Rightarrow> 'q command \<Rightarrow> db_error \<Rightarrow> request_id \<Rightarrow> 'l core_event" where
  "failure_event s (DoExecute _ _) e r = Executed s r (Inl e)"
| "failure_event s (DoFetchBatch res _ _) e r = Fetched s r res (PFetched (Inl e))"
| "failure_event s (DoFetchSegment t _ _) e r = FetchedSegment s r t (Inl e)"
| "failure_event s (DoCloseResult res _) e r = Completed s r (ClosedResult res) (Inl e)"
| "failure_event s (DoCommit _) e r = Completed s r Commit (Inl e)"
| "failure_event s (DoRollback _) e r = Completed s r Rollback (Inl e)"
| "failure_event s (DoSavepoint _ _) e r = Completed s r Savepoint (Inl e)"
| "failure_event s (DoRollbackTo _ _) e r = Completed s r RollbackToSavepoint (Inl e)"
| "failure_event s (DoPing _) e r = Completed s r Ping (Inl e)"
| "failure_event s (DoReadLob h _ _) e r = LobChunk s r h (Inl e)"
| "failure_event s (DoCloseLob h _) e r = Completed s r (ClosedLob h) (Inl e)"
| "failure_event s (DoSetServerOutput _ _) e r = ServerOutputConfigured s r (PConfigured (Inl e))"
| "failure_event s (DoClose _ _) e r = SessionClosed s r (PClosed (Inl (CloseFailed e)))"

fun is_close :: "'q command \<Rightarrow> bool" where
  "is_close (DoClose _ _) = True"
| "is_close _ = False"

definition fail_command :: "'q command \<Rightarrow> ('d, 'k, 'l) worker \<Rightarrow> ('d, 'k, 'l) worker" where
  "fail_command c w =
     snd (answer (command_reply c) (failure_event (w_session w) c (terminal_error (w_shared w))) w)"

text \<open>A request whose reply channel is dropped unanswered (\<^verbatim>\<open>Drop for ReplyTo\<close>, \<^verbatim>\<open>Drop for
  CloseReplyTo\<close>): only an event-path request is answered.\<close>

definition drop_event :: "session_id \<Rightarrow> 'l session_shared \<Rightarrow> 'q command \<Rightarrow> request_id \<Rightarrow> 'l core_event" where
  "drop_event session s c r =
     (if is_close c
      then SessionClosed session r (PClosed (close_result_of
             (case settled_close s of Some res \<Rightarrow> res | None \<Rightarrow> Inl (terminal_error s))))
      else failure_event session c (terminal_error s) r)"

definition drop_command :: "session_id \<Rightarrow> 'q command \<Rightarrow> 'l session_shared \<Rightarrow> 'l session_shared" where
  "drop_command session c s =
     (case reply_request (command_reply c) of
        None \<Rightarrow> s
      | Some r \<Rightarrow> reply_event (drop_event session s c r) s)"

fun drain_queue ::
  "('d, 'k, 'l, 'q) driver \<Rightarrow> layout \<Rightarrow> 'q command list \<Rightarrow> ('d, 'k, 'l) worker \<Rightarrow>
   (flow option \<times> 'q command list \<times> ('d, 'k, 'l) worker) option" where
  "drain_queue dr lay [] w = Some (None, [], w)"
| "drain_queue dr lay (c # cs) w =
     (if is_close c
      then (case run_command dr lay c w of None \<Rightarrow> None | Some (fl, w') \<Rightarrow> Some (Some fl, cs, w'))
      else drain_queue dr lay cs (fail_command c w))"

definition announce_terminal ::
  "('d, 'k, 'l, 'q) driver \<Rightarrow> layout \<Rightarrow> flow \<Rightarrow> 'q command list \<Rightarrow> ('d, 'k, 'l) worker \<Rightarrow>
   (flow \<times> 'q command list \<times> ('d, 'k, 'l) worker) option" where
  "announce_terminal dr lay fl queued w =
     (if fl = Exit \<or> terminal_emitted (w_shared w) \<or> \<not> lifecycle_terminal (lifecycle (w_shared w))
      then Some (fl, queued, w)
      else case drain_queue dr lay queued w of
        None \<Rightarrow> None
      | Some (Some fl', cs, w') \<Rightarrow> Some (fl', cs, w')
      | Some (None, cs, w') \<Rightarrow>
          Some (fl, cs, on_shared (\<lambda>s. emit_terminal (transaction_lost_at_end s) s) w'))"

definition validate :: "('d, 'k, 'l, 'q) driver \<Rightarrow> ('d, 'k, 'l) worker \<Rightarrow> ('d, 'k, 'l) worker" where
  "validate dr w =
     (case with_connection (op_ping dr) w of
        (Some (Inr _), w) \<Rightarrow> on_shared mark_validated w
      | (Some (Inl e), w) \<Rightarrow> on_shared (mark_lost_from e) w
      | (None, w) \<Rightarrow> w)"

definition discard_all :: "('d, 'k, 'l, 'q) driver \<Rightarrow> ('d, 'k, 'l) worker \<Rightarrow> ('d, 'k, 'l) worker" where
  "discard_all dr w = release_results dr (snd (close_connection dr w))"

definition dispatch_inner ::
  "('d, 'k, 'l, 'q) driver \<Rightarrow> layout \<Rightarrow> 'q command \<Rightarrow> 'q command list \<Rightarrow> ('d, 'k, 'l) worker \<Rightarrow>
   (flow \<times> 'q command list \<times> ('d, 'k, 'l) worker) option" where
  "dispatch_inner dr lay c queued w =
     (let check = (lifecycle (w_shared w) = SNeedsValidation \<and> \<not> is_close c);
          w = (if check then validate dr w else w)
      in if check \<and> lifecycle (w_shared w) = SLost
         then announce_terminal dr lay Continue queued (fail_command c (discard_all dr w))
         else case run_command dr lay c w of
           None \<Rightarrow> None
         | Some (fl, w) \<Rightarrow>
             announce_terminal dr lay fl queued
               (if lifecycle (w_shared w) = SLost then discard_all dr w else w))"

definition dispatch ::
  "('d, 'k, 'l, 'q) driver \<Rightarrow> layout \<Rightarrow> 'q command \<Rightarrow> 'q command list \<Rightarrow> ('d, 'k, 'l) worker \<Rightarrow>
   (flow \<times> 'q command list \<times> ('d, 'k, 'l) worker) option" where
  "dispatch dr lay c queued w =
     (case dispatch_inner dr lay c queued (on_shared (\<lambda>s. s\<lparr>driver_calls := driver_calls s + 1\<rparr>) w) of
        None \<Rightarrow> None
      | Some (fl, cs, w') \<Rightarrow> Some (fl, cs, on_shared (\<lambda>s. s\<lparr>driver_calls := driver_calls s - 1\<rparr>) w'))"

text \<open>The end of \<^verbatim>\<open>worker_main\<close>, once the loop is left.\<close>

definition shut_down ::
  "('d, 'k, 'l, 'q) driver \<Rightarrow> 'q command list \<Rightarrow> ('d, 'k, 'l) worker \<Rightarrow> ('d, 'k, 'l) worker" where
  "shut_down dr queued w =
     (let w = on_shared (fold (drop_command (w_session w)) queued) w;
          w = snd (close_connection dr (release_results dr w))
      in on_shared (\<lambda>s. let s = mark_ended Unresolved (mark_closed s) in emit_terminal (transaction_lost_at_end s) s) w)"

end
