(* ===== verification/Session_Worker_Correct.thy ===== *)
theory Session_Worker_Correct
  imports Session_Worker
begin

text \<open>
  What every step of a worker keeps.  \<open>advances\<close> relates the worker before and after a piece
  of work that answers nobody: it keeps the session's identity, never undoes its end, keeps the
  handle tables well-formed and emits nothing but unsolicited events.  Every method is then
  such work, one answer, and such work again (\<open>answers\<close>).
\<close>

section \<open>Work that answers nobody\<close>

fun printed :: "'l core_event emission \<Rightarrow> bool" where
  "printed (Emitted ev) = is_unsolicited ev"
| "printed _ = False"

definition shared_advances :: "'l session_shared \<Rightarrow> 'l session_shared \<Rightarrow> bool" where
  "shared_advances s s' \<longleftrightarrow> shared_session s' = shared_session s \<and> terminal_emitted s' = terminal_emitted s \<and>
     ended_as s' = ended_as s \<and>
     (lifecycle s = SLost \<longrightarrow> lifecycle s' = SLost \<and> lost_reason s' = lost_reason s) \<and>
     (lifecycle_terminal (lifecycle s) \<longrightarrow> lifecycle_terminal (lifecycle s')) \<and>
     (lifecycle s' = SClosed \<longrightarrow> lifecycle s = SClosed) \<and>
     (\<exists>es. emissions s' = emissions s @ es \<and> list_all printed es)"

definition handles_ok :: "('d, 'k, 'l) worker \<Rightarrow> bool" where
  "handles_ok w \<longleftrightarrow> distinct (map fst (cursors w)) \<and> length (cursors w) \<le> max_open_results (limits w) \<and>
     distinct (map fst (parked w)) \<and>
     (\<forall>(h, r, l) \<in> set (parked w). lob_owner h = w_session w \<and> serial h < next_serial w) \<and>
     (lifecycle (w_shared w) = SClosed \<longrightarrow> \<not> connected w)"

definition advances :: "('d, 'k, 'l) worker \<Rightarrow> ('d, 'k, 'l) worker \<Rightarrow> bool" where
  "advances w w' \<longleftrightarrow> w_session w' = w_session w \<and> limits w' = limits w \<and> w_connection_id w' = w_connection_id w \<and>
     shared_advances (w_shared w) (w_shared w') \<and> (handles_ok w \<longrightarrow> handles_ok w') \<and>
     (connected w' \<longrightarrow> connected w) \<and> (torn w \<longrightarrow> torn w')"

lemma shared_advances_refl [intro, simp]: "shared_advances s s"
  by (simp add: shared_advances_def)

lemma shared_advances_trans:
  assumes "shared_advances a b" and "shared_advances b c"
  shows "shared_advances a c"
proof -
  obtain es fs where e: "emissions b = emissions a @ es" "list_all printed es" "emissions c = emissions b @ fs" "list_all printed fs"
    using assms unfolding shared_advances_def by metis
  then have "emissions c = emissions a @ (es @ fs) \<and> list_all printed (es @ fs)" by simp
  moreover have "lifecycle a = SLost \<longrightarrow> lifecycle c = SLost \<and> lost_reason c = lost_reason a"
    "lifecycle c = SClosed \<longrightarrow> lifecycle a = SClosed"
    using assms unfolding shared_advances_def by metis+
  ultimately show ?thesis using assms unfolding shared_advances_def by metis
qed

lemma advances_refl [intro, simp]: "advances w w"
  by (simp add: advances_def)

lemma advances_trans [trans]: "advances a b \<Longrightarrow> advances b c \<Longrightarrow> advances a c"
  unfolding advances_def using shared_advances_trans by auto

lemma advances_shared: "shared_advances (w_shared w) (f (w_shared w)) \<Longrightarrow> advances w (on_shared f w)"
  by (auto simp: advances_def on_shared_def handles_ok_def shared_advances_def)

lemma advances_on_shared: "advances w w' \<Longrightarrow> shared_advances (w_shared w') (f (w_shared w')) \<Longrightarrow> advances w (on_shared f w')"
  using advances_shared advances_trans by blast

named_theorems quiet

lemma shared_emit [quiet]: "is_unsolicited ev \<Longrightarrow> shared_advances s (emit_event ev s)"
  by (simp add: shared_advances_def emit_event_def)

lemma shared_note_error [quiet]: "shared_advances s (note_error e s)"
  by (simp add: shared_advances_def note_error_def split: session_state.split)

lemma shared_mark_validated [quiet]: "shared_advances s (mark_validated s)"
  by (simp add: shared_advances_def mark_validated_def)

lemma shared_collect [quiet]: "shared_advances s (collect_server_output lines n f s)"
  by (simp add: shared_advances_def collect_server_output_def Let_def)

lemma shared_watch:
  assumes "\<And>s. shared_advances s (f s)"
  shows "shared_advances s (with_transaction_watch f s)"
  using assms [of s] shared_emit [of "TransactionStateChanged (shared_session (f s)) (possibly_active (f s))" "f s"] shared_advances_trans
  by (auto simp: with_transaction_watch_def Let_def)

lemma shared_resolved [quiet]: "shared_advances s (note_commit_or_rollback s)"
  unfolding note_commit_or_rollback_def by (rule shared_watch) (simp add: shared_advances_def)

lemma shared_driver_state [quiet]: "shared_advances s (note_driver_transaction_state st s)"
  unfolding note_driver_transaction_state_def by (rule shared_watch) (simp add: shared_advances_def)

lemma shared_statement [quiet]: "shared_advances s (note_statement k st x s)"
  unfolding note_statement_def by (rule shared_watch) (simp add: shared_advances_def Let_def)

lemma shared_calls [quiet]: "shared_advances s (s\<lparr>driver_calls := n\<rparr>)"
  by (simp add: shared_advances_def)

section \<open>Calls and handles\<close>

lemma call_driver_advances [quiet]: "call_driver f w = (r, w') \<Longrightarrow> advances w w'"
  by (auto simp: call_driver_def advances_def handles_ok_def split: called.splits prod.splits)

lemma call_driver_fields:
  "call_driver f w = (r, w') \<Longrightarrow> w_shared w' = w_shared w \<and> cursors w' = cursors w \<and> parked w' = parked w \<and>
    connected w' = connected w \<and> server_output w' = server_output w \<and> next_serial w' = next_serial w \<and>
    exact_transaction_state w' = exact_transaction_state w \<and> server_output_supported w' = server_output_supported w"
  by (auto simp: call_driver_def split: called.splits prod.splits)

lemma with_connection_advances [quiet]: "with_connection f w = (r, w') \<Longrightarrow> advances w w'"
  by (auto simp: with_connection_def split: if_splits prod.splits dest: call_driver_advances)

lemma note_state_after_advances [quiet]: "advances w (note_transaction_state_after dr eo w)"
  unfolding note_transaction_state_after_def by (intro advances_shared quiet)

lemma note_failure_advances [quiet]: "advances w (note_failure r w)"
  by (auto simp: note_failure_def intro: advances_shared quiet split: sum.split)

lemma handles_shrink:
  assumes "handles_ok w" and "set (parked w') \<subseteq> set (parked w)" and "distinct (map fst (parked w'))"
    and "set (cursors w') \<subseteq> set (cursors w)" and "distinct (map fst (cursors w'))"
    and "w_session w' = w_session w" and "limits w' = limits w" and "next_serial w' = next_serial w"
    and "w_shared w' = w_shared w" and "connected w' = connected w"
  shows "handles_ok w'"
proof -
  have "length (cursors w') = card (set (cursors w'))"
    using assms(5) by (metis distinct_card distinct_map)
  also have "\<dots> \<le> card (set (cursors w))" using assms(4) by (simp add: card_mono)
  also have "\<dots> \<le> length (cursors w)" by (rule card_length)
  finally show ?thesis using assms by (auto simp: handles_ok_def)
qed

lemma distinct_fst_filter: "distinct (map fst xs) \<Longrightarrow> distinct (map fst (filter P xs))"
  by (induction xs) auto

lemma unpark_parked_advances: "advances w (w\<lparr>parked := filter P (parked w)\<rparr>)"
  unfolding advances_def
proof (intro conjI impI)
  assume h: "handles_ok w"
  then show "handles_ok (w\<lparr>parked := filter P (parked w)\<rparr>)"
    by (intro handles_shrink [OF h]) (auto simp: handles_ok_def distinct_fst_filter)
qed auto

lemma drop_cursor_advances: "advances w (w\<lparr>cursors := AList.delete i (cursors w)\<rparr>)"
  unfolding advances_def
proof (intro conjI impI)
  assume h: "handles_ok w"
  then show "handles_ok (w\<lparr>cursors := AList.delete i (cursors w)\<rparr>)"
    by (intro handles_shrink [OF h])
      (auto simp: handles_ok_def distinct_delete AList.delete_eq distinct_fst_filter)
qed auto

lemma unpark_advances [quiet]: "advances w (unpark hs w)"
  unfolding unpark_def by (rule unpark_parked_advances)

lemma close_result_advances [quiet]: "close_result dr i w = (r, w') \<Longrightarrow> advances w w'"
  unfolding close_result_def Let_def
  using unpark_parked_advances [of w "\<lambda>(h, r, l). r \<noteq> Some i"]
    drop_cursor_advances [of "w\<lparr>parked := filter (\<lambda>(h, r, l). r \<noteq> Some i) (parked w)\<rparr>" i]
  by (auto split: option.splits if_splits dest!: call_driver_advances intro: advances_trans)


lemma release_registered_advances [quiet]: "advances w (release_registered dr is w)"
proof (induction "is" arbitrary: w)
  case (Cons i "is")
  have "advances w (snd (close_result dr i w))" by (rule close_result_advances [OF surjective_pairing])
  also note Cons
  finally show ?case by simp
qed simp

lemma close_cursors_advances: "advances w (close_cursors dr ks w)"
proof (induction ks arbitrary: w)
  case (Cons k ks)
  have "advances w (if torn w then w else snd (call_driver (cur_close dr k) w))"
    using call_driver_advances [OF surjective_pairing] by auto
  also note Cons
  finally show ?case by simp
qed simp

lemma close_cursors_fields:
  "w_shared (close_cursors dr ks w) = w_shared w \<and> cursors (close_cursors dr ks w) = cursors w \<and>
   parked (close_cursors dr ks w) = parked w \<and> connected (close_cursors dr ks w) = connected w"
proof (induction ks arbitrary: w)
  case (Cons k ks)
  then show ?case using call_driver_fields [OF surjective_pairing, of "cur_close dr k" w] by simp
qed simp

lemma release_results_advances [quiet]: "advances w (release_results dr w)"
proof -
  have "advances w (w\<lparr>parked := [], cursors := []\<rparr>)" by (simp add: advances_def handles_ok_def)
  also have "advances (w\<lparr>parked := [], cursors := []\<rparr>) (release_results dr w)"
    unfolding release_results_def by (rule close_cursors_advances)
  finally show ?thesis .
qed

lemma release_results_fields [simp]:
  "w_shared (release_results dr w) = w_shared w" "cursors (release_results dr w) = []"
  "parked (release_results dr w) = []" "connected (release_results dr w) = connected w"
  using close_cursors_fields [of dr "map snd (cursors w)" "w\<lparr>parked := [], cursors := []\<rparr>"]
  by (simp_all add: release_results_def)

lemma close_connection_advances [quiet]: "close_connection dr w = (r, w') \<Longrightarrow> advances w w'"
proof -
  have "advances w (w\<lparr>connected := False\<rparr>)" by (simp add: advances_def handles_ok_def)
  moreover assume "close_connection dr w = (r, w')"
  ultimately show ?thesis
    by (auto simp: close_connection_def Let_def split: if_splits dest!: call_driver_advances intro: advances_trans)
qed

lemma close_connection_fields:
  "close_connection dr w = (r, w') \<Longrightarrow> \<not> connected w' \<and> w_shared w' = w_shared w \<and> cursors w' = cursors w \<and> parked w' = parked w"
  by (auto simp: close_connection_def Let_def split: if_splits dest!: call_driver_fields)

lemma register_cursor_advances [quiet]: "register_cursor dr k w = (r, w') \<Longrightarrow> advances w w'"
proof -
  assume "register_cursor dr k w = (r, w')"
  moreover have "advances w (w\<lparr>cursors := AList.update (cur_id dr k) k (cursors w)\<rparr>)"
    if "\<not> max_open_results (limits w) \<le> length (cursors w)"
  proof -
    have "length (AList.update i v xs) \<le> Suc (length xs)" for i :: nat and v :: 'b and xs by (induction xs) auto
    from this [of "cur_id dr k" k "cursors w"] that show ?thesis
      by (auto simp: advances_def handles_ok_def distinct_update)
  qed
  ultimately show ?thesis
    by (auto simp: register_cursor_def split: if_splits intro: call_driver_advances [OF surjective_pairing])
qed

lemma park_lob_advances [quiet]: "park_lob dr r l w = (x, w') \<Longrightarrow> advances w w'"
proof -
  assume p: "park_lob dr r l w = (x, w')"
  let ?h = "\<lparr>lob_owner = w_session w, serial = next_serial w\<rparr>"
  have "handles_ok w \<Longrightarrow> ?h \<notin> fst ` set (parked w)" by (fastforce simp: handles_ok_def)
  then have "advances w (w\<lparr>next_serial := next_serial w + 1, parked := parked w @ [(?h, r, l)]\<rparr>)"
    by (auto simp: advances_def handles_ok_def)
  then show ?thesis using p by (auto simp: park_lob_def Let_def split: if_splits)
qed

lemma discard_all_advances [quiet]: "advances w (discard_all dr w)"
proof -
  have "advances w (snd (close_connection dr w))" by (rule close_connection_advances [OF surjective_pairing])
  also have "advances (snd (close_connection dr w)) (discard_all dr w)"
    unfolding discard_all_def by (rule release_results_advances)
  finally show ?thesis .
qed

lemma discard_all_fields [simp]:
  "w_shared (discard_all dr w) = w_shared w" "\<not> connected (discard_all dr w)"
  "cursors (discard_all dr w) = []" "parked (discard_all dr w) = []"
  using close_connection_fields [OF surjective_pairing, of dr w] by (simp_all add: discard_all_def)

section \<open>Executing\<close>

lemma adopt_out_value_advances [quiet]: "adopt_out_value dr v reg w = (r, reg', w') \<Longrightarrow> advances w w'"
  by (auto simp: adopt_out_value_def split: driver_value.splits prod.splits sum.splits
      dest: register_cursor_advances park_lob_advances)

lemma adopt_positional_advances: "adopt_positional dr vs reg w = (r, reg', w') \<Longrightarrow> advances w w'"
proof (induction dr vs reg w arbitrary: r reg' w' rule: adopt_positional.induct)
  case (3 dr v vs reg w)
  obtain x reg1 w1 where a: "adopt_out_value dr v reg w = (x, reg1, w1)" by (cases "adopt_out_value dr v reg w")
  then have "advances w w1" by (rule adopt_out_value_advances)
  with 3 a show ?case by (auto split: sum.splits prod.splits intro: advances_trans)
qed (auto split: sum.splits prod.splits)

lemma adopt_named_advances: "adopt_named dr vs reg w = (r, reg', w') \<Longrightarrow> advances w w'"
proof (induction dr vs reg w arbitrary: r reg' w' rule: adopt_named.induct)
  case (2 dr n v vs reg w)
  obtain x reg1 w1 where a: "adopt_out_value dr v reg w = (x, reg1, w1)" by (cases "adopt_out_value dr v reg w")
  then have "advances w w1" by (rule adopt_out_value_advances)
  with 2 a show ?case by (auto split: sum.splits prod.splits intro: advances_trans)
qed auto

lemma worker_out_values_advances [quiet]: "worker_out_values dr vs reg w = (r, reg', w') \<Longrightarrow> advances w w'"
  by (cases vs) (auto split: prod.splits sum.splits dest: adopt_positional_advances adopt_named_advances)

lemma end_of_transaction_advances [quiet]: "advances w (end_of_transaction dr k w)"
proof -
  have "advances w (on_shared note_commit_or_rollback w)" by (intro advances_shared quiet)
  then show ?thesis using release_results_advances advances_trans by (simp add: end_of_transaction_def) blast
qed

lemma adopt_cursor_advances [quiet]: "adopt_cursor dr ko w = (r, w') \<Longrightarrow> advances w w'"
  by (auto simp: adopt_cursor_def split: option.splits prod.splits sum.splits
      dest!: register_cursor_advances call_driver_advances intro: advances_trans)

lemma note_executed_advances [quiet]: "advances w (note_executed dr k w)"
  by (auto simp: note_executed_def Let_def intro: advances_shared quiet)

lemma note_error_advances: "advances w w' \<Longrightarrow> advances w (on_shared (note_error e) w')"
  by (erule advances_on_shared) (rule shared_note_error)

lemma finish_execute_advances [quiet]: "finish_execute dr out w = (r, w') \<Longrightarrow> advances w w'"
proof -
  assume f: "finish_execute dr out w = (r, w')"
  show ?thesis
  proof (cases out)
    case (Inl e)
    have "advances w (on_shared (note_error e) w)" by (rule note_error_advances) simp
    also have "advances (on_shared (note_error e) w) (note_transaction_state_after dr (Some e) (on_shared (note_error e) w))"
      by (rule note_state_after_advances)
    finally show ?thesis using f Inl by (simp add: finish_execute_def)
  next
    case (Inr o')
    let ?w = "end_of_transaction dr (exec_kind o') w"
    have e: "advances w ?w" by (rule end_of_transaction_advances)
    obtain c w1 where c: "adopt_cursor dr (exec_cursor o') ?w = (c, w1)" by (cases "adopt_cursor dr (exec_cursor o') ?w")
    have a1: "advances w w1" using e adopt_cursor_advances [OF c] by (rule advances_trans)
    show ?thesis
    proof (cases c)
      case (Inl e)
      then show ?thesis using f Inr c a1 by (auto simp: finish_execute_def take_cursor_def Let_def intro: note_error_advances)
    next
      case (Inr t)
      obtain i cols reg where t: "t = (i, cols, reg)" by (cases t)
      obtain v reg2 w2 where v: "worker_out_values dr (exec_out_values o') reg w1 = (v, reg2, w2)"
        by (cases "worker_out_values dr (exec_out_values o') reg w1")
      have a2: "advances w w2" using a1 worker_out_values_advances [OF v] by (rule advances_trans)
      have "advances w (on_shared (note_error e) (release_registered dr reg2 w2))" for e
        using a2 release_registered_advances advances_trans by (blast intro: note_error_advances)
      moreover have "advances w (note_executed dr k w2)" for k using a2 note_executed_advances advances_trans by blast
      ultimately show ?thesis using f \<open>out = Inr o'\<close> c Inr t v
        by (auto simp: finish_execute_def take_cursor_def take_out_values_def Let_def split: sum.splits)
    qed
  qed
qed

end
