(* ===== verification/Session_Worker_Answers.thy ===== *)
theory Session_Worker_Answers
  imports Session_Worker_Correct
begin

text \<open>
  What every method of the worker sends: the one answer its request is owed, with nothing but
  unsolicited events around it.
\<close>

section \<open>Sending\<close>

definition keeps :: "('d, 'k, 'l) worker \<Rightarrow> ('d, 'k, 'l) worker \<Rightarrow> bool" where
  "keeps w w' \<longleftrightarrow> w_session w' = w_session w \<and> limits w' = limits w \<and> w_connection_id w' = w_connection_id w \<and>
     shared_session (w_shared w') = shared_session (w_shared w) \<and>
     terminal_emitted (w_shared w') = terminal_emitted (w_shared w) \<and>
     (ended_as (w_shared w) \<noteq> None \<longrightarrow> ended_as (w_shared w') = ended_as (w_shared w)) \<and>
     (lifecycle (w_shared w) = SLost \<longrightarrow> lifecycle (w_shared w') = SLost \<and> lost_reason (w_shared w') = lost_reason (w_shared w)) \<and>
     (lifecycle_terminal (lifecycle (w_shared w)) \<longrightarrow> lifecycle_terminal (lifecycle (w_shared w'))) \<and>
     (handles_ok w \<longrightarrow> handles_ok w') \<and> (connected w' \<longrightarrow> connected w) \<and> (torn w \<longrightarrow> torn w')"

definition sends :: "'l core_event emission list \<Rightarrow> ('d, 'k, 'l) worker \<Rightarrow> ('d, 'k, 'l) worker \<Rightarrow> bool" where
  "sends es w w' \<longleftrightarrow> keeps w w' \<and> emissions (w_shared w') = emissions (w_shared w) @ es"

definition silent :: "('d, 'k, 'l) worker \<Rightarrow> ('d, 'k, 'l) worker \<Rightarrow> bool" where
  "silent w w' \<longleftrightarrow> (\<exists>es. list_all printed es \<and> sends es w w')"

lemma keeps_refl [simp, intro]: "keeps w w" by (auto simp: keeps_def)

lemma keeps_trans [trans]: "keeps a b \<Longrightarrow> keeps b c \<Longrightarrow> keeps a c" by (auto simp: keeps_def)

lemma sends_Nil [simp, intro]: "sends [] w w" by (auto simp: sends_def)

lemma sends_trans: "sends es a b \<Longrightarrow> sends fs b c \<Longrightarrow> sends (es @ fs) a c"
  by (auto simp: sends_def intro: keeps_trans)

lemma silent_trans: "silent a b \<Longrightarrow> silent b c \<Longrightarrow> silent a c"
  unfolding silent_def using sends_trans by (metis list_all_append)

lemma advances_silent: "advances w w' \<Longrightarrow> silent w w'"
  by (auto simp: silent_def sends_def keeps_def advances_def shared_advances_def)

lemma silent_session: "silent w w' \<Longrightarrow> w_session w' = w_session w"
  by (auto simp: silent_def sends_def keeps_def)

lemma sends_emit: "sends [Emitted ev] w (on_shared (emit_event ev) w)"
  by (simp add: sends_def keeps_def on_shared_def emit_event_def handles_ok_def)

section \<open>Answers\<close>

fun reply_emission :: "reply_to \<Rightarrow> (request_id \<Rightarrow> 'l core_event) \<Rightarrow> 'l core_event emission list" where
  "reply_emission (OneShot r heard) mk = (if heard then [Sent (mk r)] else [])"
| "reply_emission (EventReply r) mk = [Replied (mk r)]"

lemma answer_sends: "sends (reply_emission rt mk) w (snd (answer rt mk w))"
  by (cases rt) (auto simp: sends_def keeps_def on_shared_def reply_event_def handles_ok_def)

lemma answer_pair: "answer rt mk w = (b, w') \<Longrightarrow> sends (reply_emission rt mk) w w'"
  using answer_sends [of rt mk w] by simp

definition well_addressed :: "session_id \<Rightarrow> (request_id \<Rightarrow> 'l core_event) \<Rightarrow> bool" where
  "well_addressed s mk \<longleftrightarrow> (\<forall>r. is_reply (mk r) \<and> event_request (mk r) = Some r \<and> event_session (mk r) = s)"

definition closing_answered :: "reply_to \<Rightarrow> ('d, 'k, 'l) worker \<Rightarrow> ('d, 'k, 'l) worker \<Rightarrow> bool" where
  "closing_answered rt w w' \<longleftrightarrow> (\<exists>pre mk post. well_addressed (w_session w) mk \<and> list_all printed pre \<and> list_all printed post \<and>
     sends (pre @ reply_emission rt mk @ post) w w')"

text \<open>Everything but a close leaves open whether and how the session ended.\<close>

definition stays :: "('d, 'k, 'l) worker \<Rightarrow> ('d, 'k, 'l) worker \<Rightarrow> bool" where
  "stays w w' \<longleftrightarrow> ended_as (w_shared w') = ended_as (w_shared w) \<and>
     (lifecycle (w_shared w') = SClosed \<longrightarrow> lifecycle (w_shared w) = SClosed)"

definition answered :: "reply_to \<Rightarrow> ('d, 'k, 'l) worker \<Rightarrow> ('d, 'k, 'l) worker \<Rightarrow> bool" where
  "answered rt w w' \<longleftrightarrow> closing_answered rt w w' \<and> stays w w'"

lemma stays_trans: "stays a b \<Longrightarrow> stays b c \<Longrightarrow> stays a c" by (simp add: stays_def)

lemma advances_stays: "advances w w' \<Longrightarrow> stays w w'" by (simp add: stays_def advances_def shared_advances_def)

lemma answer_stays: "answer rt mk w = (b, w') \<Longrightarrow> stays w w'"
  by (cases rt) (auto simp: stays_def on_shared_def reply_event_def split: if_splits)

lemma answered_after:
  assumes "silent w w1" and "answer rt mk w1 = (b, w2)" and "silent w2 w'" and "well_addressed (w_session w) mk"
  shows "closing_answered rt w w'"
proof -
  obtain pre where p: "list_all printed pre" "sends pre w w1" using assms(1) by (auto simp: silent_def)
  obtain post where q: "list_all printed post" "sends post w2 w'" using assms(3) by (auto simp: silent_def)
  have "sends (pre @ reply_emission rt mk @ post) w w'"
    using sends_trans [OF p(2) sends_trans [OF answer_pair [OF assms(2)] q(2)]] .
  with p(1) q(1) assms(4) show ?thesis by (auto simp: closing_answered_def)
qed

lemma answered_between:
  "advances w w1 \<Longrightarrow> answer rt mk w1 = (b, w2) \<Longrightarrow> advances w2 w' \<Longrightarrow> well_addressed (w_session w) mk \<Longrightarrow> answered rt w w'"
  unfolding answered_def
  using answered_after [OF advances_silent _ advances_silent] advances_stays answer_stays stays_trans by metis

lemma answered_last:
  "advances w w1 \<Longrightarrow> well_addressed (w_session w) mk \<Longrightarrow> answered rt w (snd (answer rt mk w1))"
  by (rule answered_between [OF _ surjective_pairing]) auto

lemma advances_session: "advances w w' \<Longrightarrow> w_session w' = w_session w"
  by (simp add: advances_def)

lemma well_addressed_simps [simp]:
  "well_addressed s (\<lambda>r. Executed s' r x) \<longleftrightarrow> s' = s"
  "well_addressed s (\<lambda>r. Fetched s' r y p) \<longleftrightarrow> s' = s"
  "well_addressed s (\<lambda>r. FetchedSegment s' r t z) \<longleftrightarrow> s' = s"
  "well_addressed s (\<lambda>r. LobChunk s' r h b) \<longleftrightarrow> s' = s"
  "well_addressed s (\<lambda>r. Completed s' r opn u) \<longleftrightarrow> s' = s"
  "well_addressed s (\<lambda>r. SessionClosed s' r p) \<longleftrightarrow> s' = s"
  "well_addressed s (\<lambda>r. ServerOutputConfigured s' r p) \<longleftrightarrow> s' = s"
  by (auto simp: well_addressed_def)

lemma failure_event_addressed: "well_addressed s (failure_event s c e)"
  by (cases c) (simp_all add: well_addressed_def)

lemma drop_event_addressed: "well_addressed s (drop_event s sh c)"
  using failure_event_addressed [unfolded well_addressed_def] by (auto simp: well_addressed_def drop_event_def)

lemma fail_command_answered: "answered (command_reply c) w (fail_command c w)"
  unfolding fail_command_def by (rule answered_last) (simp_all add: failure_event_addressed)

section \<open>Methods\<close>

lemma drain_step_advances: "drain_step dr rq w = (b, w') \<Longrightarrow> advances w w'"
proof -
  assume d: "drain_step dr rq w = (b, w')"
  have del: "advances w (deliver_server_output rq lines n f w1)" if "advances w w1" for w1 lines n f
    using that by (auto simp: deliver_server_output_def intro!: advances_on_shared shared_emit shared_collect split: option.split)
  obtain x w1 where x: "with_connection (op_take_output dr (server_output_chunk_lines (limits w))
      (server_output_chunk_bytes (limits w))) w = (x, w1)" by fastforce
  then have "advances w w1" by (rule with_connection_advances)
  moreover have "advances w (note_transaction_state_after dr (Some e) (on_shared (note_error e) w1))" for e
    using note_error_advances [OF \<open>advances w w1\<close>] note_state_after_advances advances_trans by blast
  ultimately show ?thesis using d x by (auto simp: drain_step_def Let_def split: if_splits option.splits sum.splits intro: del)
qed

lemma drain_server_output_advances: "drain_server_output dr rq w = Some w' \<Longrightarrow> advances w w'"
proof -
  assume d: "drain_server_output dr rq w = Some w'"
  show ?thesis
  proof (cases "output_enabled (server_output w)")
    case True
    then obtain t where t: "while_option fst (\<lambda>(_, w). drain_step dr rq w) (True, w) = Some t" "w' = snd t"
      using d by (auto simp: drain_server_output_def)
    have step: "advances w (snd (drain_step dr rq w1))" if "advances w w1" for w1
      using that drain_step_advances [OF surjective_pairing] by (rule advances_trans)
    have "advances w (snd t)"
      by (rule while_option_rule [where P = "\<lambda>t. advances w (snd t)", OF _ t(1)]) (auto intro: step)
    with t(2) show ?thesis by simp
  qed (use d in \<open>simp add: drain_server_output_def\<close>)
qed


lemma announce_executing_sends:
  "sends (case reply_request rt of None \<Rightarrow> [] | Some r \<Rightarrow> [Emitted (Executing (w_session w) r (PDeadline (deadline_of dr st)))])
     w (announce_executing dr st rt w)"
  by (cases rt) (simp_all add: announce_executing_def sends_emit)

lemma execute_answered:
  assumes "execute dr st rt w = Some (fl, w')"
  shows "fl = Continue \<and> answered rt (announce_executing dr st rt w) w'"
proof -
  let ?w = "announce_executing dr st rt w"
  obtain x w1 where x: "with_connection (op_execute dr st) ?w = (x, w1)" by fastforce
  then have a1: "advances ?w w1" by (rule with_connection_advances)
  show ?thesis
  proof (cases x)
    case None
    then show ?thesis using assms x a1 by (auto simp: execute_def advances_session intro!: answered_last)
  next
    case (Some out)
    obtain ans w2 where f: "finish_execute dr out w1 = (ans, w2)" by fastforce
    obtain w3 where d: "drain_server_output dr (reply_request rt) w2 = Some w3"
      using assms x Some f by (auto simp: execute_def split: option.splits)
    have a3: "advances ?w w3"
      using a1 finish_execute_advances [OF f] drain_server_output_advances [OF d] advances_trans by blast
    show ?thesis
    proof (cases ans)
      case (Inl e)
      then show ?thesis using assms x Some f d a3 by (auto simp: execute_def advances_session intro!: answered_last)
    next
      case (Inr t)
      obtain v reg where t: "t = (v, reg)" by (cases t)
      let ?mk = "\<lambda>r. Executed (w_session w3) r (Inr v)"
      obtain heard w4 where a: "answer rt ?mk w3 = (heard, w4)" by fastforce
      have "advances w4 (if heard then w4 else release_registered dr reg w4)"
        using release_registered_advances by auto
      from answered_between [OF a3 a this] have "answered rt ?w (if heard then w4 else release_registered dr reg w4)"
        using a3 by (simp add: advances_session)
      then show ?thesis using assms x Some f d Inr t a by (simp add: execute_def)
    qed
  qed
qed

lemma set_server_output_answered: "set_server_output dr st rt w = (fl, w') \<Longrightarrow> fl = Continue \<and> answered rt w w'"
proof -
  assume s: "set_server_output dr st rt w = (fl, w')"
  obtain x w1 where x: "with_connection (op_set_output dr st) w = (x, w1)" by fastforce
  then have a1: "advances w w1" by (rule with_connection_advances)
  have "advances w1 (w1\<lparr>server_output := y\<rparr>)" for y by (simp add: advances_def handles_ok_def)
  then have a2: "advances w (w1\<lparr>server_output := y\<rparr>)" for y using a1 advances_trans by blast
  have "advances w (note_transaction_state_after dr (Some e) (on_shared (note_error e) w1))" for e
    using note_error_advances [OF a1] note_state_after_advances advances_trans by blast
  then have a3: "advances w (case out of Inr y \<Rightarrow> w1\<lparr>server_output := y\<rparr>
      | Inl e \<Rightarrow> note_transaction_state_after dr (Some e) (on_shared (note_error e) w1))" for out
    using a2 by (cases out) auto
  show ?thesis using s x a1 a3 advances_session [OF a3]
    by (auto simp: set_server_output_def Let_def advances_session intro!: answered_last split: if_splits option.splits)
qed

lemma park_rows_advances: "park_rows dr i ix rows c acc w = (r, w') \<Longrightarrow> advances w w'"
proof (induction dr i ix rows c acc w arbitrary: r w' rule: park_rows.induct)
  case (2 dr i ix row rows c acc w)
  then show ?case
    by (fastforce split: prod.splits option.splits sum.splits dest: park_lob_advances intro: advances_trans)
qed simp

lemma park_columns_advances: "park_columns dr i ix cs acc w = (r, w') \<Longrightarrow> advances w w'"
proof (induction dr i ix cs acc w arbitrary: r w' rule: park_columns.induct)
  case (2 dr i ix c cs acc w)
  let ?p = "if data_kind (data c) = KLob then park_rows dr i ix [0..<column_len c] c acc w else (Inr (c, acc), w)"
  obtain x w1 where x: "?p = (x, w1)" by fastforce
  then have a: "advances w w1" by (auto split: if_splits dest: park_rows_advances)
  show ?case
  proof (cases x)
    case (Inl e)
    then show ?thesis using 2(2) x a by simp
  next
    case (Inr t)
    obtain c' acc' where t: "t = (c', acc')" by (cases t)
    obtain y w2 where y: "park_columns dr i (ix + 1) cs acc' w1 = (y, w2)" by fastforce
    have "advances w1 w2" using 2(1) [OF x [symmetric] Inr t [symmetric] y] .
    with a have "advances w w2" by (rule advances_trans)
    then show ?thesis using 2(2) x Inr t y by (auto split: sum.splits prod.splits)
  qed
qed simp

lemma park_batch_lobs_advances: "park_batch_lobs dr i b w = (r, w') \<Longrightarrow> advances w w'"
  by (auto simp: park_batch_lobs_def split: prod.splits sum.splits dest: park_columns_advances)


lemma fetch_batch_answered: "fetch_batch dr res n rt w = (fl, w') \<Longrightarrow> fl = Continue \<and> answered rt w w'"
proof -
  assume f: "fetch_batch dr res n rt w = (fl, w')"
  show ?thesis
  proof (cases "owned_result w res")
    case (Inl e)
    then show ?thesis using f by (auto simp: fetch_batch_def intro!: answered_last)
  next
    case (Inr i)
    show ?thesis
    proof (cases "map_of (cursors w) i")
      case None
      then show ?thesis using f Inr by (auto simp: fetch_batch_def intro!: answered_last)
    next
      case (Some k)
      obtain x w1 where x: "call_driver (cur_fetch dr n k) w = (x, w1)" by fastforce
      then have a1: "advances w w1" by (rule call_driver_advances)
      have c: "advances w (snd (close_result dr i (on_shared (note_error e) w1)))" for e
        using note_error_advances [OF a1] close_result_advances [OF surjective_pairing] advances_trans by blast
      show ?thesis
      proof (cases x)
        case (Inl e)
        then show ?thesis using f Inr Some x advances_session [OF c]
          by (auto simp: fetch_batch_def Let_def intro!: answered_last c)
      next
        case (Inr b)
        obtain y w2 where y: "park_batch_lobs dr i b w1 = (y, w2)" by fastforce
        have a2: "advances w w2" using a1 park_batch_lobs_advances [OF y] by (rule advances_trans)
        show ?thesis
        proof (cases y)
          case (Inl e)
          then show ?thesis using f \<open>owned_result w res = Inr i\<close> Some x Inr y advances_session [OF note_error_advances [OF a2]]
            by (auto simp: fetch_batch_def Let_def intro!: answered_last note_error_advances a2)
        next
          case (Inr fb)
          let ?mk = "\<lambda>r. Fetched (w_session w2) r res (PFetched (Inr fb))"
          obtain heard w3 where a: "answer rt ?mk w2 = (heard, w3)" by fastforce
          have "advances w3 (if heard then w3 else unpark (map (\<lambda>(_, _, h). h) (fetched_lobs fb)) w3)"
            using unpark_advances by auto
          from answered_between [OF a2 a this] show ?thesis
            using f \<open>owned_result w res = Inr i\<close> Some x \<open>x = Inr b\<close> y Inr a a2
            by (simp add: fetch_batch_def Let_def advances_session)
        qed
      qed
    qed
  qed
qed

lemma park_column_worker:
  "park_column (park_serial dr i) row ls st = (r, st') \<Longrightarrow> advances (fst st) (fst st')"
proof (induction "park_serial dr i" row ls st arbitrary: r st' rule: park_column.induct)
  case (3 row l ls st)
  obtain x st1 where x: "park_serial dr i row l st = (x, st1)" by (metis surj_pair)
  then have a: "advances (fst st) (fst st1)"
    by (auto simp: park_serial_def split: prod.splits sum.splits dest: park_lob_advances)
  show ?case
  proof (cases x)
    case (Inr n)
    obtain y st2 where y: "park_column (park_serial dr i) (Suc row) ls st1 = (y, st2)" by (metis surj_pair)
    from 3(1) [OF x [symmetric] Inr y] a have "advances (fst st) (fst st2)" using advances_trans by blast
    then show ?thesis using 3(2) x Inr y by (auto split: sum.splits)
  qed (use 3(2) x a in simp)
qed (auto split: prod.splits sum.splits)

lemma compact_data_worker: "compact_data (park_serial dr i) d m st = (r, st') \<Longrightarrow> advances (fst st) (fst st')"
  by (cases d) (auto split: prod.splits sum.splits dest: park_column_worker)

lemma compact_columns_worker: "compact_columns (park_serial dr i) cs st = (r, st') \<Longrightarrow> advances (fst st) (fst st')"
proof (induction cs arbitrary: st r st')
  case (Cons c cs)
  obtain x st1 where x: "compact_data (park_serial dr i) (data c) (nulls c) st = (x, st1)" by (metis surj_pair)
  then have a: "advances (fst st) (fst st1)" by (rule compact_data_worker)
  show ?case
  proof (cases x)
    case (Inr s1)
    obtain y st2 where y: "compact_columns (park_serial dr i) cs st1 = (y, st2)" by (metis surj_pair)
    from Cons(1) [OF y] a have "advances (fst st) (fst st2)" using advances_trans by blast
    then show ?thesis using Cons(2) x Inr y by (auto simp: into_parts_def split: sum.splits)
  qed (use Cons(2) x a in \<open>simp add: into_parts_def\<close>)
qed simp

lemma compact_batch_worker:
  "compact_batch lay s b (park_serial dr i) st = (r, st') \<Longrightarrow> advances (fst st) (fst st')"
  by (auto simp: compact_batch_def split: prod.splits sum.splits dest: compact_columns_worker)

lemma fetch_segment_answered: "fetch_segment dr lay t n rt w = (fl, w') \<Longrightarrow> fl = Continue \<and> answered rt w w'"
proof -
  assume f: "fetch_segment dr lay t n rt w = (fl, w')"
  show ?thesis
  proof (cases "owned_result w (ticket_result t)")
    case (Inl e)
    then show ?thesis using f by (auto simp: fetch_segment_def intro!: answered_last)
  next
    case (Inr i)
    note own = Inr
    show ?thesis
    proof (cases "map_of (cursors w) i")
      case None
      then show ?thesis using f Inr by (auto simp: fetch_segment_def intro!: answered_last)
    next
      case (Some k)
      obtain x w1 where x: "call_driver (fetch_known dr n k) w = (x, w1)" by fastforce
      then have a1: "advances w w1" by (rule call_driver_advances)
      have c: "advances w (snd (close_result dr i (on_shared (note_error e) w2)))" if "advances w w2" for e w2
        using note_error_advances [OF that] close_result_advances [OF surjective_pairing] advances_trans by blast
      show ?thesis
      proof (cases x)
        case (Inl e)
        then show ?thesis using f own Some x advances_session [OF c [OF a1]]
          by (auto simp: fetch_segment_def Let_def intro!: answered_last c a1)
      next
        case (Inr p)
        obtain b known where p: "p = (b, known)" by (cases p)
        obtain y w2 hs where y: "compact_batch lay (w_session w1) b (park_serial dr i) (w1, []) = (y, (w2, hs))" by (metis surj_pair)
        have a2: "advances w w2" using a1 compact_batch_worker [OF y] advances_trans by auto
        show ?thesis
        proof (cases y)
          case (Inl e)
          then show ?thesis using f own Some x Inr p y advances_session [OF c [OF a2]]
            by (auto simp: fetch_segment_def Let_def intro!: answered_last c a2)
        next
          case (Inr sg)
          let ?mk = "\<lambda>r. FetchedSegment (w_session w2) r t (Inr \<lparr>segment = sg, reply_exhausted = (known \<or> batch_rows b = 0)\<rparr>)"
          obtain heard w3 where a: "answer rt ?mk w2 = (heard, w3)" by fastforce
          have "advances w3 (if heard then w3 else unpark hs w3)" using unpark_advances by auto
          from answered_between [OF a2 a this] show ?thesis
            using f own Some x \<open>x = Inr p\<close> p y Inr a a2
            by (simp add: fetch_segment_def Let_def advances_session)
        qed
      qed
    qed
  qed
qed

lemma read_lob_chunk_answered: "read_lob_chunk dr h n rt w = (fl, w') \<Longrightarrow> fl = Continue \<and> answered rt w w'"
proof -
  assume f: "read_lob_chunk dr h n rt w = (fl, w')"
  show ?thesis
  proof (cases "owned_lob w h")
    case (Inl e)
    then show ?thesis using f by (auto simp: read_lob_chunk_def intro!: answered_last)
  next
    case (Inr h')
    show ?thesis
    proof (cases "map_of (parked w) h'")
      case None
      then show ?thesis using f Inr by (auto simp: read_lob_chunk_def Let_def intro!: answered_last)
    next
      case (Some q)
      obtain r l where q: "q = (r, l)" by (cases q)
      obtain x w1 where x: "call_driver (lob_read dr (min n (max_lob_chunk_bytes (limits w))) l) w = (x, w1)" by fastforce
      then have a1: "advances w w1" by (rule call_driver_advances)
      have a2: "advances w (unpark [h'] (on_shared (note_error e) w1))" for e
        using note_error_advances [OF a1] unpark_advances advances_trans by blast
      show ?thesis using f Inr Some q x a1 advances_session [OF a1] advances_session [OF a2]
        by (auto simp: read_lob_chunk_def Let_def intro!: answered_last a2 split: sum.splits prod.splits)
    qed
  qed
qed

lemma simple_operation_answered:
  assumes "simple_operation f opn after rt w = (fl, w')" and "\<And>out w. advances w (after out w)"
  shows "fl = Continue \<and> answered rt w w'"
proof -
  obtain x w1 where x: "with_connection f w = (x, w1)" by fastforce
  then have a1: "advances w w1" by (rule with_connection_advances)
  have a2: "advances w (after out w1)" for out using a1 assms(2) advances_trans by blast
  show ?thesis using assms(1) x advances_session [OF a1] advances_session [OF a2]
    by (auto simp: simple_operation_def Let_def intro!: answered_last a1 a2 split: option.splits)
qed

lemma resolve_transaction_answered: "resolve_transaction dr d rt w = (fl, w') \<Longrightarrow> fl = Continue \<and> answered rt w w'"
proof -
  assume f: "resolve_transaction dr d rt w = (fl, w')"
  obtain x w1 where x: "with_connection (op_disposition dr d) w = (x, w1)" by fastforce
  then have a1: "advances w w1" by (rule with_connection_advances)
  have "advances w (release_results dr (on_shared note_commit_or_rollback w1))"
    using advances_on_shared [OF a1, of note_commit_or_rollback] shared_resolved release_results_advances advances_trans by blast
  then have "advances w (case out of Inr _ \<Rightarrow> release_results dr (on_shared note_commit_or_rollback w1)
      | Inl e \<Rightarrow> on_shared (note_error e) w1)" for out using note_error_advances [OF a1] by (cases out) auto
  then have a2: "advances w (note_transaction_state_after dr eo (case out of
      Inr _ \<Rightarrow> release_results dr (on_shared note_commit_or_rollback w1) | Inl e \<Rightarrow> on_shared (note_error e) w1))" for out eo
    using note_state_after_advances advances_trans by blast
  show ?thesis using f x advances_session [OF a1] advances_session [OF a2]
    by (auto simp: resolve_transaction_def Let_def intro!: answered_last a1 a2 split: option.splits)
qed


section \<open>Closing\<close>

lemma answer_fields:
  "answer rt mk w = (b, w') \<Longrightarrow> connected w' = connected w \<and> cursors w' = cursors w \<and> parked w' = parked w \<and>
    lifecycle (w_shared w') = lifecycle (w_shared w) \<and> ended_as (w_shared w') = ended_as (w_shared w) \<and>
    possibly_active (w_shared w') = possibly_active (w_shared w) \<and>
    transaction_resolved_at_end (w_shared w') = transaction_resolved_at_end (w_shared w)"
  by (cases rt) (auto simp: on_shared_def reply_event_def possibly_active_def split: if_splits)

lemma mark_over:
  "lifecycle_terminal (lifecycle (mark_ended how (mark_closed s)))" "ended_as (mark_ended how (mark_closed s)) \<noteq> None"
  by (auto simp: mark_ended_def mark_closed_def split: option.splits)

lemma mark_over_silent: "\<not> connected w \<Longrightarrow> silent w (on_shared (\<lambda>s. mark_ended how (mark_closed s)) w)"
  unfolding silent_def sends_def keeps_def
  by (intro exI [of _ "[]"]) (auto simp: on_shared_def mark_ended_def mark_closed_def handles_ok_def split: option.splits)

definition over :: "('d, 'k, 'l) worker \<Rightarrow> bool" where
  "over w \<longleftrightarrow> \<not> connected w \<and> cursors w = [] \<and> parked w = [] \<and> lifecycle_terminal (lifecycle (w_shared w)) \<and>
     ended_as (w_shared w) \<noteq> None"

lemma close_answered_over:
  assumes "advances w w1" and "\<not> connected w1" and "cursors w1 = []" and "parked w1 = []"
  shows "closing_answered rt w (answer_close rt res (on_shared (\<lambda>s. mark_ended how (mark_closed s)) w1)) \<and>
    over (answer_close rt res (on_shared (\<lambda>s. mark_ended how (mark_closed s)) w1))"
proof -
  let ?w = "on_shared (\<lambda>s. mark_ended how (mark_closed s)) w1"
  have a: "silent w ?w" by (rule silent_trans [OF advances_silent [OF assms(1)] mark_over_silent [OF assms(2)]])
  have "over ?w" using assms(2-) mark_over(1,2) [of how "w_shared w1"] by (simp add: over_def on_shared_def)
  then have "over (answer_close rt res ?w)" unfolding answer_close_def
    using answer_fields [OF surjective_pairing, of rt "\<lambda>r. SessionClosed (w_session ?w) r (PClosed res)" ?w] by (simp add: over_def)
  moreover have "closing_answered rt w (answer_close rt res ?w)" unfolding answer_close_def
    by (rule answered_after [OF a surjective_pairing]) (auto simp: silent_session [OF a] intro: advances_silent)
  ultimately show ?thesis by simp
qed

lemma close_for_good_answered:
  assumes "advances w w1"
  shows "closing_answered rt w (close_for_good dr explicit rt w1) \<and> over (close_for_good dr explicit rt w1)"
proof -
  obtain out w2 where c: "close_connection dr (release_results dr w1) = (out, w2)" by fastforce
  have "advances w w2"
    using assms release_results_advances close_connection_advances [OF c] advances_trans by blast
  moreover have "\<not> connected w2" "cursors w2 = []" "parked w2 = []" using close_connection_fields [OF c] by simp_all
  ultimately show ?thesis using close_answered_over [of w w2] c by (simp add: close_for_good_def)
qed

lemma answer_close_answered: "advances w w1 \<Longrightarrow> answered rt w (answer_close rt res w1)"
  unfolding answer_close_def by (rule answered_last) (simp_all add: advances_session)

lemma shared_resolving: "shared_advances s ((note_commit_or_rollback s)\<lparr>transaction_resolved_at_end := True\<rparr>)"
proof -
  have "shared_advances (note_commit_or_rollback s) ((note_commit_or_rollback s)\<lparr>transaction_resolved_at_end := True\<rparr>)"
    by (simp add: shared_advances_def)
  with shared_resolved show ?thesis by (rule shared_advances_trans)
qed

lemma close_session_answered:
  assumes "close_session dr intent rt w = (fl, w')"
  shows "closing_answered rt w w' \<and> (fl = Exit \<longrightarrow> over w') \<and> (fl = Continue \<longrightarrow> stays w w')"
proof (cases "connected w")
  case False
  have "advances w (release_results dr w)" by (rule release_results_advances)
  from close_answered_over [OF this] False assms show ?thesis
    by (auto simp: close_session_def Let_def)
next
  case True
  note good = close_for_good_answered
  show ?thesis
  proof (cases intent)
    case Abandon
    then show ?thesis using assms True good [of w w] by (auto simp: close_session_def)
  next
    case (Explicit dsp)
    show ?thesis
    proof (cases dsp)
      case None
      then show ?thesis using assms True Explicit good [of w w] answer_close_answered [of w w]
        by (auto simp: close_session_def answered_def split: if_splits)
    next
      case (Some d)
      obtain x w1 where x: "with_connection (op_disposition dr d) w = (x, w1)" by fastforce
      then have a1: "advances w w1" by (rule with_connection_advances)
      have a2: "advances w (on_shared (\<lambda>s. (note_commit_or_rollback s)\<lparr>transaction_resolved_at_end := True\<rparr>) w1)"
        by (rule advances_on_shared [OF a1]) (rule shared_resolving)
      have "answered rt w (answer_close rt res (on_shared (note_error e) w1))" for e res
        by (rule answer_close_answered [OF note_error_advances [OF a1]])
      then show ?thesis using assms True Explicit Some x good [OF a2]
        by (auto simp: close_session_def answered_def split: option.splits sum.splits)
    qed
  qed
qed

section \<open>Every command is answered once\<close>

fun emission_requests :: "'l core_event emission \<Rightarrow> request_id list" where
  "emission_requests (Replied ev) = (case event_request ev of None \<Rightarrow> [] | Some r \<Rightarrow> [r])"
| "emission_requests _ = []"

fun terminal_emission :: "'l core_event emission \<Rightarrow> bool" where
  "terminal_emission (Emitted ev) = is_terminal ev"
| "terminal_emission (Replied ev) = is_terminal ev"
| "terminal_emission (Sent ev) = is_terminal ev"

definition replied :: "'l core_event emission list \<Rightarrow> request_id list" where
  "replied es = concat (map emission_requests es)"

definition terminals :: "'l core_event emission list \<Rightarrow> nat" where
  "terminals es = length (filter terminal_emission es)"

definition requests :: "'q command \<Rightarrow> request_id list" where
  "requests c = (case reply_request (command_reply c) of None \<Rightarrow> [] | Some r \<Rightarrow> [r])"

lemma replied_simps [simp]:
  "replied [] = []" "replied (e # es) = emission_requests e @ replied es" "replied (es @ fs) = replied es @ replied fs"
  by (simp_all add: replied_def)

lemma terminals_simps [simp]:
  "terminals [] = 0" "terminals (e # es) = (if terminal_emission e then 1 else 0) + terminals es"
  "terminals (es @ fs) = terminals es + terminals fs"
  by (simp_all add: terminals_def)

lemma printed_silent: "list_all printed es \<Longrightarrow> replied es = [] \<and> terminals es = 0"
proof (induction es)
  case (Cons e es)
  then show ?case by (cases e rule: printed.cases) (auto elim: is_terminal.elims)
qed simp

lemma reply_emission_requests:
  assumes "well_addressed s mk"
  shows "replied (reply_emission rt mk) = (case reply_request rt of None \<Rightarrow> [] | Some r \<Rightarrow> [r])"
    and "terminals (reply_emission rt mk) = 0"
proof -
  have "\<not> is_terminal (mk r)" for r using assms by (cases "mk r") (simp_all add: well_addressed_def, metis is_reply.simps(4))
  then show "replied (reply_emission rt mk) = (case reply_request rt of None \<Rightarrow> [] | Some r \<Rightarrow> [r])"
    and "terminals (reply_emission rt mk) = 0"
    using assms by (cases rt; simp add: well_addressed_def)+
qed

definition serves :: "'q command \<Rightarrow> ('d, 'k, 'l) worker \<Rightarrow> ('d, 'k, 'l) worker \<Rightarrow> bool" where
  "serves c w w' \<longleftrightarrow> (\<exists>es. sends es w w' \<and> replied es = requests c \<and> terminals es = 0)"

lemma around_reply:
  assumes "well_addressed s mk" and "list_all printed pre" and "list_all printed post"
  shows "replied (pre @ reply_emission rt mk @ post) = (case reply_request rt of None \<Rightarrow> [] | Some r \<Rightarrow> [r]) \<and>
    terminals (pre @ reply_emission rt mk @ post) = 0"
  using printed_silent [OF assms(2)] printed_silent [OF assms(3)] reply_emission_requests [OF assms(1), of rt] by simp

lemma closing_answered_serves: "closing_answered (command_reply c) w w' \<Longrightarrow> serves c w w'"
proof -
  assume "closing_answered (command_reply c) w w'"
  then obtain pre mk post where a: "well_addressed (w_session w) mk" "list_all printed pre" "list_all printed post"
    "sends (pre @ reply_emission (command_reply c) mk @ post) w w'" by (auto simp: closing_answered_def)
  then show ?thesis using around_reply [OF a(1-3), of "command_reply c"] unfolding serves_def requests_def by blast
qed

lemma answered_serves: "answered (command_reply c) w w' \<Longrightarrow> serves c w w' \<and> stays w w'"
  by (simp add: answered_def closing_answered_serves)

lemma run_command_serves:
  assumes "run_command dr lay c w = Some (fl, w')"
  shows "serves c w w' \<and> (fl = Exit \<longrightarrow> is_close c \<and> over w') \<and> (fl = Continue \<longrightarrow> stays w w')"
proof (cases c)
  case (DoExecute st rt)
  let ?w = "announce_executing dr st rt w"
  have x: "fl = Continue" "answered rt ?w w'" using execute_answered [of dr st rt w fl w'] assms DoExecute by simp_all
  obtain pre mk post where a: "well_addressed (w_session ?w) mk" "list_all printed pre" "list_all printed post"
    "sends (pre @ reply_emission rt mk @ post) ?w w'" using x(2) by (auto simp: answered_def closing_answered_def)
  have "replied (pre @ reply_emission rt mk @ post) = requests c" "terminals (pre @ reply_emission rt mk @ post) = 0"
    using around_reply [OF a(1-3), of rt] DoExecute by (simp_all add: requests_def)
  then have "serves c w w'" unfolding serves_def
    using sends_trans [OF announce_executing_sends a(4)] by (intro exI conjI) (auto split: option.split)
  moreover have "stays w ?w" by (auto simp: stays_def announce_executing_def on_shared_def emit_event_def split: option.split)
  ultimately show ?thesis using x stays_trans by (auto simp: answered_def)
next
  case (DoCloseResult r rt)
  obtain out w1 where o: "(case owned_result w r of Inl e \<Rightarrow> (Inl e, w) | Inr i \<Rightarrow> close_result dr i w) = (out, w1)" by fastforce
  then have "advances w w1" by (auto split: sum.splits dest: close_result_advances)
  then have a: "advances w (note_failure out w1)" using note_failure_advances advances_trans by blast
  have "answered rt w (snd (answer rt (\<lambda>q. Completed (w_session (note_failure out w1)) q (ClosedResult r) out) (note_failure out w1)))"
    by (rule answered_last [OF a]) (simp add: advances_session [OF a])
  then show ?thesis using assms DoCloseResult o answered_serves [of c w] by (auto simp: Let_def)
next
  case (DoSavepoint n rt)
  then show ?thesis using assms simple_operation_answered [of "op_savepoint dr n" Savepoint note_failure rt w] note_failure_advances
      answered_serves [of c w] by auto
next
  case (DoRollbackTo n rt)
  have "advances v (note_transaction_state_after dr eo (case out of Inr _ \<Rightarrow> release_results dr v | Inl e \<Rightarrow> on_shared (note_error e) v))"
    for out :: "db_error + unit" and eo v
    using release_results_advances note_error_advances note_state_after_advances advances_trans advances_refl
    by (cases out) (simp, blast)+
  then show ?thesis using assms DoRollbackTo answered_serves [of c w]
    by (auto dest!: simple_operation_answered)
next
  case (DoPing rt)
  have "advances v (on_shared (case out of Inr _ \<Rightarrow> mark_validated | Inl e \<Rightarrow> note_error e) v)" for out :: "db_error + unit" and v
    by (cases out) (auto intro: advances_shared quiet)
  then show ?thesis using assms DoPing answered_serves [of c w] by (auto dest!: simple_operation_answered)
next
  case (DoCloseLob h rt)
  have "answered rt w w'"
    using assms DoCloseLob advances_session [OF unpark_advances, of _ w]
    by (auto simp: Let_def split: sum.splits intro!: answered_last unpark_advances)
  moreover have "fl = Continue" using assms DoCloseLob by (auto simp: Let_def split: sum.splits)
  ultimately show ?thesis using answered_serves [of c w w'] DoCloseLob by simp
next
  case (DoClose intent rt)
  then show ?thesis using assms close_session_answered [of dr intent rt w fl w'] closing_answered_serves [of c w w'] by auto
qed (use assms answered_serves [of c w w'] in \<open>auto dest: fetch_batch_answered fetch_segment_answered
    resolve_transaction_answered read_lob_chunk_answered set_server_output_answered\<close>)

end
