(* ===== verification/Session_System.thy ===== *)
theory Session_System
  imports Session_Worker_Answers "HOL-Library.Multiset"
begin

text \<open>
  A session at work: its command channel, its worker and the threads that hold the session.
  Commands are submitted at any time (\<^verbatim>\<open>session.rs\<close>), a failed cancel and an abandon reach
  the shared state from outside, and the worker takes commands in order until it ends.

  A command is one step.  The worker looks into the channel only to drain it, after everything
  else it does for a command, so submissions that arrive meanwhile order before or after the
  step; a cancel that fails while a command runs is ordered around it likewise.
\<close>

section \<open>Steps\<close>

record ('d, 'k, 'l, 'q) system =
  channel :: "'q command list"
  wk :: "('d, 'k, 'l) worker"
  running :: bool
  accepted :: "request_id list" \<comment> \<open>the event-path requests accepted so far\<close>

definition worker_new ::
  "session_id \<Rightarrow> session_limits \<Rightarrow> nat \<Rightarrow> bool \<Rightarrow> bool \<Rightarrow> transaction_state \<Rightarrow> 'd \<Rightarrow> nat \<Rightarrow> ('d, 'k, 'l) worker" where
  "worker_new session lm conn exactly output st d n =
     \<lparr>w_session = session, w_shared = seed_driver_transaction_state st (shared_new session), limits = lm,
      w_connection_id = conn, exact_transaction_state = exactly, server_output_supported = output,
      server_output = Disabled, world = d, connected = True, cursors = [], parked = [], torn = False, next_serial = n\<rparr>"

inductive sys_step ::
  "('d, 'k, 'l, 'q) driver \<Rightarrow> layout \<Rightarrow> ('d, 'k, 'l, 'q) system \<Rightarrow> ('d, 'k, 'l, 'q) system \<Rightarrow> bool"
  for dr :: "('d, 'k, 'l, 'q) driver" and lay where
  submit: "running s \<Longrightarrow> sys_step dr lay s (s\<lparr>channel := channel s @ [c], accepted := accepted s @ requests c\<rparr>)"
| submit_late: "\<not> running s \<Longrightarrow>
    sys_step dr lay s (s\<lparr>wk := on_shared (drop_command (w_session (wk s)) (c :: 'q command)) (wk s), accepted := accepted s @ requests c\<rparr>)"
| submit_settled: "settled_close (w_shared (wk s)) = Some res \<Longrightarrow>
    sys_step dr lay s (s\<lparr>wk := answer_close (EventReply r) (close_result_of res) (wk s), accepted := accepted s @ [r]\<rparr>)"
| work: "running s \<Longrightarrow> channel s = c # cs \<Longrightarrow> dispatch dr lay c cs (wk s) = Some (Continue, cs', w') \<Longrightarrow>
    sys_step dr lay s (s\<lparr>channel := cs', wk := w'\<rparr>)"
| finish: "running s \<Longrightarrow> channel s = c # cs \<Longrightarrow> dispatch dr lay c cs (wk s) = Some (Exit, cs', w') \<Longrightarrow>
    sys_step dr lay s (s\<lparr>channel := [], wk := shut_down dr cs' w', running := False\<rparr>)"
| hang_up: "running s \<Longrightarrow> channel s = [] \<Longrightarrow>
    sys_step dr lay s (s\<lparr>wk := shut_down dr [] (wk s), running := False\<rparr>)"
| cancel_failed: "sys_step dr lay s (s\<lparr>wk := on_shared (note_error e) (wk s)\<rparr>)"
| abandoning: "sys_step dr lay s (s\<lparr>wk := on_shared (\<lambda>sh. sh\<lparr>abandon_requested := True\<rparr>) (wk s)\<rparr>)"

inductive sys_reachable ::
  "('d, 'k, 'l, 'q) driver \<Rightarrow> layout \<Rightarrow> ('d, 'k, 'l, 'q) system \<Rightarrow> bool" for dr lay where
  opened: "sys_reachable dr lay \<lparr>channel = [], wk = worker_new session lm conn exactly output st d n, running = True, accepted = []\<rparr>"
| stepped: "sys_reachable dr lay s \<Longrightarrow> sys_step dr lay s s' \<Longrightarrow> sys_reachable dr lay s'"

section \<open>The queue at the end\<close>

definition serves_all :: "'q command list \<Rightarrow> ('d, 'k, 'l) worker \<Rightarrow> ('d, 'k, 'l) worker \<Rightarrow> bool" where
  "serves_all cs w w' \<longleftrightarrow> (\<exists>es. sends es w w' \<and> replied es = concat (map requests cs) \<and> terminals es = 0)"

lemma serves_all_Nil [simp, intro]: "serves_all [] w w"
  unfolding serves_all_def by (intro exI [of _ "[]"]) simp

lemma serves_all_Cons: "serves c w w1 \<Longrightarrow> serves_all cs w1 w' \<Longrightarrow> serves_all (c # cs) w w'"
proof -
  assume "serves c w w1" "serves_all cs w1 w'"
  then obtain es fs where "sends es w w1" "replied es = requests c" "terminals es = 0"
    "sends fs w1 w'" "replied fs = concat (map requests cs)" "terminals fs = 0"
    by (auto simp: serves_def serves_all_def)
  then show ?thesis unfolding serves_all_def using sends_trans by (intro exI [of _ "es @ fs"]) auto
qed

lemma serves_all_one: "serves c w w' \<Longrightarrow> serves_all [c] w w'"
  using serves_all_Cons [of c w w' "[]" w'] by simp

lemma silent_serves: "silent a b \<Longrightarrow> serves_all cs b c \<Longrightarrow> serves_all cs a c"
  unfolding silent_def serves_all_def using sends_trans printed_silent by fastforce

lemma serves_silent: "serves_all cs a b \<Longrightarrow> silent b c \<Longrightarrow> serves_all cs a c"
proof -
  assume "serves_all cs a b" "silent b c"
  then obtain es fs where "sends es a b" "replied es = concat (map requests cs)" "terminals es = 0"
    "list_all printed fs" "sends fs b c" by (auto simp: silent_def serves_all_def)
  then show ?thesis unfolding serves_all_def using sends_trans printed_silent [of fs] by (intro exI [of _ "es @ fs"]) auto
qed

lemma fail_command_serves: "serves c w (fail_command c w)"
  using answered_serves [OF fail_command_answered] by blast

lemma drop_command_serves: "serves c w (on_shared (drop_command (w_session w) c) w)"
proof (cases "reply_request (command_reply c)")
  case None
  then have "on_shared (drop_command (w_session w) c) w = w" by (simp add: drop_command_def on_shared_def)
  then show ?thesis using None unfolding serves_def by (intro exI [of _ "[]"]) (simp add: requests_def)
next
  case (Some r)
  let ?ev = "drop_event (w_session w) (w_shared w) c r"
  have "event_request ?ev = Some r" "is_reply ?ev"
    using drop_event_addressed [of "w_session w" "w_shared w" c] by (simp_all add: well_addressed_def)
  then have "replied [Replied ?ev] = requests c" "terminals [Replied ?ev] = 0"
    using Some by (simp_all add: requests_def) (cases ?ev; simp)
  moreover have "sends [Replied ?ev] w (on_shared (drop_command (w_session w) c) w)"
    using Some by (simp add: sends_def keeps_def on_shared_def drop_command_def reply_event_def handles_ok_def)
  ultimately show ?thesis unfolding serves_def by blast
qed

lemma drop_commands_serve: "serves_all cs w (on_shared (fold (drop_command (w_session w)) cs) w)"
proof (induction cs arbitrary: w)
  case Nil
  show ?case by (simp add: on_shared_def)
next
  case (Cons c cs)
  let ?w = "on_shared (drop_command (w_session w) c) w"
  have "w_session ?w = w_session w" by (simp add: on_shared_def)
  then have "serves_all cs ?w (on_shared (fold (drop_command (w_session w)) cs) ?w)" using Cons [of ?w] by simp
  moreover have "on_shared (fold (drop_command (w_session w)) cs) ?w = on_shared (fold (drop_command (w_session w)) (c # cs)) w"
    by (simp add: on_shared_def)
  ultimately show ?case using serves_all_Cons [OF drop_command_serves] by metis
qed

lemma drain_queue_serves:
  "drain_queue dr lay cs w = Some (r, rest, w') \<Longrightarrow>
   \<exists>dn. cs = dn @ rest \<and> serves_all dn w w' \<and> (r = None \<longrightarrow> rest = []) \<and> (r = Some Exit \<longrightarrow> over w')"
proof (induction cs arbitrary: w)
  case (Cons c cs)
  show ?case
  proof (cases "is_close c")
    case True
    then show ?thesis using Cons(2) run_command_serves [of dr lay c w]
      by (auto split: option.splits intro!: exI [of _ "[c]"] serves_all_one)
  next
    case False
    then have "drain_queue dr lay cs (fail_command c w) = Some (r, rest, w')" using Cons(2) by simp
    from Cons(1) [OF this] obtain d where "cs = d @ rest" "serves_all d (fail_command c w) w'"
      "r = None \<longrightarrow> rest = []" "r = Some Exit \<longrightarrow> over w'" by blast
    then show ?thesis using serves_all_Cons [OF fail_command_serves] by (intro exI [of _ "c # d"]) auto
  qed
qed auto

section \<open>A worker without a connection\<close>

definition dead :: "('d, 'k, 'l) worker \<Rightarrow> bool" where
  "dead w \<longleftrightarrow> \<not> connected w \<and> cursors w = [] \<and> parked w = []"

lemma dead_shared: "dead (on_shared f w) = dead w"
  by (simp add: dead_def on_shared_def)

lemma dead_answer: "dead (snd (answer rt mk w)) = dead w"
  using answer_fields [OF surjective_pairing, of rt mk w] by (simp add: dead_def)

lemma dead_calls:
  assumes "dead w"
  shows "with_connection f w = (None, w)" "map_of (cursors w) i = None" "map_of (parked w) h = None" "close_result dr i w = (Inr (), w)"
    "dead (unpark hs w)"
  using assms by (auto simp: dead_def with_connection_def close_result_def unpark_def Let_def)

lemma dead_run:
  assumes "dead w" and "run_command dr lay c w = Some (fl, w')"
  shows "dead w'"
proof (cases c)
  case (DoExecute st rt)
  have "dead (announce_executing dr st rt w)"
    using assms(1) by (auto simp: announce_executing_def dead_shared split: option.split)
  then show ?thesis using assms(2) DoExecute by (auto simp: execute_def dead_calls dead_answer)
next
  case (DoCloseResult r rt)
  then show ?thesis using assms
    by (auto simp: dead_calls(4) [OF assms(1)] dead_answer note_failure_def dead_shared Let_def split: sum.splits)
next
  case (DoClose intent rt)
  have "dead (release_results dr w)" "\<not> connected w" using assms(1) by (simp_all add: dead_def)
  then show ?thesis using assms(2) DoClose
    by (auto simp: close_session_def Let_def answer_close_def dead_answer dead_shared)
qed (use assms in \<open>auto simp: dead_calls [OF assms(1)] fetch_batch_def fetch_segment_def resolve_transaction_def
    simple_operation_def read_lob_chunk_def set_server_output_def Let_def dead_answer split: sum.splits if_splits\<close>)


lemma dead_drain:
  "dead w \<Longrightarrow> drain_queue dr lay cs w = Some (r, rest, w') \<Longrightarrow> dead w' \<and> r \<noteq> Some Continue"
proof (induction cs arbitrary: w)
  case (Cons c cs)
  show ?case
  proof (cases "is_close c")
    case True
    then obtain intent rt where c: "c = DoClose intent rt" by (cases c) auto
    have "\<not> connected w" using Cons(2) by (simp add: dead_def)
    then show ?thesis using Cons(2,3) c dead_run [of w dr lay c]
      by (auto simp: close_session_def Let_def split: option.splits)
  next
    case False
    have "dead (fail_command c w)" using Cons(2) by (simp add: fail_command_def dead_answer)
    then show ?thesis using Cons False by simp
  qed
qed simp

section \<open>The invariant of a worker\<close>

definition worker_ok :: "('d, 'k, 'l) worker \<Rightarrow> bool" where
  "worker_ok w \<longleftrightarrow> handles_ok w \<and> shared_session (w_shared w) = w_session w \<and>
     terminals (emissions (w_shared w)) = (if terminal_emitted (w_shared w) then 1 else 0) \<and>
     (terminal_emitted (w_shared w) \<longrightarrow> lifecycle_terminal (lifecycle (w_shared w)) \<and> dead w)"

lemma keeps_calm:
  assumes "worker_ok w" and "sends es w w'" and "terminals es = 0" and "terminal_emitted (w_shared w) \<longrightarrow> dead w'"
  shows "worker_ok w'"
  using assms by (auto simp: worker_ok_def sends_def keeps_def)

text \<open>What one emission of \<^verbatim>\<open>Terminal\<close> does.\<close>

lemma emit_terminal_ok:
  assumes "worker_ok w" and "lifecycle_terminal (lifecycle (w_shared w))" and "dead w"
  shows "worker_ok (on_shared (\<lambda>s. emit_terminal (transaction_lost_at_end s) s) w) \<and>
    terminal_emitted (w_shared (on_shared (\<lambda>s. emit_terminal (transaction_lost_at_end s) s) w))"
  using assms by (auto simp: worker_ok_def on_shared_def emit_terminal_def emit_event_def handles_ok_def dead_def)

definition announced :: "('d, 'k, 'l) worker \<Rightarrow> ('d, 'k, 'l) worker \<Rightarrow> bool" where
  "announced w w' \<longleftrightarrow> (\<exists>es lc cause lost. emissions (w_shared w') =
     emissions (w_shared w) @ es @ [Emitted (Terminal (w_session w) (PTerminal lc cause lost))] \<and> terminals es = 0)"

lemma emit_terminal_announces:
  assumes "\<not> terminal_emitted (w_shared w1)" and "sends es w w1" and "terminals es = 0" and "shared_session (w_shared w) = w_session w"
  shows "announced w (on_shared (\<lambda>s. emit_terminal (transaction_lost_at_end s) s) w1)"
  using assms unfolding announced_def
  by (intro exI [of _ es]) (auto simp: sends_def keeps_def on_shared_def emit_terminal_def emit_event_def)

lemma announce_terminal_effect:
  assumes "announce_terminal dr lay fl queued w = Some (fl', rest, w')" and "worker_ok w"
    and "lifecycle_terminal (lifecycle (w_shared w)) \<longrightarrow> dead w" and "fl = Exit \<longrightarrow> over w"
  shows "worker_ok w' \<and> (fl' = Exit \<longrightarrow> over w' \<and> terminal_emitted (w_shared w') = terminal_emitted (w_shared w)) \<and>
    (\<exists>dn es. queued = dn @ rest \<and> emissions (w_shared w') = emissions (w_shared w) @ es \<and> replied es = concat (map requests dn)) \<and>
    (terminal_emitted (w_shared w') \<noteq> terminal_emitted (w_shared w) \<longrightarrow> rest = [] \<and> announced w w') \<and>
    (lifecycle_terminal (lifecycle (w_shared w')) \<longrightarrow> dead w') \<and> w_session w' = w_session w"
proof (cases "fl = Exit \<or> terminal_emitted (w_shared w) \<or> \<not> lifecycle_terminal (lifecycle (w_shared w))")
  case True
  then have "fl' = fl" "rest = queued" "w' = w" using assms(1) by (auto simp: announce_terminal_def)
  then show ?thesis using assms by (auto intro: exI [of _ "[]"])
next
  case False
  then have ne: "fl = Continue" "\<not> terminal_emitted (w_shared w)" "lifecycle_terminal (lifecycle (w_shared w))"
    by (auto intro: flow.exhaust)
  have dw: "dead w" using assms(3) ne(3) by simp
  obtain r w1 where d: "drain_queue dr lay queued w = Some (r, rest, w1)"
    using assms(1) False by (auto simp: announce_terminal_def split: option.splits)
  from drain_queue_serves [OF d] obtain dn es where q: "queued = dn @ rest" "sends es w w1"
    "replied es = concat (map requests dn)" "terminals es = 0" "r = None \<longrightarrow> rest = []" "r = Some Exit \<longrightarrow> over w1"
    by (auto simp: serves_all_def)
  have te: "\<not> terminal_emitted (w_shared w1)" "lifecycle_terminal (lifecycle (w_shared w1))" "w_session w1 = w_session w"
    using q(2) ne by (simp_all add: sends_def keeps_def)
  have ok: "worker_ok w1" by (rule keeps_calm [OF assms(2) q(2,4)]) (simp add: ne(2))
  have em: "emissions (w_shared w1) = emissions (w_shared w) @ es" using q(2) by (simp add: sends_def)
  show ?thesis
  proof (cases r)
    case (Some f)
    then have "fl' = f" "w' = w1" using assms(1) False d by (auto simp: announce_terminal_def)
    then show ?thesis using ok q te em Some ne dead_drain [OF dw d] by auto
  next
    case None
    let ?w = "on_shared (\<lambda>s. emit_terminal (transaction_lost_at_end s) s) w1"
    have w': "fl' = Continue" "w' = ?w" using assms(1) False d None ne by (auto simp: announce_terminal_def)
    have "dead w1" using dead_drain [OF dw d] by simp
    from emit_terminal_ok [OF ok te(2) this] have "worker_ok ?w" by simp
    moreover have "announced w ?w"
      using emit_terminal_announces [OF te(1) q(2,4)] assms(2) by (simp add: worker_ok_def)
    moreover have "\<exists>es'. emissions (w_shared ?w) = emissions (w_shared w) @ es' \<and> replied es' = concat (map requests dn)"
      using em te(1) q(3) by (auto simp: on_shared_def emit_terminal_def emit_event_def)
    ultimately show ?thesis using w' q(1,5) None te(3) \<open>dead w1\<close> dead_shared by (auto simp: on_shared_def dead_def)
  qed
qed


section \<open>Dispatch\<close>

text \<open>What no step undoes: a loss with its reason, an end, and how the session ended.\<close>

definition firm :: "('d, 'k, 'l) worker \<Rightarrow> ('d, 'k, 'l) worker \<Rightarrow> bool" where
  "firm w w' \<longleftrightarrow> w_session w' = w_session w \<and>
     (ended_as (w_shared w) \<noteq> None \<longrightarrow> ended_as (w_shared w') = ended_as (w_shared w)) \<and>
     (lifecycle (w_shared w) = SLost \<longrightarrow> lifecycle (w_shared w') = SLost \<and> lost_reason (w_shared w') = lost_reason (w_shared w)) \<and>
     (lifecycle_terminal (lifecycle (w_shared w)) \<longrightarrow> lifecycle_terminal (lifecycle (w_shared w')))"

lemma firm_refl [simp]: "firm w w" by (simp add: firm_def)

lemma firm_trans: "firm a b \<Longrightarrow> firm b c \<Longrightarrow> firm a c"
  unfolding firm_def by metis

lemma sends_firm: "sends es w w' \<Longrightarrow> firm w w'"
  by (auto simp: sends_def keeps_def firm_def)

lemma emit_terminal_firm: "firm w (on_shared (\<lambda>s. emit_terminal (transaction_lost_at_end s) s) w)"
  by (simp add: firm_def on_shared_def emit_terminal_def emit_event_def)

lemma announce_terminal_firm:
  assumes "announce_terminal dr lay fl queued w = Some (fl', rest, w')"
  shows "firm w w'"
proof (cases "drain_queue dr lay queued w")
  case None
  then show ?thesis using assms by (auto simp: announce_terminal_def split: if_splits)
next
  case (Some t)
  obtain r cs w1 where t: "t = (r, cs, w1)" by (cases t)
  have "firm w w1" using drain_queue_serves [of dr lay queued w r cs w1] Some t sends_firm by (auto simp: serves_all_def)
  then show ?thesis using assms Some t firm_trans [OF _ emit_terminal_firm]
    by (auto simp: announce_terminal_def split: if_splits option.splits)
qed

lemma validate_advances: "lifecycle (w_shared w) = SNeedsValidation \<Longrightarrow> advances w (validate dr w)"
proof -
  assume l: "lifecycle (w_shared w) = SNeedsValidation"
  obtain x w1 where x: "with_connection (op_ping dr) w = (x, w1)" by fastforce
  then have a: "advances w w1" by (rule with_connection_advances)
  have s: "w_shared w1 = w_shared w" using x by (auto simp: with_connection_def split: if_splits prod.splits dest: call_driver_fields)
  have "shared_advances (w_shared w1) (mark_lost_from e (w_shared w1))" for e
    using l s by (simp add: shared_advances_def mark_lost_from_def)
  then show ?thesis using x a shared_mark_validated
    by (auto simp: validate_def intro: advances_on_shared split: option.splits sum.splits)
qed

lemma validate_dead: "dead w \<Longrightarrow> validate dr w = w"
  by (simp add: validate_def dead_calls)

definition calm :: "('d, 'k, 'l) worker \<Rightarrow> bool" where
  "calm w \<longleftrightarrow> worker_ok w \<and> (lifecycle (w_shared w) = SClosed \<longrightarrow> dead w)"

text \<open>The effect of a step that serves \<open>dn\<close>: its answers, and the announcement if it made one.\<close>

definition effect :: "'q command list \<Rightarrow> 'q command list \<Rightarrow> ('d, 'k, 'l) worker \<Rightarrow> ('d, 'k, 'l) worker \<Rightarrow> bool" where
  "effect dn rest w w' \<longleftrightarrow> calm w' \<and> firm w w' \<and>
     (\<exists>es. emissions (w_shared w') = emissions (w_shared w) @ es \<and> replied es = concat (map requests dn)) \<and>
     (terminal_emitted (w_shared w') \<noteq> terminal_emitted (w_shared w) \<longrightarrow> rest = [] \<and> announced w w')"

definition exits :: "('d, 'k, 'l) worker \<Rightarrow> ('d, 'k, 'l) worker \<Rightarrow> bool" where
  "exits w w' \<longleftrightarrow> over w' \<and> terminal_emitted (w_shared w') = terminal_emitted (w_shared w)"

lemma announced_prefix:
  assumes "effect dn rest w w1" and "announced w1 w'" and "\<not> terminal_emitted (w_shared w)" and "\<not> terminal_emitted (w_shared w1)"
  shows "announced w w'"
proof -
  obtain es where e: "emissions (w_shared w1) = emissions (w_shared w) @ es" using assms(1) by (auto simp: effect_def)
  have "terminals (emissions (w_shared w1)) = 0" using assms(1,4) by (simp add: effect_def calm_def worker_ok_def)
  then have "terminals es = 0" using e by simp
  moreover have "w_session w1 = w_session w" using assms(1) by (simp add: effect_def firm_def)
  ultimately show ?thesis using assms(2) e unfolding announced_def by fastforce
qed

lemma over_dead: "over w \<Longrightarrow> dead w" by (simp add: over_def dead_def)

lemma announced_after: "sends es w w1 \<Longrightarrow> terminals es = 0 \<Longrightarrow> announced w1 w' \<Longrightarrow> announced w w'"
  unfolding announced_def by (fastforce simp: sends_def keeps_def)

lemma announce_effect:
  assumes "announce_terminal dr lay fl queued w1 = Some (fl', rest, w')" and "worker_ok w"
    and "serves_all cs w w1" and "terminal_emitted (w_shared w) \<longrightarrow> dead w1"
    and "lifecycle_terminal (lifecycle (w_shared w1)) \<longrightarrow> dead w1" and "fl = Exit \<longrightarrow> over w1"
  shows "\<exists>dn. queued = dn @ rest \<and> effect (cs @ dn) rest w w' \<and> (fl' = Exit \<longrightarrow> exits w w')"
proof -
  obtain es where e: "sends es w w1" "replied es = concat (map requests cs)" "terminals es = 0"
    using assms(3) by (auto simp: serves_all_def)
  have ok: "worker_ok w1" by (rule keeps_calm [OF assms(2) e(1,3) assms(4)])
  from announce_terminal_effect [OF assms(1) ok assms(5,6)] obtain dn fs where
    w': "worker_ok w'" "fl' = Exit \<longrightarrow> over w' \<and> terminal_emitted (w_shared w') = terminal_emitted (w_shared w1)" "queued = dn @ rest" "emissions (w_shared w') = emissions (w_shared w1) @ fs"
    "replied fs = concat (map requests dn)" "lifecycle_terminal (lifecycle (w_shared w')) \<longrightarrow> dead w'"
    "terminal_emitted (w_shared w') \<noteq> terminal_emitted (w_shared w1) \<longrightarrow> rest = [] \<and> announced w1 w'"
    by blast
  have "firm w w'" using sends_firm [OF e(1)] announce_terminal_firm [OF assms(1)] by (rule firm_trans)
  moreover have "terminal_emitted (w_shared w1) = terminal_emitted (w_shared w)" using e(1) by (simp add: sends_def keeps_def)
  moreover have "emissions (w_shared w') = emissions (w_shared w) @ es @ fs" using e(1) w'(4) by (simp add: sends_def)
  ultimately have "effect (cs @ dn) rest w w'"
    using w' e announced_after [OF e(1,3)] by (auto simp: effect_def calm_def)
  moreover have "fl' = Exit \<longrightarrow> exits w w'" using w'(2) e(1) by (simp add: exits_def sends_def keeps_def)
  ultimately show ?thesis using w'(3) by blast
qed

lemma dispatch_inner_effect:
  assumes "dispatch_inner dr lay c queued w = Some (fl, rest, w')" and "calm w"
  shows "\<exists>dn. queued = dn @ rest \<and> effect (c # dn) rest w w' \<and> (fl = Exit \<longrightarrow> exits w w')"
proof -
  define check where "check \<longleftrightarrow> lifecycle (w_shared w) = SNeedsValidation \<and> \<not> is_close c"
  define w1 where "w1 = (if check then validate dr w else w)"
  have ok: "worker_ok w" using assms(2) by (simp add: calm_def)
  have a1: "advances w w1" using validate_advances by (auto simp: w1_def check_def)
  have td: "terminal_emitted (w_shared w) \<longrightarrow> dead w1"
    using ok by (auto simp: w1_def worker_ok_def validate_dead)
  show ?thesis
  proof (cases "check \<and> lifecycle (w_shared w1) = SLost")
    case True
    let ?w = "fail_command c (discard_all dr w1)"
    have "dead (discard_all dr w1)" by (simp add: dead_def)
    then have "dead ?w" by (simp add: fail_command_def dead_answer)
    moreover have "serves_all [c] w ?w"
      using advances_trans [OF a1 discard_all_advances] fail_command_serves silent_serves [OF advances_silent serves_all_one] by blast
    ultimately have "\<exists>dn. queued = dn @ rest \<and> effect ([c] @ dn) rest w w' \<and> (fl = Exit \<longrightarrow> exits w w')"
      using assms(1) True by (intro announce_effect [OF _ ok]) (auto simp: dispatch_inner_def Let_def check_def w1_def)
    then show ?thesis by simp
  next
    case False
    then obtain f w2 where r: "run_command dr lay c w1 = Some (f, w2)"
      and n: "announce_terminal dr lay f queued (if lifecycle (w_shared w2) = SLost then discard_all dr w2 else w2) = Some (fl, rest, w')"
      using assms(1) by (auto simp: dispatch_inner_def Let_def check_def w1_def split: option.splits if_splits)
    let ?w = "if lifecycle (w_shared w2) = SLost then discard_all dr w2 else w2"
    have s: "serves c w1 w2" "f = Exit \<longrightarrow> over w2" "f = Continue \<longrightarrow> stays w1 w2" using run_command_serves [OF r] by simp_all
    have a2: "advances w2 ?w" using discard_all_advances by auto
    have "serves_all [c] w ?w"
      using silent_serves [OF advances_silent [OF a1] serves_silent [OF serves_all_one [OF s(1)] advances_silent [OF a2]]] .
    moreover have d2: "dead w1 \<Longrightarrow> dead ?w" using dead_run [OF _ r] by (auto simp: dead_def)
    moreover have "lifecycle_terminal (lifecycle (w_shared ?w)) \<longrightarrow> dead ?w"
    proof (cases "lifecycle (w_shared w2) = SClosed \<and> f = Continue")
      case True
      then have "lifecycle (w_shared w) = SClosed" using s(3) advances_stays [OF a1] by (simp add: stays_def)
      then have "dead w1" using assms(2) by (auto simp: calm_def w1_def validate_dead)
      then show ?thesis using d2 by simp
    next
      case False
      then show ?thesis using s(2) over_dead by (cases "lifecycle (w_shared w2)"; cases f) (auto simp: dead_def)
    qed
    moreover have "f = Exit \<longrightarrow> over ?w" using s(2) by (auto simp: over_def)
    ultimately have "\<exists>dn. queued = dn @ rest \<and> effect ([c] @ dn) rest w w' \<and> (fl = Exit \<longrightarrow> exits w w')"
      using td by (intro announce_effect [OF n ok]) auto
    then show ?thesis by simp
  qed
qed


lemma driver_calls_same:
  "calm (on_shared (\<lambda>s. s\<lparr>driver_calls := f s\<rparr>) w) = calm w"
  "over (on_shared (\<lambda>s. s\<lparr>driver_calls := f s\<rparr>) w) = over w"
  "firm (on_shared (\<lambda>s. s\<lparr>driver_calls := f s\<rparr>) w) w' = firm w w'"
  "firm w (on_shared (\<lambda>s. s\<lparr>driver_calls := f s\<rparr>) w') = firm w w'"
  "announced (on_shared (\<lambda>s. s\<lparr>driver_calls := f s\<rparr>) w) w' = announced w w'"
  "announced w (on_shared (\<lambda>s. s\<lparr>driver_calls := f s\<rparr>) w') = announced w w'"
  by (simp_all add: calm_def over_def worker_ok_def handles_ok_def dead_def firm_def announced_def on_shared_def)

lemma dispatch_effect:
  assumes "dispatch dr lay c queued w = Some (fl, rest, w')" and "calm w"
  shows "\<exists>dn. queued = dn @ rest \<and> effect (c # dn) rest w w' \<and> (fl = Exit \<longrightarrow> exits w w')"
proof -
  let ?w = "on_shared (\<lambda>s. s\<lparr>driver_calls := driver_calls s + 1\<rparr>) w"
  obtain w1 where w1: "dispatch_inner dr lay c queued ?w = Some (fl, rest, w1)"
    "w' = on_shared (\<lambda>s. s\<lparr>driver_calls := driver_calls s - 1\<rparr>) w1"
    using assms(1) by (auto simp: dispatch_def split: option.splits)
  have "calm ?w" using assms(2) by (simp add: driver_calls_same)
  from dispatch_inner_effect [OF w1(1) this] obtain dn where "queued = dn @ rest" "effect (c # dn) rest ?w w1" "fl = Exit \<longrightarrow> exits ?w w1"
    by blast
  moreover from this(2) have "effect (c # dn) rest w w'"
    unfolding effect_def w1(2) by (simp add: driver_calls_same) (simp add: on_shared_def)
  moreover have "exits ?w w1 = exits w w'" by (simp add: exits_def w1(2) driver_calls_same) (simp add: on_shared_def)
  ultimately show ?thesis by blast
qed

lemma shut_down_effect:
  assumes "calm w"
  shows "effect queued [] w (shut_down dr queued w) \<and> terminal_emitted (w_shared (shut_down dr queued w)) \<and>
    over (shut_down dr queued w)"
proof -
  let ?a = "on_shared (fold (drop_command (w_session w)) queued) w"
  let ?b = "snd (close_connection dr (release_results dr ?a))"
  let ?c = "on_shared (\<lambda>s. mark_ended Unresolved (mark_closed s)) ?b"
  have "advances ?a ?b"
    using release_results_advances close_connection_advances [OF surjective_pairing] advances_trans by blast
  moreover have d: "dead ?b"
    using close_connection_fields [OF surjective_pairing, of dr "release_results dr ?a"] by (simp add: dead_def)
  moreover have "silent ?b ?c" by (rule mark_over_silent) (use d in \<open>simp add: dead_def\<close>)
  ultimately have "serves_all queued w ?c"
    using serves_silent [OF drop_commands_serve] advances_silent silent_trans by blast
  then obtain es where e: "sends es w ?c" "replied es = concat (map requests queued)" "terminals es = 0"
    by (auto simp: serves_all_def)
  have dc: "dead ?c" using d by (simp add: dead_shared)
  have ok: "worker_ok ?c" using keeps_calm [OF _ e(1,3)] assms dc by (simp add: calm_def)
  have lt: "lifecycle_terminal (lifecycle (w_shared ?c))" "ended_as (w_shared ?c) \<noteq> None"
    using mark_over [of Unresolved "w_shared ?b"] by (simp_all add: on_shared_def)
  have s: "shut_down dr queued w = on_shared (\<lambda>s. emit_terminal (transaction_lost_at_end s) s) ?c"
    by (simp add: shut_down_def Let_def on_shared_def)
  have t: "worker_ok (shut_down dr queued w)" "terminal_emitted (w_shared (shut_down dr queued w))"
    using emit_terminal_ok [OF ok lt(1) dc] unfolding s by simp_all
  have o: "over (shut_down dr queued w)"
    using dc lt unfolding s by (simp add: over_def dead_def on_shared_def emit_terminal_def emit_event_def)
  have "firm w (shut_down dr queued w)" unfolding s using sends_firm [OF e(1)] emit_terminal_firm by (rule firm_trans)
  moreover have "\<exists>es'. emissions (w_shared (shut_down dr queued w)) = emissions (w_shared w) @ es' \<and>
      replied es' = concat (map requests queued)"
    using e unfolding s by (auto simp: sends_def on_shared_def emit_terminal_def emit_event_def)
  moreover have "announced w (shut_down dr queued w)" if "\<not> terminal_emitted (w_shared w)"
    unfolding s using that e(1) assms
    by (intro emit_terminal_announces [OF _ e(1,3)]) (auto simp: sends_def keeps_def calm_def worker_ok_def)
  ultimately show ?thesis using t o over_dead [OF o] by (auto simp: effect_def calm_def)
qed

section \<open>The invariant of a session\<close>

definition sys_ok :: "('d, 'k, 'l, 'q) system \<Rightarrow> bool" where
  "sys_ok s \<longleftrightarrow> calm (wk s) \<and>
     mset (replied (emissions (w_shared (wk s)))) + mset (concat (map requests (channel s))) = mset (accepted s) \<and>
     (\<not> running s \<longrightarrow> channel s = [] \<and> terminal_emitted (w_shared (wk s)) \<and> over (wk s))"

lemma calm_advances: "advances w w' \<Longrightarrow> calm w \<Longrightarrow> (dead w \<longrightarrow> dead w') \<Longrightarrow> calm w'"
proof -
  assume a: "advances w w'" and c: "calm w" and d: "dead w \<longrightarrow> dead w'"
  obtain es where e: "list_all printed es" "sends es w w'" using advances_silent [OF a] by (auto simp: silent_def)
  have "terminal_emitted (w_shared w) \<longrightarrow> dead w'" using c d by (simp add: calm_def worker_ok_def)
  from keeps_calm [OF _ e(2) _ this] have "worker_ok w'" using c printed_silent [OF e(1)] by (simp add: calm_def)
  then show ?thesis using c d advances_stays [OF a] by (auto simp: calm_def stays_def)
qed

lemma serves_calm: "serves c w w' \<Longrightarrow> calm w \<Longrightarrow> (dead w \<longrightarrow> dead w') \<Longrightarrow> stays w w' \<Longrightarrow> calm w'"
  unfolding serves_def calm_def using keeps_calm by (metis stays_def worker_ok_def)

lemma sys_ok_new: "sys_ok \<lparr>channel = [], wk = worker_new session lm conn exactly outp st d n, running = True, accepted = []\<rparr>"
  by (simp add: sys_ok_def calm_def worker_ok_def handles_ok_def worker_new_def shared_new_def seed_driver_transaction_state_def)

lemma sys_step_effect:
  assumes "sys_step dr lay s s'" and "sys_ok s"
  shows "sys_ok s' \<and> firm (wk s) (wk s') \<and>
    (terminal_emitted (w_shared (wk s')) \<noteq> terminal_emitted (w_shared (wk s)) \<longrightarrow> channel s' = [] \<and> announced (wk s) (wk s'))"
  using assms
proof (cases rule: sys_step.cases)
  case (submit c)
  then show ?thesis using assms(2) by (auto simp: sys_ok_def)
next
  case (submit_late c)
  let ?w = "on_shared (drop_command (w_session (wk s)) c) (wk s)"
  have sv: "serves c (wk s) ?w" by (rule drop_command_serves)
  then obtain es where e: "sends es (wk s) ?w" "replied es = requests c" by (auto simp: serves_def)
  have st: "stays (wk s) ?w" by (auto simp: stays_def on_shared_def drop_command_def reply_event_def split: option.split)
  have "calm ?w" using serves_calm [OF sv _ _ st] assms(2) dead_shared by (auto simp: sys_ok_def)
  moreover have "over ?w" using assms(2) submit_late st e(1)
    by (auto simp: sys_ok_def over_def stays_def sends_def keeps_def on_shared_def)
  ultimately show ?thesis using submit_late assms(2) e sends_firm [OF e(1)]
    by (auto simp: sys_ok_def sends_def keeps_def)
next
  case (submit_settled res r)
  let ?w = "answer_close (EventReply r) (close_result_of res) (wk s)"
  have a: "answered (EventReply r) (wk s) ?w" by (rule answer_close_answered) simp
  have em: "emissions (w_shared ?w) = emissions (w_shared (wk s)) @ [Replied (SessionClosed (w_session (wk s)) r (PClosed (close_result_of res)))]"
    by (simp add: answer_close_def on_shared_def reply_event_def)
  have d: "dead ?w = dead (wk s)" unfolding answer_close_def by (rule dead_answer)
  have o: "over ?w = over (wk s)" "firm (wk s) ?w" "terminal_emitted (w_shared ?w) = terminal_emitted (w_shared (wk s))"
    by (simp_all add: answer_close_def over_def firm_def on_shared_def reply_event_def)
  have "calm ?w" using assms(2) d em by (auto simp: sys_ok_def calm_def worker_ok_def handles_ok_def answer_close_def on_shared_def reply_event_def)
  then show ?thesis using submit_settled assms(2) em o by (auto simp: sys_ok_def)
next
  case (work c cs cs' w')
  from dispatch_effect [OF work(4)] obtain dn where e: "cs = dn @ cs'" "effect (c # dn) cs' (wk s) w'"
    using assms(2) by (auto simp: sys_ok_def)
  then show ?thesis using work assms(2) by (auto simp: sys_ok_def effect_def add.assoc)
next
  case (finish c cs cs' w')
  from dispatch_effect [OF finish(4)] obtain dn where e: "cs = dn @ cs'" "effect (c # dn) cs' (wk s) w'" "over w'"
    "terminal_emitted (w_shared w') = terminal_emitted (w_shared (wk s))"
    using assms(2) by (auto simp: sys_ok_def exits_def)
  have f: "effect cs' [] w' (shut_down dr cs' w')" "terminal_emitted (w_shared (shut_down dr cs' w'))" "over (shut_down dr cs' w')"
    using shut_down_effect [of w' cs' dr] e(2) by (simp_all add: effect_def)
  have "announced (wk s) (shut_down dr cs' w')" if "\<not> terminal_emitted (w_shared (wk s))"
    using announced_prefix [OF e(2) _ that] f(1,2) e(3,4) assms(2) that by (simp add: effect_def sys_ok_def)
  then show ?thesis using finish assms(2) e f firm_trans by (auto simp: sys_ok_def effect_def add.assoc)
next
  case hang_up
  let ?w = "shut_down dr (channel s) (wk s)"
  have "effect (channel s) [] (wk s) ?w" "terminal_emitted (w_shared ?w)" "over ?w"
    using shut_down_effect [of "wk s" "channel s" dr] assms(2) by (simp_all add: sys_ok_def)
  then show ?thesis using hang_up assms(2) by (auto simp: sys_ok_def effect_def)
next
  case (cancel_failed e)
  let ?w = "on_shared (note_error e) (wk s)"
  have a: "advances (wk s) ?w" by (rule note_error_advances) simp
  have f: "firm (wk s) ?w" using advances_silent [OF a] sends_firm by (auto simp: silent_def)
  have same: "emissions (w_shared ?w) = emissions (w_shared (wk s))" "terminal_emitted (w_shared ?w) = terminal_emitted (w_shared (wk s))"
    by (simp_all add: on_shared_def note_error_def split: session_state.split)
  have "calm ?w" using calm_advances [OF a] assms(2) dead_shared by (auto simp: sys_ok_def)
  moreover have "over (wk s) \<Longrightarrow> over ?w" using f by (auto simp: over_def firm_def) (simp_all add: on_shared_def)
  ultimately show ?thesis using cancel_failed assms(2) f same by (auto simp: sys_ok_def)
next
  case abandoning
  then show ?thesis using assms(2)
    by (auto simp: sys_ok_def calm_def worker_ok_def handles_ok_def dead_def firm_def over_def on_shared_def)
qed

end
