(* ===== verification/Session_Registry.thy ===== *)
theory Session_Registry
  imports Session_System
begin

text \<open>
  \<^verbatim>\<open>crates/db-core/src/registry.rs\<close> with the opening half of \<^verbatim>\<open>worker_main\<close> in \<^verbatim>\<open>worker.rs\<close>
  and the teardown of a handle in \<^verbatim>\<open>session.rs\<close>: sessions that are opened without blocking,
  abandoned, retired and torn down, while their connects return at any time.

  Every decision is taken under the registry's one mutex; what follows from it is carried out
  after the mutex is released.  The two halves are separate steps: a worker that has reported its
  connect is in the stage \<open>Reporting\<close> or \<open>Failing\<close> until it has answered the open, and an
  abandoned open waits in \<open>cancelling\<close> until its abandoner has answered it.  What the driver does
  is an argument of each step.
\<close>

section \<open>Data\<close>

datatype registered_session = RegOpening | RegOpen | RegEnding | RegEnded

datatype abandoned = AbandonUnknown | AbandonConnecting | AbandonOpen bool | AbandonEnding

record registry_counts =
  opening_count :: nat
  open_count :: nat
  ending_count :: nat
  ended_count :: nat

text \<open>An entry that is still opening holds the reply to its open.\<close>

datatype entry = OpeningEntry request_id | OpenEntry | EndingEntry | EndedEntry

fun entry_state :: "entry \<Rightarrow> registered_session" where
  "entry_state (OpeningEntry _) = RegOpening"
| "entry_state OpenEntry = RegOpen"
| "entry_state EndingEntry = RegEnding"
| "entry_state EndedEntry = RegEnded"

record ready =
  ready_connection :: nat
  ready_cancel :: cancel_kind
  ready_warnings :: "warning list"

datatype open_decision = DecideOpened request_id ready | DecideFailed request_id db_error | NotAdopted

text \<open>What a connection is like when the driver's \<^verbatim>\<open>connect\<close> has returned it.\<close>

record 'd connection_made =
  made_world :: 'd
  made_id :: nat
  made_cancel :: cancel_kind
  made_exact :: bool
  made_output :: bool
  made_state :: transaction_state
  made_warnings :: "warning list called"

text \<open>Where a session's worker thread is.\<close>

datatype ('d, 'k, 'l, 'q) stage =
  Connecting "'l session_shared"
| Reporting "('d, 'k, 'l) worker" request_id ready "'q command list" "request_id list"
    \<comment> \<open>adopted; the open is not answered yet, but the handle is there\<close>
| Failing "'l session_shared" request_id db_error
| Refusing "'l session_shared" 'd \<comment> \<open>not adopted; the connection is still to be closed\<close>
| Serving "('d, 'k, 'l, 'q) system"
| Finished "'l session_shared"

record ('d, 'k, 'l, 'q) registry =
  entries :: "session_id \<Rightarrow> entry option"
  stages :: "session_id \<Rightarrow> ('d, 'k, 'l, 'q) stage option"
  cancelling :: "session_id \<Rightarrow> request_id option"
  opened_by :: "session_id \<Rightarrow> request_id option" \<comment> \<open>the request of each open, for the record\<close>
  next_session :: session_id

definition registry_new :: "session_id \<Rightarrow> ('d, 'k, 'l, 'q) registry" where
  "registry_new n = \<lparr>entries = Map.empty, stages = Map.empty, cancelling = Map.empty, opened_by = Map.empty, next_session = n\<rparr>"

definition set_stage :: "session_id \<Rightarrow> ('d, 'k, 'l, 'q) stage \<Rightarrow> ('d, 'k, 'l, 'q) registry \<Rightarrow> ('d, 'k, 'l, 'q) registry" where
  "set_stage i st reg = reg\<lparr>stages := (stages reg)(i \<mapsto> st)\<rparr>"

fun stage_shared :: "('d, 'k, 'l, 'q) stage \<Rightarrow> 'l session_shared" where
  "stage_shared (Connecting sh) = sh"
| "stage_shared (Reporting w _ _ _ _) = w_shared w"
| "stage_shared (Failing sh _ _) = sh"
| "stage_shared (Refusing sh _) = sh"
| "stage_shared (Serving s) = w_shared (wk s)"
| "stage_shared (Finished sh) = sh"

fun on_stage :: "('l session_shared \<Rightarrow> 'l session_shared) \<Rightarrow> ('d, 'k, 'l, 'q) stage \<Rightarrow> ('d, 'k, 'l, 'q) stage" where
  "on_stage f (Connecting sh) = Connecting (f sh)"
| "on_stage f (Reporting w r rd cs acc) = Reporting (on_shared f w) r rd cs acc"
| "on_stage f (Failing sh r e) = Failing (f sh) r e"
| "on_stage f (Refusing sh d) = Refusing (f sh) d"
| "on_stage f (Serving s) = Serving (s\<lparr>wk := on_shared f (wk s)\<rparr>)"
| "on_stage f (Finished sh) = Finished (f sh)"

definition update_shared :: "session_id \<Rightarrow> ('l session_shared \<Rightarrow> 'l session_shared) \<Rightarrow> ('d, 'k, 'l, 'q) registry \<Rightarrow> ('d, 'k, 'l, 'q) registry" where
  "update_shared i f reg = (case stages reg i of None \<Rightarrow> reg | Some st \<Rightarrow> set_stage i (on_stage f st) reg)"

section \<open>Opening\<close>

text \<open>\<open>spawned\<close> is the error of a thread that could not be spawned.\<close>

definition fail_open :: "session_id \<Rightarrow> request_id \<Rightarrow> db_error \<Rightarrow> 'l session_shared \<Rightarrow> 'l session_shared" where
  "fail_open i r e sh = emit_terminal False (reply_event (OpenFailed i r e) (mark_lost_from e sh))"

definition open_registered ::
  "request_id \<Rightarrow> db_error option \<Rightarrow> ('d, 'k, 'l, 'q) registry \<Rightarrow> session_id \<times> ('d, 'k, 'l, 'q) registry" where
  "open_registered r spawned reg =
     (let i = next_session reg; sh = snd (bind_events (shared_new i));
          reg = reg\<lparr>next_session := Suc i, opened_by := (opened_by reg)(i \<mapsto> r)\<rparr>
      in case spawned of
           None \<Rightarrow> (i, set_stage i (Connecting sh) (reg\<lparr>entries := (entries reg)(i \<mapsto> OpeningEntry r)\<rparr>))
         | Some e \<Rightarrow> (i, set_stage i (Finished (fail_open i r e sh)) reg))"

definition complete_open ::
  "session_id \<Rightarrow> db_error + ready \<Rightarrow> ('d, 'k, 'l, 'q) registry \<Rightarrow> open_decision \<times> ('d, 'k, 'l, 'q) registry" where
  "complete_open i outcome reg =
     (case entries reg i of
        Some (OpeningEntry r) \<Rightarrow>
          (case outcome of
             Inr rd \<Rightarrow> (DecideOpened r rd, reg\<lparr>entries := (entries reg)(i \<mapsto> OpenEntry)\<rparr>)
           | Inl e \<Rightarrow> (DecideFailed r e, reg\<lparr>entries := (entries reg)(i := None)\<rparr>))
      | Some EndedEntry \<Rightarrow> (NotAdopted, reg\<lparr>entries := (entries reg)(i := None)\<rparr>)
      | _ \<Rightarrow> (NotAdopted, reg))"

definition worker_adopted :: "session_id \<Rightarrow> session_limits \<Rightarrow> nat \<Rightarrow> 'd connection_made \<Rightarrow> 'l session_shared \<Rightarrow> ('d, 'k, 'l) worker" where
  "worker_adopted i lm n c sh =
     (worker_new i lm (made_id c) (made_exact c) (made_output c) (made_state c) (made_world c) n)\<lparr>w_shared := sh\<rparr>"

text \<open>\<^verbatim>\<open>worker_main\<close>, from the return of \<^verbatim>\<open>connect\<close> up to the report of its outcome.\<close>

definition connect_returned ::
  "session_limits \<Rightarrow> nat \<Rightarrow> session_id \<Rightarrow> 'd connection_made called \<Rightarrow> 'l session_shared \<Rightarrow> ('d, 'k, 'l, 'q) registry \<Rightarrow> ('d, 'k, 'l, 'q) registry" where
  "connect_returned lm n i outcome sh reg =
     (let give_up = (\<lambda>e. case complete_open i (Inl e) reg of
              (DecideFailed r e, reg) \<Rightarrow> set_stage i (Failing sh r e) reg
            | (_, reg) \<Rightarrow> set_stage i (Finished sh) reg)
      in case outcome of
           Panicked m \<Rightarrow> give_up (panic_to_error m)
         | Returned (Inl e) \<Rightarrow> give_up e
         | Returned (Inr c) \<Rightarrow>
             (case made_warnings c of
                Panicked m \<Rightarrow> give_up (panic_to_error m)
              | Returned (Inl e) \<Rightarrow> give_up e
              | Returned (Inr ws) \<Rightarrow>
                  let sh = seed_driver_transaction_state (made_state c) sh;
                      rd = \<lparr>ready_connection = made_id c, ready_cancel = made_cancel c, ready_warnings = ws\<rparr>
                  in case complete_open i (Inr rd) reg of
                       (DecideOpened r rd, reg) \<Rightarrow> set_stage i (Reporting (worker_adopted i lm n c sh) r rd [] []) reg
                     | (_, reg) \<Rightarrow> set_stage i (Refusing sh (made_world c)) reg))"

text \<open>The rest of \<^verbatim>\<open>complete_open\<close>, after the mutex, and what the worker does next.\<close>

definition report_opened :: "session_id \<Rightarrow> ('d, 'k, 'l) worker \<Rightarrow> request_id \<Rightarrow> ready \<Rightarrow> 'q command list \<Rightarrow> request_id list \<Rightarrow> ('d, 'k, 'l, 'q) stage" where
  "report_opened i w r rd cs acc =
     Serving \<lparr>channel = cs,
       wk = on_shared (reply_event (Opened i r (POpened (ready_connection rd) (ready_cancel rd) (ready_warnings rd)))) w,
       running = True, accepted = r # acc\<rparr>"

definition report_failed :: "session_id \<Rightarrow> 'l session_shared \<Rightarrow> request_id \<Rightarrow> db_error \<Rightarrow> ('d, 'k, 'l, 'q) stage" where
  "report_failed i sh r e = Finished (fail_open i r e sh)"

section \<open>Looking up\<close>

definition get_session :: "session_id \<Rightarrow> ('d, 'k, 'l, 'q) registry \<Rightarrow> bool" where
  "get_session i reg \<longleftrightarrow> entries reg i = Some OpenEntry"

definition registry_state :: "session_id \<Rightarrow> ('d, 'k, 'l, 'q) registry \<Rightarrow> registered_session option" where
  "registry_state i reg = map_option entry_state (entries reg i)"

definition registry_len :: "('d, 'k, 'l, 'q) registry \<Rightarrow> nat" where
  "registry_len reg = length (filter (\<lambda>i. entries reg i \<noteq> None) [0..<next_session reg])"

definition counts :: "('d, 'k, 'l, 'q) registry \<Rightarrow> registry_counts" where
  "counts reg =
     (let n = (\<lambda>s. length (filter (\<lambda>i. registry_state i reg = Some s) [0..<next_session reg]))
      in \<lparr>opening_count = n RegOpening, open_count = n RegOpen, ending_count = n RegEnding, ended_count = n RegEnded\<rparr>)"

section \<open>Ending\<close>

text \<open>\<open>undrained\<close> is the number of requests the consumer has not drained.\<close>

definition may_be_carrying_work :: "nat \<Rightarrow> 'l session_shared \<Rightarrow> bool" where
  "may_be_carrying_work undrained sh \<longleftrightarrow> possibly_active sh \<or> undrained > 0 \<or> driver_calls sh > 0"

text \<open>
  \<^verbatim>\<open>begin_abandon\<close>: the mark, a cancel unless the session has ended, and the command.  \<open>cancelled\<close> is
  the error of that cancel, if it reached the driver and failed; the reply of the command goes to a
  channel that may or may not be read.
\<close>

definition cancel_noted :: "db_error option \<Rightarrow> 'l session_shared \<Rightarrow> 'l session_shared" where
  "cancel_noted cancelled sh = (case cancelled of None \<Rightarrow> sh | Some e \<Rightarrow> if ended_as sh = None then note_error e sh else sh)"

definition abandon_command :: "bool \<Rightarrow> 'q command" where
  "abandon_command heard = DoClose Abandon (OneShot 0 heard)"

fun send_command :: "'q command \<Rightarrow> ('d, 'k, 'l, 'q) stage \<Rightarrow> ('d, 'k, 'l, 'q) stage" where
  "send_command c (Reporting w r rd cs acc) = Reporting w r rd (cs @ [c]) (acc @ requests c)"
| "send_command c (Serving s) = (if running s then Serving (s\<lparr>channel := channel s @ [c], accepted := accepted s @ requests c\<rparr>) else Serving s)"
| "send_command c st = st"

definition begin_abandon :: "db_error option \<Rightarrow> bool \<Rightarrow> ('d, 'k, 'l, 'q) stage \<Rightarrow> ('d, 'k, 'l, 'q) stage" where
  "begin_abandon cancelled heard st =
     send_command (abandon_command heard)
       (on_stage (\<lambda>sh. cancel_noted cancelled (sh\<lparr>abandon_requested := True\<rparr>)) st)"

definition abandon_session :: "db_error option \<Rightarrow> bool \<Rightarrow> session_id \<Rightarrow> ('d, 'k, 'l, 'q) registry \<Rightarrow> ('d, 'k, 'l, 'q) registry" where
  "abandon_session cancelled heard i reg =
     (case stages reg i of None \<Rightarrow> reg | Some st \<Rightarrow> set_stage i (begin_abandon cancelled heard st) reg)"

text \<open>\<^verbatim>\<open>cancel_open\<close>: the reply is dropped, which answers it with the session's terminal error.\<close>

definition cancel_open :: "session_id \<Rightarrow> request_id \<Rightarrow> 'l session_shared \<Rightarrow> 'l session_shared" where
  "cancel_open i r sh =
     (let sh = mark_closed (sh\<lparr>open_cancelled := True\<rparr>)
      in emit_terminal False (reply_event (OpenFailed i r (terminal_error sh)) sh))"

text \<open>
  \<^verbatim>\<open>abandon\<close> up to the release of the mutex for a session that is opening, whose open is then
  \<open>cancelling\<close>; for an open one nothing is emitted, so the whole of it.
\<close>

definition abandon ::
  "db_error option \<Rightarrow> nat \<Rightarrow> session_id \<Rightarrow> ('d, 'k, 'l, 'q) registry \<Rightarrow> abandoned \<times> ('d, 'k, 'l, 'q) registry" where
  "abandon cancelled undrained i reg =
     (case entries reg i of
        Some (OpeningEntry r) \<Rightarrow>
          (AbandonConnecting, reg\<lparr>entries := (entries reg)(i \<mapsto> EndedEntry), cancelling := (cancelling reg)(i \<mapsto> r)\<rparr>)
      | Some OpenEntry \<Rightarrow>
          (case stages reg i of
             None \<Rightarrow> (AbandonEnding, reg)
           | Some st \<Rightarrow>
               (if lifecycle_terminal (lifecycle (stage_shared st)) then AbandonEnding
                else AbandonOpen (may_be_carrying_work undrained (stage_shared st)),
                abandon_session cancelled False i (reg\<lparr>entries := (entries reg)(i \<mapsto> EndingEntry)\<rparr>)))
      | Some _ \<Rightarrow> (AbandonEnding, reg)
      | None \<Rightarrow> (AbandonUnknown, reg))"

text \<open>\<open>last_handle\<close>: whether the registry's handle was the last one, so that the session is dropped.\<close>

definition retire ::
  "db_error option \<Rightarrow> bool \<Rightarrow> session_id \<Rightarrow> ('d, 'k, 'l, 'q) registry \<Rightarrow> bool \<times> ('d, 'k, 'l, 'q) registry" where
  "retire cancelled last_handle i reg =
     (let out = reg\<lparr>entries := (entries reg)(i := None)\<rparr> in
      case entries reg i of
        None \<Rightarrow> (False, reg)
      | Some (OpeningEntry r) \<Rightarrow> (True, out\<lparr>cancelling := (cancelling reg)(i \<mapsto> r)\<rparr>)
      | Some EndedEntry \<Rightarrow> (True, out)
      | Some _ \<Rightarrow> (True, if last_handle then abandon_session cancelled True i out else out))"

text \<open>
  Dropping the registry takes every entry out under the mutex; sessions that were opening are
  cancelled, the others are told to abandon.
\<close>

definition drop_registry :: "(session_id \<Rightarrow> db_error option) \<Rightarrow> ('d, 'k, 'l, 'q) registry \<Rightarrow> ('d, 'k, 'l, 'q) registry" where
  "drop_registry cancelled reg =
     reg\<lparr>entries := Map.empty,
       cancelling := (\<lambda>i. case entries reg i of Some (OpeningEntry r) \<Rightarrow> Some r | _ \<Rightarrow> cancelling reg i),
       stages := (\<lambda>i. case entries reg i of
           Some OpenEntry \<Rightarrow> map_option (begin_abandon (cancelled i) True) (stages reg i)
         | Some EndingEntry \<Rightarrow> map_option (begin_abandon (cancelled i) True) (stages reg i)
         | _ \<Rightarrow> stages reg i)\<rparr>"

section \<open>Steps\<close>

inductive reg_step ::
  "('d, 'k, 'l, 'q) driver \<Rightarrow> layout \<Rightarrow> session_limits \<Rightarrow> ('d, 'k, 'l, 'q) registry \<Rightarrow> ('d, 'k, 'l, 'q) registry \<Rightarrow> bool"
  for dr :: "('d, 'k, 'l, 'q) driver" and lay lm where
  step_open: "open_registered r spawned reg = (i, reg') \<Longrightarrow> reg_step dr lay lm reg reg'"
| step_connect: "stages reg i = Some (Connecting sh) \<Longrightarrow> reg_step dr lay lm reg (connect_returned lm n i outcome sh reg)"
| step_report: "stages reg i = Some (Reporting w r rd cs acc) \<Longrightarrow>
    reg_step dr lay lm reg (set_stage i (report_opened i w r rd cs acc) reg)"
| step_fail: "stages reg i = Some (Failing sh r e) \<Longrightarrow> reg_step dr lay lm reg (set_stage i (report_failed i sh r e) reg)"
| step_refuse: "stages reg i = Some (Refusing sh d) \<Longrightarrow> reg_step dr lay lm reg (set_stage i (Finished sh) reg)"
| step_serve: "stages reg i = Some (Serving s) \<Longrightarrow> sys_step dr lay s s' \<Longrightarrow> reg_step dr lay lm reg (set_stage i (Serving s') reg)"
| step_early: "stages reg i = Some (Reporting w r rd cs acc) \<Longrightarrow>
    reg_step dr lay lm reg (set_stage i (send_command c (Reporting w r rd cs acc)) reg)"
| step_early_cancel: "stages reg i = Some (Reporting w r rd cs acc) \<Longrightarrow>
    reg_step dr lay lm reg (update_shared i (note_error e) reg)"
| step_abandon: "abandon cancelled undrained i reg = (a, reg') \<Longrightarrow> reg_step dr lay lm reg reg'"
| step_cancel: "cancelling reg i = Some r \<Longrightarrow>
    reg_step dr lay lm reg (update_shared i (cancel_open i r) (reg\<lparr>cancelling := (cancelling reg)(i := None)\<rparr>))"
| step_retire: "retire cancelled last_handle i reg = (b, reg') \<Longrightarrow> reg_step dr lay lm reg reg'"
| step_drop: "reg_step dr lay lm reg (drop_registry c reg)"

inductive reg_reachable ::
  "('d, 'k, 'l, 'q) driver \<Rightarrow> layout \<Rightarrow> session_limits \<Rightarrow> ('d, 'k, 'l, 'q) registry \<Rightarrow> bool" for dr lay lm where
  reg_new: "reg_reachable dr lay lm (registry_new n)"
| reg_next: "reg_reachable dr lay lm reg \<Longrightarrow> reg_step dr lay lm reg reg' \<Longrightarrow> reg_reachable dr lay lm reg'"

end
