(* ===== verification/Session_Registry_Correct.thy ===== *)
theory Session_Registry_Correct
  imports Session_Registry
begin

text \<open>
  The registry's promises over every interleaving of openings, connects, abandons, retirements and
  the work of open sessions: every open is answered once, an abandoned one is never adopted, and an
  entry stands for a thread or a handle the registry owns.
\<close>

section \<open>A session's log only grows\<close>

definition extends :: "'l session_shared \<Rightarrow> 'l session_shared \<Rightarrow> bool" where
  "extends a b \<longleftrightarrow> (\<exists>es. emissions b = emissions a @ es)"

lemma extends_refl [simp]: "extends a a"
  by (simp add: extends_def)

lemma extends_trans: "extends a b \<Longrightarrow> extends b c \<Longrightarrow> extends a c"
  by (auto simp: extends_def)

lemma serves_all_extends: "serves_all cs w w' \<Longrightarrow> extends (w_shared w) (w_shared w')"
  by (auto simp: serves_all_def sends_def extends_def)

lemma effect_extends: "effect dn rest w w' \<Longrightarrow> extends (w_shared w) (w_shared w')"
  by (auto simp: effect_def extends_def)

lemma sys_step_extends:
  assumes "sys_step dr lay s s'" and "sys_ok s"
  shows "extends (w_shared (wk s)) (w_shared (wk s'))"
  using assms
proof (cases rule: sys_step.cases)
  case (submit_late c)
  then show ?thesis using serves_all_extends[OF serves_all_one[OF drop_command_serves]] by simp
next
  case (submit_settled res r)
  then show ?thesis by (auto simp: answer_close_def on_shared_def reply_event_def extends_def)
next
  case (work c cs cs' w')
  from dispatch_effect [OF work(4)] show ?thesis using work assms(2) effect_extends by (auto simp: sys_ok_def)
next
  case (finish c cs cs' w')
  from dispatch_effect [OF finish(4)] obtain dn where e: "effect (c # dn) cs' (wk s) w'" using assms(2) by (auto simp: sys_ok_def)
  then have "effect cs' [] w' (shut_down dr cs' w')" using shut_down_effect [of w' cs' dr] by (simp add: effect_def)
  with e show ?thesis using finish extends_trans effect_extends by fastforce
next
  case hang_up
  then show ?thesis using shut_down_effect [of "wk s" "[]" dr] assms(2) effect_extends by (auto simp: sys_ok_def)
next
  case (cancel_failed e)
  then show ?thesis by (auto simp: on_shared_def note_error_def extends_def split: session_state.splits)
qed (simp_all add: on_shared_def extends_def)

section \<open>The invariant\<close>

definition failed_open :: "session_id \<Rightarrow> request_id \<Rightarrow> 'l core_event emission list \<Rightarrow> bool" where
  "failed_open i r es \<longleftrightarrow> (\<exists>e p. es = [Replied (OpenFailed i r e), Emitted (Terminal i p)])"

text \<open>A session whose connect was not adopted: its open waits, is being cancelled, or has been answered.\<close>

definition unopened :: "session_id \<Rightarrow> request_id \<Rightarrow> entry option \<Rightarrow> request_id option \<Rightarrow> 'l session_shared \<Rightarrow> bool" where
  "unopened i r en cn sh \<longleftrightarrow>
     emissions sh = [] \<and> \<not> terminal_emitted sh \<and> lifecycle sh = SUsable \<and> lost_reason sh = None \<and> (en = Some (OpeningEntry r) \<and> cn = None \<or> en \<in> {None, Some EndedEntry} \<and> cn = Some r) \<or>
     failed_open i r (emissions sh) \<and> en \<in> {None, Some EndedEntry} \<and> cn = None"

fun stage_ok :: "session_id \<Rightarrow> request_id \<Rightarrow> entry option \<Rightarrow> request_id option \<Rightarrow> ('d, 'k, 'l, 'q) stage \<Rightarrow> bool" where
  "stage_ok i r en cn (Connecting sh) \<longleftrightarrow> unopened i r en cn sh"
| "stage_ok i r en cn (Refusing sh d) \<longleftrightarrow> unopened i r en cn sh \<and> en = None"
| "stage_ok i r en cn (Finished sh) \<longleftrightarrow> unopened i r en cn sh \<and> en = None"
| "stage_ok i r en cn (Failing sh q e) \<longleftrightarrow> q = r \<and> emissions sh = [] \<and> \<not> terminal_emitted sh \<and> en = None \<and> cn = None"
| "stage_ok i r en cn (Reporting w q rd cs acc) \<longleftrightarrow> q = r \<and> emissions (w_shared w) = [] \<and> cn = None \<and>
     en \<in> {None, Some OpenEntry, Some EndingEntry} \<and> sys_ok \<lparr>channel = cs, wk = w, running = True, accepted = acc\<rparr>"
| "stage_ok i r en cn (Serving s) \<longleftrightarrow> cn = None \<and> en \<in> {None, Some OpenEntry, Some EndingEntry} \<and> sys_ok s \<and>
     (\<exists>p es. emissions (w_shared (wk s)) = Replied (Opened i r p) # es) \<and> r \<in> set (accepted s)"

definition session_ok :: "session_id \<Rightarrow> ('d, 'k, 'l, 'q) registry \<Rightarrow> bool" where
  "session_ok i reg \<longleftrightarrow>
     (case stages reg i of
        None \<Rightarrow> entries reg i = None \<and> cancelling reg i = None \<and> opened_by reg i = None
      | Some st \<Rightarrow> i < next_session reg \<and> shared_session (stage_shared st) = i \<and>
          (\<exists>r. opened_by reg i = Some r \<and> stage_ok i r (entries reg i) (cancelling reg i) st))"

definition reg_ok :: "('d, 'k, 'l, 'q) registry \<Rightarrow> bool" where
  "reg_ok reg \<longleftrightarrow> (\<forall>i. session_ok i reg)"

text \<open>A step that concerns one session leaves the others as they are.\<close>

lemma reg_ok_one:
  assumes "reg_ok reg" and "session_ok i reg'" and "next_session reg \<le> next_session reg'"
    and "\<And>j. j \<noteq> i \<Longrightarrow> stages reg' j = stages reg j \<and> entries reg' j = entries reg j \<and> cancelling reg' j = cancelling reg j \<and>
      opened_by reg' j = opened_by reg j"
  shows "reg_ok reg'"
  unfolding reg_ok_def
proof
  fix j
  show "session_ok j reg'"
  proof (cases "j = i")
    case False
    have "session_ok j reg" using assms(1) by (simp add: reg_ok_def)
    then show ?thesis using assms(3) assms(4)[OF False] by (auto simp: session_ok_def split: option.splits)
  qed (use assms(2) in simp)
qed

lemma reg_okD: "reg_ok reg \<Longrightarrow> stages reg i = Some st \<Longrightarrow>
    i < next_session reg \<and> shared_session (stage_shared st) = i \<and> (\<exists>r. opened_by reg i = Some r \<and> stage_ok i r (entries reg i) (cancelling reg i) st)"
  by (fastforce simp: reg_ok_def session_ok_def dest: spec[of _ i])

lemma reg_ok_stage:
  assumes "reg_ok reg" and "stages reg i = Some st" and "shared_session (stage_shared st') = i"
    and "\<And>r. opened_by reg i = Some r \<Longrightarrow> stage_ok i r (entries reg i) (cancelling reg i) st \<Longrightarrow>
      stage_ok i r (entries reg i) (cancelling reg i) st'"
  shows "reg_ok (set_stage i st' reg)"
proof (rule reg_ok_one[OF assms(1), of i])
  show "session_ok i (set_stage i st' reg)"
    using reg_okD[OF assms(1,2)] assms(3,4) by (auto simp: session_ok_def set_stage_def)
qed (auto simp: set_stage_def)

section \<open>Each step keeps it\<close>

lemma fail_open_log:
  assumes "emissions sh = []" and "\<not> terminal_emitted sh" and "shared_session sh = i"
  shows "failed_open i r (emissions (fail_open i r e sh))" and "shared_session (fail_open i r e sh) = i"
  using assms by (simp_all add: failed_open_def fail_open_def emit_terminal_def emit_event_def reply_event_def mark_lost_from_def)

lemma cancel_open_log:
  assumes "emissions sh = []" and "\<not> terminal_emitted sh" and "shared_session sh = i"
  shows "failed_open i r (emissions (cancel_open i r sh))" and "shared_session (cancel_open i r sh) = i"
  using assms by (simp_all add: failed_open_def cancel_open_def Let_def emit_terminal_def emit_event_def reply_event_def mark_closed_def)

lemma opening_ok:
  fixes reg :: "('d, 'k, 'l, 'q) registry"
  assumes "reg_ok reg" and "open_registered r spawned reg = (i, reg')"
  shows "reg_ok reg'"
proof -
  have i: "i = next_session reg" using assms(2) by (auto simp: open_registered_def Let_def split: option.splits)
  have new: "stages reg i = None"
    using assms(1) i by (force simp: reg_ok_def session_ok_def dest: spec[of _ i] split: option.splits)
  then have out: "entries reg i = None" "cancelling reg i = None"
    using assms(1) by (auto simp: reg_ok_def session_ok_def dest!: spec[of _ i])
  define sh where "sh = (snd (bind_events (shared_new i)) :: 'l session_shared)"
  have sh: "emissions sh = []" "\<not> terminal_emitted sh" "shared_session sh = i" "lifecycle sh = SUsable" "lost_reason sh = None"
    by (simp_all add: sh_def bind_events_def shared_new_def)
  have reg': "reg' = (case spawned of
      None \<Rightarrow> set_stage i (Connecting sh) (reg\<lparr>next_session := Suc i, opened_by := (opened_by reg)(i \<mapsto> r), entries := (entries reg)(i \<mapsto> OpeningEntry r)\<rparr>)
    | Some e \<Rightarrow> set_stage i (Finished (fail_open i r e sh)) (reg\<lparr>next_session := Suc i, opened_by := (opened_by reg)(i \<mapsto> r)\<rparr>))"
    using assms(2) i by (auto simp: open_registered_def Let_def sh_def split: option.splits)
  show ?thesis
  proof (rule reg_ok_one[OF assms(1), of i])
    show "session_ok i reg'"
      using i out sh fail_open_log[OF sh(1-3)] unfolding reg'
      by (auto simp: set_stage_def session_ok_def unopened_def split: option.splits)
  qed (use i in \<open>auto simp: reg' set_stage_def split: option.splits\<close>)
qed

lemma adopted_ok:
  assumes "emissions sh = []" and "\<not> terminal_emitted sh" and "shared_session sh = i" and "lifecycle sh \<noteq> SClosed"
  shows "sys_ok \<lparr>channel = [], wk = worker_adopted i lm n c sh, running = True, accepted = []\<rparr>"
  using assms by (simp add: sys_ok_def calm_def worker_ok_def handles_ok_def worker_adopted_def worker_new_def)

lemma seed_fields [simp]:
  "emissions (seed_driver_transaction_state st sh) = emissions sh" "terminal_emitted (seed_driver_transaction_state st sh) = terminal_emitted sh"
  "shared_session (seed_driver_transaction_state st sh) = shared_session sh" "lifecycle (seed_driver_transaction_state st sh) = lifecycle sh"
  "lost_reason (seed_driver_transaction_state st sh) = lost_reason sh"
  by (simp_all add: seed_driver_transaction_state_def)

lemma unopened_seed [simp]: "unopened i r en cn (seed_driver_transaction_state st sh) = unopened i r en cn sh"
  by (simp add: unopened_def)

lemma connect_entries:
  assumes "stage_ok i r (entries reg i) (cancelling reg i) (Connecting sh)"
  obtains "entries reg i = Some (OpeningEntry r)" "cancelling reg i = None" "emissions sh = []" "\<not> terminal_emitted sh" "lifecycle sh = SUsable"
  | "entries reg i \<in> {None, Some EndedEntry}" "unopened i r None (cancelling reg i) sh"
  using assms by (auto simp: unopened_def)

lemma give_up_ok:
  assumes ok: "reg_ok reg" and st: "stages reg i = Some (Connecting sh)"
  shows "reg_ok (case complete_open i (Inl e) reg of
      (DecideFailed r e, reg) \<Rightarrow> set_stage i (Failing sh r e) reg | (_, reg) \<Rightarrow> set_stage i (Finished sh) reg)"
proof -
  from reg_okD[OF ok st] obtain r where r: "i < next_session reg" "shared_session sh = i" "opened_by reg i = Some r"
    and so: "stage_ok i r (entries reg i) (cancelling reg i) (Connecting sh)" by auto
  from so show ?thesis
  proof (cases rule: connect_entries)
    case 1
    then show ?thesis
      by (intro reg_ok_one[OF ok, of i]) (use r in \<open>auto simp: complete_open_def set_stage_def session_ok_def\<close>)
  next
    case 2
    then show ?thesis
      by (intro reg_ok_one[OF ok, of i]) (use r in \<open>auto simp: complete_open_def set_stage_def session_ok_def\<close>)
  qed
qed

lemma adopt_ok:
  assumes ok: "reg_ok reg" and st: "stages reg i = Some (Connecting sh)"
  shows "reg_ok (case complete_open i (Inr rd) reg of
      (DecideOpened r rd, reg) \<Rightarrow> set_stage i (Reporting (worker_adopted i lm n c (seed_driver_transaction_state x sh)) r rd [] []) reg
    | (_, reg) \<Rightarrow> set_stage i (Refusing (seed_driver_transaction_state x sh) d) reg)"
proof -
  from reg_okD[OF ok st] obtain r where r: "i < next_session reg" "shared_session sh = i" "opened_by reg i = Some r"
    and so: "stage_ok i r (entries reg i) (cancelling reg i) (Connecting sh)" by auto
  from so show ?thesis
  proof (cases rule: connect_entries)
    case 1
    then show ?thesis using adopted_ok[of "seed_driver_transaction_state x sh" i lm n c] r
      by (intro reg_ok_one[OF ok, of i]) (auto simp: complete_open_def set_stage_def session_ok_def worker_adopted_def)
  next
    case 2
    then show ?thesis
      by (intro reg_ok_one[OF ok, of i]) (use r in \<open>auto simp: complete_open_def set_stage_def session_ok_def\<close>)
  qed
qed

lemma connect_returned_ok:
  assumes "reg_ok reg" and "stages reg i = Some (Connecting sh)"
  shows "reg_ok (connect_returned lm n i outcome sh reg)"
  unfolding connect_returned_def Let_def
  using give_up_ok[OF assms] adopt_ok[OF assms] by (auto split: called.splits sum.splits)

lemma report_opened_ok:
  assumes ok: "reg_ok reg" and st: "stages reg i = Some (Reporting w r rd cs acc)"
  shows "reg_ok (set_stage i (report_opened i w r rd cs acc) reg)"
proof (rule reg_ok_stage[OF ok st])
  show "shared_session (stage_shared (report_opened i w r rd cs acc)) = i"
    using reg_okD[OF ok st] by (auto simp: report_opened_def on_shared_def reply_event_def)
  fix q
  assume "stage_ok i q (entries reg i) (cancelling reg i) (Reporting w r rd cs acc)"
  then show "stage_ok i q (entries reg i) (cancelling reg i) (report_opened i w r rd cs acc)"
    by (auto simp: report_opened_def on_shared_def reply_event_def sys_ok_def calm_def worker_ok_def handles_ok_def dead_def)
qed

lemma note_error_fields [simp]:
  "emissions (note_error e sh) = emissions sh" "terminal_emitted (note_error e sh) = terminal_emitted sh"
  "shared_session (note_error e sh) = shared_session sh"
  by (simp_all add: note_error_def split: session_state.splits)

lemma sys_ok_note_error:
  fixes s :: "('d, 'k, 'l, 'q) system"
  assumes "sys_ok s" shows "sys_ok (s\<lparr>wk := on_shared (note_error e) (wk s)\<rparr>)"
proof -
  have "sys_step dr lay s (s\<lparr>wk := on_shared (note_error e) (wk s)\<rparr>)" for dr :: "('d, 'k, 'l, 'q) driver" and lay by (rule cancel_failed)
  from sys_step_effect[OF this assms] show ?thesis by blast
qed

lemma sys_ok_abandoning:
  fixes s :: "('d, 'k, 'l, 'q) system"
  assumes "sys_ok s" shows "sys_ok (s\<lparr>wk := on_shared (\<lambda>sh. sh\<lparr>abandon_requested := True\<rparr>) (wk s)\<rparr>)"
proof -
  have "sys_step dr lay s (s\<lparr>wk := on_shared (\<lambda>sh. sh\<lparr>abandon_requested := True\<rparr>) (wk s)\<rparr>)"
    for dr :: "('d, 'k, 'l, 'q) driver" and lay by (rule abandoning)
  from sys_step_effect[OF this assms] show ?thesis by blast
qed

lemma sys_ok_submit:
  fixes s :: "('d, 'k, 'l, 'q) system"
  assumes "sys_ok s" and "running s" shows "sys_ok (s\<lparr>channel := channel s @ [c], accepted := accepted s @ requests c\<rparr>)"
proof -
  have "sys_step dr lay s (s\<lparr>channel := channel s @ [c], accepted := accepted s @ requests c\<rparr>)"
    for dr :: "('d, 'k, 'l, 'q) driver" and lay using assms(2) by (rule submit)
  from sys_step_effect[OF this assms(1)] show ?thesis by blast
qed

lemma sys_ok_cancel_noted:
  assumes "sys_ok s" shows "sys_ok (s\<lparr>wk := on_shared (cancel_noted cancelled) (wk s)\<rparr>)"
proof -
  have id: "s\<lparr>wk := on_shared (\<lambda>sh. sh) (wk s)\<rparr> = s" by (simp add: on_shared_def)
  show ?thesis
  proof (cases "\<exists>e. cancelled = Some e \<and> ended_as (w_shared (wk s)) = None")
    case True
    then obtain e where "cancelled = Some e" "ended_as (w_shared (wk s)) = None" by blast
    then show ?thesis using sys_ok_note_error[OF assms, of e] by (simp add: on_shared_def cancel_noted_def)
  next
    case False
    then show ?thesis using assms id by (auto simp: on_shared_def cancel_noted_def split: option.splits)
  qed
qed

lemma cancel_noted_fields [simp]:
  "emissions (cancel_noted c sh) = emissions sh" "shared_session (cancel_noted c sh) = shared_session sh"
  by (simp_all add: cancel_noted_def split: option.split)

definition handed_out :: "('d, 'k, 'l, 'q) stage \<Rightarrow> bool" where
  "handed_out st \<longleftrightarrow> (case st of Reporting _ _ _ _ _ \<Rightarrow> True | Serving _ \<Rightarrow> True | _ \<Rightarrow> False)"

lemma handed_out_entry:
  assumes "stage_ok i r en cn st" and "en \<in> {Some OpenEntry, Some EndingEntry}" shows "handed_out st"
  using assms by (cases st) (auto simp: handed_out_def unopened_def)

lemma begin_abandon_shared [simp]: "shared_session (stage_shared (begin_abandon c h st)) = shared_session (stage_shared st)"
  by (cases st) (simp_all add: begin_abandon_def on_shared_def)

lemma begin_abandon_ok:
  assumes ok: "stage_ok i r en cn st" and out: "handed_out st" and en: "en' \<in> {None, Some OpenEntry, Some EndingEntry}"
  shows "stage_ok i r en' cn (begin_abandon c h st)"
proof (cases st)
  case (Reporting w q rd cs acc)
  let ?s = "\<lparr>channel = cs, wk = w, running = True, accepted = acc\<rparr>"
  have "sys_ok ?s" using ok Reporting by simp
  from sys_ok_submit[OF sys_ok_cancel_noted[OF sys_ok_abandoning[OF this]], of c "abandon_command h"]
  show ?thesis using ok en Reporting by (simp add: begin_abandon_def on_shared_def)
next
  case (Serving s)
  have ok1: "sys_ok (s\<lparr>wk := on_shared (\<lambda>sh. cancel_noted c (sh\<lparr>abandon_requested := True\<rparr>)) (wk s)\<rparr>)"
    using ok Serving sys_ok_cancel_noted[OF sys_ok_abandoning, of s c] by (simp add: on_shared_def)
  show ?thesis using ok en Serving ok1 sys_ok_submit[OF ok1, of "abandon_command h"]
    by (simp add: begin_abandon_def on_shared_def)
qed (use out in \<open>simp_all add: handed_out_def\<close>)

lemma abandon_session_ok:
  assumes ok: "reg_ok reg" and en: "entries reg i \<in> {Some OpenEntry, Some EndingEntry}" and en': "en' \<in> {None, Some OpenEntry, Some EndingEntry}"
  shows "reg_ok (abandon_session c h i (reg\<lparr>entries := (entries reg)(i := en')\<rparr>))"
proof -
  obtain st where st: "stages reg i = Some st"
    using ok en by (fastforce simp: reg_ok_def session_ok_def dest: spec[of _ i] split: option.splits)
  from reg_okD[OF ok st] obtain r where r: "i < next_session reg" "shared_session (stage_shared st) = i" "opened_by reg i = Some r"
    "stage_ok i r (entries reg i) (cancelling reg i) st" by blast
  note ab = begin_abandon_ok[OF r(4) handed_out_entry[OF r(4) en] en', of c h]
  show ?thesis
    by (rule reg_ok_one[OF ok, of i]) (use st r ab in \<open>auto simp: abandon_session_def set_stage_def session_ok_def\<close>)
qed

lemma stage_ok_entry:
  assumes "stage_ok i r en cn st" and "en \<in> {Some OpenEntry, Some EndingEntry}"
  shows "stage_ok i r None cn st"
  using assms by (cases st) (auto simp: unopened_def)

lemma stage_ok_tombstone:
  assumes "stage_ok i r (Some (OpeningEntry q)) cn st" and "en \<in> {None, Some EndedEntry}"
  shows "q = r" and "stage_ok i r en (Some r) st"
  using assms by (cases st; auto simp: unopened_def failed_open_def)+

lemma stage_ok_ended:
  assumes "stage_ok i r (Some EndedEntry) cn st" shows "stage_ok i r None cn st"
  using assms by (cases st) (auto simp: unopened_def)

lemma entry_stage:
  assumes "reg_ok reg" and "entries reg i = Some en"
  obtains st r where "stages reg i = Some st" "i < next_session reg" "shared_session (stage_shared st) = i" "opened_by reg i = Some r"
    "stage_ok i r (Some en) (cancelling reg i) st"
  using assms by (fastforce simp: reg_ok_def session_ok_def dest: spec[of _ i] split: option.splits)

lemma abandon_ok:
  assumes ok: "reg_ok reg" and ab: "abandon c n i reg = (a, reg')"
  shows "reg_ok reg'"
proof (cases "entries reg i")
  case (Some en)
  from ok this obtain st r where st: "stages reg i = Some st" "i < next_session reg" "shared_session (stage_shared st) = i"
    "opened_by reg i = Some r" "stage_ok i r (Some en) (cancelling reg i) st" by (rule entry_stage)
  show ?thesis
  proof (cases en)
    case (OpeningEntry q)
    have "reg' = reg\<lparr>entries := (entries reg)(i \<mapsto> EndedEntry), cancelling := (cancelling reg)(i \<mapsto> q)\<rparr>"
      using ab Some OpeningEntry by (simp add: abandon_def)
    then show ?thesis using st stage_ok_tombstone[of i r q "cancelling reg i" st "Some EndedEntry"] OpeningEntry
      by (intro reg_ok_one[OF ok, of i]) (auto simp: session_ok_def)
  next
    case OpenEntry
    then show ?thesis using ab Some st(1) abandon_session_ok[OF ok, of i "Some EndingEntry" c False] by (auto simp: abandon_def)
  qed (use ab Some ok in \<open>simp_all add: abandon_def\<close>)
qed (use ab ok in \<open>simp add: abandon_def\<close>)

lemma retire_ok:
  assumes ok: "reg_ok reg" and re: "retire c h i reg = (b, reg')"
  shows "reg_ok reg'"
proof (cases "entries reg i")
  case (Some en)
  let ?out = "reg\<lparr>entries := (entries reg)(i := None)\<rparr>"
  from ok Some obtain st r where st: "stages reg i = Some st" "i < next_session reg" "shared_session (stage_shared st) = i"
    "opened_by reg i = Some r" "stage_ok i r (Some en) (cancelling reg i) st" by (rule entry_stage)
  have out: "reg_ok ?out" if "stage_ok i r None (cancelling reg i) st"
    by (rule reg_ok_one[OF ok, of i]) (use st that in \<open>auto simp: session_ok_def\<close>)
  show ?thesis
  proof (cases en)
    case (OpeningEntry q)
    have "reg' = ?out\<lparr>cancelling := (cancelling reg)(i \<mapsto> q)\<rparr>" using re Some OpeningEntry by (simp add: retire_def)
    then show ?thesis using st stage_ok_tombstone[of i r q "cancelling reg i" st None] OpeningEntry
      by (intro reg_ok_one[OF ok, of i]) (auto simp: session_ok_def)
  next
    case EndedEntry
    then show ?thesis using re Some out[OF stage_ok_ended] st(5) by (auto simp: retire_def)
  next
    case OpenEntry
    then show ?thesis using re Some out stage_ok_entry[OF st(5)] abandon_session_ok[OF ok, of i None c True]
      by (auto simp: retire_def Let_def split: if_splits)
  next
    case EndingEntry
    then show ?thesis using re Some out stage_ok_entry[OF st(5)] abandon_session_ok[OF ok, of i None c True]
      by (auto simp: retire_def Let_def split: if_splits)
  qed
qed (use re ok in \<open>simp add: retire_def\<close>)

lemma drop_ok:
  assumes ok: "reg_ok reg" shows "reg_ok (drop_registry c reg)"
  unfolding reg_ok_def
proof
  fix i
  show "session_ok i (drop_registry c reg)"
  proof (cases "entries reg i")
    case None
    have "session_ok i reg" using ok by (simp add: reg_ok_def)
    with None show ?thesis by (auto simp: session_ok_def drop_registry_def split: option.splits)
  next
    case (Some en)
    with ok obtain st r where st: "stages reg i = Some st" "i < next_session reg" "shared_session (stage_shared st) = i"
      "opened_by reg i = Some r" "stage_ok i r (Some en) (cancelling reg i) st" by (rule entry_stage)
    have ab: "stage_ok i r None (cancelling reg i) (begin_abandon (c i) True st)" if "en = OpenEntry \<or> en = EndingEntry"
      using that st(5) by (intro begin_abandon_ok[OF st(5)] handed_out_entry[OF st(5)]) auto
    show ?thesis
      using st Some ab stage_ok_tombstone[of i r _ "cancelling reg i" st None] stage_ok_ended[of i r "cancelling reg i" st]
      by (cases en) (auto simp: session_ok_def drop_registry_def)
  qed
qed

lemma cancel_ok:
  assumes ok: "reg_ok reg" and cn: "cancelling reg i = Some r"
  shows "reg_ok (update_shared i (cancel_open i r) (reg\<lparr>cancelling := (cancelling reg)(i := None)\<rparr>))"
proof -
  obtain st where st: "stages reg i = Some st"
    using ok cn by (fastforce simp: reg_ok_def session_ok_def dest: spec[of _ i] split: option.splits)
  from reg_okD[OF ok st] obtain q where q: "i < next_session reg" "shared_session (stage_shared st) = i" "opened_by reg i = Some q"
    "stage_ok i q (entries reg i) (Some r) st" using cn by auto
  have sh: "q = r" "emissions (stage_shared st) = []" "\<not> terminal_emitted (stage_shared st)"
    and en: "entries reg i \<in> {None, Some EndedEntry}" "\<not> handed_out st"
    using q(4) by (cases st; auto simp: unopened_def handed_out_def)+
  note log = cancel_open_log[OF sh(2,3) q(2), of r]
  have shr: "stage_shared (on_stage (cancel_open i r) st) = cancel_open i r (stage_shared st)" by (cases st) (simp_all add: on_shared_def)
  have "stage_ok i q (entries reg i) None (on_stage (cancel_open i r) st)"
    using q(4) sh en log by (cases st) (auto simp: unopened_def handed_out_def)
  then show ?thesis
    by (intro reg_ok_one[OF ok, of i]) (use q st log shr in \<open>auto simp: session_ok_def update_shared_def set_stage_def\<close>)
qed

lemma serve_ok:
  assumes ok: "reg_ok reg" and st: "stages reg i = Some (Serving s)" and step: "sys_step dr lay s s'"
  shows "reg_ok (set_stage i (Serving s') reg)"
proof (rule reg_ok_stage[OF ok st])
  have s: "sys_ok s" "shared_session (w_shared (wk s)) = i" using reg_okD[OF ok st] by auto
  note s' = sys_step_effect[OF step s(1)]
  have "accepted s' = accepted s @ drop (length (accepted s)) (accepted s')" using step by cases simp_all
  then have acc: "set (accepted s) \<subseteq> set (accepted s')" by (metis set_append sup_ge1)
  show "shared_session (stage_shared (Serving s')) = i"
    using s' s by (auto simp: sys_ok_def calm_def worker_ok_def firm_def)
  fix r
  assume "stage_ok i r (entries reg i) (cancelling reg i) (Serving s)"
  then show "stage_ok i r (entries reg i) (cancelling reg i) (Serving s')"
    using s' sys_step_extends[OF step s(1)] acc by (auto simp: extends_def)
qed

lemma reg_step_ok:
  assumes "reg_step dr lay lm reg reg'" and ok: "reg_ok reg"
  shows "reg_ok reg'"
  using assms(1)
proof cases
  case (step_open r spawned i)
  then show ?thesis by (intro opening_ok[OF ok])
next
  case (step_connect i sh n outcome)
  then show ?thesis using connect_returned_ok[OF ok] by simp
next
  case (step_report i w r rd cs acc)
  then show ?thesis using report_opened_ok[OF ok] by simp
next
  case (step_fail i sh r e)
  have "shared_session sh = i" "emissions sh = []" "\<not> terminal_emitted sh" using reg_okD[OF ok step_fail(2)] by auto
  from fail_open_log[OF this(2,3,1)] show ?thesis unfolding step_fail(1)
    by (intro reg_ok_stage[OF ok step_fail(2)]) (auto simp: report_failed_def unopened_def)
next
  case (step_refuse i sh d)
  then show ?thesis unfolding step_refuse(1)
    by (intro reg_ok_stage[OF ok step_refuse(2)]) (use reg_okD[OF ok step_refuse(2)] in auto)
next
  case (step_serve i s s')
  then show ?thesis using serve_ok[OF ok] by simp
next
  case (step_early i w r rd cs acc c)
  have "sys_ok \<lparr>channel = cs @ [c], wk = w, running = True, accepted = acc @ requests c\<rparr>"
    if "sys_ok \<lparr>channel = cs, wk = w, running = True, accepted = acc\<rparr>" using sys_ok_submit[OF that, of c] by simp
  then show ?thesis unfolding step_early(1)
    by (intro reg_ok_stage[OF ok step_early(2)]) (use reg_okD[OF ok step_early(2)] in auto)
next
  case (step_early_cancel i w r rd cs acc e)
  have "sys_ok \<lparr>channel = cs, wk = on_shared (note_error e) w, running = True, accepted = acc\<rparr>"
    if "sys_ok \<lparr>channel = cs, wk = w, running = True, accepted = acc\<rparr>" using sys_ok_note_error[OF that, of e] by simp
  then have "reg_ok (set_stage i (Reporting (on_shared (note_error e) w) r rd cs acc) reg)"
    by (intro reg_ok_stage[OF ok step_early_cancel(2)]) (use reg_okD[OF ok step_early_cancel(2)] in \<open>auto simp: on_shared_def\<close>)
  then show ?thesis using step_early_cancel by (simp add: update_shared_def)
next
  case (step_abandon cancelled n i a)
  then show ?thesis by (intro abandon_ok[OF ok])
next
  case (step_cancel i r)
  then show ?thesis using cancel_ok[OF ok] by simp
next
  case (step_retire cancelled last_handle i b)
  then show ?thesis by (intro retire_ok[OF ok])
next
  case (step_drop c)
  then show ?thesis using drop_ok[OF ok] by simp
qed

lemma reg_reachable_ok: "reg_reachable dr lay lm reg \<Longrightarrow> reg_ok reg"
proof (induction rule: reg_reachable.induct)
  case (reg_new n)
  show ?case by (simp add: reg_ok_def session_ok_def registry_new_def)
qed (use reg_step_ok in blast)

end
