(* ===== verification/Session_Transactions.thy ===== *)
theory Session_Transactions
  imports Session_System
begin

text \<open>
  Transactions under a session's commands: which commands can reach the driver's commit, what
  a clean end says of the transaction, and when an execution returns.
\<close>

section \<open>Commands that cannot commit\<close>

definition asks_commit :: "'q command \<Rightarrow> bool" where
  "asks_commit c \<longleftrightarrow> (case c of DoCommit _ \<Rightarrow> True | DoClose (Explicit (Some CommitIt)) _ \<Rightarrow> True | _ \<Rightarrow> False)"

lemmas deep_cong = option.case_cong sum.case_cong prod.case_cong driver_value.case_cong disposition.case_cong called.case_cong if_cong

named_theorems blind \<comment> \<open>operations that never look at the driver's commit\<close>

lemma close_result_blind [blind]: "close_result (dr\<lparr>op_commit := g\<rparr>) = close_result dr"
  by (simp add: fun_eq_iff close_result_def Let_def cong: deep_cong)

lemma release_registered_blind [blind]: "release_registered (dr\<lparr>op_commit := g\<rparr>) is w = release_registered dr is w"
  by (induction "is" arbitrary: w) (simp_all add: blind Let_def cong: deep_cong)

lemma close_cursors_blind [blind]: "close_cursors (dr\<lparr>op_commit := g\<rparr>) ks w = close_cursors dr ks w"
  by (induction ks arbitrary: w) simp_all

lemma release_results_blind [blind]: "release_results (dr\<lparr>op_commit := g\<rparr>) = release_results dr"
  by (simp add: fun_eq_iff release_results_def blind Let_def cong: deep_cong)

lemma close_connection_blind [blind]: "close_connection (dr\<lparr>op_commit := g\<rparr>) = close_connection dr"
  by (simp add: fun_eq_iff close_connection_def Let_def cong: deep_cong)

lemma discard_all_blind [blind]: "discard_all (dr\<lparr>op_commit := g\<rparr>) = discard_all dr"
  by (simp add: fun_eq_iff discard_all_def blind Let_def cong: deep_cong)

lemma register_cursor_blind [blind]: "register_cursor (dr\<lparr>op_commit := g\<rparr>) = register_cursor dr"
  by (simp add: fun_eq_iff register_cursor_def)

lemma park_lob_blind [blind]: "park_lob (dr\<lparr>op_commit := g\<rparr>) = park_lob dr"
  by (simp add: fun_eq_iff park_lob_def)

lemma transaction_state_blind [blind]: "transaction_state (dr\<lparr>op_commit := g\<rparr>) = transaction_state dr"
  by (simp add: fun_eq_iff transaction_state_def)

lemma note_after_blind [blind]: "note_transaction_state_after (dr\<lparr>op_commit := g\<rparr>) = note_transaction_state_after dr"
  by (simp add: fun_eq_iff note_transaction_state_after_def blind Let_def cong: deep_cong)

lemma adopt_out_value_blind [blind]: "adopt_out_value (dr\<lparr>op_commit := g\<rparr>) = adopt_out_value dr"
  by (simp add: fun_eq_iff adopt_out_value_def blind Let_def cong: deep_cong)

lemma adopt_positional_blind [blind]: "adopt_positional (dr\<lparr>op_commit := g\<rparr>) vs reg w = adopt_positional dr vs reg w"
proof (induction vs arbitrary: reg w)
  case (Cons v vs)
  then show ?case by (cases v) (simp_all add: blind Let_def cong: deep_cong)
qed simp

lemma adopt_named_blind [blind]: "adopt_named (dr\<lparr>op_commit := g\<rparr>) vs reg w = adopt_named dr vs reg w"
proof (induction vs arbitrary: reg w)
  case (Cons v vs)
  then show ?case by (cases v) (simp add: blind Let_def cong: deep_cong)
qed simp

lemma worker_out_values_blind [blind]: "worker_out_values (dr\<lparr>op_commit := g\<rparr>) vs reg w = worker_out_values dr vs reg w"
  by (cases vs) (simp_all add: blind Let_def cong: deep_cong)

lemma finish_execute_blind [blind]: "finish_execute (dr\<lparr>op_commit := g\<rparr>) = finish_execute dr"
  by (simp add: fun_eq_iff finish_execute_def adopt_cursor_def end_of_transaction_def note_executed_def blind Let_def cong: deep_cong)

lemma drain_server_output_blind [blind]: "drain_server_output (dr\<lparr>op_commit := g\<rparr>) = drain_server_output dr"
  by (simp add: fun_eq_iff drain_server_output_def drain_step_def blind Let_def cong: deep_cong)

lemma execute_blind [blind]: "execute (dr\<lparr>op_commit := g\<rparr>) = execute dr"
  by (simp add: fun_eq_iff execute_def announce_executing_def blind Let_def cong: deep_cong)

lemma park_rows_blind [blind]: "park_rows (dr\<lparr>op_commit := g\<rparr>) i ix rows c acc w = park_rows dr i ix rows c acc w"
  by (induction rows arbitrary: c acc w) (simp_all add: blind Let_def cong: deep_cong)

lemma park_columns_blind [blind]: "park_columns (dr\<lparr>op_commit := g\<rparr>) i ix cs acc w = park_columns dr i ix cs acc w"
  by (induction cs arbitrary: ix acc w) (simp_all add: blind Let_def cong: deep_cong)

lemma fetch_batch_blind [blind]: "fetch_batch (dr\<lparr>op_commit := g\<rparr>) = fetch_batch dr"
  by (simp add: fun_eq_iff fetch_batch_def park_batch_lobs_def blind Let_def cong: deep_cong)

lemma fetch_segment_blind [blind]: "fetch_segment (dr\<lparr>op_commit := g\<rparr>) = fetch_segment dr"
proof -
  have p: "park_serial (dr\<lparr>op_commit := g\<rparr>) i = park_serial dr i" for i
    by (simp add: fun_eq_iff park_serial_def blind cong: deep_cong)
  have f: "fetch_known (dr\<lparr>op_commit := g\<rparr>) = fetch_known dr"
    by (simp add: fun_eq_iff fetch_known_def cong: deep_cong)
  show ?thesis by (intro ext) (simp add: fetch_segment_def p f blind Let_def cong: deep_cong)
qed

lemma close_for_good_blind [blind]: "close_for_good (dr\<lparr>op_commit := g\<rparr>) = close_for_good dr"
  by (simp add: fun_eq_iff close_for_good_def blind)

lemma run_command_blind:
  assumes "\<not> asks_commit c"
  shows "run_command (dr\<lparr>op_commit := g\<rparr>) lay c w = run_command dr lay c w"
proof (cases c)
  case (DoClose intent rt)
  then show ?thesis using assms
    by (cases intent rule: close_intent.exhaust)
      (auto simp: asks_commit_def close_session_def op_disposition_def blind
        cong: deep_cong split: option.split disposition.split)
qed (use assms in \<open>simp_all add: asks_commit_def blind resolve_transaction_def op_disposition_def simple_operation_def
    read_lob_chunk_def set_server_output_def
    Let_def cong: deep_cong\<close>)

lemma drain_queue_blind:
  "list_all (\<lambda>c. \<not> asks_commit c) cs \<Longrightarrow> drain_queue (dr\<lparr>op_commit := g\<rparr>) lay cs w = drain_queue dr lay cs w"
  by (induction cs arbitrary: w) (auto simp: run_command_blind)

lemma dispatch_blind:
  assumes "\<not> asks_commit c" and "list_all (\<lambda>c. \<not> asks_commit c) cs"
  shows "dispatch (dr\<lparr>op_commit := g\<rparr>) lay c cs w = dispatch dr lay c cs w"
  using assms
  by (simp add: dispatch_def dispatch_inner_def announce_terminal_def validate_def run_command_blind drain_queue_blind blind Let_def cong: deep_cong)

lemma shut_down_blind: "shut_down (dr\<lparr>op_commit := g\<rparr>) = shut_down dr"
  by (simp add: fun_eq_iff shut_down_def blind Let_def cong: deep_cong)

section \<open>When an execution returns\<close>

text \<open>
  The driver's promise the loop over server output rests on: whatever it measures of the driver,
  a chunk that has lines and is not the last leaves less to read.
\<close>

definition runs_dry :: "('d, 'k, 'l, 'q) driver \<Rightarrow> ('d \<Rightarrow> nat) \<Rightarrow> bool" where
  "runs_dry dr left \<longleftrightarrow> (\<forall>n m d chunk d'. op_take_output dr n m d = (Returned (Inr chunk), d') \<longrightarrow>
     \<not> drained chunk \<longrightarrow> chunk_lines chunk \<noteq> [] \<longrightarrow> left d' < left d)"


lemma drain_step_shrinks:
  assumes "runs_dry dr left"
    and "drain_step dr rq w = (True, w')"
  shows "left (world w') < left (world w)"
proof -
  obtain x w1 where x: "with_connection (op_take_output dr (server_output_chunk_lines (limits w))
      (server_output_chunk_bytes (limits w))) w = (x, w1)" by fastforce
  then obtain chunk where c: "x = Some (Inr chunk)" "\<not> drained chunk" "chunk_lines chunk \<noteq> []" "world w' = world w1"
    using assms(2) by (auto simp: drain_step_def Let_def deliver_server_output_def on_shared_def split: if_splits option.splits sum.splits)
  then have "op_take_output dr (server_output_chunk_lines (limits w)) (server_output_chunk_bytes (limits w)) (world w) =
      (Returned (Inr chunk), world w1)"
    using x by (auto simp: with_connection_def call_driver_def split: if_splits prod.splits called.splits)
  then show ?thesis using assms(1) c(2-4) unfolding runs_dry_def by metis
qed

lemma drain_returns:
  assumes "runs_dry dr left"
  shows "\<exists>w'. drain_server_output dr rq w = Some w'"
proof -
  have "\<exists>t. while_option fst (\<lambda>(_, w). drain_step dr rq w) (True, w) = Some t"
  proof (rule measure_while_option_Some [where P = "\<lambda>_. True" and f = "\<lambda>t. if fst t then left (world (snd t)) + 1 else 0",
        THEN exE])
    fix t :: "bool \<times> ('a, 'b, 'c) worker"
    assume 1: "True" "fst t"
    obtain b w1 where t: "t = (b, w1)" by (cases t)
    obtain b' w2 where d: "drain_step dr rq w1 = (b', w2)" by fastforce
    show "True \<and> (if fst (case t of (_, w) \<Rightarrow> drain_step dr rq w) then left (world (snd (case t of (_, w) \<Rightarrow> drain_step dr rq w))) + 1 else 0) <
        (if fst t then left (world (snd t)) + 1 else 0)" using 1 t d drain_step_shrinks [OF assms, of rq w1 w2] by auto
  qed auto
  then show ?thesis by (auto simp: drain_server_output_def)
qed

lemma run_command_returns:
  assumes "runs_dry dr left"
  shows "\<exists>r. run_command dr lay c w = Some r"
proof (cases c)
  case (DoExecute st rt)
  obtain x w1 where x: "with_connection (op_execute dr st) (announce_executing dr st rt w) = (x, w1)" by fastforce
  show ?thesis
  proof (cases x)
    case (Some out)
    obtain ans w2 where f: "finish_execute dr out w1 = (ans, w2)" by fastforce
    obtain w3 where "drain_server_output dr (reply_request rt) w2 = Some w3" using drain_returns [OF assms] by blast
    then show ?thesis using DoExecute x Some f by (simp add: execute_def split: sum.split prod.split)
  qed (use DoExecute x in \<open>simp add: execute_def\<close>)
qed (auto simp: Let_def split: prod.split sum.split)

lemma drain_queue_returns:
  assumes "runs_dry dr left"
  shows "\<exists>r. drain_queue dr lay cs w = Some r"
proof (induction cs arbitrary: w)
  case (Cons c cs)
  then show ?case using run_command_returns [OF assms, of lay c w] by auto
qed simp

lemma dispatch_returns:
  assumes "runs_dry dr left"
  shows "\<exists>r. dispatch dr lay c cs w = Some r"
proof -
  have a: "\<exists>r. announce_terminal dr lay fl cs v = Some r" for fl v
    using drain_queue_returns [OF assms, of lay cs v] by (auto simp: announce_terminal_def split: option.split)
  have "\<exists>r. dispatch_inner dr lay c cs v = Some r" for v
    using run_command_returns [OF assms, of lay c] a
    by (auto simp: dispatch_inner_def Let_def split: option.split) (metis option.distinct(1) surj_pair)+
  then show ?thesis by (auto simp: dispatch_def split: option.split)
qed

section \<open>A clean end\<close>

lemma lost_at_end_mark [simp]: "transaction_lost_at_end (mark_ended how (mark_closed s)) = transaction_lost_at_end s"
  by (simp add: transaction_lost_at_end_def possibly_active_def mark_ended_def mark_closed_def split: option.split)

lemma ended_mark: "ended_as s = None \<Longrightarrow> ended_as (mark_ended how (mark_closed s)) = Some how"
  by (simp add: mark_ended_def mark_closed_def)

lemma resolved_not_lost: "\<not> transaction_lost_at_end (w_shared (on_shared (\<lambda>s. f s\<lparr>transaction_resolved_at_end := True\<rparr>) w))"
  by (simp add: transaction_lost_at_end_def on_shared_def)

lemma answer_close_end:
  "ended_as (w_shared (answer_close rt res w)) = ended_as (w_shared w)"
  "transaction_lost_at_end (w_shared (answer_close rt res w)) = transaction_lost_at_end (w_shared w)"
  using answer_fields [OF surjective_pairing, of rt "\<lambda>r. SessionClosed (w_session w) r (PClosed res)" w]
  by (simp_all add: answer_close_def transaction_lost_at_end_def)

lemma close_for_good_end:
  "transaction_lost_at_end (w_shared (close_for_good dr explicit rt w)) = transaction_lost_at_end (w_shared w)"
  "ended_as (w_shared w) = None \<Longrightarrow>
   ended_as (w_shared (close_for_good dr explicit rt w)) = Some (if explicit then Cleanly else Unresolved)"
proof -
  obtain out w1 where c: "close_connection dr (release_results dr w) = (out, w1)" by fastforce
  then have s: "w_shared w1 = w_shared w" using close_connection_fields [OF c] by simp
  show "transaction_lost_at_end (w_shared (close_for_good dr explicit rt w)) = transaction_lost_at_end (w_shared w)"
    by (simp add: close_for_good_def c answer_close_end) (simp add: on_shared_def s)
  show "ended_as (w_shared w) = None \<Longrightarrow>
      ended_as (w_shared (close_for_good dr explicit rt w)) = Some (if explicit then Cleanly else Unresolved)"
    by (simp add: close_for_good_def c answer_close_end) (simp add: on_shared_def s ended_mark)
qed

lemma close_session_clean:
  assumes "close_session dr intent rt w = (Exit, w')" and "ended_as (w_shared w) = None" and "ended_as (w_shared w') = Some Cleanly"
  shows "\<not> transaction_lost_at_end (w_shared w') \<and> connected w"
proof (cases "connected w")
  case False
  then show ?thesis using assms by (auto simp: close_session_def Let_def answer_close_end) (auto simp: on_shared_def ended_mark)
next
  case True
  show ?thesis
  proof (cases intent)
    case Abandon
    then show ?thesis using assms True close_for_good_end(2) [OF assms(2), of dr False rt] by (simp add: close_session_def)
  next
    case (Explicit dsp)
    show ?thesis
    proof (cases dsp)
      case None
      have "\<not> possibly_active (w_shared w) \<Longrightarrow> \<not> transaction_lost_at_end (w_shared w)"
        by (simp add: transaction_lost_at_end_def)
      then show ?thesis using assms True Explicit None
        by (auto simp: close_session_def close_for_good_end(1) split: if_splits)
    next
      case (Some d)
      then show ?thesis using assms True Explicit
        by (auto simp: close_session_def close_for_good_end(1) resolved_not_lost split: option.splits sum.splits prod.splits)
    qed
  qed
qed

lemma fail_command_end: "ended_as (w_shared (fail_command c w)) = ended_as (w_shared w)"
  using answered_serves [OF fail_command_answered, of c w] by (simp add: stays_def)

lemma drain_end:
  "drain_queue dr lay cs w = Some (r, rest, w') \<Longrightarrow> dead w \<Longrightarrow> ended_as (w_shared w) = None \<Longrightarrow>
   (r = None \<and> ended_as (w_shared w') = None) \<or> (r = Some Exit \<and> ended_as (w_shared w') = Some Unresolved)"
proof (induction cs arbitrary: w)
  case (Cons c cs)
  show ?case
  proof (cases "is_close c")
    case True
    then obtain intent rt where c: "c = DoClose intent rt" by (cases c) auto
    have "\<not> connected w" using Cons(3) by (simp add: dead_def)
    then show ?thesis using Cons(2,4) c
      by (auto simp: close_session_def Let_def answer_close_end) (auto simp: on_shared_def ended_mark)
  next
    case False
    have "dead (fail_command c w)" using Cons(3) by (simp add: fail_command_def dead_answer)
    then show ?thesis using Cons False by (simp add: fail_command_end)
  qed
qed simp

lemma announce_end:
  assumes "announce_terminal dr lay Continue queued w = Some (fl, rest, w')" and "ended_as (w_shared w) = None"
    and "lifecycle_terminal (lifecycle (w_shared w)) \<longrightarrow> dead w"
  shows "(fl = Continue \<and> ended_as (w_shared w') = None) \<or> (fl = Exit \<and> ended_as (w_shared w') = Some Unresolved)"
proof (cases "terminal_emitted (w_shared w) \<or> \<not> lifecycle_terminal (lifecycle (w_shared w))")
  case True
  then show ?thesis using assms by (auto simp: announce_terminal_def)
next
  case False
  obtain r w1 where d: "drain_queue dr lay queued w = Some (r, rest, w1)"
    using assms(1) False by (auto simp: announce_terminal_def split: option.splits)
  have "dead w" using False assms(3) by simp
  from drain_end [OF d this assms(2)] show ?thesis using assms(1) False d
    by (auto simp: announce_terminal_def on_shared_def emit_terminal_def emit_event_def split: option.splits)
qed

lemma run_command_end:
  assumes "run_command dr lay c w = Some (fl, w')" and "ended_as (w_shared w) = None"
  shows "(fl = Continue \<and> ended_as (w_shared w') = None) \<or>
    (fl = Exit \<and> (ended_as (w_shared w') = Some Cleanly \<longrightarrow> \<not> transaction_lost_at_end (w_shared w') \<and> connected w))"
proof (cases fl)
  case Continue
  then show ?thesis using run_command_serves [OF assms(1)] assms(2) by (simp add: stays_def)
next
  case Exit
  then obtain intent rt where "c = DoClose intent rt" using run_command_serves [OF assms(1)] by (cases c) auto
  then show ?thesis using assms Exit close_session_clean [of dr intent rt w w'] by simp
qed

lemma dispatch_inner_end:
  assumes "dispatch_inner dr lay c queued w = Some (fl, rest, w')" and "calm w" and "ended_as (w_shared w) = None"
  shows "(fl = Continue \<and> ended_as (w_shared w') = None) \<or>
    (fl = Exit \<and> (ended_as (w_shared w') = Some Cleanly \<longrightarrow> \<not> transaction_lost_at_end (w_shared w') \<and> connected w))"
proof -
  define check where "check \<longleftrightarrow> lifecycle (w_shared w) = SNeedsValidation \<and> \<not> is_close c"
  define w1 where "w1 = (if check then validate dr w else w)"
  have a1: "advances w w1" using validate_advances by (auto simp: w1_def check_def)
  have e1: "ended_as (w_shared w1) = None" using advances_stays [OF a1] assms(3) by (simp add: stays_def)
  show ?thesis
  proof (cases "check \<and> lifecycle (w_shared w1) = SLost")
    case True
    let ?w = "fail_command c (discard_all dr w1)"
    have "dead ?w" by (simp add: fail_command_def dead_answer) (simp add: dead_def)
    moreover have "announce_terminal dr lay Continue queued ?w = Some (fl, rest, w')"
      using assms(1) True by (auto simp: dispatch_inner_def Let_def check_def w1_def)
    ultimately show ?thesis using announce_end e1 by (fastforce simp: fail_command_end)
  next
    case False
    then obtain f w2 where r: "run_command dr lay c w1 = Some (f, w2)"
      and n: "announce_terminal dr lay f queued (if lifecycle (w_shared w2) = SLost then discard_all dr w2 else w2) = Some (fl, rest, w')"
      using assms(1) by (auto simp: dispatch_inner_def Let_def check_def w1_def split: option.splits if_splits)
    let ?w = "if lifecycle (w_shared w2) = SLost then discard_all dr w2 else w2"
    have sh: "w_shared ?w = w_shared w2" by simp
    show ?thesis
    proof (cases f)
      case Exit
      then have "fl = Exit" "w' = ?w" using n by (auto simp: announce_terminal_def)
      moreover have "connected w1 \<longrightarrow> connected w" using advances_silent [OF a1] by (auto simp: silent_def sends_def keeps_def)
      ultimately show ?thesis using run_command_end [OF r e1] Exit sh by auto
    next
      case Continue
      then have st: "stays w1 w2" "ended_as (w_shared ?w) = None"
        using run_command_serves [OF r] run_command_end [OF r e1] sh by auto
      have "lifecycle_terminal (lifecycle (w_shared ?w)) \<longrightarrow> dead ?w"
      proof (cases "lifecycle (w_shared w2) = SClosed")
        case True
        then have "lifecycle (w_shared w) = SClosed" using st(1) advances_stays [OF a1] by (simp add: stays_def)
        then have "dead w1" using assms(2) by (auto simp: calm_def w1_def validate_dead)
        then show ?thesis using dead_run [OF _ r] by (auto simp: dead_def)
      qed (cases "lifecycle (w_shared w2)"; auto simp: dead_def)
      then show ?thesis using announce_end [OF n [unfolded Continue] st(2)] by auto
    qed
  qed
qed

text \<open>A session that runs has not ended, and one that ended cleanly lost no transaction and says so.\<close>

definition honest :: "('d, 'k, 'l, 'q) system \<Rightarrow> bool" where
  "honest s \<longleftrightarrow> (running s \<longrightarrow> ended_as (w_shared (wk s)) = None) \<and>
     (ended_as (w_shared (wk s)) = Some Cleanly \<longrightarrow> \<not> transaction_lost_at_end (w_shared (wk s)) \<and>
        (\<forall>i lc cause lost. Emitted (Terminal i (PTerminal lc cause lost)) \<in> set (emissions (w_shared (wk s))) \<longrightarrow> \<not> lost))"

lemma drop_command_end:
  "ended_as (drop_command i c s) = ended_as s \<and> transaction_lost_at_end (drop_command i c s) = transaction_lost_at_end s"
  by (simp add: drop_command_def reply_event_def transaction_lost_at_end_def possibly_active_def split: option.split)

lemma drop_commands_end:
  "ended_as (fold (drop_command i) cs s) = ended_as s \<and> transaction_lost_at_end (fold (drop_command i) cs s) = transaction_lost_at_end s"
  by (induction cs arbitrary: s) (simp_all add: drop_command_end)

lemma no_terminal: "terminals es = 0 \<Longrightarrow> Emitted (Terminal i p) \<notin> set es"
  by (induction es) (auto split: if_splits)

lemma shut_down_end:
  assumes "calm w" and "ended_as (w_shared w) = Some Cleanly \<longrightarrow> \<not> transaction_lost_at_end (w_shared w) \<and> terminals (emissions (w_shared w)) = 0"
    and "ended_as (w_shared (shut_down dr cs w)) = Some Cleanly"
  shows "\<not> transaction_lost_at_end (w_shared (shut_down dr cs w)) \<and>
    (Emitted (Terminal i (PTerminal lc cause lost)) \<in> set (emissions (w_shared (shut_down dr cs w))) \<longrightarrow> \<not> lost)"
proof -
  let ?a = "on_shared (fold (drop_command (w_session w)) cs) w"
  let ?b = "snd (close_connection dr (release_results dr ?a))"
  let ?s = "mark_ended Unresolved (mark_closed (w_shared ?a))"
  have b: "w_shared ?b = w_shared ?a"
    using close_connection_fields [OF surjective_pairing, of dr "release_results dr ?a"] by simp
  have sd: "w_shared (shut_down dr cs w) = emit_terminal (transaction_lost_at_end ?s) ?s"
    by (simp add: shut_down_def Let_def on_shared_def [of _ ?b] b)
  have et: "ended_as (emit_terminal x s) = ended_as s" "transaction_lost_at_end (emit_terminal x s) = transaction_lost_at_end s" for x s
    by (simp_all add: emit_terminal_def emit_event_def transaction_lost_at_end_def possibly_active_def)
  have ea: "ended_as (w_shared ?a) = ended_as (w_shared w)" "transaction_lost_at_end (w_shared ?a) = transaction_lost_at_end (w_shared w)"
    by (simp_all add: on_shared_def drop_commands_end)
  have ew: "ended_as (w_shared w) = Some Cleanly"
    using assms(3) ea(1) ended_mark [of "w_shared ?a" Unresolved] unfolding sd et
    by (cases "ended_as (w_shared w)") (auto simp: mark_ended_def mark_closed_def split: if_splits)
  have nl: "\<not> transaction_lost_at_end ?s" using ea(2) ew assms(2) by simp
  have em: "emissions ?s = emissions (w_shared ?a)" by (simp add: mark_ended_def mark_closed_def split: option.split)
  obtain es where "emissions (w_shared ?a) = emissions (w_shared w) @ es" "terminals es = 0"
    using drop_commands_serve [of cs w] by (auto simp: serves_all_def sends_def)
  then have "terminals (emissions ?s) = 0" using em ew assms(2) by simp
  from no_terminal [OF this] nl have "Emitted (Terminal i (PTerminal lc cause lost)) \<in> set (emissions (w_shared (shut_down dr cs w))) \<longrightarrow> \<not> lost"
    unfolding sd by (auto simp: emit_terminal_def emit_event_def)
  then show ?thesis using nl et(2) [of "transaction_lost_at_end ?s" ?s] unfolding sd by simp
qed

lemma shut_down_honest:
  assumes "calm w" and "ended_as (w_shared w) = Some Cleanly \<longrightarrow> \<not> transaction_lost_at_end (w_shared w) \<and> terminals (emissions (w_shared w)) = 0"
  shows "honest (s\<lparr>channel := ch, wk := shut_down dr cs w, running := False\<rparr>)"
  unfolding honest_def using shut_down_end [OF assms, of dr cs] by simp blast

lemma honest_new: "honest \<lparr>channel = [], wk = worker_new session lm conn exactly outp st d n, running = True, accepted = []\<rparr>"
  by (simp add: honest_def worker_new_def shared_new_def seed_driver_transaction_state_def)

text \<open>Steps that leave the end and the tracking alone and emit nothing of their own.\<close>

lemma honest_still:
  assumes "honest s" and "ended_as (w_shared w) = ended_as (w_shared (wk s))"
    and "transaction_lost_at_end (w_shared w) = transaction_lost_at_end (w_shared (wk s))"
    and "emissions (w_shared w) = emissions (w_shared (wk s)) @ es" and "terminals es = 0"
  shows "honest (s\<lparr>channel := ch, wk := w, accepted := acc\<rparr>)" "honest (s\<lparr>wk := w, accepted := acc\<rparr>)" "honest (s\<lparr>wk := w\<rparr>)"
  using assms(1-4) no_terminal [OF assms(5)] by (simp_all add: honest_def) blast+

lemma dispatch_end:
  assumes "dispatch dr lay c queued w = Some (fl, rest, w')" and "calm w" and "ended_as (w_shared w) = None"
  shows "(fl = Continue \<and> ended_as (w_shared w') = None) \<or>
    (fl = Exit \<and> (ended_as (w_shared w') = Some Cleanly \<longrightarrow> \<not> transaction_lost_at_end (w_shared w') \<and> terminals (emissions (w_shared w')) = 0))"
proof -
  let ?w = "on_shared (\<lambda>s. s\<lparr>driver_calls := driver_calls s + 1\<rparr>) w"
  obtain w1 where w1: "dispatch_inner dr lay c queued ?w = Some (fl, rest, w1)"
    "w' = on_shared (\<lambda>s. s\<lparr>driver_calls := driver_calls s - 1\<rparr>) w1"
    using assms(1) by (auto simp: dispatch_def split: option.splits)
  have c: "calm ?w" using assms(2) by (simp add: driver_calls_same)
  have e: "ended_as (w_shared ?w) = None" using assms(3) by (simp add: on_shared_def)
  have same: "ended_as (w_shared w') = ended_as (w_shared w1)" "emissions (w_shared w') = emissions (w_shared w1)"
    "transaction_lost_at_end (w_shared w') = transaction_lost_at_end (w_shared w1)"
    unfolding w1(2) by (simp_all add: on_shared_def transaction_lost_at_end_def possibly_active_def)
  have "terminals (emissions (w_shared w')) = 0" if "fl = Exit" and "connected ?w"
  proof -
    have "\<not> terminal_emitted (w_shared w)" using that(2) assms(2) by (auto simp: calm_def worker_ok_def dead_def on_shared_def)
    then have "\<not> terminal_emitted (w_shared w')" "worker_ok w'"
      using dispatch_effect [OF assms(1,2)] that(1) by (auto simp: exits_def effect_def calm_def)
    then show ?thesis by (simp add: worker_ok_def)
  qed
  then show ?thesis using dispatch_inner_end [OF w1(1) c e] same by auto
qed

lemma sys_step_honest:
  assumes "sys_step dr lay s s'" and "sys_ok s" and "honest s"
  shows "honest s'"
  using assms
proof (cases rule: sys_step.cases)
  case (submit c)
  then show ?thesis using honest_still [OF assms(3), of "wk s" "[]"] by (simp add: honest_def)
next
  case (submit_late c)
  let ?w = "on_shared (drop_command (w_session (wk s)) c) (wk s)"
  obtain es where "emissions (w_shared ?w) = emissions (w_shared (wk s)) @ es" "terminals es = 0"
    using drop_command_serves [of c "wk s"] by (auto simp: serves_def sends_def)
  then show ?thesis unfolding submit_late(1) using drop_command_end by (intro honest_still [OF assms(3)]) (auto simp: on_shared_def)
next
  case (submit_settled res r)
  then show ?thesis
    by (simp, intro honest_still(2) [OF assms(3), where es = "[Replied (SessionClosed (w_session (wk s)) r (PClosed (close_result_of res)))]"])
      (simp_all add: answer_close_end answer_close_def on_shared_def reply_event_def transaction_lost_at_end_def possibly_active_def)
next
  case (work c cs cs' w')
  then have "calm (wk s)" "ended_as (w_shared (wk s)) = None" using assms(2,3) by (simp_all add: sys_ok_def honest_def)
  from dispatch_end [OF work(4) this] show ?thesis using work by (simp add: honest_def)
next
  case (finish c cs cs' w')
  then have c: "calm (wk s)" "ended_as (w_shared (wk s)) = None" using assms(2,3) by (simp_all add: sys_ok_def honest_def)
  have "calm w'" using dispatch_effect [OF finish(4) c(1)] by (auto simp: effect_def)
  then show ?thesis unfolding finish(1) using dispatch_end [OF finish(4) c] by (intro shut_down_honest) auto
next
  case hang_up
  then have "calm (wk s)" "ended_as (w_shared (wk s)) = None" using assms(2,3) by (simp_all add: sys_ok_def honest_def)
  then show ?thesis using hang_up shut_down_honest [where w = "wk s" and dr = dr and cs = "[]" and s = s and ch = "[]"] by (simp add: honest_def) blast
next
  case (cancel_failed e)
  show ?thesis unfolding cancel_failed
    by (rule honest_still(3) [OF assms(3), where es = "[]"])
      (simp_all add: on_shared_def note_error_def transaction_lost_at_end_def possibly_active_def split: session_state.split)
next
  case abandoning
  show ?thesis unfolding abandoning
    by (rule honest_still(3) [OF assms(3), where es = "[]"])
      (simp_all add: on_shared_def transaction_lost_at_end_def possibly_active_def)
qed

lemma reachable_ok: "sys_reachable dr lay s \<Longrightarrow> sys_ok s \<and> honest s"
  by (induction rule: sys_reachable.induct)
    (auto simp: sys_ok_new honest_new intro: sys_step_honest dest: sys_step_effect)

end
