(* ===== verification/Session_Properties.thy ===== *)
theory Session_Properties
  imports Session_Transactions
begin

text \<open>
  What a client of a session can rely on, in every state the session can reach, and two places
  where the code promises more than it keeps.  The witnesses run a small driver: it commits,
  rolls back and prints as it is told, and dies on demand.
\<close>

section \<open>A driver to run\<close>

text \<open>The driver's state says whether a transaction is open and how many lines of output wait.  A
  statement is a number: \<open>0\<close> changes data, \<open>1\<close> loses the connection, \<open>2\<close> is a query and \<open>3\<close> a block
  that changes data and returns a cursor.\<close>

definition sample_error :: "session_state \<Rightarrow> db_error" where
  "sample_error st = with_session_state st (error_new Connection (us ''gone''))"

definition sample_executed :: "nat \<Rightarrow> (nat, nat) execution_outcome" where
  "sample_executed q = \<lparr>exec_cursor = (if q < 2 then None else Some q), exec_rows_affected = Some 1,
     exec_kind = (if q = 2 then Query else if q = 3 then PlSqlBlock else Dml), exec_out_values = NoOutValues,
     exec_warnings = []\<rparr>"

definition sample_driver :: "(bool \<times> nat, nat, nat, nat) driver" where
  "sample_driver = \<lparr>
     op_execute = (\<lambda>q (tx, n). if q = 1 then (Returned (Inl (sample_error Lost)), (tx, n))
       else (Returned (Inr (sample_executed q)), (tx \<or> q \<noteq> 2, n))),
     op_commit = (\<lambda>(tx, n). (Returned (Inr ()), (False, n))), op_rollback = (\<lambda>(tx, n). (Returned (Inr ()), (False, n))),
     op_savepoint = (\<lambda>_ d. (Returned (Inr ()), d)), op_rollback_to = (\<lambda>_ d. (Returned (Inr ()), d)),
     op_ping = (\<lambda>d. (Returned (Inr ()), d)), op_close = (\<lambda>d. (Returned (Inr ()), d)),
     op_transaction_state = (\<lambda>(tx, n). if tx then TxActive else TxInactive),
     op_set_output = (\<lambda>s d. (Returned (Inr s), d)),
     op_take_output = (\<lambda>_ _ (tx, n). (Returned (Inr \<lparr>chunk_lines = (if n = 0 then [] else [us ''x'']), drained = (n \<le> 1),
        chunk_invalid_utf8 = 0\<rparr>), (tx, n - 1))),
     cur_id = (\<lambda>k. k), cur_connection = (\<lambda>_. 3), cur_columns = (\<lambda>_ d. (Returned (Inr []), d)),
     cur_fetch = (\<lambda>_ _ d. (Returned (Inl (sample_error Usable)), d)), cur_exhausted = (\<lambda>_ _. False),
     cur_close = (\<lambda>_ d. (Returned (Inr ()), d)), lob_connection = (\<lambda>_. 3),
     lob_read = (\<lambda>_ _ d. (Returned (Inr ([], 0)), d)), deadline_of = (\<lambda>_. None)\<rparr>"

type_synonym sample_system = "(bool \<times> nat, nat, nat, nat) system"

definition sample_limits :: session_limits where
  "sample_limits = \<lparr>max_open_results = 1, max_lob_chunk_bytes = 8, max_outstanding_requests = 4,
     server_output_chunk_lines = 2, server_output_chunk_bytes = 8\<rparr>"

definition sample_layout :: layout where
  "sample_layout = \<lparr>size_segment = 8, size_column = 8\<rparr>"

definition sample_session :: sample_system where
  "sample_session = \<lparr>channel = [], wk = worker_new 1 sample_limits 3 True False TxInactive (False, 2) 0,
     running = True, accepted = []\<rparr>"

definition ask :: "nat command \<Rightarrow> sample_system \<Rightarrow> sample_system" where
  "ask c s = (if running s then s\<lparr>channel := channel s @ [c], accepted := accepted s @ requests c\<rparr> else s)"

definition serve :: "('d, 'k, 'l, 'q) driver \<Rightarrow> ('d, 'k, 'l, 'q) system \<Rightarrow> ('d, 'k, 'l, 'q) system" where
  "serve dr s =
     (case channel s of
        [] \<Rightarrow> s
      | c # cs \<Rightarrow>
          if \<not> running s then s
          else (case dispatch dr sample_layout c cs (wk s) of
             None \<Rightarrow> s
           | Some (Continue, cs', w') \<Rightarrow> s\<lparr>channel := cs', wk := w'\<rparr>
           | Some (Exit, cs', w') \<Rightarrow> s\<lparr>channel := [], wk := shut_down dr cs' w', running := False\<rparr>))"

lemma reachable_session: "sys_reachable dr lay sample_session"
  unfolding sample_session_def by (rule sys_reachable.opened)

lemma reachable_ask: "sys_reachable dr lay s \<Longrightarrow> sys_reachable dr lay (ask c s)"
  by (auto simp: ask_def intro: sys_reachable.stepped sys_step.submit)

lemma step_serve: "serve dr s = s \<or> sys_step dr sample_layout s (serve dr s)"
  by (auto simp: serve_def split: list.split option.split flow.split intro: sys_step.work sys_step.finish)

lemma reachable_serve: "sys_reachable dr sample_layout s \<Longrightarrow> sys_reachable dr sample_layout (serve dr s)"
  using step_serve [of dr s] sys_reachable.stepped by fastforce

lemmas sample_reached = reachable_session reachable_ask reachable_serve

text \<open>A session that changed data, then closes with a commit.\<close>

definition sample_changed :: sample_system where
  "sample_changed = serve sample_driver (ask (DoExecute 0 (EventReply 5)) sample_session)"

definition sample_closed :: sample_system where
  "sample_closed = serve sample_driver (ask (DoClose (Explicit (Some CommitIt)) (EventReply 6)) sample_changed)"

lemma sample_closed_eq:
  "replied (emissions (w_shared (wk sample_closed))) = [5, 6]" "accepted sample_closed = [5, 6]"
  "running sample_closed = False" "ended_as (w_shared (wk sample_closed)) = Some Cleanly"
  "terminals (emissions (w_shared (wk sample_closed))) = 1"
  by code_simp+

lemma sample_closed_reached: "sys_reachable sample_driver sample_layout sample_closed"
  unfolding sample_closed_def sample_changed_def by (intro sample_reached)

section \<open>Requests and answers\<close>

text \<open>
  C1. Every request a session accepts on the event path is answered exactly once: at any time the
  requests answered and those still in the channel are together exactly those accepted, and once
  the worker has ended all of them are answered, however the session came to its end and whatever
  arrives afterwards.
\<close>

theorem every_request_answered_once:
  assumes "sys_reachable dr lay s"
  shows "mset (replied (emissions (w_shared (wk s)))) + mset (concat (map requests (channel s))) = mset (accepted s) \<and>
    (running s \<or> mset (replied (emissions (w_shared (wk s)))) = mset (accepted s))"
  using reachable_ok [OF assms] by (auto simp: sys_ok_def)

theorem every_request_answered_once_witness:
  "running sample_closed = False \<and> mset (replied (emissions (w_shared (wk sample_closed)))) = {#5, 6#}"
  using every_request_answered_once [OF sample_closed_reached] by (simp add: sample_closed_eq)

text \<open>
  C4. A session announces its end once.  No step emits a second \<^verbatim>\<open>Terminal\<close>; a worker that has
  ended has emitted one; and the step that emits it does so as its last event, with the channel
  empty and every request accepted before it answered.
\<close>

theorem terminal_is_last_word:
  assumes "sys_reachable dr lay s" and "sys_step dr lay s s'"
  shows "terminals (emissions (w_shared (wk s'))) \<le> 1 \<and>
    (running s' \<or> terminals (emissions (w_shared (wk s'))) = 1) \<and>
    (terminals (emissions (w_shared (wk s'))) = terminals (emissions (w_shared (wk s))) \<or>
     (channel s' = [] \<and> mset (replied (emissions (w_shared (wk s')))) = mset (accepted s') \<and>
      (\<exists>es lc cause lost. emissions (w_shared (wk s')) =
         emissions (w_shared (wk s)) @ es @ [Emitted (Terminal (w_session (wk s)) (PTerminal lc cause lost))])))"
proof -
  have ok: "sys_ok s" using reachable_ok [OF assms(1)] by simp
  from sys_step_effect [OF assms(2) ok] have e: "sys_ok s'"
    "terminal_emitted (w_shared (wk s')) \<noteq> terminal_emitted (w_shared (wk s)) \<Longrightarrow> channel s' = [] \<and> announced (wk s) (wk s')"
    by auto
  have t: "terminals (emissions (w_shared (wk x))) = (if terminal_emitted (w_shared (wk x)) then 1 else 0)" if "sys_ok x" for x
    using that by (simp add: sys_ok_def calm_def worker_ok_def)
  show ?thesis
  proof (cases "terminal_emitted (w_shared (wk s')) = terminal_emitted (w_shared (wk s))")
    case True
    then show ?thesis using t [OF ok] t [OF e(1)] e(1) by (auto simp: sys_ok_def)
  next
    case False
    then show ?thesis using e t [OF e(1)] by (auto simp: sys_ok_def announced_def)
  qed
qed

definition sample_closing :: sample_system where
  "sample_closing = ask (DoClose (Explicit (Some CommitIt)) (EventReply 6)) sample_changed"

lemma sample_closing_step:
  "sys_reachable sample_driver sample_layout sample_closing" "sys_step sample_driver sample_layout sample_closing sample_closed"
proof -
  show "sys_reachable sample_driver sample_layout sample_closing"
    unfolding sample_closing_def sample_changed_def by (intro sample_reached)
  have "running sample_closed \<noteq> running sample_closing" by code_simp
  then show "sys_step sample_driver sample_layout sample_closing sample_closed"
    using step_serve [of sample_driver sample_closing] by (auto simp: sample_closed_def sample_closing_def)
qed

theorem terminal_is_last_word_witness:
  "\<exists>es lc cause lost. emissions (w_shared (wk sample_closed)) =
     emissions (w_shared (wk sample_closing)) @ es @ [Emitted (Terminal (w_session (wk sample_closing)) (PTerminal lc cause lost))]"
proof -
  have "terminals (emissions (w_shared (wk sample_closing))) = 0" by code_simp
  then show ?thesis using terminal_is_last_word [OF sample_closing_step] by (auto simp: sample_closed_eq)
qed








section \<open>Transactions\<close>

lemma tracking_kept:
  "core_possibly_active (w_shared (note_transaction_state_after dr eo w)) = core_possibly_active (w_shared w)"
  "core_possibly_active (w_shared (on_shared (note_error e) w)) = core_possibly_active (w_shared w)"
  "core_possibly_active (w_shared (deliver_server_output rq ls n f w)) = core_possibly_active (w_shared w)"
  by (simp_all add: note_transaction_state_after_def note_driver_transaction_state_def with_transaction_watch_def note_error_def
      deliver_server_output_def collect_server_output_def on_shared_def emit_event_def Let_def split: session_state.split option.split)

lemma drain_step_tracking: "core_possibly_active (w_shared (snd (drain_step dr rq w))) = core_possibly_active (w_shared w)"
proof -
  obtain x v where c: "with_connection (op_take_output dr (server_output_chunk_lines (limits w)) (server_output_chunk_bytes (limits w))) w = (x, v)"
    by fastforce
  then have "w_shared v = w_shared w" by (auto simp: with_connection_def split: if_splits prod.splits dest: call_driver_fields)
  then show ?thesis using c by (simp add: drain_step_def tracking_kept Let_def split: option.split sum.split)
qed

lemma drain_keeps_tracking:
  assumes "drain_server_output dr rq w = Some w'"
  shows "core_possibly_active (w_shared w') = core_possibly_active (w_shared w)"
proof (cases "output_enabled (server_output w)")
  case True
  then obtain t where t: "while_option fst (\<lambda>(_, w). drain_step dr rq w) (True, w) = Some t" "w' = snd t"
    using assms by (auto simp: drain_server_output_def)
  have "core_possibly_active (w_shared (snd t)) = core_possibly_active (w_shared w)"
    by (rule while_option_rule [where P = "\<lambda>t. core_possibly_active (w_shared (snd t)) = core_possibly_active (w_shared w)", OF _ t(1)])
      (auto simp: drain_step_tracking split: prod.split)
  then show ?thesis using t(2) by simp
qed (use assms in \<open>simp add: drain_server_output_def\<close>)

text \<open>
  C6. Nothing commits but a commit that was asked for.  While a command that is neither a commit
  nor a close with a commit is served, and none such waits behind it, the driver's commit is not
  called: the run is the same whatever that operation would do.  The same holds for the way a worker
  shuts down, so a session that is dropped, abandoned or lost never commits.
\<close>

theorem commit_only_on_request:
  assumes "\<not> asks_commit c" and "list_all (\<lambda>c. \<not> asks_commit c) queued"
  shows "dispatch (dr\<lparr>op_commit := g\<rparr>) lay c queued w = dispatch dr lay c queued w \<and>
    shut_down (dr\<lparr>op_commit := g\<rparr>) rest w = shut_down dr rest w"
  by (simp add: dispatch_blind [OF assms] shut_down_blind)

theorem commit_only_on_request_witness:
  "dispatch (sample_driver\<lparr>op_commit := \<lambda>d. (Panicked None, d)\<rparr>) sample_layout (DoClose Abandon (EventReply 6)) [DoRollback (EventReply 7)]
     (wk sample_changed) =
   dispatch sample_driver sample_layout (DoClose Abandon (EventReply 6)) [DoRollback (EventReply 7)] (wk sample_changed)"
  using commit_only_on_request [where c = "DoClose Abandon (EventReply 6)" and queued = "[DoRollback (EventReply 7)]"
      and dr = sample_driver and lay = sample_layout and w = "wk sample_changed" and g = "\<lambda>d. (Panicked None, d)"]
  by (simp add: asks_commit_def)



text \<open>
  C38. Every command is served to its end, provided the driver's output runs dry: from each chunk
  of lines that is not the last, less is left to read by some measure of the driver.  The answer may
  be an error or the end of the session, but the worker comes back for the next command.
\<close>

theorem every_command_returns:
  assumes "runs_dry dr left"
  shows "\<exists>fl rest w'. dispatch dr lay c queued w = Some (fl, rest, w')"
  using dispatch_returns [OF assms, of lay c queued w] by auto

theorem every_command_returns_witness:
  "\<exists>fl rest w'. dispatch sample_driver sample_layout (DoExecute 0 (EventReply 5)) []
     ((wk sample_session)\<lparr>server_output := Enabled UnlimitedBuffer\<rparr>) = Some (fl, rest, w')"
proof -
  have "runs_dry sample_driver snd" by (auto simp: runs_dry_def sample_driver_def)
  from every_command_returns [OF this] show ?thesis .
qed

text \<open>
  An execution on the event path is announced before it is answered, with the deadline in
  force, and what the statement printed and did to the transaction comes between: the events of the
  execution are the announcement, unsolicited events, the one reply to this request, and unsolicited
  events again.
\<close>

theorem execution_events_in_order:
  assumes "execute dr st (EventReply r) w = Some (fl, w')"
  shows "\<exists>pre ev post. emissions (w_shared w') = emissions (w_shared w) @
      [Emitted (Executing (w_session w) r (PDeadline (deadline_of dr st)))] @ pre @ [Replied ev] @ post \<and>
    is_reply ev \<and> event_request ev = Some r \<and> event_session ev = w_session w \<and> list_all printed (pre @ post)"
proof -
  let ?w = "announce_executing dr st (EventReply r) w"
  from execute_answered [OF assms] obtain pre mk post where a: "well_addressed (w_session ?w) mk" "list_all printed (pre @ post)"
    "emissions (w_shared w') = emissions (w_shared ?w) @ pre @ [Replied (mk r)] @ post"
    by (auto simp: answered_def closing_answered_def sends_def)
  have "emissions (w_shared ?w) = emissions (w_shared w) @ [Emitted (Executing (w_session w) r (PDeadline (deadline_of dr st)))]"
    "w_session ?w = w_session w"
    using announce_executing_sends [where rt = "EventReply r" and w = w and dr = dr and st = st] by (simp_all add: sends_def keeps_def)
  then show ?thesis using a by (intro exI [of _ pre] exI [of _ "mk r"] exI [of _ post]) (simp add: well_addressed_def)
qed

theorem execution_events_in_order_witness:
  "\<exists>w' pre ev post. execute sample_driver 0 (EventReply 5) (wk sample_session) = Some (Continue, w') \<and>
     emissions (w_shared w') = [Emitted (Executing 1 5 (PDeadline None))] @ pre @ [Replied ev] @ post"
proof -
  let ?x = "execute sample_driver 0 (EventReply 5) (wk sample_session)"
  have x: "map_option fst ?x = Some Continue" by code_simp
  then obtain w' where w': "?x = Some (Continue, w')" by auto
  have i: "w_session (wk sample_session) = 1" "emissions (w_shared (wk sample_session)) = []" "deadline_of sample_driver 0 = None"
    by (simp_all add: sample_session_def worker_new_def shared_new_def seed_driver_transaction_state_def sample_driver_def)
  from execution_events_in_order [OF w'] show ?thesis unfolding i using w' by auto
qed

lemma terminal_error_log [simp]: "terminal_error (s\<lparr>emissions := es\<rparr>) = terminal_error s"
  by (simp add: terminal_error_def)




text \<open>
  C37. A statement that changed data and was answered with success leaves the session aware of it:
  until the transaction is resolved it counts as possibly active, whatever the driver reports, and a
  close that brings no decision is refused with nothing changed but the refusal sent.
\<close>

theorem changed_data_needs_a_decision:
  assumes "finish_execute dr (Inr out) w = (Inr ans, w1)" and "exec_kind out = Dml \<or> exec_kind out = PlSqlBlock"
    and "drain_server_output dr rq w1 = Some w2" and "connected w2"
  shows "possibly_active (w_shared w2) = True \<and>
    close_session dr (Explicit None) rt w2 = (Continue, answer_close rt (Inl DecisionRequired) w2)"
proof -
  have "core_possibly_active (w_shared w1)"
    using assms(1,2) by (auto simp: finish_execute_def Let_def note_executed_def commits_implicitly_def on_shared_def note_statement_def
        with_transaction_watch_def emit_event_def split: prod.splits sum.splits)
  moreover have "core_possibly_active (w_shared w2) = core_possibly_active (w_shared w1)" by (rule drain_keeps_tracking [OF assms(3)])
  ultimately have "possibly_active (w_shared w2)" by (simp add: possibly_active_def)
  then show ?thesis using assms(4) by (simp add: close_session_def)
qed

theorem changed_data_needs_a_decision_witness:
  "possibly_active (w_shared (wk sample_changed)) = True"
proof -
  let ?w = "wk sample_session"
  let ?f = "finish_execute sample_driver (Inr (sample_executed 0)) ?w"
  have "(case fst ?f of Inl _ \<Rightarrow> False | Inr _ \<Rightarrow> True)" by code_simp
  then obtain ans w1 where f: "?f = (Inr ans, w1)" by (cases ?f) (auto split: sum.splits)
  have "connected (snd ?f)" "server_output (snd ?f) = Disabled" by code_simp+
  then have c: "connected w1" "server_output w1 = Disabled" unfolding f by simp_all
  then have "drain_server_output sample_driver None w1 = Some w1" by (simp add: drain_server_output_def)
  moreover have "exec_kind (sample_executed 0) = Dml" by (simp add: sample_executed_def)
  ultimately have p: "possibly_active (w_shared w1) = True"
    using changed_data_needs_a_decision [OF f] c by blast
  have "possibly_active (w_shared (wk sample_changed)) = possibly_active (w_shared (snd ?f))" by code_simp
  then show ?thesis using p f by simp
qed

section \<open>Where the code falls short of its documentation\<close>

text \<open>
  The tracking misses a statement that ran but whose cursor could not be adopted: with the
  limit of open results reached, a block that changed data is answered with an error that leaves the
  session usable, the driver has a transaction open, and the session holds that none can be; a close
  without a decision then succeeds, and \<^verbatim>\<open>Terminal\<close> says that nothing was lost.
\<close>

definition sample_unadopted :: sample_system where
  "sample_unadopted = serve sample_driver (ask (DoExecute 3 (EventReply 6))
     (serve sample_driver (ask (DoExecute 2 (EventReply 5)) sample_session)))"

definition sample_forgotten :: sample_system where
  "sample_forgotten = serve sample_driver (ask (DoClose (Explicit None) (EventReply 7)) sample_unadopted)"

fun replied_ok :: "'l core_event emission \<Rightarrow> bool" where
  "replied_ok (Replied (Executed _ _ (Inr _))) = True"
| "replied_ok (Replied (SessionClosed _ _ (PClosed (Inr _)))) = True"
| "replied_ok _ = False"

fun terminal_lost :: "'l core_event emission \<Rightarrow> bool option" where
  "terminal_lost (Emitted (Terminal _ (PTerminal _ _ lost))) = Some lost"
| "terminal_lost _ = None"

theorem unadopted_cursor_hides_transaction:
  "sys_reachable sample_driver sample_layout sample_unadopted \<and>
   op_transaction_state sample_driver (world (wk sample_unadopted)) = TxActive \<and>
   possibly_active (w_shared (wk sample_unadopted)) = False \<and>
   sys_reachable sample_driver sample_layout sample_forgotten \<and>
   op_transaction_state sample_driver (world (wk sample_forgotten)) = TxActive \<and>
   map replied_ok (emissions (w_shared (wk sample_forgotten))) = [False, True, False, False, True, False] \<and>
   terminal_lost (last (emissions (w_shared (wk sample_forgotten)))) = Some False"
proof -
  have "sys_reachable sample_driver sample_layout sample_unadopted" "sys_reachable sample_driver sample_layout sample_forgotten"
    unfolding sample_forgotten_def sample_unadopted_def by (intro sample_reached)+
  moreover have "op_transaction_state sample_driver (world (wk sample_unadopted)) = TxActive"
    "possibly_active (w_shared (wk sample_unadopted)) = False"
    "op_transaction_state sample_driver (world (wk sample_forgotten)) = TxActive"
    "map replied_ok (emissions (w_shared (wk sample_forgotten))) = [False, True, False, False, True, False]"
    "terminal_lost (last (emissions (w_shared (wk sample_forgotten)))) = Some False"
    by code_simp+
  ultimately show ?thesis by simp
qed

text \<open>
  A failed cancel can mark a session lost while it is idle, and the next command still runs on
  its connection and is answered with success: the loss is looked at only after a command, or when
  the session had to be validated first.
\<close>

definition sample_cancelled :: sample_system where
  "sample_cancelled = sample_session\<lparr>wk := on_shared (note_error (sample_error Lost)) (wk sample_session)\<rparr>"

theorem lost_session_still_runs_a_command:
  "sys_reachable sample_driver sample_layout sample_cancelled \<and> lifecycle (w_shared (wk sample_cancelled)) = SLost \<and>
   list_ex replied_ok (emissions (w_shared (wk (serve sample_driver (ask (DoExecute 0 (EventReply 5)) sample_cancelled)))))"
proof -
  have "sys_reachable sample_driver sample_layout sample_cancelled"
    unfolding sample_cancelled_def using reachable_session sys_step.cancel_failed sys_reachable.stepped by blast
  moreover have "lifecycle (w_shared (wk sample_cancelled)) = SLost"
    "list_ex replied_ok (emissions (w_shared (wk (serve sample_driver (ask (DoExecute 0 (EventReply 5)) sample_cancelled)))))"
    by code_simp+
  ultimately show ?thesis by simp
qed

text \<open>
  A close whose commit loses the connection is answered with an error documented to leave the
  session open for another try, while the session is lost and its connection gone.
\<close>

definition dying_driver :: "(bool \<times> nat, nat, nat, nat) driver" where
  "dying_driver = sample_driver\<lparr>op_commit := \<lambda>d. (Returned (Inl (sample_error Lost)), d)\<rparr>"

fun replied_open :: "'l core_event emission \<Rightarrow> bool" where
  "replied_open (Replied (SessionClosed _ _ (PClosed (Inl e)))) = session_is_still_open e"
| "replied_open _ = False"

definition sample_uncommitted :: sample_system where
  "sample_uncommitted = serve dying_driver (ask (DoClose (Explicit (Some CommitIt)) (EventReply 5)) sample_session)"

theorem failed_commit_says_session_is_open:
  "sys_reachable dying_driver sample_layout sample_uncommitted \<and>
   list_ex replied_open (emissions (w_shared (wk sample_uncommitted))) \<and>
   lifecycle (w_shared (wk sample_uncommitted)) = SLost \<and> connected (wk sample_uncommitted) = False"
proof -
  have "sys_reachable dying_driver sample_layout sample_uncommitted"
    unfolding sample_uncommitted_def by (intro sample_reached)
  moreover have "list_ex replied_open (emissions (w_shared (wk sample_uncommitted)))"
    "lifecycle (w_shared (wk sample_uncommitted)) = SLost" "connected (wk sample_uncommitted) = False"
    by code_simp+
  ultimately show ?thesis by simp
qed

end
