(* ===== verification/Session_Registry_Properties.thy ===== *)
theory Session_Registry_Properties
  imports Session_Registry_Correct Session_Properties
begin

text \<open>
  The registry's promises, over every reachable registry, and a run of one at which they apply.
\<close>

section \<open>A run\<close>

type_synonym sample_registry = "(bool \<times> nat, nat, nat, nat) registry"

definition sample_opening :: sample_registry where
  "sample_opening = snd (open_registered 3 None (registry_new 2))"

definition sample_made :: "(bool \<times> nat) connection_made" where
  "sample_made = \<lparr>made_world = (False, 2), made_id = 3, made_cancel = NativeCancel, made_exact = True, made_output = False,
     made_state = TxInactive, made_warnings = Returned (Inr [])\<rparr>"

definition sample_shared :: "nat session_shared" where
  "sample_shared = snd (bind_events (shared_new 2))"

definition sample_adopted :: sample_registry where
  "sample_adopted = connect_returned sample_limits 0 2 (Returned (Inr sample_made)) sample_shared sample_opening"

lemma sample_opening_stage [simp]: "stages sample_opening 2 = Some (Connecting sample_shared)"
  by (simp add: sample_opening_def open_registered_def registry_new_def set_stage_def sample_shared_def)

lemma sample_opening_entry [simp]: "entries sample_opening 2 = Some (OpeningEntry 3)"
  by (simp add: sample_opening_def open_registered_def registry_new_def set_stage_def)

lemma sample_opening_reached: "reg_reachable sample_driver sample_layout sample_limits sample_opening"
  unfolding sample_opening_def
  by (rule reg_next[OF reg_new]) (rule step_open[OF surjective_pairing])

lemma sample_adopted_reached: "reg_reachable sample_driver sample_layout sample_limits sample_adopted"
  unfolding sample_adopted_def
  by (rule reg_next[OF sample_opening_reached]) (rule reg_step.step_connect[OF sample_opening_stage])

definition sample_worker :: "(bool \<times> nat, nat, nat) worker" where
  "sample_worker = worker_adopted 2 sample_limits 0 sample_made (seed_driver_transaction_state TxInactive sample_shared)"

definition sample_served :: sample_registry where
  "sample_served = set_stage 2 (report_opened 2 sample_worker 3 \<lparr>ready_connection = 3, ready_cancel = NativeCancel, ready_warnings = []\<rparr> [] [])
     sample_adopted"

lemma sample_adopted_stage:
  "stages sample_adopted 2 = Some (Reporting sample_worker 3 \<lparr>ready_connection = 3, ready_cancel = NativeCancel, ready_warnings = []\<rparr> [] [])"
  "entries sample_adopted 2 = Some OpenEntry"
  by (simp_all add: sample_adopted_def connect_returned_def sample_made_def complete_open_def set_stage_def sample_worker_def Let_def)

lemma sample_served_reached: "reg_reachable sample_driver sample_layout sample_limits sample_served"
  unfolding sample_served_def
  by (rule reg_next[OF sample_adopted_reached]) (rule reg_step.step_report[OF sample_adopted_stage(1)])

lemma sample_served_stage:
  "stages sample_served 2 = Some (report_opened 2 sample_worker 3 \<lparr>ready_connection = 3, ready_cancel = NativeCancel, ready_warnings = []\<rparr> [] [])"
  by (simp add: sample_served_def set_stage_def)

lemma sample_served_entry: "entries sample_served 2 = Some OpenEntry"
  by (simp add: sample_served_def set_stage_def sample_adopted_stage)

section \<open>Its counts\<close>

text \<open>The identifiers are those handed out, so the counts range over every entry and add up to their number.\<close>

lemma registry_len_card:
  assumes "reg_reachable dr lay lm reg"
  shows "registry_len reg = card (dom (entries reg))"
proof -
  have "session_ok i reg" for i using reg_reachable_ok[OF assms] by (simp add: reg_ok_def)
  then have "dom (entries reg) \<subseteq> {0..<next_session reg}"
    by (fastforce simp: session_ok_def split: option.splits)
  then have "dom (entries reg) = set (filter (\<lambda>i. entries reg i \<noteq> None) [0..<next_session reg])" by auto
  then show ?thesis by (simp add: registry_len_def distinct_card del: set_filter)
qed

lemma counts_add_up:
  "opening_count (counts reg) + open_count (counts reg) + ending_count (counts reg) + ended_count (counts reg) = registry_len reg"
proof -
  have "length (filter (\<lambda>i. registry_state i reg = Some RegOpening) js0) + length (filter (\<lambda>i. registry_state i reg = Some RegOpen) js0) +
      length (filter (\<lambda>i. registry_state i reg = Some RegEnding) js0) + length (filter (\<lambda>i. registry_state i reg = Some RegEnded) js0) =
      length (filter (\<lambda>i. entries reg i \<noteq> None) js0)" for js0
  proof (induction js0)
    case (Cons i js)
    then show ?case by (cases "entries reg i" rule: option.exhaust[case_product entry.exhaust])
        (auto simp: registry_state_def intro: registered_session.exhaust)
  qed simp
  then show ?thesis by (simp add: counts_def registry_len_def Let_def)
qed

section \<open>Properties\<close>

text \<open>
  C3. Every open is answered once, and an abandoned one is never adopted.  Over every interleaving,
  what a session has said since its open is one of three: nothing, while its worker is connecting or
  about to report, or its abandoner is about to answer; first of all that it opened, and then it is
  served, its other requests being answered as accepted and its end announced at most once; or that
  the open failed and the session's end, and then there is no handle to it and its worker never
  serves.
\<close>

theorem opens_are_answered_once:
  assumes "reg_reachable dr lay lm reg" and "stages reg i = Some st"
  defines "es \<equiv> emissions (stage_shared st)"
  shows "\<exists>r. opened_by reg i = Some r \<and>
    ((es = [] \<and> ((\<exists>sh. st = Connecting sh \<and> (entries reg i = Some (OpeningEntry r) \<or> cancelling reg i = Some r)) \<or>
        (\<exists>w rd cs acc. st = Reporting w r rd cs acc) \<or> (\<exists>sh e. st = Failing sh r e) \<or> cancelling reg i = Some r)) \<or>
     (\<exists>s p rest. st = Serving s \<and> es = Replied (Opened i r p) # rest \<and> terminals es \<le> 1 \<and>
        mset (replied es) + mset (concat (map requests (channel s))) = mset (accepted s) \<and> r \<in> set (accepted s)) \<or>
     ((\<exists>e p. es = [Replied (OpenFailed i r e), Emitted (Terminal i p)]) \<and> \<not> handed_out st \<and> \<not> get_session i reg))" (is "\<exists>r. _ \<and> ?said r")
proof -
  from reg_okD[OF reg_reachable_ok[OF assms(1)] assms(2)] obtain r where
    r: "opened_by reg i = Some r" "stage_ok i r (entries reg i) (cancelling reg i) st" by blast
  show ?thesis
  proof (intro exI[of _ r] conjI r(1), cases st)
    case (Serving s)
    with r(2) have s: "sys_ok s" "r \<in> set (accepted s)" by auto
    moreover obtain p rest where "es = Replied (Opened i r p) # rest" using r(2) Serving by (auto simp: es_def)
    moreover have "terminals es \<le> 1" using s(1) Serving by (simp add: es_def sys_ok_def calm_def worker_ok_def)
    moreover have "mset (replied es) + mset (concat (map requests (channel s))) = mset (accepted s)"
      using s(1) Serving by (simp add: es_def sys_ok_def)
    ultimately show "?said r"
      using Serving by blast
  qed (use r(2) in \<open>auto simp: es_def unopened_def failed_open_def handed_out_def get_session_def\<close>)
qed

theorem opens_are_answered_once_witness:
  "stages sample_served 2 \<noteq> None \<and> opened_by sample_served 2 = Some 3 \<and>
   (\<exists>s p rest. stages sample_served 2 = Some (Serving s) \<and> emissions (w_shared (wk s)) = Replied (Opened 2 3 p) # rest)"
proof -
  have "opened_by sample_served 2 = Some 3"
    by (simp add: sample_served_def set_stage_def sample_adopted_def connect_returned_def sample_made_def complete_open_def
        sample_opening_def open_registered_def registry_new_def Let_def)
  with opens_are_answered_once [OF sample_served_reached sample_served_stage] show ?thesis
    by (auto simp: sample_served_stage report_opened_def on_shared_def reply_event_def)
qed

text \<open>
  An entry stands for something the registry owns: an opening one for a worker that is connecting
  and whose open is unanswered, an open or ending one for a handle to a session that opened, and an
  ended one for a connect that has not returned yet.  A session that never opened and whose worker
  is done has none.
\<close>

theorem entries_own_their_session:
  assumes "reg_reachable dr lay lm reg"
  shows "(registry_state i reg = Some RegOpening \<longrightarrow> (\<exists>sh. stages reg i = Some (Connecting sh) \<and> emissions sh = [])) \<and>
    (registry_state i reg \<in> {Some RegOpen, Some RegEnding} \<longrightarrow> (\<exists>st. stages reg i = Some st \<and> handed_out st)) \<and>
    (registry_state i reg = Some RegEnded \<longrightarrow> (\<exists>sh. stages reg i = Some (Connecting sh))) \<and>
    (stages reg i = None \<or> (\<exists>sh. stages reg i = Some (Finished sh)) \<longrightarrow> registry_state i reg = None)"
proof -
  have "session_ok i reg" using reg_reachable_ok[OF assms] by (simp add: reg_ok_def)
  then show ?thesis
  proof (cases "stages reg i")
    case (Some st)
    then obtain r where "stage_ok i r (entries reg i) (cancelling reg i) st" using \<open>session_ok i reg\<close> by (auto simp: session_ok_def)
    with Some show ?thesis
      by (cases st; cases "entries reg i" rule: option.exhaust[case_product entry.exhaust])
        (auto simp: registry_state_def handed_out_def unopened_def failed_open_def)
  qed (simp add: session_ok_def registry_state_def)
qed

theorem entries_own_their_session_witness:
  "registry_state 2 sample_served = Some RegOpen \<and> (\<exists>st. stages sample_served 2 = Some st \<and> handed_out st)"
proof -
  have "registry_state 2 sample_served = Some RegOpen" by (simp add: registry_state_def sample_served_entry)
  with entries_own_their_session [OF sample_served_reached, of 2] show ?thesis by simp
qed

text \<open>
  C22. Abandoning an open that is still connecting answers it without waiting for the connect: once the
  abandoner has carried out its decision the open has failed as cancelled and the session has
  announced a close that lost nothing.  From the decision on, the connect is not adopted, whatever
  it returns.
\<close>

theorem abandon_answers_the_open:
  assumes "reg_reachable dr lay lm reg" and "registry_state i reg = Some RegOpening"
  shows "\<exists>r sh e reg'. opened_by reg i = Some r \<and> abandon cancelled undrained i reg = (AbandonConnecting, reg') \<and>
    cancelling reg' i = Some r \<and> stages reg' i = Some (Connecting sh) \<and> error_kind e = Cancelled \<and>
    emissions (cancel_open i r sh) = [Replied (OpenFailed i r e), Emitted (Terminal i (PTerminal SClosed None False))] \<and>
    fst (complete_open i (Inr rd) reg') = NotAdopted \<and> fst (complete_open i (Inl e') reg') = NotAdopted"
proof -
  from assms(2) obtain r' where en: "entries reg i = Some (OpeningEntry r')"
    by (auto simp: registry_state_def elim!: entry_state.elims)
  have ok: "session_ok i reg" using reg_reachable_ok[OF assms(1)] by (simp add: reg_ok_def)
  then obtain st where st: "stages reg i = Some st" using en by (cases "stages reg i") (auto simp: session_ok_def)
  with ok en obtain sh r where sh: "st = Connecting sh" "opened_by reg i = Some r" "r' = r" "shared_session sh = i"
      "emissions sh = []" "\<not> terminal_emitted sh" "lifecycle sh = SUsable" "lost_reason sh = None"
    by (cases st) (auto simp: session_ok_def unopened_def)
  have "emissions (cancel_open i r sh) = [Replied (OpenFailed i r (terminal_error (sh\<lparr>open_cancelled := True\<rparr>))),
      Emitted (Terminal i (PTerminal SClosed None False))]"
    using sh by (simp add: cancel_open_def mark_closed_def Let_def emit_terminal_def emit_event_def reply_event_def terminal_error_def)
  moreover have "error_kind (terminal_error (sh\<lparr>open_cancelled := True\<rparr>)) = Cancelled"
    using sh by (simp add: terminal_error_def with_session_state_def error_new_def)
  moreover have "fst (abandon cancelled undrained i reg) = AbandonConnecting"
    and "entries (snd (abandon cancelled undrained i reg)) i = Some EndedEntry"
    and "cancelling (snd (abandon cancelled undrained i reg)) i = Some r"
    and "stages (snd (abandon cancelled undrained i reg)) i = Some (Connecting sh)"
    using en st sh by (simp_all add: abandon_def)
  ultimately show ?thesis
    using sh(2) by (cases "abandon cancelled undrained i reg") (fastforce simp: complete_open_def)
qed

theorem abandon_answers_the_open_witness:
  "\<exists>r sh e reg'. opened_by sample_opening 2 = Some r \<and> abandon None 0 2 sample_opening = (AbandonConnecting, reg') \<and>
    stages reg' 2 = Some (Connecting sh) \<and> error_kind e = Cancelled \<and>
    emissions (cancel_open 2 r sh) = [Replied (OpenFailed 2 r e), Emitted (Terminal 2 (PTerminal SClosed None False))]"
proof -
  have "registry_state 2 sample_opening = Some RegOpening" by (simp add: registry_state_def)
  from abandon_answers_the_open [OF sample_opening_reached this, of None 0] show ?thesis by blast
qed

end
