(* ===== verification/Workspace_Settings.thy ===== *)
theory Workspace_Settings
  imports Execution_Outcome "HOL-Library.Word"
begin

unbundle bit_operations_syntax

text \<open>
  \<^verbatim>\<open>crates/workspace/src/settings\<close>: the values a setting can hold (\<^verbatim>\<open>value.rs\<close>), the registry
  of settings with their bounds and levels (\<^verbatim>\<open>registry.rs\<close>), the values set at one level
  (\<^verbatim>\<open>layer.rs\<close>) and the effective value over the levels (\<^verbatim>\<open>resolve.rs\<close>), with the encoding of
  values in the workspace file (\<^verbatim>\<open>store/codec.rs\<close>).

  A \<^verbatim>\<open>u32\<close> is a word of 32 bits.  That a \<^verbatim>\<open>NonZeroU32\<close> is not zero is the predicate
  \<open>wf_value\<close>, which every value that can be built satisfies.  Whether the build targets a mobile
  system is the argument \<open>mobile\<close>.
\<close>

type_synonym u32 = "32 word"

section \<open>Values\<close>

datatype time_limit = Seconds u32 | NoLimit

definition time_limit_seconds :: "u32 \<Rightarrow> time_limit option" where
  "time_limit_seconds n = (if n = 0 then None else Some (Seconds n))"

fun as_duration :: "time_limit \<Rightarrow> nat option" where
  "as_duration (Seconds n) = Some (unat n)"
| "as_duration NoLimit = None"

datatype byte_limit = Bytes u32 | UnlimitedBytes

definition byte_limit_bytes :: "u32 \<Rightarrow> byte_limit option" where
  "byte_limit_bytes n = (if n = 0 then None else Some (Bytes n))"

fun buffer_of_limit :: "byte_limit \<Rightarrow> server_output_buffer" where
  "buffer_of_limit (Bytes n) = BufferBytes (unat n)"
| "buffer_of_limit UnlimitedBytes = UnlimitedBuffer"

datatype entry_limit = Entries u32 | UnlimitedEntries

definition entry_limit_count :: "u32 \<Rightarrow> entry_limit option" where
  "entry_limit_count n = (if n = 0 then None else Some (Entries n))"

datatype value_kind = BoolKind | TimeLimitKind | CountKind | ByteLimitKind | EntryLimitKind

datatype setting_value =
  BoolValue bool | TimeLimitValue time_limit | CountValue u32 | ByteLimitValue byte_limit | EntryLimitValue entry_limit

fun kind_of_value :: "setting_value \<Rightarrow> value_kind" where
  "kind_of_value (BoolValue _) = BoolKind"
| "kind_of_value (TimeLimitValue _) = TimeLimitKind"
| "kind_of_value (CountValue _) = CountKind"
| "kind_of_value (ByteLimitValue _) = ByteLimitKind"
| "kind_of_value (EntryLimitValue _) = EntryLimitKind"

fun bool_from_value :: "setting_value \<Rightarrow> bool option" where
  "bool_from_value (BoolValue b) = Some b" | "bool_from_value _ = None"

fun time_limit_from_value :: "setting_value \<Rightarrow> time_limit option" where
  "time_limit_from_value (TimeLimitValue t) = Some t" | "time_limit_from_value _ = None"

fun count_from_value :: "setting_value \<Rightarrow> u32 option" where
  "count_from_value (CountValue n) = Some n" | "count_from_value _ = None"

fun byte_limit_from_value :: "setting_value \<Rightarrow> byte_limit option" where
  "byte_limit_from_value (ByteLimitValue b) = Some b" | "byte_limit_from_value _ = None"

fun entry_limit_from_value :: "setting_value \<Rightarrow> entry_limit option" where
  "entry_limit_from_value (EntryLimitValue e) = Some e" | "entry_limit_from_value _ = None"

text \<open>The number in a value, and whether it says that there is no limit.\<close>

fun value_number :: "setting_value \<Rightarrow> u32 option" where
  "value_number (CountValue n) = Some n"
| "value_number (TimeLimitValue (Seconds n)) = Some n"
| "value_number (ByteLimitValue (Bytes n)) = Some n"
| "value_number (EntryLimitValue (Entries n)) = Some n"
| "value_number _ = None"

fun is_no_limit :: "setting_value \<Rightarrow> bool" where
  "is_no_limit (TimeLimitValue NoLimit) = True"
| "is_no_limit (ByteLimitValue UnlimitedBytes) = True"
| "is_no_limit (EntryLimitValue UnlimitedEntries) = True"
| "is_no_limit _ = False"

definition wf_value :: "setting_value \<Rightarrow> bool" where
  "wf_value v \<longleftrightarrow> (case v of
     TimeLimitValue (Seconds n) \<Rightarrow> n \<noteq> 0 | ByteLimitValue (Bytes n) \<Rightarrow> n \<noteq> 0 | EntryLimitValue (Entries n) \<Rightarrow> n \<noteq> 0 | _ \<Rightarrow> True)"

section \<open>The registry\<close>

datatype level = BuiltIn | Application | ProfileLevel | WorksheetLevel

fun level_display :: "level \<Rightarrow> ustr" where
  "level_display BuiltIn = us ''built-in default''"
| "level_display Application = us ''application''"
| "level_display ProfileLevel = us ''connection profile''"
| "level_display WorksheetLevel = us ''worksheet''"

type_synonym level_set = "8 word"

definition APPLICATION_BIT :: level_set where "APPLICATION_BIT = 1"
definition PROFILE_BIT :: level_set where "PROFILE_BIT = 2"
definition WORKSHEET_BIT :: level_set where "WORKSHEET_BIT = 4"

definition APPLICATION_ONLY :: level_set where "APPLICATION_ONLY = APPLICATION_BIT"
definition APPLICATION_PROFILE :: level_set where "APPLICATION_PROFILE = APPLICATION_BIT OR PROFILE_BIT"
definition ALL_LEVELS :: level_set where "ALL_LEVELS = APPLICATION_BIT OR PROFILE_BIT OR WORKSHEET_BIT"

fun level_set_contains :: "level_set \<Rightarrow> level \<Rightarrow> bool" where
  "level_set_contains s BuiltIn = False"
| "level_set_contains s Application = (s AND APPLICATION_BIT \<noteq> 0)"
| "level_set_contains s ProfileLevel = (s AND PROFILE_BIT \<noteq> 0)"
| "level_set_contains s WorksheetLevel = (s AND WORKSHEET_BIT \<noteq> 0)"

definition level_set_iter :: "level_set \<Rightarrow> level list" where
  "level_set_iter s = filter (level_set_contains s) [Application, ProfileLevel, WorksheetLevel]"

datatype setting_group = ConnectionGroup | ExecutionGroup | ResultsGroup | ServerOutputGroup | HistoryGroup

datatype takes_effect = NextConnection | NextStatement

datatype no_limit_consequence =
  StatementEndsOnlyByDisconnecting | ConnectWaitsForever | ServerBuffersWithoutLimit | HistoryFileGrowsWithoutLimit
| WholeResultIsFetched | ResultMemoryUnbounded

datatype unlimited = NotAllowed | Allowed no_limit_consequence

record bounds =
  bounds_min :: u32
  bounds_max :: u32

datatype setting_id =
  ConnectTimeout | RewriteTriggerDdl | StatementTimeLimit | FetchRows | FetchesInFlight | ServerOutputEnabled
| ServerOutputBufferSetting | HistoryMaxEntriesPerProfile | ResultsMaxRows | ResultsMaxBytes | ResultsCloseCursorAtLimit
| ResultsRoundTripBytes

definition ALL_SETTINGS :: "setting_id list" where
  "ALL_SETTINGS = [ConnectTimeout, RewriteTriggerDdl, StatementTimeLimit, FetchRows, FetchesInFlight, ServerOutputEnabled,
     ServerOutputBufferSetting, HistoryMaxEntriesPerProfile, ResultsMaxRows, ResultsMaxBytes, ResultsCloseCursorAtLimit,
     ResultsRoundTripBytes]"

record setting_descriptor =
  descriptor_id :: setting_id
  storage_key :: string
  descriptor_group :: setting_group
  descriptor_kind :: value_kind
  default_value :: setting_value
  levels :: level_set
  descriptor_bounds :: "bounds option"
  descriptor_unlimited :: unlimited
  descriptor_takes_effect :: takes_effect
  summary :: string

definition KIB :: u32 where "KIB = 1024"
definition MIB :: u32 where "MIB = 1024 * 1024"

fun descriptor :: "bool \<Rightarrow> setting_id \<Rightarrow> setting_descriptor" where
  "descriptor mobile ConnectTimeout = \<lparr>
     descriptor_id = ConnectTimeout, storage_key = ''connection.connect_timeout'', descriptor_group = ConnectionGroup,
     descriptor_kind = TimeLimitKind, default_value = TimeLimitValue (Seconds 15), levels = APPLICATION_PROFILE,
     descriptor_bounds = Some \<lparr>bounds_min = 1, bounds_max = 3600\<rparr>, descriptor_unlimited = Allowed ConnectWaitsForever,
     descriptor_takes_effect = NextConnection, summary = ''How long opening a connection may take, in seconds, or no limit.''\<rparr>"
| "descriptor mobile RewriteTriggerDdl = \<lparr>
     descriptor_id = RewriteTriggerDdl, storage_key = ''connection.rewrite_trigger_ddl'', descriptor_group = ConnectionGroup,
     descriptor_kind = BoolKind, default_value = BoolValue True, levels = APPLICATION_PROFILE,
     descriptor_bounds = None, descriptor_unlimited = NotAllowed, descriptor_takes_effect = NextConnection,
     summary = ''Rewrite trigger DDL whose body the driver would misread as binds, and report it.''\<rparr>"
| "descriptor mobile StatementTimeLimit = \<lparr>
     descriptor_id = StatementTimeLimit, storage_key = ''execution.statement_time_limit'', descriptor_group = ExecutionGroup,
     descriptor_kind = TimeLimitKind, default_value = TimeLimitValue (Seconds 600), levels = ALL_LEVELS,
     descriptor_bounds = Some \<lparr>bounds_min = 1, bounds_max = 86400\<rparr>, descriptor_unlimited = Allowed StatementEndsOnlyByDisconnecting,
     descriptor_takes_effect = NextStatement, summary = ''Time limit armed before each worksheet statement, in seconds, or no limit.''\<rparr>"
| "descriptor mobile FetchRows = \<lparr>
     descriptor_id = FetchRows, storage_key = ''results.fetch_rows'', descriptor_group = ResultsGroup,
     descriptor_kind = CountKind, default_value = CountValue 1000, levels = ALL_LEVELS,
     descriptor_bounds = Some \<lparr>bounds_min = 1, bounds_max = 100000\<rparr>, descriptor_unlimited = NotAllowed,
     descriptor_takes_effect = NextStatement, summary = ''Rows fetched per round trip.''\<rparr>"
| "descriptor mobile FetchesInFlight = \<lparr>
     descriptor_id = FetchesInFlight, storage_key = ''results.fetches_in_flight'', descriptor_group = ResultsGroup,
     descriptor_kind = CountKind, default_value = CountValue 2, levels = APPLICATION_ONLY,
     descriptor_bounds = Some \<lparr>bounds_min = 1, bounds_max = 8\<rparr>, descriptor_unlimited = NotAllowed,
     descriptor_takes_effect = NextStatement, summary = ''Fetches kept requested ahead of the one a result view is consuming.''\<rparr>"
| "descriptor mobile ServerOutputEnabled = \<lparr>
     descriptor_id = ServerOutputEnabled, storage_key = ''server_output.enabled'', descriptor_group = ServerOutputGroup,
     descriptor_kind = BoolKind, default_value = BoolValue False, levels = ALL_LEVELS,
     descriptor_bounds = None, descriptor_unlimited = NotAllowed, descriptor_takes_effect = NextStatement,
     summary = ''Collect server output after every statement (one extra round trip each).''\<rparr>"
| "descriptor mobile ServerOutputBufferSetting = \<lparr>
     descriptor_id = ServerOutputBufferSetting, storage_key = ''server_output.buffer'', descriptor_group = ServerOutputGroup,
     descriptor_kind = ByteLimitKind, default_value = ByteLimitValue (Bytes 1000000), levels = ALL_LEVELS,
     descriptor_bounds = Some \<lparr>bounds_min = 2000, bounds_max = push_bit 30 1\<rparr>, descriptor_unlimited = Allowed ServerBuffersWithoutLimit,
     descriptor_takes_effect = NextStatement, summary = ''Bytes of server output the server may buffer per session, or unlimited.''\<rparr>"
| "descriptor mobile HistoryMaxEntriesPerProfile = \<lparr>
     descriptor_id = HistoryMaxEntriesPerProfile, storage_key = ''history.max_entries_per_profile'', descriptor_group = HistoryGroup,
     descriptor_kind = EntryLimitKind, default_value = EntryLimitValue (Entries 1000), levels = APPLICATION_ONLY,
     descriptor_bounds = Some \<lparr>bounds_min = 1, bounds_max = 1000000\<rparr>, descriptor_unlimited = Allowed HistoryFileGrowsWithoutLimit,
     descriptor_takes_effect = NextStatement, summary = ''History entries kept per profile before the oldest are trimmed, or no limit.''\<rparr>"
| "descriptor mobile ResultsMaxRows = \<lparr>
     descriptor_id = ResultsMaxRows, storage_key = ''results.max_rows'', descriptor_group = ResultsGroup,
     descriptor_kind = EntryLimitKind, default_value = EntryLimitValue (Entries (if mobile then 100000 else 1000000)),
     levels = ALL_LEVELS, descriptor_bounds = Some \<lparr>bounds_min = 1, bounds_max = 2147483647\<rparr>,
     descriptor_unlimited = Allowed WholeResultIsFetched, descriptor_takes_effect = NextStatement,
     summary = ''Rows one result shows before it stops at its cap, or no limit.''\<rparr>"
| "descriptor mobile ResultsMaxBytes = \<lparr>
     descriptor_id = ResultsMaxBytes, storage_key = ''results.max_bytes'', descriptor_group = ResultsGroup,
     descriptor_kind = ByteLimitKind, default_value = ByteLimitValue (Bytes (if mobile then 64 * MIB else 512 * MIB)),
     levels = ALL_LEVELS, descriptor_bounds = Some \<lparr>bounds_min = 16 * MIB, bounds_max = -1\<rparr>,
     descriptor_unlimited = Allowed ResultMemoryUnbounded, descriptor_takes_effect = NextStatement,
     summary = ''Bytes one result may hold before it stops at its cap, or no limit.''\<rparr>"
| "descriptor mobile ResultsCloseCursorAtLimit = \<lparr>
     descriptor_id = ResultsCloseCursorAtLimit, storage_key = ''results.close_cursor_at_limit'', descriptor_group = ResultsGroup,
     descriptor_kind = BoolKind, default_value = BoolValue False, levels = ALL_LEVELS,
     descriptor_bounds = None, descriptor_unlimited = NotAllowed, descriptor_takes_effect = NextStatement,
     summary = ''Close a result's cursor when it stops at a cap, instead of keeping it for more.''\<rparr>"
| "descriptor mobile ResultsRoundTripBytes = \<lparr>
     descriptor_id = ResultsRoundTripBytes, storage_key = ''results.round_trip_bytes'', descriptor_group = ResultsGroup,
     descriptor_kind = ByteLimitKind, default_value = ByteLimitValue (Bytes (192 * KIB)), levels = ALL_LEVELS,
     descriptor_bounds = Some \<lparr>bounds_min = 16 * KIB, bounds_max = 4 * MIB\<rparr>, descriptor_unlimited = NotAllowed,
     descriptor_takes_effect = NextStatement, summary = ''Bytes one round trip is sized to carry, within results.fetch_rows rows.''\<rparr>"

definition setting_key :: "bool \<Rightarrow> setting_id \<Rightarrow> string" where
  "setting_key mobile i = storage_key (descriptor mobile i)"

definition from_storage_key :: "bool \<Rightarrow> string \<Rightarrow> setting_id option" where
  "from_storage_key mobile key = find (\<lambda>i. setting_key mobile i = key) ALL_SETTINGS"

datatype setting_error =
  LevelNotAllowed setting_id level
| KindMismatch setting_id value_kind value_kind
| OutOfBounds setting_id u32 bounds
| UnlimitedNotAllowed setting_id

definition check_value :: "setting_descriptor \<Rightarrow> setting_value \<Rightarrow> setting_error + unit" where
  "check_value d v =
     (if kind_of_value v \<noteq> descriptor_kind d then Inl (KindMismatch (descriptor_id d) (descriptor_kind d) (kind_of_value v))
      else if is_no_limit v
      then (case descriptor_unlimited d of Allowed _ \<Rightarrow> Inr () | NotAllowed \<Rightarrow> Inl (UnlimitedNotAllowed (descriptor_id d)))
      else case (value_number v, descriptor_bounds d) of
        (Some n, Some b) \<Rightarrow>
          if n < bounds_min b \<or> n > bounds_max b then Inl (OutOfBounds (descriptor_id d) n b) else Inr ()
      | _ \<Rightarrow> Inr ())"

definition check :: "setting_descriptor \<Rightarrow> level \<Rightarrow> setting_value \<Rightarrow> setting_error + unit" where
  "check d l v =
     (if \<not> level_set_contains (levels d) l then Inl (LevelNotAllowed (descriptor_id d) l) else check_value d v)"

section \<open>Layers\<close>

type_synonym settings_layer = "setting_id \<rightharpoonup> setting_value"

definition layer_new :: settings_layer where "layer_new = Map.empty"

definition get_value :: "settings_layer \<Rightarrow> setting_id \<Rightarrow> setting_value option" where
  "get_value layer i = layer i"

definition typed_get :: "(setting_value \<Rightarrow> 'a option) \<Rightarrow> settings_layer \<Rightarrow> setting_id \<Rightarrow> 'a option" where
  "typed_get from_value layer i = Option.bind (layer i) from_value"

definition set_value ::
  "bool \<Rightarrow> level \<Rightarrow> setting_id \<Rightarrow> setting_value \<Rightarrow> settings_layer \<Rightarrow> (setting_error + setting_value option) \<times> settings_layer" where
  "set_value mobile l i v layer =
     (case check (descriptor mobile i) l v of
        Inl e \<Rightarrow> (Inl e, layer)
      | Inr _ \<Rightarrow> (Inr (layer i), layer(i \<mapsto> v)))"

definition typed_set ::
  "(setting_value \<Rightarrow> 'a option) \<Rightarrow> ('a \<Rightarrow> setting_value) \<Rightarrow> bool \<Rightarrow> level \<Rightarrow> setting_id \<Rightarrow> 'a \<Rightarrow> settings_layer \<Rightarrow>
   (setting_error + 'a option) \<times> settings_layer" where
  "typed_set from_value into_value mobile l i x layer =
     (case set_value mobile l i (into_value x) layer of
        (Inl e, layer') \<Rightarrow> (Inl e, layer')
      | (Inr previous, layer') \<Rightarrow> (Inr (Option.bind previous from_value), layer'))"

definition clear :: "setting_id \<Rightarrow> settings_layer \<Rightarrow> setting_value option \<times> settings_layer" where
  "clear i layer = (layer i, layer(i := None))"

definition layer_iter :: "settings_layer \<Rightarrow> (setting_id \<times> setting_value) list" where
  "layer_iter layer = List.map_filter (\<lambda>i. map_option (Pair i) (layer i)) ALL_SETTINGS"

definition layer_len :: "settings_layer \<Rightarrow> nat" where
  "layer_len layer = length (layer_iter layer)"

section \<open>Resolution\<close>

record 'a resolved =
  resolved_value :: 'a
  resolved_source :: level

record resolve_context =
  application_layer :: "settings_layer option"
  profile_layer :: "settings_layer option"
  worksheet_layer :: "settings_layer option"

definition context_new :: resolve_context where
  "context_new = \<lparr>application_layer = None, profile_layer = None, worksheet_layer = None\<rparr>"

definition layer_value :: "level \<Rightarrow> settings_layer option \<Rightarrow> setting_id \<Rightarrow> (level \<times> setting_value) option" where
  "layer_value l layer i = Option.bind layer (\<lambda>m. map_option (Pair l) (get_value m i))"

definition resolve_value :: "bool \<Rightarrow> resolve_context \<Rightarrow> setting_id \<Rightarrow> setting_value resolved" where
  "resolve_value mobile ctx i =
     (let d = descriptor mobile i;
          candidates = [layer_value WorksheetLevel (worksheet_layer ctx) i, layer_value ProfileLevel (profile_layer ctx) i,
                        layer_value Application (application_layer ctx) i]
      in case find (\<lambda>(l, v). level_set_contains (levels d) l \<and> check_value d v = Inr ()) (List.map_filter (\<lambda>x. x) candidates) of
           Some (l, v) \<Rightarrow> \<lparr>resolved_value = v, resolved_source = l\<rparr>
         | None \<Rightarrow> \<lparr>resolved_value = default_value d, resolved_source = BuiltIn\<rparr>)"

text \<open>
  A typed lookup: a value of another kind falls back to the built-in default.  A default of another
  kind than the handle would panic, which is \<open>None\<close>.
\<close>

definition typed_default :: "(setting_value \<Rightarrow> 'a option) \<Rightarrow> bool \<Rightarrow> setting_id \<Rightarrow> 'a option" where
  "typed_default from_value mobile i = from_value (default_value (descriptor mobile i))"

definition typed_resolve ::
  "(setting_value \<Rightarrow> 'a option) \<Rightarrow> bool \<Rightarrow> resolve_context \<Rightarrow> setting_id \<Rightarrow> 'a resolved option" where
  "typed_resolve from_value mobile ctx i =
     (let r = resolve_value mobile ctx i in
      case from_value (resolved_value r) of
        Some x \<Rightarrow> Some \<lparr>resolved_value = x, resolved_source = resolved_source r\<rparr>
      | None \<Rightarrow> map_option (\<lambda>x. \<lparr>resolved_value = x, resolved_source = BuiltIn\<rparr>) (typed_default from_value mobile i))"

section \<open>The encoding in the file\<close>

fun level_word :: "level \<Rightarrow> string" where
  "level_word BuiltIn = ''built_in''"
| "level_word Application = ''application''"
| "level_word ProfileLevel = ''profile''"
| "level_word WorksheetLevel = ''worksheet''"

fun kind_word :: "value_kind \<Rightarrow> string" where
  "kind_word BoolKind = ''bool''"
| "kind_word TimeLimitKind = ''time_limit''"
| "kind_word CountKind = ''count''"
| "kind_word ByteLimitKind = ''byte_limit''"
| "kind_word EntryLimitKind = ''entry_limit''"

definition kind_from_word :: "string \<Rightarrow> value_kind option" where
  "kind_from_word w =
     (if w = ''bool'' then Some BoolKind else if w = ''time_limit'' then Some TimeLimitKind
      else if w = ''count'' then Some CountKind else if w = ''byte_limit'' then Some ByteLimitKind
      else if w = ''entry_limit'' then Some EntryLimitKind else None)"

definition encode_value :: "setting_value \<Rightarrow> string \<times> int option" where
  "encode_value v =
     (kind_word (kind_of_value v),
      case v of BoolValue b \<Rightarrow> Some (if b then 1 else 0) | _ \<Rightarrow> map_option uint (value_number v))"

datatype decode_value_error = UnknownKind string | Malformed

definition u32_try_from :: "int \<Rightarrow> u32 option" where
  "u32_try_from i = (if 0 \<le> i \<and> i < 2 ^ 32 then Some (word_of_int i) else None)"

definition non_zero_u32 :: "int \<Rightarrow> u32 option" where
  "non_zero_u32 i = Option.bind (u32_try_from i) (\<lambda>n. if n = 0 then None else Some n)"

definition decode_value :: "string \<Rightarrow> int option \<Rightarrow> ustr option \<Rightarrow> decode_value_error + setting_value" where
  "decode_value kind i text =
     (case kind_from_word kind of
        None \<Rightarrow> Inl (UnknownKind kind)
      | Some k \<Rightarrow>
          if text \<noteq> None then Inl Malformed
          else case (k, i) of
            (BoolKind, Some b) \<Rightarrow> if b = 0 then Inr (BoolValue False) else if b = 1 then Inr (BoolValue True) else Inl Malformed
          | (CountKind, Some n) \<Rightarrow> (case u32_try_from n of Some c \<Rightarrow> Inr (CountValue c) | None \<Rightarrow> Inl Malformed)
          | (TimeLimitKind, None) \<Rightarrow> Inr (TimeLimitValue NoLimit)
          | (TimeLimitKind, Some n) \<Rightarrow>
              (case non_zero_u32 n of Some s \<Rightarrow> Inr (TimeLimitValue (Seconds s)) | None \<Rightarrow> Inl Malformed)
          | (ByteLimitKind, None) \<Rightarrow> Inr (ByteLimitValue UnlimitedBytes)
          | (ByteLimitKind, Some n) \<Rightarrow>
              (case non_zero_u32 n of Some s \<Rightarrow> Inr (ByteLimitValue (Bytes s)) | None \<Rightarrow> Inl Malformed)
          | (EntryLimitKind, None) \<Rightarrow> Inr (EntryLimitValue UnlimitedEntries)
          | (EntryLimitKind, Some n) \<Rightarrow>
              (case non_zero_u32 n of Some s \<Rightarrow> Inr (EntryLimitValue (Entries s)) | None \<Rightarrow> Inl Malformed)
          | _ \<Rightarrow> Inl Malformed)"

section \<open>The registry is consistent\<close>

named_theorems settings_defs

lemmas settings_consts [settings_defs] =
  APPLICATION_BIT_def PROFILE_BIT_def WORKSHEET_BIT_def APPLICATION_ONLY_def APPLICATION_PROFILE_def ALL_LEVELS_def
  KIB_def MIB_def

lemma descriptor_id_of [simp]: "descriptor_id (descriptor mobile i) = i"
  by (cases i) simp_all

lemma kind_of_default: "kind_of_value (default_value (descriptor mobile i)) = descriptor_kind (descriptor mobile i)"
  by (cases i) simp_all

lemma default_accepted: "check_value (descriptor mobile i) (default_value (descriptor mobile i)) = Inr ()"
  by (cases i) (simp_all add: check_value_def settings_defs)

lemma default_wf: "wf_value (default_value (descriptor mobile i))"
  by (cases i) (simp_all add: wf_value_def settings_defs)

lemma some_level_allowed: "level_set_contains (levels (descriptor mobile i)) Application"
  by (cases i) (simp_all add: settings_defs)

lemma all_settings_complete: "i \<in> set ALL_SETTINGS"
  by (cases i) (simp_all add: ALL_SETTINGS_def)

lemma distinct_settings: "distinct ALL_SETTINGS"
  by (simp add: ALL_SETTINGS_def)

lemma distinct_keys: "distinct (map (setting_key mobile) ALL_SETTINGS)"
  by (simp add: ALL_SETTINGS_def setting_key_def)

lemma setting_key_inj: "setting_key mobile i = setting_key mobile j \<longleftrightarrow> i = j"
  using distinct_keys[of mobile] all_settings_complete[of i] all_settings_complete[of j]
  by (auto simp: distinct_map inj_on_def)

lemma from_storage_key_of: "from_storage_key mobile (setting_key mobile i) = Some i"
proof (cases "from_storage_key mobile (setting_key mobile i)")
  case None
  then show ?thesis using all_settings_complete[of i] by (auto simp: from_storage_key_def find_None_iff)
next
  case (Some j)
  then have "setting_key mobile j = setting_key mobile i" by (auto simp: from_storage_key_def find_Some_iff)
  with Some show ?thesis by (simp add: setting_key_inj)
qed

lemma from_storage_key_iff: "from_storage_key mobile key = Some i \<longleftrightarrow> key = setting_key mobile i"
  using from_storage_key_of[of mobile i] by (auto simp: from_storage_key_def find_Some_iff)

section \<open>The levels are ordered\<close>

text \<open>The derived order of \<^verbatim>\<open>Level\<close>, in increasing precedence.\<close>

fun level_rank :: "level \<Rightarrow> nat" where
  "level_rank BuiltIn = 0"
| "level_rank Application = 1"
| "level_rank ProfileLevel = 2"
| "level_rank WorksheetLevel = 3"

lemma level_rank_inj: "level_rank l = level_rank k \<longleftrightarrow> l = k"
  by (cases l; cases k) simp_all

instantiation level :: linorder
begin

definition less_eq_level :: "level \<Rightarrow> level \<Rightarrow> bool" where
  "less_eq_level l k \<longleftrightarrow> level_rank l \<le> level_rank k"

definition less_level :: "level \<Rightarrow> level \<Rightarrow> bool" where
  "less_level l k \<longleftrightarrow> level_rank l < level_rank k"

instance
  by standard (auto simp: less_eq_level_def less_level_def level_rank_inj)

end

section \<open>Layers hold accepted values\<close>

lemma check_iff: "check d l v = Inr () \<longleftrightarrow> level_set_contains (levels d) l \<and> check_value d v = Inr ()"
  by (auto simp: check_def)

lemma check_value_kind: "check_value d v = Inr () \<Longrightarrow> kind_of_value v = descriptor_kind d"
  by (auto simp: check_value_def split: if_splits)

text \<open>The layers that the interface of \<^verbatim>\<open>SettingsLayer\<close> can build at a level.\<close>

inductive layer_built :: "bool \<Rightarrow> level \<Rightarrow> settings_layer \<Rightarrow> bool" for mobile l where
  built_new: "layer_built mobile l layer_new"
| built_set: "layer_built mobile l m \<Longrightarrow> set_value mobile l i v m = (r, m') \<Longrightarrow> layer_built mobile l m'"
| built_clear: "layer_built mobile l m \<Longrightarrow> clear i m = (r, m') \<Longrightarrow> layer_built mobile l m'"

inductive_cases built_setE: "layer_built mobile l m"

lemma set_value_cases:
  assumes "set_value mobile l i v m = (r, m')"
  obtains e where "check (descriptor mobile i) l v = Inl e" "r = Inl e" "m' = m"
  | "check (descriptor mobile i) l v = Inr ()" "r = Inr (m i)" "m' = m(i \<mapsto> v)"
  using assms by (auto simp: set_value_def split: sum.splits)

lemma layer_built_accepted:
  "layer_built mobile l m \<Longrightarrow> m i = Some v \<Longrightarrow> check (descriptor mobile i) l v = Inr ()"
proof (induction arbitrary: i v rule: layer_built.induct)
  case (built_set m j w r m')
  from built_set.hyps(2) show ?case
    by (rule set_value_cases) (use built_set in \<open>auto split: if_splits\<close>)
qed (auto simp: layer_new_def clear_def split: if_splits)

lemma layer_built_BuiltIn: "layer_built mobile BuiltIn m \<Longrightarrow> m = Map.empty"
  using layer_built_accepted[of mobile BuiltIn m] by (intro ext) (force simp: check_def intro: option.exhaust)

section \<open>Resolution\<close>

text \<open>What a layer, if there is one, holds for a setting, and that value where the check accepts it.\<close>

definition held_value :: "settings_layer option \<Rightarrow> setting_id \<Rightarrow> setting_value option" where
  "held_value layer i = (case layer of None \<Rightarrow> None | Some m \<Rightarrow> m i)"

definition accepted :: "bool \<Rightarrow> setting_id \<Rightarrow> level \<Rightarrow> settings_layer option \<Rightarrow> setting_value option" where
  "accepted mobile i l layer =
     (case held_value layer i of None \<Rightarrow> None | Some v \<Rightarrow> if check (descriptor mobile i) l v = Inr () then Some v else None)"

fun context_layer :: "resolve_context \<Rightarrow> level \<Rightarrow> settings_layer option" where
  "context_layer ctx BuiltIn = None"
| "context_layer ctx Application = application_layer ctx"
| "context_layer ctx ProfileLevel = profile_layer ctx"
| "context_layer ctx WorksheetLevel = worksheet_layer ctx"

lemma layer_value_alt: "layer_value l layer i = map_option (Pair l) (held_value layer i)"
  by (cases layer) (simp_all add: layer_value_def get_value_def held_value_def)

lemma resolve_value_alt:
  "resolve_value mobile ctx i =
     (case accepted mobile i WorksheetLevel (worksheet_layer ctx) of
        Some v \<Rightarrow> \<lparr>resolved_value = v, resolved_source = WorksheetLevel\<rparr>
      | None \<Rightarrow> case accepted mobile i ProfileLevel (profile_layer ctx) of
          Some v \<Rightarrow> \<lparr>resolved_value = v, resolved_source = ProfileLevel\<rparr>
        | None \<Rightarrow> case accepted mobile i Application (application_layer ctx) of
            Some v \<Rightarrow> \<lparr>resolved_value = v, resolved_source = Application\<rparr>
          | None \<Rightarrow> \<lparr>resolved_value = default_value (descriptor mobile i), resolved_source = BuiltIn\<rparr>)"
  by (cases "held_value (worksheet_layer ctx) i"; cases "held_value (profile_layer ctx) i"; cases "held_value (application_layer ctx) i")
    (simp_all add: resolve_value_def accepted_def layer_value_alt check_iff List.map_filter_simps Let_def
      del: level_set_contains.simps)

lemma accepted_iff:
  "accepted mobile i l layer = Some v \<longleftrightarrow> held_value layer i = Some v \<and> check (descriptor mobile i) l v = Inr ()"
  by (auto simp: accepted_def split: option.splits)

lemma accepted_built:
  assumes "\<And>m. layer = Some m \<Longrightarrow> layer_built mobile l m"
  shows "accepted mobile i l layer = held_value layer i"
  using assms layer_built_accepted[of mobile l "the layer" i]
  by (auto simp: accepted_def held_value_def split: option.splits)

lemma resolve_value_offered:
  fixes mobile ctx i
  defines "r \<equiv> resolve_value mobile ctx i"
  shows "resolved_source r = BuiltIn \<and> resolved_value r = default_value (descriptor mobile i) \<or>
    accepted mobile i (resolved_source r) (context_layer ctx (resolved_source r)) = Some (resolved_value r)"
  unfolding r_def resolve_value_alt by (auto split: option.splits)

lemma resolve_value_highest:
  "accepted mobile i l (context_layer ctx l) = Some v \<Longrightarrow> l \<le> resolved_source (resolve_value mobile ctx i)"
  by (cases l) (auto simp: resolve_value_alt less_eq_level_def accepted_def held_value_def split: option.splits)

lemma resolve_value_accepted:
  "check_value (descriptor mobile i) (resolved_value (resolve_value mobile ctx i)) = Inr ()"
  using resolve_value_offered[of mobile ctx i] by (auto simp: default_accepted accepted_iff check_iff)

lemma offer_builtin [simp]: "accepted mobile i BuiltIn (context_layer ctx BuiltIn) = None"
  by (simp add: accepted_def held_value_def)

lemma finite_levels [simp]: "finite (S :: level set)"
proof (rule finite_subset)
  show "S \<subseteq> {BuiltIn, Application, ProfileLevel, WorksheetLevel}"
    using level.exhaust by auto
qed simp

lemma BuiltIn_least [simp]: "BuiltIn \<le> l"
  by (simp add: less_eq_level_def)

text \<open>
  C19. Whatever the layers hold, the effective value of a setting passes the setting's own check;
  its source is the highest level that holds an acceptable value, and the value is that level's
  value there, or the built-in default where no level holds one.
\<close>

theorem effective_value_is_highest_acceptable:
  "let r = resolve_value mobile ctx i; offer = \<lambda>l. accepted mobile i l (context_layer ctx l)
   in check_value (descriptor mobile i) (resolved_value r) = Inr () \<and>
      resolved_source r = Max (insert BuiltIn {l. offer l \<noteq> None}) \<and>
      resolved_value r = (case offer (resolved_source r) of Some v \<Rightarrow> v | None \<Rightarrow> default_value (descriptor mobile i))"
proof -
  let ?r = "resolve_value mobile ctx i" and ?offer = "\<lambda>l. accepted mobile i l (context_layer ctx l)"
  have "Max (insert BuiltIn {l. ?offer l \<noteq> None}) = resolved_source ?r"
  proof (rule Max_eqI)
    show "l \<le> resolved_source ?r" if "l \<in> insert BuiltIn {l. ?offer l \<noteq> None}" for l
      using that resolve_value_highest[of mobile i l ctx] by auto
    show "resolved_source ?r \<in> insert BuiltIn {l. ?offer l \<noteq> None}"
      using resolve_value_offered[of mobile ctx i] by auto
  qed simp
  moreover have "resolved_value ?r = (case ?offer (resolved_source ?r) of Some v \<Rightarrow> v | None \<Rightarrow> default_value (descriptor mobile i))"
    using resolve_value_offered[of mobile ctx i] by (auto simp del: context_layer.simps)
  ultimately show ?thesis
    using resolve_value_accepted[of mobile i ctx] by (simp add: Let_def)
qed

text \<open>
  When every layer was built through its own interface, resolution is the documented rule with
  no check left to do: the worksheet's value, or else the profile's, or else the application's, or
  else the built-in default, with the level it came from.
\<close>

theorem built_layers_resolve_by_precedence:
  assumes "\<And>l m. context_layer ctx l = Some m \<Longrightarrow> layer_built mobile l m"
  shows "resolve_value mobile ctx i =
     (case held_value (worksheet_layer ctx) i of
        Some v \<Rightarrow> \<lparr>resolved_value = v, resolved_source = WorksheetLevel\<rparr>
      | None \<Rightarrow> case held_value (profile_layer ctx) i of
          Some v \<Rightarrow> \<lparr>resolved_value = v, resolved_source = ProfileLevel\<rparr>
        | None \<Rightarrow> case held_value (application_layer ctx) i of
            Some v \<Rightarrow> \<lparr>resolved_value = v, resolved_source = Application\<rparr>
          | None \<Rightarrow> \<lparr>resolved_value = default_value (descriptor mobile i), resolved_source = BuiltIn\<rparr>)"
proof -
  have "accepted mobile i l (context_layer ctx l) = held_value (context_layer ctx l) i" for l
    by (rule accepted_built) (rule assms)
  from this[of WorksheetLevel] this[of ProfileLevel] this[of Application] show ?thesis
    by (simp add: resolve_value_alt cong: option.case_cong)
qed

definition sample_worksheet :: settings_layer where
  "sample_worksheet = snd (set_value False WorksheetLevel FetchRows (CountValue 5) layer_new)"

definition sample_profile :: settings_layer where
  "sample_profile = snd (set_value False ProfileLevel FetchRows (CountValue 7) layer_new)"

definition sample_context :: resolve_context where
  "sample_context = \<lparr>application_layer = None, profile_layer = Some sample_profile, worksheet_layer = Some sample_worksheet\<rparr>"

lemma sample_layers_built:
  "layer_built False WorksheetLevel sample_worksheet" "layer_built False ProfileLevel sample_profile"
  unfolding sample_worksheet_def sample_profile_def
  by (rule built_set[OF built_new surjective_pairing])+

lemma sample_context_built: "context_layer sample_context l = Some m \<Longrightarrow> layer_built False l m"
  by (cases l) (auto simp: sample_context_def sample_layers_built)

theorem built_layers_resolve_by_precedence_witness:
  "resolve_value False sample_context FetchRows = \<lparr>resolved_value = CountValue 5, resolved_source = WorksheetLevel\<rparr>"
  using built_layers_resolve_by_precedence[OF sample_context_built, where i = FetchRows]
  by (simp add: sample_context_def sample_worksheet_def held_value_def set_value_def check_def check_value_def settings_defs)

section \<open>Typed settings\<close>

text \<open>
  \<^verbatim>\<open>SettingType\<close>: a type of values of one kind, with its wrapping and unwrapping.  A typed handle
  \<^verbatim>\<open>Setting<T>\<close> exists only for a setting of that kind, which \<^verbatim>\<open>Setting::new\<close> asserts when the
  program is compiled.
\<close>

locale setting_type =
  fixes kind :: value_kind
    and into_value :: "'a \<Rightarrow> setting_value"
    and from_value :: "setting_value \<Rightarrow> 'a option"
  assumes unwrap: "from_value v = Some x \<longleftrightarrow> v = into_value x"
    and kind_of: "(\<exists>x. v = into_value x) \<longleftrightarrow> kind_of_value v = kind"
begin

lemma from_into: "from_value (into_value x) = Some x"
  by (simp add: unwrap)

lemma typed_value:
  assumes "kind_of_value v = kind"
  obtains x where "v = into_value x" "from_value v = Some x"
  using assms kind_of[of v] by (auto simp: from_into)

lemma typed_default_exists:
  assumes "descriptor_kind (descriptor mobile i) = kind"
  obtains x where "typed_default from_value mobile i = Some x" "default_value (descriptor mobile i) = into_value x"
  using typed_value[of "default_value (descriptor mobile i)"] assms by (auto simp: typed_default_def kind_of_default)

lemma typed_resolve_agrees:
  assumes "descriptor_kind (descriptor mobile i) = kind"
  shows "\<exists>x. typed_resolve from_value mobile ctx i =
       Some \<lparr>resolved_value = x, resolved_source = resolved_source (resolve_value mobile ctx i)\<rparr> \<and>
     into_value x = resolved_value (resolve_value mobile ctx i)"
proof -
  have "kind_of_value (resolved_value (resolve_value mobile ctx i)) = kind"
    using check_value_kind[OF resolve_value_accepted[of mobile i ctx]] assms by simp
  then show ?thesis by (rule typed_value) (auto simp: typed_resolve_def)
qed

lemma typed_set_get:
  assumes "typed_set from_value into_value mobile l i x m = (Inr previous, m')"
  shows "typed_get from_value m' i = Some x" and "previous = typed_get from_value m i"
    and "j \<noteq> i \<Longrightarrow> m' j = m j"
  using assms
  by (auto simp: typed_set_def set_value_def typed_get_def from_into split: sum.splits)

lemma typed_set_refused:
  assumes "typed_set from_value into_value mobile l i x m = (Inl e, m')"
  shows "m' = m" and "check (descriptor mobile i) l (into_value x) = Inl e"
  using assms by (auto simp: typed_set_def set_value_def split: sum.splits)

text \<open>A typed value is never refused for its kind.\<close>

lemma typed_set_never_mismatched:
  assumes "descriptor_kind (descriptor mobile i) = kind"
  shows "fst (typed_set from_value into_value mobile l i x m) \<noteq> Inl (KindMismatch j k k')"
proof -
  have "kind_of_value (into_value x) = kind" using kind_of[of "into_value x"] by blast
  with assms show ?thesis
    by (auto simp: typed_set_def set_value_def check_def check_value_def split: sum.splits if_splits option.splits unlimited.splits)
qed

end

interpretation bool_setting: setting_type BoolKind BoolValue bool_from_value
  by unfold_locales (auto elim: bool_from_value.elims kind_of_value.elims)

interpretation time_limit_setting: setting_type TimeLimitKind TimeLimitValue time_limit_from_value
  by unfold_locales (auto elim: time_limit_from_value.elims kind_of_value.elims)

interpretation count_setting: setting_type CountKind CountValue count_from_value
  by unfold_locales (auto elim: count_from_value.elims kind_of_value.elims)

interpretation byte_limit_setting: setting_type ByteLimitKind ByteLimitValue byte_limit_from_value
  by unfold_locales (auto elim: byte_limit_from_value.elims kind_of_value.elims)

interpretation entry_limit_setting: setting_type EntryLimitKind EntryLimitValue entry_limit_from_value
  by unfold_locales (auto elim: entry_limit_from_value.elims kind_of_value.elims)

section \<open>The encoding round trip\<close>

lemma kind_from_word_iff: "kind_from_word w = Some k \<longleftrightarrow> w = kind_word k"
  by (cases k) (auto simp: kind_from_word_def)

lemma u32_try_from_iff: "u32_try_from i = Some n \<longleftrightarrow> i = uint n"
proof
  assume "u32_try_from i = Some n"
  then show "i = uint n" by (auto simp: u32_try_from_def take_bit_int_eq_self uint_word_of_int_eq split: if_splits)
next
  assume "i = uint n"
  then show "u32_try_from i = Some n" using uint_lt2p[of n] by (simp add: u32_try_from_def)
qed

lemma non_zero_u32_iff: "non_zero_u32 i = Some n \<longleftrightarrow> i = uint n \<and> n \<noteq> 0"
  by (auto simp: non_zero_u32_def bind_eq_Some_conv u32_try_from_iff split: if_splits)

lemma decode_kind: "decode_value w i t = Inr v \<Longrightarrow> w = kind_word (kind_of_value v) \<and> t = None"
  by (auto simp: decode_value_def kind_from_word_iff split: option.splits if_splits value_kind.splits)

lemma decode_value_of:
  assumes "(w, i) = encode_value v" and "wf_value v"
  shows "decode_value w i None = Inr v"
proof -
  have "kind_from_word (kind_word k) = Some k" for k by (simp add: kind_from_word_iff)
  moreover have "u32_try_from (uint n) = Some n" for n by (simp add: u32_try_from_iff)
  moreover have "n \<noteq> 0 \<Longrightarrow> non_zero_u32 (uint n) = Some n" for n by (simp add: non_zero_u32_iff)
  ultimately show ?thesis
    using assms by (auto simp: decode_value_def encode_value_def wf_value_def
        split: setting_value.splits time_limit.splits byte_limit.splits entry_limit.splits)
qed

text \<open>
  A stored row decodes to a value exactly when it is that value's encoding and its text column is
  empty: every value that can exist is read back as it was written, and nothing else is read as
  a value.
\<close>

theorem stored_value_round_trip:
  "decode_value w i t = Inr v \<longleftrightarrow> (w, i) = encode_value v \<and> t = None \<and> wf_value v"
proof
  assume dec: "decode_value w i t = Inr v"
  from decode_kind[OF dec] dec show "(w, i) = encode_value v \<and> t = None \<and> wf_value v"
    by (auto simp: decode_value_def encode_value_def wf_value_def kind_from_word_iff u32_try_from_iff non_zero_u32_iff
        split: option.splits if_splits value_kind.splits)
next
  assume "(w, i) = encode_value v \<and> t = None \<and> wf_value v"
  then show "decode_value w i t = Inr v" using decode_value_of[of w i v] by simp
qed

end
