(* ===== verification/Workspace_Profile.thy ===== *)
theory Workspace_Profile
  imports Workspace_Settings "HOL-Library.Sublist"
begin

text \<open>
  Connection profiles: \<^verbatim>\<open>crates/workspace/src/ids.rs\<close>, \<^verbatim>\<open>profile.rs\<close>, \<^verbatim>\<open>connect.rs\<close> and the
  profile rows of \<^verbatim>\<open>store/codec.rs\<close>.

  The text form of a UUID belongs to the \<^verbatim>\<open>uuid\<close> crate and is the parameter \<open>U\<close>; what the code
  relies on is the locale \<open>uuid_text\<close>.  The lower-case expansion of a character is the parameter
  \<open>low\<close>, the clock and the random generator hand their values in as arguments.
\<close>

section \<open>Identifiers\<close>

type_synonym uuid = "128 word"

record uuid_codec =
  hyphenated :: "uuid \<Rightarrow> ustr"
  try_parse :: "ustr \<Rightarrow> uuid option"

datatype id_error = MalformedId | NilId

fun id_error_display :: "id_error \<Rightarrow> ustr" where
  "id_error_display MalformedId = us ''not a hyphenated UUID''"
| "id_error_display NilId = us ''the nil UUID is not a valid identifier''"

definition parse_uuid :: "uuid_codec \<Rightarrow> ustr \<Rightarrow> id_error + uuid" where
  "parse_uuid U t =
     (if byte_len t \<noteq> 36 then Inl MalformedId
      else case try_parse U t of
        None \<Rightarrow> Inl MalformedId
      | Some u \<Rightarrow> if u = 0 then Inl NilId else Inr u)"

text \<open>The sixteen bytes of an identifier are here the number they spell.\<close>

definition id_from_bytes :: "uuid \<Rightarrow> id_error + uuid" where
  "id_from_bytes u = (if u = 0 then Inl NilId else Inr u)"

section \<open>Profiles\<close>

type_synonym unix_time_ms = int

datatype database_type = Oracle

datatype environment = Development | TestEnv | Uat | Staging | Production | CustomEnv ustr

definition production_by_default :: "environment \<Rightarrow> bool" where
  "production_by_default e \<longleftrightarrow> e = Production"

fun production_flag_is_settable :: "environment \<Rightarrow> bool" where
  "production_flag_is_settable (CustomEnv _) = True"
| "production_flag_is_settable _ = False"

datatype service_target = ServiceName ustr | Sid ustr

datatype profile_endpoint = HostPort ustr "16 word" service_target | ConnectString ustr

datatype password_storage = CredentialStore | PromptEachTime

datatype authentication = PasswordAuth ustr password_storage | ExternalAuth

datatype transport = Plain | Tls

datatype session_role = NormalRole | SysDba | SysOper

text \<open>A path of the operating system, which may hold text that is not Unicode.\<close>

datatype os_path = UnicodePath ustr | OtherPath "8 word list"

fun path_to_str :: "os_path \<Rightarrow> ustr option" where
  "path_to_str (UnicodePath t) = Some t"
| "path_to_str (OtherPath _) = None"

record tls_options =
  tls_transport :: transport
  ca_directory :: "os_path option"
  allow_unenforced_certificate_pin :: bool

definition tls_default :: tls_options where
  "tls_default = \<lparr>tls_transport = Plain, ca_directory = None, allow_unenforced_certificate_pin = False\<rparr>"

record profile_details =
  profile_name :: ustr
  database :: database_type
  profile_environment :: environment
  treat_as_production :: bool
  endpoint :: profile_endpoint
  profile_authentication :: authentication
  role :: session_role
  tls :: tls_options

definition details_new ::
  "ustr \<Rightarrow> database_type \<Rightarrow> environment \<Rightarrow> profile_endpoint \<Rightarrow> authentication \<Rightarrow> profile_details" where
  "details_new n db env ep auth =
     \<lparr>profile_name = n, database = db, profile_environment = env, treat_as_production = production_by_default env,
      endpoint = ep, profile_authentication = auth, role = NormalRole, tls = tls_default\<rparr>"

section \<open>Credential-looking text\<close>

datatype credential_pattern = WalletPassword | QueryParameter | PasswordKeyword | UserPasswordPrefix

fun pattern_debug :: "credential_pattern \<Rightarrow> ustr" where
  "pattern_debug WalletPassword = us ''WalletPassword''"
| "pattern_debug QueryParameter = us ''QueryParameter''"
| "pattern_debug PasswordKeyword = us ''PasswordKeyword''"
| "pattern_debug UserPasswordPrefix = us ''UserPasswordPrefix''"

definition squeeze :: "(uchar \<Rightarrow> ustr) \<Rightarrow> ustr \<Rightarrow> ustr" where
  "squeeze low t = concat (map low (filter (\<lambda>c. \<not> is_whitespace c) t))"

text \<open>\<^verbatim>\<open>split_once\<close> of a character, and the characters before the first occurrence of one.\<close>

definition split_once :: "uchar \<Rightarrow> ustr \<Rightarrow> (ustr \<times> ustr) option" where
  "split_once c s = (if c \<in> set s then Some (takeWhile (\<lambda>x. x \<noteq> c) s, drop 1 (dropWhile (\<lambda>x. x \<noteq> c) s)) else None)"

definition find_pattern :: "(uchar \<Rightarrow> ustr) \<Rightarrow> ustr \<Rightarrow> credential_pattern option" where
  "find_pattern low t =
     (let squeezed = squeeze low t in
      if sublist (us ''wallet_password='') squeezed then Some WalletPassword
      else if sublist (us ''?password='') squeezed \<or> sublist (us ''&password='') squeezed then Some QueryParameter
      else if sublist (us ''password='') squeezed then Some PasswordKeyword
      else case split_once 47 squeezed of
        None \<Rightarrow> None
      | Some (before, rest) \<Rightarrow>
          let prefix_ok = before \<noteq> [] \<and> \<not> (64 \<in> set before \<or> 40 \<in> set before \<or> 41 \<in> set before) in
          case find_char 64 rest of
            Some k \<Rightarrow> if prefix_ok \<and> k > 0 then Some UserPasswordPrefix else None
          | None \<Rightarrow> None)"

section \<open>Validation\<close>

definition MAX_FIELD_BYTES :: nat where "MAX_FIELD_BYTES = 16 * 1024"
definition MAX_NAME_CHARS :: nat where "MAX_NAME_CHARS = 200"

datatype profile_field =
  NameField | EnvironmentLabelField | HostField | ServiceNameField | SidField | ConnectStringField | UsernameField
| CaDirectoryField

fun field_display :: "profile_field \<Rightarrow> ustr" where
  "field_display NameField = us ''name''"
| "field_display EnvironmentLabelField = us ''environment label''"
| "field_display HostField = us ''host''"
| "field_display ServiceNameField = us ''service name''"
| "field_display SidField = us ''SID''"
| "field_display ConnectStringField = us ''connect string''"
| "field_display UsernameField = us ''user name''"
| "field_display CaDirectoryField = us ''CA directory''"

datatype profile_error =
  EmptyField profile_field
| TooLong profile_field
| ControlCharacter profile_field
| PortZero
| PathNotUnicode
| CredentialInEndpoint profile_field credential_pattern
| ProductionFlagMismatch

fun profile_error_display :: "profile_error \<Rightarrow> ustr" where
  "profile_error_display (EmptyField f) = us ''the profile's '' @ field_display f @ us '' is empty''"
| "profile_error_display (TooLong f) = us ''the profile's '' @ field_display f @ us '' is too long''"
| "profile_error_display (ControlCharacter f) = us ''the profile's '' @ field_display f @ us '' contains a control character''"
| "profile_error_display PortZero = us ''the profile's port is 0''"
| "profile_error_display PathNotUnicode = us ''the profile's CA directory is not a valid Unicode path''"
| "profile_error_display (CredentialInEndpoint f p) =
     us ''the profile's '' @ field_display f @ us '' looks like it contains a credential ('' @ pattern_debug p @
     us ''); passwords belong in the operating system's credential store, never in a profile''"
| "profile_error_display ProductionFlagMismatch =
     us ''the production indicator must be on for a production profile and off for the other named environments''"

text \<open>\<^verbatim>\<open>char::is_control\<close>: the general category Cc.\<close>

definition is_control :: "uchar \<Rightarrow> bool" where
  "is_control c \<longleftrightarrow> 0 \<le> c \<and> c \<le> 0x1F \<or> 0x7F \<le> c \<and> c \<le> 0x9F"

definition check_text :: "profile_field \<Rightarrow> ustr \<Rightarrow> profile_error + unit" where
  "check_text f t =
     (if trim t = [] then Inl (EmptyField f)
      else if byte_len t > MAX_FIELD_BYTES then Inl (TooLong f)
      else let allows_line_breaks = (f = ConnectStringField) in
           if \<exists>c \<in> set t. is_control c \<and> \<not> (allows_line_breaks \<and> (c = 10 \<or> c = 13 \<or> c = 9))
           then Inl (ControlCharacter f) else Inr ())"

definition check_endpoint_text :: "(uchar \<Rightarrow> ustr) \<Rightarrow> profile_field \<Rightarrow> ustr \<Rightarrow> profile_error + unit" where
  "check_endpoint_text low f t =
     (case check_text f t of
        Inl e \<Rightarrow> Inl e
      | Inr _ \<Rightarrow> case find_pattern low t of
          Some p \<Rightarrow> Inl (CredentialInEndpoint f p)
        | None \<Rightarrow> Inr ())"

text \<open>One definition per block of \<^verbatim>\<open>validate\<close>, and their sequence with \<^verbatim>\<open>?\<close>.\<close>

definition validate_name :: "ustr \<Rightarrow> profile_error + unit" where
  "validate_name n =
     (case check_text NameField n of
        Inl e \<Rightarrow> Inl e
      | Inr _ \<Rightarrow> if length n > MAX_NAME_CHARS then Inl (TooLong NameField) else Inr ())"

fun validate_environment :: "environment \<Rightarrow> profile_error + unit" where
  "validate_environment (CustomEnv label) = check_text EnvironmentLabelField label"
| "validate_environment _ = Inr ()"

definition validate_production :: "environment \<Rightarrow> bool \<Rightarrow> profile_error + unit" where
  "validate_production e flag =
     (if \<not> production_flag_is_settable e \<and> flag \<noteq> production_by_default e then Inl ProductionFlagMismatch else Inr ())"

fun validate_target :: "(uchar \<Rightarrow> ustr) \<Rightarrow> service_target \<Rightarrow> profile_error + unit" where
  "validate_target low (ServiceName n) = check_endpoint_text low ServiceNameField n"
| "validate_target low (Sid n) = check_endpoint_text low SidField n"

fun validate_endpoint :: "(uchar \<Rightarrow> ustr) \<Rightarrow> profile_endpoint \<Rightarrow> profile_error + unit" where
  "validate_endpoint low (HostPort host port target) =
     (case check_endpoint_text low HostField host of
        Inl e \<Rightarrow> Inl e
      | Inr _ \<Rightarrow> if port = 0 then Inl PortZero else validate_target low target)"
| "validate_endpoint low (ConnectString t) = check_endpoint_text low ConnectStringField t"

fun validate_authentication :: "authentication \<Rightarrow> profile_error + unit" where
  "validate_authentication (PasswordAuth username storage) = check_text UsernameField username"
| "validate_authentication ExternalAuth = Inr ()"

fun validate_directory :: "os_path option \<Rightarrow> profile_error + unit" where
  "validate_directory (Some p) =
     (case path_to_str p of None \<Rightarrow> Inl PathNotUnicode | Some t \<Rightarrow> check_text CaDirectoryField t)"
| "validate_directory None = Inr ()"

fun first_error :: "('e + unit) list \<Rightarrow> 'e + unit" where
  "first_error [] = Inr ()"
| "first_error (Inl e # rs) = Inl e"
| "first_error (Inr _ # rs) = first_error rs"

definition validate :: "(uchar \<Rightarrow> ustr) \<Rightarrow> profile_details \<Rightarrow> profile_error + unit" where
  "validate low d = first_error
     [validate_name (profile_name d), validate_environment (profile_environment d),
      validate_production (profile_environment d) (treat_as_production d), validate_endpoint low (endpoint d),
      validate_authentication (profile_authentication d), validate_directory (ca_directory (tls d))]"

record profile =
  profile_id :: uuid
  details :: profile_details
  created_at :: unix_time_ms
  modified_at :: unix_time_ms

definition profile_create :: "(uchar \<Rightarrow> ustr) \<Rightarrow> uuid \<Rightarrow> unix_time_ms \<Rightarrow> profile_details \<Rightarrow> profile_error + profile" where
  "profile_create low fresh now d =
     (case validate low d of
        Inl e \<Rightarrow> Inl e
      | Inr _ \<Rightarrow> Inr \<lparr>profile_id = fresh, details = d, created_at = now, modified_at = now\<rparr>)"

definition from_stored ::
  "(uchar \<Rightarrow> ustr) \<Rightarrow> uuid \<Rightarrow> profile_details \<Rightarrow> unix_time_ms \<Rightarrow> unix_time_ms \<Rightarrow> profile_error + profile" where
  "from_stored low i d created modified =
     (case validate low d of
        Inl e \<Rightarrow> Inl e
      | Inr _ \<Rightarrow> Inr \<lparr>profile_id = i, details = d, created_at = created, modified_at = modified\<rparr>)"

definition profile_update ::
  "(uchar \<Rightarrow> ustr) \<Rightarrow> unix_time_ms \<Rightarrow> profile_details \<Rightarrow> profile \<Rightarrow> (profile_error + unit) \<times> profile" where
  "profile_update low now d p =
     (case validate low d of
        Inl e \<Rightarrow> (Inl e, p)
      | Inr _ \<Rightarrow> (Inr (), p\<lparr>details := d, modified_at := now\<rparr>))"

section \<open>Profile rows\<close>

record profile_row =
  row_id :: ustr
  row_name :: ustr
  row_database_type :: ustr
  row_environment :: ustr
  row_environment_label :: "ustr option"
  row_treat_as_production :: int
  row_endpoint_kind :: ustr
  row_host :: "ustr option"
  row_port :: "int option"
  row_service_name :: "ustr option"
  row_sid :: "ustr option"
  row_connect_string :: "ustr option"
  row_auth_kind :: ustr
  row_username :: "ustr option"
  row_password_in_credential_store :: "int option"
  row_role :: ustr
  row_transport :: ustr
  row_ca_directory :: "ustr option"
  row_allow_unenforced_certificate_pin :: int
  row_created_at :: int
  row_modified_at :: int

fun environment_columns :: "environment \<Rightarrow> ustr \<times> ustr option" where
  "environment_columns Development = (us ''development'', None)"
| "environment_columns TestEnv = (us ''test'', None)"
| "environment_columns Uat = (us ''uat'', None)"
| "environment_columns Staging = (us ''staging'', None)"
| "environment_columns Production = (us ''production'', None)"
| "environment_columns (CustomEnv label) = (us ''custom'', Some label)"

fun endpoint_columns :: "profile_endpoint \<Rightarrow> profile_row \<Rightarrow> profile_row" where
  "endpoint_columns (HostPort host port (ServiceName n)) row =
     row\<lparr>row_host := Some host, row_port := Some (uint port), row_endpoint_kind := us ''host_port_service'', row_service_name := Some n\<rparr>"
| "endpoint_columns (HostPort host port (Sid n)) row =
     row\<lparr>row_host := Some host, row_port := Some (uint port), row_endpoint_kind := us ''host_port_sid'', row_sid := Some n\<rparr>"
| "endpoint_columns (ConnectString t) row =
     row\<lparr>row_endpoint_kind := us ''connect_string'', row_connect_string := Some t\<rparr>"

fun authentication_columns :: "authentication \<Rightarrow> profile_row \<Rightarrow> profile_row" where
  "authentication_columns (PasswordAuth username storage) row =
     row\<lparr>row_auth_kind := us ''password'', row_username := Some username,
         row_password_in_credential_store := Some (case storage of CredentialStore \<Rightarrow> 1 | PromptEachTime \<Rightarrow> 0)\<rparr>"
| "authentication_columns ExternalAuth row = row\<lparr>row_auth_kind := us ''external''\<rparr>"

fun role_word :: "session_role \<Rightarrow> ustr" where
  "role_word NormalRole = us ''normal''" | "role_word SysDba = us ''sysdba''" | "role_word SysOper = us ''sysoper''"

fun transport_word :: "transport \<Rightarrow> ustr" where
  "transport_word Plain = us ''plain''" | "transport_word Tls = us ''tls''"

definition row_default :: profile_row where
  "row_default = \<lparr>row_id = [], row_name = [], row_database_type = [], row_environment = [], row_environment_label = None,
     row_treat_as_production = 0, row_endpoint_kind = [], row_host = None, row_port = None, row_service_name = None,
     row_sid = None, row_connect_string = None, row_auth_kind = [], row_username = None,
     row_password_in_credential_store = None, row_role = [], row_transport = [], row_ca_directory = None,
     row_allow_unenforced_certificate_pin = 0, row_created_at = 0, row_modified_at = 0\<rparr>"

definition encode_profile :: "uuid_codec \<Rightarrow> profile \<Rightarrow> profile_row option" where
  "encode_profile U p =
     (let d = details p;
          row = row_default\<lparr>row_id := hyphenated U (profile_id p), row_name := profile_name d,
            row_database_type := (case database d of Oracle \<Rightarrow> us ''oracle''),
            row_created_at := created_at p, row_modified_at := modified_at p,
            row_environment := fst (environment_columns (profile_environment d)),
            row_environment_label := snd (environment_columns (profile_environment d)),
            row_treat_as_production := of_bool (treat_as_production d)\<rparr>;
          row = authentication_columns (profile_authentication d) (endpoint_columns (endpoint d) row);
          row = row\<lparr>row_role := role_word (role d), row_transport := transport_word (tls_transport (tls d))\<rparr>;
          finish = (\<lambda>ca. row\<lparr>row_ca_directory := ca,
            row_allow_unenforced_certificate_pin := of_bool (allow_unenforced_certificate_pin (tls d))\<rparr>)
      in case ca_directory (tls d) of
           Some path \<Rightarrow> map_option (\<lambda>t. finish (Some t)) (path_to_str path)
         | None \<Rightarrow> Some (finish None))"

definition required :: "'a option \<Rightarrow> string \<Rightarrow> ustr + 'a" where
  "required v column = (case v of Some x \<Rightarrow> Inr x | None \<Rightarrow> Inl (us column @ us '' is missing''))"

definition row_flag :: "int \<Rightarrow> string \<Rightarrow> ustr + bool" where
  "row_flag v column = (if v = 0 then Inr False else if v = 1 then Inr True else Inl (us column @ us '' is not 0 or 1''))"

definition u16_try_from :: "int \<Rightarrow> 16 word option" where
  "u16_try_from i = (if 0 \<le> i \<and> i < 2 ^ 16 then Some (word_of_int i) else None)"

text \<open>The operator \<^verbatim>\<open>?\<close> of a function that returns a result.\<close>

fun and_then :: "'e + 'a \<Rightarrow> ('a \<Rightarrow> 'e + 'b) \<Rightarrow> 'e + 'b" where
  "and_then (Inl e) f = Inl e"
| "and_then (Inr x) f = f x"

definition decode_environment :: "profile_row \<Rightarrow> ustr + environment" where
  "decode_environment row =
     (if row_environment row = us ''development'' then Inr Development
      else if row_environment row = us ''test'' then Inr TestEnv
      else if row_environment row = us ''uat'' then Inr Uat
      else if row_environment row = us ''staging'' then Inr Staging
      else if row_environment row = us ''production'' then Inr Production
      else if row_environment row = us ''custom''
      then and_then (required (row_environment_label row) ''environment_label'') (\<lambda>l. Inr (CustomEnv l))
      else Inl (us ''environment is not one this build knows''))"

definition decode_host_port :: "profile_row \<Rightarrow> service_target \<Rightarrow> ustr + profile_endpoint" where
  "decode_host_port row target =
     (case Option.bind (row_port row) u16_try_from of
        None \<Rightarrow> Inl (us ''port is missing or out of range'')
      | Some port \<Rightarrow> and_then (required (row_host row) ''host'') (\<lambda>host. Inr (HostPort host port target)))"

definition decode_endpoint :: "profile_row \<Rightarrow> ustr + profile_endpoint" where
  "decode_endpoint row =
     (if row_endpoint_kind row = us ''host_port_service''
      then and_then (required (row_service_name row) ''service_name'') (\<lambda>n. decode_host_port row (ServiceName n))
      else if row_endpoint_kind row = us ''host_port_sid''
      then and_then (required (row_sid row) ''sid'') (\<lambda>n. decode_host_port row (Sid n))
      else if row_endpoint_kind row = us ''connect_string''
      then and_then (required (row_connect_string row) ''connect_string'') (\<lambda>t. Inr (ConnectString t))
      else Inl (us ''endpoint_kind is not one this build knows''))"

definition decode_storage :: "int option \<Rightarrow> ustr + password_storage" where
  "decode_storage v =
     (if v = Some 1 then Inr CredentialStore else if v = Some 0 then Inr PromptEachTime
      else Inl (us ''password_in_credential_store is not 0 or 1''))"

definition decode_authentication :: "profile_row \<Rightarrow> ustr + authentication" where
  "decode_authentication row =
     (if row_auth_kind row = us ''password''
      then and_then (required (row_username row) ''username'') (\<lambda>n.
           and_then (decode_storage (row_password_in_credential_store row)) (\<lambda>s. Inr (PasswordAuth n s)))
      else if row_auth_kind row = us ''external'' then Inr ExternalAuth
      else Inl (us ''auth_kind is not one this build knows''))"

definition decode_role :: "ustr \<Rightarrow> ustr + session_role" where
  "decode_role w =
     (if w = us ''normal'' then Inr NormalRole else if w = us ''sysdba'' then Inr SysDba
      else if w = us ''sysoper'' then Inr SysOper else Inl (us ''role is not one this build knows''))"

definition decode_transport :: "ustr \<Rightarrow> ustr + transport" where
  "decode_transport w =
     (if w = us ''plain'' then Inr Plain else if w = us ''tls'' then Inr Tls
      else Inl (us ''transport is not one this build knows''))"

definition map_err :: "('e \<Rightarrow> 'f) \<Rightarrow> 'e + 'a \<Rightarrow> 'f + 'a" where
  "map_err f r = (case r of Inl e \<Rightarrow> Inl (f e) | Inr x \<Rightarrow> Inr x)"

definition decode_profile :: "uuid_codec \<Rightarrow> (uchar \<Rightarrow> ustr) \<Rightarrow> profile_row \<Rightarrow> ustr + profile" where
  "decode_profile U low row =
     and_then (map_err (\<lambda>e. us ''id: '' @ id_error_display e) (parse_uuid U (row_id row))) (\<lambda>i.
     and_then (if row_database_type row = us ''oracle'' then Inr Oracle
               else Inl (us ''database_type is not one this build knows'')) (\<lambda>db.
     and_then (decode_environment row) (\<lambda>env.
     and_then (decode_endpoint row) (\<lambda>ep.
     and_then (decode_authentication row) (\<lambda>auth.
     and_then (decode_role (row_role row)) (\<lambda>r.
     and_then (decode_transport (row_transport row)) (\<lambda>tr.
     and_then (row_flag (row_treat_as_production row) ''treat_as_production'') (\<lambda>prod.
     and_then (row_flag (row_allow_unenforced_certificate_pin row) ''allow_unenforced_certificate_pin'') (\<lambda>pin.
       map_err profile_error_display (from_stored low i
         \<lparr>profile_name = row_name row, database = db, profile_environment = env, treat_as_production = prod, endpoint = ep,
          profile_authentication = auth, role = r,
          tls = \<lparr>tls_transport = tr, ca_directory = map_option UnicodePath (row_ca_directory row),
                 allow_unenforced_certificate_pin = pin\<rparr>\<rparr>
         (row_created_at row) (row_modified_at row)))))))))))"

section \<open>The text of an identifier\<close>

text \<open>
  What the code relies on in the \<^verbatim>\<open>uuid\<close> crate: the hyphenated form has 36 characters of one byte
  and is read back as the identifier it came from, and reading ignores the case of ASCII letters.
\<close>

definition nocase :: "ustr \<Rightarrow> ustr" where
  "nocase t = map to_ascii_lowercase t"

locale uuid_text =
  fixes U :: uuid_codec
  assumes parse_hyphenated: "try_parse U (hyphenated U u) = Some u"
    and hyphenated_len: "byte_len (hyphenated U u) = 36"
    and parse_nocase: "nocase s = nocase t \<Longrightarrow> try_parse U s = try_parse U t"
begin

lemma hyphenated_nocase_iff: "nocase (hyphenated U u) = nocase (hyphenated U v) \<longleftrightarrow> u = v"
  using parse_nocase[of "hyphenated U u" "hyphenated U v"] by (auto simp: parse_hyphenated)

lemma parse_uuid_hyphenated: "u \<noteq> 0 \<Longrightarrow> parse_uuid U (hyphenated U u) = Inr u"
  by (simp add: parse_uuid_def hyphenated_len parse_hyphenated)

end

lemma parse_uuid_nonzero: "parse_uuid U t = Inr u \<Longrightarrow> u \<noteq> 0"
  by (auto simp: parse_uuid_def split: if_splits option.splits)

text \<open>The canonical form, as RFC 9562 has it: 32 hexadecimal digits in groups of 8, 4, 4, 4 and 12.\<close>

fun hex_digits :: "nat \<Rightarrow> nat \<Rightarrow> nat list" where
  "hex_digits 0 n = []"
| "hex_digits (Suc k) n = hex_digits k (n div 16) @ [n mod 16]"

definition hex_char :: "nat \<Rightarrow> uchar" where
  "hex_char d = (if d < 10 then 48 + int d else 87 + int d)"

definition hex_value :: "uchar \<Rightarrow> nat option" where
  "hex_value c =
     (if 48 \<le> c \<and> c \<le> 57 then Some (nat (c - 48))
      else if 97 \<le> c \<and> c \<le> 102 then Some (nat (c - 87)) else None)"

definition hex_number :: "nat list \<Rightarrow> nat" where
  "hex_number ds = foldl (\<lambda>n d. 16 * n + d) 0 ds"

definition hyphenate :: "ustr \<Rightarrow> ustr" where
  "hyphenate h = take 8 h @ [45] @ take 4 (drop 8 h) @ [45] @ take 4 (drop 12 h) @ [45] @ take 4 (drop 16 h) @ [45] @ drop 20 h"

definition groups :: "ustr \<Rightarrow> ustr" where
  "groups s = take 8 s @ take 4 (drop 9 s) @ take 4 (drop 14 s) @ take 4 (drop 19 s) @ drop 24 s"

definition canonical_text :: "uuid \<Rightarrow> ustr" where
  "canonical_text u = hyphenate (map hex_char (hex_digits 32 (unat u)))"

definition canonical_parse :: "ustr \<Rightarrow> uuid option" where
  "canonical_parse t =
     (let s = nocase t in
      if length s = 36 \<and> s ! 8 = 45 \<and> s ! 13 = 45 \<and> s ! 18 = 45 \<and> s ! 23 = 45
      then map_option (\<lambda>ds. of_nat (hex_number ds)) (those (map hex_value (groups s))) else None)"

definition canonical_uuid :: uuid_codec where
  "canonical_uuid = \<lparr>hyphenated = canonical_text, try_parse = canonical_parse\<rparr>"

lemma length_hex_digits [simp]: "length (hex_digits k n) = k"
  by (induction k n rule: hex_digits.induct) auto

lemma hex_digits_small: "d \<in> set (hex_digits k n) \<Longrightarrow> d < 16"
  by (induction k n rule: hex_digits.induct) auto

lemma hex_number_digits: "hex_number (hex_digits k n) = n mod 16 ^ k"
proof (induction k n rule: hex_digits.induct)
  case (2 k n)
  then show ?case
    by (simp add: hex_number_def mod_mult2_eq mult.commute)
qed (simp add: hex_number_def)

lemma hex_value_char: "d < 16 \<Longrightarrow> hex_value (hex_char d) = Some d"
  by (auto simp: hex_value_def hex_char_def)

lemma lower_hex_char: "d < 16 \<Longrightarrow> to_ascii_lowercase (hex_char d) = hex_char d"
  by (auto simp: hex_char_def to_ascii_lowercase_def)

lemma those_hex: "(\<And>d. d \<in> set ds \<Longrightarrow> d < 16) \<Longrightarrow> those (map hex_value (map hex_char ds)) = Some ds"
  by (induction ds) (simp_all add: hex_value_char)

lemma nocase_hex: "(\<And>d. d \<in> set ds \<Longrightarrow> d < 16) \<Longrightarrow> nocase (map hex_char ds) = map hex_char ds"
  by (induction ds) (simp_all add: nocase_def lower_hex_char)

lemma len_hex_char: "d < 16 \<Longrightarrow> len_utf8 (hex_char d) = 1"
  by (auto simp: hex_char_def len_utf8_def)

lemma byte_len_hex: "(\<And>d. d \<in> set ds \<Longrightarrow> d < 16) \<Longrightarrow> byte_len (map hex_char ds) = length ds"
  by (induction ds) (simp_all add: len_hex_char)

lemma groups_hyphenate: "length h = 32 \<Longrightarrow> groups (hyphenate h) = h"
  using append_take_drop_id[of 8 h] append_take_drop_id[of 4 "drop 8 h"] append_take_drop_id[of 4 "drop 12 h"]
    append_take_drop_id[of 4 "drop 16 h"]
  by (simp add: groups_def hyphenate_def)

lemma hyphenate_shape:
  "length h = 32 \<Longrightarrow> length (hyphenate h) = 36 \<and> hyphenate h ! 8 = 45 \<and> hyphenate h ! 13 = 45 \<and> hyphenate h ! 18 = 45 \<and> hyphenate h ! 23 = 45"
  by (simp add: hyphenate_def nth_append)

lemma byte_len_hyphenate:
  assumes "length h = 32" shows "byte_len (hyphenate h) = byte_len h + 4"
proof -
  have "byte_len h = byte_len (groups (hyphenate h))" by (simp add: groups_hyphenate[OF assms])
  then show ?thesis using assms by (simp add: groups_def hyphenate_def len_utf8_def)
qed

lemma nocase_take [simp]: "nocase (take n s) = take n (nocase s)" "nocase (drop n s) = drop n (nocase s)"
  "nocase (s @ t) = nocase s @ nocase t" "nocase (45 # s) = 45 # nocase s" "nocase [] = []"
  by (simp_all add: nocase_def take_map drop_map to_ascii_lowercase_def)

lemma nocase_hyphenate: "nocase (hyphenate h) = hyphenate (nocase h)"
  by (simp add: hyphenate_def)

lemma nocase_idem [simp]: "nocase (nocase s) = nocase s"
  by (auto simp: nocase_def to_ascii_lowercase_def)

interpretation canonical: uuid_text canonical_uuid
proof
  fix u :: uuid and s t
  let ?ds = "hex_digits 32 (unat u)"
  let ?h = "map hex_char ?ds"
  have small: "\<And>d. d \<in> set ?ds \<Longrightarrow> d < 16" by (rule hex_digits_small)
  have len: "length ?h = 32" by simp
  have "nocase (canonical_text u) = hyphenate ?h"
    by (simp only: canonical_text_def nocase_hyphenate nocase_hex[OF small])
  moreover have "unat u < 2 ^ LENGTH(128)" by (rule unsigned_less)
  then have "hex_number ?ds = unat u" by (simp add: hex_number_digits)
  moreover note groups_hyphenate[OF len] hyphenate_shape[OF len] those_hex[OF small]
  ultimately show "try_parse canonical_uuid (hyphenated canonical_uuid u) = Some u"
    by (simp add: canonical_uuid_def canonical_parse_def del: map_map)
  show "byte_len (hyphenated canonical_uuid u) = 36"
    using byte_len_hyphenate[OF len] byte_len_hex[OF small] by (simp add: canonical_uuid_def canonical_text_def)
  show "nocase s = nocase t \<Longrightarrow> try_parse canonical_uuid s = try_parse canonical_uuid t"
    by (simp add: canonical_uuid_def canonical_parse_def)
qed

section \<open>The credential guard\<close>

text \<open>The regular expression of the documentation: \<^verbatim>\<open>^[^/@()]+/[^@]+@\<close>.\<close>

definition user_password_prefix :: "ustr \<Rightarrow> bool" where
  "user_password_prefix s \<longleftrightarrow>
     (\<exists>a b c. s = a @ [47] @ b @ [64] @ c \<and> a \<noteq> [] \<and> set a \<inter> {47, 64, 40, 41} = {} \<and> b \<noteq> [] \<and> 64 \<notin> set b)"

lemma split_once_Some:
  "split_once c s = Some (a, b) \<longleftrightarrow> s = a @ [c] @ b \<and> c \<notin> set a"
proof
  assume "split_once c s = Some (a, b)"
  then have c: "c \<in> set s" and a: "a = takeWhile (\<lambda>x. x \<noteq> c) s" and b: "b = drop 1 (dropWhile (\<lambda>x. x \<noteq> c) s)"
    by (auto simp: split_once_def split: if_splits)
  from c obtain r where "dropWhile (\<lambda>x. x \<noteq> c) s = c # r"
    using hd_dropWhile[of "\<lambda>x. x \<noteq> c" s] by (cases "dropWhile (\<lambda>x. x \<noteq> c) s") (auto simp: dropWhile_eq_Nil_conv)
  with a b takeWhile_dropWhile_id[of "\<lambda>x. x \<noteq> c" s] have "s = a @ [c] @ b" by simp
  with a set_takeWhileD show "s = a @ [c] @ b \<and> c \<notin> set a" by fastforce
next
  assume "s = a @ [c] @ b \<and> c \<notin> set a"
  then have "takeWhile (\<lambda>x. x \<noteq> c) s = a" "dropWhile (\<lambda>x. x \<noteq> c) s = c # b" "c \<in> set s"
    by (auto simp: takeWhile_append dropWhile_append)
  then show "split_once c s = Some (a, b)" by (simp add: split_once_def)
qed

lemma find_char_Some_pos:
  "(\<exists>k > 0. find_char c s = Some k) \<longleftrightarrow> (\<exists>b r. s = b @ [c] @ r \<and> b \<noteq> [] \<and> c \<notin> set b)"
proof
  assume "\<exists>k > 0. find_char c s = Some k"
  then have "c \<in> set s" "takeWhile (\<lambda>x. x \<noteq> c) s \<noteq> []"
    by (auto simp: find_char_def split: if_splits)
  then show "\<exists>b r. s = b @ [c] @ r \<and> b \<noteq> [] \<and> c \<notin> set b"
    using split_once_Some[of c s] by (auto simp: split_once_def)
next
  assume "\<exists>b r. s = b @ [c] @ r \<and> b \<noteq> [] \<and> c \<notin> set b"
  then obtain b r where b: "b \<noteq> []" and "split_once c s = Some (b, r)" by (auto simp: split_once_Some)
  then have "c \<in> set s" "takeWhile (\<lambda>x. x \<noteq> c) s = b" by (auto simp: split_once_def split: if_splits)
  with b show "\<exists>k > 0. find_char c s = Some k" by (auto simp: find_char_def)
qed

lemma user_password_prefix_iff:
  "user_password_prefix s \<longleftrightarrow> (\<exists>a rest k. split_once 47 s = Some (a, rest) \<and> a \<noteq> [] \<and>
     \<not> (64 \<in> set a \<or> 40 \<in> set a \<or> 41 \<in> set a) \<and> find_char 64 rest = Some k \<and> k > 0)"
proof -
  have "user_password_prefix s \<longleftrightarrow> (\<exists>a rest. split_once 47 s = Some (a, rest) \<and> a \<noteq> [] \<and>
     \<not> (64 \<in> set a \<or> 40 \<in> set a \<or> 41 \<in> set a) \<and> (\<exists>b c. rest = b @ [64] @ c \<and> b \<noteq> [] \<and> 64 \<notin> set b))"
    unfolding user_password_prefix_def split_once_Some by (auto; blast)
  then show ?thesis unfolding find_char_Some_pos[symmetric] by blast
qed

text \<open>
  The guard against credentials finds exactly what its table documents, in the table's order, on
  the text with all white space removed and letters in lower case: a wallet password, a password
  as a query parameter, a password elsewhere, or a prefix that matches \<^verbatim>\<open>^[^/@()]+/[^@]+@\<close>.
\<close>

theorem credential_guard_is_its_table:
  "find_pattern low t =
     (let s = squeeze low t in
      if sublist (us ''wallet_password='') s then Some WalletPassword
      else if sublist (us ''?password='') s \<or> sublist (us ''&password='') s then Some QueryParameter
      else if sublist (us ''password='') s then Some PasswordKeyword
      else if user_password_prefix s then Some UserPasswordPrefix
      else None)"
  unfolding find_pattern_def Let_def user_password_prefix_iff
  by (auto split: option.splits)

section \<open>A profile is valid, and survives the file\<close>

lemma first_error_iff: "first_error rs = Inr () \<longleftrightarrow> (\<forall>r \<in> set rs. r = Inr ())"
  by (induction rs rule: first_error.induct) auto

lemma validate_iff:
  "validate low d = Inr () \<longleftrightarrow>
     validate_name (profile_name d) = Inr () \<and> validate_environment (profile_environment d) = Inr () \<and>
     validate_production (profile_environment d) (treat_as_production d) = Inr () \<and>
     validate_endpoint low (endpoint d) = Inr () \<and> validate_authentication (profile_authentication d) = Inr () \<and>
     validate_directory (ca_directory (tls d)) = Inr ()"
  by (simp add: validate_def first_error_iff)

text \<open>Every way to obtain a profile.\<close>

inductive profile_made :: "uuid_codec \<Rightarrow> (uchar \<Rightarrow> ustr) \<Rightarrow> profile \<Rightarrow> bool" for U low where
  made_create: "profile_create low fresh now d = Inr p \<Longrightarrow> fresh \<noteq> 0 \<Longrightarrow> profile_made U low p"
| made_update: "profile_made U low p \<Longrightarrow> profile_update low now d p = (r, p') \<Longrightarrow> profile_made U low p'"
| made_stored: "decode_profile U low row = Inr p \<Longrightarrow> profile_made U low p"

lemma and_then_Inr: "and_then r f = Inr y \<longleftrightarrow> (\<exists>x. r = Inr x \<and> f x = Inr y)"
  by (cases r) auto

lemma map_err_Inr: "map_err f r = Inr y \<longleftrightarrow> r = Inr y"
  by (cases r) (auto simp: map_err_def)

lemma from_stored_Inr:
  "from_stored low i d c m = Inr p \<longleftrightarrow> validate low d = Inr () \<and> p = \<lparr>profile_id = i, details = d, created_at = c, modified_at = m\<rparr>"
  by (auto simp: from_stored_def split: sum.splits)

lemma profile_made_valid:
  "profile_made U low p \<Longrightarrow> validate low (details p) = Inr () \<and> profile_id p \<noteq> 0"
proof (induction rule: profile_made.induct)
  case (made_stored row p)
  then show ?case
    by (auto simp: decode_profile_def and_then_Inr map_err_Inr from_stored_Inr dest: parse_uuid_nonzero)
qed (auto simp: profile_create_def profile_update_def split: sum.splits)





lemma decode_environment_columns:
  "row_environment row = fst (environment_columns e) \<Longrightarrow> row_environment_label row = snd (environment_columns e) \<Longrightarrow>
   decode_environment row = Inr e"
  by (cases e) (simp_all add: decode_environment_def required_def us_def)

lemma u16_try_from_uint [simp]: "u16_try_from (uint n) = Some n"
  using uint_lt2p[of n] by (simp add: u16_try_from_def)

lemma decode_endpoint_columns:
  assumes "row_endpoint_kind row = row_endpoint_kind (endpoint_columns e r0)"
    and "row_host row = row_host (endpoint_columns e r0)" and "row_port row = row_port (endpoint_columns e r0)"
    and "row_service_name row = row_service_name (endpoint_columns e r0)" and "row_sid row = row_sid (endpoint_columns e r0)"
    and "row_connect_string row = row_connect_string (endpoint_columns e r0)"
  shows "decode_endpoint row = Inr e"
  using assms
  by (cases "(e, r0)" rule: endpoint_columns.cases)
    (simp_all add: decode_endpoint_def decode_host_port_def required_def us_def)

lemma decode_authentication_columns:
  assumes "row_auth_kind row = row_auth_kind (authentication_columns a r0)"
    and "row_username row = row_username (authentication_columns a r0)"
    and "row_password_in_credential_store row = row_password_in_credential_store (authentication_columns a r0)"
  shows "decode_authentication row = Inr a"
  using assms
  by (cases "(a, r0)" rule: authentication_columns.cases)
    (simp_all add: decode_authentication_def decode_storage_def required_def us_def split: password_storage.splits)

lemma decode_role_word [simp]: "decode_role (role_word r) = Inr r"
  by (cases r) (simp_all add: decode_role_def us_def)

lemma decode_transport_word [simp]: "decode_transport (transport_word r) = Inr r"
  by (cases r) (simp_all add: decode_transport_def us_def)

lemma row_flag_of_bool [simp]: "row_flag (of_bool b) c = Inr b"
  by (simp add: row_flag_def)

text \<open>The columns that the later steps of the encoding leave alone.\<close>

lemma endpoint_columns_other [simp]:
  "row_id (endpoint_columns e r) = row_id r" "row_name (endpoint_columns e r) = row_name r"
  "row_database_type (endpoint_columns e r) = row_database_type r" "row_environment (endpoint_columns e r) = row_environment r"
  "row_environment_label (endpoint_columns e r) = row_environment_label r"
  "row_treat_as_production (endpoint_columns e r) = row_treat_as_production r"
  "row_created_at (endpoint_columns e r) = row_created_at r" "row_modified_at (endpoint_columns e r) = row_modified_at r"
  by (cases "(e, r)" rule: endpoint_columns.cases; simp)+

lemma authentication_columns_other [simp]:
  "row_id (authentication_columns a r) = row_id r" "row_name (authentication_columns a r) = row_name r"
  "row_database_type (authentication_columns a r) = row_database_type r"
  "row_environment (authentication_columns a r) = row_environment r"
  "row_environment_label (authentication_columns a r) = row_environment_label r"
  "row_treat_as_production (authentication_columns a r) = row_treat_as_production r"
  "row_created_at (authentication_columns a r) = row_created_at r"
  "row_modified_at (authentication_columns a r) = row_modified_at r"
  "row_endpoint_kind (authentication_columns a r) = row_endpoint_kind r" "row_host (authentication_columns a r) = row_host r"
  "row_port (authentication_columns a r) = row_port r" "row_service_name (authentication_columns a r) = row_service_name r"
  "row_sid (authentication_columns a r) = row_sid r" "row_connect_string (authentication_columns a r) = row_connect_string r"
  by (cases "(a, r)" rule: authentication_columns.cases; simp)+

lemma valid_directory:
  assumes "validate_directory d = Inr ()"
  obtains "d = None" | t where "d = Some (UnicodePath t)"
  using assms by (cases d rule: validate_directory.cases; cases "the d") (auto split: option.splits)

lemma encode_valid:
  assumes "validate low (details p) = Inr ()"
  obtains row where "encode_profile U p = Some row"
    and "map_option UnicodePath (row_ca_directory row) = ca_directory (tls (details p))"
proof -
  have "validate_directory (ca_directory (tls (details p))) = Inr ()" using assms by (simp add: validate_iff)
  then show ?thesis
    by (rule valid_directory) (use that in \<open>auto simp: encode_profile_def Let_def row_default_def\<close>)
qed

lemma encode_columns:
  assumes "encode_profile U p = Some row"
  shows "row_id row = hyphenated U (profile_id p)" "row_name row = profile_name (details p)"
    "row_database_type row = us ''oracle''" "row_created_at row = created_at p" "row_modified_at row = modified_at p"
    "row_treat_as_production row = of_bool (treat_as_production (details p))"
    "row_allow_unenforced_certificate_pin row = of_bool (allow_unenforced_certificate_pin (tls (details p)))"
    "row_role row = role_word (role (details p))" "row_transport row = transport_word (tls_transport (tls (details p)))"
    "decode_environment row = Inr (profile_environment (details p))"
    "decode_endpoint row = Inr (endpoint (details p))"
    "decode_authentication row = Inr (profile_authentication (details p))"
  using assms
  by (auto simp: encode_profile_def Let_def split: option.splits database_type.splits
      intro!: decode_environment_columns decode_endpoint_columns decode_authentication_columns)

lemma decode_encode:
  assumes "uuid_text U" and v: "validate low (details p) = Inr ()" and i: "profile_id p \<noteq> 0" and row: "encode_profile U p = Some row"
  shows "decode_profile U low row = Inr p"
proof -
  obtain row' where "encode_profile U p = Some row'"
    and "map_option UnicodePath (row_ca_directory row') = ca_directory (tls (details p))" by (rule encode_valid[OF v])
  with row have ca: "map_option UnicodePath (row_ca_directory row) = ca_directory (tls (details p))" by simp
  have "database (details p) = Oracle" by (cases "database (details p)") simp
  then have "decode_profile U low row = map_err profile_error_display
      (from_stored low (profile_id p) (details p) (created_at p) (modified_at p))"
    using uuid_text.parse_uuid_hyphenated[OF assms(1) i]
    by (cases "details p"; cases "tls (details p)") (simp add: decode_profile_def encode_columns[OF row] ca map_err_def)
  then show ?thesis
    using v by (simp add: from_stored_def map_err_def)
qed

text \<open>
  C36. A profile that exists can be written to the file, and the row is read back as the same profile:
  every column round-trips, and the checks on reading refuse nothing that was accepted before.
\<close>

theorem profile_survives_the_file:
  assumes "uuid_text U" and "profile_made U low p"
  shows "\<exists>row. encode_profile U p = Some row \<and> decode_profile U low row = Inr p"
proof -
  have v: "validate low (details p) = Inr ()" and i: "profile_id p \<noteq> 0" using profile_made_valid[OF assms(2)] by simp_all
  obtain row where "encode_profile U p = Some row" by (rule encode_valid[OF v])
  with decode_encode[OF assms(1) v i] show ?thesis by blast
qed

definition sample_details :: profile_details where
  "sample_details = details_new (us ''Dev'') Oracle Development (HostPort (us ''db'') 1521 (ServiceName (us ''x''))) ExternalAuth"

definition no_case :: "uchar \<Rightarrow> ustr" where
  "no_case c = [c]"

lemma sample_details_valid: "validate no_case sample_details = Inr ()"
  by code_simp

lemma sample_profile_made:
  "profile_made U no_case \<lparr>profile_id = 7, details = sample_details, created_at = 1, modified_at = 1\<rparr>"
  by (rule made_create[where fresh = 7 and now = 1 and d = sample_details]) (simp_all add: profile_create_def sample_details_valid)


theorem profile_survives_the_file_witness:
  "\<exists>row. encode_profile canonical_uuid \<lparr>profile_id = 7, details = sample_details, created_at = 1, modified_at = 1\<rparr> = Some row \<and>
     decode_profile canonical_uuid no_case row = Inr \<lparr>profile_id = 7, details = sample_details, created_at = 1, modified_at = 1\<rparr>"
  by (rule profile_survives_the_file[OF canonical.uuid_text_axioms sample_profile_made])

end
