(* ===== verification/Workspace_Connect.thy ===== *)
theory Workspace_Connect
  imports Workspace_Profile
begin

text \<open>
  From a profile and its settings to what the core consumes: the parameters of a connection
  (\<^verbatim>\<open>crates/db-driver-api/src/params.rs\<close>), a statement with its binds and options
  (\<^verbatim>\<open>statement.rs\<close>) and the mapping of \<^verbatim>\<open>crates/workspace/src/connect.rs\<close>.

  The driver binding is the parameter \<open>B\<close>: its operations belong to the program that links a
  driver.  A secret is its text; that it redacts itself and wipes its buffer is not modelled.
\<close>

section \<open>Connection parameters\<close>

type_synonym secret = ustr

datatype extension_value = TextExt ustr | SecretExt secret | IntegerExt int | FlagExt bool

type_synonym extensions = "string \<rightharpoonup> extension_value"

datatype conn_endpoint = ToHostPort ustr "16 word" ustr | ToConnectString ustr

datatype credentials = UserPassword ustr secret | ExternalCredentials

datatype tls_mode = TlsDisabled | TlsRequired

record connection_params =
  params_endpoint :: conn_endpoint
  params_credentials :: credentials
  params_role :: session_role
  params_tls :: tls_mode
  connect_timeout :: "nat option" \<comment> \<open>seconds\<close>
  params_extensions :: extensions

definition params_new :: "conn_endpoint \<Rightarrow> credentials \<Rightarrow> connection_params" where
  "params_new ep cr = \<lparr>params_endpoint = ep, params_credentials = cr, params_role = NormalRole, params_tls = TlsDisabled,
     connect_timeout = None, params_extensions = Map.empty\<rparr>"

definition with_role :: "session_role \<Rightarrow> connection_params \<Rightarrow> connection_params" where
  "with_role r ps = ps\<lparr>params_role := r\<rparr>"

definition with_tls :: "tls_mode \<Rightarrow> connection_params \<Rightarrow> connection_params" where
  "with_tls m ps = ps\<lparr>params_tls := m\<rparr>"

definition with_connect_timeout :: "nat \<Rightarrow> connection_params \<Rightarrow> connection_params" where
  "with_connect_timeout t ps = ps\<lparr>connect_timeout := Some t\<rparr>"

definition with_extensions :: "extensions \<Rightarrow> connection_params \<Rightarrow> connection_params" where
  "with_extensions x ps = ps\<lparr>params_extensions := x\<rparr>"

section \<open>Statements\<close>

datatype bind_value =
  BindNull | BindBoolean bool | BindNumber number | BindFloat f32 | BindDouble f64 | BindText ustr
| BindBytes "byte list" | BindTimestamp timestamp | BindJson ustr

datatype bind_direction = InDirection | OutDirection | InOutDirection

record 's out_bind_spec =
  spec_sql_type :: 's
  max_size_bytes :: "nat option"

definition out_spec_new :: "'s \<Rightarrow> 's out_bind_spec" where
  "out_spec_new t = \<lparr>spec_sql_type = t, max_size_bytes = None\<rparr>"

definition with_max_size_bytes :: "nat \<Rightarrow> 's out_bind_spec \<Rightarrow> 's out_bind_spec" where
  "with_max_size_bytes n s = s\<lparr>max_size_bytes := Some n\<rparr>"

datatype 's bind = InBind bind_value | OutBind "'s out_bind_spec" | InOutBind bind_value "'s out_bind_spec"

fun direction :: "'s bind \<Rightarrow> bind_direction" where
  "direction (InBind _) = InDirection"
| "direction (OutBind _) = OutDirection"
| "direction (InOutBind _ _) = InOutDirection"

fun is_output :: "'s bind \<Rightarrow> bool" where
  "is_output (InBind _) = False"
| "is_output (OutBind _) = True"
| "is_output (InOutBind _ _) = True"

fun value_of_bind :: "'s bind \<Rightarrow> bind_value option" where
  "value_of_bind (InBind v) = Some v"
| "value_of_bind (InOutBind v _) = Some v"
| "value_of_bind (OutBind _) = None"

fun out_spec :: "'s bind \<Rightarrow> 's out_bind_spec option" where
  "out_spec (OutBind s) = Some s"
| "out_spec (InOutBind _ s) = Some s"
| "out_spec (InBind _) = None"

datatype 's binds = NoBinds | PositionalBinds "'s bind list" | NamedBinds "(ustr \<times> 's bind) list"

fun binds_len :: "'s binds \<Rightarrow> nat" where
  "binds_len NoBinds = 0"
| "binds_len (PositionalBinds bs) = length bs"
| "binds_len (NamedBinds bs) = length bs"

fun has_outputs :: "'s binds \<Rightarrow> bool" where
  "has_outputs NoBinds = False"
| "has_outputs (PositionalBinds bs) = list_ex is_output bs"
| "has_outputs (NamedBinds bs) = list_ex (\<lambda>(_, b). is_output b) bs"

record 's statement =
  sql_text :: ustr
  statement_binds :: "'s binds"
  deadline :: "nat option" \<comment> \<open>seconds\<close>
  fetch_rows :: "nat option"

definition statement_new :: "ustr \<Rightarrow> 's statement" where
  "statement_new sql = \<lparr>sql_text = sql, statement_binds = NoBinds, deadline = None, fetch_rows = None\<rparr>"

definition with_deadline :: "nat \<Rightarrow> 's statement \<Rightarrow> 's statement" where
  "with_deadline t s = s\<lparr>deadline := Some t\<rparr>"

definition with_fetch_rows :: "nat \<Rightarrow> 's statement \<Rightarrow> 's statement" where
  "with_fetch_rows n s = s\<lparr>fetch_rows := Some n\<rparr>"

section \<open>The mapping\<close>

record driver_options =
  connect_without_limit :: bool
  rewrite_trigger_ddl :: bool
  options_ca_directory :: "os_path option"
  options_allow_unenforced_pin :: bool

record driver_binding =
  binding_database :: database_type
  sid_endpoint :: "ustr \<Rightarrow> 16 word \<Rightarrow> ustr \<Rightarrow> transport \<Rightarrow> db_error + conn_endpoint"
  binding_extensions :: "driver_options \<Rightarrow> db_error + extensions"

datatype connect_error =
  InvalidProfile profile_error
| WrongBinding database_type database_type
| PasswordRequired
| PasswordNotUsed
| BindingRefused db_error

record connect_settings =
  resolved_connect_timeout :: "time_limit resolved"
  resolved_rewrite_trigger_ddl :: "bool resolved"

definition connect_settings_of :: "bool \<Rightarrow> resolve_context \<Rightarrow> connect_settings option" where
  "connect_settings_of mobile ctx =
     (case (typed_resolve time_limit_from_value mobile ctx ConnectTimeout, typed_resolve bool_from_value mobile ctx RewriteTriggerDdl) of
        (Some t, Some r) \<Rightarrow> Some \<lparr>resolved_connect_timeout = t, resolved_rewrite_trigger_ddl = r\<rparr>
      | _ \<Rightarrow> None)"

fun credentials_for :: "authentication \<Rightarrow> secret option \<Rightarrow> connect_error + credentials" where
  "credentials_for (PasswordAuth username _) (Some password) = Inr (UserPassword username password)"
| "credentials_for (PasswordAuth _ _) None = Inl PasswordRequired"
| "credentials_for ExternalAuth None = Inr ExternalCredentials"
| "credentials_for ExternalAuth (Some _) = Inl PasswordNotUsed"

fun endpoint_for :: "driver_binding \<Rightarrow> transport \<Rightarrow> profile_endpoint \<Rightarrow> connect_error + conn_endpoint" where
  "endpoint_for B tr (HostPort host port (ServiceName service)) = Inr (ToHostPort host port service)"
| "endpoint_for B tr (HostPort host port (Sid sid)) = map_err BindingRefused (sid_endpoint B host port sid tr)"
| "endpoint_for B tr (ConnectString t) = Inr (ToConnectString t)"

fun tls_mode_for :: "transport \<Rightarrow> tls_mode" where
  "tls_mode_for Plain = TlsDisabled"
| "tls_mode_for Tls = TlsRequired"

definition options_for :: "profile_details \<Rightarrow> connect_settings \<Rightarrow> driver_options" where
  "options_for d st =
     \<lparr>connect_without_limit = (resolved_value (resolved_connect_timeout st) = NoLimit),
      rewrite_trigger_ddl = resolved_value (resolved_rewrite_trigger_ddl st),
      options_ca_directory = ca_directory (tls d),
      options_allow_unenforced_pin = allow_unenforced_certificate_pin (tls d)\<rparr>"

definition connection_params_for ::
  "(uchar \<Rightarrow> ustr) \<Rightarrow> profile \<Rightarrow> connect_settings \<Rightarrow> secret option \<Rightarrow> driver_binding \<Rightarrow> connect_error + connection_params" where
  "connection_params_for low p st password B =
     (let d = details p in
      and_then (map_err InvalidProfile (validate low d)) (\<lambda>_.
      if binding_database B \<noteq> database d then Inl (WrongBinding (database d) (binding_database B))
      else and_then (credentials_for (profile_authentication d) password) (\<lambda>creds.
      and_then (endpoint_for B (tls_transport (tls d)) (endpoint d)) (\<lambda>ep.
      and_then (map_err BindingRefused (binding_extensions B (options_for d st))) (\<lambda>x.
        let ps = with_extensions x (with_tls (tls_mode_for (tls_transport (tls d))) (with_role (role d) (params_new ep creds)))
        in Inr (case as_duration (resolved_value (resolved_connect_timeout st)) of
             Some t \<Rightarrow> with_connect_timeout t ps | None \<Rightarrow> ps))))))"

record statement_settings =
  settings_time_limit :: "time_limit resolved"
  settings_fetch_rows :: "u32 resolved"
  settings_fetches_in_flight :: "u32 resolved"

definition statement_settings_of :: "bool \<Rightarrow> resolve_context \<Rightarrow> statement_settings option" where
  "statement_settings_of mobile ctx =
     (case (typed_resolve time_limit_from_value mobile ctx StatementTimeLimit, typed_resolve count_from_value mobile ctx FetchRows,
            typed_resolve count_from_value mobile ctx FetchesInFlight) of
        (Some t, Some r, Some f) \<Rightarrow>
          Some \<lparr>settings_time_limit = t, settings_fetch_rows = r, settings_fetches_in_flight = f\<rparr>
      | _ \<Rightarrow> None)"

definition apply_settings :: "statement_settings \<Rightarrow> 's statement \<Rightarrow> 's statement" where
  "apply_settings st s =
     (let s = (case as_duration (resolved_value (settings_time_limit st)) of Some t \<Rightarrow> with_deadline t s | None \<Rightarrow> s);
          n = unat (resolved_value (settings_fetch_rows st))
      in if n = 0 then s else with_fetch_rows n s)"

record server_output_settings =
  output_setting_enabled :: "bool resolved"
  output_setting_buffer :: "byte_limit resolved"

definition server_output_settings_of :: "bool \<Rightarrow> resolve_context \<Rightarrow> server_output_settings option" where
  "server_output_settings_of mobile ctx =
     (case (typed_resolve bool_from_value mobile ctx ServerOutputEnabled,
            typed_resolve byte_limit_from_value mobile ctx ServerOutputBufferSetting) of
        (Some e, Some b) \<Rightarrow> Some \<lparr>output_setting_enabled = e, output_setting_buffer = b\<rparr>
      | _ \<Rightarrow> None)"

definition server_output_setting_for :: "server_output_settings \<Rightarrow> server_output_setting" where
  "server_output_setting_for st =
     (if resolved_value (output_setting_enabled st)
      then Enabled (buffer_of_limit (resolved_value (output_setting_buffer st))) else Disabled)"

section \<open>What resolution hands over\<close>

lemma check_value_number:
  "check_value d v = Inr () \<Longrightarrow> value_number v = Some n \<Longrightarrow> descriptor_bounds d = Some b \<Longrightarrow> bounds_min b \<le> n \<and> n \<le> bounds_max b"
  by (cases v rule: value_number.cases) (auto simp: check_value_def not_less split: if_splits)

lemma resolved_in_bounds:
  assumes "value_number (resolved_value (resolve_value mobile ctx i)) = Some n"
    and "descriptor_bounds (descriptor mobile i) = Some b"
  shows "unat (bounds_min b) \<le> unat n \<and> unat n \<le> unat (bounds_max b)"
  using check_value_number[OF resolve_value_accepted assms] by (simp add: word_le_nat_alt)

lemma statement_settings_exist:
  obtains st t r f where "statement_settings_of mobile ctx = Some st"
    and "TimeLimitValue (resolved_value (settings_time_limit st)) = resolved_value (resolve_value mobile ctx StatementTimeLimit)"
    and "CountValue (resolved_value (settings_fetch_rows st)) = resolved_value (resolve_value mobile ctx FetchRows)"
    and "CountValue (resolved_value (settings_fetches_in_flight st)) = resolved_value (resolve_value mobile ctx FetchesInFlight)"
  using time_limit_setting.typed_resolve_agrees[of mobile StatementTimeLimit ctx]
    count_setting.typed_resolve_agrees[of mobile FetchRows ctx] count_setting.typed_resolve_agrees[of mobile FetchesInFlight ctx]
  by (auto simp: statement_settings_of_def intro: that)

text \<open>
  Whatever the layers hold, the settings of a statement resolve, and applying them to a fresh
  statement keeps its text, arms a deadline of 1 to 86400 seconds or none at all, and asks for 1
  to 100000 rows; the pipeline is 1 to 8 fetches deep.
\<close>

theorem statement_options_are_bounded:
  "\<exists>st. statement_settings_of mobile ctx = Some st \<and>
     (let s = apply_settings st (statement_new sql) in
        sql_text s = sql \<and>
        (case deadline s of Some t \<Rightarrow> t \<in> {1..86400} | None \<Rightarrow> resolved_value (settings_time_limit st) = NoLimit) \<and>
        (case fetch_rows s of Some n \<Rightarrow> n \<in> {1..100000} | None \<Rightarrow> False)) \<and>
     unat (resolved_value (settings_fetches_in_flight st)) \<in> {1..8}"
proof -
  obtain st where st: "statement_settings_of mobile ctx = Some st"
    and t: "TimeLimitValue (resolved_value (settings_time_limit st)) = resolved_value (resolve_value mobile ctx StatementTimeLimit)"
    and r: "CountValue (resolved_value (settings_fetch_rows st)) = resolved_value (resolve_value mobile ctx FetchRows)"
    and f: "CountValue (resolved_value (settings_fetches_in_flight st)) = resolved_value (resolve_value mobile ctx FetchesInFlight)"
    by (rule statement_settings_exist)
  have rows: "unat (resolved_value (settings_fetch_rows st)) \<in> {1..100000}"
    using resolved_in_bounds[of mobile ctx FetchRows "resolved_value (settings_fetch_rows st)"] by (simp add: r[symmetric])
  have flight: "unat (resolved_value (settings_fetches_in_flight st)) \<in> {1..8}"
    using resolved_in_bounds[of mobile ctx FetchesInFlight "resolved_value (settings_fetches_in_flight st)"] by (simp add: f[symmetric])
  have limit: "case resolved_value (settings_time_limit st) of Seconds n \<Rightarrow> unat n \<in> {1..86400} | NoLimit \<Rightarrow> True"
  proof (cases "resolved_value (settings_time_limit st)")
    case (Seconds n)
    then show ?thesis using resolved_in_bounds[of mobile ctx StatementTimeLimit n] by (simp add: t[symmetric])
  qed simp
  have "let s = apply_settings st (statement_new sql) in
        sql_text s = sql \<and>
        (case deadline s of Some t \<Rightarrow> t \<in> {1..86400} | None \<Rightarrow> resolved_value (settings_time_limit st) = NoLimit) \<and>
        (case fetch_rows s of Some n \<Rightarrow> n \<in> {1..100000} | None \<Rightarrow> False)"
    using rows limit
    by (cases "resolved_value (settings_time_limit st)")
      (auto simp: apply_settings_def statement_new_def with_deadline_def with_fetch_rows_def Let_def)
  with st flight show ?thesis by blast
qed

section \<open>The connection carries the profile\<close>

lemma credentials_for_Inr:
  "credentials_for a pw = Inr c \<longleftrightarrow>
     (\<exists>n s w. a = PasswordAuth n s \<and> pw = Some w \<and> c = UserPassword n w) \<or> a = ExternalAuth \<and> pw = None \<and> c = ExternalCredentials"
  by (cases "(a, pw)" rule: credentials_for.cases) auto

lemma credentials_for_Inl:
  "credentials_for a pw = Inl e \<longleftrightarrow>
     (\<exists>n s. a = PasswordAuth n s) \<and> pw = None \<and> e = PasswordRequired \<or> a = ExternalAuth \<and> pw \<noteq> None \<and> e = PasswordNotUsed"
  by (cases "(a, pw)" rule: credentials_for.cases) auto

text \<open>
  A connection is opened as the profile says or not at all: the parameters require TLS exactly
  when the profile does, carry its role, and hold the password that was handed in exactly when the
  profile authenticates with one; a host with a service name and a connect string are passed as they
  are; a time limit is set in seconds, and the absence of a limit is told to the driver's binding
  rather than left out.
\<close>

theorem connection_carries_the_profile:
  assumes "connection_params_for low p st password B = Inr ps"
  shows "(params_tls ps = TlsRequired \<longleftrightarrow> tls_transport (tls (details p)) = Tls) \<and>
    params_role ps = role (details p) \<and>
    (case params_credentials ps of
       UserPassword n w \<Rightarrow> password = Some w \<and> (\<exists>s. profile_authentication (details p) = PasswordAuth n s)
     | ExternalCredentials \<Rightarrow> password = None \<and> profile_authentication (details p) = ExternalAuth) \<and>
    (case endpoint (details p) of
       HostPort host port (ServiceName n) \<Rightarrow> params_endpoint ps = ToHostPort host port n
     | HostPort host port (Sid n) \<Rightarrow> sid_endpoint B host port n (tls_transport (tls (details p))) = Inr (params_endpoint ps)
     | ConnectString t \<Rightarrow> params_endpoint ps = ToConnectString t) \<and>
    connect_timeout ps = as_duration (resolved_value (resolved_connect_timeout st)) \<and>
    binding_extensions B (options_for (details p) st) = Inr (params_extensions ps) \<and>
    (connect_timeout ps = None \<longleftrightarrow> connect_without_limit (options_for (details p) st))"
proof -
  from assms obtain creds ep x where creds: "credentials_for (profile_authentication (details p)) password = Inr creds"
    and ep: "endpoint_for B (tls_transport (tls (details p))) (endpoint (details p)) = Inr ep"
    and x: "binding_extensions B (options_for (details p) st) = Inr x"
    and ps: "ps = (let ps = with_extensions x (with_tls (tls_mode_for (tls_transport (tls (details p))))
          (with_role (role (details p)) (params_new ep creds)))
        in case as_duration (resolved_value (resolved_connect_timeout st)) of
             Some t \<Rightarrow> with_connect_timeout t ps | None \<Rightarrow> ps)"
    by (auto simp: connection_params_for_def and_then_Inr map_err_Inr Let_def split: if_splits)
  note fields = ps params_new_def with_role_def with_tls_def with_extensions_def with_connect_timeout_def Let_def
  have tls: "params_tls ps = tls_mode_for (tls_transport (tls (details p)))" and role: "params_role ps = role (details p)"
    and c: "params_credentials ps = creds" and e: "params_endpoint ps = ep" and ext: "params_extensions ps = x"
    and time: "connect_timeout ps = as_duration (resolved_value (resolved_connect_timeout st))"
    by (auto simp: fields split: option.splits)
  have "params_tls ps = TlsRequired \<longleftrightarrow> tls_transport (tls (details p)) = Tls"
    by (cases "tls_transport (tls (details p))") (simp_all add: tls)
  moreover have "case params_credentials ps of
       UserPassword n w \<Rightarrow> password = Some w \<and> (\<exists>s. profile_authentication (details p) = PasswordAuth n s)
     | ExternalCredentials \<Rightarrow> password = None \<and> profile_authentication (details p) = ExternalAuth"
    using creds by (auto simp: c credentials_for_Inr)
  moreover have "case endpoint (details p) of
       HostPort host port (ServiceName n) \<Rightarrow> params_endpoint ps = ToHostPort host port n
     | HostPort host port (Sid n) \<Rightarrow> sid_endpoint B host port n (tls_transport (tls (details p))) = Inr (params_endpoint ps)
     | ConnectString t \<Rightarrow> params_endpoint ps = ToConnectString t"
    using ep by (auto simp: e map_err_Inr split: profile_endpoint.splits service_target.splits)
  moreover have "connect_timeout ps = None \<longleftrightarrow> connect_without_limit (options_for (details p) st)"
    by (cases "resolved_value (resolved_connect_timeout st)") (simp_all add: time options_for_def)
  ultimately show ?thesis using role time x ext by simp
qed

definition sample_binding :: driver_binding where
  "sample_binding = \<lparr>binding_database = Oracle, sid_endpoint = (\<lambda>_ _ _ _. Inl (error_unsupported (us ''sid''))),
     binding_extensions = (\<lambda>opts. Inr (Map.empty(''no limit'' \<mapsto> FlagExt (connect_without_limit opts))))\<rparr>"

definition sample_connect_settings :: connect_settings where
  "sample_connect_settings = \<lparr>resolved_connect_timeout = \<lparr>resolved_value = NoLimit, resolved_source = ProfileLevel\<rparr>,
     resolved_rewrite_trigger_ddl = \<lparr>resolved_value = True, resolved_source = BuiltIn\<rparr>\<rparr>"

definition sample_connect_profile :: profile where
  "sample_connect_profile = \<lparr>profile_id = 7, details = sample_details, created_at = 1, modified_at = 1\<rparr>"

lemma sample_connection:
  "\<exists>ps. connection_params_for no_case sample_connect_profile sample_connect_settings None sample_binding = Inr ps \<and>
     params_endpoint ps = ToHostPort (us ''db'') 1521 (us ''x'')"
  using sample_details_valid
  by (simp add: connection_params_for_def sample_connect_profile_def sample_connect_settings_def sample_binding_def
      map_err_def Let_def)
    (simp add: sample_details_def details_new_def tls_default_def with_role_def with_tls_def with_extensions_def params_new_def)

theorem connection_carries_the_profile_witness:
  "\<exists>ps. connection_params_for no_case sample_connect_profile sample_connect_settings None sample_binding = Inr ps \<and>
     params_tls ps = TlsDisabled \<and> connect_timeout ps = None \<and> params_credentials ps = ExternalCredentials"
proof -
  from sample_connection obtain ps where
    ps: "connection_params_for no_case sample_connect_profile sample_connect_settings None sample_binding = Inr ps" by blast
  from connection_carries_the_profile[OF ps] have "params_tls ps \<noteq> TlsRequired" "connect_timeout ps = None"
    "params_credentials ps = ExternalCredentials"
    by (auto simp: sample_connect_profile_def sample_details_def details_new_def tls_default_def sample_connect_settings_def
        split: credentials.splits)
  with ps show ?thesis by (cases "params_tls ps") auto
qed

end
