(* ===== verification/Oracle_Classify.thy ===== *)
theory Oracle_Classify
  imports Execution_Outcome
begin

text \<open>
  \<^verbatim>\<open>crates/drivers/oracle-thin/src/classify.rs\<close>: the kind of a statement from its leading
  keywords, and the transcription of the protocol client's own rule for the statements that
  return rows, which the driver checks its classification against.

  A position in the text is the suffix that starts there, so that \<^verbatim>\<open>position += 1\<close> drops a
  character.  The Unicode tables are the parameters \<open>u\<close> (classes, as in the lexer) and \<open>up\<close>, the
  upper-case expansion of one character.
\<close>

section \<open>Searching\<close>

text \<open>\<^verbatim>\<open>find\<close> of a character, and what follows it; nothing follows a character that is not there.\<close>

definition after_char :: "uchar \<Rightarrow> ustr \<Rightarrow> ustr" where
  "after_char c s = drop 1 (dropWhile (\<lambda>x. x \<noteq> c) s)"

fun after_comment :: "ustr \<Rightarrow> ustr" where
  "after_comment (c # d # s) = (if c = 42 \<and> d = 47 then s else after_comment (d # s))"
| "after_comment _ = []"

lemma length_after_char [termination_simp]: "length (after_char c s) \<le> length s"
  using length_dropWhile_le [of "\<lambda>x. x \<noteq> c" s] by (simp add: after_char_def)

lemma length_after_comment [termination_simp]: "length (after_comment s) \<le> length s"
  by (induction s rule: after_comment.induct) auto

definition is_ascii_alphabetic :: "uchar \<Rightarrow> bool" where
  "is_ascii_alphabetic c \<longleftrightarrow> 65 \<le> c \<and> c \<le> 90 \<or> 97 \<le> c \<and> c \<le> 122"

definition to_uppercase :: "(uchar \<Rightarrow> ustr) \<Rightarrow> ustr \<Rightarrow> ustr" where
  "to_uppercase up s = concat (map up s)"

section \<open>The leading keywords\<close>

record keyword_scan =
  kw_rest :: ustr
  at_first :: bool

definition keywords_new :: "ustr \<Rightarrow> keyword_scan" where
  "keywords_new sql = \<lparr>kw_rest = sql, at_first = True\<rparr>"

definition trim_mark :: "ustr \<Rightarrow> ustr" where
  "trim_mark s = dropWhile is_whitespace (dropWhile (\<lambda>c. c = 0xFEFF) s)"

lemma length_trim_mark [termination_simp]: "length (trim_mark s) \<le> length s"
  unfolding trim_mark_def using length_dropWhile_le le_trans by blast

function skip_noise :: "ustr \<Rightarrow> ustr" where
  "skip_noise s =
     (let s = trim_mark s in
      if starts_with s [45, 45] then skip_noise (after_char 10 (drop 2 s))
      else if starts_with s [47, 42] then skip_noise (after_comment (drop 2 s))
      else s)"
  by pat_completeness auto

termination skip_noise
proof (relation "measure length", goal_cases)
  case (2 s x)
  then have "2 \<le> length x" by (auto simp: starts_with_iff)
  then show ?case using length_after_char [of 10 "drop 2 x"] length_trim_mark [of s] 2 by simp
next
  case (3 s x)
  then have "2 \<le> length x" by (auto simp: starts_with_iff)
  then show ?case using length_after_comment [of "drop 2 x"] length_trim_mark [of s] 3 by simp
qed simp

declare skip_noise.simps [simp del]

lemma length_skip_noise [termination_simp]: "length (skip_noise s) \<le> length s"
proof (induction s rule: skip_noise.induct)
  case (1 s)
  have "length (after_char 10 (drop 2 (trim_mark s))) \<le> length s" "length (after_comment (drop 2 (trim_mark s))) \<le> length s"
    using length_after_char [of 10 "drop 2 (trim_mark s)"] length_after_comment [of "drop 2 (trim_mark s)"]
      length_trim_mark [of s] by simp_all
  then show ?case using 1 length_trim_mark [of s] by (subst skip_noise.simps) (auto simp: Let_def intro: le_trans)
qed

function first_word :: "(uchar \<Rightarrow> ustr) \<Rightarrow> ustr \<Rightarrow> ustr option \<times> ustr" where
  "first_word up s =
     (case skip_noise s of
        [] \<Rightarrow> (None, [])
      | c # cs \<Rightarrow>
          if is_ascii_alphabetic c
          then (Some (to_uppercase up (takeWhile is_ascii_alphabetic (c # cs))), dropWhile is_ascii_alphabetic (c # cs))
          else if c = 39 \<or> c = 34 then first_word up (after_char c cs)
          else first_word up cs)"
  by pat_completeness auto

termination first_word
proof (relation "measure (length \<circ> snd)", goal_cases)
  case (2 up s c cs)
  then show ?case using length_skip_noise [of s] length_after_char [of c cs] by simp
next
  case (3 up s c cs)
  then show ?case using length_skip_noise [of s] by simp
qed simp

declare first_word.simps [simp del]

definition next_keyword :: "unicode \<Rightarrow> (uchar \<Rightarrow> ustr) \<Rightarrow> keyword_scan \<Rightarrow> ustr option \<times> keyword_scan" where
  "next_keyword u up k =
     (if at_first k
      then (case first_word up (kw_rest k) of (w, r) \<Rightarrow> (w, \<lparr>kw_rest = r, at_first = False\<rparr>))
      else let r = skip_noise (kw_rest k);
               word = (\<lambda>c. is_alphanumeric u c \<or> c = 95 \<or> c = 36 \<or> c = 35)
           in if r = [] \<or> takeWhile word r = [] then (None, k\<lparr>kw_rest := r\<rparr>)
              else (Some (to_uppercase up (takeWhile word r)), k\<lparr>kw_rest := dropWhile word r\<rparr>))"

section \<open>Classification\<close>

record classification =
  class_kind :: statement_kind
  returns_rows :: bool
  is_plsql :: bool

definition classification_new :: "statement_kind \<Rightarrow> bool \<Rightarrow> bool \<Rightarrow> classification" where
  "classification_new k rows plsql = \<lparr>class_kind = k, returns_rows = rows, is_plsql = plsql\<rparr>"

definition one_of :: "ustr \<Rightarrow> string list \<Rightarrow> bool" where
  "one_of w ws \<longleftrightarrow> list_ex (\<lambda>x. w = us x) ws"

definition classify :: "unicode \<Rightarrow> (uchar \<Rightarrow> ustr) \<Rightarrow> ustr \<Rightarrow> classification" where
  "classify u up sql =
     (case next_keyword u up (keywords_new sql) of
        (None, _) \<Rightarrow> classification_new OtherStatement False False
      | (Some w, k) \<Rightarrow>
          if one_of w [''SELECT'', ''WITH''] then classification_new Query True False
          else if one_of w [''INSERT'', ''UPDATE'', ''DELETE'', ''MERGE''] then classification_new Dml False False
          else if one_of w [''BEGIN'', ''DECLARE'', ''CALL''] then classification_new PlSqlBlock False True
          else if one_of w [''COMMIT'', ''ROLLBACK'', ''SAVEPOINT''] then classification_new TransactionControl False False
          else if one_of w [''SET''] then
            (case fst (next_keyword u up k) of
               Some v \<Rightarrow>
                 if one_of v [''TRANSACTION'', ''CONSTRAINT'', ''CONSTRAINTS'']
                 then classification_new TransactionControl False False
                 else if one_of v [''ROLE''] then classification_new SessionControl False False
                 else classification_new OtherStatement False False
             | None \<Rightarrow> classification_new OtherStatement False False)
          else if one_of w [''ALTER''] then
            (case fst (next_keyword u up k) of
               Some v \<Rightarrow>
                 if one_of v [''SESSION'', ''SYSTEM''] then classification_new SessionControl False False
                 else classification_new Ddl False False
             | None \<Rightarrow> classification_new Ddl False False)
          else if one_of w [''CREATE'', ''DROP'', ''GRANT'', ''REVOKE'', ''TRUNCATE'', ''COMMENT'', ''ANALYZE'', ''AUDIT'',
              ''NOAUDIT'', ''RENAME'', ''FLASHBACK'', ''PURGE'', ''ASSOCIATE'', ''DISASSOCIATE'']
          then classification_new Ddl False False
          else classification_new OtherStatement False False)"

section \<open>The client's own rule\<close>

definition is_row_keyword :: "(uchar \<Rightarrow> ustr) \<Rightarrow> ustr \<Rightarrow> bool" where
  "is_row_keyword up w \<longleftrightarrow> one_of (to_uppercase up w) [''SELECT'', ''WITH'']"

text \<open>The scan for the end of a block comment: the position it leaves, one before the next.\<close>

fun skip_comment :: "ustr \<Rightarrow> ustr" where
  "skip_comment (c # d # s) = (if c = 42 \<and> d = 47 then d # s else skip_comment (d # s))"
| "skip_comment _ = []"

text \<open>Where one turn of the loop leaves the position.\<close>

definition upstream_skip :: "uchar \<Rightarrow> uchar \<Rightarrow> ustr \<Rightarrow> ustr" where
  "upstream_skip last_ch ch s =
     (if ch = 39 then dropWhile (\<lambda>x. x \<noteq> 39) s
      else if is_whitespace ch then ch # s
      else if ch = 45 \<and> last_ch = 45 then dropWhile (\<lambda>x. x \<noteq> 10) s
      else if ch = 42 \<and> last_ch = 47 then skip_comment s
      else if ch = 34 then dropWhile (\<lambda>x. x \<noteq> 34) s
      else ch # s)"

lemma length_skip_comment: "length (skip_comment s) \<le> length s"
  by (induction s rule: skip_comment.induct) auto

lemma length_upstream_skip: "length (upstream_skip lc c s) \<le> Suc (length s)"
  using length_skip_comment [of s] length_dropWhile_le [of "\<lambda>x. x \<noteq> 39" s] length_dropWhile_le [of "\<lambda>x. x \<noteq> 10" s]
    length_dropWhile_le [of "\<lambda>x. x \<noteq> 34" s] by (auto simp: upstream_skip_def)

function upstream_loop :: "(uchar \<Rightarrow> ustr) \<Rightarrow> ustr \<Rightarrow> ustr option \<Rightarrow> bool \<Rightarrow> uchar \<Rightarrow> bool" where
  "upstream_loop up [] keyword_start last_was_alpha last_ch =
     (case keyword_start of
        Some from \<Rightarrow> last_was_alpha \<and> is_row_keyword up from
      | None \<Rightarrow> False)"
| "upstream_loop up (ch # s) keyword_start last_was_alpha last_ch =
     (let is_alpha = is_ascii_alphabetic ch
      in if \<not> is_alpha \<and> last_was_alpha
         then let from = (case keyword_start of Some from \<Rightarrow> from | None \<Rightarrow> ch # s)
              in is_row_keyword up (take (length from - length (ch # s)) from)
         else upstream_loop up (drop 1 (upstream_skip last_ch ch s))
                (if is_alpha \<and> \<not> last_was_alpha then Some (ch # s) else keyword_start) is_alpha ch)"
  by pat_completeness auto

termination upstream_loop
proof (relation "measure (\<lambda>(_, s, _). length s)", goal_cases)
  case (2 up ch s)
  have "length (upstream_skip lc ch s) - Suc 0 < Suc (length s)" for lc
    using length_upstream_skip [of lc ch s] by linarith
  then show ?case by simp
qed simp

declare upstream_loop.simps(2) [simp del]

definition upstream_would_return_rows :: "(uchar \<Rightarrow> ustr) \<Rightarrow> ustr \<Rightarrow> bool" where
  "upstream_would_return_rows up sql = upstream_loop up sql None False 32"

section \<open>Both rules find the same word\<close>

text \<open>The first keyword, as the driver means it.\<close>

function leading_word :: "ustr \<Rightarrow> ustr option" where
  "leading_word [] = None"
| "leading_word (c # cs) =
     (if is_ascii_alphabetic c then Some (takeWhile is_ascii_alphabetic (c # cs))
      else if c = 39 \<or> c = 34 then leading_word (after_char c cs)
      else if c = 45 \<and> starts_with cs [45] then leading_word (after_char 10 (drop 1 cs))
      else if c = 47 \<and> starts_with cs [42] then leading_word (after_comment (drop 1 cs))
      else leading_word cs)"
  by pat_completeness auto

termination leading_word
proof (relation "measure length", goal_cases)
  case (2 c cs)
  then show ?case using length_after_char [of c cs] by simp
next
  case (3 c cs)
  then show ?case using length_after_char [of 10 "drop 1 cs"] by simp
next
  case (4 c cs)
  then show ?case using length_after_comment [of "drop 1 cs"] by simp
qed simp_all

lemma leading_word_skip:
  "\<not> is_ascii_alphabetic c \<Longrightarrow> c \<notin> {34, 39, 45, 47} \<Longrightarrow> leading_word (c # cs) = leading_word cs"
  by simp

lemma white_or_mark: "is_whitespace c \<or> c = 0xFEFF \<Longrightarrow> \<not> is_ascii_alphabetic c \<and> c \<notin> {34, 39, 45, 47}"
  by (auto simp: is_whitespace_def is_ascii_alphabetic_def)

lemma leading_word_dropWhile:
  "(\<And>c. P c \<Longrightarrow> is_whitespace c \<or> c = 0xFEFF) \<Longrightarrow> leading_word (dropWhile P s) = leading_word s"
proof (induction s)
  case (Cons c cs)
  then show ?case using white_or_mark [of c] leading_word_skip [of c cs] by (cases "P c") (simp_all del: leading_word.simps(2))
qed simp

lemma leading_word_trim_mark: "leading_word (trim_mark s) = leading_word s"
  by (simp add: trim_mark_def leading_word_dropWhile)

lemma leading_word_noise: "leading_word (skip_noise s) = leading_word s"
proof (induction s rule: skip_noise.induct)
  case (1 s)
  let ?t = "trim_mark s"
  have d: "leading_word ?t = leading_word (after_char 10 (drop 2 ?t))" if t: "starts_with ?t [45, 45]"
    using t by (auto simp: starts_with_iff is_ascii_alphabetic_def)
  have b: "leading_word ?t = leading_word (after_comment (drop 2 ?t))" if t: "starts_with ?t [47, 42]"
    using t by (auto simp: starts_with_iff is_ascii_alphabetic_def)
  show ?case using 1 d b leading_word_trim_mark [of s] by (subst skip_noise.simps) (auto simp: Let_def simp del: leading_word.simps)
qed

lemma skip_noise_head: "skip_noise s = c # cs \<Longrightarrow> \<not> (c = 45 \<and> starts_with cs [45]) \<and> \<not> (c = 47 \<and> starts_with cs [42])"
proof (induction s rule: skip_noise.induct)
  case (1 s)
  then show ?case using 1(3) by (subst (asm) (3) skip_noise.simps) (auto simp: Let_def starts_with_iff split: if_splits)
qed

lemma first_word_leading: "fst (first_word up s) = map_option (to_uppercase up) (leading_word s)"
proof (induction s rule: first_word.induct)
  case (1 up s)
  show ?case
  proof (cases "skip_noise s")
    case Nil
    then show ?thesis using leading_word_noise [of s] by (subst first_word.simps) simp
  next
    case (Cons c cs)
    have "leading_word s = leading_word (c # cs)" using leading_word_noise [of s] Cons by simp
    then show ?thesis using Cons 1 skip_noise_head [OF Cons] by (subst first_word.simps) auto
  qed
qed

text \<open>
  The client's rule looks back one character instead of ahead.  It forgets to look at the new line
  after a comment, so that a dash that begins the next line starts a comment by itself; \<open>paired\<close>
  says that no line begins with a single dash.
\<close>

fun paired :: "ustr \<Rightarrow> bool" where
  "paired [] = True"
| "paired (c # cs) = (\<not> (c = 10 \<and> starts_with cs [45] \<and> \<not> starts_with cs [45, 45]) \<and> paired cs)"

lemma paired_append: "paired (xs @ ys) \<Longrightarrow> paired ys"
  by (induction xs) auto

lemma after_char_suffix: "\<exists>xs. s = xs @ after_char c s"
  by (metis after_char_def append.assoc append_take_drop_id takeWhile_dropWhile_id)

lemma after_comment_suffix: "\<exists>xs. s = xs @ after_comment s"
proof (induction s rule: after_comment.induct)
  case (1 c d s)
  show ?case
  proof (cases "c = 42 \<and> d = 47")
    case True
    then show ?thesis by (auto intro: exI [of _ "[c, d]"])
  next
    case False
    with 1 obtain xs where "d # s = xs @ after_comment (d # s)" by blast
    then show ?thesis using False by (intro exI [of _ "c # xs"]) auto
  qed
qed auto

lemma paired_after: "paired s \<Longrightarrow> paired (after_char c s)" "paired s \<Longrightarrow> paired (after_comment s)"
  using paired_append after_char_suffix [of s c] after_comment_suffix [of s] by metis+

lemma paired_line:
  assumes "paired s"
  shows "starts_with (after_char 10 s) [45] \<longrightarrow> starts_with (after_char 10 s) [45, 45]"
proof (cases "dropWhile (\<lambda>x. x \<noteq> 10) s")
  case (Cons c cs)
  then have "c = 10" by (metis (mono_tags, lifting) hd_dropWhile list.sel(1) list.simps(3))
  moreover obtain xs where "s = xs @ c # cs" using Cons by (metis takeWhile_dropWhile_id)
  ultimately have "paired (10 # cs)" using assms paired_append by blast
  then show ?thesis using Cons by (auto simp: after_char_def)
next
  case Nil
  then show ?thesis by (simp only: after_char_def) simp
qed

lemma skip_comment_after: "drop 1 (skip_comment s) = after_comment s"
  by (induction s rule: after_comment.induct) auto

text \<open>The character before the position does not change what begins there.\<close>

definition clear_of :: "uchar \<Rightarrow> ustr \<Rightarrow> bool" where
  "clear_of lc s \<longleftrightarrow> (lc = 45 \<longrightarrow> starts_with s [45] \<longrightarrow> starts_with s [45, 45]) \<and> (lc = 47 \<longrightarrow> \<not> starts_with s [42])"

lemma upstream_run:
  assumes "list_all is_ascii_alphabetic xs" and "xs \<noteq> []"
  shows "upstream_loop up s (Some (xs @ s)) True lc = is_row_keyword up (xs @ takeWhile is_ascii_alphabetic s)"
  using assms
proof (induction s arbitrary: xs lc)
  case (Cons c s)
  show ?case
  proof (cases "is_ascii_alphabetic c")
    case True
    then have "upstream_skip lc c s = c # s" by (auto simp: upstream_skip_def is_ascii_alphabetic_def)
    then show ?thesis using Cons(1) [of "xs @ [c]" c] Cons(2,3) True by (simp add: upstream_loop.simps(2))
  next
    case False
    then show ?thesis by (simp add: upstream_loop.simps(2))
  qed
qed simp

lemma upstream_word:
  assumes "is_ascii_alphabetic c"
  shows "upstream_loop up (c # s) None False lc = is_row_keyword up (takeWhile is_ascii_alphabetic (c # s))"
proof -
  have "upstream_skip lc c s = c # s" using assms by (auto simp: upstream_skip_def is_ascii_alphabetic_def)
  then show ?thesis using assms upstream_run [of "[c]" up s c] by (simp add: upstream_loop.simps(2))
qed

lemma upstream_skips:
  "\<not> is_ascii_alphabetic c \<Longrightarrow>
   upstream_loop up (c # s) None False lc = upstream_loop up (drop 1 (upstream_skip lc c s)) None False c"
  by (simp add: upstream_loop.simps(2))

lemma upstream_leading:
  "paired s \<Longrightarrow> clear_of lc s \<Longrightarrow>
   upstream_loop up s None False lc = (case leading_word s of None \<Rightarrow> False | Some w \<Rightarrow> is_row_keyword up w)"
proof (induction "length s" arbitrary: s lc rule: less_induct)
  case less
  show ?case
  proof (cases s)
    case (Cons c cs)
    have p: "paired cs" using less(2) Cons by simp
    have ih: "upstream_loop up t None False l = (case leading_word t of None \<Rightarrow> False | Some w \<Rightarrow> is_row_keyword up w)"
      if "length t \<le> length cs" "paired t" "clear_of l t" for t l
      using less(1) [of t l] that Cons by simp
    have line: "upstream_loop up (after_char 10 ds) None False 45 =
        (case leading_word (after_char 10 ds) of None \<Rightarrow> False | Some w \<Rightarrow> is_row_keyword up w)"
      if "length ds \<le> length cs" "paired ds" for ds
      using that paired_line [of ds] paired_after(1) [of ds 10] length_after_char [of 10 ds]
      by (intro ih) (auto simp: clear_of_def)
    have n45: "\<not> is_ascii_alphabetic 45" "\<not> is_ascii_alphabetic 47" "\<not> is_ascii_alphabetic 42" by (simp_all add: is_ascii_alphabetic_def)
    have dashes: "upstream_loop up (45 # ds) None False 45 = upstream_loop up (after_char 10 ds) None False 45" for ds
      by (simp add: upstream_skips n45 upstream_skip_def is_whitespace_def after_char_def)
    consider "is_ascii_alphabetic c" | "\<not> is_ascii_alphabetic c" "c = 39 \<or> c = 34" | "c = 45" | "c = 47" | "c = 42"
      | "\<not> is_ascii_alphabetic c" "c \<notin> {34, 39, 42, 45, 47}" by blast
    then show ?thesis
    proof cases
      case 1
      then show ?thesis using Cons by (simp add: upstream_word)
    next
      case 2
      then have "upstream_loop up s None False lc = upstream_loop up (after_char c cs) None False c"
        unfolding Cons upstream_skips [OF 2(1)] by (auto simp: upstream_skip_def is_whitespace_def after_char_def)
      also have "\<dots> = (case leading_word (after_char c cs) of None \<Rightarrow> False | Some w \<Rightarrow> is_row_keyword up w)"
        using 2 p paired_after(1) length_after_char by (intro ih) (auto simp: clear_of_def)
      finally show ?thesis using 2 Cons by auto
    next
      case 3
      show ?thesis
      proof (cases "starts_with cs [45]")
        case True
        then obtain ds where ds: "cs = 45 # ds" by (auto simp: starts_with_iff)
        have "upstream_loop up s None False lc = upstream_loop up (after_char 10 ds) None False 45"
        proof (cases "lc = 45")
          case True
          then show ?thesis using Cons ds 3 dashes [of cs] by (simp add: after_char_def)
        next
          case False
          then show ?thesis unfolding Cons 3 ds upstream_skips [OF n45(1)]
            by (simp add: upstream_skip_def is_whitespace_def dashes)
        qed
        then show ?thesis using line [of ds] p Cons 3 ds n45 by simp
      next
        case False
        then have "lc \<noteq> 45" using less(3) Cons 3 by (auto simp: clear_of_def)
        then have "upstream_loop up s None False lc = upstream_loop up cs None False 45"
          unfolding Cons 3 upstream_skips [OF n45(1)] by (simp add: upstream_skip_def is_whitespace_def)
        then show ?thesis using ih [of cs 45] p False Cons 3 n45 by (simp add: clear_of_def)
      qed
    next
      case 4
      then have u: "upstream_loop up s None False lc = upstream_loop up cs None False 47"
        unfolding Cons 4 upstream_skips [OF n45(2)] by (simp add: upstream_skip_def is_whitespace_def)
      show ?thesis
      proof (cases "starts_with cs [42]")
        case True
        then obtain ds where ds: "cs = 42 # ds" by (auto simp: starts_with_iff)
        have "upstream_loop up cs None False 47 = upstream_loop up (after_comment ds) None False 42"
          unfolding ds upstream_skips [OF n45(3)] by (simp add: upstream_skip_def is_whitespace_def skip_comment_after [simplified])
        also have "\<dots> = (case leading_word (after_comment ds) of None \<Rightarrow> False | Some w \<Rightarrow> is_row_keyword up w)"
          using p ds paired_after(2) [of ds] length_after_comment [of ds] by (intro ih) (auto simp: clear_of_def)
        finally show ?thesis using u Cons 4 ds n45 by simp
      next
        case False
        then show ?thesis using u ih [of cs 47] p Cons 4 n45 by (simp add: clear_of_def)
      qed
    next
      case 5
      then have "lc \<noteq> 47" using less(3) Cons by (auto simp: clear_of_def)
      then have "upstream_loop up s None False lc = upstream_loop up cs None False 42"
        unfolding Cons 5 upstream_skips [OF n45(3)] by (simp add: upstream_skip_def is_whitespace_def)
      then show ?thesis using ih [of cs 42] p Cons 5 n45 by (simp add: clear_of_def)
    next
      case 6
      then have "upstream_loop up s None False lc = upstream_loop up cs None False c"
        unfolding Cons upstream_skips [OF 6(1)] by (auto simp: upstream_skip_def)
      then show ?thesis using ih [of cs c] p Cons 6 by (simp add: clear_of_def)
    qed
  qed simp
qed

definition ascii_upper :: "uchar \<Rightarrow> ustr" where
  "ascii_upper c = [if 97 \<le> c \<and> c \<le> 122 then c - 32 else c]"

lemma returns_rows_word:
  "returns_rows (classify u up sql) = (case leading_word sql of None \<Rightarrow> False | Some w \<Rightarrow> is_row_keyword up w)"
proof -
  obtain w r where f: "first_word up sql = (w, r)" by fastforce
  then have "w = map_option (to_uppercase up) (leading_word sql)" using first_word_leading [of up sql] by simp
  then show ?thesis using f
    by (cases "leading_word sql")
      (auto simp: classify_def next_keyword_def keywords_new_def classification_new_def is_row_keyword_def split: option.split)
qed

text \<open>
  C9. No rows are lost to classification: on every text in which no line begins with a single dash,
  whatever comments, quoted names and punctuation come first, the driver sends a statement down the
  path that returns rows exactly when the client's own rule says it returns some.
\<close>

theorem classifier_agrees_with_client:
  assumes "paired sql"
  shows "returns_rows (classify u up sql) = upstream_would_return_rows up sql"
  using upstream_leading [OF assms, of 32 up] by (simp add: returns_rows_word upstream_would_return_rows_def clear_of_def)

theorem classifier_agrees_with_client_witness:
  "upstream_would_return_rows ascii_upper (us ''-- a'' @ [10] @ us ''--b'' @ [10] @ us ''(/* c */ select 1)'') = True"
proof -
  have "returns_rows (classify ascii_unicode ascii_upper (us ''-- a'' @ [10] @ us ''--b'' @ [10] @ us ''(/* c */ select 1)'')) = True"
    by code_simp
  moreover have "paired (us ''-- a'' @ [10] @ us ''--b'' @ [10] @ us ''(/* c */ select 1)'')" by code_simp
  ultimately show ?thesis using classifier_agrees_with_client by metis
qed

text \<open>
  Without that condition the two rules differ: after a comment line, a line that begins with one
  dash is a comment to the client and punctuation to the classifier.
\<close>

lemma classifier_misses_dash_line:
  "upstream_would_return_rows ascii_upper (us ''--'' @ [10] @ us ''-x'' @ [10] @ us ''select 1'') = True \<and>
   returns_rows (classify ascii_unicode ascii_upper (us ''--'' @ [10] @ us ''-x'' @ [10] @ us ''select 1'')) = False"
  by (intro conjI; code_simp)

end
