(* ===== verification/Oracle_Rewrite.thy ===== *)
theory Oracle_Rewrite
  imports Oracle_Classify
begin

text \<open>
  \<^verbatim>\<open>crates/drivers/oracle-thin/src/rewrite.rs\<close>: what the driver sends in place of a trigger
  definition whose body the protocol client would misread as carrying bind placeholders, with the
  transcription of the client's scan for placeholders.  As in \<open>Oracle_Classify\<close> a position in the
  text is the suffix that starts there.
\<close>

section \<open>Detection\<close>

datatype rewritable = Trigger

fun what :: "rewritable \<Rightarrow> ustr" where
  "what Trigger = us ''CREATE TRIGGER''"

definition detect :: "unicode \<Rightarrow> (uchar \<Rightarrow> ustr) \<Rightarrow> ustr \<Rightarrow> rewritable option" where
  "detect u up sql =
     (case next_keyword u up (keywords_new sql) of
        (w1, k) \<Rightarrow>
          if w1 \<noteq> Some (us ''CREATE'') then None
          else (case next_keyword u up k of
            (w2, k) \<Rightarrow>
              (case (if w2 = Some (us ''OR'')
                     then (case next_keyword u up k of
                             (w3, k) \<Rightarrow> if w3 \<noteq> Some (us ''REPLACE'') then None else Some (next_keyword u up k))
                     else Some (w2, k)) of
                 None \<Rightarrow> None
               | Some (word, k) \<Rightarrow>
                   let word = (if word = Some (us ''EDITIONABLE'') \<or> word = Some (us ''NONEDITIONABLE'')
                               then fst (next_keyword u up k) else word)
                   in if word = Some (us ''TRIGGER'') then Some Trigger else None)))"

section \<open>Normalisation\<close>

definition strip_sqlplus_terminator :: "ustr \<Rightarrow> ustr" where
  "strip_sqlplus_terminator sql =
     (let trimmed = trim_end sql in
      case rfind_char 10 trimmed of
        None \<Rightarrow> trimmed
      | Some last_line \<Rightarrow>
          if trim (drop_bytes (last_line + 1) trimmed) = [47] then trim_end (take_bytes last_line trimmed) else trimmed)"

definition is_identifier_char :: "unicode \<Rightarrow> uchar \<Rightarrow> bool" where
  "is_identifier_char u c \<longleftrightarrow> is_alphanumeric u c \<or> c = 95 \<or> c = 36 \<or> c = 35"

definition split_last_word :: "unicode \<Rightarrow> ustr \<Rightarrow> ustr \<times> ustr" where
  "split_last_word u text =
     (rev (dropWhile (is_identifier_char u) (rev text)), rev (takeWhile (is_identifier_char u) (rev text)))"

definition closes_a_plsql_block :: "unicode \<Rightarrow> ustr \<Rightarrow> bool" where
  "closes_a_plsql_block u text =
     (let text = trim_end text in
      if text \<noteq> [] \<and> last text = 34 then True
      else case split_last_word u text of
        (before_last, final) \<Rightarrow>
          if eq_ignore_ascii_case final (us ''END'') then True
          else if final = [] then False
          else eq_ignore_ascii_case (snd (split_last_word u (trim_end before_last))) (us ''END''))"

definition strip_statement_terminator :: "unicode \<Rightarrow> ustr \<Rightarrow> ustr" where
  "strip_statement_terminator u text =
     (if text \<noteq> [] \<and> last text = 59 \<and> \<not> closes_a_plsql_block u (butlast text) then trim_end (butlast text) else text)"

definition normalize_sql :: "unicode \<Rightarrow> ustr \<Rightarrow> ustr" where
  "normalize_sql u sql = strip_statement_terminator u (strip_sqlplus_terminator sql)"

section \<open>Wrapping\<close>

definition MAX_WRAPPED_BYTES :: nat where "MAX_WRAPPED_BYTES = 32767"

definition DELIMITERS :: "uchar list" where
  "DELIMITERS = us ''[{<(!~^#|+@$''"

definition closing :: "uchar \<Rightarrow> uchar" where
  "closing d = (if d = 91 then 93 else if d = 123 then 125 else if d = 60 then 62 else if d = 40 then 41 else d)"

definition closing_sequence :: "uchar \<Rightarrow> ustr" where
  "closing_sequence d = [closing d, 39]"

fun contains :: "ustr \<Rightarrow> ustr \<Rightarrow> bool" where
  "contains [] p = (p = [])"
| "contains (c # cs) p = (starts_with (c # cs) p \<or> contains cs p)"

definition double_quotes :: "ustr \<Rightarrow> ustr" where
  "double_quotes s = concat (map (\<lambda>c. if c = 39 then [39, 39] else [c]) s)"

definition wrap_literal :: "ustr \<Rightarrow> ustr" where
  "wrap_literal body =
     (case find (\<lambda>d. \<not> contains body (closing_sequence d)) DELIMITERS of
        Some d \<Rightarrow> [113, 39, d] @ body @ [closing d, 39]
      | None \<Rightarrow> [39] @ double_quotes body @ [39])"

definition wrap :: "ustr \<Rightarrow> ustr" where
  "wrap body = us ''BEGIN EXECUTE IMMEDIATE '' @ wrap_literal body @ us ''; END;''"

section \<open>The client's scan for placeholders\<close>

text \<open>The position on the closing quote.\<close>

definition skip_quoted :: "uchar \<Rightarrow> ustr \<Rightarrow> ustr" where
  "skip_quoted q s = dropWhile (\<lambda>c. c \<noteq> q) s"

fun skip_q_body :: "uchar \<Rightarrow> ustr \<Rightarrow> ustr" where
  "skip_q_body e [] = []"
| "skip_q_body e (c # s) = (if c = e \<and> starts_with s [39] then s else skip_q_body e s)"

definition skip_q_string :: "ustr \<Rightarrow> ustr" where
  "skip_q_string s = (case s of [] \<Rightarrow> [] | d # s' \<Rightarrow> skip_q_body (closing d) s')"

definition skip_to_end_of_line :: "ustr \<Rightarrow> ustr" where
  "skip_to_end_of_line s = drop 1 (dropWhile (\<lambda>c. c \<noteq> 10) s)"

fun skip_block_comment :: "uchar \<Rightarrow> ustr \<Rightarrow> ustr" where
  "skip_block_comment previous [] = []"
| "skip_block_comment previous (c # s) = (if c = 47 \<and> previous = 42 then c # s else skip_block_comment c s)"

fun names_a_bind :: "unicode \<Rightarrow> ustr \<Rightarrow> bool" where
  "names_a_bind u [] = False"
| "names_a_bind u (c # s) =
     (if is_whitespace c then names_a_bind u s else c = 34 \<or> is_ascii_digit c \<or> is_alphabetic u c)"

text \<open>Where one turn leaves the position, before the step to the next character.\<close>

definition scan_skip :: "uchar \<Rightarrow> uchar \<Rightarrow> ustr \<Rightarrow> ustr" where
  "scan_skip last_ch ch s =
     (if ch = 39 then (if last_ch = 113 \<or> last_ch = 81 then skip_q_string s else skip_quoted 39 s)
      else if is_whitespace ch then ch # s
      else if ch = 45 \<and> last_ch = 45 then skip_to_end_of_line (ch # s)
      else if ch = 42 \<and> last_ch = 47 then skip_block_comment 32 s
      else if ch = 34 then skip_quoted 34 s
      else ch # s)"

lemma length_skip_q_body: "length (skip_q_body e s) \<le> length s"
  by (induction s) auto

lemma length_skip_block_comment: "length (skip_block_comment p s) \<le> length s"
  by (induction p s rule: skip_block_comment.induct) auto

lemma length_scan_skip: "length (scan_skip lc c s) \<le> Suc (length s)"
proof -
  have "length (skip_q_string s) \<le> Suc (length s)"
    using length_skip_q_body by (auto simp: skip_q_string_def le_SucI split: list.split)
  moreover have "length (dropWhile P s) \<le> Suc (length s)" for P using length_dropWhile_le [of P s] by simp
  moreover have "length (skip_to_end_of_line (c # s)) \<le> Suc (length s)"
    using length_dropWhile_le [of "\<lambda>c. c \<noteq> 10" "c # s"] by (simp only: skip_to_end_of_line_def length_drop list.size)
  ultimately show ?thesis using length_skip_block_comment [of 32 s]
    by (auto simp: scan_skip_def skip_quoted_def)
qed

function placeholder_loop :: "unicode \<Rightarrow> ustr \<Rightarrow> bool \<Rightarrow> uchar \<Rightarrow> bool" where
  "placeholder_loop u [] last_was_string last_ch = False"
| "placeholder_loop u (ch # s) last_was_string last_ch =
     (if ch = 58 \<and> \<not> last_was_string \<and> names_a_bind u s then True
      else placeholder_loop u (drop 1 (scan_skip last_ch ch s))
             (if ch = 39 then True else if is_whitespace ch then last_was_string else False) ch)"
  by pat_completeness auto

termination placeholder_loop
proof (relation "measure (\<lambda>(_, s, _). length s)", goal_cases)
  case (2 u ch s)
  have "length (scan_skip lc ch s) - Suc 0 < Suc (length s)" for lc
    using length_scan_skip [of lc ch s] by linarith
  then show ?case by simp
qed simp

declare placeholder_loop.simps(2) [simp del]

definition upstream_finds_a_bind_placeholder :: "unicode \<Rightarrow> ustr \<Rightarrow> bool" where
  "upstream_finds_a_bind_placeholder u sql = placeholder_loop u sql False 32"

section \<open>The plan\<close>

record rewrite =
  rewrite_kind :: rewritable
  rewrite_text :: ustr

datatype plan = AsSubmitted | Trimmed ustr | Wrapped rewrite


fun wrapped :: "plan \<Rightarrow> rewrite option" where
  "wrapped (Wrapped r) = Some r"
| "wrapped _ = None"

definition too_large :: "rewritable \<Rightarrow> nat \<Rightarrow> db_error" where
  "too_large k n = error_new UnsupportedKind
     (us ''this '' @ what k @ us '' statement is '' @ nat_text n @ us '' bytes, and the only way this driver can submit a trigger body containing `:NEW` or `:OLD` is inside `EXECUTE IMMEDIATE q'' @ [39, 0x2026, 39] @ us ''`, whose PL/SQL string literal can be worth at most '' @ nat_text MAX_WRAPPED_BYTES @
      us '' bytes (upstream gap U-18: the Oracle crate reads those as bind placeholders and offers no way to stop it). It is the trigger text itself that has to fit; how long the literal is written out does not matter. Shorten the trigger '' @ [0x2014] @
      us '' moving its body into a package procedure the trigger calls is the usual way '' @ [0x2014] @ us '' or create it with another client'')"

definition plan_of :: "unicode \<Rightarrow> (uchar \<Rightarrow> ustr) \<Rightarrow> ustr \<Rightarrow> db_error + plan" where
  "plan_of u up sql =
     (case detect u up sql of
        None \<Rightarrow> Inr AsSubmitted
      | Some k \<Rightarrow>
          let body = normalize_sql u sql
          in if \<not> upstream_finds_a_bind_placeholder u body
             then Inr (if byte_len body = byte_len sql then AsSubmitted else Trimmed body)
             else if byte_len body > MAX_WRAPPED_BYTES then Inl (too_large k (byte_len body))
             else Inr (Wrapped \<lparr>rewrite_kind = k, rewrite_text = wrap body\<rparr>))"

section \<open>The literal is worth its body\<close>






lemma skip_q_body: "\<not> contains body [e, 39] \<Longrightarrow> e \<noteq> 39 \<Longrightarrow> skip_q_body e (body @ e # 39 # rest) = 39 # rest"
proof (induction body)
  case (Cons c cs)
  then show ?case by (cases cs) auto
qed simp

lemma double_quotes_simps [simp]:
  "double_quotes [] = []" "double_quotes (c # s) = (if c = 39 then [39, 39] else [c]) @ double_quotes s"
  "double_quotes (s @ t) = double_quotes s @ double_quotes t"
  by (simp_all add: double_quotes_def)





section \<open>The client sees nothing in it\<close>








section \<open>What normalisation removes\<close>








section \<open>Properties\<close>




text \<open>
  The rewrite refuses a statement only when it must: it is a trigger definition in which the
  client would find a placeholder and whose trimmed text is worth more bytes than a literal can be,
  and the error says which and how large it is.
\<close>

theorem rewrite_refuses_only_oversized:
  "plan_of u up sql = Inl e \<longleftrightarrow>
    (\<exists>k. detect u up sql = Some k \<and> upstream_finds_a_bind_placeholder u (normalize_sql u sql) \<and>
       MAX_WRAPPED_BYTES < byte_len (normalize_sql u sql) \<and> e = too_large k (byte_len (normalize_sql u sql)))"
  by (auto simp: plan_of_def Let_def split: option.splits)

text \<open>
  The two transcriptions of one loop of the client disagree: after a comment line the scan for
  placeholders passes over the first character of the next line, the scan for keywords does not.
\<close>

lemma transcriptions_disagree_after_comment:
  "upstream_finds_a_bind_placeholder ascii_unicode (us ''--'' @ [10] @ us '':x'') = False \<and>
   upstream_finds_a_bind_placeholder ascii_unicode (us ''--'' @ [10] @ us '' :x'') = True \<and>
   upstream_would_return_rows ascii_upper (us ''--'' @ [10] @ us ''select'') = True"
  by (intro conjI; code_simp)

end
