(* ===== verification/Oracle_Connect.thy ===== *)
theory Oracle_Connect
  imports Workspace_Connect Oracle_Rewrite
begin

text \<open>
  How the Oracle driver gets from connection parameters to a configuration of the protocol client:
  \<^verbatim>\<open>crates/drivers/oracle-thin/src/endpoint.rs\<close> (connect strings made of plain parts),
  \<^verbatim>\<open>descriptor.rs\<close> (what a descriptor asks for that cannot be enforced), the limit of
  \<^verbatim>\<open>connect_timeout.rs\<close> and \<^verbatim>\<open>build_config\<close> of \<^verbatim>\<open>conn.rs\<close>.

  The protocol client is not part of the repository: the record \<open>client\<close> is what is called of it,
  namely how it reads a connect string and how it renders what it read.
\<close>

section \<open>Connect strings of plain parts\<close>

datatype building = EasyConnect | SidDescriptor

fun explanation :: "building \<Rightarrow> ustr" where
  "explanation EasyConnect =
     us ''This driver builds an Easy Connect string from the host, port and service name, so they must be plain names; supply a TNS descriptor through a connect-string endpoint''"
| "explanation SidDescriptor =
     us ''This driver builds a connect descriptor from the host, port and SID, so they must be plain names; supply a full TNS descriptor through a connect-string endpoint''"

definition refuse_name :: "ustr \<Rightarrow> building \<Rightarrow> ustr \<Rightarrow> db_error" where
  "refuse_name part b reason = error_new Configuration
     (us ''the '' @ part @ us '' in this connection's endpoint '' @ reason @ us ''. '' @ explanation b @ us '' instead of hiding one in the '' @ part)"

definition is_ascii_alphanumeric :: "uchar \<Rightarrow> bool" where
  "is_ascii_alphanumeric c \<longleftrightarrow> is_ascii_alphabetic c \<or> is_ascii_digit c"

definition allowed_char :: "bool \<Rightarrow> uchar \<Rightarrow> bool" where
  "allowed_char bracketed c \<longleftrightarrow> is_ascii_alphanumeric c \<or> c = 46 \<or> c = 45 \<or> c = 95 \<or> bracketed \<and> c = 58"

definition unbracketed :: "ustr \<Rightarrow> ustr \<times> bool" where
  "unbracketed s =
     (case s of
        [] \<Rightarrow> (s, False)
      | c # r \<Rightarrow> if c = 91 \<and> r \<noteq> [] \<and> List.last r = 93 then (butlast r, True) else (s, False))"

definition plain_name :: "ustr \<Rightarrow> ustr \<Rightarrow> building \<Rightarrow> db_error + ustr" where
  "plain_name s part b =
     (let (t, bracketed) = unbracketed s in
      if t = [] then Inl (refuse_name part b (us ''is empty''))
      else if byte_len t > 255 then Inl (refuse_name part b (us ''is longer than 255 characters''))
      else if \<not> list_all (allowed_char bracketed) t
        then Inl (refuse_name part b (us ''contains a character that is not allowed in a plain name''))
      else Inr t)"

definition easy_connect :: "ustr \<Rightarrow> 16 word \<Rightarrow> ustr \<Rightarrow> bool \<Rightarrow> db_error + ustr" where
  "easy_connect host port service secure =
     and_then (plain_name host (us ''host'') EasyConnect) (\<lambda>_.
     and_then (plain_name service (us ''service name'') EasyConnect) (\<lambda>_.
       Inr ((if secure then us ''tcps://'' else []) @ host @ us '':'' @ nat_text (unat port) @ us ''/'' @ service)))"

definition sid_endpoint_text :: "ustr \<Rightarrow> 16 word \<Rightarrow> ustr \<Rightarrow> bool \<Rightarrow> db_error + ustr" where
  "sid_endpoint_text host port sid secure =
     and_then (plain_name host (us ''host'') SidDescriptor) (\<lambda>host.
     and_then (plain_name sid (us ''SID'') SidDescriptor) (\<lambda>sid.
       let protocol = (if secure then us ''TCPS'' else us ''TCP'')
       in Inr (us ''(DESCRIPTION=(ADDRESS=(PROTOCOL='' @ protocol @ us '')(HOST='' @ host @ us '')(PORT='' @ nat_text (unat port) @
            us ''))(CONNECT_DATA=(SID='' @ sid @ us '')))'')))"

section \<open>What a descriptor asks for\<close>

definition CERT_DN_KEY :: ustr where "CERT_DN_KEY = us ''ssl_server_cert_dn''"

definition DN_MATCH_KEY :: ustr where "DN_MATCH_KEY = us ''ssl_server_dn_match''"

definition CERT_DN_TERMINATORS :: "uchar list" where "CERT_DN_TERMINATORS = us ''()''"

definition DN_MATCH_TERMINATORS :: "uchar list" where "DN_MATCH_TERMINATORS = us ''()&;''"

record certificate_request =
  pins_certificate_dn :: bool
  asks_dn_match_on :: bool
  asks_dn_match_off :: bool

definition request_default :: certificate_request where
  "request_default = \<lparr>pins_certificate_dn = False, asks_dn_match_on = False, asks_dn_match_off = False\<rparr>"

definition request_is_empty :: "certificate_request \<Rightarrow> bool" where
  "request_is_empty q \<longleftrightarrow> \<not> pins_certificate_dn q \<and> \<not> asks_dn_match_on q \<and> \<not> asks_dn_match_off q"

definition merged_with :: "certificate_request \<Rightarrow> certificate_request \<Rightarrow> certificate_request" where
  "merged_with a b = \<lparr>pins_certificate_dn = (pins_certificate_dn a \<or> pins_certificate_dn b),
     asks_dn_match_on = (asks_dn_match_on a \<or> asks_dn_match_on b), asks_dn_match_off = (asks_dn_match_off a \<or> asks_dn_match_off b)\<rparr>"

text \<open>\<^verbatim>\<open>str::find\<close> of a text: the text after its first occurrence.\<close>

fun after_first :: "ustr \<Rightarrow> ustr \<Rightarrow> ustr option" where
  "after_first key [] = (if key = [] then Some [] else None)"
| "after_first key (c # cs) = (if starts_with (c # cs) key then Some (drop (length key) (c # cs)) else after_first key cs)"

definition value_at :: "ustr \<Rightarrow> uchar list \<Rightarrow> ustr" where
  "value_at t terminators =
     (let t = trim_start t in
      case t of
        [] \<Rightarrow> []
      | c # inner \<Rightarrow> if c = 34 then takeWhile (\<lambda>x. x \<noteq> 34) inner else trim (takeWhile (\<lambda>x. x \<notin> set terminators) t))"

lemma after_first_suffix: "after_first key t = Some r \<Longrightarrow> \<exists>a. t = a @ key @ r"
proof (induction key t rule: after_first.induct)
  case (2 key c cs)
  show ?case
  proof (cases "starts_with (c # cs) key")
    case True
    with 2(2) show ?thesis by (auto simp: starts_with_iff intro: exI[of _ "[]"])
  next
    case False
    with 2 obtain a where "cs = a @ key @ r" by auto
    then show ?thesis by (auto intro: exI[of _ "c # a"])
  qed
qed (auto split: if_splits)

text \<open>No key is empty.\<close>

function values_of :: "ustr \<Rightarrow> ustr \<Rightarrow> uchar list \<Rightarrow> ustr list" where
  "values_of t key terminators =
     (if key = [] then []
      else case after_first key t of
        None \<Rightarrow> []
      | Some r \<Rightarrow>
          (case trim_start r of
             [] \<Rightarrow> []
           | c # after \<Rightarrow> if c = 61 then [value_at after terminators] else []) @ values_of r key terminators)"
  by pat_completeness auto
termination
  by (relation "measure (\<lambda>(t, _, _). length t)") (auto dest: after_first_suffix)

declare values_of.simps [simp del]

definition scan_connect_string :: "ustr \<Rightarrow> certificate_request" where
  "scan_connect_string t =
     (let lowered = map to_ascii_lowercase t;
          on = (\<lambda>v. trim v \<in> {us ''on'', us ''yes'', us ''true''});
          found = filter (\<lambda>v. v \<noteq> []) (values_of lowered DN_MATCH_KEY DN_MATCH_TERMINATORS)
      in \<lparr>pins_certificate_dn = list_ex (\<lambda>v. v \<noteq> []) (values_of lowered CERT_DN_KEY CERT_DN_TERMINATORS),
          asks_dn_match_on = list_ex on found, asks_dn_match_off = list_ex (\<lambda>v. \<not> on v) found\<rparr>)"

definition scan_upstream_descriptor :: "ustr \<Rightarrow> certificate_request" where
  "scan_upstream_descriptor t =
     (let lowered = map to_ascii_lowercase t
      in \<lparr>pins_certificate_dn = list_ex (\<lambda>v. v \<noteq> []) (values_of lowered CERT_DN_KEY CERT_DN_TERMINATORS),
          asks_dn_match_on = False,
          asks_dn_match_off = (contains lowered (us ''(security='') \<and> \<not> contains lowered DN_MATCH_KEY)\<rparr>)"

definition EXT_ALLOW_UNENFORCED_SERVER_CERT_DN :: string where
  "EXT_ALLOW_UNENFORCED_SERVER_CERT_DN = ''oracle.allow_unenforced_server_cert_dn''"

definition pin_refusal :: ustr where
  "pin_refusal = us ''this connection's endpoint sets SSL_SERVER_CERT_DN, which asks for the server certificate's whole distinguished name to be pinned '' @ [0x2014] @ us '' and this driver version cannot enforce it. The Oracle crate it wraps parses the parameter and sends it to the server, but its TLS layer never reads it (upstream gap U-14), so the session would be opened with a weaker guarantee than the profile asked for and nothing would say so. What is verified on every TCPS session, and cannot be turned off: the certificate chain, its validity dates, the serverAuth extended key usage, and the host name from the descriptor's HOST against the certificate's subjectAltName '' @ [0x2014] @
     us '' never the DN. Either remove SSL_SERVER_CERT_DN from the descriptor, or set the connection extension '' @ [34] @ us EXT_ALLOW_UNENFORCED_SERVER_CERT_DN @ [34] @ us '' to open the session knowing the pin is not applied''"

definition pin_not_applied :: ustr where
  "pin_not_applied = us ''this connection's endpoint sets SSL_SERVER_CERT_DN and the extension '' @ [34] @ us EXT_ALLOW_UNENFORCED_SERVER_CERT_DN @ [34] @
     us '' is set, so the session was opened without the distinguished-name pin the descriptor asked for: the Oracle crate this driver wraps never applies it (upstream gap U-14). The server certificate's chain, validity, serverAuth extended key usage and host name against subjectAltName were verified as they always are''"

definition DN_MATCH_CANNOT_BE_DISABLED :: ustr where
  "DN_MATCH_CANNOT_BE_DISABLED = us ''this connection's endpoint asks for SSL_SERVER_DN_MATCH to be off, and this driver cannot switch server-identity verification off. The Oracle crate it wraps never reads the parameter (upstream gap U-14), and the TLS verifier underneath has no way to disable the check: the host name from the descriptor's HOST is matched against the certificate's subjectAltName on every TCPS session. A connection that relied on the check being disabled will fail rather than fall back''"

definition DN_MATCH_ALREADY_STRICTER :: ustr where
  "DN_MATCH_ALREADY_STRICTER = us ''this connection's endpoint sets SSL_SERVER_DN_MATCH, which this driver does not use: the Oracle crate it wraps sends the parameter to the server and its TLS layer never reads it (upstream gap U-14). The server's identity is verified regardless '' @ [0x2014] @ us '' the host name from the descriptor's HOST is matched against the certificate's subjectAltName on every TCPS session, which is stricter than a distinguished-name match rather than weaker '' @ [0x2014] @ us '' so the parameter asks for nothing that is not already happening''"

definition informational :: "ustr \<Rightarrow> warning" where
  "informational m = \<lparr>warning_kind = Informational, warning_message = m, warning_native = None, warning_position = None\<rparr>"

definition request_guard :: "bool \<Rightarrow> certificate_request \<Rightarrow> db_error + warning list" where
  "request_guard allow_unenforced_pin q =
     (if pins_certificate_dn q \<and> \<not> allow_unenforced_pin then Inl (error_new Configuration pin_refusal)
      else Inr ((if pins_certificate_dn q then [informational pin_not_applied] else []) @
        (if asks_dn_match_off q then [informational DN_MATCH_CANNOT_BE_DISABLED] else []) @
        (if asks_dn_match_on q then [informational DN_MATCH_ALREADY_STRICTER] else [])))"

section \<open>The client's configuration\<close>

definition EXT_CONNECT_TIMEOUT_UNBOUNDED :: string where "EXT_CONNECT_TIMEOUT_UNBOUNDED = ''oracle.connect_timeout_unbounded''"

definition DEFAULT_CONNECT_TIMEOUT :: nat where "DEFAULT_CONNECT_TIMEOUT = 15"

definition MAX_CONNECT_TIMEOUT :: nat where "MAX_CONNECT_TIMEOUT = 60 * 60"

definition connect_limit :: "connection_params \<Rightarrow> nat option" where
  "connect_limit ps =
     (if params_extensions ps EXT_CONNECT_TIMEOUT_UNBOUNDED = Some (FlagExt True) then None
      else Some (min (case connect_timeout ps of None \<Rightarrow> DEFAULT_CONNECT_TIMEOUT | Some t \<Rightarrow> t) MAX_CONNECT_TIMEOUT))"

definition EXT_WALLET_DIR :: string where "EXT_WALLET_DIR = ''oracle.wallet_dir''"

definition EXT_WALLET_PASSWORD :: string where "EXT_WALLET_PASSWORD = ''oracle.wallet_password''"

definition EXT_STATEMENT_CACHE_SIZE :: string where "EXT_STATEMENT_CACHE_SIZE = ''oracle.statement_cache_size''"

text \<open>
  The client's reading of a connect string, with its error as the driver maps it, and its rendering
  of what it read.
\<close>

record 'c client =
  set_connect_string :: "ustr \<Rightarrow> db_error + 'c"
  get_connect_descriptor :: "'c \<Rightarrow> ustr"

datatype auth_mode = AUTH_MODE_DEFAULT | AUTH_MODE_SYSDBA | AUTH_MODE_SYSOPER

record 'c client_config =
  config_target :: 'c
  config_wallet_location :: "ustr option"
  config_wallet_password :: "ustr option"
  config_credentials :: "ustr \<times> ustr"
  config_auth_mode :: auth_mode
  config_stmtcachesize :: nat

record 'c prepared =
  prepared_config :: "'c client_config"
  prepared_warnings :: "warning list"
  names_certificate_parameters :: bool

definition connect_string_of :: "connection_params \<Rightarrow> db_error + ustr" where
  "connect_string_of ps =
     (case params_endpoint ps of
        ToHostPort host port service \<Rightarrow> easy_connect host port service (params_tls ps = TlsRequired)
      | ToConnectString t \<Rightarrow> Inr t)"

definition tls_refusal :: db_error where
  "tls_refusal = error_new Configuration
     (us ''this connection requires encrypted transport, but its endpoint does not ask for TCPS. A connect-string endpoint must name (PROTOCOL=TCPS) '' @ [0x2014] @ us '' and the TLS port, usually 2484 '' @ [0x2014] @ us '' itself; this driver will not rewrite a descriptor, and it will not open a plaintext session for a profile that requires TLS'')"

definition wallet_location_of :: "extensions \<Rightarrow> db_error + ustr option" where
  "wallet_location_of x =
     (case x EXT_WALLET_DIR of
        None \<Rightarrow> Inr None
      | Some (TextExt directory) \<Rightarrow> Inr (Some directory)
      | Some _ \<Rightarrow> Inl (error_new Configuration ([34] @ us EXT_WALLET_DIR @ [34] @ us '' must be a text value: the path of a directory'')))"

definition wallet_password_of :: "extensions \<Rightarrow> db_error + ustr option" where
  "wallet_password_of x =
     (case x EXT_WALLET_PASSWORD of
        None \<Rightarrow> Inr None
      | Some (SecretExt password) \<Rightarrow> Inr (Some password)
      | Some _ \<Rightarrow> Inl (error_new Configuration ([34] @ us EXT_WALLET_PASSWORD @ [34] @
          us '' must be a secret value, so that it cannot reach a log through an ordinary debug rendering'')))"

definition credentials_of :: "credentials \<Rightarrow> db_error + ustr \<times> ustr" where
  "credentials_of cr =
     (case cr of
        UserPassword username password \<Rightarrow> Inr (username, password)
      | _ \<Rightarrow> Inl (error_new UnsupportedKind
          (us ''this driver supports user-name and password authentication only; external, wallet and token authentication are upstream gaps'')))"

fun auth_mode_of :: "session_role \<Rightarrow> auth_mode" where
  "auth_mode_of NormalRole = AUTH_MODE_DEFAULT"
| "auth_mode_of SysDba = AUTH_MODE_SYSDBA"
| "auth_mode_of SysOper = AUTH_MODE_SYSOPER"

definition cache_size_of :: "extensions \<Rightarrow> nat" where
  "cache_size_of x = (case x EXT_STATEMENT_CACHE_SIZE of Some (IntegerExt n) \<Rightarrow> (if n < 0 then 0 else nat n) | _ \<Rightarrow> 0)"

definition build_config :: "'c client \<Rightarrow> connection_params \<Rightarrow> db_error + 'c prepared" where
  "build_config C ps =
     (let secure = (params_tls ps = TlsRequired); x = params_extensions ps in
      and_then (connect_string_of ps) (\<lambda>connect_string.
      and_then (set_connect_string C connect_string) (\<lambda>c.
      if secure \<and> \<not> contains (map to_ascii_lowercase (get_connect_descriptor C c)) (us ''(protocol=tcps)'') then Inl tls_refusal
      else let request = merged_with (scan_connect_string connect_string) (scan_upstream_descriptor (get_connect_descriptor C c)) in
      and_then (request_guard (x EXT_ALLOW_UNENFORCED_SERVER_CERT_DN = Some (FlagExt True)) request) (\<lambda>warnings.
      and_then (wallet_location_of x) (\<lambda>location.
      and_then (wallet_password_of x) (\<lambda>password.
      and_then (credentials_of (params_credentials ps)) (\<lambda>creds.
        Inr \<lparr>prepared_config = \<lparr>config_target = c, config_wallet_location = location, config_wallet_password = password,
               config_credentials = creds, config_auth_mode = auth_mode_of (params_role ps), config_stmtcachesize = cache_size_of x\<rparr>,
             prepared_warnings = warnings, names_certificate_parameters = (\<not> request_is_empty request)\<rparr>)))))))"

end
