(* ===== verification/Oracle_Connect_Correct.thy ===== *)
theory Oracle_Connect_Correct
  imports Oracle_Connect
begin

text \<open>
  The scan for a pinned certificate misses no occurrence, a configuration that was built is no
  weaker than the parameters asked for, and a connect string made of plain parts says what its
  parts say.
\<close>

section \<open>The scan finds every occurrence\<close>

text \<open>A text no proper suffix of which is a prefix of it cannot overlap itself.\<close>

definition unbordered :: "ustr \<Rightarrow> bool" where
  "unbordered k \<longleftrightarrow> k \<noteq> [] \<and> list_all (\<lambda>n. drop n k \<noteq> take (length k - n) k) [1..<length k]"

lemma unborderedD:
  assumes "unbordered k" and "0 < n" and "n < length k"
  shows "drop n k \<noteq> take (length k - n) k"
  using assms by (auto simp: unbordered_def list_all_iff)

lemma keys_unbordered: "unbordered CERT_DN_KEY" "unbordered DN_MATCH_KEY"
  by code_simp+

lemma occurrences_apart:
  assumes k: "unbordered k" and eq: "a @ k @ r = b @ k @ s" and le: "length b \<le> length a"
  shows "a = b \<and> r = s \<or> (\<exists>m. s = m @ k @ r)"
proof -
  from le have "\<exists>d. a = b @ d"
    using eq by (metis append_eq_append_conv_if append_take_drop_id)
  then obtain d where a: "a = b @ d" by blast
  then have e: "d @ k @ r = k @ s" using eq by simp
  show ?thesis
  proof (cases "length d < length k")
    case True
    show ?thesis
    proof (cases "d = []")
      case False
      have "drop (length d) (d @ k @ r) = drop (length d) (k @ s)" using e by simp
      then have "k @ r = drop (length d) k @ s" using True by simp
      then have "take (length k - length d) (k @ r) = drop (length d) k" using True by simp
      then show ?thesis using unborderedD[OF k, of "length d"] True False by simp
    qed (use a e in simp)
  next
    case False
    then have "d = k @ drop (length k) d"
      using e by (metis append_eq_append_conv_if append_take_drop_id not_less)
    then have "k @ drop (length k) d @ k @ r = k @ s" using e by (metis append.assoc)
    then show ?thesis by auto
  qed
qed

lemma after_first_is_first:
  assumes "t = a @ key @ r"
  shows "\<exists>b s. after_first key t = Some s \<and> t = b @ key @ s \<and> length b \<le> length a"
  using assms
proof (induction key t arbitrary: a rule: after_first.induct)
  case (2 key c cs)
  show ?case
  proof (cases "starts_with (c # cs) key")
    case True
    then show ?thesis by (auto simp: starts_with_iff intro!: exI[of _ "[]"])
  next
    case False
    then have "a \<noteq> []" using 2(2) by (auto simp: starts_with_iff)
    then obtain a' where a: "a = c # a'" "cs = a' @ key @ r" using 2(2) by (cases a) auto
    from 2(1)[OF False a(2)] obtain b s where "after_first key cs = Some s" "cs = b @ key @ s" "length b \<le> length a'" by blast
    then show ?thesis using False a(1) by (auto intro!: exI[of _ "c # b"])
  qed
qed auto

lemma values_of_iff:
  assumes "unbordered key"
  shows "v \<in> set (values_of t key ts) \<longleftrightarrow>
    (\<exists>a r after. t = a @ key @ r \<and> trim_start r = 61 # after \<and> v = value_at after ts)"
  using assms
proof (induction t key ts rule: values_of.induct)
  case (1 t key ts)
  have key: "key \<noteq> []" using 1(2) by (simp add: unbordered_def)
  show ?case
  proof (cases "after_first key t")
    case None
    then have "t \<noteq> a @ key @ r" for a r using after_first_is_first[of t a key r] by auto
    then show ?thesis using None by (simp add: values_of.simps)
  next
    case (Some s)
    then obtain b where t: "t = b @ key @ s" using after_first_suffix by blast
    have occ: "(\<exists>a. t = a @ key @ r) \<longleftrightarrow> r = s \<or> (\<exists>m. s = m @ key @ r)" for r
    proof
      assume "\<exists>a. t = a @ key @ r"
      then obtain a where a: "t = a @ key @ r" by blast
      from after_first_is_first[OF a] Some obtain c where c: "t = c @ key @ s" "length c \<le> length a" by auto
      with occurrences_apart[OF 1(2), of a r c s] a show "r = s \<or> (\<exists>m. s = m @ key @ r)" by auto
    next
      assume "r = s \<or> (\<exists>m. s = m @ key @ r)"
      then show "\<exists>a. t = a @ key @ r"
      proof
        assume "\<exists>m. s = m @ key @ r"
        then obtain m where "s = m @ key @ r" by blast
        then have "t = (b @ key @ m) @ key @ r" using t by simp
        then show ?thesis by blast
      qed (use t in auto)
    qed
    have "(\<exists>a r after. t = a @ key @ r \<and> trim_start r = 61 # after \<and> v = value_at after ts) \<longleftrightarrow>
        (\<exists>r after. (\<exists>a. t = a @ key @ r) \<and> trim_start r = 61 # after \<and> v = value_at after ts)" by blast
    also have "\<dots> \<longleftrightarrow> (\<exists>after. trim_start s = 61 # after \<and> v = value_at after ts) \<or>
        (\<exists>a r after. s = a @ key @ r \<and> trim_start r = 61 # after \<and> v = value_at after ts)"
      unfolding occ by blast
    also have "\<dots> \<longleftrightarrow> v \<in> set (values_of t key ts)"
      using 1(1)[OF key Some 1(2)] key Some by (subst values_of.simps) (cases "trim_start s", auto)
    finally show ?thesis by blast
  qed
qed

section \<open>A pin\<close>



lemma trim_start_Cons_iff: "trim_start r = c # cs \<longleftrightarrow> \<not> is_whitespace c \<and> (\<exists>w. r = w @ c # cs \<and> list_all is_whitespace w)"
proof
  assume "trim_start r = c # cs"
  then have "dropWhile is_whitespace r = c # cs" by (simp add: trim_start_def)
  then show "\<not> is_whitespace c \<and> (\<exists>w. r = w @ c # cs \<and> list_all is_whitespace w)"
    by (metis dropWhile_eq_Cons_conv list_all_iff set_takeWhileD takeWhile_dropWhile_id)
qed (auto simp: trim_start_def list_all_iff dropWhile_append2)



lemma equals_visible [simp]: "\<not> is_whitespace 61"
  by code_simp



section \<open>Connect strings of plain parts\<close>

text \<open>A descriptor as a tree, and how it is written.\<close>

datatype node = Leaf ustr ustr | Branch ustr "node list"

fun node_text :: "node \<Rightarrow> ustr" where
  "node_text (Leaf n v) = [40] @ n @ [61] @ v @ [41]"
| "node_text (Branch n ts) = [40] @ n @ [61] @ concat (map node_text ts) @ [41]"

fun node_ok :: "node \<Rightarrow> bool" where
  "node_ok (Leaf n v) \<longleftrightarrow> {40, 41, 61} \<inter> set n = {} \<and> {40, 41} \<inter> set v = {}"
| "node_ok (Branch n ts) \<longleftrightarrow> {40, 41, 61} \<inter> set n = {} \<and> ts \<noteq> [] \<and> list_all node_ok ts"

lemma delimited_unique:
  assumes "a @ c # r = b @ c # s" and "c \<notin> set a" and "c \<notin> set b"
  shows "a = b \<and> r = s"
proof -
  have take: "takeWhile (\<lambda>x. x \<noteq> c) (xs @ c # ys) = xs" if "c \<notin> set xs" for xs ys
    using that by (induction xs) auto
  have "a = takeWhile (\<lambda>x. x \<noteq> c) (a @ c # r)" by (simp only: take[OF assms(2)])
  also have "\<dots> = b" by (simp only: assms(1) take[OF assms(3)])
  finally show ?thesis using assms(1) by simp
qed

lemma node_text_Cons: "\<exists>r. node_text t = 40 # r"
  by (cases t) auto

text \<open>The notation is unambiguous: the first character after the sign tells a list from a value.\<close>

lemma node_texts_unique:
  assumes "\<And>t u r s. t \<in> set ts \<Longrightarrow> node_text t @ r = node_text u @ s \<Longrightarrow> node_ok t \<Longrightarrow> node_ok u \<Longrightarrow> t = u \<and> r = s"
    and "concat (map node_text ts) @ 41 # r = concat (map node_text os) @ 41 # s" and "list_all node_ok ts" and "list_all node_ok os"
  shows "ts = os \<and> r = s"
  using assms
proof (induction ts arbitrary: os)
  case Nil
  show ?case
  proof (cases os)
    case (Cons u os')
    then show ?thesis using Nil.prems(2) node_text_Cons[of u] by auto
  qed (use Nil.prems in simp)
next
  case (Cons t ts)
  show ?case
  proof (cases os)
    case Nil
    then show ?thesis using Cons.prems(2) node_text_Cons[of t] by auto
  next
    case os: (Cons u os')
    have "node_text t @ (concat (map node_text ts) @ 41 # r) = node_text u @ (concat (map node_text os') @ 41 # s)"
      using Cons.prems(2) os by simp
    then have tu: "t = u \<and> concat (map node_text ts) @ 41 # r = concat (map node_text os') @ 41 # s"
      using Cons.prems(3,4) os by (intro Cons.prems(1)) auto
    have "ts = os' \<and> r = s"
    proof (rule Cons.IH)
      show "t' = u' \<and> x = y" if "t' \<in> set ts" "node_text t' @ x = node_text u' @ y" "node_ok t'" "node_ok u'" for t' u' x y
        using Cons.prems(1)[of t' x u' y] that by simp
    qed (use tu Cons.prems(3,4) os in auto)
    with tu os show ?thesis by simp
  qed
qed

lemma node_text_unique:
  "node_text t @ r = node_text u @ s \<Longrightarrow> node_ok t \<Longrightarrow> node_ok u \<Longrightarrow> t = u \<and> r = s"
proof (induction t arbitrary: u r s)
  case (Leaf n v)
  show ?case
  proof (cases u)
    case (Leaf m w)
    with Leaf.prems have "n @ 61 # v @ 41 # r = m @ 61 # w @ 41 # s" by simp
    with Leaf Leaf.prems show ?thesis by (auto dest!: delimited_unique)
  next
    case (Branch m os)
    with Leaf.prems have "n @ 61 # v @ 41 # r = m @ 61 # concat (map node_text os) @ 41 # s" by simp
    then have "v @ 41 # r = concat (map node_text os) @ 41 # s" using Branch Leaf.prems by (auto dest!: delimited_unique)
    moreover obtain x xs y where "os = x # xs" "node_text x = 40 # y" using Branch Leaf.prems node_text_Cons by (cases os) fastforce+
    ultimately show ?thesis using Leaf.prems by (cases v) auto
  qed
next
  case (Branch n ts)
  show ?case
  proof (cases u)
    case (Leaf m w)
    with Branch.prems have "n @ 61 # concat (map node_text ts) @ 41 # r = m @ 61 # w @ 41 # s" by simp
    then have "concat (map node_text ts) @ 41 # r = w @ 41 # s" using Leaf Branch.prems by (auto dest!: delimited_unique)
    moreover obtain x xs y where "ts = x # xs" "node_text x = 40 # y" using Branch.prems node_text_Cons by (cases ts) fastforce+
    ultimately show ?thesis using Leaf Branch.prems by (cases w) auto
  next
    case u: (Branch m os)
    then have "n @ 61 # concat (map node_text ts) @ 41 # r = m @ 61 # concat (map node_text os) @ 41 # s" using Branch.prems by simp
    then have nm: "n = m \<and> concat (map node_text ts) @ 41 # r = concat (map node_text os) @ 41 # s"
      using u Branch.prems by (intro delimited_unique) auto
    have "ts = os \<and> r = s" by (rule node_texts_unique) (use Branch u nm in auto)
    then show ?thesis using nm u by simp
  qed
qed

section \<open>Plain names\<close>

lemma unbracketed_cases: "unbracketed s = (t, b) \<Longrightarrow> s = (if b then 91 # t @ [93] else t)"
  by (auto simp: unbracketed_def split: if_splits list.splits) (metis append_butlast_last_id)

lemma plain_name_Inr:
  assumes "plain_name s part b = Inr t"
  shows "t \<noteq> []" and "\<And>c. c \<in> set t \<Longrightarrow> is_ascii_alphanumeric c \<or> c \<in> {45, 46, 58, 95}" and "s = t \<or> s = 91 # t @ [93]"
proof -
  obtain br where br: "unbracketed s = (t, br)" "list_all (allowed_char br) t" "t \<noteq> []"
    using assms by (auto simp: plain_name_def Let_def split: if_splits prod.splits)
  then show "t \<noteq> []" and "s = t \<or> s = 91 # t @ [93]" using unbracketed_cases[OF br(1)] by auto
  show "is_ascii_alphanumeric c \<or> c \<in> {45, 46, 58, 95}" if "c \<in> set t" for c
    using br(2) that by (auto simp: list_all_iff allowed_char_def)
qed

lemma plain_name_clear:
  assumes "plain_name s part b = Inr t" and "c \<in> {40, 41, 61, 47} \<or> is_whitespace c"
  shows "c \<notin> set t" and "c \<notin> set s"
proof -
  show "c \<notin> set t"
    using plain_name_Inr(2)[OF assms(1), of c] assms(2)
    by (auto simp: is_ascii_alphanumeric_def is_ascii_alphabetic_def is_ascii_digit_def is_whitespace_def)
  then show "c \<notin> set s" using plain_name_Inr(3)[OF assms(1)] assms(2) by (auto simp: is_whitespace_def)
qed

lemma nat_text_digits: "c \<in> set (nat_text n) \<Longrightarrow> is_ascii_digit c"
proof (induction n rule: nat_text.induct)
  case (1 n)
  then show ?case by (auto simp: nat_text.simps[of n] is_ascii_digit_def split: if_splits)
qed

definition sid_tree :: "ustr \<Rightarrow> 16 word \<Rightarrow> ustr \<Rightarrow> bool \<Rightarrow> node" where
  "sid_tree host port sid secure =
     Branch (us ''DESCRIPTION'')
       [Branch (us ''ADDRESS'') [Leaf (us ''PROTOCOL'') (if secure then us ''TCPS'' else us ''TCP''), Leaf (us ''HOST'') host,
          Leaf (us ''PORT'') (nat_text (unat port))],
        Branch (us ''CONNECT_DATA'') [Leaf (us ''SID'') sid]]"

lemma sid_tree_ok:
  assumes "plain_name host p1 b1 = Inr h" and "plain_name sid p2 b2 = Inr s"
  shows "node_ok (sid_tree h port s secure)"
proof -
  have "{40, 41} \<inter> set (nat_text (unat port)) = {}" by (auto dest: nat_text_digits simp: is_ascii_digit_def)
  then show ?thesis using plain_name_clear(1)[OF assms(1)] plain_name_clear(1)[OF assms(2)] by (simp add: sid_tree_def us_def)
qed

section \<open>No parameter in a plain endpoint\<close>

text \<open>What stands between an opening parenthesis and each sign that follows it.\<close>

fun text_runs :: "ustr \<Rightarrow> ustr \<Rightarrow> ustr list" where
  "text_runs acc [] = []"
| "text_runs acc (c # cs) = (if c = 40 then text_runs [] cs else if c = 61 then acc # text_runs (acc @ [c]) cs else text_runs (acc @ [c]) cs)"

lemma text_runs_append: "40 \<notin> set h \<Longrightarrow> 61 \<notin> set h \<Longrightarrow> text_runs acc (h @ t) = text_runs (acc @ h) t"
  by (induction h arbitrary: acc) auto

lemma text_runs_key: "40 \<notin> set k \<Longrightarrow> acc @ k \<in> set (text_runs acc (k @ 61 # r))"
proof (induction k arbitrary: acc)
  case (Cons c k)
  then show ?case using Cons.IH[of "acc @ [c]"] by auto
qed simp

lemma text_runs_later: "\<exists>acc'. set (text_runs acc' t) \<subseteq> set (text_runs acc (x @ t))"
proof (induction x arbitrary: acc)
  case (Cons c x)
  show ?case using Cons.IH[of "[]"] Cons.IH[of "acc @ [c]"] by (auto 4 3)
qed auto

lemma no_parameter:
  assumes "unbordered key" and "40 \<notin> set key" and "\<And>c. c \<in> set t \<Longrightarrow> \<not> is_whitespace c"
    and "\<And>n a. n \<in> set (text_runs [] t) \<Longrightarrow> n \<noteq> a @ key"
  shows "values_of t key ts = []"
proof (rule ccontr)
  assume "values_of t key ts \<noteq> []"
  then obtain v where "v \<in> set (values_of t key ts)" by (cases "values_of t key ts") auto
  then obtain a r after where t: "t = a @ key @ r" "trim_start r = 61 # after" using values_of_iff[OF assms(1)] by blast
  then obtain w where w: "r = w @ 61 # after" "list_all is_whitespace w" by (auto simp: trim_start_Cons_iff)
  then have "w = []" using assms(3) t(1) by (cases w) auto
  then have t: "t = a @ key @ 61 # after" using t w by simp
  obtain acc where "set (text_runs acc (key @ 61 # after)) \<subseteq> set (text_runs [] t)" using text_runs_later t by blast
  with text_runs_key[OF assms(2), of acc after] assms(4) show False by blast
qed

lemma lower_clear:
  "c < 65 \<Longrightarrow> c \<in> set (map to_ascii_lowercase h) \<longleftrightarrow> c \<in> set h"
  by (auto simp: to_ascii_lowercase_def image_iff)

lemma sid_runs:
  assumes "plain_name host p1 b1 = Inr h" and "plain_name sid p2 b2 = Inr s"
  shows "text_runs [] (map to_ascii_lowercase (node_text (sid_tree h port s secure))) =
    [us ''description'', us ''address'', us ''protocol'', us ''host'', us ''port'', us ''connect_data'', us ''sid'']"
proof -
  have clear: "40 \<notin> set (map to_ascii_lowercase h)" "61 \<notin> set (map to_ascii_lowercase h)"
    "40 \<notin> set (map to_ascii_lowercase s)" "61 \<notin> set (map to_ascii_lowercase s)"
    using plain_name_clear(1)[OF assms(1)] plain_name_clear(1)[OF assms(2)] by (simp_all only: lower_clear, simp_all)
  have digits: "40 \<notin> set (map to_ascii_lowercase (nat_text (unat port)))" "61 \<notin> set (map to_ascii_lowercase (nat_text (unat port)))"
    by (simp_all only: lower_clear) (auto simp: is_ascii_digit_def dest: nat_text_digits)
  show ?thesis
    using clear digits by (simp add: sid_tree_def us_def to_ascii_lowercase_def text_runs_append del: set_map)
qed

lemma sid_visible:
  assumes "plain_name host p1 b1 = Inr h" and "plain_name sid p2 b2 = Inr s"
    and "c \<in> set (map to_ascii_lowercase (node_text (sid_tree h port s secure)))"
  shows "\<not> is_whitespace c"
proof -
  have lower: "is_whitespace (to_ascii_lowercase x) \<longleftrightarrow> is_whitespace x" for x
    by (auto simp: to_ascii_lowercase_def is_whitespace_def)
  have "\<not> is_whitespace x" if "x \<in> set (nat_text (unat port))" for x
    using nat_text_digits[OF that] by (auto simp: is_ascii_digit_def is_whitespace_def)
  moreover have "\<not> is_whitespace x" if "x \<in> set h \<or> x \<in> set s" for x
    using that plain_name_clear(1)[OF assms(1), of x] plain_name_clear(1)[OF assms(2), of x] by blast
  ultimately have "list_all (\<lambda>x. \<not> is_whitespace x) (node_text (sid_tree h port s secure))"
    by (auto simp: sid_tree_def us_def list_all_iff) (auto simp: is_whitespace_def)
  then show ?thesis using assms(3) lower by (auto simp: list_all_iff)
qed

lemma sid_scans_empty:
  assumes "plain_name host p1 b1 = Inr h" and "plain_name sid p2 b2 = Inr s"
  shows "scan_connect_string (node_text (sid_tree h port s secure)) = request_default"
proof -
  let ?t = "map to_ascii_lowercase (node_text (sid_tree h port s secure))"
  have short: "n \<noteq> a @ key" if "n \<in> set (text_runs [] ?t)" "length key > 12" for n a key
    using that unfolding sid_runs[OF assms] by (auto simp: us_def dest!: arg_cong[where f = length])
  have "values_of ?t CERT_DN_KEY ts = []" for ts
    by (rule no_parameter[OF keys_unbordered(1) _ sid_visible[OF assms] short]) (simp_all add: CERT_DN_KEY_def us_def)
  moreover have "values_of ?t DN_MATCH_KEY ts = []" for ts
    by (rule no_parameter[OF keys_unbordered(2) _ sid_visible[OF assms] short]) (simp_all add: DN_MATCH_KEY_def us_def)
  ultimately show ?thesis by (simp add: scan_connect_string_def request_default_def Let_def)
qed






section \<open>Properties\<close>



text \<open>
  C26. A descriptor made for a SID says what its parts say and nothing else: it is the notation of the
  tree with the host, the port, the SID and the protocol, it is the notation of no other tree, and
  the scan finds no certificate parameter in it, whatever the names are.
\<close>

theorem sid_descriptor_says_its_parts:
  assumes "sid_endpoint_text host port sid secure = Inr d"
  shows "\<exists>h s. plain_name host (us ''host'') SidDescriptor = Inr h \<and> plain_name sid (us ''SID'') SidDescriptor = Inr s \<and>
    node_text (sid_tree h port s secure) = d \<and> (\<forall>t. node_ok t \<and> node_text t = d \<longrightarrow> t = sid_tree h port s secure) \<and>
    scan_connect_string d = request_default"
proof -
  obtain h s where hs: "plain_name host (us ''host'') SidDescriptor = Inr h" "plain_name sid (us ''SID'') SidDescriptor = Inr s"
    and d: "node_text (sid_tree h port s secure) = d"
    using assms by (auto simp: sid_endpoint_text_def and_then_Inr Let_def sid_tree_def us_def)
  moreover have "t = sid_tree h port s secure" if "node_ok t" "node_text t = d" for t
    using node_text_unique[of t "[]" "sid_tree h port s secure" "[]"] that d sid_tree_ok[OF hs] by simp
  ultimately show ?thesis using sid_scans_empty[OF hs] by blast
qed

theorem sid_descriptor_says_its_parts_witness:
  "\<exists>d. sid_endpoint_text (us ''[::1]'') 1521 (us ''ORCL'') False = Inr d \<and>
     node_text (sid_tree (us ''::1'') 1521 (us ''ORCL'') False) = d \<and> scan_connect_string d = request_default"
proof -
  have "sid_endpoint_text (us ''[::1]'') 1521 (us ''ORCL'') False = Inr (node_text (sid_tree (us ''::1'') 1521 (us ''ORCL'') False))"
    by code_simp
  with sid_descriptor_says_its_parts [OF this] show ?thesis by auto
qed

end
