(* ===== verification/Oracle_Handoff.thy ===== *)
theory Oracle_Handoff
  imports Oracle_Connect "HOL-Library.Multiset"
begin

text \<open>
  \<^verbatim>\<open>crates/drivers/oracle-thin/src/connect_timeout.rs\<close>: a connect that is waited for at most for a
  limit.  It runs on a helper thread; the two threads meet in a \<^verbatim>\<open>Handoff\<close> whose operations
  hold one mutex, so a run is a sequence of them.  When the attempt ends, with which outcome, what
  the clock says at each turn of the wait and whether the waiting frame unwinds are arguments of the
  steps.
\<close>

section \<open>The rendezvous\<close>

record 'r handoff =
  handoff_value :: "'r option"
  handoff_abandoned :: bool

definition handoff_new :: "'r handoff" where
  "handoff_new = \<lparr>handoff_value = None, handoff_abandoned = False\<rparr>"

datatype expiry = Expired

text \<open>One turn of the loop of \<^verbatim>\<open>wait\<close>: no result means that it goes back to sleep.\<close>

definition wait_turn :: "nat \<Rightarrow> nat \<Rightarrow> 'r handoff \<Rightarrow> (expiry + 'r) option \<times> 'r handoff" where
  "wait_turn limit elapsed h =
     (case handoff_value h of
        Some v \<Rightarrow> (Some (Inr v), h\<lparr>handoff_value := None\<rparr>)
      | None \<Rightarrow> if elapsed \<ge> limit then (Some (Inl Expired), h\<lparr>handoff_abandoned := True\<rparr>) else (None, h))"

definition deliver :: "'r \<Rightarrow> 'r handoff \<Rightarrow> ('r + unit) \<times> 'r handoff" where
  "deliver v h = (if handoff_abandoned h then (Inl v, h) else (Inr (), h\<lparr>handoff_value := Some v\<rparr>))"

definition abandon_handoff :: "'r handoff \<Rightarrow> 'r option \<times> 'r handoff" where
  "abandon_handoff h = (handoff_value h, h\<lparr>handoff_abandoned := True, handoff_value := None\<rparr>)"

section \<open>The attempt\<close>

datatype ('e, 'v) attempt = Ended "'e + 'v" | Panics "ustr option"

definition panic_error :: "ustr option \<Rightarrow> db_error" where
  "panic_error payload = error_internal (us ''the Oracle crate panicked while opening a connection: '' @
     (case payload of Some m \<Rightarrow> m | None \<Rightarrow> us ''a non-string payload''))"

fun attempt_result :: "('e \<Rightarrow> db_error) \<Rightarrow> ('e, 'v) attempt \<Rightarrow> db_error + 'v" where
  "attempt_result map_error (Ended (Inr v)) = Inr v"
| "attempt_result map_error (Ended (Inl e)) = Inl (map_error e)"
| "attempt_result map_error (Panics m) = Inl (panic_error m)"

text \<open>The limit is in whole seconds.\<close>

definition expired_error :: "nat \<Rightarrow> db_error" where
  "expired_error limit = with_retryable True (error_new Connection
     (us ''the database could not be reached within this connection's connect limit of '' @ (if limit = 0 then us ''0.0ns'' else nat_text limit @ us ''.0s'') @ us '', so the attempt was abandoned. It is left to finish or fail on its own '' @ [0x2014] @
      us '' the Oracle crate this driver wraps cannot bound a connect or stop one that has started (upstream gap U-15) '' @ [0x2014] @
      us '' and if a session does open late it is closed rather than used. Raise the limit on the connection profile, or set the connection extension '' @ [34] @ us EXT_CONNECT_TIMEOUT_UNBOUNDED @ [34] @ us '' to wait indefinitely''))"

section \<open>Both threads\<close>

datatype 'v helper = Attempting | HoldsLate "db_error + 'v" | HelperDone

text \<open>A waiter that \<open>Leaves\<close> has not yet dropped its guard; the flag tells an expiry from an unwinding frame.\<close>

datatype 'v waiter = Waiting | Collected "db_error + 'v" | Leaves bool | Left bool

record 'v meeting =
  rendezvous :: "(db_error + 'v) handoff"
  helper :: "'v helper"
  waiter :: "'v waiter"
  opened_late :: "'v list" \<comment> \<open>what the attempt opened\<close>
  discarded :: "'v list" \<comment> \<open>what was closed because nobody took it\<close>

definition meeting_new :: "'v meeting" where
  "meeting_new = \<lparr>rendezvous = handoff_new, helper = Attempting, waiter = Waiting, opened_late = [], discarded = []\<rparr>"

fun opened_by_result :: "db_error + 'v \<Rightarrow> 'v list" where
  "opened_by_result (Inl _) = []"
| "opened_by_result (Inr v) = [v]"

definition discard_result :: "db_error + 'v \<Rightarrow> 'v meeting \<Rightarrow> 'v meeting" where
  "discard_result r m = m\<lparr>discarded := discarded m @ opened_by_result r\<rparr>"

text \<open>The helper thread of \<^verbatim>\<open>within\<close>, from the end of the attempt.\<close>

definition helper_delivers :: "db_error + 'v \<Rightarrow> 'v meeting \<Rightarrow> 'v meeting" where
  "helper_delivers r m =
     (let (answer, h) = deliver r (rendezvous m);
          m = m\<lparr>rendezvous := h, opened_late := opened_late m @ opened_by_result r\<rparr>
      in case answer of Inl late \<Rightarrow> m\<lparr>helper := HoldsLate late\<rparr> | Inr _ \<Rightarrow> m\<lparr>helper := HelperDone\<rparr>)"

definition helper_discards :: "db_error + 'v \<Rightarrow> 'v meeting \<Rightarrow> 'v meeting" where
  "helper_discards late m = discard_result late (m\<lparr>helper := HelperDone\<rparr>)"

text \<open>The caller of \<^verbatim>\<open>within\<close>: its wait and, unless it collected a value, the drop of its guard.\<close>

definition waiter_turns :: "nat \<Rightarrow> nat \<Rightarrow> 'v meeting \<Rightarrow> 'v meeting" where
  "waiter_turns limit elapsed m =
     (let (got, h) = wait_turn limit elapsed (rendezvous m); m = m\<lparr>rendezvous := h\<rparr>
      in case got of None \<Rightarrow> m | Some (Inr r) \<Rightarrow> m\<lparr>waiter := Collected r\<rparr> | Some (Inl Expired) \<Rightarrow> m\<lparr>waiter := Leaves True\<rparr>)"

definition guard_drops :: "bool \<Rightarrow> 'v meeting \<Rightarrow> 'v meeting" where
  "guard_drops expired m =
     (let (got, h) = abandon_handoff (rendezvous m); m = m\<lparr>rendezvous := h, waiter := Left expired\<rparr>
      in case got of None \<Rightarrow> m | Some r \<Rightarrow> discard_result r m)"

text \<open>What \<^verbatim>\<open>within\<close> returns, if it has returned.\<close>

fun within_result :: "nat \<Rightarrow> 'v waiter \<Rightarrow> (db_error + 'v) option" where
  "within_result limit (Collected r) = Some r"
| "within_result limit (Left True) = Some (Inl (expired_error limit))"
| "within_result limit w = None"

inductive meet_step :: "nat \<Rightarrow> ('e \<Rightarrow> db_error) \<Rightarrow> 'v meeting \<Rightarrow> 'v meeting \<Rightarrow> bool"
  for limit :: nat and map_error :: "'e \<Rightarrow> db_error" where
  attempt_ends: "helper m = Attempting \<Longrightarrow> meet_step limit map_error m (helper_delivers (attempt_result map_error out) m)"
| late_closed: "helper m = HoldsLate r \<Longrightarrow> meet_step limit map_error m (helper_discards r m)"
| turn: "waiter m = Waiting \<Longrightarrow> meet_step limit map_error m (waiter_turns limit elapsed m)"
| unwinds: "waiter m = Waiting \<Longrightarrow> meet_step limit map_error m (m\<lparr>waiter := Leaves False\<rparr>)"
| drop: "waiter m = Leaves b \<Longrightarrow> meet_step limit map_error m (guard_drops b m)"

inductive meet_reachable :: "nat \<Rightarrow> ('e \<Rightarrow> db_error) \<Rightarrow> 'v meeting \<Rightarrow> bool" for limit map_error where
  met_new: "meet_reachable limit map_error meeting_new"
| met_next: "meet_reachable limit map_error m \<Longrightarrow> meet_step limit map_error m m' \<Longrightarrow> meet_reachable limit map_error m'"

section \<open>A late connection is closed, once\<close>

text \<open>Where what the attempt opened may still be: in the rendezvous or with the helper.\<close>

definition on_its_way :: "'v meeting \<Rightarrow> 'v list" where
  "on_its_way m = (case handoff_value (rendezvous m) of Some r \<Rightarrow> opened_by_result r | None \<Rightarrow> []) @
     (case helper m of HoldsLate r \<Rightarrow> opened_by_result r | _ \<Rightarrow> [])"

fun adopted :: "'v waiter \<Rightarrow> 'v list" where
  "adopted (Collected r) = opened_by_result r"
| "adopted _ = []"

definition meeting_ok :: "'v meeting \<Rightarrow> bool" where
  "meeting_ok m \<longleftrightarrow> mset (opened_late m) = mset (adopted (waiter m)) + mset (discarded m) + mset (on_its_way m) \<and> length (opened_late m) \<le> 1 \<and>
     (helper m = Attempting \<longrightarrow> opened_late m = [] \<and> handoff_value (rendezvous m) = None \<and> (\<forall>r. waiter m \<noteq> Collected r)) \<and>
     ((\<exists>b. waiter m = Left b) \<longrightarrow> handoff_abandoned (rendezvous m) \<and> handoff_value (rendezvous m) = None) \<and>
     ((\<exists>r. waiter m = Collected r) \<longrightarrow> handoff_value (rendezvous m) = None) \<and>
     (\<forall>r. helper m = HoldsLate r \<longrightarrow> handoff_value (rendezvous m) = None)"

lemma opened_by_result_length [simp]: "length (opened_by_result r) \<le> Suc 0"
  by (cases r) auto

lemma meet_step_ok:
  assumes "meet_step limit map_error m m'" and "meeting_ok m"
  shows "meeting_ok m'"
  using assms
proof cases
  case (attempt_ends out)
  then show ?thesis using assms(2)
    by (cases "waiter m") (auto simp: meeting_ok_def helper_delivers_def deliver_def on_its_way_def)
next
  case (late_closed r)
  then show ?thesis using assms(2)
    by (cases "waiter m") (auto simp: meeting_ok_def helper_discards_def discard_result_def on_its_way_def)
next
  case (turn elapsed)
  then show ?thesis using assms(2)
    by (cases "helper m") (auto simp: meeting_ok_def waiter_turns_def wait_turn_def on_its_way_def split: option.splits)
next
  case unwinds
  then show ?thesis using assms(2) by (auto simp: meeting_ok_def on_its_way_def)
next
  case (drop b)
  then show ?thesis using assms(2)
    by (cases "helper m") (auto simp: meeting_ok_def guard_drops_def abandon_handoff_def discard_result_def on_its_way_def split: option.splits)
qed

lemma meet_reachable_ok: "meet_reachable limit map_error m \<Longrightarrow> meeting_ok m"
proof (induction rule: meet_reachable.induct)
  case met_new
  show ?case by (simp add: meeting_ok_def meeting_new_def handoff_new_def on_its_way_def)
qed (use meet_step_ok in blast)

lemma wait_ends_at_the_limit: "elapsed \<ge> limit \<Longrightarrow> waiter m = Waiting \<Longrightarrow> waiter (waiter_turns limit elapsed m) \<noteq> Waiting"
  by (auto simp: waiter_turns_def wait_turn_def split: option.splits)

text \<open>
  C18. A connect that is given up is never adopted and always closed.  Whatever the order in which the
  attempt ends, the limit passes and the waiting frame unwinds, the connection the attempt opened, if
  it did, is in exactly one place: with the caller, closed, or still on its way in the rendezvous or
  with the helper.  Once both threads are through it is not on its way; then a caller that left did
  not get it, and it was closed once.  A wait whose limit has passed ends at its next turn, and a
  caller that left because of the limit gets the error that says so.
\<close>

theorem late_connection_is_closed_once:
  assumes "meet_reachable limit map_error m"
  shows "mset (opened_late m) = mset (adopted (waiter m)) + mset (discarded m) + mset (on_its_way m) \<and> length (opened_late m) \<le> 1 \<and>
    (helper m = HelperDone \<and> waiter m \<notin> {Waiting, Leaves True, Leaves False} \<longrightarrow> on_its_way m = []) \<and>
    (helper m = HelperDone \<and> waiter m \<in> {Left True, Left False} \<longrightarrow> discarded m = opened_late m) \<and>
    (waiter m = Waiting \<and> elapsed \<ge> limit \<longrightarrow> waiter (waiter_turns limit elapsed m) \<noteq> Waiting) \<and>
    (waiter m = Left True \<longrightarrow> within_result limit (waiter m) = Some (Inl (expired_error limit)))"
proof -
  have ok: "meeting_ok m" by (rule meet_reachable_ok[OF assms])
  have place: "mset (opened_late m) = mset (adopted (waiter m)) + mset (discarded m) + mset (on_its_way m)" "length (opened_late m) \<le> 1"
    using ok by (simp_all add: meeting_ok_def)
  have through: "on_its_way m = []" if "helper m = HelperDone" "waiter m \<notin> {Waiting, Leaves True, Leaves False}"
  proof (cases "waiter m")
    case (Leaves b)
    then show ?thesis using that by (cases b) auto
  qed (use that ok in \<open>auto simp: meeting_ok_def on_its_way_def\<close>)
  have "discarded m = opened_late m" if "helper m = HelperDone" "waiter m \<in> {Left True, Left False}"
  proof -
    have "mset (opened_late m) = mset (discarded m)" using place(1) through that by auto
    with place(2) show ?thesis by (cases "opened_late m"; cases "discarded m") auto
  qed
  then show ?thesis using place through wait_ends_at_the_limit[of limit elapsed m] by auto
qed

text \<open>A run in which the limit passes first and the connection arrives late.\<close>

definition sample_meeting :: "nat meeting" where
  "sample_meeting = helper_discards (Inr 7) (helper_delivers (Inr 7) (guard_drops True (waiter_turns 15 15 meeting_new)))"

lemma sample_meeting_reached: "meet_reachable 15 (id :: db_error \<Rightarrow> db_error) sample_meeting"
proof -
  have "meet_reachable 15 (id :: db_error \<Rightarrow> db_error) (waiter_turns 15 15 (meeting_new :: nat meeting))"
    by (rule met_next[OF met_new]) (rule turn, simp add: meeting_new_def)
  then have "meet_reachable 15 (id :: db_error \<Rightarrow> db_error) (guard_drops True (waiter_turns 15 15 (meeting_new :: nat meeting)))"
    by (rule met_next) (rule drop, simp add: meeting_new_def waiter_turns_def wait_turn_def handoff_new_def)
  then have "meet_reachable 15 (id :: db_error \<Rightarrow> db_error)
      (helper_delivers (attempt_result id (Ended (Inr 7))) (guard_drops True (waiter_turns 15 15 (meeting_new :: nat meeting))))"
    by (rule met_next) (rule attempt_ends, simp add: meeting_new_def waiter_turns_def wait_turn_def handoff_new_def guard_drops_def abandon_handoff_def)
  then have "meet_reachable 15 (id :: db_error \<Rightarrow> db_error)
      (helper_delivers (Inr 7) (guard_drops True (waiter_turns 15 15 (meeting_new :: nat meeting))))" by simp
  then show ?thesis unfolding sample_meeting_def
    by (rule met_next) (rule late_closed, simp add: meeting_new_def waiter_turns_def wait_turn_def handoff_new_def guard_drops_def abandon_handoff_def helper_delivers_def deliver_def)
qed

theorem late_connection_is_closed_once_witness:
  "waiter sample_meeting = Left True \<and> opened_late sample_meeting = [7] \<and> discarded sample_meeting = [7]"
proof -
  have "waiter sample_meeting = Left True" "helper sample_meeting = HelperDone" "opened_late sample_meeting = [7]" by code_simp+
  with late_connection_is_closed_once [OF sample_meeting_reached, of 0] show ?thesis by simp
qed

end
