(* ===== verification/Oracle_Error.thy ===== *)
theory Oracle_Error
  imports Oracle_Connect
begin

text \<open>
  \<^verbatim>\<open>crates/drivers/oracle-thin/src/error.rs\<close>: from the failures of the protocol client to the errors
  of the contract.  A failure of the client is its kind and the text it displays; \<open>OraOther\<close> stands
  for the kinds the source does not name.
\<close>

section \<open>Codes and positions in a server's message\<close>

text \<open>\<^verbatim>\<open>str::lines\<close>: the last line has no end and keeps a carriage return.\<close>

definition strip_cr :: "ustr \<Rightarrow> ustr" where
  "strip_cr l = (if l \<noteq> [] \<and> List.last l = 13 then butlast l else l)"

definition str_lines :: "ustr \<Rightarrow> ustr list" where
  "str_lines s = (let ls = split_lines s in map strip_cr (butlast ls) @ (if List.last ls = [] then [] else [List.last ls]))"

definition first_line :: "ustr \<Rightarrow> ustr" where
  "first_line m = trim_end (case str_lines m of [] \<Rightarrow> m | l # _ \<Rightarrow> l)"

definition digits_value :: "ustr \<Rightarrow> nat" where
  "digits_value ds = foldl (\<lambda>v d. v * 10 + nat (d - 48)) 0 ds"

text \<open>\<^verbatim>\<open>str::parse\<close> of digits: nothing to parse and a value that does not fit are errors.\<close>

definition parse_decimal :: "nat \<Rightarrow> ustr \<Rightarrow> nat option" where
  "parse_decimal bound ds = (if ds = [] \<or> digits_value ds \<ge> bound then None else Some (digits_value ds))"

definition find_code :: "ustr \<Rightarrow> ustr \<Rightarrow> int option" where
  "find_code m pre =
     (case after_first pre m of
        None \<Rightarrow> None
      | Some r \<Rightarrow> map_option int (parse_decimal (2 ^ 31) (takeWhile is_ascii_digit r)))"

fun first_code_of :: "ustr list \<Rightarrow> ustr \<Rightarrow> int option" where
  "first_code_of [] m = None"
| "first_code_of (p # ps) m = (case find_code m p of Some c \<Rightarrow> Some c | None \<Rightarrow> first_code_of ps m)"

definition first_native_code :: "ustr \<Rightarrow> int option" where
  "first_native_code m = first_code_of [us ''ORA-'', us ''PLS-'', us ''TNS-''] m"

definition take_number :: "ustr \<Rightarrow> nat option" where
  "take_number t = parse_decimal (2 ^ 32) (takeWhile is_ascii_digit t)"

definition strip_start :: "ustr \<Rightarrow> ustr \<Rightarrow> ustr option" where
  "strip_start p t = (if starts_with t p then Some (drop (length p) t) else None)"

definition line_position :: "ustr \<Rightarrow> sql_position option" where
  "line_position line =
     (let l = trim_start line in
      opt_bind (case strip_start (us ''ORA-06550:'') l of Some r \<Rightarrow> Some r | None \<Rightarrow> strip_start (us ''ORA-06553:'') l) (\<lambda>r.
      opt_bind (strip_start (us ''line '') (trim_start r)) (\<lambda>rest.
      opt_bind (take_number rest) (\<lambda>number.
      opt_bind (strip_start (nat_text number @ us '', column '') rest) (\<lambda>after.
      opt_bind (take_number after) (\<lambda>column.
        Some (at_line_column number column)))))))"

fun find_map :: "('a \<Rightarrow> 'b option) \<Rightarrow> 'a list \<Rightarrow> 'b option" where
  "find_map f [] = None"
| "find_map f (x # xs) = (case f x of Some y \<Rightarrow> Some y | None \<Rightarrow> find_map f xs)"

definition plsql_position :: "ustr \<Rightarrow> sql_position option" where
  "plsql_position m = find_map line_position (str_lines m)"

section \<open>Classification\<close>

definition classify_code :: "int \<Rightarrow> error_kind" where
  "classify_code code =
     (if code \<in> set [1017, 1004, 1005, 1045, 9911, 28000, 28001, 28002, 28003, 28008, 28009, 28040] then Authentication
      else if code = 1013 then Cancelled
      else if code \<in> set [28, 1012, 1089, 2396, 3113, 3114, 3135, 12571, 12537, 12547, 12152] then NetworkLost
      else if code \<in> set [1031, 1749, 1919, 1924, 1950] then Permission
      else if code \<in> set [1, 1400, 1407] \<or> 2270 \<le> code \<and> code \<le> 2279 \<or> 2290 \<le> code \<and> code \<le> 2299 then Constraint
      else if code \<in> set [60, 1002, 1086, 1555, 1591, 2091, 2092, 8177, 8176] then Transaction
      else if code \<in> set [18, 20, 1000, 1536, 1631, 1632, 1652, 1653, 1654, 1688, 4030, 4031] then Resource
      else if code \<in> set [932, 1438, 1722, 1830, 1839, 1841, 1847, 1858, 1861, 1866, 6502, 12899] then DataConversion
      else if 900 \<le> code \<and> code \<le> 931 \<or> 933 \<le> code \<and> code \<le> 999 \<or> code \<in> set [1747, 1756, 1789, 1790, 6550, 6553, 24344] then Syntax
      else if 12000 \<le> code \<and> code \<le> 12999 then Connection
      else Other)"

definition from_server_message :: "ustr \<Rightarrow> db_error" where
  "from_server_message m =
     (let code = first_native_code m;
          kind = (case code of None \<Rightarrow> Other | Some c \<Rightarrow> classify_code c);
          e = error_new kind (first_line m);
          e = (case code of Some c \<Rightarrow> with_native \<lparr>native_code = c, native_message = m\<rparr> e | None \<Rightarrow> e);
          e = (case plsql_position m of Some p \<Rightarrow> with_position p e | None \<Rightarrow> e)
      in if kind = NetworkLost then with_session_state Lost e else e)"

datatype ora_kind =
  OraDbError | CallTimeoutExceeded | DeadConnection | UnableToRecover | StreamOperation | NotConnected
| InvalidServiceName | InvalidSid | ListenerRefusedConnection | UnexpectedRefuse | InvalidRedirect
| InvalidConnectString | NoConnectString | NoCredentials | NoConfigDir | InvalidNetworkName | InvalidDescriptorNode
| IfileCycleDetected | TnsAliasNotFound | TlsOperation | PemFileOperation | WalletUnreadable | WalletPrivateKeyInvalid
| WalletPasswordMissingOrInvalid | InvalidBindName | MissingBindValue | WrongNumPositionalBinds | NameHasEmbeddedQuotes
| ColumnTruncated | UnsupportedConversion | InvalidOracleNumber | InvalidEncodedString | InvalidEncodedVector
| InvalidOsonEncodedBytes | OutOfRange | ValueWasNull | DifferentTypes | IntegerTooLarge | InvalidColumnIndex | InvalidColumnName
| UnsupportedDbType | NotImplemented | ServerVersionNotSupported | UnsupportedArrowType | UnsupportedOsonNodeType
| UnsupportedOsonVersion | UnsupportedVectorFormat | UnsupportedVectorVersion | UnsupportedDeepDataSecurityFeature
| EndUserSecurityContextRequiresTcps | ParseError | NoDataFound | OraOther

record ora_error =
  ora_kind :: ora_kind
  ora_text :: ustr

definition transport_kind :: "ora_kind \<Rightarrow> error_kind" where
  "transport_kind k =
     (if k \<in> {InvalidServiceName, InvalidSid, ListenerRefusedConnection, UnexpectedRefuse, InvalidRedirect} then Connection
      else if k \<in> {InvalidConnectString, NoConnectString, NoCredentials, NoConfigDir, InvalidNetworkName, InvalidDescriptorNode,
          IfileCycleDetected, TnsAliasNotFound, TlsOperation, PemFileOperation, WalletUnreadable, WalletPrivateKeyInvalid,
          WalletPasswordMissingOrInvalid, InvalidBindName, MissingBindValue, WrongNumPositionalBinds, NameHasEmbeddedQuotes} then Configuration
      else if k \<in> {ColumnTruncated, UnsupportedConversion, InvalidOracleNumber, InvalidEncodedString, InvalidEncodedVector,
          InvalidOsonEncodedBytes, OutOfRange, ValueWasNull, DifferentTypes, IntegerTooLarge, InvalidColumnIndex, InvalidColumnName}
        then DataConversion
      else if k \<in> {UnsupportedDbType, NotImplemented, ServerVersionNotSupported, UnsupportedArrowType, UnsupportedOsonNodeType,
          UnsupportedOsonVersion, UnsupportedVectorFormat, UnsupportedVectorVersion, UnsupportedDeepDataSecurityFeature,
          EndUserSecurityContextRequiresTcps} then UnsupportedKind
      else if k = ParseError then Syntax
      else if k = NoDataFound then Other
      else DriverInternal)"

definition map_ora :: "ora_error \<Rightarrow> db_error" where
  "map_ora e =
     (case ora_kind e of
        OraDbError \<Rightarrow> from_server_message (ora_text e)
      | CallTimeoutExceeded \<Rightarrow> error_new Timeout (us ''the call timeout armed for this statement expired'')
      | DeadConnection \<Rightarrow> error_new NetworkLost (us ''the database or network closed the connection'')
      | UnableToRecover \<Rightarrow> error_new NetworkLost (us ''the connection could not be recovered and was closed'')
      | StreamOperation \<Rightarrow> error_new NetworkLost (ora_text e)
      | NotConnected \<Rightarrow> connection_closed (us ''connection'')
      | k \<Rightarrow> error_new (transport_kind k) (ora_text e))"

definition map_connect :: "ora_error \<Rightarrow> db_error" where
  "map_connect e =
     (let mapped = map_ora e in
      if error_kind mapped = Timeout then error_new Connection
        (us ''the database could not be reached: the connection attempt timed out in the network layer. The wait was the operating system's own, not a deadline Reldex asked for '' @ [0x2014] @
         us '' this driver's connect limit reports itself in as many words when it is what ended the attempt, and the Oracle crate has no connect timeout of any kind (upstream gap U-15)'')
      else if error_kind mapped \<noteq> NetworkLost then mapped
      else let rebuilt = with_retryable (retryable mapped)
                 (error_new Connection (us ''the database could not be reached: '' @ error_message mapped))
           in case native mapped of Some n \<Rightarrow> with_native n rebuilt | None \<Rightarrow> rebuilt)"

definition explain_parsed_placeholders :: "db_error \<Rightarrow> db_error" where
  "explain_parsed_placeholders e =
     (if error_kind e \<noteq> Configuration \<or> \<not> contains (error_message e) (us ''positional bind values are required but 0 were provided'') then e
      else with_session_state Usable (error_new UnsupportedKind
        (us ''this statement declares no bind values, but the Oracle crate's SQL parser treated a `:name` in its text as a bind placeholder and then required a value for it. `:NEW` and `:OLD` in a trigger body are the usual cause: the parser applies the same scan to DDL as to DML and offers no way to turn it off. Submitting the same text inside a PL/SQL block works, because a quoted string is skipped: BEGIN EXECUTE IMMEDIATE q'' @ [39] @ us ''[<the DDL>]'' @ [39] @ us ''; END;. Upstream reported: '' @ error_message e)))"

definition ORA_SUCCESS_WITH_COMPILATION_ERROR :: int where "ORA_SUCCESS_WITH_COMPILATION_ERROR = 24344"

definition is_compiled_with_errors :: "db_error \<Rightarrow> bool" where
  "is_compiled_with_errors e \<longleftrightarrow> (case native e of Some n \<Rightarrow> native_code n = ORA_SUCCESS_WITH_COMPILATION_ERROR | None \<Rightarrow> False)"

definition compilation_warning :: "db_error \<Rightarrow> warning" where
  "compilation_warning e = \<lparr>warning_kind = CompiledWithErrors,
     warning_message = us ''the object was created but did not compile cleanly: '' @ error_message e @ us ''. Query USER_ERRORS (or ALL_ERRORS) for the details'',
     warning_native = native e, warning_position = None\<rparr>"

text \<open>\<open>markers\<close> are the texts in which the TLS library says that a name does not match.\<close>

definition names_a_certificate_name_failure :: "ustr list \<Rightarrow> ustr \<Rightarrow> bool" where
  "names_a_certificate_name_failure markers m = list_ex (contains (map to_ascii_lowercase m)) markers"

definition explain_name_verification :: "ustr list \<Rightarrow> db_error \<Rightarrow> db_error" where
  "explain_name_verification markers e =
     (if \<not> names_a_certificate_name_failure markers (error_message e) then e
      else e\<lparr>error_message := error_message e @ us ''. The name this driver verifies is the one in the descriptor's HOST, matched against the certificate's subjectAltName '' @ [0x2014] @
        us '' not its distinguished name. SSL_SERVER_CERT_DN and SSL_SERVER_DN_MATCH have no influence on it: the Oracle crate underneath parses them, sends them to the server and never applies them (upstream gap U-14). A certificate that identifies the server only by DN, or a HOST its subjectAltName does not list, cannot be accepted by any descriptor setting''\<rparr>)"

definition map_lob_read :: "ustr \<Rightarrow> db_error" where
  "map_lob_read t =
     (if first_native_code t \<noteq> None then from_server_message t
      else if contains t (us ''the database or network closed the connection'') \<or> contains t (us ''stream operation failed'') \<or>
          contains t (us ''unable to recover from error'')
        then with_session_state Lost (error_new NetworkLost (us ''the connection failed while reading a large object: '' @ t))
      else if contains t (us ''not connected to database'') then connection_closed (us ''LOB stream'')
      else if contains t (us ''the configured call timeout was exceeded'')
        then error_new Timeout (us ''the call timeout armed for this connection expired while reading a large object'')
      else if contains t (us ''invalid encoded string'') \<or> contains t (us ''invalid utf-16'')
        then error_new DataConversion (us ''a large object contained text this driver could not decode: '' @ t)
      else error_internal (us ''reading a large object failed: '' @ t))"

end
