(* ===== verification/Oracle_Timestamp.thy ===== *)
theory Oracle_Timestamp
  imports Temporal "HOL-Library.Signed_Division"
begin

text \<open>
  Timestamps across the Oracle driver: \<^verbatim>\<open>to_timestamp\<close>, \<^verbatim>\<open>shift_minutes\<close> and the calendar of
  \<^verbatim>\<open>crates/drivers/oracle-thin/src/value.rs\<close>, and \<^verbatim>\<open>to_oracle_timestamp\<close> of \<^verbatim>\<open>binds.rs\<close>.
  A timestamp of the protocol client is the fields it is made of; one without a zone has zero
  offsets.  Rust's division is \<open>sdiv\<close>; the values are far within the ranges of their types, and the
  conversions between them are written out.
\<close>

section \<open>The calendar\<close>

definition days_from_civil :: "int \<Rightarrow> nat \<Rightarrow> nat \<Rightarrow> int" where
  "days_from_civil y mo d =
     (let y = y - (if mo \<le> 2 then 1 else 0);
          era = (if y \<ge> 0 then y else y - 399) sdiv 400;
          yoe = y - era * 400;
          m = int mo;
          doy = (153 * (m + (if m > 2 then -3 else 9)) + 2) sdiv 5 + int d - 1;
          doe = yoe * 365 + yoe sdiv 4 - yoe sdiv 100 + doy
      in era * 146097 + doe - 719468)"

definition i16_or :: "int \<Rightarrow> int \<Rightarrow> int" where
  "i16_or z v = (if -32768 \<le> v \<and> v \<le> 32767 then v else z)"

definition u8_or :: "nat \<Rightarrow> int \<Rightarrow> nat" where
  "u8_or z v = (if 0 \<le> v \<and> v \<le> 255 then nat v else z)"

definition civil_from_days :: "int \<Rightarrow> int \<times> nat \<times> nat" where
  "civil_from_days days =
     (let z = days + 719468;
          era = (if z \<ge> 0 then z else z - 146096) sdiv 146097;
          doe = z - era * 146097;
          yoe = (doe - doe sdiv 1460 + doe sdiv 36524 - doe sdiv 146096) sdiv 365;
          y = yoe + era * 400;
          doy = doe - (365 * yoe + yoe sdiv 4 - yoe sdiv 100);
          mp = (5 * doy + 2) sdiv 153;
          d = doy - (153 * mp + 2) sdiv 5 + 1;
          m = mp + (if mp < 10 then 3 else -9)
      in (i16_or 0 (y + (if m \<le> 2 then 1 else 0)), u8_or 1 m, u8_or 1 d))"

definition shift_minutes :: "int \<Rightarrow> nat \<Rightarrow> nat \<Rightarrow> nat \<Rightarrow> nat \<Rightarrow> int \<Rightarrow> int \<times> nat \<times> nat \<times> nat \<times> nat" where
  "shift_minutes y mo d h mi minutes =
     (let total = days_from_civil y mo d * 24 * 60 + int h * 60 + int mi + minutes;
          days = total div (24 * 60);
          within = total mod (24 * 60);
          (y, mo, d) = civil_from_days (if -(2 ^ 31) \<le> days \<and> days < 2 ^ 31 then days else 0)
      in (y, mo, d, u8_or 0 (within sdiv 60), u8_or 0 (within smod 60)))"

section \<open>Conversions\<close>

record oracle_timestamp =
  ora_year :: int
  ora_month :: nat
  ora_day :: nat
  ora_hour :: nat
  ora_minute :: nat
  ora_second :: nat
  ora_nanoseconds :: nat
  ora_tz_hour :: int
  ora_tz_minute :: int

definition i8_or_zero :: "int \<Rightarrow> int" where
  "i8_or_zero v = (if -128 \<le> v \<and> v \<le> 127 then v else 0)"

definition to_oracle_timestamp :: "timestamp \<Rightarrow> oracle_timestamp" where
  "to_oracle_timestamp t =
     (case zone t of
        Offset minutes \<Rightarrow>
          (let (y, mo, d, h, mi) = shift_minutes (year t) (month t) (day t) (hour t) (minute t) (- minutes)
           in \<lparr>ora_year = y, ora_month = mo, ora_day = d, ora_hour = h, ora_minute = mi, ora_second = second t,
               ora_nanoseconds = nanosecond t, ora_tz_hour = i8_or_zero (minutes sdiv 60), ora_tz_minute = i8_or_zero (minutes smod 60)\<rparr>)
      | Unspecified \<Rightarrow>
          \<lparr>ora_year = year t, ora_month = month t, ora_day = day t, ora_hour = hour t, ora_minute = minute t, ora_second = second t,
           ora_nanoseconds = nanosecond t, ora_tz_hour = 0, ora_tz_minute = 0\<rparr>)"

definition to_timestamp :: "oracle_timestamp \<Rightarrow> bool \<Rightarrow> temporal_error + timestamp" where
  "to_timestamp v zoned =
     (if \<not> zoned
      then case from_source (ora_year v) (ora_month v) (ora_day v) (ora_hour v) (ora_minute v) (ora_second v) of
             Inl e \<Rightarrow> Inl e | Inr t \<Rightarrow> with_nanosecond (ora_nanoseconds v) t
      else let minutes = ora_tz_hour v * 60 + ora_tz_minute v;
               (y, mo, d, h, mi) = shift_minutes (ora_year v) (ora_month v) (ora_day v) (ora_hour v) (ora_minute v) minutes
           in case from_source y mo d h mi (ora_second v) of
                Inl e \<Rightarrow> Inl e
              | Inr t \<Rightarrow> (case with_nanosecond (ora_nanoseconds v) t of
                  Inl e \<Rightarrow> Inl e
                | Inr t \<Rightarrow> (case zone_offset minutes of Inl e \<Rightarrow> Inl e | Inr z \<Rightarrow> Inr (with_zone z t))))"

text \<open>\<^verbatim>\<open>render_local_time_zone\<close>; a negative year is written with its sign within the four places.\<close>

definition render_local_time_zone :: "oracle_timestamp \<Rightarrow> ustr" where
  "render_local_time_zone v =
     (if ora_year v < 0 then [45] @ pad (if ora_year v > -1000 then 3 else 4) (nat (- ora_year v)) else pad 4 (nat (ora_year v))) @
     [45] @ pad 2 (ora_month v) @ [45] @ pad 2 (ora_day v) @ [84] @ pad 2 (ora_hour v) @ [58] @ pad 2 (ora_minute v) @ [58] @
     pad 2 (ora_second v) @ [46] @ pad 9 (ora_nanoseconds v)"

section \<open>The calendar is a bijection\<close>


















section \<open>Neighbouring days\<close>











section \<open>Shifting\<close>












text \<open>
  A leap day that only the Julian calendar has comes back as the day after it, although nothing is
  shifted and no reform is near.
\<close>

lemma julian_leap_day_moves:
  "to_timestamp (to_oracle_timestamp \<lparr>year = 1500, month = 2, day = 29, hour = 12, minute = 0, second = 0, nanosecond = 0, zone = Offset 0\<rparr>) True =
   Inr \<lparr>year = 1500, month = 3, day = 1, hour = 12, minute = 0, second = 0, nanosecond = 0, zone = Offset 0\<rparr>"
proof -
  have "days_from_civil 1500 2 29 = -171605" "civil_from_days (-171605) = (1500, 3, 1)" by code_simp+
  then have "shift_minutes 1500 2 29 12 0 0 = (1500, 3, 1, 12, 0)" by (simp add: shift_minutes_def u8_or_def)
  moreover have "days_from_civil 1500 3 1 = -171605" by code_simp
  then have "shift_minutes 1500 3 1 12 0 0 = (1500, 3, 1, 12, 0)"
    using \<open>civil_from_days (-171605) = (1500, 3, 1)\<close> by (simp add: shift_minutes_def u8_or_def)
  ultimately show ?thesis
    by (simp add: to_timestamp_def to_oracle_timestamp_def i8_or_zero_def from_source_def days_in_month_def with_nanosecond_def
        zone_offset_def with_zone_def)
qed

end
