(* ===== verification/Utf8_Text.thy ===== *)
theory Utf8_Text
  imports Reldex_Prelude
begin

text \<open>
  UTF-8 as the standard library encodes and decodes it: \<^verbatim>\<open>str::from_utf8\<close> accepts what decodes
  without a fault, and \<^verbatim>\<open>String::from_utf8_lossy\<close> replaces each longest prefix of a broken sequence
  by U+FFFD.  A byte is its value.
\<close>

type_synonym bytes = "nat list"

definition utf8_char :: "uchar \<Rightarrow> bytes" where
  "utf8_char c =
     (let n = nat c in
      if n < 0x80 then [n]
      else if n < 0x800 then [0xC0 + n div 64, 0x80 + n mod 64]
      else if n < 0x10000 then [0xE0 + n div 4096, 0x80 + n div 64 mod 64, 0x80 + n mod 64]
      else [0xF0 + n div 262144, 0x80 + n div 4096 mod 64, 0x80 + n div 64 mod 64, 0x80 + n mod 64])"

definition utf8_encode :: "ustr \<Rightarrow> bytes" where
  "utf8_encode s = concat (map utf8_char s)"

definition is_continuation :: "nat \<Rightarrow> bool" where
  "is_continuation b \<longleftrightarrow> 0x80 \<le> b \<and> b \<le> 0xBF"

definition second_of_three :: "nat \<Rightarrow> nat \<Rightarrow> bool" where
  "second_of_three b c \<longleftrightarrow>
     (if b = 0xE0 then 0xA0 \<le> c \<and> c \<le> 0xBF else if b = 0xED then 0x80 \<le> c \<and> c \<le> 0x9F else is_continuation c)"

definition second_of_four :: "nat \<Rightarrow> nat \<Rightarrow> bool" where
  "second_of_four b c \<longleftrightarrow>
     (if b = 0xF0 then 0x90 \<le> c \<and> c \<le> 0xBF else if b = 0xF4 then 0x80 \<le> c \<and> c \<le> 0x8F else is_continuation c)"

text \<open>The character a text begins with, if it is whole, and what follows it or the broken part.\<close>

definition utf8_next :: "nat \<Rightarrow> bytes \<Rightarrow> uchar option \<times> bytes" where
  "utf8_next b r =
     (if b < 0x80 then (Some (int b), r)
      else if 0xC2 \<le> b \<and> b \<le> 0xDF then
        (case r of c # r1 \<Rightarrow> if is_continuation c then (Some (int ((b - 0xC0) * 64 + (c - 0x80))), r1) else (None, r) | [] \<Rightarrow> (None, []))
      else if 0xE0 \<le> b \<and> b \<le> 0xEF then
        (case r of
           c # r1 \<Rightarrow>
             if second_of_three b c
             then case r1 of d # r2 \<Rightarrow> if is_continuation d then (Some (int ((b - 0xE0) * 4096 + (c - 0x80) * 64 + (d - 0x80))), r2) else (None, r1)
                           | [] \<Rightarrow> (None, [])
             else (None, r)
         | [] \<Rightarrow> (None, []))
      else if 0xF0 \<le> b \<and> b \<le> 0xF4 then
        (case r of
           c # r1 \<Rightarrow>
             if second_of_four b c
             then case r1 of
                    d # r2 \<Rightarrow>
                      if is_continuation d
                      then case r2 of
                             e # r3 \<Rightarrow> if is_continuation e
                               then (Some (int ((b - 0xF0) * 262144 + (c - 0x80) * 4096 + (d - 0x80) * 64 + (e - 0x80))), r3) else (None, r2)
                           | [] \<Rightarrow> (None, [])
                      else (None, r1)
                  | [] \<Rightarrow> (None, [])
             else (None, r)
         | [] \<Rightarrow> (None, []))
      else (None, r))"

lemma utf8_next_length: "utf8_next b r = (c, s) \<Longrightarrow> length s \<le> length r"
  by (auto simp: utf8_next_def split: if_splits list.splits)

text \<open>The text, with a replacement for each broken part, and whether there was one.\<close>

function utf8_decode :: "bytes \<Rightarrow> ustr \<times> bool" where
  "utf8_decode [] = ([], False)"
| "utf8_decode (b # r) =
     (let (c, s) = utf8_next b r; (t, bad) = utf8_decode s
      in case c of Some c \<Rightarrow> (c # t, bad) | None \<Rightarrow> (0xFFFD # t, True))"
  by pat_completeness auto
termination
  by (relation "measure length") (auto dest!: utf8_next_length[OF sym])

section \<open>Decoding what was encoded\<close>

lemma join_digits: "x = y * 64 + r \<Longrightarrow> y = z * 64 + p \<Longrightarrow> x = z * 4096 + p * 64 + r" for x y z p r :: nat
  by simp

lemma split_digit: "n div k = n div (k * 64) * 64 + n div k mod 64" for n k :: nat
  using div_mult_mod_eq[of "n div k" 64] by (simp only: div_mult2_eq)

lemma three_digits: "n = n div 4096 * 4096 + n div 64 mod 64 * 64 + n mod 64" for n :: nat
  by (rule join_digits[of _ "n div 64"]) (use split_digit[of n 64] in simp_all)

lemma four_digits: "n = n div 262144 * 262144 + n div 4096 mod 64 * 4096 + n div 64 mod 64 * 64 + n mod 64" for n :: nat
proof -
  define a b c d where "a = n div 4096" and "b = n div 262144" and "c = n div 64 mod 64" and "d = n mod 64"
  have "n = a * 4096 + c * 64 + d" unfolding a_def c_def d_def by (rule three_digits)
  moreover have "a = b * 64 + a mod 64" using split_digit[of n 4096] by (simp add: a_def b_def)
  ultimately have "n = b * 262144 + a mod 64 * 4096 + c * 64 + d" by linarith
  then show ?thesis by (simp only: a_def b_def c_def d_def)
qed

lemma utf8_next_char:
  assumes "is_scalar c"
  shows "\<exists>b r. utf8_char c = b # r \<and> utf8_next b (r @ s) = (Some c, s)"
proof -
  define n where "n = nat c"
  have c: "c = int n" "n \<le> 0x10FFFF" "n < 0xD800 \<or> n > 0xDFFF" using assms by (auto simp: n_def is_scalar_def)
  consider "n < 0x80" | "0x80 \<le> n" "n < 0x800" | "0x800 \<le> n" "n < 0x10000" | "0x10000 \<le> n" by linarith
  then show ?thesis
  proof cases
    case 1
    then show ?thesis by (simp add: utf8_char_def utf8_next_def c(1))
  next
    case 2
    define q r where "q = n div 64" and "r = n mod 64"
    have n: "n = q * 64 + r" "r < 64" by (simp_all add: q_def r_def)
    then have "2 \<le> q" "q \<le> 31" using 2 by linarith+
    then have "utf8_next (192 + q) ([128 + r] @ s) = (Some c, s)"
      using n(2) by (simp add: utf8_next_def is_continuation_def c(1) n(1))
    moreover have "utf8_char c = [192 + q, 128 + r]" using 2 by (simp add: utf8_char_def c(1) q_def r_def)
    ultimately show ?thesis by blast
  next
    case 3
    define q p r where "q = n div 4096" and "p = n div 64 mod 64" and "r = n mod 64"
    have n: "n = q * 4096 + p * 64 + r" "p < 64" "r < 64" unfolding q_def p_def r_def by (rule three_digits, simp_all)
    then have "q \<le> 15" "q = 0 \<longrightarrow> 32 \<le> p" "q = 13 \<longrightarrow> p < 32" using 3 c(3) by linarith+
    then have "second_of_three (224 + q) (128 + p)" using n by (auto simp: second_of_three_def is_continuation_def)
    then have "utf8_next (224 + q) ([128 + p, 128 + r] @ s) = (Some c, s)"
      using n(2,3) \<open>q \<le> 15\<close> by (simp add: utf8_next_def is_continuation_def c(1) n(1))
    moreover have "utf8_char c = [224 + q, 128 + p, 128 + r]" using 3 by (simp add: utf8_char_def c(1) q_def p_def r_def)
    ultimately show ?thesis by blast
  next
    case 4
    define u q p r where "u = n div 262144" and "q = n div 4096 mod 64" and "p = n div 64 mod 64" and "r = n mod 64"
    have n: "n = u * 262144 + q * 4096 + p * 64 + r" "q < 64" "p < 64" "r < 64"
      unfolding u_def q_def p_def r_def by (rule four_digits, simp_all)
    then have "u \<le> 4" "u = 0 \<longrightarrow> 16 \<le> q" "u = 4 \<longrightarrow> q < 16" using 4 c(2) by linarith+
    then have "second_of_four (240 + u) (128 + q)" using n by (auto simp: second_of_four_def is_continuation_def)
    then have "utf8_next (240 + u) ([128 + q, 128 + p, 128 + r] @ s) = (Some c, s)"
      using n(2-4) \<open>u \<le> 4\<close> by (simp add: utf8_next_def is_continuation_def c(1) n(1))
    moreover have "utf8_char c = [240 + u, 128 + q, 128 + p, 128 + r]" using 4 by (simp add: utf8_char_def c(1) u_def q_def p_def r_def)
    ultimately show ?thesis by blast
  qed
qed

lemma utf8_char_length: "is_scalar c \<Longrightarrow> length (utf8_char c) = len_utf8 c"
  by (auto simp: utf8_char_def len_utf8_def Let_def is_scalar_def)

lemma utf8_encode_length: "list_all is_scalar s \<Longrightarrow> length (utf8_encode s) = byte_len s"
  by (induction s) (simp_all add: utf8_encode_def utf8_char_length)

lemma utf8_decode_encode: "list_all is_scalar s \<Longrightarrow> utf8_decode (utf8_encode s) = (s, False)"
proof (induction s)
  case (Cons c s)
  then obtain b r where b: "utf8_char c = b # r" "utf8_next b (r @ utf8_encode s) = (Some c, utf8_encode s)"
    using utf8_next_char[of c "utf8_encode s"] by auto
  have "utf8_encode (c # s) = b # (r @ utf8_encode s)" using b(1) by (simp add: utf8_encode_def)
  then show ?case using b(2) Cons by simp
qed (simp add: utf8_encode_def)

end
