(* ===== verification/Oracle_Output.thy ===== *)
theory Oracle_Output
  imports Utf8_Text Oracle_Error Execution_Outcome
begin

text \<open>
  \<^verbatim>\<open>crates/drivers/oracle-thin/src/server_output.rs\<close>: the lines of \<^verbatim>\<open>DBMS_OUTPUT\<close>, packed by a block of
  PL/SQL on the server and unpacked by the driver.  The block is part of the source; \<open>take_block\<close> is
  its loop on the lines the server's buffer holds, as the bytes of their UTF-8 form.  How a block
  that was sent ends is an argument of \<open>take_output\<close>.
\<close>

section \<open>Switching\<close>

definition MIN_BUFFER_BYTES :: nat where "MIN_BUFFER_BYTES = 2000"

definition MAX_BUFFER_BYTES :: nat where "MAX_BUFFER_BYTES = 1000000"

definition clamp_buffer :: "nat \<Rightarrow> nat" where
  "clamp_buffer n = clamp n MIN_BUFFER_BYTES MAX_BUFFER_BYTES"

fun effective_setting :: "server_output_setting \<Rightarrow> server_output_setting" where
  "effective_setting (Enabled (BufferBytes n)) = Enabled (BufferBytes (clamp_buffer n))"
| "effective_setting s = s"

text \<open>The block that is sent, with its one bind.\<close>

fun setting_block :: "server_output_setting \<Rightarrow> ustr \<times> nat option" where
  "setting_block Disabled = (us ''BEGIN SYS.DBMS_OUTPUT.DISABLE; END;'', None)"
| "setting_block (Enabled UnlimitedBuffer) = (us ''BEGIN SYS.DBMS_OUTPUT.ENABLE(NULL); END;'', None)"
| "setting_block (Enabled (BufferBytes n)) = (us ''BEGIN SYS.DBMS_OUTPUT.ENABLE(:1); END;'', Some (clamp_buffer n))"

definition set_output :: "(ustr \<times> nat option \<Rightarrow> ora_error + unit) \<Rightarrow> server_output_setting \<Rightarrow> db_error + server_output_setting" where
  "set_output run s = (case run (setting_block s) of Inl e \<Rightarrow> Inl (map_ora e) | Inr _ \<Rightarrow> Inr (effective_setting s))"

section \<open>The block on the server\<close>



text \<open>\<^verbatim>\<open>TO_CHAR(l_len, 'FM00000')\<close> as bytes.\<close>

fun decimal_bytes :: "nat \<Rightarrow> nat \<Rightarrow> bytes" where
  "decimal_bytes 0 n = []"
| "decimal_bytes (Suc w) n = decimal_bytes w (n div 10) @ [48 + n mod 10]"


text \<open>An empty RAW is NULL.\<close>

definition raw :: "bytes \<Rightarrow> bytes option" where
  "raw b = (if b = [] then None else Some b)"



section \<open>Unpacking\<close>







definition or_empty :: "bytes option \<Rightarrow> bytes" where
  "or_empty b = (case b of None \<Rightarrow> [] | Some b \<Rightarrow> b)"


section \<open>Packing and unpacking\<close>

lemma decimal_bytes_length [simp]: "length (decimal_bytes w n) = w"
  by (induction w arbitrary: n) auto



definition frame :: "bytes \<Rightarrow> bytes" where
  "frame line = decimal_bytes 5 (length line) @ line"

definition frames :: "bytes list \<Rightarrow> bytes" where
  "frames ls = concat (map frame ls)"





lemma frames_eq_Nil: "frames ls = [] \<longleftrightarrow> ls = []"
  by (cases ls) (auto simp: frames_def frame_def simp flip: length_0_conv)

lemma or_empty_raw [simp]: "or_empty (raw b) = b"
  by (simp add: or_empty_def raw_def)





end
