(* ===== verification/Oracle_Lob.thy ===== *)
theory Oracle_Lob
  imports Utf8_Text Oracle_Error
begin

text \<open>
  \<^verbatim>\<open>crates/drivers/oracle-thin/src/lob.rs\<close>: reading a large object through a staging buffer of fixed
  size.  The upstream object is a parameter: \<open>reader l n\<close> is one \<^verbatim>\<open>Lob::read\<close> into \<open>n\<close> bytes, an error being
  its text, and what is left of the object afterwards.
\<close>

section \<open>The stream\<close>

datatype lob_kind = Character | NationalCharacter | Binary

definition lob_is_character :: "lob_kind \<Rightarrow> bool" where
  "lob_is_character k \<longleftrightarrow> k = Character \<or> k = NationalCharacter"

definition STAGING_BYTES :: nat where "STAGING_BYTES = 64 * 1024"

definition MIN_STAGING_BYTES :: nat where "MIN_STAGING_BYTES = 64"

text \<open>\<open>stream_staged\<close> is the part of the staging buffer between the position and the filled end.\<close>

record 'l lob_stream =
  stream_lob :: 'l
  stream_kind :: lob_kind
  stream_size :: "nat option"
  stream_staged :: bytes
  stream_exhausted :: bool
  stream_failed :: bool

definition lob_stream_new :: "('l \<Rightarrow> nat option) \<Rightarrow> 'l \<Rightarrow> lob_kind \<Rightarrow> 'l lob_stream" where
  "lob_stream_new get_size l k =
     \<lparr>stream_lob = l, stream_kind = k, stream_size = (if k = Binary then get_size l else None), stream_staged = [],
      stream_exhausted = False, stream_failed = False\<rparr>"

definition is_split_character :: "ustr \<Rightarrow> bool" where
  "is_split_character t \<longleftrightarrow> contains t (us ''invalid encoded string'') \<or> contains t (us ''invalid utf-16'')"

function refill_loop :: "('l \<Rightarrow> nat \<Rightarrow> (ustr + bytes) \<times> 'l) \<Rightarrow> nat \<Rightarrow> 'l lob_stream \<Rightarrow> db_error option \<times> 'l lob_stream" where
  "refill_loop reader limit s =
     (case reader (stream_lob s) limit of
        (Inr b, l) \<Rightarrow> if b = [] then (None, s\<lparr>stream_lob := l, stream_exhausted := True\<rparr>) else (None, s\<lparr>stream_lob := l, stream_staged := b\<rparr>)
      | (Inl e, l) \<Rightarrow>
          if is_split_character e \<and> MIN_STAGING_BYTES < limit then refill_loop reader (limit - 3) (s\<lparr>stream_lob := l\<rparr>)
          else (Some (map_lob_read e), s\<lparr>stream_lob := l, stream_failed := True\<rparr>))"
  by pat_completeness auto
termination
  by (relation "measure (\<lambda>(_, limit, _). limit)") (auto simp: MIN_STAGING_BYTES_def)

declare refill_loop.simps [simp del]

definition refill :: "('l \<Rightarrow> nat \<Rightarrow> (ustr + bytes) \<times> 'l) \<Rightarrow> 'l lob_stream \<Rightarrow> db_error option \<times> 'l lob_stream" where
  "refill reader s = refill_loop reader STAGING_BYTES (s\<lparr>stream_staged := []\<rparr>)"

text \<open>A byte with its two high bits \<open>10\<close> continues a sequence.\<close>

fun back_off :: "bytes \<Rightarrow> nat \<Rightarrow> nat" where
  "back_off available 0 = 0"
| "back_off available (Suc n) = (if available ! Suc n div 64 mod 4 = 2 then back_off available n else Suc n)"

definition copyable :: "lob_kind \<Rightarrow> bytes \<Rightarrow> nat \<Rightarrow> nat" where
  "copyable k available n =
     (let m = min (length available) n in
      if \<not> lob_is_character k \<or> m = length available then m else back_off available m)"

definition serve_chunk :: "nat \<Rightarrow> 'l lob_stream \<Rightarrow> (db_error + bytes) \<times> 'l lob_stream" where
  "serve_chunk n s =
     (let m = copyable (stream_kind s) (stream_staged s) n in
      if m = 0 then (Inl (error_new DataConversion (us ''chunk buffer is too small to hold one character'')), s)
      else (Inr (take m (stream_staged s)), s\<lparr>stream_staged := drop m (stream_staged s)\<rparr>))"

definition read_chunk :: "('l \<Rightarrow> nat \<Rightarrow> (ustr + bytes) \<times> 'l) \<Rightarrow> bool \<Rightarrow> nat \<Rightarrow> 'l lob_stream \<Rightarrow> (db_error + bytes) \<times> 'l lob_stream" where
  "read_chunk reader conn_closed n s =
     (if conn_closed then (Inl (connection_closed (us ''LOB stream'')), s)
      else if stream_failed s then (Inl (error_internal (us ''LOB stream read after a failure; the only legal action was to drop it'')), s)
      else if n = 0 then (Inr [], s)
      else if stream_staged s = [] then
        (if stream_exhausted s then (Inr [], s)
         else case refill reader s of
           (Some e, t) \<Rightarrow> (Inl e, t)
         | (None, t) \<Rightarrow> if stream_staged t = [] then (Inr [], t) else serve_chunk n t)
      else serve_chunk n s)"

text \<open>The chunks of a whole read, to the empty one, with the buffer sizes of each call.\<close>

fun read_chunks :: "('l \<Rightarrow> nat \<Rightarrow> (ustr + bytes) \<times> 'l) \<Rightarrow> nat list \<Rightarrow> 'l lob_stream \<Rightarrow> (db_error + bytes list) \<times> 'l lob_stream" where
  "read_chunks reader [] s = (Inr [], s)"
| "read_chunks reader (n # ns) s =
     (case read_chunk reader False n s of
        (Inl e, t) \<Rightarrow> (Inl e, t)
      | (Inr b, t) \<Rightarrow> if b = [] then (Inr [], t)
          else case read_chunks reader ns t of (Inl e, u) \<Rightarrow> (Inl e, u) | (Inr bs, u) \<Rightarrow> (Inr (b # bs), u))"

section \<open>What upstream promises\<close>

text \<open>
  The documented behaviour of a character object's \<^verbatim>\<open>read\<close>, \<open>left l\<close> being the text not read yet: a read returns
  the UTF-8 of a next part of it, an empty one only at its end, within the buffer; it fails without having
  read anything when its last unit cuts a surrogate pair, and then not with one unit less.
\<close>

definition reads_text :: "('l \<Rightarrow> nat \<Rightarrow> (ustr + bytes) \<times> 'l) \<Rightarrow> ('l \<Rightarrow> ustr) \<Rightarrow> bool" where
  "reads_text reader left \<longleftrightarrow>
     (\<forall>l n. 60 \<le> n \<longrightarrow>
       (case reader l n of
          (Inr b, l1) \<Rightarrow> length b \<le> n \<and> (b = [] \<longleftrightarrow> left l = []) \<and> (\<exists>t. b = utf8_encode t \<and> left l = t @ left l1)
        | (Inl e, l1) \<Rightarrow> is_split_character e \<and> left l1 = left l \<and> (\<exists>b l2. reader l1 (n - 3) = (Inr b, l2))))"

text \<open>Its documented arithmetic: a third of the buffer's bytes as UCS-2 units.\<close>

definition ucs2_units :: "uchar \<Rightarrow> nat" where
  "ucs2_units c = (if c < 0x10000 then 1 else 2)"

fun take_units :: "nat \<Rightarrow> ustr \<Rightarrow> (ustr \<times> ustr) option" where
  "take_units n [] = Some ([], [])"
| "take_units n (c # cs) =
     (if n = 0 then Some ([], c # cs)
      else if n < ucs2_units c then None
      else map_option (\<lambda>(t, r). (c # t, r)) (take_units (n - ucs2_units c) cs))"

definition ucs2_read :: "ustr \<Rightarrow> nat \<Rightarrow> (ustr + bytes) \<times> ustr" where
  "ucs2_read s n =
     (case take_units (n div 3) s of
        None \<Rightarrow> (Inl (us ''invalid encoded string: invalid utf-16: lone surrogate''), s)
      | Some (t, r) \<Rightarrow> (Inr (utf8_encode t), r))"

section \<open>Whole characters\<close>

lemma utf8_encode_simps [simp]:
  "utf8_encode [] = []" "utf8_encode (c # s) = utf8_char c @ utf8_encode s" "utf8_encode (s @ t) = utf8_encode s @ utf8_encode t"
  by (simp_all add: utf8_encode_def)

text \<open>The first byte of a character does not continue a sequence, the others do.\<close>

lemma utf8_char_bytes:
  assumes "is_scalar c"
  obtains b r where "utf8_char c = b # r" "b div 64 mod 4 \<noteq> 2" "\<And>i. i < length r \<Longrightarrow> r ! i div 64 mod 4 = 2" "length r < 4"
proof -
  have cont: "(128 + x mod 64) div 64 mod 4 = 2" for x :: nat by (simp add: div_add1_eq)
  have lead: "(192 + x) div 64 mod 4 \<noteq> 2" if "x < 64" for x :: nat
    using that by (subst div_nat_eqI[of _ 3]) simp_all
  define n where "n = nat c"
  have le: "n < 0x110000" using assms by (auto simp: is_scalar_def n_def)
  consider "n < 0x80" | "0x80 \<le> n" "n < 0x800" | "0x800 \<le> n" "n < 0x10000" | "0x10000 \<le> n" by linarith
  then show thesis
  proof cases
    case 1
    then have "n div 64 < 2" by simp
    then have "n div 64 mod 4 \<noteq> 2" by simp
    with 1 show thesis by (intro that[of "n" "[]"]) (simp_all add: utf8_char_def flip: n_def)
  next
    case 2
    then have "(0xC0 + n div 64) div 64 mod 4 \<noteq> 2" using lead[of "n div 64"] by simp
    with 2 cont show thesis by (intro that[of "0xC0 + n div 64" "[0x80 + n mod 64]"]) (simp_all add: utf8_char_def flip: n_def)
  next
    case 3
    then have "n div 4096 < 16" by simp
    then have "(0xE0 + n div 4096) div 64 mod 4 \<noteq> 2" using lead[of "32 + n div 4096"] by simp
    with 3 cont show thesis
      by (intro that[of "0xE0 + n div 4096" "[0x80 + n div 64 mod 64, 0x80 + n mod 64]"]) (auto simp: utf8_char_def less_Suc_eq simp flip: n_def)
  next
    case 4
    then have "n div 262144 < 5" using le by simp
    then have "(0xF0 + n div 262144) div 64 mod 4 \<noteq> 2" using lead[of "48 + n div 262144"] by simp
    with 4 cont show thesis
      by (intro that[of "0xF0 + n div 262144" "[0x80 + n div 4096 mod 64, 0x80 + n div 64 mod 64, 0x80 + n mod 64]"])
        (auto simp: utf8_char_def less_Suc_eq simp flip: n_def)
  qed
qed

lemma back_off_le: "back_off a m \<le> m"
  by (induction m) auto

lemma back_off_append:
  assumes "A \<noteq> []" and "R ! 0 div 64 mod 4 \<noteq> 2"
  shows "back_off (A @ R) (length A + m) = length A + back_off R m"
proof (induction m)
  case 0
  obtain n where n: "length A = Suc n" using assms(1) by (cases A) auto
  have "(A @ R) ! Suc n = R ! 0" by (simp add: nth_append n)
  then show ?case using assms(2) by (simp add: n)
next
  case (Suc m)
  then show ?case by (simp add: nth_append)
qed

lemma back_off_tail:
  assumes "\<And>i. i < length r \<Longrightarrow> r ! i div 64 mod 4 = 2" and "m \<le> length r"
  shows "back_off ((b # r) @ R) m = 0"
  using assms(2) by (induction m) (auto simp: assms(1) nth_append)

lemma utf8_encode_head:
  assumes "list_all is_scalar s" and "s \<noteq> []"
  shows "utf8_encode s ! 0 div 64 mod 4 \<noteq> 2"
proof -
  obtain c t where s: "s = c # t" using assms(2) by (cases s) auto
  have "is_scalar c" using assms(1) s by simp
  then obtain b r where "utf8_char c = b # r" "b div 64 mod 4 \<noteq> 2" by (rule utf8_char_bytes)
  then show ?thesis by (simp add: s)
qed

lemma back_off_boundary:
  assumes "list_all is_scalar s" and "m < length (utf8_encode s)"
  shows "\<exists>k \<le> length s. back_off (utf8_encode s) m = length (utf8_encode (take k s)) \<and> (4 \<le> m \<longrightarrow> 0 < k)"
  using assms
proof (induction s arbitrary: m)
  case (Cons c s)
  then have sc: "is_scalar c" by simp
  obtain b r where b: "utf8_char c = b # r" "\<And>i. i < length r \<Longrightarrow> r ! i div 64 mod 4 = 2" "length r < 4"
    using utf8_char_bytes[OF sc] by metis
  show ?case
  proof (cases "m \<le> length r")
    case True
    then have "back_off (utf8_encode (c # s)) m = 0" using back_off_tail[OF b(2), of m b "utf8_encode s"] b(1) by simp
    then show ?thesis using True b(3) by (intro exI[of _ 0]) auto
  next
    case False
    define n where "n = m - length (utf8_char c)"
    have m: "m = length (utf8_char c) + n" using False b(1) by (simp add: n_def)
    have n: "n < length (utf8_encode s)" using Cons.prems(2) m by simp
    then have "s \<noteq> []" by auto
    then have "back_off (utf8_encode (c # s)) m = length (utf8_char c) + back_off (utf8_encode s) n"
      unfolding m using back_off_append[of "utf8_char c" "utf8_encode s" n] utf8_encode_head[of s] Cons.prems(1) b(1) by simp
    moreover obtain k where "k \<le> length s" "back_off (utf8_encode s) n = length (utf8_encode (take k s))"
      using Cons.IH[OF _ n] Cons.prems(1) by auto
    ultimately show ?thesis by (intro exI[of _ "Suc k"]) simp
  qed
qed simp

lemma serve_chunk_text:
  assumes "stream_staged s = utf8_encode st" and "st \<noteq> []" and "list_all is_scalar st" and "4 \<le> n" and "lob_is_character (stream_kind s)"
  shows "\<exists>k. 0 < k \<and> k \<le> length st \<and> length (utf8_encode (take k st)) \<le> n \<and>
    serve_chunk n s = (Inr (utf8_encode (take k st)), s\<lparr>stream_staged := utf8_encode (drop k st)\<rparr>)"
proof -
  define m where "m = min (length (utf8_encode st)) n"
  have pos: "0 < length (utf8_encode t)" if nt: "t \<noteq> []" "list_all is_scalar t" for t
  proof -
    obtain c u where t: "t = c # u" using nt(1) by (cases t) auto
    then have "is_scalar c" using nt(2) by simp
    then obtain b r where "utf8_char c = b # r" by (rule utf8_char_bytes)
    then show ?thesis by (simp add: t)
  qed
  have "\<exists>k. 0 < k \<and> k \<le> length st \<and> copyable (stream_kind s) (utf8_encode st) n = length (utf8_encode (take k st)) \<and> length (utf8_encode (take k st)) \<le> n"
  proof (cases "m = length (utf8_encode st)")
    case True
    then show ?thesis using assms(2) by (intro exI[of _ "length st"]) (auto simp: copyable_def m_def Let_def)
  next
    case False
    then have m: "m < length (utf8_encode st)" "m = n" by (auto simp: m_def)
    obtain k where k: "k \<le> length st" "back_off (utf8_encode st) m = length (utf8_encode (take k st))" "0 < k"
      using back_off_boundary[OF assms(3) m(1)] assms(4) m(2) by auto
    have "copyable (stream_kind s) (utf8_encode st) n = back_off (utf8_encode st) m"
      using False assms(5) unfolding copyable_def by (simp add: Let_def flip: m_def)
    then show ?thesis using k back_off_le[of "utf8_encode st" m] m(2) by auto
  qed
  then obtain k where k: "0 < k" "k \<le> length st" "copyable (stream_kind s) (utf8_encode st) n = length (utf8_encode (take k st))"
    "length (utf8_encode (take k st)) \<le> n" by blast
  have "0 < length (utf8_encode (take k st))"
    using k(1) assms(2,3) by (intro pos) (auto simp: list_all_iff dest: in_set_takeD)
  moreover have "take (length (utf8_encode (take k st))) (utf8_encode st) = utf8_encode (take k st) \<and>
      drop (length (utf8_encode (take k st))) (utf8_encode st) = utf8_encode (drop k st)"
    using append_take_drop_id[of k st] utf8_encode_simps(3)[of "take k st" "drop k st"] by simp
  ultimately have "serve_chunk n s = (Inr (utf8_encode (take k st)), s\<lparr>stream_staged := utf8_encode (drop k st)\<rparr>)"
    using k(3) by (simp add: serve_chunk_def Let_def assms(1))
  with k show ?thesis by blast
qed

section \<open>A whole read\<close>

text \<open>What a stream has still to deliver of a character object.\<close>

definition stream_owes :: "('l \<Rightarrow> ustr) \<Rightarrow> 'l lob_stream \<Rightarrow> ustr \<Rightarrow> bool" where
  "stream_owes left s owed \<longleftrightarrow> lob_is_character (stream_kind s) \<and> \<not> stream_failed s \<and> list_all is_scalar owed \<and>
     (\<exists>st. stream_staged s = utf8_encode st \<and> owed = st @ left (stream_lob s)) \<and> (stream_exhausted s \<longrightarrow> left (stream_lob s) = [])"

lemma reads_text_result:
  assumes "reads_text reader left" and "60 \<le> n" and "reader l n = (Inr b, l1)"
  shows "(b = [] \<longleftrightarrow> left l = []) \<and> (\<exists>t. b = utf8_encode t \<and> left l = t @ left l1)"
  using assms(1)[unfolded reads_text_def, rule_format, OF assms(2), of l] assms(3) by auto

lemma reads_text_retry:
  assumes "reads_text reader left" and "60 \<le> n" and "reader l n = (Inl e, l1)"
  shows "is_split_character e \<and> left l1 = left l \<and> (\<exists>b l2. reader l1 (n - 3) = (Inr b, l2))"
  using assms(1)[unfolded reads_text_def, rule_format, OF assms(2), of l] assms(3) by auto

text \<open>A refill reads at most twice.\<close>

lemma refill_loop_text:
  assumes "reads_text reader left" and "67 \<le> n" and "stream_staged s = []"
  shows "\<exists>t l. left (stream_lob s) = t @ left l \<and> (t = [] \<longleftrightarrow> left (stream_lob s) = []) \<and>
    refill_loop reader n s = (None, s\<lparr>stream_lob := l, stream_staged := utf8_encode t, stream_exhausted := stream_exhausted s \<or> t = []\<rparr>)"
proof -
  have got: "\<exists>t. left l = t @ left l1 \<and> (t = [] \<longleftrightarrow> left l = []) \<and>
      refill_loop reader m (s\<lparr>stream_lob := l\<rparr>) = (None, s\<lparr>stream_lob := l1, stream_staged := utf8_encode t, stream_exhausted := stream_exhausted s \<or> t = []\<rparr>)"
    if rd: "reader l m = (Inr b, l1)" "60 \<le> m" for l l1 b m
  proof -
    obtain t where t: "b = utf8_encode t" "left l = t @ left l1" "b = [] \<longleftrightarrow> left l = []"
      using reads_text_result[OF assms(1) rd(2,1)] by auto
    have "b = [] \<longleftrightarrow> t = []" using t by auto
    then show ?thesis using t rd(1) assms(3) by (intro exI[of _ t]) (auto simp: refill_loop.simps[of reader m] split: if_splits)
  qed
  show ?thesis
  proof (cases "reader (stream_lob s) n")
    case (Pair res l1)
    show ?thesis
    proof (cases res)
      case (Inr b)
      then show ?thesis using got[of "stream_lob s" n b l1] Pair assms(2) by auto
    next
      case (Inl e)
      have retry: "is_split_character e" "left l1 = left (stream_lob s)" "\<exists>b l2. reader l1 (n - 3) = (Inr b, l2)"
        using reads_text_retry[OF assms(1), of n "stream_lob s" e l1] Pair Inl assms(2) by auto
      obtain b l2 where rd: "reader l1 (n - 3) = (Inr b, l2)" using retry(3) by blast
      have "refill_loop reader n s = refill_loop reader (n - 3) (s\<lparr>stream_lob := l1\<rparr>)"
        using Pair Inl retry(1) assms(2) by (subst refill_loop.simps) (simp add: MIN_STAGING_BYTES_def)
      moreover have "60 \<le> n - 3" using assms(2) by linarith
      ultimately show ?thesis using got[OF rd] retry(2) by metis
    qed
  qed
qed

lemma read_chunk_text:
  assumes "reads_text reader left" and "stream_owes left s owed" and "4 \<le> n"
  shows "\<exists>t owed1 s1. read_chunk reader False n s = (Inr (utf8_encode t), s1) \<and> owed = t @ owed1 \<and> stream_owes left s1 owed1 \<and>
    length (utf8_encode t) \<le> n \<and> (t = [] \<longleftrightarrow> owed = [])"
proof -
  obtain st where s: "stream_staged s = utf8_encode st" "owed = st @ left (stream_lob s)" and ch: "lob_is_character (stream_kind s)"
    and ok: "\<not> stream_failed s" "list_all is_scalar owed" "stream_exhausted s \<longrightarrow> left (stream_lob s) = []"
    using assms(2) by (auto simp: stream_owes_def)
  have serve: "\<exists>t owed1 s1. serve_chunk n u = (Inr (utf8_encode t), s1) \<and> owed = t @ owed1 \<and> stream_owes left s1 owed1 \<and>
      length (utf8_encode t) \<le> n \<and> (t = [] \<longleftrightarrow> owed = [])"
    if u: "stream_staged u = utf8_encode v" "v \<noteq> []" "owed = v @ left (stream_lob u)" "stream_owes left u owed" for u v
  proof -
    have sc: "list_all is_scalar v" using ok(2) u(3) by simp
    obtain k where k: "0 < k" "k \<le> length v" "length (utf8_encode (take k v)) \<le> n"
      "serve_chunk n u = (Inr (utf8_encode (take k v)), u\<lparr>stream_staged := utf8_encode (drop k v)\<rparr>)"
      using serve_chunk_text[OF u(1,2) sc assms(3)] u(4) by (auto simp: stream_owes_def)
    have "list_all is_scalar (drop k v)" using sc by (auto simp: list_all_iff dest: in_set_dropD)
    then show ?thesis using k u ok(2)
      by (intro exI[of _ "take k v"] exI[of _ "drop k v @ left (stream_lob u)"] exI[of _ "u\<lparr>stream_staged := utf8_encode (drop k v)\<rparr>"])
        (auto simp: stream_owes_def)
  qed
  have nil: "utf8_encode v = [] \<longleftrightarrow> v = []" if "list_all is_scalar v" for v
    using utf8_decode_encode[OF that] utf8_decode_encode[of "[]"] by auto
  show ?thesis
  proof (cases "st = []")
    case False
    then show ?thesis using serve[OF s(1) False s(2) assms(2)] nil[of st] ok s assms(3) by (simp add: read_chunk_def)
  next
    case True
    then have staged: "stream_staged s = []" and owed: "owed = left (stream_lob s)" using s by simp_all
    show ?thesis
    proof (cases "stream_exhausted s")
      case True
      then show ?thesis using ok owed staged assms(2,3) by (intro exI[of _ "[]"]) (auto simp: read_chunk_def)
    next
      case False
      have same: "s\<lparr>stream_staged := []\<rparr> = s" using staged by simp
      have "67 \<le> STAGING_BYTES" by (simp add: STAGING_BYTES_def)
      from refill_loop_text[OF assms(1) this staged] obtain t l where tl: "left (stream_lob s) = t @ left l" "t = [] \<longleftrightarrow> left (stream_lob s) = []"
        "refill_loop reader STAGING_BYTES s = (None, s\<lparr>stream_lob := l, stream_staged := utf8_encode t, stream_exhausted := stream_exhausted s \<or> t = []\<rparr>)"
        by blast
      have t: "owed = t @ left l" "t = [] \<longleftrightarrow> owed = []"
        "refill reader s = (None, s\<lparr>stream_lob := l, stream_staged := utf8_encode t, stream_exhausted := t = []\<rparr>)"
        using tl(1,2) owed tl(3) False by (simp_all add: refill_def same)
      define u where "u = s\<lparr>stream_lob := l, stream_staged := utf8_encode t, stream_exhausted := t = []\<rparr>"
      have u: "stream_owes left u owed" using t ok ch by (auto simp: stream_owes_def u_def)
      have sc: "list_all is_scalar t" using ok(2) t(1) by simp
      have rc: "read_chunk reader False n s = (if t = [] then (Inr [], u) else serve_chunk n u)"
        using ok staged False t(3) nil[OF sc] assms(3) by (simp add: read_chunk_def u_def)
      show ?thesis
      proof (cases "t = []")
        case True
        then show ?thesis using rc u t(2) by auto
      next
        case False
        then show ?thesis using rc serve[of u t] t(1) u by (auto simp: u_def)
      qed
    qed
  qed
qed

lemma read_chunks_text:
  assumes "reads_text reader left" and "stream_owes left s owed" and "list_all (\<lambda>n. 4 \<le> n) sizes" and "length owed < length sizes"
  shows "\<exists>texts s1. read_chunks reader sizes s = (Inr (map utf8_encode texts), s1) \<and> concat texts = owed \<and>
      list_all (\<lambda>t. t \<noteq> []) texts \<and> length texts \<le> length sizes \<and> (\<forall>i < length texts. length (utf8_encode (texts ! i)) \<le> sizes ! i)"
  using assms(2-)
proof (induction sizes arbitrary: s owed)
  case (Cons n sizes)
  then have "4 \<le> n" by simp
  from read_chunk_text[OF assms(1) Cons.prems(1) this] obtain t owed1 s1 where t:
    "read_chunk reader False n s = (Inr (utf8_encode t), s1)" "owed = t @ owed1" "stream_owes left s1 owed1"
    "length (utf8_encode t) \<le> n" "t = [] \<longleftrightarrow> owed = []" by blast
  show ?case
  proof (cases "t = []")
    case True
    then have "read_chunks reader (n # sizes) s = (Inr (map utf8_encode []), s1)" using t(1) by simp
    moreover have "concat [] = owed" using t(5) True by simp
    ultimately show ?thesis by (intro exI[of _ "[]"] exI[of _ s1]) simp
  next
    case False
    have "list_all is_scalar t" using Cons.prems(1) t(2) by (simp add: stream_owes_def)
    then have "utf8_encode t \<noteq> []" using False utf8_decode_encode[of t] utf8_decode_encode[of "[]"] by auto
    moreover have "length owed1 < length sizes" using Cons.prems(3) t(2) False by (cases t) auto
    moreover obtain texts s2 where "read_chunks reader sizes s1 = (Inr (map utf8_encode texts), s2)" "concat texts = owed1"
      "list_all (\<lambda>t. t \<noteq> []) texts" "length texts \<le> length sizes" "\<forall>i < length texts. length (utf8_encode (texts ! i)) \<le> sizes ! i"
      using Cons.IH[OF t(3)] Cons.prems(2) calculation(2) by auto
    ultimately have "read_chunks reader (n # sizes) s = (Inr (map utf8_encode (t # texts)), s2)" "concat (t # texts) = owed"
      "list_all (\<lambda>t. t \<noteq> []) (t # texts)" "length (t # texts) \<le> length (n # sizes)"
      "\<forall>i < length (t # texts). length (utf8_encode ((t # texts) ! i)) \<le> (n # sizes) ! i"
      using t(1,2,4) False by (simp_all add: All_less_Suc2)
    then show ?thesis by blast
  qed
qed simp

section \<open>Upstream's arithmetic keeps the promise\<close>

lemma utf8_char_units: "is_scalar c \<Longrightarrow> length (utf8_char c) \<le> 3 * ucs2_units c"
  by (auto simp: utf8_char_def ucs2_units_def Let_def is_scalar_def)

lemma take_units_some:
  assumes "take_units n s = Some (t, r)" and "list_all is_scalar s"
  shows "s = t @ r \<and> length (utf8_encode t) \<le> 3 * n \<and> (0 < n \<and> s \<noteq> [] \<longrightarrow> t \<noteq> [])"
  using assms
proof (induction n s arbitrary: t rule: take_units.induct)
  case (2 n c cs)
  show ?case
  proof (cases "n = 0 \<or> n < ucs2_units c")
    case True
    then show ?thesis using 2(2) by (auto split: if_splits)
  next
    case False
    then obtain t1 where "take_units (n - ucs2_units c) cs = Some (t1, r)" "t = c # t1" using 2(2) by auto
    then show ?thesis using 2(1)[of t1] 2(3) False utf8_char_units[of c] by auto
  qed
qed simp

lemma take_units_none:
  assumes "take_units n s = None"
  shows "0 < n \<and> take_units (n - 1) s \<noteq> None"
  using assms
proof (induction n s rule: take_units.induct)
  case (2 n c cs)
  show ?case
  proof (cases "n < ucs2_units c")
    case True
    then have "n - 1 = 0" by (auto simp: ucs2_units_def split: if_splits)
    then show ?thesis using 2(2) True by (auto split: if_splits)
  next
    case False
    then have ih: "0 < n - ucs2_units c" "take_units (n - ucs2_units c - 1) cs \<noteq> None" using 2 by (auto split: if_splits)
    then have "take_units (n - 1 - ucs2_units c) cs \<noteq> None" by (simp add: diff_commute)
    then show ?thesis using ih(1) by (auto split: if_splits)
  qed
qed simp

text \<open>A text's characters are scalar values; another list is read as the empty text.\<close>

definition scalar_text :: "ustr \<Rightarrow> ustr" where
  "scalar_text s = (if list_all is_scalar s then s else [])"

lemma ucs2_read_reads_text: "reads_text (ucs2_read \<circ> scalar_text) scalar_text"
  unfolding reads_text_def
proof (intro allI impI)
  fix l :: ustr and n :: nat
  assume n: "60 \<le> n"
  define s where "s = scalar_text l"
  have sc: "list_all is_scalar s" "scalar_text s = s" by (simp_all add: s_def scalar_text_def)
  have split: "is_split_character (us ''invalid encoded string: invalid utf-16: lone surrogate'')"
    by code_simp
  show "case (ucs2_read \<circ> scalar_text) l n of
      (Inr b, l1) \<Rightarrow> length b \<le> n \<and> (b = [] \<longleftrightarrow> scalar_text l = []) \<and> (\<exists>t. b = utf8_encode t \<and> scalar_text l = t @ scalar_text l1)
    | (Inl e, l1) \<Rightarrow> is_split_character e \<and> scalar_text l1 = scalar_text l \<and> (\<exists>b l2. (ucs2_read \<circ> scalar_text) l1 (n - 3) = (Inr b, l2))"
  proof (cases "take_units (n div 3) s")
    case None
    have "(n - 3) div 3 = n div 3 - 1" using n by (simp add: le_div_geq)
    then obtain t r where "take_units ((n - 3) div 3) s = Some (t, r)" using take_units_none[OF None] by auto
    then show ?thesis using None sc(2) split by (simp add: ucs2_read_def flip: s_def)
  next
    case (Some p)
    then obtain t r where t: "take_units (n div 3) s = Some (t, r)" by (cases p) auto
    have "0 < n div 3" using n by (simp add: div_greater_zero_iff)
    then have "s = t @ r" "length (utf8_encode t) \<le> 3 * (n div 3)" "s \<noteq> [] \<longrightarrow> t \<noteq> []"
      using take_units_some[OF t sc(1)] by blast+
    moreover from this have "list_all is_scalar t" "scalar_text r = r" using sc(1) by (simp_all add: scalar_text_def)
    moreover from this have "utf8_encode t = [] \<longleftrightarrow> t = []" using utf8_decode_encode[of t] utf8_decode_encode[of "[]"] by auto
    moreover have "3 * (n div 3) \<le> n" by simp
    ultimately show ?thesis using t by (auto simp: ucs2_read_def simp flip: s_def)
  qed
qed

text \<open>
  C30.  A character object read through buffers of four bytes or more is delivered whole: given
  enough calls the read ends without an error, the chunks joined are the UTF-8 of the object, each chunk fits its buffer
  and is itself the UTF-8 of whole characters, at least one, however the staging
  buffer and the surrogate pairs fall.
\<close>

theorem lob_chunks_are_the_object:
  assumes "reads_text reader left" and "list_all is_scalar (left l)" and "lob_is_character k"
    and "list_all (\<lambda>n. 4 \<le> n) sizes" and "length (left l) < length sizes"
  shows "\<exists>texts s. read_chunks reader sizes (lob_stream_new get_size l k) = (Inr (map utf8_encode texts), s) \<and>
    concat texts = left l \<and> list_all (\<lambda>t. t \<noteq> []) texts \<and> length texts \<le> length sizes \<and>
    (\<forall>i < length texts. length (utf8_encode (texts ! i)) \<le> sizes ! i)"
proof -
  have "stream_owes left (lob_stream_new get_size l k) (left l)"
    using assms(2,3) by (auto simp: stream_owes_def lob_stream_new_def intro: exI[of _ "[]"])
  then show ?thesis using read_chunks_text[OF assms(1)] assms(4,5) by blast
qed

theorem lob_chunks_are_the_object_witness:
  "\<exists>texts s. read_chunks (ucs2_read \<circ> scalar_text) [4, 5, 4, 4] (lob_stream_new (\<lambda>_. None) [0x1F600, 0xE01, 0x61] Character) =
    (Inr (map utf8_encode texts), s) \<and> concat texts = [0x1F600, 0xE01, 0x61]"
proof -
  have "scalar_text [0x1F600, 0xE01, 0x61] = [0x1F600, 0xE01, 0x61]" by (simp add: scalar_text_def is_scalar_def)
  then show ?thesis
    using lob_chunks_are_the_object[OF ucs2_read_reads_text, of "[0x1F600, 0xE01, 0x61]" Character "[4, 5, 4, 4]" "\<lambda>_. None"]
    by (auto simp: is_scalar_def lob_is_character_def)
qed

end
