(* ===== verification/Workspace_Records.thy ===== *)
theory Workspace_Records
  imports Workspace_Profile
begin

text \<open>
  The records the workspace keeps beside profiles and settings: history entries
  (\<^verbatim>\<open>crates/workspace/src/history.rs\<close>, their outcome in \<^verbatim>\<open>store/codec.rs\<close>), worksheets
  (\<^verbatim>\<open>worksheet.rs\<close>) and the layout (\<^verbatim>\<open>layout.rs\<close>).  Times are arguments.
\<close>

section \<open>History\<close>

definition MAX_STATEMENT_BYTES :: nat where "MAX_STATEMENT_BYTES = 1024 * 1024"

type_synonym history_id = int

datatype history_outcome = Succeeded | Failed "int option" | CancelledOutcome | TimedOut

datatype history_error = StatementEmpty | StatementTooLong nat nat

record history_entry =
  entry_profile :: uuid
  entry_executed_at :: unix_time_ms
  entry_statement :: ustr
  entry_outcome :: history_outcome
  entry_elapsed_ms :: nat
  entry_row_count :: "nat option"

definition validate_entry :: "history_entry \<Rightarrow> history_error + unit" where
  "validate_entry e =
     (if trim (entry_statement e) = [] then Inl StatementEmpty
      else if byte_len (entry_statement e) > MAX_STATEMENT_BYTES
      then Inl (StatementTooLong (byte_len (entry_statement e)) MAX_STATEMENT_BYTES)
      else Inr ())"

record history_record =
  record_id :: history_id
  record_profile :: uuid
  record_executed_at :: unix_time_ms
  record_statement :: ustr
  record_outcome :: history_outcome
  record_elapsed_ms :: nat
  record_row_count :: "nat option"

record history_page =
  page_limit :: u32
  page_before :: "history_id option"

definition first_page :: "u32 \<Rightarrow> history_page" where
  "first_page n = \<lparr>page_limit = n, page_before = None\<rparr>"

definition page_after :: "u32 \<Rightarrow> history_id \<Rightarrow> history_page" where
  "page_after n i = \<lparr>page_limit = n, page_before = Some i\<rparr>"

fun encode_history_outcome :: "history_outcome \<Rightarrow> string \<times> int option" where
  "encode_history_outcome Succeeded = (''succeeded'', None)"
| "encode_history_outcome (Failed code) = (''failed'', code)"
| "encode_history_outcome CancelledOutcome = (''cancelled'', None)"
| "encode_history_outcome TimedOut = (''timed_out'', None)"

definition I32_MAX :: int where "I32_MAX = 2 ^ 31 - 1"
definition I32_MIN :: int where "I32_MIN = - (2 ^ 31)"
definition I64_MAX :: int where "I64_MAX = 2 ^ 63 - 1"

definition i32_try_from :: "int \<Rightarrow> int option" where
  "i32_try_from i = (if I32_MIN \<le> i \<and> i \<le> I32_MAX then Some i else None)"

definition decode_history_outcome :: "string \<Rightarrow> int option \<Rightarrow> ustr + history_outcome" where
  "decode_history_outcome w code =
     (if w = ''succeeded'' then Inr Succeeded
      else if w = ''failed'' then Inr (Failed (map_option (\<lambda>c. case i32_try_from c of Some n \<Rightarrow> n | None \<Rightarrow> I32_MAX) code))
      else if w = ''cancelled'' then Inr CancelledOutcome
      else if w = ''timed_out'' then Inr TimedOut
      else Inl (us ''outcome '' @ [39] @ us w @ [39] @ us '' is not one this build knows''))"

text \<open>A native code is an \<^verbatim>\<open>i32\<close>.\<close>

fun wf_outcome :: "history_outcome \<Rightarrow> bool" where
  "wf_outcome (Failed (Some c)) = (I32_MIN \<le> c \<and> c \<le> I32_MAX)"
| "wf_outcome _ = True"

lemma history_outcome_round_trip:
  "wf_outcome r \<Longrightarrow> decode_history_outcome (fst (encode_history_outcome r)) (snd (encode_history_outcome r)) = Inr r"
  by (cases r rule: wf_outcome.cases) (simp_all add: decode_history_outcome_def i32_try_from_def)

section \<open>Worksheets\<close>

definition MAX_WORKSHEET_TEXT_BYTES :: nat where "MAX_WORKSHEET_TEXT_BYTES = 1024 * 1024"
definition MAX_TITLE_CHARS :: nat where "MAX_TITLE_CHARS = 200"

datatype worksheet_error =
  TitleTooLong nat nat | TitleControlCharacter | TextTooLong nat nat | CaretOutOfBounds u32 nat

record worksheet_state =
  title :: ustr
  worksheet_text :: ustr
  caret :: u32
  scroll :: u32

definition validate_state :: "worksheet_state \<Rightarrow> worksheet_error + unit" where
  "validate_state s =
     (if length (title s) > MAX_TITLE_CHARS then Inl (TitleTooLong (length (title s)) MAX_TITLE_CHARS)
      else if list_ex is_control (title s) then Inl TitleControlCharacter
      else if byte_len (worksheet_text s) > MAX_WORKSHEET_TEXT_BYTES
      then Inl (TextTooLong (byte_len (worksheet_text s)) MAX_WORKSHEET_TEXT_BYTES)
      else if unat (caret s) > byte_len (worksheet_text s)
      then Inl (CaretOutOfBounds (caret s) (byte_len (worksheet_text s)))
      else Inr ())"

record worksheet =
  worksheet_id :: uuid
  worksheet_profile :: "uuid option"
  ws_state :: worksheet_state
  tab_order :: u32
  worksheet_created_at :: unix_time_ms
  worksheet_updated_at :: unix_time_ms

definition worksheet_new ::
  "unix_time_ms \<Rightarrow> uuid \<Rightarrow> uuid option \<Rightarrow> worksheet_state \<Rightarrow> u32 \<Rightarrow> worksheet_error + worksheet" where
  "worksheet_new now i p s n =
     (case validate_state s of
        Inl e \<Rightarrow> Inl e
      | Inr _ \<Rightarrow> Inr \<lparr>worksheet_id = i, worksheet_profile = p, ws_state = s, tab_order = n,
          worksheet_created_at = now, worksheet_updated_at = now\<rparr>)"

definition worksheet_from_stored ::
  "uuid \<Rightarrow> uuid option \<Rightarrow> worksheet_state \<Rightarrow> u32 \<Rightarrow> unix_time_ms \<Rightarrow> unix_time_ms \<Rightarrow> worksheet_error + worksheet" where
  "worksheet_from_stored i p s n created updated =
     (case validate_state s of
        Inl e \<Rightarrow> Inl e
      | Inr _ \<Rightarrow> Inr \<lparr>worksheet_id = i, worksheet_profile = p, ws_state = s, tab_order = n,
          worksheet_created_at = created, worksheet_updated_at = updated\<rparr>)"

definition update_state :: "unix_time_ms \<Rightarrow> worksheet_state \<Rightarrow> worksheet \<Rightarrow> (worksheet_error + unit) \<times> worksheet" where
  "update_state now s w =
     (case validate_state s of
        Inl e \<Rightarrow> (Inl e, w)
      | Inr _ \<Rightarrow> (Inr (), w\<lparr>ws_state := s, worksheet_updated_at := now\<rparr>))"

definition set_tab_order :: "unix_time_ms \<Rightarrow> u32 \<Rightarrow> worksheet \<Rightarrow> worksheet" where
  "set_tab_order now n w = w\<lparr>tab_order := n, worksheet_updated_at := now\<rparr>"

definition set_worksheet_profile :: "unix_time_ms \<Rightarrow> uuid option \<Rightarrow> worksheet \<Rightarrow> worksheet" where
  "set_worksheet_profile now p w = w\<lparr>worksheet_profile := p, worksheet_updated_at := now\<rparr>"

section \<open>Layout\<close>

record pane_sizes =
  object_browser_width :: "u32 option"
  result_pane_height :: "u32 option"

record window_geometry =
  window_x :: "int option"
  window_y :: "int option"
  window_width :: "u32 option"
  window_height :: "u32 option"
  window_maximized :: bool

record layout =
  active_worksheet :: "uuid option"
  active_profile :: "uuid option"
  panes :: pane_sizes
  window :: window_geometry

end
