(* ===== verification/Workspace_Database.thy ===== *)
theory Workspace_Database
  imports Workspace_Records "HOL-Library.List_Lexorder" "HOL-Library.Product_Lexorder"
begin

text \<open>
  The workspace's file: \<^verbatim>\<open>crates/workspace/src/store/mod.rs\<close>, \<^verbatim>\<open>history.rs\<close>,
  \<^verbatim>\<open>worksheet.rs\<close> and the tables of \<^verbatim>\<open>schema.rs\<close>.

  SQLite is not part of the repository, the statements it runs are: a table is the list of its
  rows, and each statement is the list operation it denotes, with the foreign keys' actions on a
  deletion.  Identifiers compare with \<^verbatim>\<open>COLLATE NOCASE\<close>.  Any call may fail: \<open>F k\<close> is the error of
  the \<open>k\<close>th call of an operation, if it has one.  A transaction that does not commit leaves the
  tables as they were, which is what SQLite promises and what dropping a \<^verbatim>\<open>Transaction\<close> asks for.
\<close>

section \<open>Errors\<close>

datatype store_error =
  NewerSchema u32 u32
| NotAReldexStore
| IncompleteHeader
| SchemaMismatch ustr
| ReadOnly
| Corrupt ustr
| Busy
| CannotOpen os_path ustr
| NoDataDirectory
| CreateDirectory os_path ustr
| InvalidProfileError profile_error
| InvalidSetting setting_error
| ProfileNotFound uuid
| ProfileExists uuid
| InvalidHistory history_error
| InvalidWorksheet worksheet_error
| WorksheetNotFound uuid
| InvalidRow ustr
| Sqlite int ustr

section \<open>Tables\<close>

record setting_row =
  set_scope :: string
  set_scope_id :: ustr
  set_key :: string
  set_kind :: string
  set_int :: "int option"
  set_text :: "ustr option"
  set_updated_at :: int

record worksheet_setting_row =
  wset_worksheet :: ustr
  wset_key :: string
  wset_kind :: string
  wset_int :: "int option"
  wset_text :: "ustr option"
  wset_updated_at :: int

record history_row =
  hist_id :: int
  hist_profile :: ustr
  hist_executed_at :: int
  hist_statement :: ustr
  hist_outcome :: string
  hist_native_code :: "int option"
  hist_elapsed_ms :: int
  hist_row_count :: "int option"

record worksheet_row =
  sheet_id :: ustr
  sheet_profile :: "ustr option"
  sheet_title :: ustr
  sheet_text :: ustr
  sheet_caret :: u32
  sheet_scroll :: u32
  sheet_tab_order :: u32
  sheet_created_at :: int
  sheet_updated_at :: int

record layout_row =
  lay_worksheet :: "ustr option"
  lay_profile :: "ustr option"
  lay_panes :: pane_sizes
  lay_window :: window_geometry
  lay_updated_at :: int

record tables =
  profile_table :: "profile_row list"
  setting_table :: "setting_row list"
  history_table :: "history_row list"
  history_sequence :: int
  history_meta :: "(ustr \<times> int) list"
  worksheet_table :: "worksheet_row list"
  worksheet_setting_table :: "worksheet_setting_row list"
  layout_table :: "layout_row option"

definition same_id :: "ustr \<Rightarrow> ustr \<Rightarrow> bool" where
  "same_id a b \<longleftrightarrow> nocase a = nocase b"

section \<open>Transactions\<close>

type_synonym faults = "nat \<Rightarrow> store_error option"
type_synonym ('s, 'a) txn = "faults \<Rightarrow> nat \<Rightarrow> 's \<Rightarrow> store_error + 'a \<times> nat \<times> 's"
type_synonym 'a tx = "(tables, 'a) txn"

definition tx_return :: "'a \<Rightarrow> ('s, 'a) txn" where
  "tx_return x F k t = Inr (x, k, t)"

definition tx_fail :: "store_error \<Rightarrow> ('s, 'a) txn" where
  "tx_fail e F k t = Inl e"

definition tx_bind :: "('s, 'a) txn \<Rightarrow> ('a \<Rightarrow> ('s, 'b) txn) \<Rightarrow> ('s, 'b) txn" where
  "tx_bind m f F k t = (case m F k t of Inl e \<Rightarrow> Inl e | Inr (x, k', t') \<Rightarrow> f x F k' t')"

text \<open>One call of SQLite.\<close>

definition sql :: "('s \<Rightarrow> 'a \<times> 's) \<Rightarrow> ('s, 'a) txn" where
  "sql f F k t = (case F k of Some e \<Rightarrow> Inl e | None \<Rightarrow> let (x, t') = f t in Inr (x, Suc k, t'))"

definition sql_exec :: "('s \<Rightarrow> 's) \<Rightarrow> ('s, unit) txn" where
  "sql_exec f = sql (\<lambda>t. ((), f t))"

definition sql_query :: "('s \<Rightarrow> 'a) \<Rightarrow> ('s, 'a) txn" where
  "sql_query f = sql (\<lambda>t. (f t, t))"

text \<open>An \<^verbatim>\<open>IMMEDIATE\<close> transaction around a body, and a read outside of one.\<close>

definition transaction :: "('s, 'a) txn \<Rightarrow> faults \<Rightarrow> 's \<Rightarrow> (store_error + 'a) \<times> 's" where
  "transaction body F t =
     (case tx_bind (sql_exec (\<lambda>t. t)) (\<lambda>_. tx_bind body (\<lambda>x. tx_bind (sql_exec (\<lambda>t. t)) (\<lambda>_. tx_return x))) F 0 t of
        Inl e \<Rightarrow> (Inl e, t)
      | Inr (x, _, t') \<Rightarrow> (Inr x, t'))"

definition read_only :: "('s, 'a) txn \<Rightarrow> faults \<Rightarrow> 's \<Rightarrow> store_error + 'a" where
  "read_only body F t = (case body F 0 t of Inl e \<Rightarrow> Inl e | Inr (x, _, _) \<Rightarrow> Inr x)"

section \<open>Profiles\<close>

definition encoded :: "uuid_codec \<Rightarrow> (uchar \<Rightarrow> ustr) \<Rightarrow> profile \<Rightarrow> store_error + profile_row" where
  "encoded U low p =
     (case validate low (details p) of
        Inl e \<Rightarrow> Inl (InvalidProfileError e)
      | Inr _ \<Rightarrow> case encode_profile U p of
          None \<Rightarrow> Inl (InvalidProfileError PathNotUnicode)
        | Some row \<Rightarrow> Inr row)"

definition has_profile :: "ustr \<Rightarrow> tables \<Rightarrow> bool" where
  "has_profile key t = list_ex (\<lambda>r. same_id (row_id r) key) (profile_table t)"

definition has_worksheet :: "ustr \<Rightarrow> tables \<Rightarrow> bool" where
  "has_worksheet key t = list_ex (\<lambda>r. same_id (sheet_id r) key) (worksheet_table t)"

definition insert_profile ::
  "uuid_codec \<Rightarrow> (uchar \<Rightarrow> ustr) \<Rightarrow> profile \<Rightarrow> faults \<Rightarrow> tables \<Rightarrow> (store_error + unit) \<times> tables" where
  "insert_profile U low p F t =
     (case encoded U low p of
        Inl e \<Rightarrow> (Inl e, t)
      | Inr row \<Rightarrow> transaction
          (tx_bind (sql (\<lambda>t. if has_profile (row_id row) t then (0 :: nat, t)
                              else (1, t\<lparr>profile_table := profile_table t @ [row]\<rparr>))) (\<lambda>inserted.
           if inserted = 0 then tx_fail (ProfileExists (profile_id p)) else tx_return ())) F t)"

text \<open>\<^verbatim>\<open>UPDATE\<close> sets every column but the identifier and the time of creation.\<close>

definition replace_row :: "profile_row \<Rightarrow> profile_row \<Rightarrow> profile_row" where
  "replace_row new old = new\<lparr>row_id := row_id old, row_created_at := row_created_at old\<rparr>"

definition update_profile ::
  "uuid_codec \<Rightarrow> (uchar \<Rightarrow> ustr) \<Rightarrow> profile \<Rightarrow> faults \<Rightarrow> tables \<Rightarrow> (store_error + unit) \<times> tables" where
  "update_profile U low p F t =
     (case encoded U low p of
        Inl e \<Rightarrow> (Inl e, t)
      | Inr row \<Rightarrow> transaction
          (tx_bind (sql (\<lambda>t. (length (filter (\<lambda>r. same_id (row_id r) (row_id row)) (profile_table t)),
              t\<lparr>profile_table := map (\<lambda>r. if same_id (row_id r) (row_id row) then replace_row row r else r) (profile_table t)\<rparr>)))
             (\<lambda>updated. if updated = 0 then tx_fail (ProfileNotFound (profile_id p)) else tx_return ())) F t)"

text \<open>
  Deleting profile rows, with the actions of the foreign keys: history and its counters go with the
  profile, a worksheet or the layout that names it forgets it.
\<close>

definition clear_reference :: "ustr \<Rightarrow> ustr option \<Rightarrow> ustr option" where
  "clear_reference key r = (case r of Some x \<Rightarrow> if same_id x key then None else Some x | None \<Rightarrow> None)"

definition delete_profile_rows :: "ustr \<Rightarrow> tables \<Rightarrow> tables" where
  "delete_profile_rows key t =
     t\<lparr>profile_table := filter (\<lambda>r. \<not> same_id (row_id r) key) (profile_table t),
       history_table := filter (\<lambda>r. \<not> same_id (hist_profile r) key) (history_table t),
       history_meta := filter (\<lambda>(k, _). \<not> same_id k key) (history_meta t),
       worksheet_table := map (\<lambda>r. r\<lparr>sheet_profile := clear_reference key (sheet_profile r)\<rparr>) (worksheet_table t),
       layout_table := map_option (\<lambda>r. r\<lparr>lay_profile := clear_reference key (lay_profile r)\<rparr>) (layout_table t)\<rparr>"

definition delete_profile :: "uuid_codec \<Rightarrow> uuid \<Rightarrow> faults \<Rightarrow> tables \<Rightarrow> (store_error + bool) \<times> tables" where
  "delete_profile U i =
     (let key = hyphenated U i in
      transaction
        (tx_bind (sql_exec (\<lambda>t. t\<lparr>setting_table :=
             filter (\<lambda>r. \<not> (set_scope r = ''profile'' \<and> same_id (set_scope_id r) key)) (setting_table t)\<rparr>)) (\<lambda>_.
         sql (\<lambda>t. (has_profile key t, delete_profile_rows key t)))))"

definition find_profile :: "uuid_codec \<Rightarrow> (uchar \<Rightarrow> ustr) \<Rightarrow> uuid \<Rightarrow> faults \<Rightarrow> tables \<Rightarrow> store_error + profile option" where
  "find_profile U low i F t =
     and_then (read_only (sql_query (\<lambda>t. find (\<lambda>r. same_id (row_id r) (hyphenated U i)) (profile_table t))) F t) (\<lambda>row.
       case row of None \<Rightarrow> Inr None
       | Some r \<Rightarrow> (case decode_profile U low r of Inl detail \<Rightarrow> Inl (InvalidRow detail) | Inr p \<Rightarrow> Inr (Some p)))"

datatype store_table = ProfileTable | SettingTable | WorksheetTable

datatype reject_reason =
  UnknownSetting | RejectedKind string | RejectedMalformed | Refused setting_error | Undecodable ustr

record rejected_row =
  rejected_table :: store_table
  rejected_key :: ustr
  reason :: reject_reason

record 'a loaded =
  loaded_value :: 'a
  rejected :: "rejected_row list"

fun load_profiles :: "uuid_codec \<Rightarrow> (uchar \<Rightarrow> ustr) \<Rightarrow> profile_row list \<Rightarrow> profile list loaded" where
  "load_profiles U low [] = \<lparr>loaded_value = [], rejected = []\<rparr>"
| "load_profiles U low (row # rows) =
     (let rest = load_profiles U low rows in
      case decode_profile U low row of
        Inr p \<Rightarrow> rest\<lparr>loaded_value := p # loaded_value rest\<rparr>
      | Inl detail \<Rightarrow> rest\<lparr>rejected :=
          \<lparr>rejected_table = ProfileTable, rejected_key = row_id row, reason = Undecodable detail\<rparr> # rejected rest\<rparr>)"

text \<open>\<^verbatim>\<open>ORDER BY name, id\<close>: the name by its bytes, which is the order of its characters.\<close>

definition profiles :: "uuid_codec \<Rightarrow> (uchar \<Rightarrow> ustr) \<Rightarrow> faults \<Rightarrow> tables \<Rightarrow> store_error + profile list loaded" where
  "profiles U low =
     read_only (tx_bind (sql_query (\<lambda>t. sort_key (\<lambda>r. (row_name r, nocase (row_id r))) (profile_table t)))
       (\<lambda>rows. tx_return (load_profiles U low rows)))"

section \<open>Settings\<close>

datatype scope = ApplicationScope | ProfileScope uuid | WorksheetScope uuid

fun scope_level :: "scope \<Rightarrow> level" where
  "scope_level ApplicationScope = Application"
| "scope_level (ProfileScope _) = ProfileLevel"
| "scope_level (WorksheetScope _) = WorksheetLevel"

fun scope_id_text :: "uuid_codec \<Rightarrow> scope \<Rightarrow> ustr" where
  "scope_id_text U ApplicationScope = []"
| "scope_id_text U (ProfileScope i) = hyphenated U i"
| "scope_id_text U (WorksheetScope i) = hyphenated U i"

type_synonym value_row = "string \<times> string \<times> int option \<times> ustr option"

text \<open>The four columns a layer is loaded from, in the order of the keys.\<close>

definition in_scope :: "uuid_codec \<Rightarrow> scope \<Rightarrow> setting_row \<Rightarrow> bool" where
  "in_scope U s r \<longleftrightarrow> set_scope r = level_word (scope_level s) \<and> same_id (set_scope_id r) (scope_id_text U s)"

definition scope_rows :: "uuid_codec \<Rightarrow> scope \<Rightarrow> tables \<Rightarrow> value_row list" where
  "scope_rows U s t = (case s of
     WorksheetScope i \<Rightarrow> map (\<lambda>r. (wset_key r, wset_kind r, wset_int r, wset_text r))
       (filter (\<lambda>r. same_id (wset_worksheet r) (hyphenated U i)) (worksheet_setting_table t))
   | _ \<Rightarrow> map (\<lambda>r. (set_key r, set_kind r, set_int r, set_text r)) (filter (in_scope U s) (setting_table t)))"

definition load_row :: "bool \<Rightarrow> level \<Rightarrow> value_row \<Rightarrow> settings_layer loaded \<Rightarrow> settings_layer loaded" where
  "load_row mobile l row acc =
     (let (key, kind, i, txt) = row;
          reject = (\<lambda>why. acc\<lparr>rejected := rejected acc @
            [\<lparr>rejected_table = SettingTable, rejected_key = us key, reason = why\<rparr>]\<rparr>)
      in case from_storage_key mobile key of
           None \<Rightarrow> reject UnknownSetting
         | Some sid \<Rightarrow> case decode_value kind i txt of
             Inl (UnknownKind k) \<Rightarrow> reject (RejectedKind k)
           | Inl Malformed \<Rightarrow> reject RejectedMalformed
           | Inr v \<Rightarrow> case set_value mobile l sid v (loaded_value acc) of
               (Inl e, _) \<Rightarrow> reject (Refused e)
             | (Inr _, layer) \<Rightarrow> acc\<lparr>loaded_value := layer\<rparr>)"

definition load_layer :: "uuid_codec \<Rightarrow> bool \<Rightarrow> scope \<Rightarrow> faults \<Rightarrow> tables \<Rightarrow> store_error + settings_layer loaded" where
  "load_layer U mobile s =
     read_only (tx_bind (sql_query (\<lambda>t. sort_key (\<lambda>(key, _). us key) (scope_rows U s t))) (\<lambda>rows.
       tx_return (fold (load_row mobile (scope_level s)) rows \<lparr>loaded_value = layer_new, rejected = []\<rparr>)))"

text \<open>\<^verbatim>\<open>INSERT ... ON CONFLICT DO UPDATE\<close> for both tables of settings.\<close>

definition upsert :: "('a \<Rightarrow> bool) \<Rightarrow> ('a \<Rightarrow> 'a) \<Rightarrow> 'a \<Rightarrow> 'a list \<Rightarrow> 'a list" where
  "upsert conflicts change new rows =
     (if list_ex conflicts rows then map (\<lambda>r. if conflicts r then change r else r) rows else rows @ [new])"

definition upsert_setting :: "uuid_codec \<Rightarrow> bool \<Rightarrow> int \<Rightarrow> scope \<Rightarrow> setting_id \<Rightarrow> setting_value \<Rightarrow> tables \<Rightarrow> tables" where
  "upsert_setting U mobile now s i v t =
     (let (kind, n) = encode_value v in
      case s of
        WorksheetScope w \<Rightarrow> t\<lparr>worksheet_setting_table := upsert
          (\<lambda>r. same_id (wset_worksheet r) (hyphenated U w) \<and> wset_key r = setting_key mobile i)
          (\<lambda>r. r\<lparr>wset_kind := kind, wset_int := n, wset_text := None, wset_updated_at := now\<rparr>)
          \<lparr>wset_worksheet = hyphenated U w, wset_key = setting_key mobile i, wset_kind = kind, wset_int = n,
           wset_text = None, wset_updated_at = now\<rparr> (worksheet_setting_table t)\<rparr>
      | _ \<Rightarrow> t\<lparr>setting_table := upsert
          (\<lambda>r. in_scope U s r \<and> set_key r = setting_key mobile i)
          (\<lambda>r. r\<lparr>set_kind := kind, set_int := n, set_text := None, set_updated_at := now\<rparr>)
          \<lparr>set_scope = level_word (scope_level s), set_scope_id = scope_id_text U s, set_key = setting_key mobile i,
           set_kind = kind, set_int = n, set_text = None, set_updated_at = now\<rparr> (setting_table t)\<rparr>)"

definition put_setting_value ::
  "uuid_codec \<Rightarrow> bool \<Rightarrow> int \<Rightarrow> scope \<Rightarrow> setting_id \<Rightarrow> setting_value \<Rightarrow> faults \<Rightarrow> tables \<Rightarrow> (store_error + unit) \<times> tables" where
  "put_setting_value U mobile now s i v F t =
     (case check (descriptor mobile i) (scope_level s) v of
        Inl e \<Rightarrow> (Inl (InvalidSetting e), t)
      | Inr _ \<Rightarrow> transaction
          (case s of
             ApplicationScope \<Rightarrow> sql_exec (upsert_setting U mobile now s i v)
           | ProfileScope p \<Rightarrow> tx_bind (sql_query (has_profile (hyphenated U p))) (\<lambda>exists.
               if exists then sql_exec (upsert_setting U mobile now s i v) else tx_fail (ProfileNotFound p))
           | WorksheetScope w \<Rightarrow> tx_bind (sql_query (has_worksheet (hyphenated U w))) (\<lambda>exists.
               if exists then sql_exec (upsert_setting U mobile now s i v) else tx_fail (WorksheetNotFound w))) F t)"

definition clear_setting :: "uuid_codec \<Rightarrow> bool \<Rightarrow> scope \<Rightarrow> setting_id \<Rightarrow> faults \<Rightarrow> tables \<Rightarrow> (store_error + bool) \<times> tables" where
  "clear_setting U mobile s i =
     transaction (sql (\<lambda>t. case s of
       WorksheetScope w \<Rightarrow>
         let hit = (\<lambda>r. same_id (wset_worksheet r) (hyphenated U w) \<and> wset_key r = setting_key mobile i) in
         (list_ex hit (worksheet_setting_table t),
          t\<lparr>worksheet_setting_table := filter (\<lambda>r. \<not> hit r) (worksheet_setting_table t)\<rparr>)
     | _ \<Rightarrow>
         let hit = (\<lambda>r. in_scope U s r \<and> set_key r = setting_key mobile i) in
         (list_ex hit (setting_table t), t\<lparr>setting_table := filter (\<lambda>r. \<not> hit r) (setting_table t)\<rparr>)))"

definition clear_worksheet_settings :: "uuid_codec \<Rightarrow> uuid \<Rightarrow> faults \<Rightarrow> tables \<Rightarrow> (store_error + nat) \<times> tables" where
  "clear_worksheet_settings U w =
     transaction (sql (\<lambda>t. let hit = (\<lambda>r. same_id (wset_worksheet r) (hyphenated U w)) in
       (length (filter hit (worksheet_setting_table t)),
        t\<lparr>worksheet_setting_table := filter (\<lambda>r. \<not> hit r) (worksheet_setting_table t)\<rparr>)))"

section \<open>History\<close>

text \<open>The limit in force: the stored row's number, whatever its kind, or else the registry's default.\<close>

definition current_max_entries :: "bool \<Rightarrow> tables \<Rightarrow> nat option" where
  "current_max_entries mobile t =
     (case find (\<lambda>r. set_scope r = ''application'' \<and> set_scope_id r = [] \<and>
                     set_key r = setting_key mobile HistoryMaxEntriesPerProfile) (setting_table t) of
        None \<Rightarrow> (case typed_default entry_limit_from_value mobile HistoryMaxEntriesPerProfile of
                   Some (Entries n) \<Rightarrow> Some (unat n) | _ \<Rightarrow> None)
      | Some r \<Rightarrow> (case set_int r of
          None \<Rightarrow> None
        | Some v \<Rightarrow> Some (case u32_try_from v of Some n \<Rightarrow> unat n | None \<Rightarrow> 2 ^ 32 - 1)))"

definition i64_saturating :: "nat \<Rightarrow> int" where
  "i64_saturating n = min (int n) I64_MAX"

text \<open>\<^verbatim>\<open>AUTOINCREMENT\<close>: an id above every id handed out before.\<close>

definition insert_history :: "ustr \<Rightarrow> history_entry \<Rightarrow> tables \<Rightarrow> int \<times> tables" where
  "insert_history key e t =
     (let i = history_sequence t + 1; (outcome, code) = encode_history_outcome (entry_outcome e) in
      (i, t\<lparr>history_sequence := i, history_table := history_table t @
        [\<lparr>hist_id = i, hist_profile = key, hist_executed_at = entry_executed_at e, hist_statement = entry_statement e,
          hist_outcome = outcome, hist_native_code = code, hist_elapsed_ms = i64_saturating (entry_elapsed_ms e),
          hist_row_count = map_option i64_saturating (entry_row_count e)\<rparr>]\<rparr>))"

definition meta_count :: "ustr \<Rightarrow> tables \<Rightarrow> int option" where
  "meta_count key t = map_option snd (find (\<lambda>(k, _). same_id k key) (history_meta t))"

definition bump_meta :: "ustr \<Rightarrow> tables \<Rightarrow> int \<times> tables" where
  "bump_meta key t =
     (let meta = upsert (\<lambda>(k, _). same_id k key) (\<lambda>(k, n). (k, n + 1)) (key, 1) (history_meta t);
          t' = t\<lparr>history_meta := meta\<rparr>
      in (the (meta_count key t'), t'))"

text \<open>The oldest \<open>n\<close> rows of a profile; the table is in the order of its ids.\<close>

fun drop_oldest :: "(history_row \<Rightarrow> bool) \<Rightarrow> nat \<Rightarrow> history_row list \<Rightarrow> history_row list" where
  "drop_oldest P n [] = []"
| "drop_oldest P 0 rows = rows"
| "drop_oldest P (Suc n) (r # rows) = (if P r then drop_oldest P n rows else r # drop_oldest P (Suc n) rows)"

definition trim_history :: "ustr \<Rightarrow> int \<Rightarrow> tables \<Rightarrow> tables" where
  "trim_history key excess t =
     t\<lparr>history_table := drop_oldest (\<lambda>r. same_id (hist_profile r) key) (nat excess) (history_table t)\<rparr>"

definition lower_meta :: "ustr \<Rightarrow> int \<Rightarrow> tables \<Rightarrow> tables" where
  "lower_meta key excess t =
     t\<lparr>history_meta := map (\<lambda>(k, n). if same_id k key then (k, n - excess) else (k, n)) (history_meta t)\<rparr>"

definition record_history ::
  "uuid_codec \<Rightarrow> bool \<Rightarrow> history_entry \<Rightarrow> faults \<Rightarrow> tables \<Rightarrow> (store_error + history_id) \<times> tables" where
  "record_history U mobile e F t =
     (case validate_entry e of
        Inl err \<Rightarrow> (Inl (InvalidHistory err), t)
      | Inr _ \<Rightarrow>
          let key = hyphenated U (entry_profile e) in
          transaction
            (tx_bind (sql_query (has_profile key)) (\<lambda>exists.
             if \<not> exists then tx_fail (ProfileNotFound (entry_profile e))
             else tx_bind (sql (insert_history key e)) (\<lambda>i.
             tx_bind (sql (bump_meta key)) (\<lambda>count.
             tx_bind (sql_query (current_max_entries mobile)) (\<lambda>limit.
             case limit of
               None \<Rightarrow> tx_return i
             | Some n \<Rightarrow>
                 if count > int n
                 then tx_bind (sql_exec (trim_history key (count - int n))) (\<lambda>_.
                      tx_bind (sql_exec (lower_meta key (count - int n))) (\<lambda>_. tx_return i))
                 else tx_return i))))) F t)"

text \<open>\<^verbatim>\<open>SELECT ... ORDER BY id DESC LIMIT\<close>.\<close>

definition page_rows :: "ustr \<Rightarrow> history_page \<Rightarrow> tables \<Rightarrow> history_row list" where
  "page_rows key pg t =
     take (unat (page_limit pg)) (rev (filter (\<lambda>r. same_id (hist_profile r) key \<and>
       (case page_before pg of None \<Rightarrow> True | Some b \<Rightarrow> hist_id r < b)) (history_table t)))"

definition decode_history_row :: "uuid \<Rightarrow> history_row \<Rightarrow> store_error + history_record" where
  "decode_history_row p r =
     (case decode_history_outcome (hist_outcome r) (hist_native_code r) of
        Inl detail \<Rightarrow> Inl (InvalidRow detail)
      | Inr outcome \<Rightarrow> Inr \<lparr>record_id = hist_id r, record_profile = p, record_executed_at = hist_executed_at r,
          record_statement = hist_statement r, record_outcome = outcome, record_elapsed_ms = nat (hist_elapsed_ms r),
          record_row_count = map_option nat (hist_row_count r)\<rparr>)"

fun all_or_error :: "('e + 'a) list \<Rightarrow> 'e + 'a list" where
  "all_or_error [] = Inr []"
| "all_or_error (Inl e # rs) = Inl e"
| "all_or_error (Inr x # rs) = (case all_or_error rs of Inl e \<Rightarrow> Inl e | Inr xs \<Rightarrow> Inr (x # xs))"

definition history :: "uuid_codec \<Rightarrow> uuid \<Rightarrow> history_page \<Rightarrow> faults \<Rightarrow> tables \<Rightarrow> store_error + history_record list" where
  "history U p pg F t =
     and_then (read_only (sql_query (page_rows (hyphenated U p) pg)) F t) (\<lambda>rows. all_or_error (map (decode_history_row p) rows))"

definition clear_history :: "uuid_codec \<Rightarrow> uuid \<Rightarrow> faults \<Rightarrow> tables \<Rightarrow> (store_error + nat) \<times> tables" where
  "clear_history U p =
     (let key = hyphenated U p in
      transaction
        (tx_bind (sql (\<lambda>t. (length (filter (\<lambda>r. same_id (hist_profile r) key) (history_table t)),
            t\<lparr>history_table := filter (\<lambda>r. \<not> same_id (hist_profile r) key) (history_table t)\<rparr>))) (\<lambda>deleted.
         tx_bind (sql_exec (\<lambda>t. t\<lparr>history_meta := filter (\<lambda>(k, _). \<not> same_id k key) (history_meta t)\<rparr>)) (\<lambda>_.
         tx_return deleted))))"

section \<open>Worksheets and layout\<close>

definition worksheet_columns :: "uuid_codec \<Rightarrow> worksheet \<Rightarrow> worksheet_row" where
  "worksheet_columns U w =
     \<lparr>sheet_id = hyphenated U (worksheet_id w), sheet_profile = map_option (hyphenated U) (worksheet_profile w),
      sheet_title = title (ws_state w), sheet_text = worksheet_text (ws_state w), sheet_caret = caret (ws_state w),
      sheet_scroll = scroll (ws_state w), sheet_tab_order = tab_order w,
      sheet_created_at = worksheet_created_at w, sheet_updated_at = worksheet_updated_at w\<rparr>"

definition save_worksheet :: "uuid_codec \<Rightarrow> worksheet \<Rightarrow> faults \<Rightarrow> tables \<Rightarrow> (store_error + unit) \<times> tables" where
  "save_worksheet U w F t =
     (case validate_state (ws_state w) of
        Inl e \<Rightarrow> (Inl (InvalidWorksheet e), t)
      | Inr _ \<Rightarrow>
          let row = worksheet_columns U w;
              write = sql_exec (\<lambda>t. t\<lparr>worksheet_table := upsert (\<lambda>r. same_id (sheet_id r) (sheet_id row))
                (\<lambda>r. row\<lparr>sheet_id := sheet_id r, sheet_created_at := sheet_created_at r\<rparr>) row (worksheet_table t)\<rparr>)
          in transaction
            (case worksheet_profile w of
               None \<Rightarrow> write
             | Some p \<Rightarrow> tx_bind (sql_query (has_profile (hyphenated U p))) (\<lambda>exists.
                 if exists then write else tx_fail (ProfileNotFound p))) F t)"

definition decode_optional_id :: "uuid_codec \<Rightarrow> string \<Rightarrow> ustr option \<Rightarrow> ustr + uuid option" where
  "decode_optional_id U column txt =
     (case txt of
        None \<Rightarrow> Inr None
      | Some x \<Rightarrow> (case parse_uuid U x of
          Inl e \<Rightarrow> Inl (us column @ us '': '' @ id_error_display e) | Inr i \<Rightarrow> Inr (Some i)))"

fun worksheet_error_display :: "worksheet_error \<Rightarrow> ustr" where
  "worksheet_error_display (TitleTooLong n m) =
     us ''the worksheet's title is '' @ nat_text n @ us '' characters, more than the '' @ nat_text m @ us ''-character cap''"
| "worksheet_error_display TitleControlCharacter = us ''the worksheet's title contains a control character''"
| "worksheet_error_display (TextTooLong n m) =
     us ''the worksheet's text is '' @ nat_text n @ us '' bytes, more than the '' @ nat_text m @ us ''-byte cap''"
| "worksheet_error_display (CaretOutOfBounds c n) =
     us ''the caret position '' @ nat_text (unat c) @ us '' is past the end of the text ('' @ nat_text n @ us '' bytes)''"

definition decode_worksheet :: "uuid_codec \<Rightarrow> worksheet_row \<Rightarrow> ustr + worksheet" where
  "decode_worksheet U r =
     and_then (map_err (\<lambda>e. us ''id: '' @ id_error_display e) (parse_uuid U (sheet_id r))) (\<lambda>i.
     and_then (decode_optional_id U ''profile_id'' (sheet_profile r)) (\<lambda>p.
       map_err worksheet_error_display (worksheet_from_stored i p
         \<lparr>title = sheet_title r, worksheet_text = sheet_text r, caret = sheet_caret r, scroll = sheet_scroll r\<rparr>
         (sheet_tab_order r) (sheet_created_at r) (sheet_updated_at r))))"

fun load_worksheet_rows :: "uuid_codec \<Rightarrow> worksheet_row list \<Rightarrow> worksheet list loaded" where
  "load_worksheet_rows U [] = \<lparr>loaded_value = [], rejected = []\<rparr>"
| "load_worksheet_rows U (row # rows) =
     (let rest = load_worksheet_rows U rows in
      case decode_worksheet U row of
        Inr w \<Rightarrow> rest\<lparr>loaded_value := w # loaded_value rest\<rparr>
      | Inl detail \<Rightarrow> rest\<lparr>rejected :=
          \<lparr>rejected_table = WorksheetTable, rejected_key = sheet_id row, reason = Undecodable detail\<rparr> # rejected rest\<rparr>)"

definition load_worksheets :: "uuid_codec \<Rightarrow> faults \<Rightarrow> tables \<Rightarrow> store_error + worksheet list loaded" where
  "load_worksheets U =
     read_only (tx_bind (sql_query (\<lambda>t. sort_key (\<lambda>r. (sheet_tab_order r, nocase (sheet_id r))) (worksheet_table t)))
       (\<lambda>rows. tx_return (load_worksheet_rows U rows)))"

text \<open>Deleting a worksheet takes its settings with it and clears the layout's reference.\<close>

definition delete_worksheet :: "uuid_codec \<Rightarrow> uuid \<Rightarrow> faults \<Rightarrow> tables \<Rightarrow> (store_error + bool) \<times> tables" where
  "delete_worksheet U i =
     (let key = hyphenated U i in
      transaction (sql (\<lambda>t. (has_worksheet key t,
        t\<lparr>worksheet_table := filter (\<lambda>r. \<not> same_id (sheet_id r) key) (worksheet_table t),
          worksheet_setting_table := filter (\<lambda>r. \<not> same_id (wset_worksheet r) key) (worksheet_setting_table t),
          layout_table := map_option (\<lambda>r. r\<lparr>lay_worksheet := clear_reference key (lay_worksheet r)\<rparr>) (layout_table t)\<rparr>))))"

definition require :: "(tables \<Rightarrow> bool) \<Rightarrow> store_error \<Rightarrow> unit tx" where
  "require P e = tx_bind (sql_query P) (\<lambda>exists. if exists then tx_return () else tx_fail e)"

definition save_layout :: "uuid_codec \<Rightarrow> int \<Rightarrow> layout \<Rightarrow> faults \<Rightarrow> tables \<Rightarrow> (store_error + unit) \<times> tables" where
  "save_layout U now l =
     transaction
       (tx_bind (case active_worksheet l of
          None \<Rightarrow> tx_return () | Some w \<Rightarrow> require (has_worksheet (hyphenated U w)) (WorksheetNotFound w)) (\<lambda>_.
        tx_bind (case active_profile l of
          None \<Rightarrow> tx_return () | Some p \<Rightarrow> require (has_profile (hyphenated U p)) (ProfileNotFound p)) (\<lambda>_.
        sql_exec (\<lambda>t. t\<lparr>layout_table := Some \<lparr>lay_worksheet = map_option (hyphenated U) (active_worksheet l),
          lay_profile = map_option (hyphenated U) (active_profile l), lay_panes = panes l, lay_window = window l,
          lay_updated_at = now\<rparr>\<rparr>))))"

definition load_layout :: "uuid_codec \<Rightarrow> faults \<Rightarrow> tables \<Rightarrow> store_error + layout option" where
  "load_layout U F t =
     and_then (read_only (sql_query layout_table) F t) (\<lambda>row.
       case row of
         None \<Rightarrow> Inr None
       | Some r \<Rightarrow> map_err InvalidRow
           (and_then (decode_optional_id U ''active_worksheet_id'' (lay_worksheet r)) (\<lambda>w.
            and_then (decode_optional_id U ''active_profile_id'' (lay_profile r)) (\<lambda>p.
              Inr (Some \<lparr>active_worksheet = w, active_profile = p, panes = lay_panes r, window = lay_window r\<rparr>)))))"

end
