(* ===== verification/Workspace_Database_Correct.thy ===== *)
theory Workspace_Database_Correct
  imports Workspace_Database
begin

text \<open>
  The tables stay consistent: identifiers are unique, every reference names a row, ids of history
  entries only grow, and the counter of a profile's history is the number of its rows.
\<close>

section \<open>Transactions\<close>

named_theorems tx_simps

lemma tx_bind_Inr:
  "tx_bind m f F k t = Inr r \<longleftrightarrow> (\<exists>x k' t'. m F k t = Inr (x, k', t') \<and> f x F k' t' = Inr r)"
  by (auto simp: tx_bind_def split: sum.splits)

lemma sql_Inr: "sql f F k t = Inr (x, k', t') \<longleftrightarrow> F k = None \<and> f t = (x, t') \<and> k' = Suc k"
  by (auto simp: sql_def split: option.splits prod.splits)

lemma sql_exec_Inr: "sql_exec f F k t = Inr (x, k', t') \<longleftrightarrow> F k = None \<and> t' = f t \<and> k' = Suc k"
  by (auto simp: sql_exec_def sql_Inr)

lemma sql_query_Inr: "sql_query f F k t = Inr (x, k', t') \<longleftrightarrow> F k = None \<and> x = f t \<and> t' = t \<and> k' = Suc k"
  by (auto simp: sql_query_def sql_Inr)

lemma tx_return_Inr: "tx_return y F k t = Inr (x, k', t') \<longleftrightarrow> x = y \<and> k' = k \<and> t' = t"
  by (auto simp: tx_return_def)

lemma tx_fail_Inr: "tx_fail e F k t = Inr r \<longleftrightarrow> False"
  by (simp add: tx_fail_def)

lemmas tx_Inr = tx_bind_Inr sql_Inr sql_exec_Inr sql_query_Inr tx_return_Inr tx_fail_Inr

text \<open>An operation that fails leaves the tables as they were.\<close>

lemma transaction_Inl: "transaction body F t = (Inl e, t') \<Longrightarrow> t' = t"
  by (auto simp: transaction_def split: sum.splits prod.splits)

lemma transaction_Inr:
  "transaction body F t = (Inr x, t') \<longleftrightarrow> F 0 = None \<and> (\<exists>k. body F 1 t = Inr (x, k, t') \<and> F k = None)"
  by (auto simp: transaction_def tx_bind_def sql_exec_def sql_def tx_return_def split: option.splits sum.splits prod.splits)

text \<open>What a transaction's body establishes holds after the transaction, and a failure keeps what held.\<close>

lemma transaction_preserves:
  assumes "I t" and "\<And>F k x k' t'. body F k t = Inr (x, k', t') \<Longrightarrow> I t'"
  shows "I (snd (transaction body F t))"
  using assms transaction_Inr[of body F t] transaction_Inl[of body F t]
  by (cases "transaction body F t"; cases "fst (transaction body F t)") fastforce+

section \<open>Identifiers\<close>

lemma same_id_refl [simp]: "same_id a a"
  by (simp add: same_id_def)

lemma same_id_sym: "same_id a b \<longleftrightarrow> same_id b a"
  by (auto simp: same_id_def)

lemma same_id_trans: "same_id a b \<Longrightarrow> same_id a c \<longleftrightarrow> same_id b c"
  by (simp add: same_id_def)

definition distinct_ids :: "ustr list \<Rightarrow> bool" where
  "distinct_ids xs \<longleftrightarrow> distinct (map nocase xs)"

lemma has_profile_iff: "has_profile key t \<longleftrightarrow> nocase key \<in> nocase ` row_id ` set (profile_table t)"
  by (auto simp: has_profile_def same_id_def list_ex_iff image_iff intro: sym)

lemma has_worksheet_iff: "has_worksheet key t \<longleftrightarrow> nocase key \<in> nocase ` sheet_id ` set (worksheet_table t)"
  by (auto simp: has_worksheet_def same_id_def list_ex_iff image_iff intro: sym)

section \<open>The invariant\<close>

definition profile_history :: "ustr \<Rightarrow> tables \<Rightarrow> history_row list" where
  "profile_history key t = filter (\<lambda>r. same_id (hist_profile r) key) (history_table t)"

definition counters_ok :: "tables \<Rightarrow> bool" where
  "counters_ok t \<longleftrightarrow> distinct_ids (map fst (history_meta t)) \<and>
     (\<forall>key. int (length (profile_history key t)) = (case meta_count key t of Some n \<Rightarrow> n | None \<Rightarrow> 0))"

definition history_ok :: "tables \<Rightarrow> bool" where
  "history_ok t \<longleftrightarrow> sorted_wrt (<) (map hist_id (history_table t)) \<and>
     (\<forall>r \<in> set (history_table t). 0 < hist_id r \<and> hist_id r \<le> history_sequence t) \<and> 0 \<le> history_sequence t"

definition references_ok :: "tables \<Rightarrow> bool" where
  "references_ok t \<longleftrightarrow>
     (\<forall>r \<in> set (history_table t). has_profile (hist_profile r) t) \<and>
     (\<forall>(k, n) \<in> set (history_meta t). has_profile k t) \<and>
     (\<forall>r \<in> set (setting_table t). set_scope r = ''profile'' \<longrightarrow> has_profile (set_scope_id r) t) \<and>
     (\<forall>r \<in> set (worksheet_table t). \<forall>p. sheet_profile r = Some p \<longrightarrow> has_profile p t) \<and>
     (\<forall>r \<in> set (worksheet_setting_table t). has_worksheet (wset_worksheet r) t) \<and>
     (\<forall>r w. layout_table t = Some r \<longrightarrow> lay_worksheet r = Some w \<longrightarrow> has_worksheet w t) \<and>
     (\<forall>r p. layout_table t = Some r \<longrightarrow> lay_profile r = Some p \<longrightarrow> has_profile p t)"

definition keys_ok :: "tables \<Rightarrow> bool" where
  "keys_ok t \<longleftrightarrow> distinct_ids (map row_id (profile_table t)) \<and> distinct_ids (map sheet_id (worksheet_table t)) \<and>
     distinct (map (\<lambda>r. (set_scope r, nocase (set_scope_id r), set_key r)) (setting_table t)) \<and>
     distinct (map (\<lambda>r. (nocase (wset_worksheet r), wset_key r)) (worksheet_setting_table t))"

definition tables_ok :: "tables \<Rightarrow> bool" where
  "tables_ok t \<longleftrightarrow> keys_ok t \<and> history_ok t \<and> counters_ok t \<and> references_ok t"

definition no_rows :: tables where
  "no_rows = \<lparr>profile_table = [], setting_table = [], history_table = [], history_sequence = 0, history_meta = [],
     worksheet_table = [], worksheet_setting_table = [], layout_table = None\<rparr>"

lemma no_rows_ok: "tables_ok no_rows"
  by (simp add: tables_ok_def keys_ok_def history_ok_def counters_ok_def references_ok_def no_rows_def distinct_ids_def
      profile_history_def meta_count_def)

lemmas ok_defs = tables_ok_def keys_ok_def history_ok_def counters_ok_def references_ok_def profile_history_def meta_count_def

section \<open>Profiles\<close>

lemma has_profile_append:
  "has_profile key (t\<lparr>profile_table := profile_table t @ [row]\<rparr>) \<longleftrightarrow> has_profile key t \<or> same_id (row_id row) key"
  by (auto simp: has_profile_def)

lemma has_worksheet_frame [simp]:
  "has_worksheet key (t\<lparr>profile_table := p\<rparr>) = has_worksheet key t" "has_worksheet key (t\<lparr>setting_table := s\<rparr>) = has_worksheet key t"
  "has_worksheet key (t\<lparr>history_table := h\<rparr>) = has_worksheet key t" "has_worksheet key (t\<lparr>history_sequence := q\<rparr>) = has_worksheet key t"
  "has_worksheet key (t\<lparr>history_meta := m\<rparr>) = has_worksheet key t" "has_worksheet key (t\<lparr>worksheet_setting_table := ws\<rparr>) = has_worksheet key t"
  "has_worksheet key (t\<lparr>layout_table := l\<rparr>) = has_worksheet key t"
  by (simp_all add: has_worksheet_def)

lemma has_profile_frame [simp]:
  "has_profile key (t\<lparr>setting_table := s\<rparr>) = has_profile key t" "has_profile key (t\<lparr>history_table := h\<rparr>) = has_profile key t"
  "has_profile key (t\<lparr>history_sequence := q\<rparr>) = has_profile key t" "has_profile key (t\<lparr>history_meta := m\<rparr>) = has_profile key t"
  "has_profile key (t\<lparr>worksheet_table := w\<rparr>) = has_profile key t" "has_profile key (t\<lparr>worksheet_setting_table := ws\<rparr>) = has_profile key t"
  "has_profile key (t\<lparr>layout_table := l\<rparr>) = has_profile key t"
  by (simp_all add: has_profile_def)

lemma append_profile_ok:
  assumes "tables_ok t" and "\<not> has_profile (row_id row) t"
  shows "tables_ok (t\<lparr>profile_table := profile_table t @ [row]\<rparr>)"
proof -
  have "nocase (row_id row) \<notin> set (map nocase (map row_id (profile_table t)))"
    using assms(2) by (auto simp: has_profile_iff)
  then have "keys_ok (t\<lparr>profile_table := profile_table t @ [row]\<rparr>)"
    using assms(1) by (simp add: tables_ok_def keys_ok_def distinct_ids_def)
  moreover have "references_ok (t\<lparr>profile_table := profile_table t @ [row]\<rparr>)"
    using assms(1) by (auto simp: tables_ok_def references_ok_def has_profile_append)
  ultimately show ?thesis
    using assms(1) by (simp add: ok_defs)
qed

lemma has_profile_map:
  assumes "\<And>r. row_id (f r) = row_id r"
  shows "has_profile key (t\<lparr>profile_table := map f (profile_table t)\<rparr>) = has_profile key t"
  using assms by (induction "profile_table t") (auto simp: has_profile_def list_ex_iff)

lemma map_profile_ok:
  assumes "tables_ok t" and "\<And>r. row_id (f r) = row_id r"
  shows "tables_ok (t\<lparr>profile_table := map f (profile_table t)\<rparr>)"
proof -
  have "map row_id (map f (profile_table t)) = map row_id (profile_table t)" using assms(2) by simp
  then have "keys_ok (t\<lparr>profile_table := map f (profile_table t)\<rparr>)"
    using assms(1) by (simp add: tables_ok_def keys_ok_def del: map_map)
  moreover have "references_ok (t\<lparr>profile_table := map f (profile_table t)\<rparr>)"
    using assms(1) by (simp add: tables_ok_def references_ok_def has_profile_map[OF assms(2)])
  ultimately show ?thesis
    using assms(1) by (simp add: ok_defs)
qed

lemma transaction_ok:
  assumes "tables_ok t" and "\<And>F k x k' t'. body F k t = Inr (x, k', t') \<Longrightarrow> tables_ok t'"
  shows "tables_ok (snd (transaction body F t))"
  using assms by (rule transaction_preserves)

lemma insert_profile_ok:
  assumes "tables_ok t" shows "tables_ok (snd (insert_profile U low p F t))"
proof (cases "encoded U low p")
  case (Inr row)
  show ?thesis unfolding insert_profile_def Inr sum.case
    by (rule transaction_ok) (use assms in \<open>auto simp: tx_Inr append_profile_ok split: if_splits\<close>)
qed (simp add: insert_profile_def assms)

lemma update_profile_ok:
  assumes "tables_ok t" shows "tables_ok (snd (update_profile U low p F t))"
proof (cases "encoded U low p")
  case (Inr row)
  show ?thesis unfolding update_profile_def Inr sum.case
    by (rule transaction_ok) (use assms in \<open>auto simp: tx_Inr replace_row_def map_profile_ok split: if_splits\<close>)
qed (simp add: update_profile_def assms)

lemma filter_settings_ok:
  assumes "tables_ok t" shows "tables_ok (t\<lparr>setting_table := filter P (setting_table t)\<rparr>)"
  using assms by (simp add: ok_defs distinct_map_filter)

lemma filter_worksheet_settings_ok:
  assumes "tables_ok t" shows "tables_ok (t\<lparr>worksheet_setting_table := filter P (worksheet_setting_table t)\<rparr>)"
  using assms by (simp add: ok_defs distinct_map_filter)

definition count_in :: "ustr \<Rightarrow> (ustr \<times> int) list \<Rightarrow> int" where
  "count_in key m = (case find (\<lambda>(k, _). same_id k key) m of Some (_, n) \<Rightarrow> n | None \<Rightarrow> 0)"

lemma count_in_Nil [simp]: "count_in key [] = 0"
  by (simp add: count_in_def)

lemma count_in_Cons: "count_in key ((k, n) # m) = (if same_id k key then n else count_in key m)"
  by (simp add: count_in_def)

lemma meta_count_in: "(case meta_count key t of Some n \<Rightarrow> n | None \<Rightarrow> 0) = count_in key (history_meta t)"
  by (auto simp: meta_count_def count_in_def split: option.splits)

lemma counters_ok_alt:
  "counters_ok t \<longleftrightarrow> distinct_ids (map fst (history_meta t)) \<and>
     (\<forall>key. int (length (profile_history key t)) = count_in key (history_meta t))"
  by (simp add: counters_ok_def meta_count_in)

lemma count_in_filter:
  "count_in key (filter (\<lambda>(k, _). \<not> same_id k del) m) = (if same_id key del then 0 else count_in key m)"
  by (induction m) (auto simp: count_in_Cons same_id_def)

lemma count_in_absent: "nocase key \<notin> set (map nocase (map fst m)) \<Longrightarrow> count_in key m = 0"
  by (induction m) (auto simp: count_in_Cons same_id_def)

lemma distinct_ids_filter: "distinct_ids (map f xs) \<Longrightarrow> distinct_ids (map f (filter P xs))"
  by (simp add: distinct_ids_def distinct_map_filter)

lemma sorted_wrt_map_filter: "sorted_wrt R (map f xs) \<Longrightarrow> sorted_wrt R (map f (filter P xs))"
  by (induction xs) auto

lemma rows_filtered: "profile_history key (t\<lparr>history_table := filter (\<lambda>r. \<not> same_id (hist_profile r) del) (history_table t)\<rparr>) =
    (if same_id key del then [] else profile_history key t)"
  by (auto simp: profile_history_def filter_empty_conv same_id_def intro: filter_cong)

lemma filter_history_ok:
  fixes key :: ustr
  assumes "history_ok t" "counters_ok t"
  defines "t' \<equiv> t\<lparr>history_table := filter (\<lambda>r. \<not> same_id (hist_profile r) key) (history_table t),
       history_meta := filter (\<lambda>(k, _). \<not> same_id k key) (history_meta t)\<rparr>"
  shows "history_ok t'" and "counters_ok t'"
proof -
  show "history_ok t'" using assms(1) by (auto simp: t'_def history_ok_def intro: sorted_wrt_map_filter)
  have "profile_history k t' = (if same_id k key then [] else profile_history k t)" for k
    using rows_filtered[where key = k and t = t and del = key] by (simp add: t'_def profile_history_def)
  then show "counters_ok t'"
    using assms(2) by (simp add: counters_ok_alt t'_def count_in_filter distinct_ids_filter)
qed

lemma clear_reference_Some: "clear_reference key r = Some x \<longleftrightarrow> r = Some x \<and> \<not> same_id x key"
  by (auto simp: clear_reference_def split: option.splits)

lemma has_profile_deleted: "has_profile k (delete_profile_rows key t) \<longleftrightarrow> has_profile k t \<and> \<not> same_id k key"
  by (auto simp: has_profile_def delete_profile_rows_def list_ex_iff same_id_def)

lemma delete_profile_rows_ok:
  assumes "tables_ok t" and "\<And>r. r \<in> set (setting_table t) \<Longrightarrow> set_scope r = ''profile'' \<Longrightarrow> \<not> same_id (set_scope_id r) key"
  shows "tables_ok (delete_profile_rows key t)"
proof -
  let ?t = "delete_profile_rows key t"
  have "keys_ok ?t"
    using assms(1) by (simp add: tables_ok_def keys_ok_def delete_profile_rows_def distinct_ids_filter comp_def)
  moreover have "history_ok ?t" "counters_ok ?t"
    using filter_history_ok[of t key] assms(1)
    by (simp_all add: tables_ok_def delete_profile_rows_def history_ok_def counters_ok_def profile_history_def meta_count_def)
  moreover have "has_worksheet k ?t = has_worksheet k t" for k
    by (simp add: has_worksheet_def delete_profile_rows_def list_ex_iff)
  then have "references_ok ?t"
    using assms unfolding tables_ok_def references_ok_def has_profile_deleted
    by (auto simp: delete_profile_rows_def clear_reference_Some)
  ultimately show ?thesis by (simp add: tables_ok_def)
qed

lemma delete_profile_ok:
  assumes "tables_ok t" shows "tables_ok (snd (delete_profile U i F t))"
  unfolding delete_profile_def Let_def
proof (rule transaction_ok[OF assms])
  fix F k x k' t'
  assume "tx_bind (sql_exec (\<lambda>t. t\<lparr>setting_table :=
      filter (\<lambda>r. \<not> (set_scope r = ''profile'' \<and> same_id (set_scope_id r) (hyphenated U i))) (setting_table t)\<rparr>))
    (\<lambda>_. sql (\<lambda>t. (has_profile (hyphenated U i) t, delete_profile_rows (hyphenated U i) t))) F k t = Inr (x, k', t')"
  then have "t' = delete_profile_rows (hyphenated U i) (t\<lparr>setting_table :=
      filter (\<lambda>r. \<not> (set_scope r = ''profile'' \<and> same_id (set_scope_id r) (hyphenated U i))) (setting_table t)\<rparr>)"
    by (auto simp: tx_Inr)
  then show "tables_ok t'"
    using delete_profile_rows_ok[OF filter_settings_ok[OF assms]] by auto
qed

section \<open>Settings\<close>

lemma upsert_map:
  assumes "\<And>r. conflicts r \<Longrightarrow> f (change r) = f r"
  shows "map f (upsert conflicts change new rows) = (if list_ex conflicts rows then map f rows else map f rows @ [f new])"
  using assms by (auto simp: upsert_def)

lemma upsert_distinct:
  assumes "distinct (map f rows)" and "\<And>r. conflicts r \<longleftrightarrow> f r = f new" and "\<And>r. conflicts r \<Longrightarrow> f (change r) = f r"
  shows "distinct (map f (upsert conflicts change new rows))"
proof -
  have "map f (upsert conflicts change new rows) = (if list_ex conflicts rows then map f rows else map f rows @ [f new])"
    by (rule upsert_map) (rule assms(3))
  moreover have "f new \<notin> set (map f rows)" if "\<not> list_ex conflicts rows"
    using that assms(2) by (force simp: list_ex_iff)
  ultimately show ?thesis using assms(1) by simp
qed

lemma in_upsert:
  "r \<in> set (upsert conflicts change new rows) \<Longrightarrow>
     r \<in> set rows \<or> r = new \<or> (\<exists>r0 \<in> set rows. conflicts r0 \<and> r = change r0)"
  by (auto simp: upsert_def split: if_splits)

definition scope_exists :: "uuid_codec \<Rightarrow> scope \<Rightarrow> tables \<Rightarrow> bool" where
  "scope_exists U s t = (case s of ApplicationScope \<Rightarrow> True
     | ProfileScope p \<Rightarrow> has_profile (hyphenated U p) t | WorksheetScope w \<Rightarrow> has_worksheet (hyphenated U w) t)"

lemma upsert_worksheet_setting_ok:
  assumes "tables_ok t" and "has_worksheet w t" and "wset_worksheet new = w"
    and "\<And>r. conflicts r \<longleftrightarrow> same_id (wset_worksheet r) w \<and> wset_key r = wset_key new"
    and "\<And>r. wset_worksheet (change r) = wset_worksheet r \<and> wset_key (change r) = wset_key r"
  shows "tables_ok (t\<lparr>worksheet_setting_table := upsert conflicts change new (worksheet_setting_table t)\<rparr>)"
proof -
  have "distinct (map (\<lambda>r. (nocase (wset_worksheet r), wset_key r)) (upsert conflicts change new (worksheet_setting_table t)))"
    by (rule upsert_distinct) (use assms in \<open>auto simp: tables_ok_def keys_ok_def same_id_def\<close>)
  moreover have "has_worksheet (wset_worksheet r) t" if "r \<in> set (upsert conflicts change new (worksheet_setting_table t))" for r
    using in_upsert[OF that] assms by (auto simp: tables_ok_def references_ok_def)
  ultimately show ?thesis using assms(1) by (simp add: ok_defs)
qed

lemma upsert_plain_setting_ok:
  assumes "tables_ok t" and "set_scope new = ''profile'' \<Longrightarrow> has_profile (set_scope_id new) t"
    and "\<And>r. conflicts r \<longleftrightarrow> set_scope r = set_scope new \<and> same_id (set_scope_id r) (set_scope_id new) \<and> set_key r = set_key new"
    and "\<And>r. set_scope (change r) = set_scope r \<and> set_scope_id (change r) = set_scope_id r \<and> set_key (change r) = set_key r"
  shows "tables_ok (t\<lparr>setting_table := upsert conflicts change new (setting_table t)\<rparr>)"
proof -
  have "distinct (map (\<lambda>r. (set_scope r, nocase (set_scope_id r), set_key r)) (upsert conflicts change new (setting_table t)))"
    by (rule upsert_distinct) (use assms in \<open>auto simp: tables_ok_def keys_ok_def same_id_def\<close>)
  moreover have "has_profile (set_scope_id r) t"
    if "r \<in> set (upsert conflicts change new (setting_table t))" "set_scope r = ''profile''" for r
    using in_upsert[OF that(1)] that(2) assms by (auto simp: tables_ok_def references_ok_def)
  ultimately show ?thesis using assms(1) by (simp add: ok_defs)
qed

lemma upsert_setting_ok:
  assumes "tables_ok t" and "scope_exists U s t"
  shows "tables_ok (upsert_setting U mobile now s i v t)"
proof (cases s)
  case (WorksheetScope w)
  then show ?thesis
    using assms by (auto simp: upsert_setting_def scope_exists_def intro!: upsert_worksheet_setting_ok split: prod.splits)
next
  case (ProfileScope p)
  then show ?thesis
    using assms by (auto simp: upsert_setting_def scope_exists_def in_scope_def intro!: upsert_plain_setting_ok split: prod.splits)
next
  case ApplicationScope
  then show ?thesis
    using assms by (auto simp: upsert_setting_def scope_exists_def in_scope_def intro!: upsert_plain_setting_ok split: prod.splits)
qed

lemma put_setting_value_ok:
  assumes "tables_ok t" shows "tables_ok (snd (put_setting_value U mobile now s i v F t))"
proof (cases "check (descriptor mobile i) (scope_level s) v")
  case (Inr x)
  show ?thesis unfolding put_setting_value_def Inr sum.case
    by (rule transaction_ok[OF assms])
      (use assms in \<open>auto simp: tx_Inr scope_exists_def intro!: upsert_setting_ok split: scope.splits if_splits\<close>)
qed (simp add: put_setting_value_def assms)

lemma clear_setting_ok:
  assumes "tables_ok t" shows "tables_ok (snd (clear_setting U mobile s i F t))"
  unfolding clear_setting_def
  by (rule transaction_ok[OF assms])
    (use assms in \<open>auto simp: tx_Inr Let_def filter_settings_ok filter_worksheet_settings_ok split: scope.splits\<close>)

lemma clear_worksheet_settings_ok:
  assumes "tables_ok t" shows "tables_ok (snd (clear_worksheet_settings U w F t))"
  unfolding clear_worksheet_settings_def
  by (rule transaction_ok[OF assms]) (use assms in \<open>auto simp: tx_Inr Let_def filter_worksheet_settings_ok\<close>)

section \<open>History\<close>

lemma filter_drop_oldest: "filter P (drop_oldest P n rows) = drop n (filter P rows)"
  by (induction P n rows rule: drop_oldest.induct) auto

lemma filter_drop_oldest_other:
  "(\<And>r. Q r \<Longrightarrow> \<not> P r) \<Longrightarrow> filter Q (drop_oldest P n rows) = filter Q rows"
  by (induction P n rows rule: drop_oldest.induct) auto

lemma set_drop_oldest: "r \<in> set (drop_oldest P n rows) \<Longrightarrow> r \<in> set rows"
  by (induction P n rows rule: drop_oldest.induct) (auto split: if_splits)

lemma sorted_drop_oldest: "sorted_wrt R (map f rows) \<Longrightarrow> sorted_wrt R (map f (drop_oldest P n rows))"
  by (induction P n rows rule: drop_oldest.induct) (auto dest: set_drop_oldest)

definition adjust :: "ustr \<Rightarrow> (int \<Rightarrow> int) \<Rightarrow> (ustr \<times> int) list \<Rightarrow> (ustr \<times> int) list" where
  "adjust key f m = map (\<lambda>(k, n). if same_id k key then (k, f n) else (k, n)) m"

lemma count_in_adjust_other: "\<not> same_id k key \<Longrightarrow> count_in k (adjust key f m) = count_in k m"
  by (induction m) (auto simp: adjust_def count_in_Cons same_id_def)

lemma count_in_adjust_same:
  "same_id k key \<Longrightarrow> list_ex (\<lambda>(k, _). same_id k key) m \<Longrightarrow> count_in k (adjust key f m) = f (count_in k m)"
  by (induction m) (auto simp: adjust_def count_in_Cons same_id_def)

lemma adjust_bump: "map (\<lambda>r. if (\<lambda>(k, _). same_id k key) r then (\<lambda>(k, n). (k, n + 1)) r else r) m = adjust key (\<lambda>n. n + 1) m"
  by (auto simp: adjust_def)

lemma count_in_append_new:
  "\<not> list_ex (\<lambda>(k, _). same_id k key) m \<Longrightarrow> count_in k (m @ [(key, 1)]) = count_in k m + (if same_id k key then 1 else 0)"
  by (induction m) (auto simp: count_in_Cons same_id_def)

lemma count_in_bump:
  "count_in k (upsert (\<lambda>(k, _). same_id k key) (\<lambda>(k, n). (k, n + 1)) (key, 1) m) =
     count_in k m + (if same_id k key then 1 else 0)"
  unfolding upsert_def adjust_bump
  by (simp add: count_in_append_new count_in_adjust_same count_in_adjust_other)

lemma count_in_lower:
  assumes "list_ex (\<lambda>(k, _). same_id k key) m"
  shows "count_in k (map (\<lambda>(k, n). if same_id k key then (k, n - d) else (k, n)) m) = count_in k m - (if same_id k key then d else 0)"
  using assms count_in_adjust_same[of k key m "\<lambda>n. n - d"] count_in_adjust_other[of k key "\<lambda>n. n - d" m]
  by (simp add: adjust_def)

lemma meta_exists: "list_ex (\<lambda>(k, _). same_id k key) (upsert (\<lambda>(k, _). same_id k key) (\<lambda>(k, n). (k, n + 1)) (key, 1) m)"
  by (auto simp: upsert_def list_ex_iff)

lemma bump_meta_count:
  "fst (bump_meta key t) = count_in key (history_meta t) + 1"
proof -
  let ?m = "upsert (\<lambda>(k, _). same_id k key) (\<lambda>(k, n). (k, n + 1)) (key, 1) (history_meta t)"
  have "meta_count key (t\<lparr>history_meta := ?m\<rparr>) \<noteq> None"
    using meta_exists[of key "history_meta t"] by (auto simp: meta_count_def find_None_iff list_ex_iff)
  then have "the (meta_count key (t\<lparr>history_meta := ?m\<rparr>)) = count_in key ?m"
    using meta_count_in[of key "t\<lparr>history_meta := ?m\<rparr>"] by auto
  then show ?thesis by (simp add: bump_meta_def Let_def count_in_bump)
qed

definition entry_row :: "ustr \<Rightarrow> int \<Rightarrow> history_entry \<Rightarrow> history_row" where
  "entry_row key i e =
     \<lparr>hist_id = i, hist_profile = key, hist_executed_at = entry_executed_at e, hist_statement = entry_statement e,
      hist_outcome = fst (encode_history_outcome (entry_outcome e)), hist_native_code = snd (encode_history_outcome (entry_outcome e)),
      hist_elapsed_ms = i64_saturating (entry_elapsed_ms e), hist_row_count = map_option i64_saturating (entry_row_count e)\<rparr>"

lemma entry_row_fields [simp]: "hist_id (entry_row key i e) = i" "hist_profile (entry_row key i e) = key"
  by (simp_all add: entry_row_def)

lemma insert_history_alt:
  "insert_history key e t = (history_sequence t + 1,
     t\<lparr>history_sequence := history_sequence t + 1, history_table := history_table t @ [entry_row key (history_sequence t + 1) e]\<rparr>)"
  by (simp add: insert_history_def entry_row_def Let_def split: prod.splits)

text \<open>The tables after an entry was added and its counter raised, and after the trim.\<close>

definition entry_added :: "ustr \<Rightarrow> history_entry \<Rightarrow> tables \<Rightarrow> tables" where
  "entry_added key e t = snd (bump_meta key (snd (insert_history key e t)))"

definition trimmed :: "ustr \<Rightarrow> int \<Rightarrow> tables \<Rightarrow> tables" where
  "trimmed key d t = lower_meta key d (trim_history key d t)"

lemma entry_added_fields [simp]:
  "history_table (entry_added key e t) = history_table t @ [entry_row key (history_sequence t + 1) e]"
  "history_sequence (entry_added key e t) = history_sequence t + 1"
  "history_meta (entry_added key e t) = upsert (\<lambda>(k, _). same_id k key) (\<lambda>(k, n). (k, n + 1)) (key, 1) (history_meta t)"
  "profile_table (entry_added key e t) = profile_table t" "setting_table (entry_added key e t) = setting_table t"
  "worksheet_table (entry_added key e t) = worksheet_table t"
  "worksheet_setting_table (entry_added key e t) = worksheet_setting_table t" "layout_table (entry_added key e t) = layout_table t"
  by (simp_all add: entry_added_def insert_history_alt bump_meta_def Let_def)

lemma trimmed_fields [simp]:
  "history_table (trimmed key d t) = drop_oldest (\<lambda>r. same_id (hist_profile r) key) (nat d) (history_table t)"
  "history_sequence (trimmed key d t) = history_sequence t"
  "history_meta (trimmed key d t) = map (\<lambda>(k, n). if same_id k key then (k, n - d) else (k, n)) (history_meta t)"
  "profile_table (trimmed key d t) = profile_table t" "setting_table (trimmed key d t) = setting_table t"
  "worksheet_table (trimmed key d t) = worksheet_table t"
  "worksheet_setting_table (trimmed key d t) = worksheet_setting_table t" "layout_table (trimmed key d t) = layout_table t"
  by (simp_all add: trimmed_def trim_history_def lower_meta_def)

lemma record_history_success:
  assumes "record_history U mobile e F t = (Inr i, t')"
  defines "key \<equiv> hyphenated U (entry_profile e)"
  defines "n_rows \<equiv> count_in key (history_meta t) + 1"
  shows "validate_entry e = Inr ()" and "has_profile key t" and "i = history_sequence t + 1"
    and "t' = (case current_max_entries mobile t of
           None \<Rightarrow> entry_added key e t
         | Some n \<Rightarrow> if n_rows > int n then trimmed key (n_rows - int n) (entry_added key e t) else entry_added key e t)"
proof -
  show v: "validate_entry e = Inr ()" using assms(1) by (auto simp: record_history_def split: sum.splits)
  have n_rows: "fst (bump_meta key (snd (insert_history key e t))) = n_rows"
    by (simp add: bump_meta_count insert_history_alt n_rows_def)
  have limit: "current_max_entries mobile (entry_added key e t) = current_max_entries mobile t"
    by (simp add: current_max_entries_def)
  note body = assms(1)[unfolded record_history_def v sum.case Let_def transaction_Inr, folded key_def]
  from body show "has_profile key t" by (auto simp: tx_Inr split: if_splits)
  from body show "i = history_sequence t + 1"
    by (auto simp: tx_Inr insert_history_alt split: if_splits option.splits)
  from body n_rows limit show "t' = (case current_max_entries mobile t of
           None \<Rightarrow> entry_added key e t
         | Some n \<Rightarrow> if n_rows > int n then trimmed key (n_rows - int n) (entry_added key e t) else entry_added key e t)"
    by (auto simp: tx_Inr entry_added_def trimmed_def split: if_splits option.splits)
qed

lemma profile_history_added:
  "profile_history k (entry_added key e t) = profile_history k t @ (if same_id k key then [entry_row key (history_sequence t + 1) e] else [])"
  by (auto simp: profile_history_def same_id_def)

lemma profile_history_trimmed: "profile_history k (trimmed key d t) = (if same_id k key then drop (nat d) (profile_history k t) else profile_history k t)"
proof (cases "same_id k key")
  case True
  then have same: "profile_history k t' = profile_history key t'" for t' by (auto simp: profile_history_def same_id_def)
  have "profile_history key (trimmed key d t) = drop (nat d) (profile_history key t)" by (simp add: profile_history_def filter_drop_oldest)
  with True same show ?thesis by simp
next
  case False
  then show ?thesis by (auto simp: profile_history_def same_id_def intro!: filter_drop_oldest_other)
qed

lemma distinct_bump:
  "distinct_ids (map fst m) \<Longrightarrow>
   distinct_ids (map fst (upsert (\<lambda>(k, _). same_id k key) (\<lambda>(k, n). (k, n + 1)) (key, 1) m))"
  using upsert_distinct[of "\<lambda>p. nocase (fst p)" m "\<lambda>(k, _). same_id k key" "(key, 1)" "\<lambda>(k, n). (k, n + 1)"]
  by (auto simp: distinct_ids_def same_id_def comp_def)

lemma has_profile_added [simp]: "has_profile k (entry_added key e t) = has_profile k t" "has_profile k (trimmed key d t) = has_profile k t"
  by (simp_all add: has_profile_def)

lemma has_worksheet_added [simp]:
  "has_worksheet k (entry_added key e t) = has_worksheet k t" "has_worksheet k (trimmed key d t) = has_worksheet k t"
  by (simp_all add: has_worksheet_def)

lemma entry_added_ok:
  assumes ok: "tables_ok t" and profile: "has_profile key t"
  shows "tables_ok (entry_added key e t)"
proof -
  have "history_ok (entry_added key e t)"
    using ok by (fastforce simp: tables_ok_def history_ok_def sorted_wrt_append)
  moreover have "counters_ok (entry_added key e t)"
    using ok by (auto simp: tables_ok_def counters_ok_alt profile_history_added count_in_bump distinct_bump)
  moreover have "has_profile k t" if "(k, n) \<in> set (history_meta (entry_added key e t))" for k n
    using in_upsert[OF that[simplified]] ok profile by (auto simp: tables_ok_def references_ok_def)
  then have "references_ok (entry_added key e t)"
    using ok profile unfolding tables_ok_def references_ok_def by auto
  ultimately show ?thesis using ok by (simp add: tables_ok_def keys_ok_def)
qed

lemma trimmed_references_ok:
  assumes "references_ok t" shows "references_ok (trimmed key d t)"
proof -
  have "has_profile k t" if "(k, n) \<in> set (history_meta (trimmed key d t))" for k n
    using that assms by (auto simp: references_ok_def split: if_splits)
  moreover have "r \<in> set (history_table t)" if "r \<in> set (history_table (trimmed key d t))" for r
    using that by (simp add: set_drop_oldest)
  ultimately show ?thesis
    using assms unfolding references_ok_def by (simp del: trimmed_fields(1,3)) blast
qed

lemma trimmed_counters_ok:
  assumes ok: "counters_ok t" and d: "0 \<le> d" "d \<le> count_in key (history_meta t)" and meta: "list_ex (\<lambda>(k, _). same_id k key) (history_meta t)"
  shows "counters_ok (trimmed key d t)"
  unfolding counters_ok_alt
proof (intro conjI allI)
  have "map fst (history_meta (trimmed key d t)) = map fst (history_meta t)" by auto
  then show "distinct_ids (map fst (history_meta (trimmed key d t)))" using ok by (simp only: counters_ok_alt)
  fix k
  have rows: "int (length (profile_history k t)) = count_in k (history_meta t)" using ok by (simp add: counters_ok_alt)
  show "int (length (profile_history k (trimmed key d t))) = count_in k (history_meta (trimmed key d t))"
  proof (cases "same_id k key")
    case True
    then have "count_in k (history_meta t) = count_in key (history_meta t)" by (simp add: count_in_def same_id_def)
    with True d rows show ?thesis by (simp add: profile_history_trimmed count_in_lower[OF meta])
  qed (simp add: profile_history_trimmed count_in_lower[OF meta] rows)
qed

lemma trimmed_ok:
  assumes ok: "tables_ok t" and d: "0 \<le> d" "d \<le> count_in key (history_meta t)" and meta: "list_ex (\<lambda>(k, _). same_id k key) (history_meta t)"
  shows "tables_ok (trimmed key d t)"
proof -
  have "history_ok (trimmed key d t)"
    using ok by (auto simp: tables_ok_def history_ok_def sorted_drop_oldest dest: set_drop_oldest)
  with ok trimmed_counters_ok[OF _ d meta] trimmed_references_ok[of t key d] show ?thesis
    by (simp add: tables_ok_def keys_ok_def)
qed

lemma record_history_ok:
  assumes ok: "tables_ok t" shows "tables_ok (snd (record_history U mobile e F t))"
proof (cases "record_history U mobile e F t")
  case (Pair r t')
  show ?thesis
  proof (cases r)
    case (Inl err)
    with Pair show ?thesis
      using ok transaction_Inl[where t = t and t' = t']
      by (auto simp: record_history_def Let_def split: sum.splits)
  next
    case (Inr i)
    let ?key = "hyphenated U (entry_profile e)"
    note rec = record_history_success[OF Pair[unfolded Inr]]
    have added: "tables_ok (entry_added ?key e t)" by (rule entry_added_ok[OF ok rec(2)])
    have "tables_ok (trimmed ?key d (entry_added ?key e t))" if "0 \<le> d" "d \<le> count_in ?key (history_meta t) + 1" for d
      using that meta_exists[of ?key "history_meta t"] by (intro trimmed_ok[OF added]) (simp_all add: count_in_bump)
    then have "tables_ok t'" using added unfolding rec(4) by (auto split: option.splits)
    then show ?thesis using Pair by simp
  qed
qed

lemma clear_history_ok:
  assumes "tables_ok t" shows "tables_ok (snd (clear_history U p F t))"
  unfolding clear_history_def Let_def
proof (rule transaction_ok[OF assms], goal_cases)
  case (1 F k x k' t')
  then have t': "t' = t\<lparr>history_table := filter (\<lambda>r. \<not> same_id (hist_profile r) (hyphenated U p)) (history_table t),
       history_meta := filter (\<lambda>(k, _). \<not> same_id k (hyphenated U p)) (history_meta t)\<rparr>"
    by (auto simp: tx_Inr)
  show ?case
    using assms filter_history_ok[of t "hyphenated U p"] unfolding t'
    by (auto simp: tables_ok_def keys_ok_def references_ok_def)
qed

section \<open>Worksheets and layout\<close>

definition with_sheet :: "worksheet_row \<Rightarrow> tables \<Rightarrow> tables" where
  "with_sheet row t = t\<lparr>worksheet_table := upsert (\<lambda>r. same_id (sheet_id r) (sheet_id row))
     (\<lambda>r. row\<lparr>sheet_id := sheet_id r, sheet_created_at := sheet_created_at r\<rparr>) row (worksheet_table t)\<rparr>"

lemma sheet_ids_upsert:
  "map sheet_id (worksheet_table (with_sheet row t)) =
     (if has_worksheet (sheet_id row) t then map sheet_id (worksheet_table t) else map sheet_id (worksheet_table t) @ [sheet_id row])"
  unfolding with_sheet_def has_worksheet_def by (simp add: upsert_map)

lemma has_worksheet_ids: "has_worksheet key t \<longleftrightarrow> nocase key \<in> set (map nocase (map sheet_id (worksheet_table t)))"
  by (simp add: has_worksheet_iff image_comp)

lemma with_sheet_mono: "has_worksheet k t \<Longrightarrow> has_worksheet k (with_sheet row t)"
  unfolding has_worksheet_ids[of k] by (simp add: sheet_ids_upsert del: map_map)

lemma with_sheet_ok:
  assumes ok: "tables_ok t" and p: "\<And>p. sheet_profile row = Some p \<Longrightarrow> has_profile p t"
  shows "tables_ok (with_sheet row t)"
proof -
  have "distinct_ids (map sheet_id (worksheet_table (with_sheet row t)))"
    using ok has_worksheet_ids[of "sheet_id row" t] by (auto simp: tables_ok_def keys_ok_def distinct_ids_def sheet_ids_upsert simp del: map_map)
  moreover have "has_profile q t" if "r \<in> set (worksheet_table (with_sheet row t))" "sheet_profile r = Some q" for r q
  proof -
    have "r \<in> set (worksheet_table t) \<or> r = row \<or> (\<exists>r0 \<in> set (worksheet_table t). r = row\<lparr>sheet_id := sheet_id r0, sheet_created_at := sheet_created_at r0\<rparr>)"
      using that(1) in_upsert[of r] by (fastforce simp: with_sheet_def)
    then show ?thesis using that(2) ok p by (auto simp: tables_ok_def references_ok_def)
  qed
  moreover have frame: "profile_table (with_sheet row t) = profile_table t" "setting_table (with_sheet row t) = setting_table t"
    "history_table (with_sheet row t) = history_table t" "history_sequence (with_sheet row t) = history_sequence t"
    "history_meta (with_sheet row t) = history_meta t" "layout_table (with_sheet row t) = layout_table t"
    "worksheet_setting_table (with_sheet row t) = worksheet_setting_table t" "\<And>k. has_profile k (with_sheet row t) = has_profile k t"
    by (simp_all add: with_sheet_def)
  ultimately show ?thesis
    using ok with_sheet_mono[of _ t row] by (simp add: ok_defs)
qed

lemma save_worksheet_ok:
  assumes ok: "tables_ok t" shows "tables_ok (snd (save_worksheet U w F t))"
proof (cases "validate_state (ws_state w)")
  case (Inr x)
  have row: "sheet_profile (worksheet_columns U w) = map_option (hyphenated U) (worksheet_profile w)"
    by (simp add: worksheet_columns_def)
  show ?thesis unfolding save_worksheet_def Inr sum.case Let_def with_sheet_def[symmetric]
    by (rule transaction_ok[OF ok]) (use ok row in \<open>auto simp: tx_Inr intro!: with_sheet_ok split: option.splits if_splits\<close>)
qed (simp add: save_worksheet_def ok)

lemma delete_worksheet_ok:
  assumes ok: "tables_ok t" shows "tables_ok (snd (delete_worksheet U i F t))"
  unfolding delete_worksheet_def Let_def
proof (rule transaction_ok[OF ok], goal_cases)
  case (1 F k x k' t')
  let ?key = "hyphenated U i"
  let ?t = "t\<lparr>worksheet_table := filter (\<lambda>r. \<not> same_id (sheet_id r) ?key) (worksheet_table t),
          worksheet_setting_table := filter (\<lambda>r. \<not> same_id (wset_worksheet r) ?key) (worksheet_setting_table t),
          layout_table := map_option (\<lambda>r. r\<lparr>lay_worksheet := clear_reference ?key (lay_worksheet r)\<rparr>) (layout_table t)\<rparr>"
  from 1 have t': "t' = ?t" by (auto simp: tx_Inr)
  have sheets: "has_worksheet q ?t \<longleftrightarrow> has_worksheet q t \<and> \<not> same_id q ?key" for q
    by (auto simp: has_worksheet_def list_ex_iff same_id_def)
  have "keys_ok ?t" using ok by (simp add: tables_ok_def keys_ok_def distinct_ids_filter distinct_map_filter)
  moreover have "references_ok ?t"
    using ok unfolding tables_ok_def references_ok_def sheets by (auto simp: clear_reference_Some)
  ultimately show ?case using ok unfolding t' by (simp add: tables_ok_def history_ok_def counters_ok_def profile_history_def meta_count_def)
qed

lemma set_layout_ok:
  assumes "tables_ok t" and "\<And>w. lay_worksheet l = Some w \<Longrightarrow> has_worksheet w t" and "\<And>p. lay_profile l = Some p \<Longrightarrow> has_profile p t"
  shows "tables_ok (t\<lparr>layout_table := Some l\<rparr>)"
  using assms by (auto simp: ok_defs)

lemma save_layout_ok:
  assumes ok: "tables_ok t" shows "tables_ok (snd (save_layout U now l F t))"
  unfolding save_layout_def
  by (rule transaction_ok[OF ok])
    (use ok in \<open>auto simp: tx_Inr require_def intro!: set_layout_ok split: option.splits if_splits\<close>)

end
