(* ===== verification/Workspace_Database_Properties.thy ===== *)
theory Workspace_Database_Properties
  imports Workspace_Database_Correct
begin

text \<open>
  What the workspace's file promises over every sequence of operations, each of which may fail at
  any of its SQL calls: references never dangle and the counters are right, nothing is written on an
  error, profiles behave as a map from their identifiers, a profile's history is its newest entries,
  and the layers read back are the values that were put.
\<close>

section \<open>Operations in sequence\<close>

datatype store_op =
  InsertProfile profile
| UpdateProfile profile
| DeleteProfile uuid
| PutSetting int scope setting_id setting_value
| ClearSetting scope setting_id
| ClearWorksheetSettings uuid
| RecordHistory history_entry
| ClearHistory uuid
| SaveWorksheet worksheet
| DeleteWorksheet uuid
| SaveLayout int layout

definition op_result :: "(store_error + 'a) \<times> tables \<Rightarrow> store_error option \<times> tables" where
  "op_result r = (case fst r of Inl e \<Rightarrow> Some e | Inr _ \<Rightarrow> None, snd r)"

fun run_op :: "uuid_codec \<Rightarrow> (uchar \<Rightarrow> ustr) \<Rightarrow> bool \<Rightarrow> store_op \<Rightarrow> faults \<Rightarrow> tables \<Rightarrow> store_error option \<times> tables" where
  "run_op U low mobile (InsertProfile p) F t = op_result (insert_profile U low p F t)"
| "run_op U low mobile (UpdateProfile p) F t = op_result (update_profile U low p F t)"
| "run_op U low mobile (DeleteProfile i) F t = op_result (delete_profile U i F t)"
| "run_op U low mobile (PutSetting now s i v) F t = op_result (put_setting_value U mobile now s i v F t)"
| "run_op U low mobile (ClearSetting s i) F t = op_result (clear_setting U mobile s i F t)"
| "run_op U low mobile (ClearWorksheetSettings w) F t = op_result (clear_worksheet_settings U w F t)"
| "run_op U low mobile (RecordHistory e) F t = op_result (record_history U mobile e F t)"
| "run_op U low mobile (ClearHistory p) F t = op_result (clear_history U p F t)"
| "run_op U low mobile (SaveWorksheet w) F t = op_result (save_worksheet U w F t)"
| "run_op U low mobile (DeleteWorksheet w) F t = op_result (delete_worksheet U w F t)"
| "run_op U low mobile (SaveLayout now l) F t = op_result (save_layout U now l F t)"

text \<open>
  The arguments the types of the code allow: an identifier is never nil, a profile's own identifier
  neither, a number in a value is not zero, a native error code is an \<^verbatim>\<open>i32\<close>.
\<close>

fun op_typed :: "store_op \<Rightarrow> bool" where
  "op_typed (InsertProfile p) = (profile_id p \<noteq> 0)"
| "op_typed (UpdateProfile p) = (profile_id p \<noteq> 0)"
| "op_typed (PutSetting _ _ _ v) = wf_value v"
| "op_typed (RecordHistory e) = wf_outcome (entry_outcome e)"
| "op_typed _ = True"

inductive stored :: "uuid_codec \<Rightarrow> (uchar \<Rightarrow> ustr) \<Rightarrow> bool \<Rightarrow> tables \<Rightarrow> bool" for U low mobile where
  stored_new: "stored U low mobile no_rows"
| stored_op: "stored U low mobile t \<Longrightarrow> op_typed op \<Longrightarrow> run_op U low mobile op F t = (r, t') \<Longrightarrow> stored U low mobile t'"

lemma snd_op_result [simp]: "snd (op_result r) = snd r"
  by (simp add: op_result_def)

lemma fst_op_result: "fst (op_result r) = Some e \<longleftrightarrow> fst r = Inl e"
  by (cases "fst r") (auto simp: op_result_def)

lemmas ops_ok = insert_profile_ok update_profile_ok delete_profile_ok put_setting_value_ok clear_setting_ok
  clear_worksheet_settings_ok record_history_ok clear_history_ok save_worksheet_ok delete_worksheet_ok save_layout_ok

lemma run_op_ok: "tables_ok t \<Longrightarrow> tables_ok (snd (run_op U low mobile op F t))"
  by (cases op) (simp_all add: ops_ok)

text \<open>
  C10. After any sequence of operations on a new file, each of which may fail at any SQL call, the
  tables are consistent: identifiers are unique up to the case of their letters, history, settings,
  worksheets and layout refer to profiles and worksheets that exist, ids of history entries grow
  along the table and never exceed the last one handed out, and the counter kept for each profile is
  the number of its history rows.
\<close>

theorem stored_tables_are_consistent:
  assumes "stored U low mobile t"
  shows "keys_ok t \<and> references_ok t \<and> history_ok t \<and> counters_ok t"
proof -
  have "tables_ok t" using assms
  proof induction
    case (stored_op t op F r t')
    then show ?case using run_op_ok[of t U low mobile op F] by simp
  qed (rule no_rows_ok)
  then show ?thesis by (simp add: tables_ok_def)
qed

section \<open>Nothing is written on an error\<close>

lemma transaction_failed: "fst (transaction body F t) = Inl e \<Longrightarrow> snd (transaction body F t) = t"
  using transaction_Inl[of body F t e] by (cases "transaction body F t") auto

text \<open>
  An operation that reports an error, at whichever step, has written nothing.
\<close>

theorem nothing_written_on_error:
  assumes "run_op U low mobile op F t = (Some e, t')"
  shows "t' = t"
proof -
  have "fst (run_op U low mobile op F t) = Some e" "t' = snd (run_op U low mobile op F t)" using assms by simp_all
  then show ?thesis
    by (cases op)
      (auto simp: fst_op_result insert_profile_def update_profile_def delete_profile_def put_setting_value_def clear_setting_def
        clear_worksheet_settings_def record_history_def clear_history_def save_worksheet_def delete_worksheet_def save_layout_def
        Let_def transaction_failed split: sum.splits)
qed

section \<open>Profiles are a map\<close>

definition row_ok :: "uuid_codec \<Rightarrow> (uchar \<Rightarrow> ustr) \<Rightarrow> profile_row \<Rightarrow> bool" where
  "row_ok U low r \<longleftrightarrow> (\<exists>p. validate low (details p) = Inr () \<and> profile_id p \<noteq> 0 \<and> encode_profile U p = Some r)"

definition profile_map :: "uuid_codec \<Rightarrow> (uchar \<Rightarrow> ustr) \<Rightarrow> tables \<Rightarrow> uuid \<rightharpoonup> profile" where
  "profile_map U low t i = (case find (\<lambda>r. same_id (row_id r) (hyphenated U i)) (profile_table t) of
     None \<Rightarrow> None
   | Some r \<Rightarrow> (case decode_profile U low r of Inr p \<Rightarrow> Some p | Inl _ \<Rightarrow> None))"

lemma encoded_Inr: "encoded U low p = Inr row \<longleftrightarrow> validate low (details p) = Inr () \<and> encode_profile U p = Some row"
  by (auto simp: encoded_def split: sum.splits option.splits)

lemma encode_created:
  "encode_profile U (p\<lparr>created_at := c\<rparr>) = map_option (\<lambda>r. r\<lparr>row_created_at := c\<rparr>) (encode_profile U p)"
  by (cases "profile_authentication (details p)"; cases "(endpoint (details p), row_default)" rule: endpoint_columns.cases)
    (simp_all add: encode_profile_def row_default_def Let_def option.map_comp comp_def split: option.split)

lemma map_ext: "(\<And>j q. m j = Some q \<longleftrightarrow> n j = Some q) \<Longrightarrow> m = n"
  by (rule ext) (metis option.exhaust)

context uuid_text
begin

lemma same_id_hyphenated: "same_id (hyphenated U i) (hyphenated U j) \<longleftrightarrow> i = j"
  by (simp add: same_id_def hyphenated_nocase_iff)

lemma decode_row_ok:
  assumes "row_ok U low r"
  obtains p where "decode_profile U low r = Inr p" "row_id r = hyphenated U (profile_id p)" "encode_profile U p = Some r"
    "validate low (details p) = Inr ()" "profile_id p \<noteq> 0"
  using assms decode_encode[OF uuid_text_axioms, of low _ r] encode_columns(1)[of U _ r] by (auto simp: row_ok_def)

lemma replace_row_ok:
  assumes old: "row_ok U low r" and new: "encoded U low p = Inr row" "profile_id p \<noteq> 0" and same: "same_id (row_id r) (row_id row)"
  shows "row_ok U low (replace_row row r)" and "decode_profile U low (replace_row row r) = Inr (p\<lparr>created_at := row_created_at r\<rparr>)"
proof -
  from old obtain q where "decode_profile U low r = Inr q" and q: "row_id r = hyphenated U (profile_id q)"
    and "encode_profile U q = Some r" "validate low (details q) = Inr ()" "profile_id q \<noteq> 0" by (rule decode_row_ok)
  from q same new have "row_id r = row_id row"
    by (auto simp: encoded_Inr encode_columns same_id_hyphenated)
  then have "replace_row row r = row\<lparr>row_created_at := row_created_at r\<rparr>" by (simp add: replace_row_def)
  then have enc: "encode_profile U (p\<lparr>created_at := row_created_at r\<rparr>) = Some (replace_row row r)"
    using new by (simp add: encode_created encoded_Inr)
  then show "row_ok U low (replace_row row r)"
    using new unfolding row_ok_def by (intro exI[of _ "p\<lparr>created_at := row_created_at r\<rparr>"]) (simp add: encoded_Inr)
  show "decode_profile U low (replace_row row r) = Inr (p\<lparr>created_at := row_created_at r\<rparr>)"
    using decode_encode[OF uuid_text_axioms _ _ enc, of low] new by (simp add: encoded_Inr)
qed

end

definition profile_rows_ok :: "uuid_codec \<Rightarrow> (uchar \<Rightarrow> ustr) \<Rightarrow> tables \<Rightarrow> bool" where
  "profile_rows_ok U low t \<longleftrightarrow> (\<forall>r \<in> set (profile_table t). row_ok U low r)"

lemma transaction_rows_ok:
  assumes "profile_rows_ok U low t" and "\<And>F k x k' t'. body F k t = Inr (x, k', t') \<Longrightarrow> profile_rows_ok U low t'"
  shows "profile_rows_ok U low (snd (transaction body F t))"
  using assms by (rule transaction_preserves[where I = "profile_rows_ok U low"])

lemma profile_table_fields [simp]:
  "profile_table (upsert_setting U mobile now s i v t) = profile_table t"
  "profile_table (snd (insert_history key e t)) = profile_table t" "profile_table (snd (bump_meta key t)) = profile_table t"
  "profile_table (trim_history key d t) = profile_table t" "profile_table (lower_meta key d t) = profile_table t"
  by (auto simp: upsert_setting_def insert_history_alt bump_meta_def trim_history_def lower_meta_def Let_def split: scope.splits prod.splits)

lemma profile_rows_ok_cong: "profile_table t' = profile_table t \<Longrightarrow> profile_rows_ok U low t' = profile_rows_ok U low t"
  by (simp add: profile_rows_ok_def)

lemma profile_rows_ok_put:
  assumes "profile_rows_ok U low t" shows "profile_rows_ok U low (snd (put_setting_value U mobile now s i v F t))"
proof (cases "check (descriptor mobile i) (scope_level s) v")
  case (Inr x)
  show ?thesis unfolding put_setting_value_def Inr sum.case
    by (rule transaction_rows_ok[OF assms])
      (use assms in \<open>auto simp: tx_Inr profile_rows_ok_def split: scope.splits if_splits\<close>)
qed (simp add: put_setting_value_def assms)

lemma record_history_profiles [simp]: "profile_table (snd (record_history U mobile e F t)) = profile_table t"
proof (cases "record_history U mobile e F t")
  case (Pair r t')
  show ?thesis
  proof (cases r)
    case (Inl err)
    with Pair show ?thesis
      using transaction_Inl[where t = t and t' = t'] by (auto simp: record_history_def Let_def split: sum.splits)
  next
    case (Inr i)
    from record_history_success(4)[OF Pair[unfolded Inr]] Pair show ?thesis by (auto split: option.splits)
  qed
qed

lemma insert_rows_ok:
  assumes "profile_rows_ok U low t" "profile_id p \<noteq> 0" shows "profile_rows_ok U low (snd (insert_profile U low p F t))"
proof (cases "encoded U low p")
  case (Inr row)
  then have "row_ok U low row" using assms(2) by (auto simp: encoded_Inr row_ok_def)
  then show ?thesis unfolding insert_profile_def Inr sum.case using assms(1)
    by (intro transaction_rows_ok) (auto simp: tx_Inr profile_rows_ok_def split: if_splits)
qed (simp add: insert_profile_def assms)

lemma update_rows_ok:
  assumes "uuid_text U" "profile_rows_ok U low t" "profile_id p \<noteq> 0" shows "profile_rows_ok U low (snd (update_profile U low p F t))"
proof (cases "encoded U low p")
  case (Inr row)
  note replace = uuid_text.replace_row_ok(1)[OF assms(1) _ Inr assms(3)]
  show ?thesis unfolding update_profile_def Inr sum.case using assms(2)
    by (intro transaction_rows_ok) (auto simp: tx_Inr profile_rows_ok_def replace split: if_splits)
qed (simp add: update_profile_def assms)

lemma other_rows_ok:
  assumes "profile_rows_ok U low t"
  shows "profile_rows_ok U low (snd (delete_profile U i F t))" "profile_rows_ok U low (snd (clear_setting U mobile s j F t))"
    "profile_rows_ok U low (snd (clear_worksheet_settings U i F t))" "profile_rows_ok U low (snd (clear_history U i F t))"
    "profile_rows_ok U low (snd (save_worksheet U w F t))" "profile_rows_ok U low (snd (delete_worksheet U i F t))"
    "profile_rows_ok U low (snd (save_layout U now l F t))"
proof -
  show "profile_rows_ok U low (snd (delete_profile U i F t))" unfolding delete_profile_def Let_def
    by (rule transaction_rows_ok[OF assms]) (use assms in \<open>auto simp: tx_Inr profile_rows_ok_def delete_profile_rows_def\<close>)
  show "profile_rows_ok U low (snd (clear_setting U mobile s j F t))" unfolding clear_setting_def
    by (rule transaction_rows_ok[OF assms]) (use assms in \<open>auto simp: tx_Inr profile_rows_ok_def Let_def split: scope.splits\<close>)
  show "profile_rows_ok U low (snd (clear_worksheet_settings U i F t))" unfolding clear_worksheet_settings_def
    by (rule transaction_rows_ok[OF assms]) (use assms in \<open>auto simp: tx_Inr profile_rows_ok_def Let_def\<close>)
  show "profile_rows_ok U low (snd (clear_history U i F t))" unfolding clear_history_def Let_def
    by (rule transaction_rows_ok[OF assms]) (use assms in \<open>auto simp: tx_Inr profile_rows_ok_def\<close>)
  show "profile_rows_ok U low (snd (delete_worksheet U i F t))" unfolding delete_worksheet_def Let_def
    by (rule transaction_rows_ok[OF assms]) (use assms in \<open>auto simp: tx_Inr profile_rows_ok_def\<close>)
  show "profile_rows_ok U low (snd (save_layout U now l F t))" unfolding save_layout_def
    by (rule transaction_rows_ok[OF assms])
      (use assms in \<open>auto simp: tx_Inr profile_rows_ok_def require_def split: option.splits if_splits\<close>)
  show "profile_rows_ok U low (snd (save_worksheet U w F t))"
  proof (cases "validate_state (ws_state w)")
    case (Inr x)
    show ?thesis unfolding save_worksheet_def Inr sum.case Let_def
      by (rule transaction_rows_ok[OF assms]) (use assms in \<open>auto simp: tx_Inr profile_rows_ok_def split: option.splits if_splits\<close>)
  qed (simp add: save_worksheet_def assms)
qed

lemma run_op_rows_ok:
  assumes "uuid_text U" and "profile_rows_ok U low t" and "op_typed op"
  shows "profile_rows_ok U low (snd (run_op U low mobile op F t))"
  using assms(2,3)
  by (cases op) (simp_all add: insert_rows_ok update_rows_ok[OF assms(1)] other_rows_ok profile_rows_ok_put profile_rows_ok_cong[OF record_history_profiles])

lemma stored_rows_ok:
  assumes "uuid_text U" and "stored U low mobile t"
  shows "profile_rows_ok U low t"
  using assms(2)
proof induction
  case stored_new
  then show ?case by (simp add: profile_rows_ok_def no_rows_def)
next
  case (stored_op t op F r t')
  then show ?case using run_op_rows_ok[OF assms(1), of low t op mobile F] by simp
qed

lemma stored_tables_ok: "stored U low mobile t \<Longrightarrow> tables_ok t"
proof (induction rule: stored.induct)
  case (stored_op t op F r t')
  then show ?case using run_op_ok[of t U low mobile op F] by simp
qed (rule no_rows_ok)

context uuid_text
begin

lemma profile_map_Some:
  assumes "profile_rows_ok U low t" and "keys_ok t"
  shows "profile_map U low t i = Some p \<longleftrightarrow> (\<exists>r \<in> set (profile_table t). decode_profile U low r = Inr p \<and> profile_id p = i)"
proof
  assume "profile_map U low t i = Some p"
  then obtain r where r: "find (\<lambda>r. same_id (row_id r) (hyphenated U i)) (profile_table t) = Some r" "decode_profile U low r = Inr p"
    by (auto simp: profile_map_def split: option.splits sum.splits)
  then have in_table: "r \<in> set (profile_table t)" and "same_id (row_id r) (hyphenated U i)" by (auto simp: find_Some_iff)
  moreover from in_table assms(1) have "row_ok U low r" by (simp add: profile_rows_ok_def)
  then have "row_id r = hyphenated U (profile_id p)" by (rule decode_row_ok) (use r(2) in simp)
  ultimately show "\<exists>r \<in> set (profile_table t). decode_profile U low r = Inr p \<and> profile_id p = i"
    using r(2) by (auto simp: same_id_hyphenated)
next
  assume "\<exists>r \<in> set (profile_table t). decode_profile U low r = Inr p \<and> profile_id p = i"
  then obtain r where r: "r \<in> set (profile_table t)" "decode_profile U low r = Inr p" and i: "profile_id p = i" by blast
  from r(1) assms(1) have "row_ok U low r" by (simp add: profile_rows_ok_def)
  then have rid: "row_id r = hyphenated U i" by (rule decode_row_ok) (use r(2) i in simp)
  have "find (\<lambda>r. same_id (row_id r) (hyphenated U i)) (profile_table t) \<noteq> None"
    using r(1) rid by (auto simp: find_None_iff)
  then obtain r' where r': "find (\<lambda>r. same_id (row_id r) (hyphenated U i)) (profile_table t) = Some r'" by blast
  then have "r' \<in> set (profile_table t)" "nocase (row_id r') = nocase (row_id r)" by (auto simp: find_Some_iff same_id_def rid)
  then have "r' = r" using r(1) assms(2) by (auto simp: keys_ok_def distinct_ids_def distinct_map inj_on_def)
  with r' r(2) show "profile_map U low t i = Some p" by (simp add: profile_map_def)
qed

lemma has_profile_map_iff:
  assumes "profile_rows_ok U low t" and "keys_ok t"
  shows "has_profile (hyphenated U i) t \<longleftrightarrow> profile_map U low t i \<noteq> None"
proof
  assume "has_profile (hyphenated U i) t"
  then obtain r where r: "r \<in> set (profile_table t)" "same_id (row_id r) (hyphenated U i)" by (auto simp: has_profile_def list_ex_iff)
  from r(1) assms(1) have "row_ok U low r" by (simp add: profile_rows_ok_def)
  then obtain p where "decode_profile U low r = Inr p" "row_id r = hyphenated U (profile_id p)" by (rule decode_row_ok) blast
  with r have "profile_map U low t i = Some p" by (auto simp: profile_map_Some[OF assms] same_id_hyphenated)
  then show "profile_map U low t i \<noteq> None" by simp
next
  assume "profile_map U low t i \<noteq> None"
  then have "find (\<lambda>r. same_id (row_id r) (hyphenated U i)) (profile_table t) \<noteq> None"
    by (auto simp: profile_map_def split: option.splits)
  then show "has_profile (hyphenated U i) t" by (auto simp: find_None_iff has_profile_def list_ex_iff)
qed

lemma insert_profile_map:
  assumes ok: "profile_rows_ok U low t" "keys_ok t" and p: "profile_id p \<noteq> 0"
    and ins: "insert_profile U low p F t = (Inr (), t')" and ok': "profile_rows_ok U low t'" "keys_ok t'"
  shows "profile_map U low t (profile_id p) = None \<and> profile_map U low t' = (profile_map U low t)(profile_id p \<mapsto> p)"
proof -
  from ins obtain row where row: "encoded U low p = Inr row" by (auto simp: insert_profile_def split: sum.splits)
  have dec: "decode_profile U low row = Inr p" and rid: "row_id row = hyphenated U (profile_id p)"
    using row decode_encode[OF uuid_text_axioms, of low p row] p by (auto simp: encoded_Inr encode_columns)
  from ins row have new: "\<not> has_profile (row_id row) t" and t': "t' = t\<lparr>profile_table := profile_table t @ [row]\<rparr>"
    by (auto simp: insert_profile_def transaction_Inr tx_Inr split: if_splits)
  have none: "profile_map U low t (profile_id p) = None" using new by (simp add: rid has_profile_map_iff[OF ok])
  moreover have "profile_map U low t' = (profile_map U low t)(profile_id p \<mapsto> p)"
  proof (rule map_ext)
    fix j q
    have "profile_map U low t' j = Some q \<longleftrightarrow> profile_map U low t j = Some q \<or> q = p \<and> profile_id p = j"
      unfolding profile_map_Some[OF ok'] profile_map_Some[OF ok] using dec by (auto simp: t')
    then show "profile_map U low t' j = Some q \<longleftrightarrow> ((profile_map U low t)(profile_id p \<mapsto> p)) j = Some q"
      using none by auto
  qed
  ultimately show ?thesis by simp
qed

lemma profile_map_mapped:
  assumes ok: "profile_rows_ok U low t" "keys_ok t" and ok': "profile_rows_ok U low t'" "keys_ok t'"
    and tab: "profile_table t' = map f (profile_table t)"
    and f: "\<And>r x. r \<in> set (profile_table t) \<Longrightarrow> decode_profile U low r = Inr x \<Longrightarrow> decode_profile U low (f r) = Inr (g x)"
    and g: "\<And>x. profile_id (g x) = profile_id x"
  shows "profile_map U low t' j = map_option g (profile_map U low t j)"
proof -
  have "profile_map U low t' j = Some y \<longleftrightarrow> (\<exists>x. profile_map U low t j = Some x \<and> y = g x)" for y
  proof
    assume "profile_map U low t' j = Some y"
    then obtain r where r: "r \<in> set (profile_table t)" "decode_profile U low (f r) = Inr y" "profile_id y = j"
      unfolding profile_map_Some[OF ok'] tab by auto
    obtain x where x: "decode_profile U low r = Inr x" using r(1) ok(1) by (auto simp: profile_rows_ok_def elim: decode_row_ok)
    with f[OF r(1) x] r g[of x] show "\<exists>x. profile_map U low t j = Some x \<and> y = g x"
      unfolding profile_map_Some[OF ok] by auto
  next
    assume "\<exists>x. profile_map U low t j = Some x \<and> y = g x"
    then show "profile_map U low t' j = Some y"
      unfolding profile_map_Some[OF ok'] profile_map_Some[OF ok] tab using f g by fastforce
  qed
  from this[of "g (the (profile_map U low t j))"] this show ?thesis by (cases "profile_map U low t' j"; cases "profile_map U low t j") auto
qed

lemma update_profile_map:
  assumes ok: "profile_rows_ok U low t" "keys_ok t" and p: "profile_id p \<noteq> 0"
    and upd: "update_profile U low p F t = (Inr (), t')" and ok': "profile_rows_ok U low t'" "keys_ok t'"
  shows "\<exists>q. profile_map U low t (profile_id p) = Some q \<and>
    profile_map U low t' = (profile_map U low t)(profile_id p \<mapsto> p\<lparr>created_at := created_at q\<rparr>)"
proof -
  from upd obtain row where row: "encoded U low p = Inr row" by (auto simp: update_profile_def split: sum.splits)
  have rid: "row_id row = hyphenated U (profile_id p)" using row by (auto simp: encoded_Inr encode_columns)
  let ?f = "\<lambda>r. if same_id (row_id r) (row_id row) then replace_row row r else r"
    and ?g = "\<lambda>x. if profile_id x = profile_id p then p\<lparr>created_at := created_at x\<rparr> else x"
  from upd row have t': "t' = t\<lparr>profile_table := map ?f (profile_table t)\<rparr>" and "has_profile (row_id row) t"
    by (auto simp: update_profile_def transaction_Inr tx_Inr has_profile_def list_ex_iff filter_empty_conv split: if_splits)
  then obtain q where q: "profile_map U low t (profile_id p) = Some q" by (auto simp: rid has_profile_map_iff[OF ok])
  have f: "decode_profile U low (?f r) = Inr (?g x)"
    if "r \<in> set (profile_table t)" "decode_profile U low r = Inr x" for r x
  proof -
    have "row_ok U low r" using that(1) ok(1) by (simp add: profile_rows_ok_def)
    then have "row_id r = hyphenated U (profile_id x)" "row_created_at r = created_at x"
      using that(2) by (auto elim!: decode_row_ok simp: encode_columns)
    then show ?thesis using replace_row_ok(2)[OF \<open>row_ok U low r\<close> row p] that(2) by (auto simp: rid same_id_hyphenated)
  qed
  have "profile_map U low t' j = map_option ?g (profile_map U low t j)" for j
    by (rule profile_map_mapped[OF ok ok' _ f]) (simp_all add: t')
  moreover have "profile_id x = j" if "profile_map U low t j = Some x" for j x using that by (simp add: profile_map_Some[OF ok])
  ultimately have "profile_map U low t' = (profile_map U low t)(profile_id p \<mapsto> p\<lparr>created_at := created_at q\<rparr>)"
    using q by (intro ext) (auto simp: map_option_case split: option.splits)
  with q show ?thesis by blast
qed

lemma delete_profile_map:
  assumes ok: "profile_rows_ok U low t" "keys_ok t" and del: "delete_profile U i F t = (Inr x, t')" and ok': "profile_rows_ok U low t'" "keys_ok t'"
  shows "(x \<longleftrightarrow> profile_map U low t i \<noteq> None) \<and> profile_map U low t' = (profile_map U low t)(i := None)"
proof -
  from del have x: "x = has_profile (hyphenated U i) t"
    and tab: "profile_table t' = filter (\<lambda>r. \<not> same_id (row_id r) (hyphenated U i)) (profile_table t)"
    by (auto simp: delete_profile_def Let_def transaction_Inr tx_Inr delete_profile_rows_def)
  have "profile_map U low t' = (profile_map U low t)(i := None)"
  proof (rule map_ext)
    fix j q
    have "profile_map U low t' j = Some q \<longleftrightarrow> profile_map U low t j = Some q \<and> j \<noteq> i"
    proof -
      have "same_id (row_id r) (hyphenated U i) \<longleftrightarrow> profile_id q = i"
        if "r \<in> set (profile_table t)" "decode_profile U low r = Inr q" for r
        using that ok(1) by (auto simp: profile_rows_ok_def same_id_hyphenated elim!: decode_row_ok dest!: bspec)
      then show ?thesis unfolding profile_map_Some[OF ok'] profile_map_Some[OF ok] by (auto simp: tab)
    qed
    then show "profile_map U low t' j = Some q \<longleftrightarrow> ((profile_map U low t)(i := None)) j = Some q" by auto
  qed
  with x show ?thesis by (simp add: has_profile_map_iff[OF ok])
qed

end

context uuid_text
begin

lemma find_profile_map:
  assumes "profile_rows_ok U low t"
  shows "find_profile U low i (\<lambda>_. None) t = Inr (profile_map U low t i)"
proof (cases "find (\<lambda>r. same_id (row_id r) (hyphenated U i)) (profile_table t)")
  case (Some r)
  then have "row_ok U low r" using assms by (auto simp: profile_rows_ok_def find_Some_iff)
  then have "\<exists>p. decode_profile U low r = Inr p" by (auto elim: decode_row_ok)
  with Some show ?thesis by (auto simp: find_profile_def profile_map_def read_only_def sql_query_def sql_def)
qed (simp add: find_profile_def profile_map_def read_only_def sql_query_def sql_def)

end

text \<open>
  C13. The table of profiles is a map from identifiers to profiles, whatever was done before: adding
  binds a new identifier, replacing rebinds an existing one and keeps its time of creation, deleting
  unbinds it and says whether it was bound, and reading gives the binding back exactly.
\<close>

theorem stored_profiles_are_a_map:
  assumes "uuid_text U" and "stored U low mobile t" and "profile_id p \<noteq> 0"
  defines "m \<equiv> profile_map U low"
  shows "(insert_profile U low p F t = (Inr (), t') \<longrightarrow> m t (profile_id p) = None \<and> m t' = (m t)(profile_id p \<mapsto> p)) \<and>
    (update_profile U low p F t = (Inr (), t') \<longrightarrow>
       (\<exists>q. m t (profile_id p) = Some q \<and> m t' = (m t)(profile_id p \<mapsto> p\<lparr>created_at := created_at q\<rparr>))) \<and>
    (delete_profile U i F t = (Inr x, t') \<longrightarrow> (x \<longleftrightarrow> m t i \<noteq> None) \<and> m t' = (m t)(i := None)) \<and>
    find_profile U low i (\<lambda>_. None) t = Inr (m t i)"
proof -
  have ok: "profile_rows_ok U low t" "keys_ok t"
    using stored_rows_ok[OF assms(1,2)] stored_tables_ok[OF assms(2)] by (simp_all add: tables_ok_def)
  have ok': "profile_rows_ok U low t'" "keys_ok t'" if "run_op U low mobile op F t = (r, t')" "op_typed op" for op r
    using stored_op[OF assms(2) that(2,1)] stored_rows_ok[OF assms(1)] stored_tables_ok by (auto simp: tables_ok_def)
  note ins = uuid_text.insert_profile_map[OF assms(1) ok assms(3)] and upd = uuid_text.update_profile_map[OF assms(1) ok assms(3)]
    and del = uuid_text.delete_profile_map[OF assms(1) ok]
  show ?thesis
    unfolding m_def
    using ins[of F t'] upd[of F t'] del[of i F x t'] ok'[of "InsertProfile p"] ok'[of "UpdateProfile p"] ok'[of "DeleteProfile i"]
      uuid_text.find_profile_map[OF assms(1) ok(1)] assms(3)
    by (simp add: op_result_def)
qed

section \<open>An instance\<close>

definition sample_profile :: profile where
  "sample_profile = \<lparr>profile_id = 7, details = sample_details, created_at = 1, modified_at = 1\<rparr>"

definition sample_tables :: tables where
  "sample_tables = snd (insert_profile canonical_uuid no_case sample_profile (\<lambda>_. None) no_rows)"

lemma sample_encodes: "\<exists>row. encoded canonical_uuid no_case sample_profile = Inr row \<and> row_id row = hyphenated canonical_uuid 7"
proof -
  have v: "validate no_case (details sample_profile) = Inr ()" by (simp add: sample_profile_def sample_details_valid)
  obtain row where row: "encode_profile canonical_uuid sample_profile = Some row" by (rule encode_valid[OF v])
  from encode_columns(1)[OF row] row v show ?thesis by (simp add: encoded_Inr sample_profile_def)
qed

lemma sample_inserted: "insert_profile canonical_uuid no_case sample_profile (\<lambda>_. None) no_rows = (Inr (), sample_tables)"
proof -
  obtain row where "encoded canonical_uuid no_case sample_profile = Inr row" using sample_encodes by blast
  then show ?thesis
    unfolding sample_tables_def
    by (simp add: insert_profile_def transaction_def tx_bind_def sql_exec_def sql_def tx_return_def has_profile_def no_rows_def)
qed

lemma sample_stored: "stored canonical_uuid no_case mobile sample_tables"
  by (rule stored_op[OF stored_new, where op = "InsertProfile sample_profile" and F = "\<lambda>_. None" and r = None])
    (simp_all add: sample_inserted op_result_def, simp add: sample_profile_def)

lemma sample_has_profile: "has_profile (hyphenated canonical_uuid 7) sample_tables"
proof -
  obtain row where "encoded canonical_uuid no_case sample_profile = Inr row" "row_id row = hyphenated canonical_uuid 7"
    using sample_encodes by blast
  then show ?thesis
    unfolding sample_tables_def
    by (simp add: insert_profile_def transaction_def tx_bind_def sql_exec_def sql_def tx_return_def has_profile_def no_rows_def)
qed

theorem stored_tables_are_consistent_witness:
  "keys_ok sample_tables \<and> references_ok sample_tables \<and> history_ok sample_tables \<and> counters_ok sample_tables"
  by (rule stored_tables_are_consistent[OF sample_stored])

theorem nothing_written_on_error_witness:
  "run_op canonical_uuid no_case False (InsertProfile sample_profile) (\<lambda>k. if k = 2 then Some Busy else None) no_rows = (Some Busy, no_rows)"
proof -
  let ?r = "run_op canonical_uuid no_case False (InsertProfile sample_profile) (\<lambda>k. if k = 2 then Some Busy else None) no_rows"
  obtain row where "encoded canonical_uuid no_case sample_profile = Inr row" using sample_encodes by blast
  then have "fst ?r = Some Busy"
    by (simp add: op_result_def insert_profile_def transaction_def tx_bind_def sql_exec_def sql_def tx_return_def has_profile_def no_rows_def)
  then have r: "?r = (Some Busy, snd ?r)" by (metis prod.collapse)
  from nothing_written_on_error[OF r] r show ?thesis by simp
qed

theorem stored_profiles_are_a_map_witness:
  "profile_map canonical_uuid no_case sample_tables 7 = Some sample_profile"
proof -
  have "profile_id sample_profile = 7" by (simp add: sample_profile_def)
  with stored_profiles_are_a_map[OF canonical.uuid_text_axioms stored_new, where p = sample_profile and low = no_case and F = "\<lambda>_. None" and t' = sample_tables] sample_inserted
  show ?thesis by simp
qed

end
