(* ===== verification/Workspace_Database_Settings.thy ===== *)
theory Workspace_Database_Settings
  imports Workspace_Database_Properties
begin

text \<open>
  The settings in the file are the layers of \<open>Workspace_Settings\<close>: reading a scope after any sequence
  of operations rejects nothing and gives the values that were put, and a put or a clear changes the
  layer of its scope as \<^verbatim>\<open>SettingsLayer\<close> does and no other.
\<close>

section \<open>Rows of a scope\<close>

definition value_row_ok :: "bool \<Rightarrow> level \<Rightarrow> value_row \<Rightarrow> bool" where
  "value_row_ok mobile l row \<longleftrightarrow> (\<exists>i v kind n. row = (setting_key mobile i, kind, n, None) \<and> (kind, n) = encode_value v \<and>
     wf_value v \<and> check (descriptor mobile i) l v = Inr ())"

definition settings_ok :: "uuid_codec \<Rightarrow> bool \<Rightarrow> tables \<Rightarrow> bool" where
  "settings_ok U mobile t \<longleftrightarrow> (\<forall>s. \<forall>row \<in> set (scope_rows U s t). value_row_ok mobile (scope_level s) row)"

definition layer_of_rows :: "bool \<Rightarrow> value_row list \<Rightarrow> settings_layer" where
  "layer_of_rows mobile rows i = (case map_of rows (setting_key mobile i) of
     Some (kind, n, txt) \<Rightarrow> (case decode_value kind n txt of Inr v \<Rightarrow> Some v | Inl _ \<Rightarrow> None) | None \<Rightarrow> None)"

definition layer_of :: "uuid_codec \<Rightarrow> bool \<Rightarrow> scope \<Rightarrow> tables \<Rightarrow> settings_layer" where
  "layer_of U mobile s t = layer_of_rows mobile (scope_rows U s t)"

lemma fold_load_rows:
  assumes "\<forall>row \<in> set rows. value_row_ok mobile l row" and "distinct (map fst rows)"
  shows "fold (load_row mobile l) rows acc = acc\<lparr>loaded_value := loaded_value acc ++ layer_of_rows mobile rows\<rparr>"
  using assms
proof (induction rows arbitrary: acc)
  case Nil
  then show ?case by (simp add: layer_of_rows_def map_add_def)
next
  case (Cons row rows)
  then obtain i v kind n where row: "row = (setting_key mobile i, kind, n, None)" "(kind, n) = encode_value v" "wf_value v"
    and ok: "check (descriptor mobile i) l v = Inr ()" by (auto simp: value_row_ok_def)
  have dec: "decode_value kind n None = Inr v" by (rule decode_value_of[OF row(2,3)])
  have "load_row mobile l row acc = acc\<lparr>loaded_value := (loaded_value acc)(i \<mapsto> v)\<rparr>"
    by (simp add: load_row_def row(1) from_storage_key_of dec set_value_def ok)
  moreover have "(loaded_value acc)(i \<mapsto> v) ++ layer_of_rows mobile rows = loaded_value acc ++ layer_of_rows mobile (row # rows)"
  proof
    fix j
    have "map_of rows (setting_key mobile i) = None" using Cons.prems(2) row(1) by (auto simp: map_of_eq_None_iff)
    then show "((loaded_value acc)(i \<mapsto> v) ++ layer_of_rows mobile rows) j = (loaded_value acc ++ layer_of_rows mobile (row # rows)) j"
      by (cases "j = i") (auto simp: layer_of_rows_def map_add_def row(1) dec setting_key_inj split: option.splits)
  qed
  ultimately show ?case using Cons by simp
qed

lemma map_of_sorted:
  assumes "distinct (map fst rows)" shows "map_of (sort_key f rows) = map_of rows"
proof (rule ext)
  fix k
  have "distinct (map fst (sort_key f rows))" using assms by (simp add: distinct_map)
  then have "map_of (sort_key f rows) k = Some v \<longleftrightarrow> map_of rows k = Some v" for v
    using assms by (simp add: map_of_eq_Some_iff)
  then show "map_of (sort_key f rows) k = map_of rows k" by (metis option.exhaust)
qed

lemma load_layer_of:
  assumes "settings_ok U mobile t" and "distinct (map fst (scope_rows U s t))"
  shows "load_layer U mobile s (\<lambda>_. None) t = Inr \<lparr>loaded_value = layer_of U mobile s t, rejected = []\<rparr>"
proof -
  let ?rows = "sort_key (\<lambda>(key, _). us key) (scope_rows U s t)"
  have "fold (load_row mobile (scope_level s)) ?rows \<lparr>loaded_value = layer_new, rejected = []\<rparr> =
      \<lparr>loaded_value = layer_new ++ layer_of_rows mobile ?rows, rejected = []\<rparr>"
    using assms by (subst fold_load_rows) (auto simp: settings_ok_def distinct_map)
  also have "layer_new ++ layer_of_rows mobile ?rows = layer_of U mobile s t"
    by (simp add: layer_new_def layer_of_def layer_of_rows_def map_of_sorted[OF assms(2)] fun_eq_iff)
  finally show ?thesis
    by (simp add: load_layer_def read_only_def tx_bind_def sql_query_def sql_def tx_return_def)
qed

lemma scope_rows_distinct:
  assumes "keys_ok t" shows "distinct (map fst (scope_rows U s t))"
proof -
  have inj: "distinct (map (\<lambda>r. set_key r) (filter (in_scope U s) (setting_table t)))"
    using assms by (auto simp: keys_ok_def distinct_map inj_on_def in_scope_def same_id_def intro!: distinct_filter)
  have "distinct (map (\<lambda>r. wset_key r) (filter (\<lambda>r. same_id (wset_worksheet r) w) (worksheet_setting_table t)))" for w
    using assms by (auto simp: keys_ok_def distinct_map inj_on_def same_id_def intro!: distinct_filter)
  with inj show ?thesis by (cases s) (simp_all add: scope_rows_def comp_def)
qed

lemma upsert_rows:
  fixes tup :: "'r \<Rightarrow> 'k \<times> 'x"
  assumes C: "\<And>r. C r \<longleftrightarrow> sc r \<and> fst (tup r) = key" and ch: "\<And>r. C r \<Longrightarrow> sc (ch r) \<and> tup (ch r) = (key, val)"
    and new: "sc new" "tup new = (key, val)"
  shows "set (map tup (filter sc (upsert C ch new rows))) = {x \<in> set (map tup (filter sc rows)). fst x \<noteq> key} \<union> {(key, val)}"
proof (cases "list_ex C rows")
  case True
  let ?g = "\<lambda>r. if C r then ch r else r"
  have g: "sc (?g r) \<and> x = tup (?g r) \<longleftrightarrow> C r \<and> x = (key, val) \<or> sc r \<and> fst (tup r) \<noteq> key \<and> x = tup r" for r x
    using C[of r] ch[of r] by auto
  have up: "upsert C ch new rows = map ?g rows" using True by (simp add: upsert_def)
  show ?thesis
  proof (rule set_eqI)
    fix x
    have "x \<in> set (map tup (filter sc (upsert C ch new rows))) \<longleftrightarrow> (\<exists>r \<in> set rows. sc (?g r) \<and> x = tup (?g r))"
      unfolding up set_map set_filter by blast
    also have "\<dots> \<longleftrightarrow> (\<exists>r \<in> set rows. C r) \<and> x = (key, val) \<or> (\<exists>r \<in> set rows. sc r \<and> fst (tup r) \<noteq> key \<and> x = tup r)"
      unfolding g by blast
    also have "\<dots> \<longleftrightarrow> x \<in> {x \<in> set (map tup (filter sc rows)). fst x \<noteq> key} \<union> {(key, val)}"
      using True by (auto simp: list_ex_iff)
    finally show "x \<in> set (map tup (filter sc (upsert C ch new rows))) \<longleftrightarrow>
      x \<in> {x \<in> set (map tup (filter sc rows)). fst x \<noteq> key} \<union> {(key, val)}" .
  qed
next
  case False
  then have "\<not> C r" if "r \<in> set rows" for r using that by (auto simp: list_ex_iff)
  then have "\<forall>r \<in> set rows. sc r \<longrightarrow> fst (tup r) \<noteq> key" using C by blast
  with False new show ?thesis by (auto simp: upsert_def)
qed

lemma upsert_rows_other:
  assumes "\<And>r. C r \<Longrightarrow> \<not> sc' r" and "\<And>r. sc' (ch r) = sc' r" and "\<not> sc' new"
  shows "filter sc' (upsert C ch new rows) = filter sc' rows"
proof -
  have "filter sc' (map (\<lambda>r. if C r then ch r else r) rows) = filter sc' rows"
    using assms(1,2) by (induction rows) auto
  then show ?thesis using assms(3) by (simp add: upsert_def)
qed

lemma level_word_inj: "level_word l = level_word k \<longleftrightarrow> l = k"
  by (cases l; cases k) simp_all

context uuid_text
begin

lemma in_scope_other: "s \<noteq> s' \<Longrightarrow> in_scope U s r \<Longrightarrow> \<not> in_scope U s' r"
  by (cases s; cases s') (auto simp: in_scope_def same_id_def hyphenated_nocase_iff)

lemma scope_rows_put:
  assumes "encode_value v = (kind, n)"
  shows "set (scope_rows U s (upsert_setting U mobile now s i v t)) =
    {x \<in> set (scope_rows U s t). fst x \<noteq> setting_key mobile i} \<union> {(setting_key mobile i, kind, n, None)}"
proof (cases "\<exists>w. s = WorksheetScope w")
  case True
  then obtain w where w: "s = WorksheetScope w" ..
  let ?tup = "\<lambda>r. (wset_key r, wset_kind r, wset_int r, wset_text r)" and ?sc = "\<lambda>r. same_id (wset_worksheet r) (hyphenated U w)"
  let ?C = "\<lambda>r. ?sc r \<and> wset_key r = setting_key mobile i"
  let ?ch = "\<lambda>r. r\<lparr>wset_kind := kind, wset_int := n, wset_text := None, wset_updated_at := now\<rparr>"
  let ?new = "\<lparr>wset_worksheet = hyphenated U w, wset_key = setting_key mobile i, wset_kind = kind, wset_int = n,
           wset_text = None, wset_updated_at = now\<rparr>"
  have "scope_rows U s (upsert_setting U mobile now s i v t) = map ?tup (filter ?sc (upsert ?C ?ch ?new (worksheet_setting_table t)))"
    by (simp add: w assms upsert_setting_def scope_rows_def)
  moreover have "scope_rows U s t = map ?tup (filter ?sc (worksheet_setting_table t))" by (simp add: w scope_rows_def)
  moreover have "set (map ?tup (filter ?sc (upsert ?C ?ch ?new (worksheet_setting_table t)))) =
      {x \<in> set (map ?tup (filter ?sc (worksheet_setting_table t))). fst x \<noteq> setting_key mobile i} \<union> {(setting_key mobile i, kind, n, None)}"
    by (rule upsert_rows) auto
  ultimately show ?thesis by (simp only:)
next
  case False
  let ?tup = "\<lambda>r. (set_key r, set_kind r, set_int r, set_text r)"
  let ?C = "\<lambda>r. in_scope U s r \<and> set_key r = setting_key mobile i"
  let ?ch = "\<lambda>r. r\<lparr>set_kind := kind, set_int := n, set_text := None, set_updated_at := now\<rparr>"
  let ?new = "\<lparr>set_scope = level_word (scope_level s), set_scope_id = scope_id_text U s, set_key = setting_key mobile i,
           set_kind = kind, set_int = n, set_text = None, set_updated_at = now\<rparr>"
  have "scope_rows U s (upsert_setting U mobile now s i v t) = map ?tup (filter (in_scope U s) (upsert ?C ?ch ?new (setting_table t)))"
    using False by (cases s) (simp_all add: assms upsert_setting_def scope_rows_def)
  moreover have "scope_rows U s t = map ?tup (filter (in_scope U s) (setting_table t))" using False by (cases s) (simp_all add: scope_rows_def)
  moreover have "set (map ?tup (filter (in_scope U s) (upsert ?C ?ch ?new (setting_table t)))) =
      {x \<in> set (map ?tup (filter (in_scope U s) (setting_table t))). fst x \<noteq> setting_key mobile i} \<union> {(setting_key mobile i, kind, n, None)}"
    by (rule upsert_rows) (auto simp: in_scope_def)
  ultimately show ?thesis by (simp only:)
qed

lemma scope_rows_put_other:
  assumes "s' \<noteq> s"
  shows "scope_rows U s' (upsert_setting U mobile now s i v t) = scope_rows U s' t"
proof -
  obtain kind n where e: "encode_value v = (kind, n)" by (cases "encode_value v")
  have sheets: "filter (\<lambda>r. same_id (wset_worksheet r) (hyphenated U w')) (upsert
      (\<lambda>r. same_id (wset_worksheet r) (hyphenated U w) \<and> wset_key r = setting_key mobile i)
      (\<lambda>r. r\<lparr>wset_kind := kind, wset_int := n, wset_text := None, wset_updated_at := now\<rparr>)
      \<lparr>wset_worksheet = hyphenated U w, wset_key = setting_key mobile i, wset_kind = kind, wset_int = n,
           wset_text = None, wset_updated_at = now\<rparr> rows) = filter (\<lambda>r. same_id (wset_worksheet r) (hyphenated U w')) rows"
    if "w' \<noteq> w" for w w' rows
    by (rule upsert_rows_other) (use that in \<open>auto simp: same_id_def hyphenated_nocase_iff\<close>)
  have plain: "filter (in_scope U s') (upsert (\<lambda>r. in_scope U s r \<and> set_key r = setting_key mobile i)
      (\<lambda>r. r\<lparr>set_kind := kind, set_int := n, set_text := None, set_updated_at := now\<rparr>)
      \<lparr>set_scope = level_word (scope_level s), set_scope_id = scope_id_text U s, set_key = setting_key mobile i,
           set_kind = kind, set_int = n, set_text = None, set_updated_at = now\<rparr> rows) = filter (in_scope U s') rows" for rows
  proof (rule upsert_rows_other)
    show "\<not> in_scope U s' r" if "in_scope U s r \<and> set_key r = setting_key mobile i" for r
      using that in_scope_other[of s s'] assms by blast
    have "in_scope U s \<lparr>set_scope = level_word (scope_level s), set_scope_id = scope_id_text U s, set_key = setting_key mobile i,
           set_kind = kind, set_int = n, set_text = None, set_updated_at = now\<rparr>" by (simp add: in_scope_def)
    then show "\<not> in_scope U s' \<lparr>set_scope = level_word (scope_level s), set_scope_id = scope_id_text U s, set_key = setting_key mobile i,
           set_kind = kind, set_int = n, set_text = None, set_updated_at = now\<rparr>"
      using in_scope_other[of s s'] assms by blast
  qed (simp add: in_scope_def)
  show ?thesis
    using assms sheets plain by (cases s; cases s') (simp_all add: upsert_setting_def scope_rows_def e)
qed

end

section \<open>Every operation keeps the rows readable\<close>

definition fewer_settings :: "tables \<Rightarrow> tables \<Rightarrow> bool" where
  "fewer_settings t' t \<longleftrightarrow> set (setting_table t') \<subseteq> set (setting_table t) \<and>
     set (worksheet_setting_table t') \<subseteq> set (worksheet_setting_table t)"

lemma fewer_scope_rows: "fewer_settings t' t \<Longrightarrow> set (scope_rows U s t') \<subseteq> set (scope_rows U s t)"
  by (cases s) (auto simp: fewer_settings_def scope_rows_def)

lemma fewer_settings_ok: "settings_ok U mobile t \<Longrightarrow> fewer_settings t' t \<Longrightarrow> settings_ok U mobile t'"
  using fewer_scope_rows[of t' t U] by (auto simp: settings_ok_def)

lemma transaction_fewer:
  assumes "\<And>F k x k' t'. body F k t = Inr (x, k', t') \<Longrightarrow>
    set (setting_table t') \<subseteq> set (setting_table t) \<and> set (worksheet_setting_table t') \<subseteq> set (worksheet_setting_table t)"
  shows "fewer_settings (snd (transaction body F t)) t"
  by (rule transaction_preserves[where I = "\<lambda>t'. fewer_settings t' t"]) (use assms in \<open>auto simp: fewer_settings_def\<close>)

lemma record_history_settings [simp]:
  "setting_table (snd (record_history U mobile e F t)) = setting_table t"
  "worksheet_setting_table (snd (record_history U mobile e F t)) = worksheet_setting_table t"
proof -
  obtain r t' where rec: "record_history U mobile e F t = (r, t')" by (cases "record_history U mobile e F t")
  have "setting_table t' = setting_table t \<and> worksheet_setting_table t' = worksheet_setting_table t"
  proof (cases r)
    case (Inl err)
    with rec show ?thesis
      using transaction_Inl[where t = t and t' = t'] by (auto simp: record_history_def Let_def split: sum.splits)
  next
    case (Inr i)
    from record_history_success(4)[OF rec[unfolded Inr]] show ?thesis by (auto split: option.splits)
  qed
  with rec show "setting_table (snd (record_history U mobile e F t)) = setting_table t"
    "worksheet_setting_table (snd (record_history U mobile e F t)) = worksheet_setting_table t" by simp_all
qed

lemma fewer_refl [simp]: "fewer_settings t t"
  by (simp add: fewer_settings_def)

lemma run_op_fewer:
  assumes "\<And>now s i v. op \<noteq> PutSetting now s i v"
  shows "fewer_settings (snd (run_op U low mobile op F t)) t"
proof (cases op)
  case (InsertProfile p)
  then show ?thesis
    by (auto simp: insert_profile_def tx_Inr intro!: transaction_fewer split: sum.splits if_splits)
next
  case (UpdateProfile p)
  then show ?thesis
    by (auto simp: update_profile_def tx_Inr intro!: transaction_fewer split: sum.splits if_splits)
next
  case (DeleteProfile i)
  then show ?thesis
    by (auto simp: delete_profile_def delete_profile_rows_def Let_def tx_Inr intro!: transaction_fewer)
next
  case (ClearSetting s i)
  then show ?thesis
    by (auto simp: clear_setting_def Let_def tx_Inr intro!: transaction_fewer split: scope.splits)
next
  case (ClearWorksheetSettings w)
  then show ?thesis
    by (auto simp: clear_worksheet_settings_def Let_def tx_Inr intro!: transaction_fewer)
next
  case (RecordHistory e)
  then show ?thesis by (simp add: fewer_settings_def)
next
  case (ClearHistory i)
  then show ?thesis
    by (auto simp: clear_history_def Let_def tx_Inr intro!: transaction_fewer)
next
  case (SaveWorksheet w)
  then show ?thesis
    by (auto simp: save_worksheet_def Let_def tx_Inr intro!: transaction_fewer split: sum.splits option.splits if_splits)
next
  case (DeleteWorksheet w)
  then show ?thesis
    by (auto simp: delete_worksheet_def Let_def tx_Inr intro!: transaction_fewer)
next
  case (SaveLayout now l)
  then show ?thesis
    by (auto simp: save_layout_def tx_Inr require_def intro!: transaction_fewer split: option.splits if_splits)
qed (use assms in simp)

lemma put_setting_success:
  assumes "put_setting_value U mobile now s i v F t = (Inr (), t')"
  shows "check (descriptor mobile i) (scope_level s) v = Inr ()" and "t' = upsert_setting U mobile now s i v t" and "scope_exists U s t"
proof -
  show c: "check (descriptor mobile i) (scope_level s) v = Inr ()"
    using assms by (auto simp: put_setting_value_def split: sum.splits)
  show "t' = upsert_setting U mobile now s i v t" "scope_exists U s t"
    using assms c by (auto simp: put_setting_value_def transaction_Inr tx_Inr scope_exists_def split: scope.splits if_splits)
qed

context uuid_text
begin

lemma put_settings_ok:
  assumes ok: "settings_ok U mobile t" and wf: "wf_value v" and c: "check (descriptor mobile i) (scope_level s) v = Inr ()"
  shows "settings_ok U mobile (upsert_setting U mobile now s i v t)"
proof -
  obtain kind n where e: "encode_value v = (kind, n)" by (cases "encode_value v")
  have "value_row_ok mobile (scope_level s) (setting_key mobile i, kind, n, None)"
    unfolding value_row_ok_def using wf c e by metis
  then have "\<forall>x \<in> set (scope_rows U s (upsert_setting U mobile now s i v t)). value_row_ok mobile (scope_level s) x"
    using ok by (auto simp: scope_rows_put[OF e] settings_ok_def)
  then show ?thesis
    using ok unfolding settings_ok_def by (metis scope_rows_put_other)
qed

lemma run_op_settings_ok:
  assumes ok: "settings_ok U mobile t" and typed: "op_typed op"
  shows "settings_ok U mobile (snd (run_op U low mobile op F t))"
proof (cases "\<exists>now s i v. op = PutSetting now s i v")
  case True
  then obtain now s i v where op: "op = PutSetting now s i v" by blast
  obtain r t' where put: "put_setting_value U mobile now s i v F t = (r, t')" by (cases "put_setting_value U mobile now s i v F t")
  have "settings_ok U mobile t'"
  proof (cases r)
    case (Inl e)
    with put ok show ?thesis
      using transaction_Inl[where t = t and t' = t'] by (auto simp: put_setting_value_def split: sum.splits)
  next
    case (Inr x)
    then have put': "put_setting_value U mobile now s i v F t = (Inr (), t')" using put by simp
    show ?thesis unfolding put_setting_success(2)[OF put']
      by (rule put_settings_ok[OF ok]) (use op typed put_setting_success(1)[OF put'] in auto)
  qed
  then show ?thesis by (simp add: op put)
next
  case False
  then have "fewer_settings (snd (run_op U low mobile op F t)) t" by (intro run_op_fewer) blast
  with ok show ?thesis by (rule fewer_settings_ok)
qed

lemma stored_settings_ok: "stored U low mobile t \<Longrightarrow> settings_ok U mobile t"
proof (induction rule: stored.induct)
  case stored_new
  show ?case by (auto simp: settings_ok_def scope_rows_def no_rows_def split: scope.splits)
next
  case (stored_op t op F r t')
  then show ?case using run_op_settings_ok[of mobile t op low F] by simp
qed

end

lemma layer_of_Some:
  assumes "settings_ok U mobile t" and "keys_ok t"
  shows "layer_of U mobile s t i = Some v \<longleftrightarrow>
    wf_value v \<and> (setting_key mobile i, fst (encode_value v), snd (encode_value v), None) \<in> set (scope_rows U s t)"
proof
  assume "layer_of U mobile s t i = Some v"
  then obtain kind n tcol where row: "map_of (scope_rows U s t) (setting_key mobile i) = Some (kind, n, tcol)" "decode_value kind n tcol = Inr v"
    by (auto simp: layer_of_def layer_of_rows_def split: option.splits sum.splits)
  note mem = map_of_SomeD[OF row(1)]
  then have "value_row_ok mobile (scope_level s) (setting_key mobile i, kind, n, tcol)"
    using assms(1) unfolding settings_ok_def by blast
  then obtain w where w: "(kind, n) = encode_value w" "wf_value w" "tcol = None" by (auto simp: value_row_ok_def)
  with decode_value_of[of kind n w] row(2) have "w = v" by simp
  then have "kind = fst (encode_value v)" "n = snd (encode_value v)" using arg_cong[OF w(1), of fst] arg_cong[OF w(1), of snd] by simp_all
  with w mem \<open>w = v\<close> show "wf_value v \<and> (setting_key mobile i, fst (encode_value v), snd (encode_value v), None) \<in> set (scope_rows U s t)"
    by blast
next
  assume v: "wf_value v \<and> (setting_key mobile i, fst (encode_value v), snd (encode_value v), None) \<in> set (scope_rows U s t)"
  then have "map_of (scope_rows U s t) (setting_key mobile i) = Some (fst (encode_value v), snd (encode_value v), None)"
    by (intro map_of_is_SomeI scope_rows_distinct[OF assms(2)]) simp
  moreover have "decode_value (fst (encode_value v)) (snd (encode_value v)) None = Inr v"
    using v by (intro decode_value_of) simp_all
  ultimately show "layer_of U mobile s t i = Some v" by (simp add: layer_of_def layer_of_rows_def)
qed

lemma encode_value_inj:
  assumes "wf_value v" and "wf_value w" and same: "encode_value v = encode_value w"
  shows "v = w"
proof -
  obtain k n where v: "(k, n) = encode_value v" by (cases "encode_value v") simp
  have "(k, n) = encode_value w" using v same by (rule trans)
  then have "decode_value k n None = Inr w" using assms(2) by (rule decode_value_of)
  with decode_value_of[OF v assms(1)] show ?thesis by simp
qed

definition read_layer :: "uuid_codec \<Rightarrow> bool \<Rightarrow> scope \<Rightarrow> tables \<Rightarrow> settings_layer" where
  "read_layer U mobile s t = (case load_layer U mobile s (\<lambda>_. None) t of Inr x \<Rightarrow> loaded_value x | Inl _ \<Rightarrow> layer_new)"

text \<open>
  C15. The settings of the file are the layers of the resolver.  After any sequence of operations,
  reading a scope rejects no row; putting a value checks it as the layer of that level does and, when
  it succeeds, the layer read back is the old one with that value set, while the layers of every other
  scope are unchanged.
\<close>

theorem stored_settings_are_layers:
  assumes "uuid_text U" and "stored U low mobile t" and "wf_value v"
  defines "layer \<equiv> read_layer U mobile"
  shows "(\<exists>x. load_layer U mobile s (\<lambda>_. None) t = Inr x \<and> rejected x = []) \<and>
    (put_setting_value U mobile now s i v F t = (Inr (), t') \<longrightarrow>
       set_value mobile (scope_level s) i v (layer s t) = (Inr (layer s t i), layer s t') \<and>
       (s' \<noteq> s \<longrightarrow> layer s' t' = layer s' t))"
proof -
  note ok = uuid_text.stored_settings_ok[OF assms(1)]
  have load: "load_layer U mobile q (\<lambda>_. None) x = Inr \<lparr>loaded_value = layer_of U mobile q x, rejected = []\<rparr>"
    if "stored U low mobile x" for q x
    using load_layer_of[OF ok[OF that] scope_rows_distinct] stored_tables_ok[OF that] by (simp add: tables_ok_def)
  then have layer: "layer q x = layer_of U mobile q x" if "stored U low mobile x" for q x using that by (simp add: layer_def read_layer_def)
  have "set_value mobile (scope_level s) i v (layer s t) = (Inr (layer s t i), layer s t') \<and> (s' \<noteq> s \<longrightarrow> layer s' t' = layer s' t)"
    if put: "put_setting_value U mobile now s i v F t = (Inr (), t')"
  proof -
    note t' = put_setting_success[OF put]
    have st': "stored U low mobile t'"
      by (rule stored_op[OF assms(2), of "PutSetting now s i v" F None]) (use assms(3) put in \<open>simp_all add: op_result_def\<close>)
    have keys: "keys_ok t" "keys_ok t'" using stored_tables_ok[OF assms(2)] stored_tables_ok[OF st'] by (simp_all add: tables_ok_def)
    have rows: "x \<in> set (scope_rows U s t') \<longleftrightarrow> x \<in> set (scope_rows U s t) \<and> fst x \<noteq> setting_key mobile i \<or>
        x = (setting_key mobile i, fst (encode_value v), snd (encode_value v), None)" for x
      unfolding t'(2) uuid_text.scope_rows_put[OF assms(1) surjective_pairing] by blast
    have "layer_of U mobile s t' = (layer_of U mobile s t)(i \<mapsto> v)"
    proof (rule map_ext)
      fix j w
      have "encode_value w = encode_value v \<longleftrightarrow> w = v" if "wf_value w" using encode_value_inj[OF that assms(3)] by auto
      then have "layer_of U mobile s t' j = Some w \<longleftrightarrow> layer_of U mobile s t j = Some w \<and> j \<noteq> i \<or> j = i \<and> w = v"
        unfolding layer_of_Some[OF ok[OF st'] keys(2)] layer_of_Some[OF ok[OF assms(2)] keys(1)] rows
        using assms(3) by (auto simp: setting_key_inj prod_eq_iff)
      then show "layer_of U mobile s t' j = Some w \<longleftrightarrow> ((layer_of U mobile s t)(i \<mapsto> v)) j = Some w" by auto
    qed
    moreover have "layer_of U mobile s' t' = layer_of U mobile s' t" if "s' \<noteq> s"
      unfolding layer_of_def t'(2) uuid_text.scope_rows_put_other[OF assms(1) that] ..
    ultimately show ?thesis
      using t'(1) by (simp add: layer[OF assms(2)] layer[OF st'] set_value_def)
  qed
  then show ?thesis using load[OF assms(2)] by auto
qed

lemma sample_put:
  "put_setting_value canonical_uuid False 1 ApplicationScope HistoryMaxEntriesPerProfile (EntryLimitValue (Entries 5)) (\<lambda>_. None) no_rows =
     (Inr (), upsert_setting canonical_uuid False 1 ApplicationScope HistoryMaxEntriesPerProfile (EntryLimitValue (Entries 5)) no_rows)"
  by (simp add: put_setting_value_def transaction_def tx_bind_def sql_exec_def sql_def tx_return_def check_def check_value_def settings_defs)

theorem stored_settings_are_layers_witness:
  "read_layer canonical_uuid False ApplicationScope
     (upsert_setting canonical_uuid False 1 ApplicationScope HistoryMaxEntriesPerProfile (EntryLimitValue (Entries 5)) no_rows)
     HistoryMaxEntriesPerProfile = Some (EntryLimitValue (Entries 5))"
proof -
  have "wf_value (EntryLimitValue (Entries 5))" by (simp add: wf_value_def)
  note layers = stored_settings_are_layers[OF canonical.uuid_text_axioms stored_new[where low = no_case and mobile = False] this]
  from conjunct1[OF conjunct2[OF layers, THEN mp, OF sample_put]] show ?thesis
    using put_setting_success(1)[OF sample_put]
    by (auto simp: set_value_def simp del: descriptor.simps dest: fun_cong[of _ _ HistoryMaxEntriesPerProfile])
qed

end
