(* ===== verification/Workspace_Database_History.thy ===== *)
theory Workspace_Database_History
  imports Workspace_Database_Settings
begin

text \<open>
  A profile's history in the workspace's file, over every sequence of operations: it is a list,
  newest first, that recording prepends to and cuts at the limit the settings resolve to, and the
  pages of a reader walk through it.
\<close>

section \<open>Entries decode\<close>

definition entry_row_ok :: "history_row \<Rightarrow> bool" where
  "entry_row_ok r \<longleftrightarrow> (\<exists>x. wf_outcome x \<and> (hist_outcome r, hist_native_code r) = encode_history_outcome x)"

definition entries_ok :: "tables \<Rightarrow> bool" where
  "entries_ok t \<longleftrightarrow> (\<forall>r \<in> set (history_table t). entry_row_ok r)"

lemma transaction_entries:
  assumes "\<And>F k x k' t'. body F k t = Inr (x, k', t') \<Longrightarrow> set (history_table t') \<subseteq> set (history_table t)"
  shows "set (history_table (snd (transaction body F t))) \<subseteq> set (history_table t)"
  by (rule transaction_preserves[where I = "\<lambda>t'. set (history_table t') \<subseteq> set (history_table t)"]) (use assms in auto)

lemma history_table_upsert_setting [simp]: "history_table (upsert_setting U mobile now s i v t) = history_table t"
  by (auto simp: upsert_setting_def Let_def split: prod.splits scope.splits)

lemma run_op_entries:
  assumes "\<And>e. op \<noteq> RecordHistory e"
  shows "set (history_table (snd (run_op U low mobile op F t))) \<subseteq> set (history_table t)"
proof (cases op)
  case (InsertProfile p)
  then show ?thesis
    using transaction_entries by (simp add: insert_profile_def split: sum.splits) (rule allI impI transaction_entries | auto simp: tx_Inr split: if_splits)+
next
  case (UpdateProfile p)
  then show ?thesis
    by (simp add: update_profile_def split: sum.splits) (rule allI impI transaction_entries | auto simp: tx_Inr split: if_splits)+
next
  case (DeleteProfile i)
  then show ?thesis
    by (simp add: delete_profile_def Let_def) (rule transaction_entries, auto simp: delete_profile_rows_def tx_Inr)
next
  case (PutSetting now s i v)
  then show ?thesis
    by (simp add: put_setting_value_def split: sum.splits)
      (rule allI impI transaction_entries | auto simp: tx_Inr split: scope.splits if_splits)+
next
  case (ClearSetting s i)
  then show ?thesis
    by (simp add: clear_setting_def) (rule transaction_entries, auto simp: Let_def tx_Inr split: scope.splits)
next
  case (ClearWorksheetSettings w)
  then show ?thesis
    by (simp add: clear_worksheet_settings_def) (rule transaction_entries, auto simp: Let_def tx_Inr)
next
  case (ClearHistory i)
  then show ?thesis
    by (simp add: clear_history_def Let_def) (rule transaction_entries, auto simp: tx_Inr)
next
  case (SaveWorksheet w)
  then show ?thesis
    by (simp add: save_worksheet_def Let_def split: sum.splits)
      (rule allI impI transaction_entries | auto simp: tx_Inr split: option.splits if_splits)+
next
  case (DeleteWorksheet w)
  then show ?thesis
    by (simp add: delete_worksheet_def Let_def) (rule transaction_entries, auto simp: tx_Inr)
next
  case (SaveLayout now l)
  then show ?thesis
    by (simp add: save_layout_def) (rule transaction_entries, auto simp: tx_Inr require_def split: option.splits if_splits)
qed (use assms in simp)

lemma entry_row_wf: "wf_outcome (entry_outcome e) \<Longrightarrow> entry_row_ok (entry_row key i e)"
  by (auto simp: entry_row_ok_def entry_row_def split: prod.splits)

lemma record_entries_ok:
  assumes "entries_ok t" and "wf_outcome (entry_outcome e)"
  shows "entries_ok (snd (record_history U mobile e F t))"
proof -
  obtain r t' where rec: "record_history U mobile e F t = (r, t')" by (cases "record_history U mobile e F t")
  have "entries_ok t'"
  proof (cases r)
    case (Inl err)
    with rec show ?thesis
      using assms(1) transaction_Inl[where t = t and t' = t'] by (auto simp: record_history_def Let_def split: sum.splits)
  next
    case (Inr i)
    note t' = record_history_success(4)[OF rec[unfolded Inr]]
    have "entries_ok (entry_added key e t)" for key
      using assms entry_row_wf by (auto simp: entries_ok_def)
    then show ?thesis unfolding t' entries_ok_def by (auto simp: dest!: set_drop_oldest split: option.splits)
  qed
  with rec show ?thesis by simp
qed

lemma stored_entries_ok: "stored U low mobile t \<Longrightarrow> entries_ok t"
proof (induction rule: stored.induct)
  case stored_new
  show ?case by (simp add: entries_ok_def no_rows_def)
next
  case (stored_op t op F r t')
  show ?case
  proof (cases "\<exists>e. op = RecordHistory e")
    case True
    with stored_op record_entries_ok[of t] show ?thesis by (metis op_typed.simps(4) run_op.simps(7) snd_conv snd_op_result)
  next
    case False
    then have "set (history_table t') \<subseteq> set (history_table t)"
      using run_op_entries[of op U low mobile F t] stored_op.hyps by simp
    with stored_op.IH show ?thesis by (auto simp: entries_ok_def)
  qed
qed

section \<open>The history as a list\<close>

definition history_list :: "uuid_codec \<Rightarrow> uuid \<Rightarrow> tables \<Rightarrow> history_record list" where
  "history_list U p t = (case all_or_error (map (decode_history_row p) (rev (profile_history (hyphenated U p) t))) of
     Inr xs \<Rightarrow> xs | Inl _ \<Rightarrow> [])"

definition record_of :: "history_id \<Rightarrow> history_entry \<Rightarrow> history_record" where
  "record_of i e =
     \<lparr>record_id = i, record_profile = entry_profile e, record_executed_at = entry_executed_at e,
      record_statement = entry_statement e, record_outcome = entry_outcome e,
      record_elapsed_ms = nat (i64_saturating (entry_elapsed_ms e)),
      record_row_count = map_option (nat \<circ> i64_saturating) (entry_row_count e)\<rparr>"

fun take_limit :: "entry_limit \<Rightarrow> 'a list \<Rightarrow> 'a list" where
  "take_limit UnlimitedEntries xs = xs"
| "take_limit (Entries n) xs = take (unat n) xs"

definition row_record :: "uuid \<Rightarrow> history_row \<Rightarrow> history_record" where
  "row_record p r = (case decode_history_row p r of Inr x \<Rightarrow> x | Inl _ \<Rightarrow> record_of 0 \<lparr>entry_profile = p, entry_executed_at = 0,
     entry_statement = [], entry_outcome = Succeeded, entry_elapsed_ms = 0, entry_row_count = None\<rparr>)"

lemma decode_entry_row:
  assumes "entry_row_ok r" shows "decode_history_row p r = Inr (row_record p r)" and "record_id (row_record p r) = hist_id r"
proof -
  obtain x where x: "wf_outcome x" "(hist_outcome r, hist_native_code r) = encode_history_outcome x"
    using assms by (auto simp: entry_row_ok_def)
  then have "decode_history_outcome (hist_outcome r) (hist_native_code r) = Inr x"
    using history_outcome_round_trip[OF x(1)] by (metis fst_conv snd_conv)
  then show "decode_history_row p r = Inr (row_record p r)" "record_id (row_record p r) = hist_id r"
    by (simp_all add: row_record_def decode_history_row_def)
qed

lemma all_or_error_Inr: "(\<And>r. r \<in> set rs \<Longrightarrow> f r = Inr (g r)) \<Longrightarrow> all_or_error (map f rs) = Inr (map g rs)"
  by (induction rs) simp_all

lemma decode_rows:
  assumes "entries_ok t" and "set rs \<subseteq> set (history_table t)"
  shows "all_or_error (map (decode_history_row p) rs) = Inr (map (row_record p) rs)"
  using assms decode_entry_row(1) by (intro all_or_error_Inr) (auto simp: entries_ok_def)

lemma history_list_rows:
  assumes "entries_ok t"
  shows "history_list U p t = map (row_record p) (rev (profile_history (hyphenated U p) t))"
proof -
  have "set (rev (profile_history (hyphenated U p) t)) \<subseteq> set (history_table t)" by (auto simp: profile_history_def)
  from decode_rows[OF assms this] show ?thesis by (simp add: history_list_def)
qed

lemma row_record_entry:
  "wf_outcome (entry_outcome e) \<Longrightarrow> row_record (entry_profile e) (entry_row key i e) = record_of i e"
  using history_outcome_round_trip[of "entry_outcome e"]
  by (simp add: row_record_def decode_history_row_def entry_row_def record_of_def option.map_comp split: prod.splits)

section \<open>The limit in force\<close>

definition resolved_limit :: "uuid_codec \<Rightarrow> bool \<Rightarrow> tables \<Rightarrow> entry_limit option" where
  "resolved_limit U mobile t =
     (case load_layer U mobile ApplicationScope (\<lambda>_. None) t of
        Inl _ \<Rightarrow> None
      | Inr x \<Rightarrow> map_option resolved_value (typed_resolve entry_limit_from_value mobile
          \<lparr>application_layer = Some (loaded_value x), profile_layer = None, worksheet_layer = None\<rparr> HistoryMaxEntriesPerProfile))"

definition limit_count :: "entry_limit \<Rightarrow> nat option" where
  "limit_count l = (case l of Entries n \<Rightarrow> Some (unat n) | UnlimitedEntries \<Rightarrow> None)"

lemma map_of_filter_find: "map_of (map (\<lambda>r. (f r, g r)) (filter P xs)) key = map_option g (find (\<lambda>r. P r \<and> f r = key) xs)"
  by (induction xs) auto

lemma application_row:
  "map_of (scope_rows U ApplicationScope t) (setting_key mobile i) =
     map_option (\<lambda>r. (set_kind r, set_int r, set_text r))
       (find (\<lambda>r. set_scope r = ''application'' \<and> set_scope_id r = [] \<and> set_key r = setting_key mobile i) (setting_table t))"
  by (simp add: scope_rows_def map_of_filter_find in_scope_def same_id_def nocase_def conj_assoc)

lemma application_value_row:
  assumes "settings_ok U mobile t" and "(setting_key mobile i, row) \<in> set (scope_rows U ApplicationScope t)"
  obtains v where "row = (fst (encode_value v), snd (encode_value v), None)" and "wf_value v"
    and "check (descriptor mobile i) Application v = Inr ()"
proof -
  have "value_row_ok mobile (scope_level ApplicationScope) (setting_key mobile i, row)"
    using assms unfolding settings_ok_def by blast
  then obtain j v kind n where v: "setting_key mobile i = setting_key mobile j" "row = (kind, n, None)" "(kind, n) = encode_value v"
      "wf_value v" "check (descriptor mobile j) Application v = Inr ()"
    by (auto simp: value_row_ok_def)
  have "kind = fst (encode_value v)" "n = snd (encode_value v)" using arg_cong[OF v(3), of fst] arg_cong[OF v(3), of snd] by simp_all
  with v that[of v] show ?thesis by (simp add: setting_key_inj)
qed

text \<open>The number in the row is the value the resolver gives.\<close>

lemma resolved_limit_current:
  assumes ok: "settings_ok U mobile t" and keys: "keys_ok t"
  shows "\<exists>l. resolved_limit U mobile t = Some l \<and> current_max_entries mobile t = limit_count l"
proof -
  let ?i = HistoryMaxEntriesPerProfile and ?m = "layer_of U mobile ApplicationScope t"
  note load = load_layer_of[OF ok scope_rows_distinct[OF keys], of ApplicationScope]
  show ?thesis
  proof (cases "map_of (scope_rows U ApplicationScope t) (setting_key mobile ?i)")
    case None
    then have "?m ?i = None" "current_max_entries mobile t = Some 1000"
      by (auto simp: layer_of_def layer_of_rows_def application_row current_max_entries_def typed_default_def)
    then show ?thesis
      by (simp add: resolved_limit_def load typed_resolve_def resolve_value_def layer_value_def get_value_def map_filter_simps limit_count_def)
  next
    case (Some row)
    then obtain v where row: "row = (fst (encode_value v), snd (encode_value v), None)" and wf: "wf_value v"
      and ck: "check (descriptor mobile ?i) Application v = Inr ()"
      using application_value_row[OF ok map_of_SomeD[OF Some]] by blast
    then obtain l where v: "v = EntryLimitValue l"
      by (cases v) (auto simp: check_def check_value_def split: if_splits)
    have "?m ?i = Some v" using Some row wf decode_value_of[of "fst (encode_value v)" "snd (encode_value v)" v]
      by (simp add: layer_of_def layer_of_rows_def)
    moreover have "level_set_contains (levels (descriptor mobile ?i)) Application" "check_value (descriptor mobile ?i) v = Inr ()"
      using ck by (simp_all add: check_def split: if_splits)
    ultimately have "resolved_limit U mobile t = Some l"
      by (simp add: resolved_limit_def load typed_resolve_def resolve_value_def layer_value_def get_value_def map_filter_simps v Let_def del: descriptor.simps)
    moreover have "current_max_entries mobile t = limit_count l"
      using Some row uint_lt2p[of "case l of Entries n \<Rightarrow> n | UnlimitedEntries \<Rightarrow> 0"]
      by (auto simp: application_row current_max_entries_def v encode_value_def u32_try_from_def limit_count_def split: entry_limit.splits)
    ultimately show ?thesis by blast
  qed
qed

text \<open>
  The agreement needs rows this build wrote.  A row its rules refuse, such as a limit above the
  registry's bound that a newer build allowed, resolves to the default, while recording still uses
  the number in the row.
\<close>

definition refused_limit :: tables where
  "refused_limit = no_rows\<lparr>setting_table := [\<lparr>set_scope = ''application'', set_scope_id = [], set_key = ''history.max_entries_per_profile'',
     set_kind = ''entry_limit'', set_int = Some 2000000, set_text = None, set_updated_at = 1\<rparr>]\<rparr>"

lemma refused_limit_is_used:
  "resolved_limit U mobile refused_limit = Some (Entries 1000) \<and> current_max_entries mobile refused_limit = Some 2000000"
proof
  have rows: "scope_rows U ApplicationScope refused_limit = [(''history.max_entries_per_profile'', ''entry_limit'', Some 2000000, None)]"
    by (simp add: scope_rows_def refused_limit_def in_scope_def same_id_def no_rows_def)
  have sid: "from_storage_key mobile ''history.max_entries_per_profile'' = Some HistoryMaxEntriesPerProfile"
    using from_storage_key_of[of mobile HistoryMaxEntriesPerProfile] by (simp add: setting_key_def)
  have "decode_value ''entry_limit'' (Some 2000000) None = Inr (EntryLimitValue (Entries 2000000))"
    by (simp add: decode_value_def kind_from_word_def non_zero_u32_def u32_try_from_def)
  then show "resolved_limit U mobile refused_limit = Some (Entries 1000)"
    by (simp add: resolved_limit_def load_layer_def read_only_def tx_bind_def tx_return_def sql_query_def sql_def rows load_row_def sid
        set_value_def check_def check_value_def settings_defs layer_new_def typed_resolve_def resolve_value_def layer_value_def
        get_value_def map_filter_simps)
  show "current_max_entries mobile refused_limit = Some 2000000"
    by (simp add: current_max_entries_def refused_limit_def no_rows_def setting_key_def u32_try_from_def)
qed

section \<open>Recording and reading\<close>

lemma recorded_rows:
  assumes ok: "tables_ok t" and rec: "record_history U mobile e F t = (Inr i, t')"
  defines "key \<equiv> hyphenated U (entry_profile e)"
  shows "profile_history k t' = (if same_id k key
    then let rows = profile_history key t @ [entry_row key i e] in
      drop (case current_max_entries mobile t of None \<Rightarrow> 0 | Some n \<Rightarrow> length rows - n) rows
    else profile_history k t)"
proof -
  note r = record_history_success[OF rec, folded key_def]
  have n: "count_in key (history_meta t) = int (length (profile_history key t))" using ok by (simp add: tables_ok_def counters_ok_alt)
  have same: "profile_history k x = profile_history key x" if "same_id k key" for x using that by (auto simp: profile_history_def same_id_def)
  have "nat (int (length (profile_history key t)) + 1 - int m) = Suc (length (profile_history key t)) - m" for m by simp
  then show ?thesis
    unfolding r(4) n by (auto simp: profile_history_added profile_history_trimmed same r(3) Let_def split: option.splits)
qed

context uuid_text
begin

lemma recorded_history:
  assumes "stored U low mobile t" and "wf_outcome (entry_outcome e)" and rec: "record_history U mobile e F t = (Inr i, t')"
    and limit: "current_max_entries mobile t = limit_count l"
  shows "history_list U p t' =
    (if p = entry_profile e then take_limit l (record_of i e # history_list U p t) else history_list U p t)"
proof -
  note ok = stored_tables_ok[OF assms(1)] and ent = stored_entries_ok[OF assms(1)]
  have ent': "entries_ok t'" using record_entries_ok[OF ent assms(2), of U mobile F] rec by simp
  have drop_rev: "rev (drop (length xs - n) xs) = take n (rev xs)" for n and xs :: "history_row list" by (simp add: take_rev)
  show ?thesis
    unfolding history_list_rows[OF ent] history_list_rows[OF ent'] recorded_rows[OF ok rec] same_id_hyphenated limit
    using row_record_entry[OF assms(2)]
    by (cases l) (simp_all add: Let_def limit_count_def drop_rev take_map flip: take_map del: drop_append length_append)
qed

end

lemma ids_descend:
  assumes "history_ok t" shows "sorted_wrt (\<lambda>a b. hist_id b < hist_id a) (rev (profile_history key t))"
  using assms by (simp add: history_ok_def profile_history_def sorted_wrt_rev sorted_wrt_map sorted_wrt_filter)

lemma filter_below:
  assumes "sorted_wrt (\<lambda>a b. f b < (f a :: int)) xs" and "m < length xs"
  shows "filter (\<lambda>x. f x < f (xs ! m)) xs = drop (Suc m) xs"
  using assms
proof (induction xs arbitrary: m)
  case (Cons x xs)
  show ?case
  proof (cases m)
    case 0
    with Cons.prems show ?thesis by (auto simp: filter_id_conv)
  next
    case (Suc n)
    with Cons.prems have "f (xs ! n) < f x" by simp
    with Suc Cons show ?thesis by (simp add: not_less less_imp_le)
  qed
qed simp

lemma read_history:
  assumes "entries_ok t" and "set (page_rows (hyphenated U p) pg t) \<subseteq> set (history_table t)"
  shows "history U p pg (\<lambda>_. None) t = Inr (map (row_record p) (page_rows (hyphenated U p) pg t))"
  using decode_rows[OF assms] by (simp add: history_def read_only_def sql_query_def sql_def)

text \<open>
  C12. A profile's history is its newest entries.  After any sequence of operations, recording an entry
  gives it an id above every id in the history, puts it at the head of its profile's history and cuts
  that history at the number of entries the settings of the application resolve to; the histories of
  the other profiles are unchanged.  Times and counts above an \<^verbatim>\<open>i64\<close> are stored as its maximum.
\<close>

theorem history_keeps_the_newest:
  assumes "uuid_text U" and "stored U low mobile t" and "wf_outcome (entry_outcome e)"
    and "record_history U mobile e F t = (Inr i, t')"
  shows "\<exists>l. resolved_limit U mobile t = Some l \<and>
    history_list U p t' = (if p = entry_profile e then take_limit l (record_of i e # history_list U p t) else history_list U p t) \<and>
    list_all (\<lambda>r. record_id r < i) (history_list U p t)"
proof -
  note ok = stored_tables_ok[OF assms(2)]
  obtain l where l: "resolved_limit U mobile t = Some l" "current_max_entries mobile t = limit_count l"
    using resolved_limit_current[OF uuid_text.stored_settings_ok[OF assms(1,2)]] ok by (auto simp: tables_ok_def)
  have "record_id (row_record p r) < i" if "r \<in> set (history_table t)" for r
    using that ok record_history_success(3)[OF assms(4)] stored_entries_ok[OF assms(2)]
    by (auto simp: entries_ok_def decode_entry_row(2) tables_ok_def history_ok_def)
  then have "list_all (\<lambda>r. record_id r < i) (history_list U p t)"
    by (auto simp: history_list_rows[OF stored_entries_ok[OF assms(2)]] list_all_iff profile_history_def)
  with l uuid_text.recorded_history[OF assms(1-4) l(2)] show ?thesis by blast
qed

text \<open>
  Pages walk through a profile's history.  After any sequence of operations the first page of
  \<open>n\<close> entries is the first \<open>n\<close> of the history, newest first, and the page after any entry of it is
  the next \<open>n\<close>: no entry is skipped or shown twice.
\<close>

theorem pages_walk_the_history:
  fixes p :: uuid
  assumes "stored U low mobile t"
  defines "xs \<equiv> history_list U p t"
  shows "history U p (first_page n) (\<lambda>_. None) t = Inr (take (unat n) xs) \<and>
    (m < length xs \<longrightarrow> history U p (page_after n (record_id (xs ! m))) (\<lambda>_. None) t = Inr (take (unat n) (drop (Suc m) xs)))"
proof -
  let ?rows = "rev (profile_history (hyphenated U p) t)"
  note ent = stored_entries_ok[OF assms(1)]
  have xs: "xs = map (row_record p) ?rows" by (simp add: xs_def history_list_rows[OF ent])
  have rows: "entry_row_ok r" if "r \<in> set ?rows" for r using that ent by (auto simp: entries_ok_def profile_history_def)
  have first: "page_rows (hyphenated U p) (first_page n) t = take (unat n) ?rows"
    by (simp add: page_rows_def first_page_def profile_history_def)
  have after: "page_rows (hyphenated U p) (page_after n b) t = take (unat n) (filter (\<lambda>r. hist_id r < b) ?rows)" for b
    by (simp add: page_rows_def page_after_def profile_history_def rev_filter conj_commute)
  have sub: "set (take k ?rows) \<subseteq> set (history_table t)" "set (take k (filter P ?rows)) \<subseteq> set (history_table t)" for k P
    by (auto simp: profile_history_def dest!: in_set_takeD)
  have "filter (\<lambda>r. hist_id r < record_id (xs ! m)) ?rows = drop (Suc m) ?rows" if "m < length xs"
  proof -
    have "record_id (xs ! m) = hist_id (?rows ! m)" using that rows[OF nth_mem] by (simp add: xs decode_entry_row(2) del: set_rev)
    then show ?thesis using that filter_below[OF ids_descend, of t m "hyphenated U p"] stored_tables_ok[OF assms(1)]
      by (simp add: xs tables_ok_def)
  qed
  then show ?thesis
    using read_history[OF ent, of U p "first_page n"] read_history[OF ent, of U p "page_after n (record_id (xs ! m))"] sub
    by (auto simp: first after xs take_map drop_map)
qed

section \<open>An instance\<close>

definition sample_entry :: history_entry where
  "sample_entry = \<lparr>entry_profile = 7, entry_executed_at = 5, entry_statement = us ''select 1'', entry_outcome = Failed (Some 942),
     entry_elapsed_ms = 3, entry_row_count = None\<rparr>"

definition sample_recorded :: tables where
  "sample_recorded = snd (record_history canonical_uuid False sample_entry (\<lambda>_. None) sample_tables)"

lemma sample_entry_valid: "validate_entry sample_entry = Inr ()"
proof -
  have "trim (us ''select 1'') \<noteq> []" "byte_len (us ''select 1'') = 8" by code_simp+
  then show ?thesis by (simp add: validate_entry_def sample_entry_def MAX_STATEMENT_BYTES_def)
qed

lemma sample_entry_recorded: "\<exists>i. record_history canonical_uuid False sample_entry (\<lambda>_. None) sample_tables = (Inr i, sample_recorded)"
proof -
  have "entry_profile sample_entry = 7" by (simp add: sample_entry_def)
  then have "\<exists>i t'. record_history canonical_uuid False sample_entry (\<lambda>_. None) sample_tables = (Inr i, t')"
    using sample_has_profile
    by (simp add: record_history_def sample_entry_valid Let_def transaction_def tx_bind_def sql_query_def sql_exec_def sql_def tx_return_def
        split: prod.splits option.splits)
  then show ?thesis by (auto simp: sample_recorded_def)
qed

lemma sample_entry_wf: "wf_outcome (entry_outcome sample_entry)"
  by (simp add: sample_entry_def I32_MIN_def I32_MAX_def)

lemma sample_recorded_stored: "stored canonical_uuid no_case False sample_recorded"
proof -
  obtain i where "record_history canonical_uuid False sample_entry (\<lambda>_. None) sample_tables = (Inr i, sample_recorded)"
    using sample_entry_recorded by blast
  then show ?thesis
    by (intro stored_op[OF sample_stored, where op = "RecordHistory sample_entry" and F = "\<lambda>_. None" and r = None]) (simp_all add: op_result_def sample_entry_wf)
qed

theorem history_keeps_the_newest_witness:
  "\<exists>i l. history_list canonical_uuid 7 sample_recorded = take_limit l (record_of i sample_entry # history_list canonical_uuid 7 sample_tables)"
proof -
  obtain i where "record_history canonical_uuid False sample_entry (\<lambda>_. None) sample_tables = (Inr i, sample_recorded)"
    using sample_entry_recorded by blast
  from history_keeps_the_newest[OF canonical.uuid_text_axioms sample_stored sample_entry_wf this, of 7]
  show ?thesis by (auto simp: sample_entry_def)
qed

theorem pages_walk_the_history_witness:
  "history canonical_uuid 7 (first_page 10) (\<lambda>_. None) sample_recorded = Inr (take 10 (history_list canonical_uuid 7 sample_recorded))"
  using pages_walk_the_history[OF sample_recorded_stored, of 7 10] by simp

end
