(* ===== verification/Workspace_Schema.thy ===== *)
theory Workspace_Schema
  imports Workspace_Database_Properties
begin

text \<open>
  The file's format: \<^verbatim>\<open>crates/workspace/src/store/schema.rs\<close>.  A file is its header, the names of its
  tables and indexes, and the rows.  Opening it reads the header, refuses what this build does not
  understand and runs the pending steps in one transaction.  Between the first reading of the header
  and the transaction another connection may migrate the same file: the file then found is an
  argument.  SQLite's automatic indexes are left out of the names, which are only counted.
\<close>

section \<open>The header\<close>

definition APPLICATION_ID :: int where "APPLICATION_ID = 0x524C4458"

definition SCHEMA_VERSION :: u32 where "SCHEMA_VERSION = 4"

record db_file =
  application_id :: int
  user_version :: int
  objects :: "string list"
  content :: tables

datatype header = EmptyHeader | ReldexHeader u32

definition read_header :: "db_file \<Rightarrow> store_error + header" where
  "read_header f =
     (if application_id f = APPLICATION_ID
      then case u32_try_from (user_version f) of
             None \<Rightarrow> Inl NotAReldexStore
           | Some version \<Rightarrow>
               if version > SCHEMA_VERSION then Inl (NewerSchema version SCHEMA_VERSION)
               else if version = 0 \<and> objects f \<noteq> [] then Inl IncompleteHeader
               else Inr (ReldexHeader version)
      else if application_id f = 0 \<and> user_version f = 0 \<and> objects f = [] then Inr EmptyHeader
      else Inl NotAReldexStore)"

definition inspect :: "(db_file, header) txn" where
  "inspect = tx_bind (sql_query read_header) (\<lambda>r. case r of Inl e \<Rightarrow> tx_fail e | Inr h \<Rightarrow> tx_return h)"

section \<open>The steps\<close>

definition create_object :: "string \<Rightarrow> (tables \<Rightarrow> tables) \<Rightarrow> (db_file, unit) txn" where
  "create_object name fresh =
     tx_bind (sql (\<lambda>f. if name \<in> set (objects f) then (False, f)
                      else (True, f\<lparr>objects := objects f @ [name], content := fresh (content f)\<rparr>)))
       (\<lambda>created. if created then tx_return () else tx_fail (Sqlite 1 (us ''table '' @ us name @ us '' already exists'')))"

definition on_content :: "(tables \<Rightarrow> tables) \<Rightarrow> (db_file, unit) txn" where
  "on_content g = sql_exec (\<lambda>f. f\<lparr>content := g (content f)\<rparr>)"

definition v1 :: "(db_file, unit) txn" where
  "v1 = tx_bind (create_object ''profile'' (\<lambda>t. t\<lparr>profile_table := []\<rparr>)) (\<lambda>_.
        create_object ''setting'' (\<lambda>t. t\<lparr>setting_table := []\<rparr>))"

definition v2 :: "(db_file, unit) txn" where
  "v2 = tx_bind (create_object ''history'' (\<lambda>t. t\<lparr>history_table := [], history_sequence := 0\<rparr>)) (\<lambda>_.
        create_object ''history_profile_id_idx'' (\<lambda>t. t))"

definition v3 :: "(db_file, unit) txn" where
  "v3 = tx_bind (on_content (\<lambda>t. t\<lparr>setting_table := filter (\<lambda>r. set_scope r \<noteq> ''worksheet'') (setting_table t)\<rparr>)) (\<lambda>_.
        tx_bind (create_object ''worksheet'' (\<lambda>t. t\<lparr>worksheet_table := []\<rparr>)) (\<lambda>_.
        tx_bind (create_object ''worksheet_setting'' (\<lambda>t. t\<lparr>worksheet_setting_table := []\<rparr>)) (\<lambda>_.
        create_object ''layout'' (\<lambda>t. t\<lparr>layout_table := None\<rparr>))))"

text \<open>\<^verbatim>\<open>SELECT profile_id, count(*) ... GROUP BY profile_id\<close>.\<close>

function group_counts :: "history_row list \<Rightarrow> (ustr \<times> int) list" where
  "group_counts [] = []"
| "group_counts (r # rs) =
     (hist_profile r, 1 + int (length (filter (\<lambda>x. same_id (hist_profile x) (hist_profile r)) rs))) #
     group_counts (filter (\<lambda>x. \<not> same_id (hist_profile x) (hist_profile r)) rs)"
  by pat_completeness auto
termination by (relation "measure length") (auto simp: le_imp_less_Suc)

definition v4 :: "(db_file, unit) txn" where
  "v4 = tx_bind (create_object ''history_meta'' (\<lambda>t. t\<lparr>history_meta := []\<rparr>)) (\<lambda>_.
        on_content (\<lambda>t. t\<lparr>history_meta := history_meta t @ group_counts (history_table t)\<rparr>))"

record migration =
  step_to :: u32
  step_run :: "(db_file, unit) txn"

definition MIGRATIONS :: "migration list" where
  "MIGRATIONS = [\<lparr>step_to = 1, step_run = v1\<rparr>, \<lparr>step_to = 2, step_run = v2\<rparr>, \<lparr>step_to = 3, step_run = v3\<rparr>,
     \<lparr>step_to = 4, step_run = v4\<rparr>]"

section \<open>Migration\<close>

fun run_steps :: "migration list \<Rightarrow> (db_file, unit) txn" where
  "run_steps [] = tx_return ()"
| "run_steps (s # ss) = tx_bind (step_run s) (\<lambda>_. run_steps ss)"

record migrated =
  from_version :: u32
  to_version :: u32

definition migrate_from :: "migration list \<Rightarrow> u32 \<Rightarrow> u32 \<Rightarrow> (db_file, migrated) txn" where
  "migrate_from steps target from =
     (if from > target then tx_fail (NewerSchema from target)
      else tx_bind (run_steps (filter (\<lambda>s. step_to s > from \<and> step_to s \<le> target) steps)) (\<lambda>_.
        tx_bind (if from < target
          then tx_bind (sql_exec (\<lambda>f. f\<lparr>application_id := APPLICATION_ID\<rparr>)) (\<lambda>_.
            sql_exec (\<lambda>f. f\<lparr>user_version := uint target\<rparr>))
          else tx_return ()) (\<lambda>_.
        tx_return \<lparr>from_version = from, to_version = target\<rparr>)))"

definition migrate_with ::
  "migration list \<Rightarrow> u32 \<Rightarrow> store_error option \<Rightarrow> faults \<Rightarrow> db_file \<Rightarrow> db_file \<Rightarrow> (store_error + migrated) \<times> db_file" where
  "migrate_with steps target first F found f =
     (case read_only inspect (\<lambda>_. first) f of
        Inl e \<Rightarrow> (Inl e, f)
      | Inr h \<Rightarrow>
          if h = ReldexHeader target then (Inr \<lparr>from_version = target, to_version = target\<rparr>, f)
          else transaction
            (tx_bind inspect (\<lambda>h. migrate_from steps target (case h of EmptyHeader \<Rightarrow> 0 | ReldexHeader version \<Rightarrow> version)))
            F found)"

definition migrate :: "store_error option \<Rightarrow> faults \<Rightarrow> db_file \<Rightarrow> db_file \<Rightarrow> (store_error + migrated) \<times> db_file" where
  "migrate = migrate_with MIGRATIONS SCHEMA_VERSION"

section \<open>Files of each version\<close>









section \<open>Opening a file\<close>
















lemma read_inspect: "read_only inspect (\<lambda>_. first) f = Inr h \<longleftrightarrow> first = None \<and> read_header f = Inr h"
  by (auto simp: read_only_def inspect_def tx_bind_def sql_query_def sql_def tx_fail_def tx_return_def split: option.splits sum.splits)








text \<open>
  A failed opening writes nothing: a file this build does not understand (of another program, of a
  newer build, with an incomplete header) is refused as it was, and when a step or the commit fails
  the file is the one the transaction found.
\<close>

theorem failed_migration_writes_nothing:
  assumes "migrate first F found f = (Inl e, f')"
  shows "f' = f \<and> (first = Some e \<or> read_header f = Inl e) \<or> f' = found \<and> (\<exists>h. read_header f = Inr h \<and> h \<noteq> ReldexHeader SCHEMA_VERSION)"
proof (cases "read_only inspect (\<lambda>_. first) f")
  case (Inl x)
  then have "first = Some x \<or> read_header f = Inl x"
    by (auto simp: read_only_def inspect_def tx_bind_def sql_query_def sql_def tx_fail_def tx_return_def split: option.splits sum.splits)
  with Inl assms show ?thesis by (auto simp: migrate_def migrate_with_def)
next
  case (Inr h)
  with assms transaction_Inl show ?thesis
    by (auto simp: migrate_def migrate_with_def read_inspect split: if_splits)
qed

section \<open>An instance\<close>

definition new_file :: db_file where
  "new_file = \<lparr>application_id = 0, user_version = 0, objects = [], content = no_rows\<rparr>"



theorem failed_migration_writes_nothing_witness:
  "migrate None (\<lambda>_. None) (new_file\<lparr>application_id := APPLICATION_ID, user_version := 5\<rparr>) (new_file\<lparr>application_id := APPLICATION_ID, user_version := 5\<rparr>) =
     (Inl (NewerSchema 5 4), new_file\<lparr>application_id := APPLICATION_ID, user_version := 5\<rparr>)"
proof -
  let ?f = "new_file\<lparr>application_id := APPLICATION_ID, user_version := 5\<rparr>"
  have "read_header ?f = Inl (NewerSchema 5 4)"
    by (simp add: read_header_def u32_try_from_def SCHEMA_VERSION_def)
  then have "fst (migrate None (\<lambda>_. None) ?f ?f) = Inl (NewerSchema 5 4)"
    by (simp add: migrate_def migrate_with_def read_only_def inspect_def tx_bind_def sql_query_def sql_def tx_fail_def)
  then have m: "migrate None (\<lambda>_. None) ?f ?f = (Inl (NewerSchema 5 4), snd (migrate None (\<lambda>_. None) ?f ?f))" by (metis prod.collapse)
  from failed_migration_writes_nothing[OF m] m show ?thesis by auto
qed

end
