(* ===== verification/Spec2Isabelle.thy ===== *)
theory Spec2Isabelle
  imports Scaled_Number Sql_Block_Nesting Session_Results Event_Queue_Properties Session_Registry_Properties
    Oracle_Connect_Correct Oracle_Handoff Oracle_Error_Correct Oracle_Timestamp Oracle_Output Oracle_Lob
    Workspace_Database_History Workspace_Schema
begin

text \<open>
  A verification development of reldex, a database workbench written in Rust.

  \<^bold>\<open>The program.\<close>  A driver talks to a database and hands values, row batches and errors over
  in the vocabulary of \<^verbatim>\<open>db-driver-api\<close>.  \<^verbatim>\<open>db-core\<close> runs every session on a worker
  thread, turns what happens into events on one shared queue, and keeps the rows of open
  results in compact stores that decide when to fetch more.  \<^verbatim>\<open>sql-text\<close> colours an editor's
  text and cuts a script into statements.  \<^verbatim>\<open>workspace\<close> keeps the user's settings, profiles
  and history.  The model follows these parts; paths below are
  relative to \<^verbatim>\<open>src/crates\<close>.

  \<^bold>\<open>Values.\<close>
  \<^item> \<open>Reldex_Prelude\<close>: the development's view of Rust strings (lists of code points with
    byte lengths and offsets), checked and saturating arithmetic, slices, growable vectors with
    their capacity, and the list lemmas shared below.
  \<^item> \<open>Decimal_Number\<close> (\<^verbatim>\<open>db-driver-api/src/value/number.rs\<close>): the decimal of at most 40
    digits.  Parsing never rounds, rendering is lossless, the order is that of the rationals
    denoted, the conversions from and to machine integers are exact.
  \<^item> \<open>Scaled_Number\<close> (\<^verbatim>\<open>db-core/src/store/scaled.rs\<close>): the 64-bit mantissa with a scale that
    a store keeps instead of a decimal, exact where it exists and rendered identically.
  \<^item> \<open>Temporal\<close> (\<^verbatim>\<open>value/temporal.rs\<close>): timestamps in the historical calendar.
  \<^item> \<open>Driver_Error\<close> (\<^verbatim>\<open>error.rs\<close>, \<^verbatim>\<open>db-core/src/ids.rs\<close>): errors, positions, identifiers.

  \<^bold>\<open>SQL text.\<close>
  \<^item> \<open>Sql_Token\<close>, \<open>Sql_Dialect\<close>, \<open>Sql_Lexer\<close> (\<^verbatim>\<open>sql-text/src/token.rs\<close>, \<^verbatim>\<open>dialect.rs\<close>,
    \<^verbatim>\<open>lexer.rs\<close>, \<^verbatim>\<open>drivers/oracle-thin/src/sql_dialect.rs\<close>): one definition per rule of
    the lexer, in the order the code tries them.  \<open>Sql_Lexer_Correct\<close>: tokens tile every text,
    lexing line by line through the editor's 32-bit state agrees with lexing the document, and
    quoted literals are one token.  The Unicode tables of the standard library are the record
    \<open>unicode\<close>, a parameter of the lexer; no theorem assumes anything of it.
  \<^item> \<open>Sql_Splitter\<close> (\<^verbatim>\<open>splitter.rs\<close>): the scans of the splitter as recursive functions over
    the token list with their termination proofs.  \<open>Sql_Splitter_Correct\<close>: the splitter
    returns on every script, and its spans are ordered, disjoint and cover everything;
    \<open>Sql_Block_Nesting\<close>: a PL/SQL block is one statement that ends at its own END, and two
    inputs on which it is not.

  \<^bold>\<open>Results.\<close>
  \<^item> \<open>Row_Batch\<close> (\<^verbatim>\<open>db-driver-api/src/result.rs\<close>, \<^verbatim>\<open>types.rs\<close>, \<^verbatim>\<open>value/mod.rs\<close>): columns,
    NULL masks and batches; the locale \<open>value_column\<close> is what every packed column promises.
  \<^item> \<open>Result_Policy\<close>, \<open>Result_Segment\<close> (\<^verbatim>\<open>store/policy.rs\<close>, \<^verbatim>\<open>store/segment.rs\<close>): caps and
    the compaction of a batch into a segment of exact size.  Parking a large object and the
    sizes of two structures are parameters.
  \<^item> \<open>Result_Store\<close> (\<^verbatim>\<open>store/result_store.rs\<close>): the store as a record and one definition
    per operation; a panic of a debug build is a missing value.  \<open>Result_Store_Correct\<close> relates
    it to the list of its rows, \<open>Result_Store_Invariant\<close> gives the step relation of its
    inputs, replies and pump, and the invariant of all reachable states, and
    \<open>Result_Store_Properties\<close> what follows: reads refine the row list, the row cap is exact,
    the pump ends, an open store is not stuck, an ended one is final.
  \<^item> \<open>Session_Results\<close> (\<^verbatim>\<open>store/session_results.rs\<close>): the results of a session under its
    events, through the locale \<open>store_transition\<close>.

  \<^bold>\<open>Events.\<close>
  \<^item> \<open>Session_Event\<close>, \<open>Event_Queue\<close> (\<^verbatim>\<open>db-core/src/events.rs\<close>, \<^verbatim>\<open>emit\<close> and
    \<^verbatim>\<open>emit_reply\<close> of \<^verbatim>\<open>shared.rs\<close>): the queue with its cap, coalescing and reply slots.  All
    operations hold one mutex, so the runs of \<open>Event_Queue_Correct\<close> are sequences of them.
    \<open>Event_Queue_Properties\<close>: replies are delivered once and in order, the queue is bounded, no
    line is lost silently, the newest transaction state survives, and dropping the consumer
    frees every slot.

  \<^bold>\<open>Sessions.\<close>
  \<^item> \<open>Execution_Outcome\<close> (\<^verbatim>\<open>result.rs\<close>, \<^verbatim>\<open>server_output.rs\<close>, \<^verbatim>\<open>session.rs\<close> of
    \<^verbatim>\<open>db-driver-api\<close>): what an execution returns, with cursors and locators as opaque handles.
  \<^item> \<open>Session_Shared\<close> (\<^verbatim>\<open>db-core/src/shared.rs\<close>): the state a session and its worker share:
    life cycle, transaction tracking, how it ended, and the log of what it handed to its sink.
  \<^item> \<open>Session_Worker\<close> (\<^verbatim>\<open>worker.rs\<close>, \<^verbatim>\<open>reply.rs\<close>): every method of the worker and its
    dispatch as state transformers.  The driver is a record of operations on a state of its own,
    each of which returns a value, an error or panics; nothing is assumed of it except where a
    theorem says so.
  \<^item> \<open>Session_Worker_Correct\<close>, \<open>Session_Worker_Answers\<close>: what each method leaves alone, and that
    it sends the one answer its request is owed.  \<open>Session_System\<close>: the step relation of the
    command channel, the worker and the threads that hold the session, and the invariant of its
    reachable states.  \<open>Session_Transactions\<close>: which commands can reach the driver's commit, when a
    command returns, and what a clean end means.
  \<^item> \<open>Session_Properties\<close>: every request is answered once, \<^verbatim>\<open>Terminal\<close> is the last word, a
    loss is final, handles are bounded and released, nothing commits unasked, a clean end lost
    nothing, and three places where the code falls short of its documentation.
  \<^item> \<open>Session_Registry\<close> (\<^verbatim>\<open>registry.rs\<close>, the opening in \<^verbatim>\<open>worker_main\<close>, the abandon of a handle in
    \<^verbatim>\<open>session.rs\<close>): every session of the program at its stage, and the steps in which opens,
    connects that return, abandons, retirements and the work of \<open>Session_System\<close> interleave; a
    decision under the registry's mutex and the events that follow from it are separate steps.
    \<open>Session_Registry_Correct\<close>: the invariant.  \<open>Session_Registry_Properties\<close>: every open is answered
    once, an abandoned one at once and never adopted, and no entry outlives what it stands for.

  \<^bold>\<open>The Oracle driver's reading of a statement.\<close>
  \<^item> \<open>Oracle_Classify\<close> (\<^verbatim>\<open>drivers/oracle-thin/src/classify.rs\<close>): the scanner of leading keywords
    and the transcription of the protocol client's rule for statements that return rows; when the
    two agree, and an input on which they do not.
  \<^item> \<open>Oracle_Rewrite\<close> (\<^verbatim>\<open>rewrite.rs\<close>): trigger definitions, the punctuation removed from them, the
    literal they are wrapped in and the transcription of the client's scan for placeholders.  The
    text sent holds no placeholder, and the literal is worth the statement.

  \<^bold>\<open>The Oracle driver around its protocol client.\<close>  The client is not part of the repository; what
  is called of it is an argument.
  \<^item> \<open>Oracle_Connect\<close> (\<^verbatim>\<open>endpoint.rs\<close>, \<^verbatim>\<open>descriptor.rs\<close>, \<^verbatim>\<open>build_config\<close> of \<^verbatim>\<open>conn.rs\<close>): connect
    strings, the scanner of descriptors and the configuration of a connection.
    \<open>Oracle_Connect_Correct\<close>: the configuration is no weaker than the parameters ask for, and a
    descriptor made of names says nothing else.
  \<^item> \<open>Oracle_Handoff\<close> (\<^verbatim>\<open>connect_timeout.rs\<close>): the rendezvous of a connect that may be given up, as the
    steps of two threads; a late connection is closed once.
  \<^item> \<open>Oracle_Error\<close> (\<^verbatim>\<open>error.rs\<close>): codes and positions in a server's message and the mapping of the
    client's failures; \<open>Oracle_Error_Correct\<close>: what survives of them.
  \<^item> \<open>Oracle_Timestamp\<close> (\<^verbatim>\<open>value.rs\<close>, \<^verbatim>\<open>binds.rs\<close>): the calendar is a bijection and timestamps survive
    the wire.
  \<^item> \<open>Utf8_Text\<close>: UTF-8 as the standard library encodes and decodes it.  \<open>Oracle_Output\<close>
    (\<^verbatim>\<open>server_output.rs\<close>): the lines a block of PL/SQL packs and the driver unpacks; none is lost.
    \<open>Oracle_Lob\<close> (\<^verbatim>\<open>lob.rs\<close>): large objects in chunks of whole characters.

  \<^bold>\<open>Workspace.\<close>
  \<^item> \<open>Workspace_Settings\<close> (\<^verbatim>\<open>workspace/src/settings\<close>, the values of \<^verbatim>\<open>store/codec.rs\<close>): values,
    registry, layers and resolution.  The locale \<open>setting_type\<close> is the trait \<^verbatim>\<open>SettingType\<close>,
    interpreted for its five implementations.
  \<^item> \<open>Workspace_Profile\<close> (\<^verbatim>\<open>ids.rs\<close>, \<^verbatim>\<open>profile.rs\<close>, the profile rows of \<^verbatim>\<open>store/codec.rs\<close>):
    profiles, their validation, the guard against credentials in endpoint texts, and their rows.
    The textual form of an identifier is a parameter whose laws are the locale \<open>uuid_text\<close>,
    interpreted by the canonical form.  \<open>Workspace_Connect\<close> (\<^verbatim>\<open>connect.rs\<close>, \<^verbatim>\<open>params.rs\<close> and
    \<^verbatim>\<open>statement.rs\<close> of \<^verbatim>\<open>db-driver-api\<close>): from a profile and the settings in force to the
    parameters of a connection and the options of a statement.
  \<^item> \<open>Workspace_Records\<close> (\<^verbatim>\<open>history.rs\<close>, \<^verbatim>\<open>worksheet.rs\<close>, \<^verbatim>\<open>layout.rs\<close>): history entries,
    worksheets and layout.
  \<^item> \<open>Workspace_Database\<close> (\<^verbatim>\<open>store/mod.rs\<close>, \<^verbatim>\<open>store/history.rs\<close>, \<^verbatim>\<open>store/worksheet.rs\<close>): the
    file's tables as lists of rows and every operation as a transaction in a monad of SQL calls,
    each of which may fail.  \<open>Workspace_Database_Correct\<close>: every operation keeps keys unique,
    references alive and counters right.  \<open>Workspace_Database_Properties\<close>,
    \<open>Workspace_Database_Settings\<close>, \<open>Workspace_Database_History\<close>: over every sequence of operations
    profiles are a map, settings are the layers of the resolver and a history is its newest
    entries, and a place where a limit is used that the settings refuse.
  \<^item> \<open>Workspace_Schema\<close> (\<^verbatim>\<open>store/schema.rs\<close>): the file's header and its migration, with another
    connection migrating the same file in between.

  \<^bold>\<open>Bounds.\<close>  Machine integers are natural numbers or integers with their checked, saturating
  or wrapping operations written out; counters of 64 bits that only ever count up (sequence
  numbers) are unbounded.  Loops are recursive functions with a termination proof; the lexer's
  loop stops by a test of progress and is proved never to fail it.  Reading server output may go on
  for as long as the driver has lines, so that loop is \<open>while_option\<close>, and a theorem says which
  promise of the driver ends it.

  \<^bold>\<open>Not modelled.\<close>  The blocking calls of a session handle in \<^verbatim>\<open>db-core\<close>, the waker and the
  blocking wait of the queue; the Oracle driver's connection, cursor, binds and dictionary queries,
  which hand a protocol client's rows through, and the mock driver; the C interface of \<^verbatim>\<open>ffi\<close>, made of raw pointers and
  conversions; the secret stores, which call the operating system; where the
  workspace's file lies, its journal mode and its permissions; the user interface, which is not Rust.
\<close>

end
